(* ===== verification/Prelude.thy ===== *)
theory Prelude
  imports Complex_Main "HOL-Library.Char_ord" "HOL-Library.List_Lexorder"
begin

text \<open>
  Shared vocabulary of the development: fallible computations as sums, SQL tables as lists
  of rows in insertion order with lookup and guarded update by key, Python values that end
  up in text columns (canonical JSON, decimal numbers, joined strings), and the collections
  of rules the component theories extend.
\<close>

named_theorems op_simps \<open>unfolding rules for operations of the stores\<close>
named_theorems frame_intros \<open>facts that say which part of a state an operation leaves alone\<close>

subsection \<open>Fallible computations\<close>

text \<open>
  A Python function that may raise is a function into \<open>'e + 'a\<close>: \<open>Inl\<close> is the exception,
  \<open>Inr\<close> the returned value.  \<open>ebind\<close> sequences two of them.
\<close>

fun ebind :: "'e + 'a \<Rightarrow> ('a \<Rightarrow> 'e + 'b) \<Rightarrow> 'e + 'b" where
  "ebind (Inl e) f = Inl e"
| "ebind (Inr a) f = f a"

definition ensure :: "bool \<Rightarrow> 'e \<Rightarrow> 'e + unit" where
  "ensure b e = (if b then Inr () else Inl e)"

lemma ebind_eq_Inr [simp]: "ebind m f = Inr b \<longleftrightarrow> (\<exists>a. m = Inr a \<and> f a = Inr b)"
  by (cases m) auto

lemma ebind_InrE:
  assumes "ebind m f = Inr b"
  obtains a where "m = Inr a" "f a = Inr b"
  using assms by auto

lemma ebind_eq_Inl: "ebind m f = Inl e \<longleftrightarrow> m = Inl e \<or> (\<exists>a. m = Inr a \<and> f a = Inl e)"
  by (cases m) auto

lemma ensure_eq_Inr [simp]: "ensure b e = Inr u \<longleftrightarrow> b"
  by (simp add: ensure_def)

lemma ensure_eq_Inl [simp]: "ensure b e = Inl e' \<longleftrightarrow> \<not> b \<and> e = e'"
  by (auto simp: ensure_def)

lemma ensure_True [simp]: "ensure True e = Inr ()"
  by (simp add: ensure_def)

lemma ensure_False [simp]: "ensure False e = Inl e"
  by (simp add: ensure_def)

subsection \<open>Tables\<close>

text \<open>
  A table is the list of its rows in insertion order.  \<open>lookup_by\<close> is
  \<open>SELECT * ... WHERE key = k\<close> with \<open>fetchone\<close>, \<open>update_by\<close> is
  \<open>UPDATE ... SET f WHERE key = k AND guard\<close>, and \<open>hits_by\<close> says whether the
  statement changed a row (\<open>cursor.rowcount\<close>, the keys being unique).
\<close>

definition lookup_by :: "('r \<Rightarrow> 'k) \<Rightarrow> 'k \<Rightarrow> 'r list \<Rightarrow> 'r option" where
  "lookup_by key k rows = find (\<lambda>r. key r = k) rows"

definition update_by :: "('r \<Rightarrow> 'k) \<Rightarrow> 'k \<Rightarrow> ('r \<Rightarrow> bool) \<Rightarrow> ('r \<Rightarrow> 'r) \<Rightarrow> 'r list \<Rightarrow> 'r list" where
  "update_by key k guard f rows = map (\<lambda>r. if key r = k \<and> guard r then f r else r) rows"

definition hits_by :: "('r \<Rightarrow> 'k) \<Rightarrow> 'k \<Rightarrow> ('r \<Rightarrow> bool) \<Rightarrow> 'r list \<Rightarrow> bool" where
  "hits_by key k guard rows = list_ex (\<lambda>r. key r = k \<and> guard r) rows"

lemma lookup_by_Nil [simp]: "lookup_by key k [] = None"
  by (simp add: lookup_by_def)

lemma lookup_by_Cons [simp]:
  "lookup_by key k (r # rows) = (if key r = k then Some r else lookup_by key k rows)"
  by (simp add: lookup_by_def)

lemma lookup_by_append:
  "lookup_by key k (xs @ ys) = (case lookup_by key k xs of Some r \<Rightarrow> Some r | None \<Rightarrow> lookup_by key k ys)"
  by (induction xs) auto

lemma lookup_by_SomeD: "lookup_by key k rows = Some r \<Longrightarrow> r \<in> set rows \<and> key r = k"
  by (induction rows) (auto split: if_splits)

lemma lookup_by_None_iff: "lookup_by key k rows = None \<longleftrightarrow> k \<notin> key ` set rows"
  by (induction rows) auto

lemma lookup_by_eq_Some_iff:
  "distinct (map key rows) \<Longrightarrow> lookup_by key k rows = Some r \<longleftrightarrow> r \<in> set rows \<and> key r = k"
  by (induction rows) (auto simp: image_iff)

lemma lookup_by_mem: "distinct (map key rows) \<Longrightarrow> r \<in> set rows \<Longrightarrow> lookup_by key (key r) rows = Some r"
  by (simp add: lookup_by_eq_Some_iff)

lemma key_update_by:
  assumes "\<And>r. key r = k \<Longrightarrow> key (f r) = key r"
  shows "map key (update_by key k guard f rows) = map key rows"
  using assms by (simp add: update_by_def)

lemma update_by_Nil [simp]: "update_by key k guard f [] = []"
  by (simp add: update_by_def)

lemma update_by_Cons [simp]:
  "update_by key k guard f (r # rows)
   = (if key r = k \<and> guard r then f r else r) # update_by key k guard f rows"
  by (simp add: update_by_def)

lemma update_by_absent: "\<forall>r \<in> set rows. \<not> (key r = k \<and> guard r) \<Longrightarrow> update_by key k guard f rows = rows"
  by (induction rows) auto

lemma update_by_no_hit: "\<not> hits_by key k guard rows \<Longrightarrow> update_by key k guard f rows = rows"
  by (rule update_by_absent) (auto simp: hits_by_def list_ex_iff)

lemma set_update_byD:
  "r' \<in> set (update_by key k guard f rows) \<Longrightarrow>
   (r' \<in> set rows \<and> \<not> (key r' = k \<and> guard r')) \<or> (\<exists>r \<in> set rows. key r = k \<and> guard r \<and> r' = f r)"
  by (induction rows) (auto split: if_splits)

lemma lookup_update_by:
  assumes "\<And>r. key r = k \<Longrightarrow> key (f r) = key r"
  shows "lookup_by key k' (update_by key k guard f rows)
         = map_option (\<lambda>r. if k' = k \<and> guard r then f r else r) (lookup_by key k' rows)"
  using assms by (induction rows) auto

lemma lookup_by_map:
  assumes "\<And>r. key (f r) = key r"
  shows "lookup_by key k (map f rows) = map_option f (lookup_by key k rows)"
  using assms by (induction rows) auto

lemma hits_by_iff:
  "distinct (map key rows) \<Longrightarrow> hits_by key k guard rows \<longleftrightarrow> (\<exists>r. lookup_by key k rows = Some r \<and> guard r)"
  by (auto simp: hits_by_def list_ex_iff lookup_by_eq_Some_iff)

text \<open>\<open>distinct\<close> of a projection over the rows a filter keeps: partial unique indexes.\<close>

definition unique_where :: "('r \<Rightarrow> bool) \<Rightarrow> ('r \<Rightarrow> 'k) \<Rightarrow> 'r list \<Rightarrow> bool" where
  "unique_where P key rows = distinct (map key (filter P rows))"

lemma unique_whereD:
  "unique_where P key rows \<Longrightarrow> distinct rows \<Longrightarrow> r \<in> set rows \<Longrightarrow> r' \<in> set rows \<Longrightarrow> P r \<Longrightarrow> P r'
   \<Longrightarrow> key r = key r' \<Longrightarrow> r = r'"
  by (auto simp: unique_where_def distinct_map inj_on_def)

subsection \<open>Text and JSON values\<close>

text \<open>Decimal rendering, as \<open>str()\<close> and f-strings print Python's integers.\<close>

definition digit_char :: "nat \<Rightarrow> char" where
  "digit_char d = char_of (48 + d)"

fun show_nat :: "nat \<Rightarrow> string" where
  "show_nat n = (if n < 10 then [digit_char n] else show_nat (n div 10) @ [digit_char (n mod 10)])"

declare show_nat.simps [simp del]

definition show_int :: "int \<Rightarrow> string" where
  "show_int i = (if i < 0 then ''-'' @ show_nat (nat (- i)) else show_nat (nat i))"

fun join_with :: "string \<Rightarrow> string list \<Rightarrow> string" where
  "join_with sep [] = []"
| "join_with sep [s] = s"
| "join_with sep (s # t # ss) = s @ sep @ join_with sep (t # ss)"

definition newline :: string where
  "newline = [char_of (10::nat)]"

definition truthy :: "string option \<Rightarrow> bool" where
  "truthy v = (case v of None \<Rightarrow> False | Some s \<Rightarrow> s \<noteq> [])"

fun starts_with :: "string \<Rightarrow> string \<Rightarrow> bool" where
  "starts_with [] s = True"
| "starts_with (p # ps) [] = False"
| "starts_with (p # ps) (c # cs) = (p = c \<and> starts_with ps cs)"

fun contains_text :: "string \<Rightarrow> string \<Rightarrow> bool" where
  "contains_text p [] = (p = [])"
| "contains_text p (c # cs) = (starts_with p (c # cs) \<or> contains_text p cs)"

definition ends_with :: "string \<Rightarrow> string \<Rightarrow> bool" where
  "ends_with p s = starts_with (rev p) (rev s)"

definition lower_char :: "char \<Rightarrow> char" where
  "lower_char c = (let n = of_char c :: nat in if 65 \<le> n \<and> n \<le> 90 then char_of (n + 32) else c)"

definition lower :: "string \<Rightarrow> string" where
  "lower s = map lower_char s"

lemma starts_with_iff: "starts_with p s \<longleftrightarrow> (\<exists>t. s = p @ t)"
  by (induction p s rule: starts_with.induct) auto

lemma ends_with_append [simp]: "ends_with p (s @ p)"
  by (simp add: ends_with_def starts_with_iff)

text \<open>
  JSON values, and the canonical form that \<open>json.dumps(..., sort_keys=True)\<close> gives a
  value.  A text column that holds such a dump is modelled by the canonical value itself:
  two values have the same dump when their canonical forms are equal.
\<close>

datatype json = JNull | JBool bool | JInt int | JReal real | JStr string
  | JList "json list" | JObj "(string \<times> json) list"

primrec jcanon :: "json \<Rightarrow> json" where
  "jcanon JNull = JNull"
| "jcanon (JBool b) = JBool b"
| "jcanon (JInt i) = JInt i"
| "jcanon (JReal x) = JReal x"
| "jcanon (JStr s) = JStr s"
| "jcanon (JList xs) = JList (map jcanon xs)"
| "jcanon (JObj kvs) = JObj (sort_key fst (map (map_prod id jcanon) kvs))"

fun jget :: "string \<Rightarrow> json \<Rightarrow> json option" where
  "jget k (JObj kvs) = map_of kvs k"
| "jget k _ = None"

text \<open>\<open>{**d, k: v}\<close>: the key keeps its place when the dictionary has it.\<close>

fun jset :: "string \<Rightarrow> json \<Rightarrow> json \<Rightarrow> json" where
  "jset k v (JObj kvs) =
     JObj (if k \<in> fst ` set kvs then map (\<lambda>(k', v'). (k', if k' = k then v else v')) kvs
           else kvs @ [(k, v)])"
| "jset k v j = j"

lemma sort_key_idem: "sort_key f (sort_key f xs) = sort_key f xs"
  by (simp add: sort_key_id_if_sorted)

lemma jcanon_sorted_fst:
  "map (map_prod id jcanon) (sort_key fst kvs) = sort_key fst (map (map_prod id jcanon) kvs)"
proof (induction kvs)
  case (Cons kv kvs)
  have "map (map_prod id jcanon) (insort_key fst kv ys)
        = insort_key fst (map_prod id jcanon kv) (map (map_prod id jcanon) ys)" for ys
    by (induction ys) auto
  with Cons show ?case by (simp del: map_map add: id_def)
qed simp

lemma jcanon_idem [simp]: "jcanon (jcanon j) = jcanon j"
proof (induction j)
  case (JObj kvs)
  then have "map (map_prod id jcanon) (map (map_prod id jcanon) kvs) = map (map_prod id jcanon) kvs"
    by (auto simp: map_prod_def split: prod.splits)
  then show ?case
    by (simp add: jcanon_sorted_fst sort_key_idem del: map_map)
qed auto

end
