(* ===== verification/History.thy ===== *)
theory History
  imports Prelude
begin

text \<open>
  The append-only task history (\<open>history.py\<close>).  A projection row is seen as the list of
  its columns; \<open>change\<close> compares the row before and after a mutation and appends the sparse
  difference.  The locale \<open>recorded_table\<close> states what a projection table must provide
  (a column view whose key columns identify the row) and proves, once for every table, that
  the log stays a complete timeline: replaying the entries of a row gives its tracked
  columns.
\<close>

subsection \<open>Columns and log entries\<close>

datatype sqlval = SNull | SInt int | SReal real | SText string | SJson json

type_synonym sqlrow = "(string \<times> sqlval) list"

datatype entity = ETask | EEffect | EWake | EOutgoing | ECleanup
datatype hkind = HCreated | HTransition | HObservation | HBaseline

record history_row =
  h_seq :: nat
  h_entity :: entity
  h_task_id :: string
  h_epoch :: "int option"
  h_entity_id :: "string option"
  h_kind :: hkind
  h_cause :: string
  h_changed :: sqlrow
  h_missing :: bool
  h_recorded_at :: real

type_synonym hist = "history_row list"

text \<open>\<open>_PROJECTIONS\<close>: the key columns of each projection table.\<close>

fun projection_columns :: "entity \<Rightarrow> string list" where
  "projection_columns ETask = [''task_id'']"
| "projection_columns EEffect = [''task_id'', ''epoch'']"
| "projection_columns EWake = [''wake_id'']"
| "projection_columns EOutgoing = [''task_id'', ''epoch'', ''dedupe_key'']"
| "projection_columns ECleanup = [''task_id'', ''epoch'', ''kind'', ''native_id'']"

definition derived_columns :: "string set" where
  "derived_columns = {''updated_at''}"

fun column_text :: "sqlval option \<Rightarrow> string" where
  "column_text (Some (SText s)) = s"
| "column_text (Some (SInt i)) = show_int i"
| "column_text _ = ''''"

fun int_of :: "sqlval option \<Rightarrow> int option" where
  "int_of (Some (SInt i)) = Some i"
| "int_of _ = None"

definition nonempty :: "string \<Rightarrow> string option" where
  "nonempty s = (if s = '''' then None else Some s)"

text \<open>\<open>_identity\<close>: the task, epoch and entity id under which a row's entries are filed.\<close>

definition identity_task :: "entity \<Rightarrow> sqlrow \<Rightarrow> string" where
  "identity_task e row = column_text (map_of row (if e = EWake then ''parent_task_id'' else ''task_id''))"

definition identity_epoch :: "entity \<Rightarrow> sqlrow \<Rightarrow> int option" where
  "identity_epoch e row = (if e = EWake then None else int_of (map_of row ''epoch''))"

definition identity_entity_id :: "entity \<Rightarrow> sqlrow \<Rightarrow> string option" where
  "identity_entity_id e row =
     nonempty (join_with '':''
       (map (\<lambda>c. column_text (map_of row c))
         (filter (\<lambda>c. c \<noteq> ''task_id'' \<and> c \<noteq> ''epoch'') (projection_columns e))))"

text \<open>\<open>changed_columns\<close>: the new values an update wrote, without the derived columns.\<close>

definition changed_columns :: "sqlrow option \<Rightarrow> sqlrow \<Rightarrow> sqlrow" where
  "changed_columns before after =
     (let previous = (case before of None \<Rightarrow> [] | Some b \<Rightarrow> b)
      in filter (\<lambda>(k, v). k \<notin> derived_columns
                         \<and> (map_of previous k = None \<or> map_of previous k \<noteq> Some v)) after)"

definition record_change ::
  "entity \<Rightarrow> string \<Rightarrow> int option \<Rightarrow> string option \<Rightarrow> hkind \<Rightarrow> string \<Rightarrow> sqlrow \<Rightarrow> bool \<Rightarrow> real \<Rightarrow> hist \<Rightarrow> hist"
where
  "record_change e tid ep eid kind cause changed missing now hist =
     (if changed = [] then hist
      else hist @ [\<lparr>h_seq = Suc (length hist), h_entity = e, h_task_id = tid, h_epoch = ep,
                    h_entity_id = eid, h_kind = kind, h_cause = cause, h_changed = changed,
                    h_missing = missing, h_recorded_at = now\<rparr>])"

text \<open>
  \<open>change\<close>: the context manager around one projection mutation, given the row read before
  and after it.  A body that raises rolls the savepoint back; that case is the \<open>Inl\<close> of the
  operation that uses \<open>change\<close>.
\<close>

definition change ::
  "entity \<Rightarrow> string \<Rightarrow> hkind \<Rightarrow> real \<Rightarrow> sqlrow option \<Rightarrow> sqlrow option \<Rightarrow> hist \<Rightarrow> hist" where
  "change e cause kind now before after hist =
     (case after of
        None \<Rightarrow> hist
      | Some row \<Rightarrow>
          (let changed = changed_columns before row;
               changed' = (if e = EWake then filter (\<lambda>(k, v). k \<noteq> ''payload'') changed else changed)
           in record_change e (identity_task e row) (identity_epoch e row) (identity_entity_id e row)
                (if before = None then HCreated else kind) cause changed' False now hist))"

text \<open>\<open>task_history\<close>: the recorded entries of one task, oldest first.\<close>

definition task_history_of :: "string \<Rightarrow> entity option \<Rightarrow> hist \<Rightarrow> hist" where
  "task_history_of tid e hist =
     filter (\<lambda>h. h_task_id h = tid \<and> (case e of None \<Rightarrow> True | Some e' \<Rightarrow> h_entity h = e')) hist"

subsection \<open>Replay\<close>

text \<open>
  The subject of an entry: the row it is about.  A task keeps one timeline across its
  epochs, so the epoch is not part of a task's subject.
\<close>

definition subject_epoch :: "entity \<Rightarrow> int option \<Rightarrow> int option" where
  "subject_epoch e ep = (if e = ETask then None else ep)"

definition row_subject :: "entity \<Rightarrow> sqlrow \<Rightarrow> string \<times> int option \<times> string option" where
  "row_subject e row =
     (identity_task e row, subject_epoch e (identity_epoch e row), identity_entity_id e row)"

definition entry_subject :: "history_row \<Rightarrow> string \<times> int option \<times> string option" where
  "entry_subject h = (h_task_id h, subject_epoch (h_entity h) (h_epoch h), h_entity_id h)"

definition entries_of :: "entity \<Rightarrow> string \<times> int option \<times> string option \<Rightarrow> hist \<Rightarrow> hist" where
  "entries_of e s hist = filter (\<lambda>h. h_entity h = e \<and> entry_subject h = s) hist"

definition replay :: "hist \<Rightarrow> string \<Rightarrow> sqlval option" where
  "replay hs = foldl (\<lambda>m h. m ++ map_of (h_changed h)) Map.empty hs"

text \<open>
  \<open>recorded e cols U rows hist\<close>: every row is reconstructed by replay in every column
  outside \<open>U\<close>, and no entry is about a row that does not exist.
\<close>

definition recorded ::
  "entity \<Rightarrow> ('r \<Rightarrow> sqlrow) \<Rightarrow> string set \<Rightarrow> 'r list \<Rightarrow> hist \<Rightarrow> bool" where
  "recorded e cols U rows hist \<longleftrightarrow>
     (\<forall>r \<in> set rows. \<forall>c. c \<notin> U \<longrightarrow>
        replay (entries_of e (row_subject e (cols r)) hist) c = map_of (cols r) c)
     \<and> (\<forall>h \<in> set hist. h_entity h = e \<longrightarrow> (\<exists>r \<in> set rows. row_subject e (cols r) = entry_subject h))"

lemma replay_Nil [simp]: "replay [] = Map.empty"
  by (simp add: replay_def)

lemma replay_snoc: "replay (hs @ [h]) = replay hs ++ map_of (h_changed h)"
  by (simp add: replay_def)

lemma entries_of_append: "entries_of e s (hs @ hs') = entries_of e s hs @ entries_of e s hs'"
  by (simp add: entries_of_def)

lemma recorded_Nil [simp]: "recorded e cols U [] []"
  by (simp add: recorded_def)

lemma change_extends: "\<exists>hs. change e cause kind now before after hist = hist @ hs \<and> (\<forall>h \<in> set hs. h_entity h = e)"
  by (auto simp: change_def record_change_def Let_def split: option.splits)

lemma change_prefix: "\<exists>hs. change e cause kind now before after hist = hist @ hs"
  using change_extends by blast

lemma map_of_changed:
  assumes "distinct (map fst after)" and "c \<noteq> ''updated_at''"
  shows "map_of (changed_columns before after) c =
           (case map_of after c of None \<Rightarrow> None
            | Some v \<Rightarrow> if map_of (case before of None \<Rightarrow> [] | Some b \<Rightarrow> b) c = Some v then None else Some v)"
proof -
  let ?p = "case before of None \<Rightarrow> [] | Some b \<Rightarrow> b"
  have "distinct (map fst xs) \<Longrightarrow>
        map_of (filter (\<lambda>(k, v). k \<notin> derived_columns \<and> (map_of ?p k = None \<or> map_of ?p k \<noteq> Some v)) xs) c
        = (case map_of xs c of None \<Rightarrow> None | Some v \<Rightarrow> if map_of ?p c = Some v then None else Some v)" for xs
    using assms(2)
    by (induction xs) (auto simp: derived_columns_def image_iff split: option.splits dest: map_of_SomeD)
  with assms(1) show ?thesis by (simp add: changed_columns_def Let_def)
qed

lemma change_None [simp]: "change e cause kind now before None hist = hist"
  by (simp add: change_def)

lemma changed_columns_same: "distinct (map fst row) \<Longrightarrow> changed_columns (Some row) row = []"
  by (auto simp: changed_columns_def filter_empty_conv)

lemma change_same: "distinct (map fst row) \<Longrightarrow> change e cause kind now (Some row) (Some row) hist = hist"
  by (simp add: change_def changed_columns_same record_change_def)

lemma record_change_entries:
  "replay (entries_of e s (record_change e' tid ep eid kind cause changed missing now hist))
   = (if e' = e \<and> (tid, subject_epoch e ep, eid) = s
      then replay (entries_of e s hist) ++ map_of changed else replay (entries_of e s hist))"
  by (auto simp: record_change_def entries_of_append replay_snoc entries_of_def entry_subject_def)

lemma change_entries_same:
  assumes "distinct (map fst row)" and "c \<noteq> ''updated_at''" and "e = EWake \<Longrightarrow> c \<noteq> ''payload''"
  shows "replay (entries_of e (row_subject e row) (change e cause kind now before (Some row) hist)) c
         = (case map_of row c of None \<Rightarrow> replay (entries_of e (row_subject e row) hist) c
            | Some v \<Rightarrow> if map_of (case before of None \<Rightarrow> [] | Some b \<Rightarrow> b) c = Some v
                       then replay (entries_of e (row_subject e row) hist) c else Some v)"
proof -
  have strip: "map_of (filter (\<lambda>(k, v). k \<noteq> ''payload'') xs) c = map_of xs c" if "c \<noteq> ''payload''"
    for xs :: sqlrow
    using that by (induction xs) auto
  show ?thesis
    using assms(3)
    by (auto simp: change_def record_change_entries Let_def row_subject_def map_add_def strip
        map_of_changed [OF assms(1,2)] split: option.splits)
qed

lemma change_entries_other:
  "e' \<noteq> e \<or> row_subject e' row \<noteq> s \<Longrightarrow>
   replay (entries_of e s (change e' cause kind now before (Some row) hist)) = replay (entries_of e s hist)"
  by (auto simp: change_def record_change_entries Let_def row_subject_def)

lemma change_entry_subjects:
  assumes "h \<in> set (change e cause kind now before (Some row) hist)"
  shows "h \<in> set hist \<or> (h_entity h = e \<and> entry_subject h = row_subject e row)"
  using assms
  by (auto simp: change_def record_change_def Let_def entry_subject_def row_subject_def
      split: if_splits)

lemma set_change_subset: "set hist \<subseteq> set (change e cause kind now before after hist)"
  by (auto simp: change_def record_change_def Let_def split: option.splits)

subsection \<open>The contract of a projection table\<close>

text \<open>
  What \<open>change\<close> relies on: the columns of a row are named once, and the identity of a row
  (what its entries are filed under) is what its columns say it is.  \<open>key\<close> is the key the
  statements select by; rows with the same identity have the same key.  \<open>U\<close> are the columns
  whose updates bypass the log.
\<close>

locale recorded_table =
  fixes e :: entity
    and cols :: "'r \<Rightarrow> sqlrow"
    and key :: "'r \<Rightarrow> 'k"
    and ident :: "'r \<Rightarrow> 'i"
    and U :: "string set"
  assumes cols_distinct: "distinct (map fst (cols r))"
    and same_columns: "map fst (cols r) = map fst (cols r')"
    and subject_ident: "row_subject e (cols r) = row_subject e (cols r') \<longleftrightarrow> ident r = ident r'"
    and ident_key: "ident r = ident r' \<Longrightarrow> key r = key r'"
    and derived_untracked: "''updated_at'' \<in> U"
    and payload_untracked: "e = EWake \<Longrightarrow> ''payload'' \<in> U"
begin

lemma columns_of_None: "map_of (cols r) c = None \<longleftrightarrow> map_of (cols r') c = None"
  using same_columns [of r r'] by (metis dom_map_of_conv_image_fst domIff image_set)

lemma replay_after_change:
  assumes old: "c \<notin> U" "replay (entries_of e (row_subject e (cols r)) hist) c
                 = map_of (case before of None \<Rightarrow> [] | Some b \<Rightarrow> cols b) c"
  shows "replay (entries_of e (row_subject e (cols r))
           (change e cause kind now (map_option cols before) (Some (cols r)) hist)) c = map_of (cols r) c"
proof -
  have c: "c \<noteq> ''updated_at''" "e = EWake \<Longrightarrow> c \<noteq> ''payload''"
    using \<open>c \<notin> U\<close> derived_untracked payload_untracked by auto
  show ?thesis
  proof (cases before)
    case None
    with old(2) show ?thesis
      by (simp add: change_entries_same [OF cols_distinct c] split: option.splits)
  next
    case (Some b)
    then have "map_of (cols r) c = None \<Longrightarrow> map_of (cols b) c = None"
      by (simp add: columns_of_None [of b c r])
    with old(2) Some show ?thesis
      by (auto simp: change_entries_same [OF cols_distinct c] split: option.splits)
  qed
qed

lemma change_unchanged [simp]:
  "change e cause kind now (map_option cols before) (map_option cols before) hist = hist"
  by (cases before) (simp_all add: change_same cols_distinct)

lemma no_entries_before:
  assumes rec: "recorded e cols U rows hist" and new: "key r \<notin> key ` set rows"
  shows "entries_of e (row_subject e (cols r)) hist = []"
proof -
  have no_row: "row_subject e (cols p) \<noteq> row_subject e (cols r)" if "p \<in> set rows" for p
    using that new by (metis imageI subject_ident ident_key)
  have "\<not> (h_entity h = e \<and> entry_subject h = row_subject e (cols r))" if "h \<in> set hist" for h
    using rec that no_row unfolding recorded_def by metis
  then show ?thesis by (simp add: entries_of_def filter_empty_conv)
qed

lemma recorded_change:
  assumes rec: "recorded e cols U rows hist"
    and before: "lookup_by key (key r) rows = before" "\<And>b. before = Some b \<Longrightarrow> ident b = ident r"
    and rows': "\<And>q. q \<in> set rows' \<Longrightarrow> key q \<noteq> key r \<Longrightarrow> q \<in> set rows" "r \<in> set rows'"
      "\<And>q. q \<in> set rows' \<Longrightarrow> key q = key r \<Longrightarrow> q = r"
      "\<And>q. q \<in> set rows \<Longrightarrow> ident q \<in> ident ` set rows'"
  shows "recorded e cols U rows' (change e cause kind now (map_option cols before) (Some (cols r)) hist)"
    (is "recorded e cols U rows' ?hist")
  unfolding recorded_def
proof (intro conjI ballI allI impI)
  fix q c
  assume q: "q \<in> set rows'" and c: "c \<notin> U"
  show "replay (entries_of e (row_subject e (cols q)) ?hist) c = map_of (cols q) c"
  proof (cases "key q = key r")
    case True
    with q rows' have [simp]: "q = r" by blast
    have "replay (entries_of e (row_subject e (cols r)) hist) c
          = map_of (case before of None \<Rightarrow> [] | Some b \<Rightarrow> cols b) c"
    proof (cases before)
      case None
      then have "key r \<notin> key ` set rows" using before by (simp add: lookup_by_None_iff)
      with None rec show ?thesis by (simp add: no_entries_before)
    next
      case (Some b)
      with before have b: "b \<in> set rows" "ident b = ident r" by (auto dest: lookup_by_SomeD)
      then have "row_subject e (cols b) = row_subject e (cols r)" by (simp add: subject_ident)
      with rec b(1) c Some show ?thesis by (auto simp: recorded_def)
    qed
    with c show ?thesis by (simp add: replay_after_change)
  next
    case False
    with q rows' have "q \<in> set rows" by blast
    moreover from False have "row_subject e (cols r) \<noteq> row_subject e (cols q)"
      by (metis subject_ident ident_key)
    ultimately show ?thesis using rec c by (simp add: change_entries_other recorded_def)
  qed
next
  fix h
  assume "h \<in> set ?hist" and e: "h_entity h = e"
  then consider "h \<in> set hist" | "entry_subject h = row_subject e (cols r)"
    by (blast dest: change_entry_subjects)
  then show "\<exists>q \<in> set rows'. row_subject e (cols q) = entry_subject h"
  proof cases
    case 1
    with rec e obtain q where q: "q \<in> set rows" "row_subject e (cols q) = entry_subject h"
      by (auto simp: recorded_def)
    from rows'(4) [OF q(1)] obtain q' where q': "q' \<in> set rows'" "ident q' = ident q" by auto
    then have "row_subject e (cols q') = row_subject e (cols q)" by (simp add: subject_ident)
    with q q' show ?thesis by auto
  qed (use rows'(2) in auto)
qed

lemma recorded_insert:
  assumes "recorded e cols U rows hist" and "key r \<notin> key ` set rows"
  shows "recorded e cols U (rows @ [r]) (change e cause kind now None (Some (cols r)) hist)"
proof -
  have new: "key q \<noteq> key r" if "q \<in> set rows" for q using assms(2) that by (metis imageI)
  have "recorded e cols U (rows @ [r]) (change e cause kind now (map_option cols None) (Some (cols r)) hist)"
    by (rule recorded_change [OF assms(1)]) (use assms(2) new in \<open>auto simp: lookup_by_None_iff\<close>)
  then show ?thesis by simp
qed

lemma recorded_update:
  assumes rec: "recorded e cols U rows hist" and dist: "distinct (map key rows)"
    and f: "\<And>r. key r = k \<Longrightarrow> ident (f r) = ident r"
  shows "recorded e cols U (update_by key k G f rows)
           (change e cause kind now (map_option cols (lookup_by key k rows))
              (map_option cols (lookup_by key k (update_by key k G f rows))) hist)"
proof (cases "lookup_by key k rows")
  case None
  then have "update_by key k G f rows = rows"
    by (intro update_by_absent) (auto simp: lookup_by_None_iff)
  with None rec show ?thesis by simp
next
  case (Some b)
  let ?rows = "update_by key k G f rows"
  let ?r = "if G b then f b else b"
  have fk: "key (f r) = key r" if "key r = k" for r using f [OF that] by (rule ident_key)
  have b: "b \<in> set rows" "key b = k" using Some by (auto dest: lookup_by_SomeD)
  have keys: "map key ?rows = map key rows" by (rule key_update_by) (rule fk)
  have idents: "map ident ?rows = map ident rows" using f by (simp add: update_by_def)
  have dist': "distinct (map key ?rows)" using dist keys by simp
  have look: "lookup_by key k ?rows = Some ?r" using Some fk by (simp add: lookup_update_by)
  then have r: "?r \<in> set ?rows" "key ?r = k" by (auto dest: lookup_by_SomeD)
  have "recorded e cols U ?rows (change e cause kind now (map_option cols (Some b)) (Some (cols ?r)) hist)"
  proof (rule recorded_change [OF rec])
    show "lookup_by key (key ?r) rows = Some b" using Some r(2) by simp
    show "ident b' = ident ?r" if "Some b = Some b'" for b' using that b(2) f by simp
    show "q \<in> set rows" if "q \<in> set ?rows" "key q \<noteq> key ?r" for q
      using set_update_byD [OF that(1)] that(2) r(2) fk by auto
    show "q = ?r" if "q \<in> set ?rows" "key q = key ?r" for q
    proof -
      from that(2) r(2) have "key q = k" by simp
      with lookup_by_mem [OF dist' that(1)] have "lookup_by key k ?rows = Some q" by simp
      with look show ?thesis by simp
    qed
    have "ident ` set ?rows = ident ` set rows" using arg_cong [OF idents, of set] by simp
    then show "ident q \<in> ident ` set ?rows" if "q \<in> set rows" for q using that by auto
  qed (rule r(1))
  with Some look show ?thesis by simp
qed

lemma recorded_untracked:
  assumes rec: "recorded e cols U rows hist"
    and g: "\<And>r. r \<in> set rows \<Longrightarrow> ident (g r) = ident r"
      "\<And>r c. r \<in> set rows \<Longrightarrow> c \<notin> U \<Longrightarrow> map_of (cols (g r)) c = map_of (cols r) c"
  shows "recorded e cols U (map g rows) hist"
proof -
  have "row_subject e (cols (g r)) = row_subject e (cols r)" if "r \<in> set rows" for r
    using g(1) [OF that] by (simp add: subject_ident)
  with rec g show ?thesis by (auto simp: recorded_def)
qed

lemma recorded_other:
  assumes "recorded e cols U rows hist" and "e' \<noteq> e"
  shows "recorded e cols U rows (change e' cause kind now before after hist)"
proof (cases after)
  case (Some row)
  have "h \<in> set hist" if "h \<in> set (change e' cause kind now before (Some row) hist)" "h_entity h = e" for h
    using change_entry_subjects [OF that(1)] that(2) assms(2) by auto
  with Some assms show ?thesis by (simp add: recorded_def change_entries_other)
qed (simp add: assms)

end

end
