(* ===== verification/KernelDb.thy ===== *)
theory KernelDb
  imports History
begin

text \<open>
  The kernel's database (\<open>task_store.py\<close>, the tables of \<open>TaskStore._initialize\<close>): one record
  per row type, the schema's constraints as executable predicates, and the statements the
  operations are built from.  A statement that violates a constraint is an \<open>Inl\<close>; an
  operation that ends in \<open>Inl\<close> leaves the database of its caller, which is the rollback of
  its transaction.  Every table is an instance of \<open>recorded_table\<close>.
\<close>

subsection \<open>Tasks\<close>

datatype task_state = Reserved | Active | Replacing | Blocked | Completed | Cancelled | Lost | Exhausted

datatype liveness = Live | Parked | IdleUnreported | Limbo | Stalled

fun state_name :: "task_state \<Rightarrow> string" where
  "state_name Reserved = ''reserved''"
| "state_name Active = ''active''"
| "state_name Replacing = ''replacing''"
| "state_name Blocked = ''blocked''"
| "state_name Completed = ''completed''"
| "state_name Cancelled = ''cancelled''"
| "state_name Lost = ''lost''"
| "state_name Exhausted = ''exhausted''"

fun liveness_name :: "liveness \<Rightarrow> string" where
  "liveness_name Live = ''live''"
| "liveness_name Parked = ''parked''"
| "liveness_name IdleUnreported = ''idle_unreported''"
| "liveness_name Limbo = ''limbo''"
| "liveness_name Stalled = ''stalled''"

text \<open>\<open>TaskRecord\<close>; a row of \<open>managed_tasks\<close> adds the two wake watermarks.\<close>

record task_record =
  t_id :: string
  t_scope :: string
  t_key :: string
  t_parent :: "string option"
  t_state :: task_state
  t_epoch :: int
  t_attempts :: int
  t_max_attempts :: int
  t_child_limit :: int
  t_spec :: json
  t_workspace :: "string option"
  t_holder :: "string option"
  t_checkpoint :: "string option"
  t_result :: "string option"
  t_version :: int
  t_created_at :: real
  t_updated_at :: real
  t_liveness :: liveness
  t_liveness_episode :: int
  t_liveness_since :: "real option"
  t_liveness_wakes :: int
  t_liveness_evidence :: "string option"
  t_over_budget :: bool
  t_checkpoint_at :: "real option"

record task_row = task_record +
  t_child_event_seq :: int
  t_last_woken_seq :: int

definition decode_task :: "task_row \<Rightarrow> task_record" where
  "decode_task r = task_record.truncate r"

subsection \<open>Effects, wakes, cleanup intents, outgoing commands, checkpoint operations\<close>

datatype effect_state = EReserved | ELaunched | ETerminal

record effect =
  e_task_id :: string
  e_epoch :: int
  e_request_hash :: string
  e_state :: effect_state
  e_workspace_id :: "string option"
  e_session_id :: "string option"
  e_outcome :: "string option"
  e_owner :: string
  e_lease_expires_at :: real
  e_retry_at :: "real option"

record effect_row = effect +
  e_created_at :: real
  e_updated_at :: real

definition decode_effect :: "effect_row \<Rightarrow> effect" where
  "decode_effect r = effect.truncate r"

datatype predicate = AllChildrenTerminal | AnyChildBlocked | AnyChildLost | AnyChildStalled
  | AnyChildOverBudget

fun predicate_name :: "predicate \<Rightarrow> string" where
  "predicate_name AllChildrenTerminal = ''all_children_terminal''"
| "predicate_name AnyChildBlocked = ''any_child_blocked''"
| "predicate_name AnyChildLost = ''any_child_lost''"
| "predicate_name AnyChildStalled = ''any_child_stalled''"
| "predicate_name AnyChildOverBudget = ''any_child_over_budget''"

datatype wake_state = WPending | WClaimed | WDelivered | WResolved

record wake =
  w_id :: string
  w_parent :: string
  w_predicate :: predicate
  w_dedupe_key :: string
  w_event_seq :: "int option"
  w_state :: wake_state
  w_claim_expires_at :: "real option"
  w_payload :: "string option"
  w_claim_token :: "string option"

record wake_row = wake +
  w_resolution :: "string option"
  w_created_at :: real
  w_updated_at :: real

definition decode_wake :: "wake_row \<Rightarrow> wake" where
  "decode_wake r = wake.truncate r"

datatype cleanup_kind = CommandCancel | ExecutionStop
datatype cleanup_state = CPending | CAcknowledged

record cleanup_row =
  c_task_id :: string
  c_epoch :: int
  c_kind :: cleanup_kind
  c_native_id :: string
  c_session_id :: string
  c_state :: cleanup_state
  c_created_at :: real
  c_updated_at :: real

datatype outgoing_state = OSending | OSettled | OCleanup | OAcknowledged

record outgoing_row =
  o_task_id :: string
  o_epoch :: int
  o_dedupe_key :: string
  o_session_id :: string
  o_native_id :: "string option"
  o_state :: outgoing_state
  o_created_at :: real
  o_updated_at :: real

record checkpoint_operation =
  k_operation_id :: string
  k_task_id :: string
  k_epoch :: int
  k_holder :: string
  k_expected_version :: int
  k_checkpoint :: string
  k_facts :: json
  k_receipt :: "json option"
  k_durable_commit :: bool
  k_created_at :: real
  k_committed_at :: "real option"

record db =
  db_tasks :: "task_row list"
  db_effects :: "effect_row list"
  db_wakes :: "wake_row list"
  db_cleanups :: "cleanup_row list"
  db_outgoing :: "outgoing_row list"
  db_checkpoints :: "checkpoint_operation list"
  db_history :: hist

definition empty_db :: db where
  "empty_db = \<lparr>db_tasks = [], db_effects = [], db_wakes = [], db_cleanups = [],
               db_outgoing = [], db_checkpoints = [], db_history = []\<rparr>"

text \<open>Every exception the kernel's operations raise.\<close>

datatype kerror =
    Integrity
  | DuplicateKeys
  | ParentGone
  | ChildLimit int int
  | SpecMalformed
  | SpecMismatch string
  | TaskNotFound
  | StaleTransition task_record string
  | CircuitBreaker string int
  | FenceRequired
  | UnsupportedFinish task_state
  | UnsupportedLiveness string
  | OutgoingNotPrepared
  | CheckpointIdNotUuid
  | CheckpointTaskGone
  | CheckpointFactsChanged
  | CheckpointNotPrepared
  | CheckpointReplayChanged
  | CheckpointReceiptInvalid
  | DurabilityUnavailable
  | MalformedProcess
  | EffectIsTerminal string int "string option"
  | EffectGone "effect_state option"
  | EffectMissing string int
  | EffectIsBusy string int
  | EffectInConflict string int
  | WakePayloadMissing string
  | ClientFailed string

subsection \<open>Columns, as the history sees them\<close>

definition sql_text_opt :: "string option \<Rightarrow> sqlval" where
  "sql_text_opt v = (case v of None \<Rightarrow> SNull | Some s \<Rightarrow> SText s)"

definition sql_real_opt :: "real option \<Rightarrow> sqlval" where
  "sql_real_opt v = (case v of None \<Rightarrow> SNull | Some x \<Rightarrow> SReal x)"

definition sql_int_opt :: "int option \<Rightarrow> sqlval" where
  "sql_int_opt v = (case v of None \<Rightarrow> SNull | Some x \<Rightarrow> SInt x)"

definition sql_bool :: "bool \<Rightarrow> sqlval" where
  "sql_bool b = SInt (if b then 1 else 0)"

definition task_cols :: "task_row \<Rightarrow> sqlrow" where
  "task_cols r =
    [(''task_id'', SText (t_id r)), (''scope'', SText (t_scope r)), (''task_key'', SText (t_key r)),
     (''parent_task_id'', sql_text_opt (t_parent r)), (''state'', SText (state_name (t_state r))),
     (''epoch'', SInt (t_epoch r)), (''attempts'', SInt (t_attempts r)),
     (''max_attempts'', SInt (t_max_attempts r)), (''child_limit'', SInt (t_child_limit r)),
     (''spec_json'', SJson (t_spec r)), (''workspace_id'', sql_text_opt (t_workspace r)),
     (''holder_session_id'', sql_text_opt (t_holder r)), (''checkpoint'', sql_text_opt (t_checkpoint r)),
     (''result'', sql_text_opt (t_result r)), (''version'', SInt (t_version r)),
     (''child_event_seq'', SInt (t_child_event_seq r)), (''last_woken_seq'', SInt (t_last_woken_seq r)),
     (''liveness'', SText (liveness_name (t_liveness r))),
     (''liveness_episode'', SInt (t_liveness_episode r)),
     (''liveness_since'', sql_real_opt (t_liveness_since r)),
     (''liveness_wakes'', SInt (t_liveness_wakes r)),
     (''liveness_evidence'', sql_text_opt (t_liveness_evidence r)),
     (''over_budget'', sql_bool (t_over_budget r)), (''checkpoint_at'', sql_real_opt (t_checkpoint_at r)),
     (''created_at'', SReal (t_created_at r)), (''updated_at'', SReal (t_updated_at r))]"

fun effect_state_name :: "effect_state \<Rightarrow> string" where
  "effect_state_name EReserved = ''reserved''"
| "effect_state_name ELaunched = ''launched''"
| "effect_state_name ETerminal = ''terminal''"

definition effect_cols :: "effect_row \<Rightarrow> sqlrow" where
  "effect_cols r =
    [(''task_id'', SText (e_task_id r)), (''epoch'', SInt (e_epoch r)),
     (''request_hash'', SText (e_request_hash r)), (''state'', SText (effect_state_name (e_state r))),
     (''workspace_id'', sql_text_opt (e_workspace_id r)), (''session_id'', sql_text_opt (e_session_id r)),
     (''outcome'', sql_text_opt (e_outcome r)), (''retry_at'', sql_real_opt (e_retry_at r)),
     (''owner_instance'', SText (e_owner r)), (''lease_expires_at'', SReal (e_lease_expires_at r)),
     (''created_at'', SReal (e_created_at r)), (''updated_at'', SReal (e_updated_at r))]"

fun wake_state_name :: "wake_state \<Rightarrow> string" where
  "wake_state_name WPending = ''pending''"
| "wake_state_name WClaimed = ''claimed''"
| "wake_state_name WDelivered = ''delivered''"
| "wake_state_name WResolved = ''resolved''"

definition wake_cols :: "wake_row \<Rightarrow> sqlrow" where
  "wake_cols r =
    [(''wake_id'', SText (w_id r)), (''parent_task_id'', SText (w_parent r)),
     (''predicate'', SText (predicate_name (w_predicate r))), (''dedupe_key'', SText (w_dedupe_key r)),
     (''event_seq'', sql_int_opt (w_event_seq r)), (''state'', SText (wake_state_name (w_state r))),
     (''claim_expires_at'', sql_real_opt (w_claim_expires_at r)),
     (''claim_token'', sql_text_opt (w_claim_token r)), (''payload'', sql_text_opt (w_payload r)),
     (''resolution'', sql_text_opt (w_resolution r)), (''created_at'', SReal (w_created_at r)),
     (''updated_at'', SReal (w_updated_at r))]"

fun cleanup_kind_name :: "cleanup_kind \<Rightarrow> string" where
  "cleanup_kind_name CommandCancel = ''command_cancel''"
| "cleanup_kind_name ExecutionStop = ''execution_stop''"

fun cleanup_state_name :: "cleanup_state \<Rightarrow> string" where
  "cleanup_state_name CPending = ''pending''"
| "cleanup_state_name CAcknowledged = ''acknowledged''"

definition cleanup_cols :: "cleanup_row \<Rightarrow> sqlrow" where
  "cleanup_cols r =
    [(''task_id'', SText (c_task_id r)), (''epoch'', SInt (c_epoch r)),
     (''kind'', SText (cleanup_kind_name (c_kind r))), (''native_id'', SText (c_native_id r)),
     (''session_id'', SText (c_session_id r)), (''state'', SText (cleanup_state_name (c_state r))),
     (''created_at'', SReal (c_created_at r)), (''updated_at'', SReal (c_updated_at r))]"

fun outgoing_state_name :: "outgoing_state \<Rightarrow> string" where
  "outgoing_state_name OSending = ''sending''"
| "outgoing_state_name OSettled = ''settled''"
| "outgoing_state_name OCleanup = ''cleanup''"
| "outgoing_state_name OAcknowledged = ''acknowledged''"

definition outgoing_cols :: "outgoing_row \<Rightarrow> sqlrow" where
  "outgoing_cols r =
    [(''task_id'', SText (o_task_id r)), (''epoch'', SInt (o_epoch r)),
     (''dedupe_key'', SText (o_dedupe_key r)), (''session_id'', SText (o_session_id r)),
     (''native_id'', sql_text_opt (o_native_id r)), (''state'', SText (outgoing_state_name (o_state r))),
     (''created_at'', SReal (o_created_at r)), (''updated_at'', SReal (o_updated_at r))]"

text \<open>
  The columns whose updates are not written to the history: the derived \<open>updated_at\<close>, the
  two watermarks and a wake's payload as \<open>history.py\<close> says, and the wake bookkeeping of
  a stall episode, which \<open>record_liveness_wakes\<close> updates outside \<open>history.change\<close>.
\<close>

definition task_untracked :: "string set" where
  "task_untracked = {''updated_at'', ''child_event_seq'', ''last_woken_seq'', ''liveness_wakes'', ''liveness_since''}"

definition wake_untracked :: "string set" where
  "wake_untracked = {''updated_at'', ''payload''}"

lemmas identity_defs = row_subject_def identity_task_def identity_epoch_def identity_entity_id_def
  subject_epoch_def nonempty_def

interpretation task_log: recorded_table ETask task_cols t_id t_id task_untracked
  by unfold_locales (auto simp: task_cols_def identity_defs task_untracked_def)

text \<open>The primary keys of the composite-key tables.\<close>

definition effect_key :: "effect_row \<Rightarrow> string \<times> int" where
  "effect_key r = (e_task_id r, e_epoch r)"

definition outgoing_key :: "outgoing_row \<Rightarrow> string \<times> int \<times> string" where
  "outgoing_key r = (o_task_id r, o_epoch r, o_dedupe_key r)"

definition cleanup_key :: "cleanup_row \<Rightarrow> string \<times> int \<times> cleanup_kind \<times> string" where
  "cleanup_key r = (c_task_id r, c_epoch r, c_kind r, c_native_id r)"

interpretation effect_log: recorded_table EEffect effect_cols effect_key effect_key "{''updated_at''}"
  by unfold_locales (auto simp: effect_cols_def identity_defs effect_key_def)

interpretation wake_log: recorded_table EWake wake_cols w_id "\<lambda>r. (w_parent r, w_id r)" wake_untracked
  by unfold_locales (auto simp: wake_cols_def identity_defs wake_untracked_def)

interpretation outgoing_log: recorded_table EOutgoing outgoing_cols outgoing_key outgoing_key "{''updated_at''}"
  by unfold_locales (auto simp: outgoing_cols_def identity_defs outgoing_key_def)

lemma cleanup_entity_id_eq:
  "cleanup_kind_name k @ '':'' @ n = cleanup_kind_name k' @ '':'' @ n' \<longleftrightarrow> k = k' \<and> n = n'"
  by (cases k; cases k') auto

interpretation cleanup_log: recorded_table ECleanup cleanup_cols cleanup_key cleanup_key "{''updated_at''}"
proof unfold_locales
  fix r r' :: cleanup_row
  show "row_subject ECleanup (cleanup_cols r) = row_subject ECleanup (cleanup_cols r') \<longleftrightarrow>
        cleanup_key r = cleanup_key r'"
    using cleanup_entity_id_eq [of "c_kind r" "c_native_id r" "c_kind r'" "c_native_id r'"]
    by (cases "c_kind r"; cases "c_kind r'") (auto simp: cleanup_cols_def identity_defs cleanup_key_def)
qed (auto simp: cleanup_cols_def)

end
