(* ===== verification/Machine.thy ===== *)
theory Machine
  imports Prelude
begin

text \<open>
  Two contracts shared by the stateful components.  \<open>invariant_system\<close>: a predicate that
  holds at the start and that every step keeps holds in every reachable state.
  \<open>settling_system\<close>: a step relation under which a view of the state, once final, never
  changes again.
\<close>

locale invariant_system =
  fixes step :: "'s \<Rightarrow> 's \<Rightarrow> bool"
    and start :: 's
    and inv :: "'s \<Rightarrow> bool"
  assumes start_inv: "inv start"
    and step_inv: "inv s \<Longrightarrow> step s t \<Longrightarrow> inv t"
begin

lemma run_inv: "step\<^sup>*\<^sup>* s t \<Longrightarrow> inv s \<Longrightarrow> inv t"
  by (induction rule: rtranclp_induct) (auto intro: step_inv)

lemma reachable_inv: "step\<^sup>*\<^sup>* start t \<Longrightarrow> inv t"
  by (rule run_inv [OF _ start_inv])

text \<open>A quantity no step lets decrease never decreases along a run.\<close>

lemma run_mono:
  fixes m :: "'s \<Rightarrow> 'o::preorder"
  assumes mono: "\<And>s t. inv s \<Longrightarrow> step s t \<Longrightarrow> m s \<le> m t"
    and run: "step\<^sup>*\<^sup>* s t" and s: "inv s"
  shows "m s \<le> m t"
  using run
proof (induction rule: rtranclp_induct)
  case (step t u)
  from run_inv [OF step.hyps(1) s] step.hyps(2) have "m t \<le> m u" by (rule mono)
  with step.IH show ?case by (rule order_trans)
qed simp

end

locale settling_system = invariant_system step start inv
  for step :: "'s \<Rightarrow> 's \<Rightarrow> bool" and start and inv +
  fixes view :: "'i \<Rightarrow> 's \<Rightarrow> 'v option"
    and final :: "'v \<Rightarrow> bool"
  assumes settled_step: "inv s \<Longrightarrow> step s t \<Longrightarrow> view i s = Some v \<Longrightarrow> final v \<Longrightarrow> view i t = Some v"
begin

lemma settled_run:
  assumes run: "step\<^sup>*\<^sup>* s t" and s: "inv s" and v: "view i s = Some v" "final v"
  shows "view i t = Some v"
  using run
proof (induction rule: rtranclp_induct)
  case (step t u)
  from run_inv [OF step.hyps(1) s] step.hyps(2) step.IH v(2) show ?case by (rule settled_step)
qed (rule v(1))

lemma settled_reachable:
  assumes "step\<^sup>*\<^sup>* start s" and "step\<^sup>*\<^sup>* s t" and "view i s = Some v" "final v"
  shows "view i t = Some v"
  using assms by (blast intro: settled_run reachable_inv)

end

end
