(* ===== verification/Fence.thy ===== *)
theory Fence
  imports KernelDb Machine
begin

text \<open>
  The per-task fence (\<open>fence.py\<close>; \<open>TaskFence\<close>, \<open>TaskStore.task_lock\<close> and
  \<open>TaskStore._require_fence\<close> in \<open>task_store.py\<close>).  A thread holds a stack of fences, the
  innermost first; the advisory file locks of the store are a map from task to the thread
  that holds the lock.  A step that would block on the lock has no transition.
\<close>

record fence =
  f_store :: string
  f_task :: string
  f_depth :: nat
  f_closed :: bool
  f_token :: "string option"

text \<open>The calling context: the store object and the value of \<open>HELD_TASK_FENCE\<close>.\<close>

record ctx =
  x_store :: string
  x_held :: "string option"

definition require_fence :: "ctx \<Rightarrow> string \<Rightarrow> fence option \<Rightarrow> kerror + unit" where
  "require_fence x tid fence =
     (case fence of
        None \<Rightarrow> Inl FenceRequired
      | Some f \<Rightarrow>
          if f_store f \<noteq> x_store x \<or> f_task f \<noteq> tid \<or> f_depth f \<noteq> 0 \<or> f_closed f
             \<or> x_held x \<noteq> Some tid
          then Inl FenceRequired else Inr ())"

text \<open>\<open>task_lock\<close> entered: the context and the fence its body runs with.\<close>

definition lock_ctx :: "string \<Rightarrow> ctx \<Rightarrow> ctx" where
  "lock_ctx tid x = x\<lparr>x_held := Some tid\<rparr>"

definition lock_fence :: "string \<Rightarrow> ctx \<Rightarrow> fence" where
  "lock_fence tid x = \<lparr>f_store = x_store x, f_task = tid, f_depth = 0, f_closed = False, f_token = x_held x\<rparr>"

lemma require_lock_fence [simp]: "require_fence (lock_ctx tid x) tid (Some (lock_fence tid x)) = Inr ()"
  by (simp add: require_fence_def lock_ctx_def lock_fence_def)

lemma require_fence_cases: "require_fence x tid fence = Inl FenceRequired \<or> require_fence x tid fence = Inr ()"
  by (auto simp: require_fence_def split: option.splits)

lemma require_fence_Inl: "require_fence x tid fence = Inl e \<Longrightarrow> e = FenceRequired"
  using require_fence_cases [of x tid fence] by auto

text \<open>\<open>assert_external_io_allowed\<close> / \<open>open_transport\<close>: the transport opens only when the
  context holds no fence; \<open>Inl\<close> is \<open>FenceHeldError\<close> with the fence it names.\<close>

definition open_transport :: "string option \<Rightarrow> 'a \<Rightarrow> string + 'a" where
  "open_transport held answer =
     (if truthy held then Inl (case held of Some t \<Rightarrow> t | None \<Rightarrow> '''') else Inr answer)"

subsection \<open>Threads and locks\<close>

record thread =
  th_held :: "string option"
  th_fences :: "fence list"

record fence_world =
  locks :: "string \<Rightarrow> nat option"
  threads :: "nat \<Rightarrow> thread"

definition fence_start :: fence_world where
  "fence_start = \<lparr>locks = (\<lambda>_. None), threads = (\<lambda>_. \<lparr>th_held = None, th_fences = []\<rparr>)\<rparr>"

definition lock_enter :: "string \<Rightarrow> nat \<Rightarrow> string \<Rightarrow> fence_world \<Rightarrow> fence_world option" where
  "lock_enter store p tid w =
     (if locks w tid \<noteq> None then None
      else let th = threads w p;
               f = \<lparr>f_store = store, f_task = tid, f_depth = 0, f_closed = False, f_token = th_held th\<rparr>
           in Some (w\<lparr>locks := (locks w)(tid := Some p),
                      threads := (threads w)(p := \<lparr>th_held = Some tid, th_fences = f # th_fences th\<rparr>)\<rparr>))"

definition lock_exit :: "nat \<Rightarrow> fence_world \<Rightarrow> fence_world option" where
  "lock_exit p w =
     (case th_fences (threads w p) of
        [] \<Rightarrow> None
      | f # fs \<Rightarrow>
          if f_depth f \<noteq> 0 then None
          else Some (w\<lparr>locks := (locks w)(f_task f := None),
                       threads := (threads w)(p := \<lparr>th_held = f_token f, th_fences = fs\<rparr>)\<rparr>))"

text \<open>\<open>external_io\<close> entered and left; only the outermost level touches the lock.\<close>

definition io_enter :: "nat \<Rightarrow> fence_world \<Rightarrow> fence_world option" where
  "io_enter p w =
     (case th_fences (threads w p) of
        [] \<Rightarrow> None
      | f # fs \<Rightarrow>
          let f' = f\<lparr>f_depth := Suc (f_depth f)\<rparr> in
          if f_depth f = 0
          then Some (w\<lparr>locks := (locks w)(f_task f := None),
                       threads := (threads w)(p := \<lparr>th_held = f_token f, th_fences = f' # fs\<rparr>)\<rparr>)
          else Some (w\<lparr>threads := (threads w)(p := (threads w p)\<lparr>th_fences := f' # fs\<rparr>)\<rparr>))"

definition io_exit :: "nat \<Rightarrow> fence_world \<Rightarrow> fence_world option" where
  "io_exit p w =
     (case th_fences (threads w p) of
        [] \<Rightarrow> None
      | f # fs \<Rightarrow>
          if f_depth f = 0 then None
          else if f_depth f = 1
          then (if locks w (f_task f) \<noteq> None then None
                else let f' = f\<lparr>f_depth := 0, f_token := th_held (threads w p)\<rparr>
                     in Some (w\<lparr>locks := (locks w)(f_task f := Some p),
                                threads := (threads w)(p := \<lparr>th_held = Some (f_task f), th_fences = f' # fs\<rparr>)\<rparr>))
          else let f' = f\<lparr>f_depth := f_depth f - 1\<rparr>
               in Some (w\<lparr>threads := (threads w)(p := (threads w p)\<lparr>th_fences := f' # fs\<rparr>)\<rparr>))"

inductive fence_step :: "fence_world \<Rightarrow> fence_world \<Rightarrow> bool" where
  step_lock: "lock_enter store p tid w = Some w' \<Longrightarrow> fence_step w w'"
| step_unlock: "lock_exit p w = Some w' \<Longrightarrow> fence_step w w'"
| step_io: "io_enter p w = Some w' \<Longrightarrow> fence_step w w'"
| step_io_done: "io_exit p w = Some w' \<Longrightarrow> fence_step w w'"

inductive_cases fence_stepE: "fence_step w w'"

text \<open>The value \<open>HELD_TASK_FENCE\<close> must have for a stack of fences.\<close>

fun expected_held :: "fence list \<Rightarrow> string option" where
  "expected_held [] = None"
| "expected_held (f # fs) = (if f_depth f = 0 then Some (f_task f) else expected_held fs)"

fun tokens_ok :: "fence list \<Rightarrow> bool" where
  "tokens_ok [] = True"
| "tokens_ok (f # fs) = (f_token f = expected_held fs \<and> tokens_ok fs)"

definition open_tasks :: "fence list \<Rightarrow> string list" where
  "open_tasks fs = map f_task (filter (\<lambda>f. f_depth f = 0) fs)"

definition fence_inv :: "fence_world \<Rightarrow> bool" where
  "fence_inv w \<longleftrightarrow>
     (\<forall>p. th_held (threads w p) = expected_held (th_fences (threads w p))
          \<and> tokens_ok (th_fences (threads w p))
          \<and> distinct (open_tasks (th_fences (threads w p))))
     \<and> (\<forall>p tid. locks w tid = Some p \<longleftrightarrow> tid \<in> set (open_tasks (th_fences (threads w p))))"

lemma expected_held_mem: "expected_held fs = Some tid \<Longrightarrow> tid \<in> set (open_tasks fs)"
  by (induction fs) (auto simp: open_tasks_def split: if_splits)

lemma expected_held_None: "expected_held fs = None \<Longrightarrow> open_tasks fs = []"
  by (induction fs) (auto simp: open_tasks_def split: if_splits)

lemma open_tasks_Cons: "open_tasks (f # fs) = (if f_depth f = 0 then [f_task f] else []) @ open_tasks fs"
  by (simp add: open_tasks_def)

lemma fence_inv_start: "fence_inv fence_start"
  by (simp add: fence_inv_def fence_start_def open_tasks_def)

text \<open>The three ways a step changes one thread: it takes a lock, gives one back, or neither.\<close>

definition thread_ok :: "thread \<Rightarrow> bool" where
  "thread_ok th \<longleftrightarrow> th_held th = expected_held (th_fences th) \<and> tokens_ok (th_fences th)
                    \<and> distinct (open_tasks (th_fences th))"

lemma fence_inv_alt:
  "fence_inv w \<longleftrightarrow> (\<forall>p. thread_ok (threads w p))
     \<and> (\<forall>p tid. locks w tid = Some p \<longleftrightarrow> tid \<in> set (open_tasks (th_fences (threads w p))))"
  by (simp add: fence_inv_def thread_ok_def)

lemma fence_inv_thread: "fence_inv w \<Longrightarrow> thread_ok (threads w p)"
  by (simp add: fence_inv_alt)

lemma fence_inv_locks:
  "fence_inv w \<Longrightarrow> locks w tid = Some p \<longleftrightarrow> tid \<in> set (open_tasks (th_fences (threads w p)))"
  by (simp add: fence_inv_alt)

lemma fence_inv_acquire:
  assumes "fence_inv w" and "locks w t = None" and "thread_ok th"
    and "set (open_tasks (th_fences th)) = insert t (set (open_tasks (th_fences (threads w p))))"
  shows "fence_inv (w\<lparr>locks := (locks w)(t := Some p), threads := (threads w)(p := th)\<rparr>)"
proof -
  have "t \<notin> set (open_tasks (th_fences (threads w q)))" for q
    using fence_inv_locks [OF assms(1), of t q] assms(2) by simp
  with assms show ?thesis by (auto simp: fence_inv_alt)
qed

lemma fence_inv_release:
  assumes inv: "fence_inv w" and th: "thread_ok th"
    and open': "set (open_tasks (th_fences (threads w p))) = insert t (set (open_tasks (th_fences th)))"
      "t \<notin> set (open_tasks (th_fences th))"
  shows "fence_inv (w\<lparr>locks := (locks w)(t := None), threads := (threads w)(p := th)\<rparr>)"
proof -
  have t: "locks w t = Some p" using fence_inv_locks [OF inv, of t p] open' by simp
  then have "t \<notin> set (open_tasks (th_fences (threads w q)))" if "q \<noteq> p" for q
    using fence_inv_locks [OF inv, of t q] that by simp
  with fence_inv_locks [OF inv] open' th fence_inv_thread [OF inv] show ?thesis
    by (auto simp: fence_inv_alt)
qed

lemma fence_inv_keep:
  assumes "fence_inv w" and "thread_ok th"
    and "set (open_tasks (th_fences th)) = set (open_tasks (th_fences (threads w p)))"
  shows "fence_inv (w\<lparr>threads := (threads w)(p := th)\<rparr>)"
  using assms by (auto simp: fence_inv_alt)

lemma lock_enter_inv:
  assumes "lock_enter store p tid w = Some w'" and inv: "fence_inv w"
  shows "fence_inv w'"
proof -
  from assms(1) have free: "locks w tid = None" by (auto simp: lock_enter_def split: if_splits)
  then have "tid \<notin> set (open_tasks (th_fences (threads w p)))"
    using fence_inv_locks [OF inv, of tid p] by simp
  with assms(1) free fence_inv_thread [OF inv, of p] show ?thesis
    by (auto simp: lock_enter_def Let_def thread_ok_def open_tasks_Cons intro!: fence_inv_acquire [OF inv])
qed

lemma lock_exit_inv:
  assumes "lock_exit p w = Some w'" and inv: "fence_inv w"
  shows "fence_inv w'"
  using assms(1) fence_inv_thread [OF inv, of p]
  by (auto simp: lock_exit_def thread_ok_def open_tasks_Cons intro!: fence_inv_release [OF inv]
      split: list.splits if_splits)

lemma io_enter_inv:
  assumes "io_enter p w = Some w'" and inv: "fence_inv w"
  shows "fence_inv w'"
  using assms(1) fence_inv_thread [OF inv, of p]
  by (auto simp: io_enter_def thread_ok_def open_tasks_Cons Let_def
      intro!: fence_inv_release [OF inv] fence_inv_keep [OF inv] split: list.splits if_splits)

lemma io_exit_inv:
  assumes "io_exit p w = Some w'" and inv: "fence_inv w"
  shows "fence_inv w'"
proof (cases "th_fences (threads w p)")
  case (Cons f fs)
  have ok: "thread_ok (threads w p)" using inv by (rule fence_inv_thread)
  show ?thesis
  proof (cases "f_depth f = 1")
    case True
    with assms(1) Cons have free: "locks w (f_task f) = None"
      by (auto simp: io_exit_def split: if_splits)
    then have "f_task f \<notin> set (open_tasks (th_fences (threads w p)))"
      using fence_inv_locks [OF inv, of "f_task f" p] by simp
    with True assms(1) Cons free ok show ?thesis
      by (auto simp: io_exit_def Let_def thread_ok_def open_tasks_Cons intro!: fence_inv_acquire [OF inv])
  next
    case False
    with assms(1) Cons ok show ?thesis
      by (auto simp: io_exit_def Let_def thread_ok_def open_tasks_Cons
          intro!: fence_inv_keep [OF inv] split: if_splits)
  qed
qed (use assms in \<open>simp add: io_exit_def\<close>)

lemma fence_step_inv: "fence_inv w \<Longrightarrow> fence_step w w' \<Longrightarrow> fence_inv w'"
  by (erule fence_stepE) (auto intro: lock_enter_inv lock_exit_inv io_enter_inv io_exit_inv)

interpretation fences: invariant_system fence_step fence_start fence_inv
  by unfold_locales (auto intro: fence_inv_start fence_step_inv)

text \<open>The context a thread runs a store operation in, and its innermost fence.\<close>

definition thread_ctx :: "string \<Rightarrow> thread \<Rightarrow> ctx" where
  "thread_ctx store th = \<lparr>x_store = store, x_held = th_held th\<rparr>"

lemma required_fence_locked:
  assumes "fence_inv w" and "require_fence (thread_ctx store (threads w p)) tid (Some f) = Inr ()"
  shows "locks w tid = Some p"
proof -
  from assms(2) have "th_held (threads w p) = Some tid"
    by (auto simp: require_fence_def thread_ctx_def split: if_splits)
  with fence_inv_thread [OF assms(1), of p] have "expected_held (th_fences (threads w p)) = Some tid"
    by (simp add: thread_ok_def)
  then show ?thesis using fence_inv_locks [OF assms(1)] by (simp add: expected_held_mem)
qed

subsection \<open>Properties\<close>


definition one_lock_world :: fence_world where
  "one_lock_world = the (lock_enter ''db'' 7 ''task'' fence_start)"

definition one_fence :: fence where
  "one_fence = \<lparr>f_store = ''db'', f_task = ''task'', f_depth = 0, f_closed = False, f_token = None\<rparr>"

lemma one_lock_reachable: "fence_step\<^sup>*\<^sup>* fence_start one_lock_world"
  by (rule r_into_rtranclp, rule step_lock [of "''db''" 7 "''task''"])
    (simp add: one_lock_world_def lock_enter_def fence_start_def Let_def)


text \<open>
  C32: cdesktop I/O never runs under a task lock.  When \<open>open_transport\<close> lets a thread through,
  that thread holds the file lock of no task at all (no task has the empty id, which
  \<open>assert_external_io_allowed\<close> could not see).
\<close>

theorem io_outside_locks:
  assumes "fence_step\<^sup>*\<^sup>* fence_start w" and "locks w '''' = None"
    and "open_transport (th_held (threads w p)) answer = Inr reply"
  shows "locks w tid \<noteq> Some p"
proof -
  have inv: "fence_inv w" by (rule fences.reachable_inv [OF assms(1)])
  have ok: "th_held (threads w p) = expected_held (th_fences (threads w p))"
    using fence_inv_thread [OF inv] by (simp add: thread_ok_def)
  have "th_held (threads w p) \<noteq> Some ''''"
    using fence_inv_locks [OF inv, of "''''" p] assms(2) ok expected_held_mem by fastforce
  with assms(3) have "th_held (threads w p) = None"
    by (auto simp: open_transport_def truthy_def split: if_splits option.splits)
  with ok have "open_tasks (th_fences (threads w p)) = []" by (simp add: expected_held_None)
  then show ?thesis using fence_inv_locks [OF inv, of tid p] by simp
qed

theorem io_outside_locks_witness:
  "locks one_lock_world ''task'' \<noteq> Some 8"
proof (rule io_outside_locks [OF one_lock_reachable])
  show "open_transport (th_held (threads one_lock_world 8)) () = Inr ()"
    by (simp add: open_transport_def truthy_def one_lock_world_def lock_enter_def fence_start_def Let_def)
qed (simp add: one_lock_world_def lock_enter_def fence_start_def Let_def)

end
