(* ===== verification/KernelTables.thy ===== *)
theory KernelTables
  imports KernelDb
begin

text \<open>
  The statements of the kernel's operations over \<open>db\<close>, each with the constraints SQLite
  checks for it and wrapped in \<open>history.change\<close> where the source wraps it; and \<open>db_ok\<close>, the
  invariant every statement keeps: the schema's uniqueness and row constraints hold, and the
  history of each projection table is complete.
\<close>

subsection \<open>Schema constraints\<close>

definition live_holder :: "task_row \<Rightarrow> bool" where
  "live_holder r \<longleftrightarrow> t_holder r \<noteq> None \<and> t_state r \<in> {Active, Replacing, Blocked}"

definition task_row_ok :: "task_row \<Rightarrow> bool" where
  "task_row_ok r \<longleftrightarrow> 0 < t_epoch r \<and> 0 \<le> t_attempts r \<and> 0 < t_max_attempts r \<and> 0 \<le> t_child_limit r
                    \<and> t_parent r \<noteq> Some (t_id r)"

definition task_table_ok :: "task_row list \<Rightarrow> bool" where
  "task_table_ok rows \<longleftrightarrow> distinct (map t_id rows) \<and> distinct (map (\<lambda>r. (t_scope r, t_key r)) rows)
     \<and> list_all task_row_ok rows \<and> unique_where live_holder t_holder rows"

definition live_wake :: "wake_row \<Rightarrow> bool" where
  "live_wake r \<longleftrightarrow> w_state r = WPending \<or> w_state r = WClaimed"

definition wake_table_ok :: "wake_row list \<Rightarrow> bool" where
  "wake_table_ok rows \<longleftrightarrow> distinct (map w_id rows) \<and> unique_where live_wake w_dedupe_key rows"

definition checkpoint_table_ok :: "checkpoint_operation list \<Rightarrow> bool" where
  "checkpoint_table_ok rows \<longleftrightarrow> distinct (map k_operation_id rows)
     \<and> distinct (map (\<lambda>k. (k_task_id k, k_epoch k, k_checkpoint k)) rows)"

subsection \<open>Statements on \<open>managed_tasks\<close>\<close>

definition find_task :: "string \<Rightarrow> db \<Rightarrow> task_row option" where
  "find_task tid d = lookup_by t_id tid (db_tasks d)"

definition find_task_by_key :: "string \<Rightarrow> string \<Rightarrow> db \<Rightarrow> task_row option" where
  "find_task_by_key sc ky d = lookup_by (\<lambda>r. (t_scope r, t_key r)) (sc, ky) (db_tasks d)"

definition log_task :: "string \<Rightarrow> hkind \<Rightarrow> real \<Rightarrow> string \<Rightarrow> db \<Rightarrow> db \<Rightarrow> db" where
  "log_task cause kind now tid before after =
     after\<lparr>db_history := change ETask cause kind now (map_option task_cols (find_task tid before))
                           (map_option task_cols (find_task tid after)) (db_history after)\<rparr>"

text \<open>\<open>UPDATE managed_tasks SET f WHERE task_id = tid AND guard\<close> inside \<open>history.change\<close>.\<close>

definition change_task ::
  "string \<Rightarrow> string \<Rightarrow> hkind \<Rightarrow> real \<Rightarrow> (task_row \<Rightarrow> bool) \<Rightarrow> (task_row \<Rightarrow> task_row) \<Rightarrow> db
   \<Rightarrow> kerror + bool \<times> db" where
  "change_task tid cause kind now G f d =
     (let rows = update_by t_id tid G f (db_tasks d) in
      if task_table_ok rows
      then Inr (hits_by t_id tid G (db_tasks d), log_task cause kind now tid d (d\<lparr>db_tasks := rows\<rparr>))
      else Inl Integrity)"

definition insert_task :: "task_row \<Rightarrow> string \<Rightarrow> real \<Rightarrow> db \<Rightarrow> kerror + db" where
  "insert_task row cause now d =
     (let rows = db_tasks d @ [row] in
      if task_table_ok rows
      then Inr (log_task cause HTransition now (t_id row) d (d\<lparr>db_tasks := rows\<rparr>))
      else Inl Integrity)"

text \<open>An update of bookkeeping columns that no constraint mentions and no history records.\<close>

definition bump_task :: "string \<Rightarrow> (task_row \<Rightarrow> task_row) \<Rightarrow> db \<Rightarrow> db" where
  "bump_task tid f d = d\<lparr>db_tasks := update_by t_id tid (\<lambda>_. True) f (db_tasks d)\<rparr>"

subsection \<open>Statements on \<open>task_effects\<close>\<close>

definition find_effect :: "string \<Rightarrow> int \<Rightarrow> db \<Rightarrow> effect_row option" where
  "find_effect tid ep d = lookup_by effect_key (tid, ep) (db_effects d)"

definition log_effect :: "string \<Rightarrow> real \<Rightarrow> string \<Rightarrow> int \<Rightarrow> db \<Rightarrow> db \<Rightarrow> db" where
  "log_effect cause now tid ep before after =
     after\<lparr>db_history := change EEffect cause HTransition now (map_option effect_cols (find_effect tid ep before))
                           (map_option effect_cols (find_effect tid ep after)) (db_history after)\<rparr>"

definition change_effect ::
  "string \<Rightarrow> int \<Rightarrow> string \<Rightarrow> real \<Rightarrow> (effect_row \<Rightarrow> bool) \<Rightarrow> (effect_row \<Rightarrow> effect_row) \<Rightarrow> db \<Rightarrow> bool \<times> db"
where
  "change_effect tid ep cause now G f d =
     (let rows = update_by effect_key (tid, ep) G f (db_effects d) in
      (hits_by effect_key (tid, ep) G (db_effects d), log_effect cause now tid ep d (d\<lparr>db_effects := rows\<rparr>)))"

definition insert_effect :: "effect_row \<Rightarrow> string \<Rightarrow> real \<Rightarrow> db \<Rightarrow> kerror + db" where
  "insert_effect row cause now d =
     (if effect_key row \<in> effect_key ` set (db_effects d) then Inl Integrity
      else Inr (log_effect cause now (e_task_id row) (e_epoch row) d (d\<lparr>db_effects := db_effects d @ [row]\<rparr>)))"

subsection \<open>Statements on \<open>task_wakes\<close>\<close>

definition find_wake :: "string \<Rightarrow> db \<Rightarrow> wake_row option" where
  "find_wake wid d = lookup_by w_id wid (db_wakes d)"

definition log_wake :: "string \<Rightarrow> real \<Rightarrow> string \<Rightarrow> db \<Rightarrow> db \<Rightarrow> db" where
  "log_wake cause now wid before after =
     after\<lparr>db_history := change EWake cause HTransition now (map_option wake_cols (find_wake wid before))
                           (map_option wake_cols (find_wake wid after)) (db_history after)\<rparr>"

text \<open>
  \<open>INSERT OR IGNORE\<close>: a row that would break the primary key or the partial unique index on
  the dedupe key of live wakes is dropped.
\<close>

definition wake_conflict :: "wake_row \<Rightarrow> wake_row list \<Rightarrow> bool" where
  "wake_conflict row rows \<longleftrightarrow>
     list_ex (\<lambda>r. w_id r = w_id row \<or> (live_wake row \<and> live_wake r \<and> w_dedupe_key r = w_dedupe_key row)) rows"

definition insert_wake :: "wake_row \<Rightarrow> string \<Rightarrow> real \<Rightarrow> db \<Rightarrow> bool \<times> db" where
  "insert_wake row cause now d =
     (let ignored = wake_conflict row (db_wakes d);
          d' = (if ignored then d else d\<lparr>db_wakes := db_wakes d @ [row]\<rparr>)
      in (\<not> ignored, log_wake cause now (w_id row) d d'))"

definition change_wake ::
  "string \<Rightarrow> string \<Rightarrow> real \<Rightarrow> (wake_row \<Rightarrow> bool) \<Rightarrow> (wake_row \<Rightarrow> wake_row) \<Rightarrow> db \<Rightarrow> bool \<times> db" where
  "change_wake wid cause now G f d =
     (let rows = update_by w_id wid G f (db_wakes d) in
      (hits_by w_id wid G (db_wakes d), log_wake cause now wid d (d\<lparr>db_wakes := rows\<rparr>)))"

subsection \<open>Statements on cleanup intents and outgoing commands\<close>

definition find_cleanup :: "string \<times> int \<times> cleanup_kind \<times> string \<Rightarrow> db \<Rightarrow> cleanup_row option" where
  "find_cleanup k d = lookup_by cleanup_key k (db_cleanups d)"

definition log_cleanup ::
  "string \<Rightarrow> real \<Rightarrow> string \<times> int \<times> cleanup_kind \<times> string \<Rightarrow> db \<Rightarrow> db \<Rightarrow> db" where
  "log_cleanup cause now k before after =
     after\<lparr>db_history := change ECleanup cause HTransition now (map_option cleanup_cols (find_cleanup k before))
                           (map_option cleanup_cols (find_cleanup k after)) (db_history after)\<rparr>"

definition insert_cleanup :: "cleanup_row \<Rightarrow> string \<Rightarrow> real \<Rightarrow> db \<Rightarrow> db" where
  "insert_cleanup row cause now d =
     (let d' = (if cleanup_key row \<in> cleanup_key ` set (db_cleanups d) then d
                else d\<lparr>db_cleanups := db_cleanups d @ [row]\<rparr>)
      in log_cleanup cause now (cleanup_key row) d d')"

definition change_cleanup ::
  "string \<times> int \<times> cleanup_kind \<times> string \<Rightarrow> string \<Rightarrow> real \<Rightarrow> (cleanup_row \<Rightarrow> bool)
   \<Rightarrow> (cleanup_row \<Rightarrow> cleanup_row) \<Rightarrow> db \<Rightarrow> db" where
  "change_cleanup k cause now G f d =
     log_cleanup cause now k d (d\<lparr>db_cleanups := update_by cleanup_key k G f (db_cleanups d)\<rparr>)"

definition find_outgoing :: "string \<times> int \<times> string \<Rightarrow> db \<Rightarrow> outgoing_row option" where
  "find_outgoing k d = lookup_by outgoing_key k (db_outgoing d)"

definition log_outgoing :: "string \<Rightarrow> real \<Rightarrow> string \<times> int \<times> string \<Rightarrow> db \<Rightarrow> db \<Rightarrow> db" where
  "log_outgoing cause now k before after =
     after\<lparr>db_history := change EOutgoing cause HTransition now (map_option outgoing_cols (find_outgoing k before))
                           (map_option outgoing_cols (find_outgoing k after)) (db_history after)\<rparr>"

definition insert_outgoing :: "outgoing_row \<Rightarrow> string \<Rightarrow> real \<Rightarrow> db \<Rightarrow> db" where
  "insert_outgoing row cause now d =
     (let d' = (if outgoing_key row \<in> outgoing_key ` set (db_outgoing d) then d
                else d\<lparr>db_outgoing := db_outgoing d @ [row]\<rparr>)
      in log_outgoing cause now (outgoing_key row) d d')"

definition change_outgoing ::
  "string \<times> int \<times> string \<Rightarrow> string \<Rightarrow> real \<Rightarrow> (outgoing_row \<Rightarrow> bool) \<Rightarrow> (outgoing_row \<Rightarrow> outgoing_row)
   \<Rightarrow> db \<Rightarrow> db" where
  "change_outgoing k cause now G f d =
     log_outgoing cause now k d (d\<lparr>db_outgoing := update_by outgoing_key k G f (db_outgoing d)\<rparr>)"

subsection \<open>The database invariant\<close>

definition tables_ok :: "db \<Rightarrow> bool" where
  "tables_ok d \<longleftrightarrow> task_table_ok (db_tasks d) \<and> distinct (map effect_key (db_effects d))
     \<and> wake_table_ok (db_wakes d) \<and> distinct (map cleanup_key (db_cleanups d))
     \<and> distinct (map outgoing_key (db_outgoing d)) \<and> checkpoint_table_ok (db_checkpoints d)"

definition history_ok :: "db \<Rightarrow> bool" where
  "history_ok d \<longleftrightarrow> recorded ETask task_cols task_untracked (db_tasks d) (db_history d)
     \<and> recorded EEffect effect_cols {''updated_at''} (db_effects d) (db_history d)
     \<and> recorded EWake wake_cols wake_untracked (db_wakes d) (db_history d)
     \<and> recorded ECleanup cleanup_cols {''updated_at''} (db_cleanups d) (db_history d)
     \<and> recorded EOutgoing outgoing_cols {''updated_at''} (db_outgoing d) (db_history d)"

definition db_ok :: "db \<Rightarrow> bool" where
  "db_ok d \<longleftrightarrow> tables_ok d \<and> history_ok d"

lemma db_ok_empty: "db_ok empty_db"
  by (simp add: db_ok_def tables_ok_def history_ok_def empty_db_def task_table_ok_def wake_table_ok_def
      checkpoint_table_ok_def unique_where_def)

lemma db_ok_tasks: "db_ok d \<Longrightarrow> task_table_ok (db_tasks d)"
  by (simp add: db_ok_def tables_ok_def)

lemma db_ok_wakes: "db_ok d \<Longrightarrow> wake_table_ok (db_wakes d)"
  by (simp add: db_ok_def tables_ok_def)

lemma db_ok_task_ids: "db_ok d \<Longrightarrow> distinct (map t_id (db_tasks d))"
  by (simp add: db_ok_def tables_ok_def task_table_ok_def)

lemma db_ok_wake_ids: "db_ok d \<Longrightarrow> distinct (map w_id (db_wakes d))"
  by (simp add: db_ok_def tables_ok_def wake_table_ok_def)

lemma db_ok_effect_keys: "db_ok d \<Longrightarrow> distinct (map effect_key (db_effects d))"
  by (simp add: db_ok_def tables_ok_def)

lemma db_ok_cleanup_keys: "db_ok d \<Longrightarrow> distinct (map cleanup_key (db_cleanups d))"
  by (simp add: db_ok_def tables_ok_def)

lemma db_ok_outgoing_keys: "db_ok d \<Longrightarrow> distinct (map outgoing_key (db_outgoing d))"
  by (simp add: db_ok_def tables_ok_def)

lemma find_task_SomeD: "find_task tid d = Some r \<Longrightarrow> r \<in> set (db_tasks d) \<and> t_id r = tid"
  unfolding find_task_def by (rule lookup_by_SomeD)

lemma task_table_row: "task_table_ok rows \<Longrightarrow> r \<in> set rows \<Longrightarrow> task_row_ok r"
  by (simp add: task_table_ok_def list_all_iff)

lemma db_ok_row: "db_ok d \<Longrightarrow> find_task tid d = Some r \<Longrightarrow> task_row_ok r"
  by (rule task_table_row [OF db_ok_tasks]) (auto dest: find_task_SomeD)

subsubsection \<open>Statements keep it\<close>

text \<open>Replacing one table and appending the matching log entry leaves the other tables' logs alone.\<close>

lemma history_ok_tasks:
  assumes "history_ok d"
    and "recorded ETask task_cols task_untracked rows (change ETask c k n b a (db_history d))"
  shows "history_ok (d\<lparr>db_tasks := rows, db_history := change ETask c k n b a (db_history d)\<rparr>)"
  using assms
  by (simp add: history_ok_def effect_log.recorded_other wake_log.recorded_other
      cleanup_log.recorded_other outgoing_log.recorded_other)

lemma history_ok_effects:
  assumes "history_ok d"
    and "recorded EEffect effect_cols {''updated_at''} rows (change EEffect c k n b a (db_history d))"
  shows "history_ok (d\<lparr>db_effects := rows, db_history := change EEffect c k n b a (db_history d)\<rparr>)"
  using assms
  by (simp add: history_ok_def task_log.recorded_other wake_log.recorded_other
      cleanup_log.recorded_other outgoing_log.recorded_other)

lemma history_ok_wakes:
  assumes "history_ok d"
    and "recorded EWake wake_cols wake_untracked rows (change EWake c k n b a (db_history d))"
  shows "history_ok (d\<lparr>db_wakes := rows, db_history := change EWake c k n b a (db_history d)\<rparr>)"
  using assms
  by (simp add: history_ok_def task_log.recorded_other effect_log.recorded_other
      cleanup_log.recorded_other outgoing_log.recorded_other)

lemma history_ok_cleanups:
  assumes "history_ok d"
    and "recorded ECleanup cleanup_cols {''updated_at''} rows (change ECleanup c k n b a (db_history d))"
  shows "history_ok (d\<lparr>db_cleanups := rows, db_history := change ECleanup c k n b a (db_history d)\<rparr>)"
  using assms
  by (simp add: history_ok_def task_log.recorded_other effect_log.recorded_other
      wake_log.recorded_other outgoing_log.recorded_other)

lemma history_ok_outgoing:
  assumes "history_ok d"
    and "recorded EOutgoing outgoing_cols {''updated_at''} rows (change EOutgoing c k n b a (db_history d))"
  shows "history_ok (d\<lparr>db_outgoing := rows, db_history := change EOutgoing c k n b a (db_history d)\<rparr>)"
  using assms
  by (simp add: history_ok_def task_log.recorded_other effect_log.recorded_other
      wake_log.recorded_other cleanup_log.recorded_other)

lemma tables_ok_history [simp]: "tables_ok (d\<lparr>db_history := h\<rparr>) = tables_ok d"
  by (simp add: tables_ok_def)

lemma change_task_ok:
  assumes "change_task tid cause kind now G f d = Inr (hit, d')" and ok: "db_ok d"
    and f: "\<And>r. t_id (f r) = t_id r"
  shows "db_ok d'"
proof -
  let ?rows = "update_by t_id tid G f (db_tasks d)"
  from assms(1) have rows: "task_table_ok ?rows"
    and d': "d' = d\<lparr>db_tasks := ?rows, db_history :=
      change ETask cause kind now (map_option task_cols (lookup_by t_id tid (db_tasks d)))
        (map_option task_cols (lookup_by t_id tid ?rows)) (db_history d)\<rparr>"
    by (auto simp: change_task_def log_task_def find_task_def Let_def split: if_splits)
  have "recorded ETask task_cols task_untracked (db_tasks d) (db_history d)"
    using ok by (simp add: db_ok_def history_ok_def)
  from task_log.recorded_update [OF this db_ok_task_ids [OF ok] f] ok rows
  show ?thesis unfolding d' db_ok_def
    by (auto simp: tables_ok_def intro: history_ok_tasks)
qed

lemma insert_task_ok:
  assumes "insert_task row cause now d = Inr d'" and ok: "db_ok d"
  shows "db_ok d'"
proof -
  from assms(1) have rows: "task_table_ok (db_tasks d @ [row])"
    by (auto simp: insert_task_def Let_def split: if_splits)
  then have new: "t_id row \<notin> t_id ` set (db_tasks d)" by (auto simp: task_table_ok_def)
  then have look: "lookup_by t_id (t_id row) (db_tasks d) = None" by (simp add: lookup_by_None_iff)
  from assms(1) rows have d': "d' = d\<lparr>db_tasks := db_tasks d @ [row], db_history :=
      change ETask cause HTransition now None (Some (task_cols row)) (db_history d)\<rparr>"
    by (simp add: insert_task_def log_task_def find_task_def look lookup_by_append)
  have "recorded ETask task_cols task_untracked (db_tasks d) (db_history d)"
    using ok by (simp add: db_ok_def history_ok_def)
  from task_log.recorded_insert [OF this new] ok rows show ?thesis unfolding d' db_ok_def
    by (auto simp: tables_ok_def intro: history_ok_tasks)
qed

lemma bump_task_ok:
  assumes ok: "db_ok d"
    and f: "\<And>r. t_id (f r) = t_id r" "\<And>r. (t_scope (f r), t_key (f r)) = (t_scope r, t_key r)"
      "\<And>r. task_row_ok (f r) = task_row_ok r" "\<And>r. live_holder (f r) = live_holder r"
      "\<And>r. t_holder (f r) = t_holder r"
      "\<And>r c. c \<notin> task_untracked \<Longrightarrow> map_of (task_cols (f r)) c = map_of (task_cols r) c"
  shows "db_ok (bump_task tid f d)"
proof -
  let ?g = "\<lambda>r. if t_id r = tid then f r else r"
  have bump: "bump_task tid f d = d\<lparr>db_tasks := map ?g (db_tasks d)\<rparr>"
    by (simp add: bump_task_def update_by_def)
  have same: "map t_id (map ?g rows) = map t_id rows"
      "map (\<lambda>r. (t_scope r, t_key r)) (map ?g rows) = map (\<lambda>r. (t_scope r, t_key r)) rows"
      "list_all task_row_ok (map ?g rows) = list_all task_row_ok rows"
      "map t_holder (filter live_holder (map ?g rows)) = map t_holder (filter live_holder rows)" for rows
    using f(1,3,4,5) f(2) by (induction rows) (auto simp: comp_def)
  have "task_table_ok (map ?g (db_tasks d))"
    using db_ok_tasks [OF ok] unfolding task_table_ok_def unique_where_def same .
  moreover have "recorded ETask task_cols task_untracked (map ?g (db_tasks d)) (db_history d)"
    using ok f(1,6) by (intro task_log.recorded_untracked) (auto simp: db_ok_def history_ok_def)
  ultimately show ?thesis
    using ok by (simp add: bump db_ok_def tables_ok_def history_ok_def)
qed

lemma change_effect_ok:
  assumes "change_effect tid ep cause now G f d = (hit, d')" and ok: "db_ok d"
    and f: "\<And>r. effect_key (f r) = effect_key r"
  shows "db_ok d'"
proof -
  let ?rows = "update_by effect_key (tid, ep) G f (db_effects d)"
  from assms(1) have d': "d' = d\<lparr>db_effects := ?rows, db_history :=
      change EEffect cause HTransition now (map_option effect_cols (lookup_by effect_key (tid, ep) (db_effects d)))
        (map_option effect_cols (lookup_by effect_key (tid, ep) ?rows)) (db_history d)\<rparr>"
    by (simp add: change_effect_def log_effect_def find_effect_def Let_def)
  have "recorded EEffect effect_cols {''updated_at''} (db_effects d) (db_history d)"
    using ok by (simp add: db_ok_def history_ok_def)
  from effect_log.recorded_update [OF this db_ok_effect_keys [OF ok] f]
  have "history_ok d'" unfolding d' using ok by (auto simp: db_ok_def intro: history_ok_effects)
  moreover have "map effect_key ?rows = map effect_key (db_effects d)" by (rule key_update_by) (rule f)
  ultimately show ?thesis using ok by (simp add: d' db_ok_def tables_ok_def)
qed

lemma insert_effect_ok:
  assumes "insert_effect row cause now d = Inr d'" and ok: "db_ok d"
  shows "db_ok d'"
proof -
  from assms(1) have new: "effect_key row \<notin> effect_key ` set (db_effects d)"
    by (auto simp: insert_effect_def split: if_splits)
  then have look: "lookup_by effect_key (e_task_id row, e_epoch row) (db_effects d) = None"
    by (simp add: lookup_by_None_iff effect_key_def)
  from assms(1) new have d': "d' = d\<lparr>db_effects := db_effects d @ [row], db_history :=
      change EEffect cause HTransition now None (Some (effect_cols row)) (db_history d)\<rparr>"
    by (simp add: insert_effect_def log_effect_def find_effect_def look lookup_by_append) (simp add: effect_key_def)
  have "recorded EEffect effect_cols {''updated_at''} (db_effects d) (db_history d)"
    using ok by (simp add: db_ok_def history_ok_def)
  from effect_log.recorded_insert [OF this new]
  have "history_ok d'" unfolding d' using ok by (auto simp: db_ok_def intro: history_ok_effects)
  with new ok show ?thesis by (simp add: d' db_ok_def tables_ok_def)
qed

lemma unique_where_update_by:
  assumes "unique_where P g rows"
    and "\<And>r. r \<in> set rows \<Longrightarrow> key r = k \<Longrightarrow> G r \<Longrightarrow> P (f r) \<Longrightarrow> P r" and "\<And>r. g (f r) = g r"
  shows "unique_where P g (update_by key k G f rows)"
proof -
  have sub: "g ` set (filter P (update_by key k G f xs)) \<subseteq> g ` set (filter P xs)"
    if "\<And>r. r \<in> set xs \<Longrightarrow> key r = k \<Longrightarrow> G r \<Longrightarrow> P (f r) \<Longrightarrow> P r" for xs
    using that assms(3) by (induction xs) auto
  have "(\<And>r. r \<in> set xs \<Longrightarrow> key r = k \<Longrightarrow> G r \<Longrightarrow> P (f r) \<Longrightarrow> P r) \<Longrightarrow> distinct (map g (filter P xs))
        \<Longrightarrow> distinct (map g (filter P (update_by key k G f xs)))" for xs
  proof (induction xs)
    case (Cons x xs)
    have "g ` set (filter P (update_by key k G f xs)) \<subseteq> g ` set (filter P xs)"
      by (rule sub) (use Cons.prems(1) in auto)
    with Cons.IH Cons.prems Cons.prems(1) [of x] assms(3) [of x] show ?case by (auto split: if_splits)
  qed simp
  with assms show ?thesis by (simp add: unique_where_def)
qed

lemma wake_table_insert:
  "wake_table_ok rows \<Longrightarrow> \<not> wake_conflict row rows \<Longrightarrow> wake_table_ok (rows @ [row])"
  by (auto simp: wake_table_ok_def wake_conflict_def unique_where_def list_ex_iff)

lemma insert_wake_ok:
  assumes "insert_wake row cause now d = (ins, d')" and ok: "db_ok d"
  shows "db_ok d'"
proof (cases "wake_conflict row (db_wakes d)")
  case True
  from True assms(1) have "d' = d" by (auto simp: insert_wake_def log_wake_def Let_def)
  with ok show ?thesis by simp
next
  case False
  then have new: "w_id row \<notin> w_id ` set (db_wakes d)" by (auto simp: wake_conflict_def list_ex_iff)
  then have look: "lookup_by w_id (w_id row) (db_wakes d) = None" by (simp add: lookup_by_None_iff)
  from assms(1) False have d': "d' = d\<lparr>db_wakes := db_wakes d @ [row], db_history :=
      change EWake cause HTransition now None (Some (wake_cols row)) (db_history d)\<rparr>"
    by (auto simp: insert_wake_def log_wake_def find_wake_def look lookup_by_append)
  have "recorded EWake wake_cols wake_untracked (db_wakes d) (db_history d)"
    using ok by (simp add: db_ok_def history_ok_def)
  from wake_log.recorded_insert [OF this new]
  have "history_ok d'" unfolding d' using ok by (auto simp: db_ok_def intro: history_ok_wakes)
  with wake_table_insert [OF db_ok_wakes [OF ok] False] ok show ?thesis
    by (simp add: d' db_ok_def tables_ok_def)
qed

lemma change_wake_ok:
  assumes "change_wake wid cause now G f d = (hit, d')" and ok: "db_ok d"
    and f: "\<And>r. (w_parent (f r), w_id (f r)) = (w_parent r, w_id r)" "\<And>r. w_dedupe_key (f r) = w_dedupe_key r"
      "\<And>r. r \<in> set (db_wakes d) \<Longrightarrow> w_id r = wid \<Longrightarrow> G r \<Longrightarrow> live_wake (f r) \<Longrightarrow> live_wake r"
  shows "db_ok d'"
proof -
  let ?rows = "update_by w_id wid G f (db_wakes d)"
  from assms(1) have d': "d' = d\<lparr>db_wakes := ?rows, db_history :=
      change EWake cause HTransition now (map_option wake_cols (lookup_by w_id wid (db_wakes d)))
        (map_option wake_cols (lookup_by w_id wid ?rows)) (db_history d)\<rparr>"
    by (simp add: change_wake_def log_wake_def find_wake_def Let_def)
  have "recorded EWake wake_cols wake_untracked (db_wakes d) (db_history d)"
    using ok by (simp add: db_ok_def history_ok_def)
  from wake_log.recorded_update [OF this db_ok_wake_ids [OF ok] f(1)]
  have "history_ok d'" unfolding d' using ok by (auto simp: db_ok_def intro: history_ok_wakes)
  moreover have "wake_table_ok ?rows"
    using db_ok_wakes [OF ok] f key_update_by [of w_id wid f]
    by (auto simp: wake_table_ok_def intro: unique_where_update_by)
  ultimately show ?thesis using ok by (simp add: d' db_ok_def tables_ok_def)
qed

lemma insert_cleanup_ok:
  assumes ok: "db_ok d"
  shows "db_ok (insert_cleanup row cause now d)"
proof (cases "cleanup_key row \<in> cleanup_key ` set (db_cleanups d)")
  case True
  with ok show ?thesis by (simp add: insert_cleanup_def log_cleanup_def)
next
  case False
  then have look: "lookup_by cleanup_key (cleanup_key row) (db_cleanups d) = None"
    by (simp add: lookup_by_None_iff)
  have "recorded ECleanup cleanup_cols {''updated_at''} (db_cleanups d) (db_history d)"
    using ok by (simp add: db_ok_def history_ok_def)
  from cleanup_log.recorded_insert [OF this False] ok False show ?thesis
    by (simp add: insert_cleanup_def log_cleanup_def find_cleanup_def look lookup_by_append db_ok_def
        history_ok_cleanups tables_ok_def)
qed

lemma change_cleanup_ok:
  assumes ok: "db_ok d" and f: "\<And>r. cleanup_key (f r) = cleanup_key r"
  shows "db_ok (change_cleanup k cause now G f d)"
proof -
  have "recorded ECleanup cleanup_cols {''updated_at''} (db_cleanups d) (db_history d)"
    using ok by (simp add: db_ok_def history_ok_def)
  from cleanup_log.recorded_update [OF this db_ok_cleanup_keys [OF ok] f] ok f show ?thesis
    by (simp add: change_cleanup_def log_cleanup_def find_cleanup_def db_ok_def history_ok_cleanups
        tables_ok_def key_update_by)
qed

lemma insert_outgoing_ok:
  assumes ok: "db_ok d"
  shows "db_ok (insert_outgoing row cause now d)"
proof (cases "outgoing_key row \<in> outgoing_key ` set (db_outgoing d)")
  case True
  with ok show ?thesis by (simp add: insert_outgoing_def log_outgoing_def)
next
  case False
  then have look: "lookup_by outgoing_key (outgoing_key row) (db_outgoing d) = None"
    by (simp add: lookup_by_None_iff)
  have "recorded EOutgoing outgoing_cols {''updated_at''} (db_outgoing d) (db_history d)"
    using ok by (simp add: db_ok_def history_ok_def)
  from outgoing_log.recorded_insert [OF this False] ok False show ?thesis
    by (simp add: insert_outgoing_def log_outgoing_def find_outgoing_def look lookup_by_append db_ok_def
        history_ok_outgoing tables_ok_def)
qed

lemma change_outgoing_ok:
  assumes ok: "db_ok d" and f: "\<And>r. outgoing_key (f r) = outgoing_key r"
  shows "db_ok (change_outgoing k cause now G f d)"
proof -
  have "recorded EOutgoing outgoing_cols {''updated_at''} (db_outgoing d) (db_history d)"
    using ok by (simp add: db_ok_def history_ok_def)
  from outgoing_log.recorded_update [OF this db_ok_outgoing_keys [OF ok] f] ok f show ?thesis
    by (simp add: change_outgoing_def log_outgoing_def find_outgoing_def db_ok_def history_ok_outgoing
        tables_ok_def key_update_by)
qed

subsubsection \<open>What a statement leaves alone\<close>

lemma change_task_frame:
  assumes "change_task tid cause kind now G f d = Inr (hit, d')"
  shows "db_effects d' = db_effects d" "db_wakes d' = db_wakes d" "db_cleanups d' = db_cleanups d"
    "db_outgoing d' = db_outgoing d" "db_checkpoints d' = db_checkpoints d"
    "db_tasks d' = update_by t_id tid G f (db_tasks d)" "hit = hits_by t_id tid G (db_tasks d)"
  using assms by (auto simp: change_task_def log_task_def Let_def split: if_splits)

lemma change_task_find:
  assumes "change_task tid cause kind now G f d = Inr (hit, d')" and "\<And>r. t_id (f r) = t_id r"
  shows "find_task tid' d' = map_option (\<lambda>r. if tid' = tid \<and> G r then f r else r) (find_task tid' d)"
  using assms(2) by (simp add: find_task_def change_task_frame(6) [OF assms(1)] lookup_update_by)

lemma change_task_hit:
  assumes "change_task tid cause kind now G f d = Inr (hit, d')" and "db_ok d"
  shows "hit \<longleftrightarrow> (\<exists>r. find_task tid d = Some r \<and> G r)"
  using change_task_frame(7) [OF assms(1)] db_ok_task_ids [OF assms(2)]
  by (simp add: hits_by_iff find_task_def)

lemma insert_task_frame:
  assumes "insert_task row cause now d = Inr d'"
  shows "db_effects d' = db_effects d" "db_wakes d' = db_wakes d" "db_cleanups d' = db_cleanups d"
    "db_outgoing d' = db_outgoing d" "db_checkpoints d' = db_checkpoints d"
    "db_tasks d' = db_tasks d @ [row]"
  using assms by (auto simp: insert_task_def log_task_def Let_def split: if_splits)

lemma bump_task_frame [simp]:
  "db_effects (bump_task tid f d) = db_effects d" "db_wakes (bump_task tid f d) = db_wakes d"
  "db_cleanups (bump_task tid f d) = db_cleanups d" "db_outgoing (bump_task tid f d) = db_outgoing d"
  "db_checkpoints (bump_task tid f d) = db_checkpoints d" "db_history (bump_task tid f d) = db_history d"
  by (simp_all add: bump_task_def)

lemma bump_task_find:
  assumes "\<And>r. t_id (f r) = t_id r"
  shows "find_task tid' (bump_task tid f d)
         = map_option (\<lambda>r. if tid' = tid then f r else r) (find_task tid' d)"
  using assms by (simp add: find_task_def bump_task_def lookup_update_by)

lemma change_effect_frame:
  assumes "change_effect tid ep cause now G f d = (hit, d')"
  shows "db_tasks d' = db_tasks d" "db_wakes d' = db_wakes d" "db_cleanups d' = db_cleanups d"
    "db_outgoing d' = db_outgoing d" "db_checkpoints d' = db_checkpoints d"
    "db_effects d' = update_by effect_key (tid, ep) G f (db_effects d)"
    "hit = hits_by effect_key (tid, ep) G (db_effects d)"
  using assms by (auto simp: change_effect_def log_effect_def Let_def)

lemma change_effect_find:
  assumes "change_effect tid ep cause now G f d = (hit, d')" and "\<And>r. effect_key (f r) = effect_key r"
  shows "find_effect tid' ep' d' = map_option (\<lambda>r. if (tid', ep') = (tid, ep) \<and> G r then f r else r)
           (find_effect tid' ep' d)"
  using assms(2) by (simp add: find_effect_def change_effect_frame(6) [OF assms(1)] lookup_update_by)

lemma change_effect_hit:
  assumes "change_effect tid ep cause now G f d = (hit, d')" and "db_ok d"
  shows "hit \<longleftrightarrow> (\<exists>r. find_effect tid ep d = Some r \<and> G r)"
  using change_effect_frame(7) [OF assms(1)] db_ok_effect_keys [OF assms(2)]
  by (simp add: hits_by_iff find_effect_def)

lemma insert_effect_frame:
  assumes "insert_effect row cause now d = Inr d'"
  shows "db_tasks d' = db_tasks d" "db_wakes d' = db_wakes d" "db_cleanups d' = db_cleanups d"
    "db_outgoing d' = db_outgoing d" "db_checkpoints d' = db_checkpoints d"
    "db_effects d' = db_effects d @ [row]"
  using assms by (auto simp: insert_effect_def log_effect_def split: if_splits)

lemma change_wake_frame:
  assumes "change_wake wid cause now G f d = (hit, d')"
  shows "db_tasks d' = db_tasks d" "db_effects d' = db_effects d" "db_cleanups d' = db_cleanups d"
    "db_outgoing d' = db_outgoing d" "db_checkpoints d' = db_checkpoints d"
    "db_wakes d' = update_by w_id wid G f (db_wakes d)" "hit = hits_by w_id wid G (db_wakes d)"
  using assms by (auto simp: change_wake_def log_wake_def Let_def)

lemma change_wake_find:
  assumes "change_wake wid cause now G f d = (hit, d')" and "\<And>r. w_id (f r) = w_id r"
  shows "find_wake wid' d' = map_option (\<lambda>r. if wid' = wid \<and> G r then f r else r) (find_wake wid' d)"
  using assms(2) by (simp add: find_wake_def change_wake_frame(6) [OF assms(1)] lookup_update_by)

lemma change_wake_hit:
  assumes "change_wake wid cause now G f d = (hit, d')" and "db_ok d"
  shows "hit \<longleftrightarrow> (\<exists>r. find_wake wid d = Some r \<and> G r)"
  using change_wake_frame(7) [OF assms(1)] db_ok_wake_ids [OF assms(2)]
  by (simp add: hits_by_iff find_wake_def)

lemma insert_wake_frame:
  assumes "insert_wake row cause now d = (ins, d')"
  shows "db_tasks d' = db_tasks d" "db_effects d' = db_effects d" "db_cleanups d' = db_cleanups d"
    "db_outgoing d' = db_outgoing d" "db_checkpoints d' = db_checkpoints d"
    "db_wakes d' = (if wake_conflict row (db_wakes d) then db_wakes d else db_wakes d @ [row])"
    "ins = (\<not> wake_conflict row (db_wakes d))"
  using assms by (auto simp: insert_wake_def log_wake_def Let_def)

lemma cleanup_frame [simp]:
  "db_tasks (insert_cleanup row cause now d) = db_tasks d"
  "db_effects (insert_cleanup row cause now d) = db_effects d"
  "db_wakes (insert_cleanup row cause now d) = db_wakes d"
  "db_outgoing (insert_cleanup row cause now d) = db_outgoing d"
  "db_tasks (change_cleanup k cause now CG cf d) = db_tasks d"
  "db_effects (change_cleanup k cause now CG cf d) = db_effects d"
  "db_wakes (change_cleanup k cause now CG cf d) = db_wakes d"
  "db_outgoing (change_cleanup k cause now CG cf d) = db_outgoing d"
  by (simp_all add: insert_cleanup_def change_cleanup_def log_cleanup_def Let_def)

lemma outgoing_frame [simp]:
  "db_tasks (insert_outgoing row cause now d) = db_tasks d"
  "db_effects (insert_outgoing row cause now d) = db_effects d"
  "db_wakes (insert_outgoing row cause now d) = db_wakes d"
  "db_cleanups (insert_outgoing row cause now d) = db_cleanups d"
  "db_tasks (change_outgoing k cause now OG og d) = db_tasks d"
  "db_effects (change_outgoing k cause now OG og d) = db_effects d"
  "db_wakes (change_outgoing k cause now OG og d) = db_wakes d"
  "db_cleanups (change_outgoing k cause now OG og d) = db_cleanups d"
  by (simp_all add: insert_outgoing_def change_outgoing_def log_outgoing_def Let_def)

subsubsection \<open>The log is append-only\<close>

definition log_extends :: "db \<Rightarrow> db \<Rightarrow> bool" where
  "log_extends d d' \<longleftrightarrow> (\<exists>hs. db_history d' = db_history d @ hs)"

lemma log_extends_refl [simp]: "log_extends d d"
  by (simp add: log_extends_def)

lemma log_extends_trans: "log_extends a b \<Longrightarrow> log_extends b c \<Longrightarrow> log_extends a c"
  by (auto simp: log_extends_def)

lemma log_steps_extend:
  assumes "db_history d' = db_history d"
  shows "log_extends d (log_task c kd n t b d')" "log_extends d (log_effect c n t ep b d')"
    "log_extends d (log_wake c n w b d')" "log_extends d (log_cleanup c n ck b d')"
    "log_extends d (log_outgoing c n ok b d')"
  using change_prefix assms
  by (simp_all add: log_extends_def log_task_def log_effect_def log_wake_def log_cleanup_def log_outgoing_def)

lemma change_task_log: "change_task tid cause kind now G f d = Inr (hit, d') \<Longrightarrow> log_extends d d'"
  by (auto simp: change_task_def Let_def log_steps_extend split: if_splits)

lemma insert_task_log: "insert_task row cause now d = Inr d' \<Longrightarrow> log_extends d d'"
  by (auto simp: insert_task_def Let_def log_steps_extend split: if_splits)

lemma bump_task_log [simp]: "log_extends d (bump_task tid f d)"
  by (simp add: log_extends_def)

lemma change_effect_log: "change_effect tid ep cause now G f d = (hit, d') \<Longrightarrow> log_extends d d'"
  by (auto simp: change_effect_def Let_def log_steps_extend)

lemma insert_effect_log: "insert_effect row cause now d = Inr d' \<Longrightarrow> log_extends d d'"
  by (auto simp: insert_effect_def log_steps_extend split: if_splits)

lemma change_wake_log: "change_wake wid cause now G f d = (hit, d') \<Longrightarrow> log_extends d d'"
  by (auto simp: change_wake_def Let_def log_steps_extend)

lemma insert_wake_log: "insert_wake row cause now d = (ins, d') \<Longrightarrow> log_extends d d'"
  by (auto simp: insert_wake_def Let_def log_steps_extend)

lemma cleanup_log_extends [simp]:
  "log_extends d (insert_cleanup row cause now d)" "log_extends d (change_cleanup k cause now CG cf d)"
  by (simp_all add: insert_cleanup_def change_cleanup_def Let_def log_steps_extend)

lemma outgoing_log_extends [simp]:
  "log_extends d (insert_outgoing row cause now d)" "log_extends d (change_outgoing k cause now OG og d)"
  by (simp_all add: insert_outgoing_def change_outgoing_def Let_def log_steps_extend)

end
