(* ===== verification/TaskStore.thy ===== *)
theory TaskStore
  imports Fence KernelTables
begin

text \<open>
  The task store's operations (\<open>task_store.py\<close>): reservation of a batch, the reads, the
  guarded transition every lifecycle write goes through, activation, replacement, finishing
  with the failure budget, and the liveness and budget observations.  An operation takes the
  reading of \<open>time.time()\<close> it uses and the database, and returns the new database with its
  result; \<open>Inl\<close> is the exception, after which the caller keeps the database it had.
\<close>

subsection \<open>State sets\<close>

definition live_states :: "task_state set" where
  "live_states = {Reserved, Active, Replacing, Blocked}"

fun finish_predecessors :: "task_state \<Rightarrow> task_state set option" where
  "finish_predecessors Completed = Some {Active, Replacing, Blocked}"
| "finish_predecessors Blocked = Some {Reserved, Active, Replacing}"
| "finish_predecessors Cancelled = Some {Reserved, Active, Replacing, Blocked}"
| "finish_predecessors Lost = Some {Reserved, Active, Replacing}"
| "finish_predecessors Exhausted = Some {Reserved, Active, Replacing, Blocked}"
| "finish_predecessors _ = None"

definition activate_predecessors :: "task_state set" where
  "activate_predecessors = {Reserved, Active, Replacing}"

definition replace_predecessors :: "task_state set" where
  "replace_predecessors = {Active, Blocked, Lost}"

definition stall_liveness :: "liveness set" where
  "stall_liveness = {IdleUnreported, Limbo, Stalled}"

definition yield_states :: "task_state set" where
  "yield_states = {Active, Replacing}"

definition liveness_stretch :: "liveness \<Rightarrow> string" where
  "liveness_stretch l = (if l \<in> {Live, Parked} then liveness_name l else ''silent'')"

subsection \<open>The guarded transition\<close>

text \<open>\<open>_transition\<close>, on the caller's connection.\<close>

definition transition_on ::
  "string \<Rightarrow> task_state set \<Rightarrow> int option \<Rightarrow> (task_row \<Rightarrow> task_row) \<Rightarrow> string \<Rightarrow> real \<Rightarrow> db
   \<Rightarrow> kerror + task_record \<times> db" where
  "transition_on tid expect ev assign attempted now d =
     ebind
       (change_task tid attempted HTransition now
          (\<lambda>r. t_state r \<in> expect \<and> (ev = None \<or> ev = Some (t_version r)))
          (\<lambda>r. (assign r)\<lparr>t_version := t_version r + 1, t_updated_at := now\<rparr>) d)
       (\<lambda>(hit, d').
          case find_task tid d' of
            None \<Rightarrow> Inl TaskNotFound
          | Some row \<Rightarrow>
              if \<not> hit then Inl (StaleTransition (decode_task row) attempted)
              else Inr (decode_task row, d'))"

text \<open>\<open>transition\<close>: the same behind the task's fence, on its own or the caller's connection.\<close>

definition transition ::
  "ctx \<Rightarrow> string \<Rightarrow> task_state set \<Rightarrow> int option \<Rightarrow> (task_row \<Rightarrow> task_row) \<Rightarrow> string \<Rightarrow> fence option
   \<Rightarrow> real \<Rightarrow> db \<Rightarrow> kerror + task_record \<times> db" where
  "transition x tid expect ev assign attempted fence now d =
     ebind (require_fence x tid fence) (\<lambda>_. transition_on tid expect ev assign attempted now d)"

text \<open>\<open>if fence is None: with self.task_lock(task_id) as held: ...\<close>\<close>

definition with_fence :: "ctx \<Rightarrow> string \<Rightarrow> fence option \<Rightarrow> (ctx \<Rightarrow> fence option \<Rightarrow> 'a) \<Rightarrow> 'a" where
  "with_fence x tid fence body =
     (case fence of
        None \<Rightarrow> body (lock_ctx tid x) (Some (lock_fence tid x))
      | Some f \<Rightarrow> body x (Some f))"

definition activate ::
  "ctx \<Rightarrow> string \<Rightarrow> string \<Rightarrow> string \<Rightarrow> fence option \<Rightarrow> real \<Rightarrow> db \<Rightarrow> kerror + task_record \<times> db" where
  "activate x tid workspace session fence now d =
     with_fence x tid fence (\<lambda>x f.
       ebind (require_fence x tid f) (\<lambda>_.
         transition_on tid activate_predecessors None
           (\<lambda>r. r\<lparr>t_state := Active, t_workspace := Some workspace, t_holder := Some session\<rparr>)
           ''active'' now d))"

definition prepare_replacement ::
  "ctx \<Rightarrow> string \<Rightarrow> json option \<Rightarrow> bool \<Rightarrow> int option \<Rightarrow> fence option \<Rightarrow> real \<Rightarrow> db
   \<Rightarrow> kerror + task_record \<times> db" where
  "prepare_replacement x tid target charge ev fence now d =
     with_fence x tid fence (\<lambda>x f.
       ebind (require_fence x tid f) (\<lambda>_.
         case find_task tid d of
           None \<Rightarrow> Inl TaskNotFound
         | Some task \<Rightarrow>
             if t_attempts task \<ge> t_max_attempts task
             then Inl (CircuitBreaker (t_key task) (t_max_attempts task))
             else
               let spec = (case target of None \<Rightarrow> t_spec task | Some tg \<Rightarrow> jset ''target'' tg (t_spec task))
               in transition x tid replace_predecessors ev
                    (\<lambda>r. r\<lparr>t_state := Replacing, t_epoch := t_epoch r + 1,
                           t_attempts := (if charge then t_attempts r + 1 else t_attempts r),
                           t_spec := jcanon spec, t_liveness := Live, t_liveness_episode := 0,
                           t_liveness_since := None, t_liveness_wakes := 0,
                           t_liveness_evidence := None, t_over_budget := False,
                           t_checkpoint_at := None\<rparr>)
                    ''replacing'' f now d))"

definition checkpoint :: "string \<Rightarrow> string \<Rightarrow> real \<Rightarrow> db \<Rightarrow> kerror + task_record \<times> db" where
  "checkpoint tid text now d =
     transition_on tid live_states None
       (\<lambda>r. r\<lparr>t_checkpoint := Some text, t_checkpoint_at := Some now\<rparr>) ''checkpoint'' now d"

subsection \<open>Finishing\<close>

definition or_default :: "string option \<Rightarrow> string \<Rightarrow> string" where
  "or_default v s = (if truthy v then the v else s)"

text \<open>\<open>_record_failure\<close>: charge one failure, or expose the last one as exhausted.\<close>

definition record_failure ::
  "ctx \<Rightarrow> string \<Rightarrow> task_state \<Rightarrow> string option \<Rightarrow> int option \<Rightarrow> fence option \<Rightarrow> real \<Rightarrow> db
   \<Rightarrow> kerror + task_record \<times> db" where
  "record_failure x tid st res ev fence now d =
     (case find_task tid d of
        None \<Rightarrow> Inl TaskNotFound
      | Some task \<Rightarrow>
          if t_attempts task \<ge> t_max_attempts task
          then Inl (CircuitBreaker (t_key task) (t_max_attempts task))
          else
            let exhausted = (t_attempts task + 1 \<ge> t_max_attempts task);
                preds = (case finish_predecessors st of None \<Rightarrow> {} | Some ps \<Rightarrow> ps)
            in transition x tid preds ev
                 (if exhausted
                  then (\<lambda>r. r\<lparr>t_state := Exhausted, t_attempts := t_attempts r + 1,
                              t_result := Some (''exhausted: '' @ or_default res (state_name st))\<rparr>)
                  else (\<lambda>r. r\<lparr>t_state := st, t_attempts := t_attempts r + 1, t_result := res\<rparr>))
                 (if exhausted then ''exhausted'' else state_name st) fence now d)"

text \<open>
  \<open>_record_exhaustion\<close>: without a shared connection it runs its own transaction and does
  not look at the fence.
\<close>

definition record_exhaustion ::
  "ctx \<Rightarrow> string \<Rightarrow> string option \<Rightarrow> int option \<Rightarrow> fence option \<Rightarrow> bool \<Rightarrow> real \<Rightarrow> db
   \<Rightarrow> kerror + task_record \<times> db" where
  "record_exhaustion x tid res ev fence shared now d =
     (let assign = (\<lambda>r. r\<lparr>t_state := Exhausted, t_attempts := t_attempts r + 1,
                          t_result := Some (''exhausted: '' @ or_default res ''failed'')\<rparr>);
          preds = {Reserved, Active, Replacing, Blocked}
      in if shared then transition x tid preds ev assign ''exhausted'' fence now d
         else transition_on tid preds ev assign ''exhausted'' now d)"

definition finish ::
  "ctx \<Rightarrow> string \<Rightarrow> task_state \<Rightarrow> string option \<Rightarrow> int option \<Rightarrow> bool \<Rightarrow> fence option \<Rightarrow> bool \<Rightarrow> real \<Rightarrow> db
   \<Rightarrow> kerror + task_record \<times> db" where
  "finish x tid st res ev charge fence shared now d =
     (case finish_predecessors st of
        None \<Rightarrow> Inl (UnsupportedFinish st)
      | Some preds \<Rightarrow>
          with_fence x tid fence (\<lambda>x f.
            if st = Lost \<or> charge then record_failure x tid st res ev f now d
            else if st = Exhausted then record_exhaustion x tid res ev f shared now d
            else transition x tid preds ev (\<lambda>r. r\<lparr>t_state := st, t_result := res\<rparr>)
                   (state_name st) f now d))"

definition exhaust ::
  "ctx \<Rightarrow> string \<Rightarrow> string \<Rightarrow> int \<Rightarrow> fence option \<Rightarrow> real \<Rightarrow> db \<Rightarrow> kerror + task_record \<times> db" where
  "exhaust x tid reason ev fence now d =
     ebind (require_fence x tid fence) (\<lambda>_.
       finish x tid Exhausted (Some reason) (Some ev) False fence False now d)"

subsection \<open>Reads\<close>

definition get_by_id :: "string \<Rightarrow> db \<Rightarrow> task_record option" where
  "get_by_id tid d = map_option decode_task (find_task tid d)"

definition get_task :: "string \<Rightarrow> string \<Rightarrow> db \<Rightarrow> task_record option" where
  "get_task sc ky d = map_option decode_task (find_task_by_key sc ky d)"

definition get_by_session :: "string \<Rightarrow> db \<Rightarrow> task_record option" where
  "get_by_session s d = map_option decode_task (find (\<lambda>r. t_holder r = Some s) (db_tasks d))"

definition list_scope :: "string \<Rightarrow> db \<Rightarrow> task_record list" where
  "list_scope sc d = map decode_task (sort_key t_created_at (filter (\<lambda>r. t_scope r = sc) (db_tasks d)))"

definition list_state :: "task_state \<Rightarrow> db \<Rightarrow> task_record list" where
  "list_state st d = map decode_task (sort_key t_updated_at (filter (\<lambda>r. t_state r = st) (db_tasks d)))"

definition child_rows :: "string \<Rightarrow> db \<Rightarrow> task_row list" where
  "child_rows p d = filter (\<lambda>r. t_parent r = Some p) (db_tasks d)"

definition children :: "string \<Rightarrow> db \<Rightarrow> task_record list" where
  "children p d = map decode_task (sort_key t_created_at (child_rows p d))"

text \<open>\<open>count_running\<close>: the executor's live coding-agent processes.\<close>

fun count_running :: "json list \<Rightarrow> kerror + int" where
  "count_running [] = Inr 0"
| "count_running (p # ps) =
     (case jget ''status'' p of
        None \<Rightarrow> Inl MalformedProcess
      | Some st \<Rightarrow>
          if st = JStr ''running''
          then (case jget ''run_reason'' p of
                  None \<Rightarrow> Inl MalformedProcess
                | Some rr \<Rightarrow> ebind (count_running ps) (\<lambda>n. Inr (if rr = JStr ''codingagent'' then n + 1 else n)))
          else count_running ps)"

subsection \<open>Reservation\<close>

definition task_id_of :: "(string \<Rightarrow> string) \<Rightarrow> string \<Rightarrow> string \<Rightarrow> string" where
  "task_id_of uuid5 sc ky = uuid5 (sc @ [char_of (0::nat)] @ ky)"

text \<open>
  \<open>str(spec["key"])\<close> for the scalars whose \<open>str\<close> the model has; the sdk always passes a
  string.  A missing key raises, and so does, in the model only, a key that is a float, a
  list or an object; likewise \<open>int(spec.get("children", 0))\<close> of a string.
\<close>

fun spec_key :: "json \<Rightarrow> kerror + string" where
  "spec_key j =
     (case jget ''key'' j of
        Some (JStr s) \<Rightarrow> Inr s
      | Some (JInt i) \<Rightarrow> Inr (show_int i)
      | Some (JBool b) \<Rightarrow> Inr (if b then ''True'' else ''False'')
      | Some JNull \<Rightarrow> Inr ''None''
      | _ \<Rightarrow> Inl SpecMalformed)"

fun spec_children :: "json \<Rightarrow> kerror + int" where
  "spec_children j =
     (case jget ''children'' j of
        None \<Rightarrow> Inr 0
      | Some (JInt n) \<Rightarrow> Inr n
      | Some (JBool b) \<Rightarrow> Inr (of_bool b)
      | Some (JReal v) \<Rightarrow> Inr (if 0 \<le> v then \<lfloor>v\<rfloor> else \<lceil>v\<rceil>)
      | Some _ \<Rightarrow> Inl SpecMalformed)"

fun spec_keys :: "json list \<Rightarrow> kerror + string list" where
  "spec_keys [] = Inr []"
| "spec_keys (j # js) = ebind (spec_key j) (\<lambda>k. ebind (spec_keys js) (\<lambda>ks. Inr (k # ks)))"

definition new_task_row ::
  "string \<Rightarrow> string \<Rightarrow> string \<Rightarrow> string option \<Rightarrow> int \<Rightarrow> int \<Rightarrow> json \<Rightarrow> real \<Rightarrow> task_row" where
  "new_task_row tid sc ky parent max_att limit spec now =
     \<lparr>t_id = tid, t_scope = sc, t_key = ky, t_parent = parent, t_state = Reserved, t_epoch = 1,
      t_attempts = 0, t_max_attempts = max_att, t_child_limit = limit, t_spec = spec,
      t_workspace = None, t_holder = None, t_checkpoint = None, t_result = None, t_version = 0,
      t_created_at = now, t_updated_at = now, t_liveness = Live, t_liveness_episode = 0,
      t_liveness_since = None, t_liveness_wakes = 0, t_liveness_evidence = None,
      t_over_budget = False, t_checkpoint_at = None, t_child_event_seq = 0, t_last_woken_seq = 0\<rparr>"

fun reserve_rows ::
  "(string \<Rightarrow> string) \<Rightarrow> string \<Rightarrow> string option \<Rightarrow> int \<Rightarrow> real \<Rightarrow> json list \<Rightarrow> db
   \<Rightarrow> kerror + (task_record \<times> bool) list \<times> db" where
  "reserve_rows uuid5 sc parent max_att now [] d = Inr ([], d)"
| "reserve_rows uuid5 sc parent max_att now (spec # specs) d =
     ebind (spec_key spec) (\<lambda>ky.
       let encoded = jcanon spec in
       ebind
         (case find_task_by_key sc ky d of
            None \<Rightarrow>
              ebind (spec_children spec) (\<lambda>limit.
                let row = new_task_row (task_id_of uuid5 sc ky) sc ky parent max_att limit encoded now
                in ebind (insert_task row ''reserved'' now d) (\<lambda>d'. Inr ((decode_task row, True), d')))
          | Some row \<Rightarrow>
              if t_spec row \<noteq> encoded then Inl (SpecMismatch ky)
              else Inr ((decode_task row, False), d))
         (\<lambda>(r, d'). ebind (reserve_rows uuid5 sc parent max_att now specs d')
                      (\<lambda>(rs, d''). Inr (r # rs, d''))))"

definition count_new_keys :: "string \<Rightarrow> string list \<Rightarrow> db \<Rightarrow> nat" where
  "count_new_keys sc keys d = length (filter (\<lambda>k. find_task_by_key sc k d = None) keys)"

definition check_child_limit :: "string \<Rightarrow> string option \<Rightarrow> string list \<Rightarrow> db \<Rightarrow> kerror + unit" where
  "check_child_limit sc parent keys d =
     (if \<not> truthy parent then Inr ()
      else case find_task (the parent) d of
             None \<Rightarrow> Inl ParentGone
           | Some p \<Rightarrow>
               let total = int (length (child_rows (the parent) d)) + int (count_new_keys sc keys d)
               in if total > t_child_limit p then Inl (ChildLimit (t_child_limit p) total) else Inr ())"

definition reserve_all ::
  "(string \<Rightarrow> string) \<Rightarrow> string \<Rightarrow> string option \<Rightarrow> json list \<Rightarrow> int \<Rightarrow> real \<Rightarrow> db
   \<Rightarrow> kerror + (task_record \<times> bool) list \<times> db" where
  "reserve_all uuid5 sc parent specs max_att now d =
     (if specs = [] then Inr ([], d)
      else ebind (spec_keys specs) (\<lambda>keys.
             if \<not> distinct keys then Inl DuplicateKeys
             else ebind (check_child_limit sc parent keys d) (\<lambda>_.
                    reserve_rows uuid5 sc parent max_att now specs d)))"

subsection \<open>Observations\<close>

fun liveness_of_name :: "string \<Rightarrow> liveness option" where
  "liveness_of_name s =
     (if s = ''live'' then Some Live else if s = ''parked'' then Some Parked
      else if s = ''idle_unreported'' then Some IdleUnreported
      else if s = ''limbo'' then Some Limbo else if s = ''stalled'' then Some Stalled else None)"

definition apply_liveness :: "liveness \<Rightarrow> string option \<Rightarrow> real \<Rightarrow> task_row \<Rightarrow> task_row" where
  "apply_liveness l ev moment r =
     (if liveness_stretch (t_liveness r) = liveness_stretch l
      then r\<lparr>t_liveness := l, t_liveness_evidence := ev\<rparr>
      else let closing = (l = Live) in
           r\<lparr>t_liveness := l, t_liveness_episode := t_liveness_episode r + (if closing then 0 else 1),
             t_liveness_since := (if closing then None else Some moment), t_liveness_wakes := 0,
             t_liveness_evidence := (if closing then None else ev)\<rparr>)"

definition record_liveness :: "string \<Rightarrow> string \<Rightarrow> string option \<Rightarrow> real \<Rightarrow> db \<Rightarrow> kerror + task_record \<times> db" where
  "record_liveness tid name ev moment d =
     (case liveness_of_name name of
        None \<Rightarrow> Inl (UnsupportedLiveness name)
      | Some l \<Rightarrow>
          (case find_task tid d of
             None \<Rightarrow> Inl TaskNotFound
           | Some _ \<Rightarrow>
               ebind (change_task tid ''liveness'' HObservation moment (\<lambda>r. t_state r \<in> live_states)
                        (apply_liveness l ev moment) d)
                 (\<lambda>(_, d'). case find_task tid d' of
                              None \<Rightarrow> Inl TaskNotFound
                            | Some row \<Rightarrow> Inr (decode_task row, d'))))"

definition record_over_budget :: "string \<Rightarrow> real \<Rightarrow> db \<Rightarrow> kerror + bool \<times> db" where
  "record_over_budget tid now d =
     change_task tid ''over-budget'' HObservation now
       (\<lambda>r. \<not> t_over_budget r \<and> t_state r \<in> live_states) (\<lambda>r. r\<lparr>t_over_budget := True\<rparr>) d"

subsection \<open>What a lifecycle write does to the database\<close>

text \<open>
  \<open>task_write tid r r' d d'\<close>: the row \<open>r\<close> of \<open>tid\<close> became \<open>r'\<close>, every other row and every
  other table is as before, and the history was only appended to.
\<close>

definition same_side_tables :: "db \<Rightarrow> db \<Rightarrow> bool" where
  "same_side_tables d d' \<longleftrightarrow> db_effects d' = db_effects d \<and> db_wakes d' = db_wakes d
     \<and> db_cleanups d' = db_cleanups d \<and> db_outgoing d' = db_outgoing d
     \<and> db_checkpoints d' = db_checkpoints d"

definition task_write :: "string \<Rightarrow> task_row \<Rightarrow> task_row \<Rightarrow> db \<Rightarrow> db \<Rightarrow> bool" where
  "task_write tid r r' d d' \<longleftrightarrow> find_task tid d = Some r \<and> t_id r' = tid
     \<and> db_tasks d' = map (\<lambda>x. if t_id x = tid then r' else x) (db_tasks d)
     \<and> same_side_tables d d' \<and> log_extends d d' \<and> db_ok d'"

lemma same_side_tables_refl [simp]: "same_side_tables d d"
  by (simp add: same_side_tables_def)

lemma same_side_tables_trans: "same_side_tables a b \<Longrightarrow> same_side_tables b c \<Longrightarrow> same_side_tables a c"
  by (simp add: same_side_tables_def)

lemma task_write_find:
  assumes "task_write tid r r' d d'"
  shows "find_task t d' = (if t = tid then Some r' else find_task t d)"
proof -
  from assms have r: "lookup_by t_id tid (db_tasks d) = Some r" and id': "t_id r' = tid"
    and rows: "db_tasks d' = map (\<lambda>x. if t_id x = tid then r' else x) (db_tasks d)"
    by (simp_all add: task_write_def find_task_def)
  have "lookup_by t_id t (map (\<lambda>x. if t_id x = tid then r' else x) xs)
        = (if t = tid then map_option (\<lambda>_. r') (lookup_by t_id tid xs) else lookup_by t_id t xs)" for xs
    using id' by (induction xs) auto
  with r show ?thesis by (simp add: find_task_def rows)
qed

lemma change_task_write:
  assumes step: "change_task tid cause kind now G f d = Inr (hit, d')" and hit: hit and ok: "db_ok d"
    and f: "\<And>r. t_id (f r) = t_id r"
  obtains r where "find_task tid d = Some r" "G r" "task_write tid r (f r) d d'"
proof -
  from change_task_hit [OF step ok] hit obtain r where r: "find_task tid d = Some r" "G r" by auto
  have same: "x = r" if "x \<in> set (db_tasks d)" "t_id x = tid" for x
    using lookup_by_mem [OF db_ok_task_ids [OF ok] that(1)] that(2) r(1) by (simp add: find_task_def)
  have rows: "db_tasks d' = map (\<lambda>x. if t_id x = tid then f r else x) (db_tasks d)"
    unfolding change_task_frame(6) [OF step] update_by_def using same r(2) by auto
  with rows r f change_task_ok [OF step ok f] change_task_frame [OF step] change_task_log [OF step]
  have "task_write tid r (f r) d d'"
    by (auto simp: task_write_def same_side_tables_def dest: find_task_SomeD)
  with that r show thesis .
qed

lemma transition_on_write:
  assumes step: "transition_on tid expect ev assign att now d = Inr (res, d')" and ok: "db_ok d"
    and f: "\<And>r. t_id (assign r) = t_id r"
  obtains r where "find_task tid d = Some r" "t_state r \<in> expect" "ev = None \<or> ev = Some (t_version r)"
    "task_write tid r ((assign r)\<lparr>t_version := t_version r + 1, t_updated_at := now\<rparr>) d d'"
    "res = decode_task ((assign r)\<lparr>t_version := t_version r + 1, t_updated_at := now\<rparr>)"
proof -
  let ?G = "\<lambda>r. t_state r \<in> expect \<and> (ev = None \<or> ev = Some (t_version r))"
  let ?f = "\<lambda>r. (assign r)\<lparr>t_version := t_version r + 1, t_updated_at := now\<rparr>"
  from step obtain row where
    chg: "change_task tid att HTransition now ?G ?f d = Inr (True, d')"
    and row: "find_task tid d' = Some row" "res = decode_task row"
    by (auto simp: transition_on_def split: option.splits if_splits)
  from f have f': "\<And>r. t_id (?f r) = t_id r" by simp
  from change_task_write [OF chg TrueI ok f'] obtain r where
    r: "find_task tid d = Some r" "?G r" "task_write tid r (?f r) d d'" by blast
  from task_write_find [OF r(3)] row have "res = decode_task (?f r)" by simp
  with that r show thesis by blast
qed

subsection \<open>The lifecycle of one task\<close>

text \<open>
  The abstract specification of a task: which states follow which, that every lifecycle
  write counts one version, that only a replacement or the reissue of a lost task opens a new
  epoch, and what the failure budget allows.  An observation (liveness, budget, wake bookkeeping) moves none of these.
\<close>

fun next_states :: "task_state \<Rightarrow> task_state set" where
  "next_states Reserved = {Reserved, Active, Blocked, Cancelled, Lost, Exhausted}"
| "next_states Active = {Active, Replacing, Blocked, Completed, Cancelled, Lost, Exhausted}"
| "next_states Replacing = {Replacing, Active, Blocked, Completed, Cancelled, Lost, Exhausted}"
| "next_states Blocked = {Blocked, Replacing, Completed, Cancelled, Exhausted}"
| "next_states Lost = {Replacing, Reserved}"
| "next_states _ = {}"

definition same_identity :: "task_row \<Rightarrow> task_row \<Rightarrow> bool" where
  "same_identity r r' \<longleftrightarrow> t_id r' = t_id r \<and> t_scope r' = t_scope r \<and> t_key r' = t_key r
     \<and> t_parent r' = t_parent r \<and> t_max_attempts r' = t_max_attempts r
     \<and> t_child_limit r' = t_child_limit r \<and> t_created_at r' = t_created_at r"

definition lifecycle_step :: "task_row \<Rightarrow> task_row \<Rightarrow> bool" where
  "lifecycle_step r r' \<longleftrightarrow> same_identity r r'
     \<and> t_version r' = t_version r + 1
     \<and> t_state r' \<in> next_states (t_state r)
     \<and> (if t_state r = Lost \<or> t_state r' = Replacing \<and> t_state r \<noteq> Replacing then t_epoch r' = t_epoch r + 1
        else t_epoch r' = t_epoch r \<or> t_epoch r' = t_epoch r + 1 \<and> t_state r' = Replacing)
     \<and> (t_attempts r' = t_attempts r
        \<or> t_attempts r' = t_attempts r + 1 \<and> (t_attempts r < t_max_attempts r \<or> t_state r' = Exhausted))
     \<and> (t_state r' = Lost \<longrightarrow> t_attempts r' < t_max_attempts r')
     \<and> t_child_event_seq r' = t_child_event_seq r \<and> t_last_woken_seq r' = t_last_woken_seq r
     \<and> (t_liveness_wakes r' = t_liveness_wakes r \<or> t_liveness_wakes r' = 0)"

definition lifecycle_write :: "string \<Rightarrow> task_record \<Rightarrow> db \<Rightarrow> db \<Rightarrow> bool" where
  "lifecycle_write tid res d d' \<longleftrightarrow>
     (\<exists>r r'. task_write tid r r' d d' \<and> lifecycle_step r r' \<and> res = decode_task r')"

lemma transition_on_lifecycle:
  assumes "transition_on tid expect ev assign att now d = Inr (res, d')" and "db_ok d"
    and "\<And>r. find_task tid d = Some r \<Longrightarrow> t_state r \<in> expect
           \<Longrightarrow> lifecycle_step r ((assign r)\<lparr>t_version := t_version r + 1, t_updated_at := now\<rparr>)"
    and "\<And>r. t_id (assign r) = t_id r"
  shows "lifecycle_write tid res d d'"
  using transition_on_write [OF assms(1,2,4)] assms(3) unfolding lifecycle_write_def by metis

lemma transition_eq_Inr [simp]:
  "transition x tid expect ev assign att fence now d = Inr res \<longleftrightarrow>
     require_fence x tid fence = Inr () \<and> transition_on tid expect ev assign att now d = Inr res"
  by (simp add: transition_def)

text \<open>
  The operations, one by one.  Each is a \<open>with_fence\<close> around a guarded transition, so the
  proofs unfold the operation and check the assignment against \<open>lifecycle_step\<close>.
\<close>

lemma with_fence_Inr:
  assumes "with_fence x tid fence body = Inr res"
  obtains x' f where "body x' (Some f) = Inr res"
    "fence = None \<Longrightarrow> x' = lock_ctx tid x \<and> f = lock_fence tid x" "fence \<noteq> None \<Longrightarrow> x' = x \<and> fence = Some f"
  using assms by (auto simp: with_fence_def split: option.splits)

lemmas lifecycle_defs = lifecycle_step_def same_identity_def live_states_def activate_predecessors_def
  replace_predecessors_def

lemma activate_lifecycle:
  assumes "activate x tid ws s fence now d = Inr (res, d')" and "db_ok d"
  shows "lifecycle_write tid res d d'"
  using assms(1) unfolding activate_def
  by (elim with_fence_Inr) (auto simp: lifecycle_defs intro!: transition_on_lifecycle [OF _ assms(2)])

lemma checkpoint_lifecycle:
  assumes "checkpoint tid text now d = Inr (res, d')" and "db_ok d"
  shows "lifecycle_write tid res d d'"
  using assms(1) unfolding checkpoint_def
  by (rule transition_on_lifecycle [OF _ assms(2)]) (auto simp: lifecycle_defs)

lemma prepare_replacement_lifecycle:
  assumes "prepare_replacement x tid target charge ev fence now d = Inr (res, d')" and "db_ok d"
  shows "lifecycle_write tid res d d'"
  using assms(1) unfolding prepare_replacement_def
  by (elim with_fence_Inr)
    (auto simp: lifecycle_defs Let_def intro!: transition_on_lifecycle [OF _ assms(2)]
      split: option.splits if_splits)

lemma record_failure_lifecycle:
  assumes "record_failure x tid st res ev fence now d = Inr (rec, d')" and "db_ok d"
    and "finish_predecessors st \<noteq> None"
  shows "lifecycle_write tid rec d d'"
  using assms(1,3) unfolding record_failure_def
  by (cases st)
    (auto simp: lifecycle_defs Let_def intro!: transition_on_lifecycle [OF _ assms(2)]
      split: option.splits if_splits)

lemma record_exhaustion_lifecycle:
  assumes "record_exhaustion x tid res ev fence shared now d = Inr (rec, d')" and "db_ok d"
  shows "lifecycle_write tid rec d d'"
  using assms(1) unfolding record_exhaustion_def
  by (auto simp: lifecycle_defs Let_def intro!: transition_on_lifecycle [OF _ assms(2)] split: if_splits)

lemma finish_lifecycle:
  assumes "finish x tid st res ev charge fence shared now d = Inr (rec, d')" and "db_ok d"
  shows "lifecycle_write tid rec d d'"
proof -
  from assms(1) obtain preds where p: "finish_predecessors st = Some preds"
    by (auto simp: finish_def split: option.splits)
  with assms(1) obtain x' f where "(if st = Lost \<or> charge then record_failure x' tid st res ev (Some f) now d
            else if st = Exhausted then record_exhaustion x' tid res ev (Some f) shared now d
            else transition x' tid preds ev (\<lambda>r. r\<lparr>t_state := st, t_result := res\<rparr>)
                   (state_name st) (Some f) now d) = Inr (rec, d')"
    by (auto simp: finish_def elim!: with_fence_Inr)
  then consider "record_failure x' tid st res ev (Some f) now d = Inr (rec, d')"
    | "record_exhaustion x' tid res ev (Some f) shared now d = Inr (rec, d')"
    | "st \<noteq> Lost" "transition_on tid preds ev (\<lambda>r. r\<lparr>t_state := st, t_result := res\<rparr>) (state_name st) now d
        = Inr (rec, d')"
    by (auto split: if_splits)
  then show ?thesis
  proof cases
    case 1
    with p assms(2) show ?thesis by (auto intro: record_failure_lifecycle)
  next
    case 2
    from this assms(2) show ?thesis by (rule record_exhaustion_lifecycle)
  next
    case 3
    from 3(2) show ?thesis
      by (rule transition_on_lifecycle [OF _ assms(2)]) (use 3(1) p in \<open>cases st; auto simp: lifecycle_defs\<close>)+
  qed
qed

subsection \<open>Observations\<close>

text \<open>
  An observation (a finding about the task, or the bookkeeping of the wakes sent about it)
  leaves everything the lifecycle, or a compare-and-swap, looks at.
\<close>

definition observation_step :: "task_row \<Rightarrow> task_row \<Rightarrow> bool" where
  "observation_step r r' \<longleftrightarrow>
     r' = r\<lparr>t_liveness := t_liveness r', t_liveness_episode := t_liveness_episode r',
            t_liveness_since := t_liveness_since r', t_liveness_wakes := t_liveness_wakes r',
            t_liveness_evidence := t_liveness_evidence r', t_over_budget := t_over_budget r',
            t_updated_at := t_updated_at r',
            t_child_event_seq := t_child_event_seq r', t_last_woken_seq := t_last_woken_seq r'\<rparr>
     \<and> t_liveness_episode r \<le> t_liveness_episode r' \<and> t_child_event_seq r \<le> t_child_event_seq r'
     \<and> t_last_woken_seq r \<le> t_last_woken_seq r'"

lemma observation_step_refl: "observation_step r r"
  by (simp add: observation_step_def)

lemma apply_liveness_observes: "observation_step r (apply_liveness l ev moment r)"
  by (auto simp: observation_step_def apply_liveness_def Let_def)

lemma change_task_miss:
  assumes "change_task tid cause kind now G f d = Inr (False, d')"
  shows "d' = d"
proof -
  from change_task_frame(7) [OF assms] have "update_by t_id tid G f (db_tasks d) = db_tasks d"
    by (simp add: update_by_no_hit)
  with assms show ?thesis by (auto simp: change_task_def log_task_def find_task_def Let_def split: if_splits)
qed

lemma record_liveness_cases:
  assumes step: "record_liveness tid name ev moment d = Inr (res, d')" and ok: "db_ok d"
  obtains (terminal) r l where "liveness_of_name name = Some l" "find_task tid d = Some r"
      "t_state r \<notin> live_states" "d' = d" "res = decode_task r"
    | (observed) r l where "liveness_of_name name = Some l" "find_task tid d = Some r" "t_state r \<in> live_states"
      "task_write tid r (apply_liveness l ev moment r) d d'" "res = decode_task (apply_liveness l ev moment r)"
proof -
  let ?G = "\<lambda>r. t_state r \<in> live_states"
  from step obtain l r row hit where
    l: "liveness_of_name name = Some l" and r: "find_task tid d = Some r"
    and chg: "change_task tid ''liveness'' HObservation moment ?G (apply_liveness l ev moment) d = Inr (hit, d')"
    and row: "find_task tid d' = Some row" "res = decode_task row"
    by (auto simp: record_liveness_def split: option.splits)
  have id: "\<And>r. t_id (apply_liveness l ev moment r) = t_id r" by (simp add: apply_liveness_def Let_def)
  show thesis
  proof (cases hit)
    case True
    from change_task_write [OF chg True ok id] r obtain
      w: "task_write tid r (apply_liveness l ev moment r) d d'" "?G r" by (metis option.inject)
    with task_write_find [OF w(1)] row l r show thesis by (intro observed) auto
  next
    case False
    with chg have "d' = d" by (auto dest: change_task_miss)
    moreover from change_task_hit [OF chg ok] False r have "t_state r \<notin> live_states" by simp
    ultimately show thesis using l r row by (intro terminal) auto
  qed
qed

lemma record_over_budget_cases:
  assumes step: "record_over_budget tid now d = Inr (hit, d')" and ok: "db_ok d"
  obtains (kept) "\<not> hit" "d' = d"
    | (latched) r where "hit" "find_task tid d = Some r" "\<not> t_over_budget r" "t_state r \<in> live_states"
      "task_write tid r (r\<lparr>t_over_budget := True\<rparr>) d d'"
proof (cases hit)
  case True
  from step [unfolded record_over_budget_def] True ok obtain r where
    "find_task tid d = Some r" "\<not> t_over_budget r \<and> t_state r \<in> live_states"
    "task_write tid r (r\<lparr>t_over_budget := True\<rparr>) d d'"
    by (rule change_task_write) auto
  with True latched show thesis by blast
next
  case False
  with step have "d' = d" by (auto simp: record_over_budget_def dest: change_task_miss)
  with False kept show thesis by blast
qed

subsection \<open>Reservation\<close>

lemma find_by_key_append:
  "find_task_by_key sc k (d\<lparr>db_tasks := db_tasks d @ rows\<rparr>)
   = (case find_task_by_key sc k d of Some r \<Rightarrow> Some r
      | None \<Rightarrow> lookup_by (\<lambda>r. (t_scope r, t_key r)) (sc, k) rows)"
  by (simp add: find_task_by_key_def lookup_by_append)

lemma find_by_key_cong: "db_tasks d = db_tasks d' \<Longrightarrow> find_task_by_key sc k d = find_task_by_key sc k d'"
  by (simp add: find_task_by_key_def)

definition reserved_row :: "string \<Rightarrow> string option \<Rightarrow> task_row \<Rightarrow> bool" where
  "reserved_row sc parent r \<longleftrightarrow> t_scope r = sc \<and> t_parent r = parent \<and> t_state r = Reserved
     \<and> t_epoch r = 1 \<and> t_attempts r = 0 \<and> t_version r = 0 \<and> t_liveness r = Live \<and> t_liveness_wakes r = 0
     \<and> t_child_event_seq r = 0 \<and> t_last_woken_seq r = 0"

lemma new_task_row_reserved [simp]: "reserved_row sc parent (new_task_row tid sc ky parent m limit spec now)"
  by (simp add: reserved_row_def new_task_row_def)

lemma new_task_row_keys [simp]:
  "t_id (new_task_row tid sc ky parent m limit spec now) = tid"
  "t_scope (new_task_row tid sc ky parent m limit spec now) = sc"
  "t_key (new_task_row tid sc ky parent m limit spec now) = ky"
  "t_spec (new_task_row tid sc ky parent m limit spec now) = spec"
  "t_max_attempts (new_task_row tid sc ky parent m limit spec now) = m"
  by (simp_all add: new_task_row_def)

text \<open>What each returned record says about its specification.\<close>

definition reservation_of :: "string \<Rightarrow> db \<Rightarrow> db \<Rightarrow> json \<Rightarrow> task_record \<times> bool \<Rightarrow> bool" where
  "reservation_of sc d d' spec res \<longleftrightarrow>
     (\<exists>ky row. spec_key spec = Inr ky \<and> find_task_by_key sc ky d' = Some row \<and> t_spec row = jcanon spec
        \<and> fst res = decode_task row \<and> (snd res \<longleftrightarrow> find_task_by_key sc ky d = None))"

text \<open>One specification: its row is found or appended.\<close>

lemma reserve_rows_Cons:
  assumes "reserve_rows uuid5 sc parent m now (spec # specs) d = Inr (rs, d'')"
  obtains ky res rs' d' where "spec_key spec = Inr ky" "rs = res # rs'"
    "reserve_rows uuid5 sc parent m now specs d' = Inr (rs', d'')"
    "(\<exists>row. find_task_by_key sc ky d = Some row \<and> t_spec row = jcanon spec \<and> d' = d
        \<and> res = (decode_task row, False))
     \<or> (\<exists>row. find_task_by_key sc ky d = None \<and> reserved_row sc parent row \<and> t_key row = ky
        \<and> t_spec row = jcanon spec \<and> t_id row = task_id_of uuid5 sc ky \<and> t_max_attempts row = m
        \<and> insert_task row ''reserved'' now d = Inr d' \<and> res = (decode_task row, True))"
proof -
  from assms obtain ky res rs' d' where
    ky: "spec_key spec = Inr ky" and rs: "rs = res # rs'"
    and tl: "reserve_rows uuid5 sc parent m now specs d' = Inr (rs', d'')"
    and hd: "(case find_task_by_key sc ky d of
            None \<Rightarrow>
              ebind (spec_children spec) (\<lambda>limit.
                let row = new_task_row (task_id_of uuid5 sc ky) sc ky parent m limit (jcanon spec) now
                in ebind (insert_task row ''reserved'' now d) (\<lambda>d'. Inr ((decode_task row, True), d')))
          | Some row \<Rightarrow>
              if t_spec row \<noteq> jcanon spec then Inl (SpecMismatch ky)
              else Inr ((decode_task row, False), d)) = Inr (res, d')"
    by (auto simp: Let_def simp del: spec_key.simps spec_children.simps)
  show thesis
  proof (cases "find_task_by_key sc ky d")
    case (Some row)
    with hd ky rs tl that show thesis by (auto split: if_splits)
  next
    case None
    with hd obtain limit where
      "insert_task (new_task_row (task_id_of uuid5 sc ky) sc ky parent m limit (jcanon spec) now) ''reserved'' now d = Inr d'"
      "res = (decode_task (new_task_row (task_id_of uuid5 sc ky) sc ky parent m limit (jcanon spec) now), True)"
      by (auto simp: Let_def simp del: spec_children.simps)
    with None ky rs tl show thesis
      by (intro that [of ky res rs' d'])
         (auto intro!: exI [of _ "new_task_row (task_id_of uuid5 sc ky) sc ky parent m limit (jcanon spec) now"])
  qed
qed

lemma reserve_rows_appends:
  assumes "reserve_rows uuid5 sc parent m now specs d = Inr (rs, d')" and "db_ok d"
    and "spec_keys specs = Inr keys" and "distinct keys"
  shows "db_ok d' \<and> same_side_tables d d' \<and> log_extends d d' \<and>
         (\<exists>news. db_tasks d' = db_tasks d @ news \<and> list_all (reserved_row sc parent) news
               \<and> map t_key news = filter (\<lambda>k. find_task_by_key sc k d = None) keys
               \<and> list_all (\<lambda>r. t_id r = task_id_of uuid5 sc (t_key r) \<and> t_max_attempts r = m) news)
         \<and> list_all2 (reservation_of sc d d') specs rs"
  using assms
proof (induction specs arbitrary: d rs keys)
  case Nil
  then show ?case by simp
next
  case (Cons spec specs)
  from Cons.prems(1) obtain ky res rs' d1 where
    ky: "spec_key spec = Inr ky" and rs: "rs = res # rs'"
    and tl: "reserve_rows uuid5 sc parent m now specs d1 = Inr (rs', d')"
    and hd: "(\<exists>row. find_task_by_key sc ky d = Some row \<and> t_spec row = jcanon spec \<and> d1 = d
        \<and> res = (decode_task row, False))
     \<or> (\<exists>row. find_task_by_key sc ky d = None \<and> reserved_row sc parent row \<and> t_key row = ky
        \<and> t_spec row = jcanon spec \<and> t_id row = task_id_of uuid5 sc ky \<and> t_max_attempts row = m
        \<and> insert_task row ''reserved'' now d = Inr d1 \<and> res = (decode_task row, True))"
    by (rule reserve_rows_Cons)
  from Cons.prems(3) ky obtain ks where ks: "spec_keys specs = Inr ks" "keys = ky # ks"
    by (auto simp del: spec_key.simps)
  with Cons.prems(4) have dist: "distinct ks" "ky \<notin> set ks" by auto
  from hd show ?case
  proof (elim disjE exE conjE)
    fix row
    assume old: "find_task_by_key sc ky d = Some row" "t_spec row = jcanon spec" "d1 = d"
      "res = (decode_task row, False)"
    from Cons.IH [OF tl, unfolded old(3), OF Cons.prems(2) ks(1) dist(1)] old ks rs ky
    show ?thesis
      by (auto simp: reservation_of_def find_task_by_key_def lookup_by_append)
  next
    fix row
    assume new: "find_task_by_key sc ky d = None" "reserved_row sc parent row" "t_key row = ky"
      "t_spec row = jcanon spec" "t_id row = task_id_of uuid5 sc ky" "t_max_attempts row = m"
      "insert_task row ''reserved'' now d = Inr d1" "res = (decode_task row, True)"
    have ok1: "db_ok d1" by (rule insert_task_ok [OF new(7) Cons.prems(2)])
    have rows1: "db_tasks d1 = db_tasks d @ [row]" by (rule insert_task_frame(6) [OF new(7)])
    from new(2) have sc: "t_scope row = sc" by (simp add: reserved_row_def)
    have find1: "find_task_by_key sc k d1 = (if k = ky then Some row else find_task_by_key sc k d)" for k
      using new(1,3) sc by (auto simp: find_task_by_key_def rows1 lookup_by_append split: option.splits)
    from Cons.IH [OF tl ok1 ks(1) dist(1)] obtain news where
      IH: "db_ok d'" "same_side_tables d1 d'" "log_extends d1 d'"
      and news: "db_tasks d' = db_tasks d1 @ news" "list_all (reserved_row sc parent) news"
        "map t_key news = filter (\<lambda>k. find_task_by_key sc k d1 = None) ks"
        "list_all (\<lambda>r. t_id r = task_id_of uuid5 sc (t_key r) \<and> t_max_attempts r = m) news"
      and res: "list_all2 (reservation_of sc d1 d') specs rs'" by blast
    have side: "same_side_tables d d'"
      using IH(2) insert_task_frame [OF new(7)] by (simp add: same_side_tables_def)
    have log: "log_extends d d'" by (rule log_extends_trans [OF insert_task_log [OF new(7)] IH(3)])
    have filt: "filter (\<lambda>k. find_task_by_key sc k d1 = None) ks = filter (\<lambda>k. find_task_by_key sc k d = None) ks"
      using dist(2) find1 by (intro filter_cong) auto
    have keys_in: "k \<in> set ks" if "spec_keys ss = Inr ks" "s \<in> set ss" "spec_key s = Inr k" for ss s k ks
      using that by (induction ss arbitrary: ks) (auto simp del: spec_key.simps)
    have later: "reservation_of sc d d' s r" if "reservation_of sc d1 d' s r" "s \<in> set specs" for s r
      using that keys_in [OF ks(1) that(2)] dist(2) unfolding reservation_of_def
      by (metis (no_types, lifting) find1)
    have "list_all2 (reservation_of sc d d') specs rs'"
      by (rule list.rel_mono_strong [OF res]) (rule later)
    moreover have "reservation_of sc d d' spec res"
      using ky new(1,4,8) find1 [of ky] news(1)
      by (auto simp: reservation_of_def find_task_by_key_def lookup_by_append rows1)
    ultimately show ?thesis
      using IH(1) side log news new ks rs filt rows1
      by (auto intro!: exI [of _ "row # news"])
  qed
qed

subsection \<open>When a guarded write goes through\<close>

lemma unique_where_replace:
  assumes "unique_where P g rows" and "distinct (map key rows)"
    and "P y \<Longrightarrow> \<forall>x \<in> set rows. key x \<noteq> k \<longrightarrow> P x \<longrightarrow> g x \<noteq> g y"
  shows "unique_where P g (map (\<lambda>x. if key x = k then y else x) rows)"
proof -
  have "distinct (map key xs) \<Longrightarrow> distinct (map g (filter P xs)) \<Longrightarrow>
        (P y \<Longrightarrow> \<forall>x \<in> set xs. key x \<noteq> k \<longrightarrow> P x \<longrightarrow> g x \<noteq> g y) \<Longrightarrow>
        distinct (map g (filter P (map (\<lambda>x. if key x = k then y else x) xs)))" for xs
  proof (induction xs)
    case (Cons x xs)
    show ?case
    proof (cases "key x = k")
      case True
      with Cons.prems(1) have "map (\<lambda>x. if key x = k then y else x) xs = xs"
        by (auto intro!: map_idI simp: image_iff)
      moreover from Cons.prems(2) have "distinct (map g (filter P xs))" by (auto split: if_splits)
      moreover have "g y \<notin> g ` set (filter P xs)" if "P y"
        using Cons.prems(1) Cons.prems(3) [OF that] True by (force simp: image_iff)
      ultimately show ?thesis using True by auto
    next
      case False
      let ?m = "map (\<lambda>x. if key x = k then y else x) xs"
      have "g x \<notin> g ` set (filter P ?m)" if "P x"
        using Cons.prems(2,3) that False by (auto split: if_splits)
      with False Cons show ?thesis by (auto split: if_splits)
    qed
  qed simp
  with assms show ?thesis by (simp add: unique_where_def)
qed

lemma change_task_succeeds:
  assumes ok: "db_ok d" and r: "find_task tid d = Some r" "G r"
    and f: "t_id (f r) = t_id r" "t_scope (f r) = t_scope r" "t_key (f r) = t_key r" "task_row_ok (f r)"
    and holder: "live_holder (f r)
      \<Longrightarrow> \<forall>x \<in> set (db_tasks d). t_id x \<noteq> tid \<longrightarrow> live_holder x \<longrightarrow> t_holder x \<noteq> t_holder (f r)"
  shows "\<exists>d'. change_task tid cause kind now G f d = Inr (True, d')"
proof -
  have same: "x = r" if "x \<in> set (db_tasks d)" "t_id x = tid" for x
    using lookup_by_mem [OF db_ok_task_ids [OF ok] that(1)] that(2) r(1) by (simp add: find_task_def)
  have rows: "update_by t_id tid G f (db_tasks d) = map (\<lambda>x. if t_id x = tid then f r else x) (db_tasks d)"
    unfolding update_by_def using same r(2) by auto
  have keys: "map h (map (\<lambda>x. if t_id x = tid then f r else x) (db_tasks d)) = map h (db_tasks d)"
    if "h (f r) = h r" for h :: "task_row \<Rightarrow> 'k"
    using same that by (auto simp: comp_def)
  have "unique_where live_holder t_holder (map (\<lambda>x. if t_id x = tid then f r else x) (db_tasks d))"
    using db_ok_tasks [OF ok] holder by (intro unique_where_replace) (auto simp: task_table_ok_def)
  moreover have "list_all task_row_ok (map (\<lambda>x. if t_id x = tid then f r else x) (db_tasks d))"
    using task_table_row [OF db_ok_tasks [OF ok]] f(4) by (auto simp: list_all_iff)
  ultimately have "task_table_ok (update_by t_id tid G f (db_tasks d))"
    using db_ok_tasks [OF ok] keys [of t_id] keys [of "\<lambda>r. (t_scope r, t_key r)"] f(1,2,3)
    unfolding rows task_table_ok_def by metis
  moreover have "hits_by t_id tid G (db_tasks d)"
    using db_ok_task_ids [OF ok] r by (auto simp: hits_by_iff find_task_def)
  ultimately show ?thesis by (auto simp: change_task_def Let_def)
qed

text \<open>Replacing a row does not raise \<open>Integrity\<close> when the guard misses.\<close>

lemma change_task_missed:
  assumes ok: "db_ok d" and "\<And>r. find_task tid d = Some r \<Longrightarrow> \<not> G r"
  shows "change_task tid cause kind now G f d = Inr (False, d)"
proof -
  have miss: "\<not> hits_by t_id tid G (db_tasks d)"
    using db_ok_task_ids [OF ok] assms(2) by (auto simp: hits_by_iff find_task_def)
  then have rows: "update_by t_id tid G f (db_tasks d) = db_tasks d" by (rule update_by_no_hit)
  show ?thesis
    using miss db_ok_tasks [OF ok] unfolding change_task_def rows by (simp add: log_task_def find_task_def)
qed

lemma transition_on_missing:
  assumes "db_ok d" and "find_task tid d = None"
  shows "transition_on tid expect ev assign att now d = Inl TaskNotFound"
proof -
  have "change_task tid att HTransition now (\<lambda>r. t_state r \<in> expect \<and> (ev = None \<or> ev = Some (t_version r)))
          (\<lambda>r. (assign r)\<lparr>t_version := t_version r + 1, t_updated_at := now\<rparr>) d = Inr (False, d)"
    using assms by (intro change_task_missed) auto
  with assms(2) show ?thesis by (simp add: transition_on_def)
qed

lemma transition_on_stale:
  assumes "db_ok d" and "find_task tid d = Some r"
    and "\<not> (t_state r \<in> expect \<and> (ev = None \<or> ev = Some (t_version r)))"
  shows "transition_on tid expect ev assign att now d = Inl (StaleTransition (decode_task r) att)"
proof -
  have "change_task tid att HTransition now (\<lambda>r. t_state r \<in> expect \<and> (ev = None \<or> ev = Some (t_version r)))
          (\<lambda>r. (assign r)\<lparr>t_version := t_version r + 1, t_updated_at := now\<rparr>) d = Inr (False, d)"
    using assms by (intro change_task_missed) auto
  with assms(2) show ?thesis by (simp add: transition_on_def)
qed

lemma transition_on_succeeds:
  fixes now :: real
  assumes ok: "db_ok d" and r: "find_task tid d = Some r" "t_state r \<in> expect"
      "ev = None \<or> ev = Some (t_version r)"
    and f: "\<And>r. t_id (assign r) = t_id r" "t_scope (assign r) = t_scope r" "t_key (assign r) = t_key r"
      "t_parent (assign r) = t_parent r" "0 < t_epoch (assign r)" "0 \<le> t_attempts (assign r)"
      "t_max_attempts (assign r) = t_max_attempts r" "t_child_limit (assign r) = t_child_limit r"
    and holder: "live_holder (assign r)
      \<Longrightarrow> \<forall>x \<in> set (db_tasks d). t_id x \<noteq> tid \<longrightarrow> live_holder x \<longrightarrow> t_holder x \<noteq> t_holder (assign r)"
  defines "r' \<equiv> (assign r)\<lparr>t_version := t_version r + 1, t_updated_at := now\<rparr>"
  shows "\<exists>d'. transition_on tid expect ev assign att now d = Inr (decode_task r', d') \<and> task_write tid r r' d d'"
proof -
  let ?G = "\<lambda>r. t_state r \<in> expect \<and> (ev = None \<or> ev = Some (t_version r))"
  let ?f = "\<lambda>r. (assign r)\<lparr>t_version := t_version r + 1, t_updated_at := now\<rparr>"
  have "task_row_ok (?f r)"
    using db_ok_row [OF ok r(1)] f(1) [of r] f(4-8) by (simp add: task_row_ok_def)
  then have "\<exists>d'. change_task tid att HTransition now ?G ?f d = Inr (True, d')"
    by (intro change_task_succeeds [OF ok r(1)]) (use r(2,3) f(1,2,3) holder in \<open>auto simp: live_holder_def\<close>)
  then obtain d' where d': "change_task tid att HTransition now ?G ?f d = Inr (True, d')" ..
  have "\<And>r. t_id (?f r) = t_id r" using f(1) by simp
  from change_task_write [OF d' TrueI ok this] r(1) have w: "task_write tid r r' d d'"
    unfolding r'_def by auto
  then have "find_task tid d' = Some r'" by (simp add: task_write_find)
  with d' w show ?thesis by (simp add: transition_on_def)
qed

end
