(* ===== verification/TaskContract.thy ===== *)
theory TaskContract
  imports TaskStore
begin

text \<open>
  What the task store promises its callers: how a row evolves over any sequence of lifecycle
  writes and observations, what a compare-and-swap on \<open>version\<close> proves, the failure budget,
  idempotent reservation, and the bounds of a stall episode.
\<close>

subsection \<open>Evolution of one row\<close>

definition row_step :: "task_row \<Rightarrow> task_row \<Rightarrow> bool" where
  "row_step r r' \<longleftrightarrow> lifecycle_step r r' \<or> observation_step r r'"

definition evolves :: "task_row \<Rightarrow> task_row \<Rightarrow> bool" where
  "evolves = row_step\<^sup>*\<^sup>*"

text \<open>The facts a lifecycle write is about, those a caller read with the version.\<close>

definition lifecycle_facts :: "task_row \<Rightarrow> task_state \<times> int \<times> int \<times> json \<times> string option \<times> string option
    \<times> string option \<times> real option \<times> string option" where
  "lifecycle_facts r = (t_state r, t_epoch r, t_attempts r, t_spec r, t_workspace r, t_holder r,
                        t_checkpoint r, t_checkpoint_at r, t_result r)"

definition settled_state :: "task_state \<Rightarrow> bool" where
  "settled_state s \<longleftrightarrow> s = Completed \<or> s = Cancelled \<or> s = Exhausted"

definition within_budget :: "task_row \<Rightarrow> bool" where
  "within_budget r \<longleftrightarrow>
     (t_attempts r \<le> t_max_attempts r \<or> t_attempts r = t_max_attempts r + 1 \<and> t_state r = Exhausted)
     \<and> (t_state r = Lost \<longrightarrow> t_attempts r < t_max_attempts r)"

lemma evolves_refl [simp]: "evolves r r"
  by (simp add: evolves_def)

lemma evolves_trans: "evolves a b \<Longrightarrow> evolves b c \<Longrightarrow> evolves a c"
  unfolding evolves_def by (rule rtranclp_trans)

lemma lifecycle_evolves: "lifecycle_step r r' \<Longrightarrow> evolves r r'"
  unfolding evolves_def by (rule r_into_rtranclp) (simp add: row_step_def)

lemma observation_evolves: "observation_step r r' \<Longrightarrow> evolves r r'"
  unfolding evolves_def by (rule r_into_rtranclp) (simp add: row_step_def)

lemma observation_facts:
  assumes "observation_step r r'"
  shows "lifecycle_facts r' = lifecycle_facts r" "same_identity r r'" "t_version r' = t_version r"
    "t_child_event_seq r \<le> t_child_event_seq r'" "t_last_woken_seq r \<le> t_last_woken_seq r'"
proof -
  from assms have eq: "r' = r\<lparr>t_liveness := t_liveness r', t_liveness_episode := t_liveness_episode r',
            t_liveness_since := t_liveness_since r', t_liveness_wakes := t_liveness_wakes r',
            t_liveness_evidence := t_liveness_evidence r', t_over_budget := t_over_budget r',
            t_updated_at := t_updated_at r', t_child_event_seq := t_child_event_seq r', t_last_woken_seq := t_last_woken_seq r'\<rparr>"
    by (simp add: observation_step_def)
  show "lifecycle_facts r' = lifecycle_facts r" by (subst eq) (simp add: lifecycle_facts_def)
  show "same_identity r r'" by (subst eq) (simp add: same_identity_def)
  show "t_version r' = t_version r" by (subst eq) simp
qed (use assms in \<open>simp_all add: observation_step_def\<close>)

lemma row_step_mono:
  assumes "row_step r r'"
  shows "same_identity r r'" "t_version r \<le> t_version r'" "t_epoch r \<le> t_epoch r'"
    "t_attempts r \<le> t_attempts r'" "t_child_event_seq r \<le> t_child_event_seq r'"
    "t_last_woken_seq r \<le> t_last_woken_seq r'"
  using assms observation_facts [of r r']
  by (auto simp: row_step_def lifecycle_step_def lifecycle_facts_def split: if_splits)

lemma evolves_mono:
  assumes "evolves r r'"
  shows "same_identity r r' \<and> t_version r \<le> t_version r' \<and> t_epoch r \<le> t_epoch r'
    \<and> t_attempts r \<le> t_attempts r' \<and> t_child_event_seq r \<le> t_child_event_seq r'
    \<and> t_last_woken_seq r \<le> t_last_woken_seq r'"
  using assms unfolding evolves_def
proof (induction rule: rtranclp_induct)
  case (step s t)
  from row_step_mono [OF step.hyps(2)] step.IH show ?case by (auto simp: same_identity_def)
qed (simp add: same_identity_def)

lemma evolves_same_version:
  assumes "evolves r r'" and "t_version r' = t_version r"
  shows "lifecycle_facts r' = lifecycle_facts r"
  using assms unfolding evolves_def
proof (induction rule: rtranclp_induct)
  case (step s t)
  from step.hyps(1) have "t_version r \<le> t_version s" using evolves_mono by (simp add: evolves_def)
  with step.hyps(2) step.prems have obs: "observation_step s t"
    by (auto simp: row_step_def lifecycle_step_def)
  with step.prems observation_facts [OF obs] step.IH show ?case by simp
qed simp

lemma settled_version:
  assumes "evolves r r'" and "settled_state (t_state r)"
  shows "t_version r' = t_version r"
  using assms unfolding evolves_def
proof (induction rule: rtranclp_induct)
  case (step s t)
  then have v: "t_version s = t_version r" by simp
  with step.hyps(1) have "t_state s = t_state r"
    using evolves_same_version [of r s] by (simp add: evolves_def lifecycle_facts_def)
  with step.prems have "next_states (t_state s) = {}" by (auto simp: settled_state_def)
  with step.hyps(2) have "observation_step s t" by (auto simp: row_step_def lifecycle_step_def)
  with v observation_facts(3) show ?case by simp
qed simp

lemma evolves_settled:
  "evolves r r' \<Longrightarrow> settled_state (t_state r) \<Longrightarrow> lifecycle_facts r' = lifecycle_facts r"
  by (rule evolves_same_version [OF _ settled_version])

lemma lifecycle_within_budget:
  assumes "lifecycle_step r r'" and "within_budget r"
  shows "within_budget r'"
proof -
  from assms(1) have "t_state r \<noteq> Exhausted" by (auto simp: lifecycle_step_def)
  with assms have "t_attempts r \<le> t_max_attempts r" by (auto simp: within_budget_def)
  with assms(1) show ?thesis by (auto simp: lifecycle_step_def within_budget_def same_identity_def)
qed

lemma row_step_within_budget:
  assumes "row_step r r'" and "within_budget r"
  shows "within_budget r'"
proof (cases "lifecycle_step r r'")
  case False
  with assms(1) have "observation_step r r'" by (simp add: row_step_def)
  from observation_facts [OF this] assms(2) show ?thesis
    by (simp add: within_budget_def lifecycle_facts_def same_identity_def)
qed (use assms(2) lifecycle_within_budget in blast)

lemma evolves_within_budget: "evolves r r' \<Longrightarrow> within_budget r \<Longrightarrow> within_budget r'"
  unfolding evolves_def by (induction rule: rtranclp_induct) (auto intro: row_step_within_budget)

subsection \<open>Databases built from rows\<close>

text \<open>A database with the given task rows, each inserted and logged; the concrete states of the witnesses.\<close>

definition seed_row :: "db \<Rightarrow> task_row \<Rightarrow> db" where
  "seed_row d r = (case insert_task r ''reserved'' 0 d of Inl _ \<Rightarrow> d | Inr d' \<Rightarrow> d')"

definition seed :: "task_row list \<Rightarrow> db" where
  "seed rows = foldl seed_row empty_db rows"

lemma seed_row_ok: "db_ok d \<Longrightarrow> db_ok (seed_row d r)"
  by (auto simp: seed_row_def intro: insert_task_ok split: sum.splits)

lemma seed_ok [simp]: "db_ok (seed rows)"
proof -
  have "db_ok d \<Longrightarrow> db_ok (foldl seed_row d rows)" for d
    by (induction rows arbitrary: d) (auto intro: seed_row_ok)
  then show ?thesis by (simp add: seed_def db_ok_empty)
qed

lemma task_table_ok_prefix: "task_table_ok (xs @ ys) \<Longrightarrow> task_table_ok xs"
  by (auto simp: task_table_ok_def unique_where_def)

lemma seed_tasks: "task_table_ok rows \<Longrightarrow> db_tasks (seed rows) = rows"
proof (induction rows rule: rev_induct)
  case (snoc r rows)
  then have "db_tasks (seed rows) = rows" using task_table_ok_prefix by blast
  with snoc.prems have "db_tasks (seed_row (seed rows) r) = rows @ [r]"
    by (auto simp: seed_row_def insert_task_def log_task_def Let_def)
  then show ?case by (simp add: seed_def)
qed (simp add: seed_def empty_db_def)

lemma seed_side [simp]:
  "db_effects (seed rows) = []" "db_wakes (seed rows) = []" "db_cleanups (seed rows) = []"
  "db_outgoing (seed rows) = []" "db_checkpoints (seed rows) = []"
proof -
  have "same_side_tables d (seed_row d r)" for d r
    by (auto simp: seed_row_def same_side_tables_def dest: insert_task_frame split: sum.splits)
  then have "same_side_tables d (foldl seed_row d rows)" for d
    by (induction rows arbitrary: d) (auto intro: same_side_tables_trans)
  then have "same_side_tables empty_db (seed rows)" by (simp add: seed_def)
  then show "db_effects (seed rows) = []" "db_wakes (seed rows) = []" "db_cleanups (seed rows) = []"
    "db_outgoing (seed rows) = []" "db_checkpoints (seed rows) = []"
    by (simp_all add: same_side_tables_def empty_db_def)
qed

text \<open>A row in a given state, for the witnesses.\<close>

definition sample_row :: "string \<Rightarrow> task_state \<Rightarrow> int \<Rightarrow> int \<Rightarrow> task_row" where
  "sample_row tid st attempts limit =
     (new_task_row tid ''scope'' tid None limit 0 (JObj [(''key'', JStr tid)]) 0)
       \<lparr>t_state := st, t_attempts := attempts, t_holder := (if st = Reserved then None else Some tid)\<rparr>"

definition sample_ctx :: ctx where
  "sample_ctx = \<lparr>x_store = ''store'', x_held = None\<rparr>"

lemma sample_row_fields [simp]:
  "t_id (sample_row tid st a l) = tid" "t_scope (sample_row tid st a l) = ''scope''"
  "t_key (sample_row tid st a l) = tid" "t_parent (sample_row tid st a l) = None"
  "t_state (sample_row tid st a l) = st" "t_epoch (sample_row tid st a l) = 1"
  "t_attempts (sample_row tid st a l) = a" "t_max_attempts (sample_row tid st a l) = l"
  "t_child_limit (sample_row tid st a l) = 0" "t_version (sample_row tid st a l) = 0"
  "t_liveness (sample_row tid st a l) = Live" "t_over_budget (sample_row tid st a l) = False"
  "t_child_event_seq (sample_row tid st a l) = 0" "t_last_woken_seq (sample_row tid st a l) = 0"
  "t_holder (sample_row tid st a l) = (if st = Reserved then None else Some tid)"
  by (simp_all add: sample_row_def new_task_row_def)

lemma sample_tasks [simp]:
  "0 \<le> a \<Longrightarrow> 0 < l \<Longrightarrow> db_tasks (seed [sample_row tid st a l]) = [sample_row tid st a l]"
  by (rule seed_tasks) (simp add: task_table_ok_def task_row_ok_def unique_where_def)

lemma sample_find [simp]:
  "0 \<le> a \<Longrightarrow> 0 < l \<Longrightarrow>
   find_task t (seed [sample_row tid st a l]) = (if t = tid then Some (sample_row tid st a l) else None)"
  by (simp add: find_task_def)

lemma sample_transition:
  assumes "0 \<le> a" "0 < l" "st \<in> expect"
  shows "\<exists>rec d'. transition_on tid expect (Some 0) (\<lambda>r. r\<lparr>t_state := st'\<rparr>) att now
           (seed [sample_row tid st a l]) = Inr (rec, d')"
  using transition_on_succeeds [OF seed_ok [of "[sample_row tid st a l]"], where tid = tid
      and r = "sample_row tid st a l" and expect = expect and ev = "Some 0" and now = now and att = att
      and assign = "\<lambda>r. r\<lparr>t_state := st'\<rparr>"] assms
  by (auto simp: live_holder_def)

lemmas sample_defs = sample_row_def new_task_row_def task_table_ok_def task_row_ok_def
  unique_where_def live_holder_def

subsection \<open>Properties\<close>

text \<open>
  A guarded write has exactly the outcomes the kernel's callers rely on.  No row: the
  task is not found.  A row outside the expected states, or read at another version: the
  stale transition, carrying the row as it is.  Otherwise either SQLite refuses the row, or
  the assignment is applied to that one row with the version counted up and the clock
  stamped, and the record returned is the row just written.
\<close>

theorem transition_outcome:
  assumes "db_ok d" and "\<And>r. t_id (assign r) = t_id r"
  shows "case find_task tid d of
           None \<Rightarrow> transition_on tid expect ev assign att now d = Inl TaskNotFound
         | Some r \<Rightarrow>
             if t_state r \<in> expect \<and> (ev = None \<or> ev = Some (t_version r))
             then transition_on tid expect ev assign att now d = Inl Integrity
                  \<or> (\<exists>r' d'. transition_on tid expect ev assign att now d = Inr (decode_task r', d')
                        \<and> r' = (assign r)\<lparr>t_version := t_version r + 1, t_updated_at := now\<rparr>
                        \<and> task_write tid r r' d d')
             else transition_on tid expect ev assign att now d = Inl (StaleTransition (decode_task r) att)"
proof (cases "find_task tid d")
  case None
  with assms(1) show ?thesis by (simp add: transition_on_missing)
next
  case (Some r)
  let ?T = "transition_on tid expect ev assign att now d"
  show ?thesis
  proof (cases "t_state r \<in> expect \<and> (ev = None \<or> ev = Some (t_version r))")
    case True
    consider e where "?T = Inl e" | res d' where "?T = Inr (res, d')" by (cases ?T) auto
    then show ?thesis
    proof cases
      case 1
      have "?T = Inl Integrity"
      proof (cases "change_task tid att HTransition now
              (\<lambda>r. t_state r \<in> expect \<and> (ev = None \<or> ev = Some (t_version r)))
              (\<lambda>r. (assign r)\<lparr>t_version := t_version r + 1, t_updated_at := now\<rparr>) d")
        case (Inl e')
        then show ?thesis by (auto simp: transition_on_def change_task_def Let_def split: if_splits)
      next
        case (Inr res)
        obtain hit d' where hd: "res = (hit, d')" by (cases res)
        from change_task_hit [OF Inr [unfolded hd] assms(1)] True Some have hit by simp
        moreover from change_task_find [OF Inr [unfolded hd]] assms(2) Some have "find_task tid d' \<noteq> None" by simp
        ultimately show ?thesis using 1 Inr hd by (auto simp: transition_on_def)
      qed
      with True Some show ?thesis by simp
    next
      case 2
      from transition_on_write [OF 2 assms] Some obtain r' where
        "task_write tid r r' d d'" "r' = (assign r)\<lparr>t_version := t_version r + 1, t_updated_at := now\<rparr>"
        "res = decode_task r'" by auto
      with True Some 2 show ?thesis by simp
    qed
  next
    case False
    with Some assms(1) show ?thesis by (simp add: transition_on_stale)
  qed
qed

theorem transition_outcome_witness:
  "\<exists>d'. transition_on ''a'' {Active} (Some 0) (\<lambda>r. r\<lparr>t_state := Completed\<rparr>) ''completed'' 5
          (seed [sample_row ''a'' Active 0 2]) = Inr d'"
proof -
  obtain rec d' where t: "transition_on ''a'' {Active} (Some 0) (\<lambda>r. r\<lparr>t_state := Completed\<rparr>)
      ''completed'' 5 (seed [sample_row ''a'' Active 0 2]) = Inr (rec, d')"
    using sample_transition [of 0 2 Active "{Active}" "''a''" Completed "''completed''" 5] by auto
  with transition_outcome [OF seed_ok [of "[sample_row ''a'' Active 0 2]"], of "\<lambda>r. r\<lparr>t_state := Completed\<rparr>" "''a''"
      "{Active}" "Some 0" "''completed''" 5]
  show ?thesis by auto
qed

text \<open>
  A lost update is impossible.  Of two writers that read a task at the same version, the
  one that comes second is refused, and the exception it gets carries the record the first
  writer left.
\<close>

theorem lost_update_rejected:
  assumes "db_ok d" and "\<And>r. t_id (assign r) = t_id r"
    and "transition x tid expect (Some v) assign att fence now d = Inr (rec, d1)"
  shows "transition_on tid expect' (Some v) assign' att' now' d1 = Inl (StaleTransition rec att')"
proof -
  from assms(3) have "transition_on tid expect (Some v) assign att now d = Inr (rec, d1)" by simp
  from transition_on_write [OF this assms(1,2)] obtain r where
    r: "Some v = Some (t_version r)"
      "task_write tid r ((assign r)\<lparr>t_version := t_version r + 1, t_updated_at := now\<rparr>) d d1"
      "rec = decode_task ((assign r)\<lparr>t_version := t_version r + 1, t_updated_at := now\<rparr>)" by auto
  have "db_ok d1" using r(2) by (simp add: task_write_def)
  then show ?thesis
    using transition_on_stale [of d1 tid "(assign r)\<lparr>t_version := t_version r + 1, t_updated_at := now\<rparr>"]
      task_write_find [OF r(2)] r(1,3) by simp
qed

theorem lost_update_rejected_witness:
  "\<exists>rec d1. transition (lock_ctx ''a'' sample_ctx) ''a'' {Active} (Some 0) (\<lambda>r. r\<lparr>t_state := Completed\<rparr>)
       ''completed'' (Some (lock_fence ''a'' sample_ctx)) 5 (seed [sample_row ''a'' Active 0 2]) = Inr (rec, d1)
     \<and> transition_on ''a'' {Active, Completed} (Some 0) (\<lambda>r. r\<lparr>t_state := Lost\<rparr>) ''lost'' 6 d1
       = Inl (StaleTransition rec ''lost'')"
proof -
  obtain rec d1 where s: "transition (lock_ctx ''a'' sample_ctx) ''a'' {Active} (Some 0)
       (\<lambda>r. r\<lparr>t_state := Completed\<rparr>) ''completed'' (Some (lock_fence ''a'' sample_ctx)) 5
       (seed [sample_row ''a'' Active 0 2]) = Inr (rec, d1)"
    using sample_transition [of 0 2 Active "{Active}" "''a''" Completed "''completed''" 5] by auto
  from lost_update_rejected [OF seed_ok _ s, of "{Active, Completed}" "\<lambda>r. r\<lparr>t_state := Lost\<rparr>" "''lost''" 6] s
  show ?thesis by auto
qed

lemma finish_Lost:
  "finish x tid Lost res ev charge None shared now d
   = record_failure (lock_ctx tid x) tid Lost res ev (Some (lock_fence tid x)) now d"
  by (simp add: finish_def with_fence_def)

text \<open>
  Recording a loss charges exactly one failure.  With budget left the task becomes lost, the
  failure that uses up the budget makes it exhausted instead, the epoch stays, and a task
  whose attempts already reached the limit is refused by the circuit breaker.
\<close>

theorem loss_charges_one_failure:
  assumes "db_ok d" and "find_task tid d = Some r" and "t_state r \<in> {Reserved, Active, Replacing}"
    and "ev = None \<or> ev = Some (t_version r)"
  shows "if t_attempts r \<ge> t_max_attempts r
         then finish x tid Lost res ev charge None shared now d
              = Inl (CircuitBreaker (t_key r) (t_max_attempts r))
         else \<exists>rec d'. finish x tid Lost res ev charge None shared now d = Inr (rec, d')
              \<and> find_task tid d' \<noteq> None \<and> t_attempts rec = t_attempts r + 1 \<and> t_epoch rec = t_epoch r
              \<and> t_version rec = t_version r + 1
              \<and> t_state rec = (if t_attempts r + 1 = t_max_attempts r then Exhausted else Lost)"
proof -
  have ok: "task_row_ok r" by (rule db_ok_row [OF assms(1,2)])
  have charged: "\<exists>d'. transition_on tid {Reserved, Active, Replacing} ev
        (\<lambda>r. r\<lparr>t_state := st, t_attempts := t_attempts r + 1, t_result := out\<rparr>) att now d
      = Inr (decode_task (r\<lparr>t_state := st, t_attempts := t_attempts r + 1, t_result := out,
                            t_version := t_version r + 1, t_updated_at := now\<rparr>), d')
    \<and> task_write tid r (r\<lparr>t_state := st, t_attempts := t_attempts r + 1, t_result := out,
                           t_version := t_version r + 1, t_updated_at := now\<rparr>) d d'"
    if "st \<in> {Lost, Exhausted}" for st out att
    using transition_on_succeeds [OF assms, where assign = "\<lambda>r. r\<lparr>t_state := st,
        t_attempts := t_attempts r + 1, t_result := out\<rparr>" and att = att and now = now] that ok
    by (auto simp: live_holder_def task_row_ok_def)
  consider "t_attempts r \<ge> t_max_attempts r" | "t_attempts r + 1 = t_max_attempts r"
    | "t_attempts r + 1 < t_max_attempts r" by linarith
  then show ?thesis
  proof cases
    case 1
    with assms(2) show ?thesis by (simp add: finish_Lost record_failure_def)
  next
    case 2
    obtain d' where "transition_on tid {Reserved, Active, Replacing} ev
        (\<lambda>r. r\<lparr>t_state := Exhausted, t_attempts := t_attempts r + 1,
               t_result := Some (''exhausted: '' @ or_default res (state_name Lost))\<rparr>) ''exhausted'' now d
      = Inr (decode_task (r\<lparr>t_state := Exhausted, t_attempts := t_attempts r + 1,
               t_result := Some (''exhausted: '' @ or_default res (state_name Lost)),
               t_version := t_version r + 1, t_updated_at := now\<rparr>), d')" "find_task tid d' \<noteq> None"
      using charged [of Exhausted] task_write_find by fastforce
    with 2 assms(2) show ?thesis
      by (simp add: finish_Lost record_failure_def transition_def Let_def decode_task_def task_record.defs)
  next
    case 3
    obtain d' where "transition_on tid {Reserved, Active, Replacing} ev
        (\<lambda>r. r\<lparr>t_state := Lost, t_attempts := t_attempts r + 1, t_result := res\<rparr>) (state_name Lost) now d
      = Inr (decode_task (r\<lparr>t_state := Lost, t_attempts := t_attempts r + 1, t_result := res,
               t_version := t_version r + 1, t_updated_at := now\<rparr>), d')" "find_task tid d' \<noteq> None"
      using charged [of Lost] task_write_find by fastforce
    with 3 assms(2) show ?thesis
      by (simp add: finish_Lost record_failure_def transition_def Let_def decode_task_def task_record.defs)
  qed
qed

theorem loss_charges_one_failure_witness:
  "\<exists>rec d'. finish sample_ctx ''a'' Lost None None False None False 5 (seed [sample_row ''a'' Active 1 2])
             = Inr (rec, d') \<and> t_state rec = Exhausted \<and> t_attempts rec = 2"
  using loss_charges_one_failure [OF seed_ok [of "[sample_row ''a'' Active 1 2]"], of "''a''"
      "sample_row ''a'' Active 1 2" None sample_ctx None False False 5]
  by auto

text \<open>
  A task recorded as lost can always be replaced.  The budget that recording its loss left
  is enough for the circuit breaker, the compare-and-swap at its version holds, and unless a
  live task has taken over its session the replacement opens a new epoch with every
  observation about the predecessor cleared.
\<close>

theorem lost_task_replaceable:
  assumes "db_ok d" and "find_task tid d = Some r" and "t_state r = Lost" and "within_budget r"
    and "\<forall>q \<in> set (db_tasks d). t_id q \<noteq> tid \<longrightarrow> live_holder q \<longrightarrow> t_holder q \<noteq> t_holder r"
  shows "\<exists>rec d'. prepare_replacement x tid target charge (Some (t_version r)) None now d = Inr (rec, d')
           \<and> t_state rec = Replacing \<and> t_epoch rec = t_epoch r + 1 \<and> t_attempts rec \<le> t_max_attempts rec
           \<and> t_liveness rec = Live \<and> t_liveness_episode rec = 0 \<and> t_liveness_wakes rec = 0
           \<and> \<not> t_over_budget rec \<and> t_checkpoint_at rec = None"
proof -
  let ?spec = "case target of None \<Rightarrow> t_spec r | Some tg \<Rightarrow> jset ''target'' tg (t_spec r)"
  let ?assign = "\<lambda>r :: task_row. r\<lparr>t_state := Replacing, t_epoch := t_epoch r + 1,
                           t_attempts := (if charge then t_attempts r + 1 else t_attempts r),
                           t_spec := jcanon ?spec, t_liveness := Live, t_liveness_episode := 0,
                           t_liveness_since := None, t_liveness_wakes := 0,
                           t_liveness_evidence := None, t_over_budget := False,
                           t_checkpoint_at := None\<rparr>"
  have ok: "task_row_ok r" by (rule db_ok_row [OF assms(1,2)])
  have budget: "t_attempts r < t_max_attempts r" using assms(3,4) by (simp add: within_budget_def)
  have "\<exists>d'. transition_on tid replace_predecessors (Some (t_version r)) ?assign ''replacing'' now d
            = Inr (decode_task ((?assign r)\<lparr>t_version := t_version r + 1, t_updated_at := now\<rparr>), d')
          \<and> task_write tid r ((?assign r)\<lparr>t_version := t_version r + 1, t_updated_at := now\<rparr>) d d'"
    by (rule transition_on_succeeds [OF assms(1,2)])
       (use ok assms(3,5) in \<open>auto simp: replace_predecessors_def task_row_ok_def\<close>)
  then show ?thesis
    using assms(2) budget unfolding prepare_replacement_def with_fence_def transition_def
    by (auto simp: Let_def decode_task_def task_record.defs)
qed

theorem lost_task_replaceable_witness:
  "\<exists>rec d'. prepare_replacement sample_ctx ''a'' None True (Some 0) None 5 (seed [sample_row ''a'' Lost 1 2])
             = Inr (rec, d') \<and> t_state rec = Replacing \<and> t_epoch rec = 2"
  using lost_task_replaceable [OF seed_ok [of "[sample_row ''a'' Lost 1 2]"], of "''a''"
      "sample_row ''a'' Lost 1 2" sample_ctx None True 5]
  by (auto simp: within_budget_def)

text \<open>
  A replacement charged with the last attempt can no longer be recorded as lost.  The
  charge brings the attempts to the limit, so from then on every attempt to finish that
  task as lost, or to charge it another failure, is refused by the circuit breaker.
\<close>

theorem last_charge_unlosable:
  assumes "db_ok d" and "prepare_replacement x tid target True ev fence now d = Inr (rec, d')"
    and "t_attempts rec = t_max_attempts rec"
  shows "finish y tid Lost res ev' charge None shared now' d' = Inl (CircuitBreaker (t_key rec) (t_max_attempts rec))"
proof -
  from prepare_replacement_lifecycle [OF assms(2,1)] obtain r r' where
    w: "task_write tid r r' d d'" and rec: "rec = decode_task r'" by (auto simp: lifecycle_write_def)
  from task_write_find [OF w] have "find_task tid d' = Some r'" by simp
  with assms(3) rec show ?thesis
    by (simp add: finish_Lost record_failure_def decode_task_def task_record.defs)
qed

theorem last_charge_unlosable_witness:
  "\<exists>rec d'. prepare_replacement sample_ctx ''a'' None True (Some 0) None 5 (seed [sample_row ''a'' Active 1 2])
             = Inr (rec, d')
          \<and> finish sample_ctx ''a'' Lost None None False None False 6 d' = Inl (CircuitBreaker ''a'' 2)"
proof -
  have "\<exists>d'. transition_on ''a'' replace_predecessors (Some 0)
          (\<lambda>r. r\<lparr>t_state := Replacing, t_epoch := t_epoch r + 1, t_attempts := t_attempts r + 1,
                 t_spec := jcanon (t_spec (sample_row ''a'' Active 1 2)), t_liveness := Live, t_liveness_episode := 0,
                 t_liveness_since := None, t_liveness_wakes := 0, t_liveness_evidence := None,
                 t_over_budget := False, t_checkpoint_at := None\<rparr>) ''replacing'' 5 (seed [sample_row ''a'' Active 1 2])
      = Inr (decode_task ((sample_row ''a'' Active 1 2)
          \<lparr>t_state := Replacing, t_epoch := 2, t_attempts := 2,
                 t_spec := jcanon (t_spec (sample_row ''a'' Active 1 2)), t_liveness := Live, t_liveness_episode := 0,
                 t_liveness_since := None, t_liveness_wakes := 0, t_liveness_evidence := None,
                 t_over_budget := False, t_checkpoint_at := None, t_version := 1, t_updated_at := 5\<rparr>), d')"
    using transition_on_succeeds [OF seed_ok [of "[sample_row ''a'' Active 1 2]"], where tid = "''a''"
      and r = "sample_row ''a'' Active 1 2" and expect = replace_predecessors and ev = "Some 0" and now = 5
      and att = "''replacing''" and assign = "\<lambda>r. r\<lparr>t_state := Replacing, t_epoch := t_epoch r + 1, t_attempts := t_attempts r + 1,
                 t_spec := jcanon (t_spec (sample_row ''a'' Active 1 2)), t_liveness := Live, t_liveness_episode := 0,
                 t_liveness_since := None, t_liveness_wakes := 0, t_liveness_evidence := None,
                 t_over_budget := False, t_checkpoint_at := None\<rparr>"]
    by (auto simp: replace_predecessors_def)
  then obtain rec d' where s: "prepare_replacement sample_ctx ''a'' None True (Some 0) None 5
      (seed [sample_row ''a'' Active 1 2]) = Inr (rec, d')" and rec: "t_attempts rec = 2" "t_max_attempts rec = 2" "t_key rec = ''a''"
    by (auto simp: prepare_replacement_def with_fence_def transition_def decode_task_def task_record.defs)
  from last_charge_unlosable [OF seed_ok s, of sample_ctx None None False False 6] rec s show ?thesis by auto
qed

subsubsection \<open>Reservation\<close>

lemma spec_keys_length: "spec_keys specs = Inr keys \<Longrightarrow> length keys = length specs"
  by (induction specs arbitrary: keys) (auto simp del: spec_key.simps)

lemma reserve_allE:
  assumes "reserve_all uuid5 sc parent specs m now d = Inr (rs, d')" and "specs \<noteq> []"
  obtains keys where "spec_keys specs = Inr keys" "distinct keys" "check_child_limit sc parent keys d = Inr ()"
    "reserve_rows uuid5 sc parent m now specs d = Inr (rs, d')"
  using assms by (auto simp: reserve_all_def split: if_splits)

lemma reserve_rows_again:
  assumes "list_all2 (reservation_of sc d0 d) specs rs"
  shows "reserve_rows uuid5 sc parent m now specs d = Inr (map (\<lambda>(r, _). (r, False)) rs, d)"
  using assms
proof (induction specs rs rule: list_all2_induct)
  case (Cons spec specs r rs)
  then show ?case
    by (cases r) (auto simp: reservation_of_def Let_def simp del: spec_key.simps spec_children.simps)
qed simp

lemma spec_keys_found:
  assumes "list_all2 (reservation_of sc d0 d) specs rs" and "spec_keys specs = Inr keys" and "k \<in> set keys"
  shows "find_task_by_key sc k d \<noteq> None"
  using assms
  by (induction specs rs arbitrary: keys rule: list_all2_induct)
    (auto simp: reservation_of_def simp del: spec_key.simps)

lemma child_rows_append: "child_rows p (d\<lparr>db_tasks := db_tasks d @ news\<rparr>)
  = child_rows p d @ filter (\<lambda>r. t_parent r = Some p) news"
  by (simp add: child_rows_def)

lemma reserve_all_children:
  assumes "reserve_all uuid5 sc parent specs m now d = Inr (rs, d')" and "db_ok d" and "specs \<noteq> []"
    and "parent = Some p"
  shows "length (child_rows p d') = length (child_rows p d)
           + (case spec_keys specs of Inr keys \<Rightarrow> count_new_keys sc keys d | Inl _ \<Rightarrow> 0)"
proof -
  from assms(1,3) obtain keys where k: "spec_keys specs = Inr keys" "distinct keys"
    "reserve_rows uuid5 sc parent m now specs d = Inr (rs, d')" by (rule reserve_allE)
  from reserve_rows_appends [OF k(3) assms(2) k(1,2)] obtain news where
    news: "db_tasks d' = db_tasks d @ news" "list_all (reserved_row sc parent) news"
      "map t_key news = filter (\<lambda>k. find_task_by_key sc k d = None) keys" by blast
  have "filter (\<lambda>r. t_parent r = Some p) news = news"
    using news(2) assms(4) by (induction news) (auto simp: reserved_row_def)
  with news(1) have "length (child_rows p d') = length (child_rows p d) + length news"
    by (simp add: child_rows_def)
  moreover have "length news = count_new_keys sc keys d"
    using arg_cong [OF news(3), of length] by (simp add: count_new_keys_def)
  ultimately show ?thesis using k(1) by simp
qed

lemma find_task_appended:
  "db_tasks d' = db_tasks d @ news \<Longrightarrow> find_task tid d = Some r \<Longrightarrow> find_task tid d' = Some r"
  by (simp add: find_task_def lookup_by_append)

text \<open>
  Starting the same batch twice creates nothing twice.  After a reservation, the same
  call (whatever its clock) succeeds, leaves the database exactly as it is, and returns the
  same records, every one of them flagged as found rather than inserted.
\<close>

theorem reserve_all_idempotent:
  assumes "db_ok d" and "reserve_all uuid5 sc parent specs m now d = Inr (rs, d')"
  shows "reserve_all uuid5 sc parent specs m now' d' = Inr (map (\<lambda>(r, _). (r, False)) rs, d')"
proof (cases "specs = []")
  case True
  with assms(2) show ?thesis by (simp add: reserve_all_def)
next
  case False
  from assms(2) False obtain keys where k: "spec_keys specs = Inr keys" "distinct keys"
    "check_child_limit sc parent keys d = Inr ()"
    "reserve_rows uuid5 sc parent m now specs d = Inr (rs, d')" by (rule reserve_allE)
  from reserve_rows_appends [OF k(4) assms(1) k(1,2)] obtain news where
    news: "db_tasks d' = db_tasks d @ news" and res: "list_all2 (reservation_of sc d d') specs rs" by blast
  have none_new: "count_new_keys sc keys d' = 0"
    using spec_keys_found [OF res k(1)] by (auto simp: count_new_keys_def filter_empty_conv)
  have "check_child_limit sc parent keys d' = Inr ()"
  proof (cases "truthy parent")
    case True
    then obtain p where p: "parent = Some p" by (auto simp: truthy_def split: option.splits)
    from k(3) True p obtain pr where pr: "find_task p d = Some pr"
      "int (length (child_rows p d)) + int (count_new_keys sc keys d) \<le> t_child_limit pr"
      by (auto simp: check_child_limit_def Let_def split: option.splits if_splits)
    with reserve_all_children [OF assms(2,1) False p] k(1) none_new find_task_appended [OF news pr(1)] p
    show ?thesis by (simp add: check_child_limit_def)
  qed (simp add: check_child_limit_def)
  with k(1,2) False reserve_rows_again [OF res] show ?thesis by (simp add: reserve_all_def)
qed

definition sample_spec :: json where
  "sample_spec = JObj [(''prompt'', JStr ''do it''), (''key'', JStr ''b'')]"

lemma sample_reserve:
  "\<exists>rs d'. reserve_all id ''scope'' None [sample_spec] 2 5 empty_db = Inr (rs, d')"
  by (simp add: reserve_all_def sample_spec_def Let_def insert_task_def sample_defs empty_db_def
      check_child_limit_def truthy_def task_id_of_def find_task_by_key_def)

theorem reserve_all_idempotent_witness:
  "\<exists>rs d'. reserve_all id ''scope'' None [sample_spec] 2 5 empty_db = Inr (rs, d')
         \<and> reserve_all id ''scope'' None [sample_spec] 2 9 d' = Inr (map (\<lambda>(r, _). (r, False)) rs, d')"
  using sample_reserve reserve_all_idempotent [OF db_ok_empty, where now' = 9] by blast

text \<open>
  A parent never exceeds its child limit by starting a batch.  Whatever was there before,
  a reservation that returns leaves the parent with at most as many children as its limit
  allows, and each requested task exists under its key with the requested specification.
\<close>

theorem child_limit_respected:
  assumes "db_ok d" and "reserve_all uuid5 sc (Some p) specs m now d = Inr (rs, d')"
    and "specs \<noteq> []" and "p \<noteq> ''''"
  shows "\<exists>pr. find_task p d' = Some pr \<and> int (length (child_rows p d')) \<le> t_child_limit pr
           \<and> list_all2 (reservation_of sc d d') specs rs"
proof -
  from assms(2,3) obtain keys where k: "spec_keys specs = Inr keys" "distinct keys"
    "check_child_limit sc (Some p) keys d = Inr ()"
    "reserve_rows uuid5 sc (Some p) m now specs d = Inr (rs, d')" by (rule reserve_allE)
  from reserve_rows_appends [OF k(4) assms(1) k(1,2)] obtain news where
    news: "db_tasks d' = db_tasks d @ news" and res: "list_all2 (reservation_of sc d d') specs rs" by blast
  from k(3) assms(4) obtain pr where pr: "find_task p d = Some pr"
      "int (length (child_rows p d)) + int (count_new_keys sc keys d) \<le> t_child_limit pr"
    by (auto simp: check_child_limit_def truthy_def Let_def split: option.splits if_splits)
  with reserve_all_children [OF assms(2,1,3) refl] k(1) find_task_appended [OF news pr(1)] res
  show ?thesis by simp
qed

definition sample_parent :: task_row where
  "sample_parent = (sample_row ''p'' Active 0 2)\<lparr>t_child_limit := 1\<rparr>"

lemma sample_parent_fields [simp]:
  "t_id sample_parent = ''p''" "t_scope sample_parent = ''scope''" "t_key sample_parent = ''p''"
  "t_child_limit sample_parent = 1" "t_parent sample_parent = None" "task_row_ok sample_parent"
  "t_holder sample_parent = Some ''p''" "db_tasks (seed [sample_parent]) = [sample_parent]"
proof -
  show "db_tasks (seed [sample_parent]) = [sample_parent]"
    by (rule seed_tasks) (simp add: sample_parent_def task_table_ok_def task_row_ok_def unique_where_def)
qed (simp_all add: sample_parent_def task_row_ok_def)

lemma sample_batch:
  "\<exists>rs d'. reserve_all id ''scope'' (Some ''p'') [sample_spec] 2 5 (seed [sample_parent]) = Inr (rs, d')"
  by (simp add: reserve_all_def sample_spec_def Let_def insert_task_def task_table_ok_def
      unique_where_def check_child_limit_def truthy_def task_id_of_def find_task_by_key_def find_task_def
      child_rows_def count_new_keys_def) (simp add: live_holder_def new_task_row_def task_row_ok_def)

theorem child_limit_respected_witness:
  "\<exists>rs d'. reserve_all id ''scope'' (Some ''p'') [sample_spec] 2 5 (seed [sample_parent]) = Inr (rs, d')
         \<and> length (child_rows ''p'' d') \<le> 1"
proof -
  obtain rs d' where s: "reserve_all id ''scope'' (Some ''p'') [sample_spec] 2 5 (seed [sample_parent]) = Inr (rs, d')"
    using sample_batch by blast
  from child_limit_respected [OF seed_ok s] obtain pr where
    pr: "find_task ''p'' d' = Some pr" "int (length (child_rows ''p'' d')) \<le> t_child_limit pr" by auto
  from s obtain keys where "spec_keys [sample_spec] = Inr keys" "distinct keys"
    "reserve_rows id ''scope'' (Some ''p'') 2 5 [sample_spec] (seed [sample_parent]) = Inr (rs, d')"
    by (rule reserve_allE) simp
  from reserve_rows_appends [OF this(3) seed_ok this(1,2)] obtain news where
    "db_tasks d' = db_tasks (seed [sample_parent]) @ news" by blast
  from find_task_appended [OF this, of "''p''" sample_parent] pr s show ?thesis
    by (auto simp: find_task_def)
qed

subsubsection \<open>Observations\<close>

text \<open>A run of liveness observations of one task, as the detector's ticks make them.\<close>

fun observe_all :: "string \<Rightarrow> (string \<times> string option \<times> real) list \<Rightarrow> db \<Rightarrow> kerror + db" where
  "observe_all tid [] d = Inr d"
| "observe_all tid ((name, ev, moment) # obs) d =
     ebind (record_liveness tid name ev moment d) (\<lambda>(_, d'). observe_all tid obs d')"

definition silent_names :: "string set" where
  "silent_names = {''idle_unreported'', ''limbo'', ''stalled''}"

lemma silent_liveness: "name \<in> silent_names \<Longrightarrow> liveness_of_name name = Some l \<Longrightarrow> l \<in> stall_liveness"
  by (auto simp: silent_names_def stall_liveness_def)

lemma silent_stretch: "l \<in> stall_liveness \<Longrightarrow> liveness_stretch l = ''silent''"
  by (auto simp: stall_liveness_def liveness_stretch_def)

definition episode_of :: "task_row \<Rightarrow> int \<times> real option \<times> int" where
  "episode_of r = (t_liveness_episode r, t_liveness_since r, t_liveness_wakes r)"

lemma silent_observation:
  assumes "record_liveness tid name ev moment d = Inr (res, d')" and "db_ok d"
    and "find_task tid d = Some r" and "t_liveness r \<in> stall_liveness" and "name \<in> silent_names"
  shows "db_ok d' \<and> (\<exists>r'. find_task tid d' = Some r' \<and> t_liveness r' \<in> stall_liveness
           \<and> episode_of r' = episode_of r \<and> t_version r' = t_version r \<and> t_updated_at r' = t_updated_at r
           \<and> lifecycle_facts r' = lifecycle_facts r)"
  using assms(1,2)
proof (cases rule: record_liveness_cases)
  case terminal
  with assms show ?thesis by auto
next
  case (observed q l)
  with assms(3) have q: "q = r" by simp
  from observed(1) assms(5) have l: "l \<in> stall_liveness" by (rule silent_liveness [rotated])
  have "apply_liveness l ev moment r = r\<lparr>t_liveness := l, t_liveness_evidence := ev\<rparr>"
    using l assms(4) by (simp add: apply_liveness_def silent_stretch)
  with observed(4) q l task_write_find [OF observed(4)] show ?thesis
    by (auto simp: task_write_def episode_of_def lifecycle_facts_def)
qed

text \<open>
  C21: flapping inside one silent stretch is one episode.  However often the detector
  relabels a silent task between idle, limbo and stalled, the episode number, the clock it is
  measured from and the count of wakes it has sent stay what they were, so escalation after
  two wakes can still arrive; and no observation moves the version, the state or
  \<open>updated_at\<close>, so it invalidates no manager's read.
\<close>

theorem flapping_is_one_episode:
  assumes "db_ok d" and "find_task tid d = Some r" and "t_liveness r \<in> stall_liveness"
    and "fst ` set obs \<subseteq> silent_names" and "observe_all tid obs d = Inr d'"
  shows "\<exists>r'. find_task tid d' = Some r' \<and> episode_of r' = episode_of r
           \<and> t_version r' = t_version r \<and> t_updated_at r' = t_updated_at r
           \<and> lifecycle_facts r' = lifecycle_facts r"
  using assms
proof (induction obs arbitrary: d r)
  case (Cons ob obs)
  obtain name ev moment where ob: "ob = (name, ev, moment)" by (cases ob)
  with Cons.prems(5) obtain res d1 where
    s: "record_liveness tid name ev moment d = Inr (res, d1)" "observe_all tid obs d1 = Inr d'" by auto
  from silent_observation [OF s(1) Cons.prems(1-3)] ob Cons.prems(4) obtain r1 where
    r1: "db_ok d1" "find_task tid d1 = Some r1" "t_liveness r1 \<in> stall_liveness"
      "episode_of r1 = episode_of r" "t_version r1 = t_version r" "t_updated_at r1 = t_updated_at r"
      "lifecycle_facts r1 = lifecycle_facts r" by auto
  from Cons.prems(4) have "fst ` set obs \<subseteq> silent_names" by auto
  from Cons.IH [OF r1(1-3) this s(2)] r1(4-7) show ?case by metis
qed auto

definition silent_row :: task_row where
  "silent_row = (sample_row ''a'' Active 0 2)\<lparr>t_liveness := Stalled, t_liveness_episode := 3,
     t_liveness_since := Some 7, t_liveness_wakes := 1\<rparr>"

lemma silent_row_fields [simp]:
  "t_id silent_row = ''a''" "t_liveness silent_row = Stalled" "t_state silent_row = Active"
  "episode_of silent_row = (3, Some 7, 1)" "db_tasks (seed [silent_row]) = [silent_row]"
proof -
  show "db_tasks (seed [silent_row]) = [silent_row]"
    by (rule seed_tasks) (simp add: silent_row_def task_table_ok_def task_row_ok_def unique_where_def)
qed (simp_all add: silent_row_def episode_of_def)

lemma record_liveness_live:
  assumes "db_ok d" and "find_task tid d = Some r" and "liveness_of_name name = Some l"
  shows "\<exists>res d'. record_liveness tid name ev moment d = Inr (res, d')"
proof (cases "t_state r \<in> live_states")
  case True
  have ok: "task_row_ok r" by (rule db_ok_row [OF assms(1,2)])
  have "\<exists>d'. change_task tid ''liveness'' HObservation moment (\<lambda>r. t_state r \<in> live_states)
          (apply_liveness l ev moment) d = Inr (True, d')"
  proof (rule change_task_succeeds [OF assms(1,2)])
    show "\<forall>x \<in> set (db_tasks d). t_id x \<noteq> tid \<longrightarrow> live_holder x \<longrightarrow>
        t_holder x \<noteq> t_holder (apply_liveness l ev moment r)" if "live_holder (apply_liveness l ev moment r)"
    proof (intro ballI impI notI)
      fix q assume q: "q \<in> set (db_tasks d)" "t_id q \<noteq> tid" "live_holder q"
        "t_holder q = t_holder (apply_liveness l ev moment r)"
      from that q(4) have "live_holder r" "t_holder q = t_holder r"
        by (auto simp: live_holder_def apply_liveness_def Let_def split: if_splits)
      with q find_task_SomeD [OF assms(2)] db_ok_tasks [OF assms(1)] show False
        using unique_whereD [of live_holder t_holder "db_tasks d" q r]
        by (auto simp: task_table_ok_def distinct_map)
    qed
  qed (use True ok in \<open>auto simp: apply_liveness_def Let_def task_row_ok_def\<close>)
  then obtain d' where d': "change_task tid ''liveness'' HObservation moment (\<lambda>r. t_state r \<in> live_states)
          (apply_liveness l ev moment) d = Inr (True, d')" ..
  have id: "\<And>r. t_id (apply_liveness l ev moment r) = t_id r" by (simp add: apply_liveness_def Let_def)
  from change_task_find [OF d' id, of tid] assms(2) have "find_task tid d' \<noteq> None" by simp
  with d' assms(2,3) show ?thesis by (auto simp: record_liveness_def)
next
  case False
  have "change_task tid ''liveness'' HObservation moment (\<lambda>r. t_state r \<in> live_states)
          (apply_liveness l ev moment) d = Inr (False, d)"
    using False assms by (intro change_task_missed) auto
  with assms show ?thesis by (simp add: record_liveness_def)
qed

theorem flapping_is_one_episode_witness:
  "\<exists>d' r'. observe_all ''a'' [(''limbo'', None, 8), (''stalled'', None, 9)] (seed [silent_row]) = Inr d'
         \<and> find_task ''a'' d' = Some r' \<and> episode_of r' = (3, Some 7, 1)"
proof -
  have f: "find_task ''a'' (seed [silent_row]) = Some silent_row" by (simp add: find_task_def)
  obtain res d1 where 1: "record_liveness ''a'' ''limbo'' None 8 (seed [silent_row]) = Inr (res, d1)"
    using record_liveness_live [OF seed_ok f, of "''limbo''" Limbo None 8] by auto
  from silent_observation [OF 1 seed_ok f] obtain r1 where r1: "db_ok d1" "find_task ''a'' d1 = Some r1"
    by (auto simp: stall_liveness_def silent_names_def)
  obtain res2 d2 where 2: "record_liveness ''a'' ''stalled'' None 9 d1 = Inr (res2, d2)"
    using record_liveness_live [OF r1, of "''stalled''" Stalled None 9] by auto
  from 1 2 have "observe_all ''a'' [(''limbo'', None, 8), (''stalled'', None, 9)] (seed [silent_row]) = Inr d2"
    by simp
  with flapping_is_one_episode [OF seed_ok f _ _ this] show ?thesis
    by (auto simp: stall_liveness_def silent_names_def)
qed

subsubsection \<open>The fence\<close>

text \<open>
  C40: every lifecycle write happens under its task's fence.  When activation, replacement,
  finishing as anything but exhausted, or exhausting returns a record, either the operation
  took the lock itself or the fence it was given passed \<open>_require_fence\<close>: it belongs to this
  store and task, it is not opened for I/O, its lock file is open, and the calling context
  holds it.
\<close>

theorem lifecycle_writes_fenced:
  assumes "activate x tid ws s (Some f) now d = Inr res
           \<or> prepare_replacement x tid target charge ev (Some f) now d = Inr res
           \<or> finish x tid st out ev charge (Some f) shared now d = Inr res \<and> st \<noteq> Exhausted
           \<or> exhaust x tid reason v (Some f) now d = Inr res
           \<or> transition x tid expect ev assign att (Some f) now d = Inr res"
  shows "require_fence x tid (Some f) = Inr ()"
proof (cases res)
  case (Pair rec d')
  with assms show ?thesis
    by (auto simp: activate_def prepare_replacement_def with_fence_def finish_def record_failure_def
        exhaust_def Let_def split: option.splits if_splits)
qed

theorem lifecycle_writes_fenced_witness:
  "require_fence (lock_ctx ''a'' sample_ctx) ''a'' (Some (lock_fence ''a'' sample_ctx)) = Inr ()"
proof -
  obtain rec d' where "transition (lock_ctx ''a'' sample_ctx) ''a'' {Active} (Some 0)
       (\<lambda>r. r\<lparr>t_state := Completed\<rparr>) ''completed'' (Some (lock_fence ''a'' sample_ctx)) 5
       (seed [sample_row ''a'' Active 0 2]) = Inr (rec, d')"
    using sample_transition [of 0 2 Active "{Active}" "''a''" Completed "''completed''" 5] by auto
  then show ?thesis by (intro lifecycle_writes_fenced) blast
qed

text \<open>
  C39: the one exception.  Finishing a task as exhausted on its own connection does not look at
  the fence it is given: a fence that \<open>_require_fence\<close> refuses (of another task, released, or
  not held by the caller) still writes the terminal state.
\<close>

theorem exhausted_ignores_fence:
  assumes "db_ok d" and "find_task tid d = Some r" and "t_state r \<in> {Reserved, Active, Replacing, Blocked}"
    and "require_fence x tid (Some f) = Inl FenceRequired"
  shows "\<exists>rec d'. finish x tid Exhausted res None False (Some f) False now d = Inr (rec, d')
           \<and> t_state rec = Exhausted"
proof -
  have ok: "task_row_ok r" by (rule db_ok_row [OF assms(1,2)])
  have "\<exists>d'. transition_on tid {Reserved, Active, Replacing, Blocked} None
          (\<lambda>r. r\<lparr>t_state := Exhausted, t_attempts := t_attempts r + 1,
                 t_result := Some (''exhausted: '' @ or_default res ''failed'')\<rparr>) ''exhausted'' now d
        = Inr (decode_task (r\<lparr>t_state := Exhausted, t_attempts := t_attempts r + 1,
                 t_result := Some (''exhausted: '' @ or_default res ''failed''),
                 t_version := t_version r + 1, t_updated_at := now\<rparr>), d')"
    using transition_on_succeeds [OF assms(1-3), where ev = None and assign = "\<lambda>r. r\<lparr>t_state := Exhausted,
        t_attempts := t_attempts r + 1, t_result := Some (''exhausted: '' @ or_default res ''failed'')\<rparr>"
        and att = "''exhausted''" and now = now] ok
    by (auto simp: live_holder_def task_row_ok_def)
  then show ?thesis
    by (auto simp: finish_def with_fence_def record_exhaustion_def decode_task_def task_record.defs)
qed

theorem exhausted_ignores_fence_witness:
  "\<exists>rec d'. finish sample_ctx ''a'' Exhausted None None False (Some (lock_fence ''b'' sample_ctx)) False 5
       (seed [sample_row ''a'' Active 0 2]) = Inr (rec, d') \<and> t_state rec = Exhausted"
  by (rule exhausted_ignores_fence [OF seed_ok])
     (auto simp: require_fence_def lock_fence_def sample_ctx_def)

end
