(* ===== verification/Evolution.thy ===== *)
theory Evolution
  imports TaskContract
begin

text \<open>
  How the kernel's database may change from one commit to the next, as one preorder that every
  operation refines.  \<open>evolving_table\<close> is the contract of a table whose rows are never deleted
  and only move forward; \<open>kernel_step\<close> puts the tables, the history and the wake bookkeeping
  together.
\<close>

subsection \<open>Tables whose rows only move forward\<close>

definition grows :: "('r \<Rightarrow> 'k) \<Rightarrow> ('r \<Rightarrow> 'r \<Rightarrow> bool) \<Rightarrow> 'r list \<Rightarrow> 'r list \<Rightarrow> bool" where
  "grows key R rows rows' \<longleftrightarrow>
     (\<forall>k r. lookup_by key k rows = Some r \<longrightarrow> (\<exists>r'. lookup_by key k rows' = Some r' \<and> R r r'))"

locale evolving_table =
  fixes key :: "'r \<Rightarrow> 'k" and R :: "'r \<Rightarrow> 'r \<Rightarrow> bool"
  assumes R_refl: "R r r"
    and R_trans: "R a b \<Longrightarrow> R b c \<Longrightarrow> R a c"
    and R_key: "R r r' \<Longrightarrow> key r' = key r"
begin

lemma grows_refl: "grows key R rows rows"
  using R_refl by (auto simp: grows_def)

lemma grows_trans: "grows key R a b \<Longrightarrow> grows key R b c \<Longrightarrow> grows key R a c"
  unfolding grows_def by (meson R_trans)

lemma grows_append: "grows key R rows (rows @ new)"
  using R_refl by (auto simp: grows_def lookup_by_append split: option.splits)

lemma grows_map:
  assumes "\<And>r. r \<in> set rows \<Longrightarrow> R r (g r)"
  shows "grows key R rows (map g rows)"
  unfolding grows_def
proof (intro allI impI)
  fix k r
  assume r: "lookup_by key k rows = Some r"
  have "\<And>x. x \<in> set rows \<Longrightarrow> key (g x) = key x" using assms R_key by blast
  then have "lookup_by key k (map g rows) = map_option g (lookup_by key k rows)"
    by (induction rows) auto
  moreover from r assms have "R r (g r)" by (auto dest: lookup_by_SomeD)
  ultimately show "\<exists>r'. lookup_by key k (map g rows) = Some r' \<and> R r r'" using r by simp
qed

lemma grows_update:
  assumes "\<And>r. r \<in> set rows \<Longrightarrow> key r = k \<Longrightarrow> G r \<Longrightarrow> R r (f r)"
  shows "grows key R rows (update_by key k G f rows)"
  unfolding update_by_def by (rule grows_map) (use assms R_refl in auto)

end

subsection \<open>The rows of each table\<close>

fun effect_rank :: "effect_state \<Rightarrow> nat" where
  "effect_rank EReserved = 0"
| "effect_rank ELaunched = 1"
| "effect_rank ETerminal = 2"

definition effect_evolves :: "effect_row \<Rightarrow> effect_row \<Rightarrow> bool" where
  "effect_evolves r r' \<longleftrightarrow> effect_key r' = effect_key r \<and> e_request_hash r' = e_request_hash r
     \<and> e_created_at r' = e_created_at r \<and> effect_rank (e_state r) \<le> effect_rank (e_state r')"

text \<open>A wake keeps its subject, a payload once chosen stays, and a settled wake never changes.\<close>

definition wake_evolves :: "wake_row \<Rightarrow> wake_row \<Rightarrow> bool" where
  "wake_evolves w w' \<longleftrightarrow> w_id w' = w_id w \<and> w_parent w' = w_parent w \<and> w_predicate w' = w_predicate w
     \<and> w_dedupe_key w' = w_dedupe_key w \<and> w_event_seq w' = w_event_seq w
     \<and> (w_payload w \<noteq> None \<longrightarrow> w_payload w' = w_payload w)
     \<and> (\<not> live_wake w \<longrightarrow> w' = w)"

definition checkpoint_evolves :: "checkpoint_operation \<Rightarrow> checkpoint_operation \<Rightarrow> bool" where
  "checkpoint_evolves k k' \<longleftrightarrow>
     k' = k\<lparr>k_receipt := k_receipt k', k_durable_commit := k_durable_commit k', k_committed_at := k_committed_at k'\<rparr>
     \<and> (k_receipt k \<noteq> None \<longrightarrow> k_receipt k' = k_receipt k)
     \<and> (k_durable_commit k \<longrightarrow> k_durable_commit k')
     \<and> (k_committed_at k \<noteq> None \<longrightarrow> k_committed_at k' = k_committed_at k)"

lemma evolves_id: "evolves r r' \<Longrightarrow> t_id r' = t_id r"
  using evolves_mono by (simp add: same_identity_def)

interpretation tasks: evolving_table t_id evolves
  by unfold_locales (auto intro: evolves_trans simp: evolves_id)

interpretation effects: evolving_table effect_key effect_evolves
  by unfold_locales (auto simp: effect_evolves_def)

interpretation wakes: evolving_table w_id wake_evolves
  by unfold_locales (auto simp: wake_evolves_def)

interpretation checkpoints: evolving_table k_operation_id checkpoint_evolves
proof unfold_locales
  fix a b c
  assume ab: "checkpoint_evolves a b" and bc: "checkpoint_evolves b c"
  show "checkpoint_evolves a c"
    unfolding checkpoint_evolves_def
  proof (intro conjI)
    from ab obtain x y z where b: "b = a\<lparr>k_receipt := x, k_durable_commit := y, k_committed_at := z\<rparr>"
      unfolding checkpoint_evolves_def by blast
    from bc obtain x y z where "c = b\<lparr>k_receipt := x, k_durable_commit := y, k_committed_at := z\<rparr>"
      unfolding checkpoint_evolves_def by blast
    with b show "c = a\<lparr>k_receipt := k_receipt c, k_durable_commit := k_durable_commit c,
        k_committed_at := k_committed_at c\<rparr>" by simp
  qed (use ab bc in \<open>simp_all add: checkpoint_evolves_def\<close>)
next
  fix r r'
  assume "checkpoint_evolves r r'"
  then obtain x y z where "r' = r\<lparr>k_receipt := x, k_durable_commit := y, k_committed_at := z\<rparr>"
    unfolding checkpoint_evolves_def by blast
  then show "k_operation_id r' = k_operation_id r" by simp
qed (simp add: checkpoint_evolves_def)

subsection \<open>One step of the kernel\<close>

definition fresh_task :: "task_row \<Rightarrow> bool" where
  "fresh_task r \<longleftrightarrow> t_state r = Reserved \<and> t_epoch r = 1 \<and> t_attempts r = 0 \<and> t_version r = 0
     \<and> t_child_event_seq r = 0 \<and> t_last_woken_seq r = 0 \<and> 0 < t_max_attempts r"

text \<open>A row that was not there before started as a reservation.\<close>

definition born :: "task_row list \<Rightarrow> task_row list \<Rightarrow> bool" where
  "born rows rows' \<longleftrightarrow> (\<forall>k r'. lookup_by t_id k rows = None \<longrightarrow> lookup_by t_id k rows' = Some r'
     \<longrightarrow> (\<exists>r0. fresh_task r0 \<and> evolves r0 r'))"

text \<open>The bookkeeping of wakes: what a task's manager was woken for, and how often.\<close>

definition row_inv :: "task_row \<Rightarrow> bool" where
  "row_inv r \<longleftrightarrow> t_last_woken_seq r \<le> t_child_event_seq r \<and> 0 \<le> t_liveness_wakes r
     \<and> t_liveness_wakes r \<le> 2 \<and> within_budget r"

definition event_known :: "db \<Rightarrow> wake_row \<Rightarrow> bool" where
  "event_known d w \<longleftrightarrow> (\<forall>s. w_event_seq w = Some s \<longrightarrow>
     (\<exists>r. find_task (w_parent w) d = Some r \<and> s \<le> t_child_event_seq r))"

definition kernel_inv :: "db \<Rightarrow> bool" where
  "kernel_inv d \<longleftrightarrow> db_ok d \<and> list_all row_inv (db_tasks d) \<and> list_all (event_known d) (db_wakes d)"

definition kernel_step :: "db \<Rightarrow> db \<Rightarrow> bool" where
  "kernel_step d d' \<longleftrightarrow> kernel_inv d' \<and> log_extends d d'
     \<and> grows t_id evolves (db_tasks d) (db_tasks d') \<and> born (db_tasks d) (db_tasks d')
     \<and> grows effect_key effect_evolves (db_effects d) (db_effects d')
     \<and> grows w_id wake_evolves (db_wakes d) (db_wakes d')
     \<and> grows k_operation_id checkpoint_evolves (db_checkpoints d) (db_checkpoints d')"

lemma kernel_inv_ok: "kernel_inv d \<Longrightarrow> db_ok d"
  by (simp add: kernel_inv_def)

lemma kernel_step_inv: "kernel_step d d' \<Longrightarrow> kernel_inv d'"
  by (simp add: kernel_step_def)

lemma born_refl [simp]: "born rows rows"
  by (simp add: born_def)

lemma born_trans:
  assumes "born a b" and "born b c" and "grows t_id evolves b c"
  shows "born a c"
  unfolding born_def
proof (intro allI impI)
  fix k r
  assume a: "lookup_by t_id k a = None" and c: "lookup_by t_id k c = Some r"
  show "\<exists>r0. fresh_task r0 \<and> evolves r0 r"
  proof (cases "lookup_by t_id k b")
    case None
    with assms(2) c show ?thesis by (auto simp: born_def)
  next
    case (Some rb)
    with assms(1) a obtain r0 where r0: "fresh_task r0" "evolves r0 rb" by (auto simp: born_def)
    from assms(3) Some c have "evolves rb r" unfolding grows_def by fastforce
    with r0 show ?thesis using evolves_trans by blast
  qed
qed

lemma kernel_step_refl: "kernel_inv d \<Longrightarrow> kernel_step d d"
  by (simp add: kernel_step_def tasks.grows_refl effects.grows_refl wakes.grows_refl checkpoints.grows_refl)

lemma kernel_step_trans: "kernel_step a b \<Longrightarrow> kernel_step b c \<Longrightarrow> kernel_step a c"
  unfolding kernel_step_def
  by (meson born_trans log_extends_trans tasks.grows_trans effects.grows_trans wakes.grows_trans
      checkpoints.grows_trans)

lemma born_same_ids: "map t_id rows' = map t_id rows \<Longrightarrow> born rows rows'"
proof -
  assume "map t_id rows' = map t_id rows"
  from arg_cong [OF this, of set] have "t_id ` set rows' = t_id ` set rows" by simp
  then show ?thesis
    by (auto simp: born_def lookup_by_None_iff) (metis imageI lookup_by_SomeD)
qed

lemma event_known_mono:
  assumes "grows t_id evolves (db_tasks d) (db_tasks d')" and "event_known d w"
  shows "event_known d' w"
  unfolding event_known_def
proof (intro allI impI)
  fix s
  assume "w_event_seq w = Some s"
  with assms(2) obtain r where r: "find_task (w_parent w) d = Some r" "s \<le> t_child_event_seq r"
    by (auto simp: event_known_def)
  with assms(1) obtain r' where "find_task (w_parent w) d' = Some r'" "evolves r r'"
    by (auto simp: grows_def find_task_def)
  with r evolves_mono show "\<exists>r. find_task (w_parent w) d' = Some r \<and> s \<le> t_child_event_seq r"
    by fastforce
qed

subsection \<open>The kinds of write\<close>

text \<open>A write to one task row.\<close>

lemma kernel_step_task_write:
  assumes w: "task_write tid r r' d d'" and inv: "kernel_inv d" and e: "evolves r r'" and r': "row_inv r'"
  shows "kernel_step d d'"
proof -
  from w have rows: "db_tasks d' = map (\<lambda>x. if t_id x = tid then r' else x) (db_tasks d)"
    and f: "find_task tid d = Some r" and side: "same_side_tables d d'" "log_extends d d'" "db_ok d'"
    by (simp_all add: task_write_def)
  have "x = r" if "x \<in> set (db_tasks d)" "t_id x = tid" for x
    using lookup_by_mem [OF db_ok_task_ids [OF kernel_inv_ok [OF inv]] that(1)] that(2) f
    by (simp add: find_task_def)
  then have g: "grows t_id evolves (db_tasks d) (db_tasks d')"
    unfolding rows using e by (intro tasks.grows_map) auto
  have "map t_id (db_tasks d') = map t_id (db_tasks d)"
    using w by (auto simp: rows task_write_def)
  then have b: "born (db_tasks d) (db_tasks d')" by (rule born_same_ids)
  have "list_all row_inv (db_tasks d')"
    using inv r' by (auto simp: kernel_inv_def rows list_all_iff)
  moreover have "list_all (event_known d') (db_wakes d')"
    using inv side(1) event_known_mono [OF g] by (auto simp: kernel_inv_def list_all_iff same_side_tables_def)
  ultimately show ?thesis
    using side g b effects.grows_refl wakes.grows_refl checkpoints.grows_refl
    by (simp add: kernel_step_def kernel_inv_def same_side_tables_def)
qed

lemma kernel_inv_row: "kernel_inv d \<Longrightarrow> find_task tid d = Some r \<Longrightarrow> row_inv r"
  by (auto simp: kernel_inv_def list_all_iff dest: find_task_SomeD)

lemma lifecycle_row_inv: "lifecycle_step r r' \<Longrightarrow> row_inv r \<Longrightarrow> row_inv r'"
  using lifecycle_within_budget [of r r'] by (auto simp: row_inv_def lifecycle_step_def)

lemma kernel_step_lifecycle:
  assumes "lifecycle_write tid res d d'" and "kernel_inv d"
  shows "kernel_step d d'"
proof -
  from assms(1) obtain r r' where w: "task_write tid r r' d d'" and s: "lifecycle_step r r'"
    by (auto simp: lifecycle_write_def)
  from w have "find_task tid d = Some r" by (simp add: task_write_def)
  with assms(2) have "row_inv r" by (rule kernel_inv_row)
  with s have "row_inv r'" by (rule lifecycle_row_inv)
  with w assms(2) lifecycle_evolves [OF s] show ?thesis by (rule kernel_step_task_write)
qed

text \<open>An update of bookkeeping columns.\<close>

lemma kernel_step_bump:
  assumes inv: "kernel_inv d" and ok: "db_ok (bump_task tid f d)"
    and f: "\<And>r. r \<in> set (db_tasks d) \<Longrightarrow> t_id r = tid \<Longrightarrow> observation_step r (f r) \<and> row_inv (f r)"
  shows "kernel_step d (bump_task tid f d)"
proof -
  have rows: "db_tasks (bump_task tid f d) = map (\<lambda>r. if t_id r = tid then f r else r) (db_tasks d)"
    by (simp add: bump_task_def update_by_def)
  have g: "grows t_id evolves (db_tasks d) (db_tasks (bump_task tid f d))"
    unfolding rows using f by (intro tasks.grows_map) (auto intro: observation_evolves)
  have "map t_id (db_tasks (bump_task tid f d)) = map t_id (db_tasks d)"
    unfolding rows using f observation_facts(2) by (auto simp: same_identity_def)
  then have b: "born (db_tasks d) (db_tasks (bump_task tid f d))" by (rule born_same_ids)
  have "list_all row_inv (db_tasks (bump_task tid f d))"
    using inv f by (auto simp: kernel_inv_def rows list_all_iff)
  moreover have "list_all (event_known (bump_task tid f d)) (db_wakes d)"
    using inv event_known_mono [OF g] by (auto simp: kernel_inv_def list_all_iff)
  ultimately show ?thesis
    using ok g b effects.grows_refl wakes.grows_refl checkpoints.grows_refl
    by (simp add: kernel_step_def kernel_inv_def)
qed

text \<open>A change that leaves the tasks alone.\<close>

lemma kernel_step_side:
  assumes "kernel_inv d" and "db_ok d'" and "log_extends d d'" and "db_tasks d' = db_tasks d"
    and "grows effect_key effect_evolves (db_effects d) (db_effects d')"
    and "grows w_id wake_evolves (db_wakes d) (db_wakes d')"
    and "grows k_operation_id checkpoint_evolves (db_checkpoints d) (db_checkpoints d')"
    and "\<And>w. w \<in> set (db_wakes d') \<Longrightarrow> event_known d w"
  shows "kernel_step d d'"
  using assms tasks.grows_refl [of "db_tasks d"]
  by (auto simp: kernel_step_def kernel_inv_def list_all_iff event_known_def find_task_def)

lemma kernel_step_effects:
  assumes "kernel_inv d" and "db_ok d'" and "log_extends d d'" and "db_tasks d' = db_tasks d"
    and "db_wakes d' = db_wakes d" and "db_checkpoints d' = db_checkpoints d"
    and "grows effect_key effect_evolves (db_effects d) (db_effects d')"
  shows "kernel_step d d'"
  by (rule kernel_step_side)
     (use assms wakes.grows_refl checkpoints.grows_refl in \<open>auto simp: kernel_inv_def list_all_iff\<close>)

lemma kernel_step_change_effect:
  assumes chg: "change_effect tid ep cause now G f d = (hit, d')" and inv: "kernel_inv d"
    and f: "\<And>r. G r \<Longrightarrow> effect_evolves r (f r)" "\<And>r. effect_key (f r) = effect_key r"
  shows "kernel_step d d'"
proof (rule kernel_step_effects [OF inv])
  show "grows effect_key effect_evolves (db_effects d) (db_effects d')"
    unfolding change_effect_frame(6) [OF chg] by (rule effects.grows_update) (use f in auto)
qed (use change_effect_ok [OF chg kernel_inv_ok [OF inv] f(2)] change_effect_log [OF chg]
      change_effect_frame [OF chg] in auto)

lemma kernel_step_insert_effect:
  assumes "insert_effect row cause now d = Inr d'" and inv: "kernel_inv d"
  shows "kernel_step d d'"
  by (rule kernel_step_effects [OF inv])
     (use insert_effect_ok [OF assms(1) kernel_inv_ok [OF inv]] insert_effect_log [OF assms(1)]
        insert_effect_frame [OF assms(1)] effects.grows_append in auto)

lemma kernel_step_change_wake:
  assumes chg: "change_wake wid cause now G f d = (hit, d')" and inv: "kernel_inv d"
    and f: "\<And>w. w \<in> set (db_wakes d) \<Longrightarrow> w_id w = wid \<Longrightarrow> G w \<Longrightarrow> live_wake w" "\<And>w. w_id (f w) = w_id w" "\<And>w. w_parent (f w) = w_parent w"
      "\<And>w. w_predicate (f w) = w_predicate w" "\<And>w. w_dedupe_key (f w) = w_dedupe_key w"
      "\<And>w. w_event_seq (f w) = w_event_seq w" "\<And>w. w_payload w \<noteq> None \<Longrightarrow> w_payload (f w) = w_payload w"
  shows "kernel_step d d'"
proof (rule kernel_step_side [OF inv change_wake_ok [OF chg kernel_inv_ok [OF inv]] change_wake_log [OF chg] change_wake_frame(1) [OF chg]])
  show "grows w_id wake_evolves (db_wakes d) (db_wakes d')"
    unfolding change_wake_frame(6) [OF chg]
    by (rule wakes.grows_update) (use f in \<open>auto simp: wake_evolves_def\<close>)
  fix w
  assume "w \<in> set (db_wakes d')"
  then show "event_known d w"
    unfolding change_wake_frame(6) [OF chg] using inv f(3,6)
    by (auto simp: kernel_inv_def list_all_iff event_known_def dest!: set_update_byD)
qed (use f change_wake_frame [OF chg] effects.grows_refl checkpoints.grows_refl in auto)

lemma kernel_step_insert_wake:
  assumes ins: "insert_wake row cause now d = (hit, d')" and inv: "kernel_inv d" and row: "event_known d row"
  shows "kernel_step d d'"
proof (rule kernel_step_side [OF inv insert_wake_ok [OF ins kernel_inv_ok [OF inv]] insert_wake_log [OF ins]
      insert_wake_frame(1) [OF ins]])
  show "grows w_id wake_evolves (db_wakes d) (db_wakes d')"
    unfolding insert_wake_frame(6) [OF ins] by (auto intro: wakes.grows_append wakes.grows_refl)
  show "\<And>w. w \<in> set (db_wakes d') \<Longrightarrow> event_known d w"
    unfolding insert_wake_frame(6) [OF ins] using inv row
    by (auto simp: kernel_inv_def list_all_iff split: if_splits)
qed (use insert_wake_frame [OF ins] effects.grows_refl checkpoints.grows_refl in auto)

lemma kernel_inv_empty: "kernel_inv empty_db"
  using db_ok_empty by (simp add: kernel_inv_def) (simp add: empty_db_def)

subsection \<open>The store's operations are kernel steps\<close>

lemma reserve_all_step:
  assumes run: "reserve_all uuid5 sc parent specs m now d = Inr (rs, d')" and inv: "kernel_inv d"
  shows "kernel_step d d'"
proof (cases "specs = []")
  case True
  with run inv show ?thesis by (simp add: reserve_all_def kernel_step_refl)
next
  case False
  from run False obtain keys where k: "spec_keys specs = Inr keys" "distinct keys"
    "reserve_rows uuid5 sc parent m now specs d = Inr (rs, d')" by (rule reserve_allE)
  from reserve_rows_appends [OF k(3) kernel_inv_ok [OF inv] k(1,2)] obtain news where
    ok: "db_ok d'" "same_side_tables d d'" "log_extends d d'" and rows: "db_tasks d' = db_tasks d @ news"
    and news: "list_all (reserved_row sc parent) news" by blast
  have row: "fresh_task r \<and> row_inv r" if "r \<in> set news" for r
  proof -
    from db_ok_tasks [OF ok(1)] that have "task_row_ok r" by (auto simp: rows intro: task_table_row)
    moreover have "reserved_row sc parent r" using news that by (simp add: list_all_iff)
    ultimately show ?thesis
      by (auto simp: fresh_task_def reserved_row_def task_row_ok_def row_inv_def within_budget_def)
  qed
  have g: "grows t_id evolves (db_tasks d) (db_tasks d')" unfolding rows by (rule tasks.grows_append)
  have "born (db_tasks d) (db_tasks d')"
    unfolding born_def rows
  proof (intro allI impI)
    fix k r'
    assume "lookup_by t_id k (db_tasks d) = None" and "lookup_by t_id k (db_tasks d @ news) = Some r'"
    then have "r' \<in> set news" by (auto simp: lookup_by_append dest: lookup_by_SomeD)
    with row show "\<exists>r0. fresh_task r0 \<and> evolves r0 r'" using evolves_refl by blast
  qed
  moreover have "list_all row_inv (db_tasks d')"
    using inv row by (auto simp: rows kernel_inv_def list_all_iff)
  moreover have "list_all (event_known d') (db_wakes d')"
    using inv ok(2) event_known_mono [OF g] by (auto simp: kernel_inv_def list_all_iff same_side_tables_def)
  ultimately show ?thesis
    using ok g effects.grows_refl wakes.grows_refl checkpoints.grows_refl
    by (simp add: kernel_step_def kernel_inv_def same_side_tables_def)
qed

lemma apply_liveness_row_inv: "row_inv r \<Longrightarrow> row_inv (apply_liveness l ev moment r)"
  by (auto simp: row_inv_def within_budget_def apply_liveness_def Let_def)

lemma record_liveness_step:
  assumes run: "record_liveness tid name ev moment d = Inr (res, d')" and inv: "kernel_inv d"
  shows "kernel_step d d'"
  using run kernel_inv_ok [OF inv]
proof (cases rule: record_liveness_cases)
  case terminal
  with inv show ?thesis by (simp add: kernel_step_refl)
next
  case (observed r l)
  show ?thesis
    by (rule kernel_step_task_write [OF observed(4) inv observation_evolves [OF apply_liveness_observes]])
       (rule apply_liveness_row_inv [OF kernel_inv_row [OF inv observed(2)]])
qed

lemma record_over_budget_step:
  assumes run: "record_over_budget tid now d = Inr (hit, d')" and inv: "kernel_inv d"
  shows "kernel_step d d'"
  using run kernel_inv_ok [OF inv]
proof (cases rule: record_over_budget_cases)
  case kept
  with inv show ?thesis by (simp add: kernel_step_refl)
next
  case (latched r)
  have "observation_step r (r\<lparr>t_over_budget := True\<rparr>)" by (simp add: observation_step_def)
  moreover have "row_inv (r\<lparr>t_over_budget := True\<rparr>)"
    using kernel_inv_row [OF inv latched(2)] by (simp add: row_inv_def within_budget_def)
  ultimately show ?thesis by (intro kernel_step_task_write [OF latched(5) inv]) (rule observation_evolves)
qed

lemmas lifecycle_steps = kernel_step_lifecycle [OF activate_lifecycle]
  kernel_step_lifecycle [OF checkpoint_lifecycle] kernel_step_lifecycle [OF prepare_replacement_lifecycle]
  kernel_step_lifecycle [OF finish_lifecycle]

subsection \<open>Concrete states\<close>

lemma kernel_inv_seed:
  assumes "task_table_ok rows" and "list_all row_inv rows"
  shows "kernel_inv (seed rows)"
  using assms by (simp add: kernel_inv_def seed_tasks)

lemma sample_row_inv: "0 \<le> a \<Longrightarrow> a < l \<Longrightarrow> row_inv (sample_row tid st a l)"
  by (auto simp: row_inv_def within_budget_def) (simp_all add: sample_row_def new_task_row_def)

lemma sample_kernel_inv: "0 \<le> a \<Longrightarrow> a < l \<Longrightarrow> kernel_inv (seed [sample_row tid st a l])"
  by (rule kernel_inv_seed) (auto simp: sample_row_inv task_table_ok_def task_row_ok_def unique_where_def)

end
