(* ===== verification/TaskCleanup.thy ===== *)
theory TaskCleanup
  imports Evolution
begin

text \<open>
  Durable cleanup of native work (\<open>task_store.py\<close>): the intents that fence every live command
  of a session before its task turns terminal, and the outgoing commands whose admission is
  persisted before the HTTP request that sends them.
\<close>

subsection \<open>Cleanup intents\<close>

text \<open>A native command as the executor lists it.\<close>

record native_command =
  n_state :: string
  n_id :: string
  n_process :: "string option"

definition finished_command :: "native_command \<Rightarrow> bool" where
  "finished_command c \<longleftrightarrow> n_state c \<in> {''done'', ''failed'', ''cancelled'', ''completed'', ''killed''}"

fun intents_for :: "native_command list \<Rightarrow> (cleanup_kind \<times> string) list" where
  "intents_for [] = []"
| "intents_for (c # cs) =
     (if finished_command c then intents_for cs
      else (CommandCancel, n_id c)
           # (if truthy (n_process c) then [(ExecutionStop, the (n_process c))] else [])
           @ intents_for cs)"

definition intent_row :: "string \<Rightarrow> int \<Rightarrow> string \<Rightarrow> real \<Rightarrow> cleanup_kind \<Rightarrow> string \<Rightarrow> cleanup_row" where
  "intent_row tid ep session now kind native =
     \<lparr>c_task_id = tid, c_epoch = ep, c_kind = kind, c_native_id = native, c_session_id = session,
      c_state = CPending, c_created_at = now, c_updated_at = now\<rparr>"

definition record_cleanup_intents ::
  "string \<Rightarrow> int \<Rightarrow> string \<Rightarrow> native_command list \<Rightarrow> real \<Rightarrow> db \<Rightarrow> db" where
  "record_cleanup_intents tid ep session cmds now d =
     foldl (\<lambda>d (kind, native). insert_cleanup (intent_row tid ep session now kind native) ''fenced'' now d)
       d (intents_for cmds)"

definition pending_cleanup_intents :: "db \<Rightarrow> cleanup_row list" where
  "pending_cleanup_intents d =
     sort_key c_created_at (filter (\<lambda>c. c_state c = CPending) (db_cleanups d))"

subsection \<open>Outgoing commands\<close>

definition begin_outgoing_command :: "string \<Rightarrow> int \<Rightarrow> string \<Rightarrow> string \<Rightarrow> real \<Rightarrow> db \<Rightarrow> db" where
  "begin_outgoing_command tid ep session key now d =
     insert_outgoing
       \<lparr>o_task_id = tid, o_epoch = ep, o_dedupe_key = key, o_session_id = session, o_native_id = None,
        o_state = OSending, o_created_at = now, o_updated_at = now\<rparr> ''sending'' now d"

definition settle_outgoing_command ::
  "string \<Rightarrow> int \<Rightarrow> string \<Rightarrow> string option \<Rightarrow> bool \<Rightarrow> real \<Rightarrow> db \<Rightarrow> kerror + db" where
  "settle_outgoing_command tid ep key native terminal now d =
     (case find_outgoing (tid, ep, key) d of
        None \<Rightarrow> Inl OutgoingNotPrepared
      | Some before \<Rightarrow>
          let d1 = change_outgoing (tid, ep, key) (if terminal then ''cleanup'' else ''settled'') now (\<lambda>_. True)
                     (\<lambda>o'. o'\<lparr>o_native_id := (case native of None \<Rightarrow> o_native_id o' | Some n \<Rightarrow> Some n),
                             o_state := (if terminal then OCleanup else OSettled), o_updated_at := now\<rparr>) d
          in Inr (if terminal \<and> truthy native
                  then insert_cleanup (intent_row tid ep (o_session_id before) now CommandCancel (the native))
                         ''terminal-send'' now d1
                  else d1))"

definition terminal_outgoing_commands :: "string \<Rightarrow> int \<Rightarrow> db \<Rightarrow> outgoing_row list" where
  "terminal_outgoing_commands tid ep d =
     sort_key o_created_at
       (filter (\<lambda>o'. o_task_id o' = tid \<and> o_epoch o' = ep \<and> o_state o' \<in> {OSending, OCleanup}) (db_outgoing d))"

definition terminal_states :: "task_state set" where
  "terminal_states = {Completed, Cancelled, Lost, Exhausted}"

definition unresolved_terminal_outgoing_commands :: "db \<Rightarrow> outgoing_row list" where
  "unresolved_terminal_outgoing_commands d =
     sort_key o_created_at
       (filter (\<lambda>o'. list_ex (\<lambda>t. t_id t = o_task_id o' \<and> t_epoch t = o_epoch o'
                                  \<and> t_state t \<in> terminal_states) (db_tasks d)
                    \<and> o_native_id o' = None \<and> o_state o' \<in> {OSending, OCleanup}) (db_outgoing d))"

text \<open>
  \<open>acknowledge_cleanup_intent\<close>: the intent, and with a cancelled command every outgoing send
  that produced it.
\<close>

definition acknowledge_cleanup_intent ::
  "string \<Rightarrow> int \<Rightarrow> cleanup_kind \<Rightarrow> string \<Rightarrow> real \<Rightarrow> db \<Rightarrow> db" where
  "acknowledge_cleanup_intent tid ep kind native now d =
     (let d1 = change_cleanup (tid, ep, kind, native) ''acknowledged'' now (\<lambda>c. c_state c = CPending)
                 (\<lambda>c. c\<lparr>c_state := CAcknowledged, c_updated_at := now\<rparr>) d
      in if kind \<noteq> CommandCancel then d1
         else foldl (\<lambda>d o'. change_outgoing (tid, ep, o_dedupe_key o') ''acknowledged'' now
                              (\<lambda>q. o_state q = OCleanup)
                              (\<lambda>q. q\<lparr>o_state := OAcknowledged, o_updated_at := now\<rparr>) d)
                d1 (filter (\<lambda>o'. o_task_id o' = tid \<and> o_epoch o' = ep \<and> o_native_id o' = Some native
                                 \<and> o_state o' = OCleanup) (db_outgoing d1)))"

subsection \<open>Every operation keeps the database well-formed\<close>

lemma foldl_invariant: "I s \<Longrightarrow> (\<And>s x. x \<in> set xs \<Longrightarrow> I s \<Longrightarrow> I (f s x)) \<Longrightarrow> I (foldl f s xs)"
  by (induction xs arbitrary: s) auto

lemma record_cleanup_intents_ok:
  assumes "db_ok d"
  shows "db_ok (record_cleanup_intents tid ep session cmds now d)
    \<and> db_tasks (record_cleanup_intents tid ep session cmds now d) = db_tasks d
    \<and> log_extends d (record_cleanup_intents tid ep session cmds now d)"
  unfolding record_cleanup_intents_def
  by (rule foldl_invariant [where I = "\<lambda>s. db_ok s \<and> db_tasks s = db_tasks d \<and> log_extends d s"])
     (use assms in \<open>auto intro: insert_cleanup_ok log_extends_trans [OF _ cleanup_log_extends(1)] split: prod.splits\<close>)

lemma begin_outgoing_ok: "db_ok d \<Longrightarrow> db_ok (begin_outgoing_command tid ep session key now d)"
  by (simp add: begin_outgoing_command_def insert_outgoing_ok)

lemma settle_outgoing_ok:
  assumes "settle_outgoing_command tid ep key native terminal now d = Inr d'" and "db_ok d"
  shows "db_ok d' \<and> db_tasks d' = db_tasks d \<and> log_extends d d'"
  using assms
  by (auto simp: settle_outgoing_command_def Let_def outgoing_key_def split: option.splits if_splits
      intro!: insert_cleanup_ok change_outgoing_ok
      intro: log_extends_trans [OF outgoing_log_extends(2) cleanup_log_extends(1)])

lemma acknowledge_cleanup_ok:
  assumes "db_ok d"
  shows "db_ok (acknowledge_cleanup_intent tid ep kind native now d)
    \<and> db_tasks (acknowledge_cleanup_intent tid ep kind native now d) = db_tasks d
    \<and> log_extends d (acknowledge_cleanup_intent tid ep kind native now d)"
proof -
  let ?d1 = "change_cleanup (tid, ep, kind, native) ''acknowledged'' now (\<lambda>c. c_state c = CPending)
                 (\<lambda>c. c\<lparr>c_state := CAcknowledged, c_updated_at := now\<rparr>) d"
  have "db_ok ?d1" by (rule change_cleanup_ok [OF assms]) (simp add: cleanup_key_def)
  then show ?thesis
    unfolding acknowledge_cleanup_intent_def Let_def
    by (auto intro!: foldl_invariant [where I = "\<lambda>s. db_ok s \<and> db_tasks s = db_tasks d \<and> log_extends d s"]
        change_outgoing_ok intro: log_extends_trans [OF _ outgoing_log_extends(2)] simp: outgoing_key_def)
qed

subsection \<open>Every operation is a kernel step\<close>

lemma kernel_step_plain:
  assumes "kernel_inv d" and "db_ok d'" and "log_extends d d'" and "db_tasks d' = db_tasks d"
    and "db_effects d' = db_effects d" and "db_wakes d' = db_wakes d" and "db_checkpoints d' = db_checkpoints d"
  shows "kernel_step d d'"
  by (rule kernel_step_effects [OF assms(1-4,6,7)]) (simp add: assms(5) effects.grows_refl)

lemma side_frames [simp]:
  "db_checkpoints (insert_cleanup row cause now d) = db_checkpoints d"
  "db_checkpoints (change_cleanup k cause now CG cf d) = db_checkpoints d"
  "db_checkpoints (insert_outgoing orow cause now d) = db_checkpoints d"
  "db_checkpoints (change_outgoing ok' cause now OG og d) = db_checkpoints d"
  by (simp_all add: insert_cleanup_def change_cleanup_def log_cleanup_def insert_outgoing_def change_outgoing_def
      log_outgoing_def Let_def)

lemma kernel_step_insert_cleanup: "kernel_inv d \<Longrightarrow> kernel_step d (insert_cleanup row cause now d)"
  by (rule kernel_step_plain) (simp_all add: insert_cleanup_ok kernel_inv_ok)

lemma kernel_step_change_cleanup:
  "kernel_inv d \<Longrightarrow> (\<And>r. cleanup_key (f r) = cleanup_key r) \<Longrightarrow> kernel_step d (change_cleanup k cause now G f d)"
  by (rule kernel_step_plain) (simp_all add: change_cleanup_ok kernel_inv_ok)

lemma kernel_step_insert_outgoing: "kernel_inv d \<Longrightarrow> kernel_step d (insert_outgoing row cause now d)"
  by (rule kernel_step_plain) (simp_all add: insert_outgoing_ok kernel_inv_ok)

lemma kernel_step_change_outgoing:
  "kernel_inv d \<Longrightarrow> (\<And>r. outgoing_key (f r) = outgoing_key r) \<Longrightarrow> kernel_step d (change_outgoing k cause now G f d)"
  by (rule kernel_step_plain) (simp_all add: change_outgoing_ok kernel_inv_ok)

lemma kernel_step_foldl:
  assumes "kernel_inv d" and "\<And>s x. kernel_inv s \<Longrightarrow> kernel_step s (f s x)"
  shows "kernel_step d (foldl f d xs)"
  by (rule foldl_invariant [where I = "kernel_step d"])
     (use assms kernel_step_refl kernel_step_trans kernel_step_inv in blast)+

lemma record_cleanup_intents_step:
  "kernel_inv d \<Longrightarrow> kernel_step d (record_cleanup_intents tid ep session cmds now d)"
  unfolding record_cleanup_intents_def
  by (rule kernel_step_foldl) (auto intro: kernel_step_insert_cleanup split: prod.splits)

lemma begin_outgoing_step: "kernel_inv d \<Longrightarrow> kernel_step d (begin_outgoing_command tid ep session key now d)"
  by (simp add: begin_outgoing_command_def kernel_step_insert_outgoing)

lemma settle_outgoing_step:
  assumes "settle_outgoing_command tid ep key native terminal now d = Inr d'" and inv: "kernel_inv d"
  shows "kernel_step d d'"
proof -
  let ?d1 = "change_outgoing (tid, ep, key) (if terminal then ''cleanup'' else ''settled'') now (\<lambda>_. True)
                     (\<lambda>o'. o'\<lparr>o_native_id := (case native of None \<Rightarrow> o_native_id o' | Some n \<Rightarrow> Some n),
                             o_state := (if terminal then OCleanup else OSettled), o_updated_at := now\<rparr>) d"
  have s: "kernel_step d ?d1" by (rule kernel_step_change_outgoing [OF inv]) (simp add: outgoing_key_def)
  with assms(1) kernel_step_insert_cleanup [OF kernel_step_inv [OF s]] show ?thesis
    by (auto simp: settle_outgoing_command_def Let_def intro: kernel_step_trans split: option.splits if_splits)
qed

lemma acknowledge_cleanup_step: "kernel_inv d \<Longrightarrow> kernel_step d (acknowledge_cleanup_intent tid ep kind native now d)"
proof -
  assume inv: "kernel_inv d"
  let ?d1 = "change_cleanup (tid, ep, kind, native) ''acknowledged'' now (\<lambda>c. c_state c = CPending)
                 (\<lambda>c. c\<lparr>c_state := CAcknowledged, c_updated_at := now\<rparr>) d"
  have s: "kernel_step d ?d1" by (rule kernel_step_change_cleanup [OF inv]) (simp add: cleanup_key_def)
  have "kernel_step ?d1 (foldl (\<lambda>d o'. change_outgoing (tid, ep, o_dedupe_key o') ''acknowledged'' now
          (\<lambda>q. o_state q = OCleanup) (\<lambda>q. q\<lparr>o_state := OAcknowledged, o_updated_at := now\<rparr>) d) ?d1 xs)" for xs
    by (rule kernel_step_foldl [OF kernel_step_inv [OF s]]) (simp add: kernel_step_change_outgoing outgoing_key_def)
  with s show ?thesis
    by (auto simp: acknowledge_cleanup_intent_def Let_def intro: kernel_step_trans)
qed

subsection \<open>Properties\<close>

lemma insert_cleanup_rows:
  "db_cleanups (insert_cleanup row cause now d)
   = (if cleanup_key row \<in> cleanup_key ` set (db_cleanups d) then db_cleanups d else db_cleanups d @ [row])"
  by (simp add: insert_cleanup_def log_cleanup_def)

lemma insert_cleanup_present:
  "cleanup_key row \<in> cleanup_key ` set (db_cleanups d) \<Longrightarrow> insert_cleanup row cause now d = d"
  by (simp add: insert_cleanup_def log_cleanup_def)

lemma change_cleanup_rows:
  "db_cleanups (change_cleanup k cause now G f d) = update_by cleanup_key k G f (db_cleanups d)"
  by (simp add: change_cleanup_def log_cleanup_def)

lemma change_outgoing_rows:
  "db_outgoing (change_outgoing k cause now G f d) = update_by outgoing_key k G f (db_outgoing d)"
  by (simp add: change_outgoing_def log_outgoing_def)

lemma intent_row_key [simp]: "cleanup_key (intent_row tid ep session now kind native) = (tid, ep, kind, native)"
  by (simp add: intent_row_def cleanup_key_def)

lemma intents_for_live:
  "c \<in> set cmds \<Longrightarrow> \<not> finished_command c \<Longrightarrow> (CommandCancel, n_id c) \<in> set (intents_for cmds)
     \<and> (truthy (n_process c) \<longrightarrow> (ExecutionStop, the (n_process c)) \<in> set (intents_for cmds))"
  by (induction cmds) auto

definition fenced_keys :: "db \<Rightarrow> (string \<times> int \<times> cleanup_kind \<times> string) set" where
  "fenced_keys d = cleanup_key ` set (db_cleanups d)"

lemma insert_cleanup_fenced [simp]:
  "fenced_keys (insert_cleanup row cause now d) = insert (cleanup_key row) (fenced_keys d)"
  by (auto simp: fenced_keys_def insert_cleanup_rows)

lemma record_intents_fenced:
  "fenced_keys (record_cleanup_intents tid ep session cmds now d)
   = fenced_keys d \<union> {(tid, ep, kind, native) |kind native. (kind, native) \<in> set (intents_for cmds)}"
proof -
  have "fenced_keys (foldl (\<lambda>d (kind, native). insert_cleanup (intent_row tid ep session now kind native)
            ''fenced'' now d) d xs) = fenced_keys d \<union> {(tid, ep, kind, native) |kind native. (kind, native) \<in> set xs}"
    for xs
    by (induction xs arbitrary: d) (auto split: prod.splits)
  then show ?thesis by (simp add: record_cleanup_intents_def)
qed

lemma record_intents_present:
  assumes "\<And>kind native. (kind, native) \<in> set (intents_for cmds) \<Longrightarrow> (tid, ep, kind, native) \<in> fenced_keys d"
  shows "record_cleanup_intents tid ep session cmds now d = d"
proof -
  have "(\<And>kind native. (kind, native) \<in> set xs \<Longrightarrow> (tid, ep, kind, native) \<in> fenced_keys d) \<Longrightarrow>
        foldl (\<lambda>d (kind, native). insert_cleanup (intent_row tid ep session now kind native) ''fenced'' now d)
          d xs = d" for xs
    by (induction xs) (auto simp: insert_cleanup_present fenced_keys_def split: prod.splits)
  with assms show ?thesis by (simp add: record_cleanup_intents_def)
qed

text \<open>
  No live native command outlives its task unfenced.  After the intents of a session are
  recorded, every command the executor still runs has a cancel intent, and its execution
  process, if it has one, a stop intent; and recording again (a retry, or a reconciler after a
  restart, with the same or an older list) changes nothing, so an acknowledged
  intent never becomes pending again.
\<close>

theorem live_commands_fenced:
  assumes "d' = record_cleanup_intents tid ep session cmds now d"
    and "c \<in> set cmds" and "\<not> finished_command c"
  shows "(tid, ep, CommandCancel, n_id c) \<in> fenced_keys d'
    \<and> (\<forall>p. n_process c = Some p \<longrightarrow> p \<noteq> '''' \<longrightarrow> (tid, ep, ExecutionStop, p) \<in> fenced_keys d')
    \<and> (\<forall>older now'. set older \<subseteq> set cmds \<longrightarrow> record_cleanup_intents tid ep session' older now' d' = d')"
proof (intro conjI allI impI)
  show "(tid, ep, CommandCancel, n_id c) \<in> fenced_keys d'"
    using intents_for_live [OF assms(2,3)] by (auto simp: assms(1) record_intents_fenced)
  show "(tid, ep, ExecutionStop, p) \<in> fenced_keys d'" if "n_process c = Some p" "p \<noteq> ''''" for p
    using intents_for_live [OF assms(2,3)] that by (auto simp: assms(1) record_intents_fenced truthy_def)
  have sub: "set (intents_for older) \<subseteq> set (intents_for cmds)" if "set older \<subseteq> set cmds" for older
    using that intents_for_live by (induction older) (auto split: if_splits)
  show "record_cleanup_intents tid ep session' older now' d' = d'" if "set older \<subseteq> set cmds" for older now'
    by (rule record_intents_present) (use sub [OF that] in \<open>auto simp: assms(1) record_intents_fenced\<close>)
qed

theorem live_commands_fenced_witness:
  "(''a'', 1, CommandCancel, ''n1'')
     \<in> fenced_keys (record_cleanup_intents ''a'' 1 ''s'' [\<lparr>n_state = ''running'', n_id = ''n1'', n_process = None\<rparr>] 5 empty_db)"
  using live_commands_fenced [OF refl, of "\<lparr>n_state = ''running'', n_id = ''n1'', n_process = None\<rparr>"
      "[\<lparr>n_state = ''running'', n_id = ''n1'', n_process = None\<rparr>]" "''a''" 1 "''s''" 5 empty_db]
  by (simp add: finished_command_def)

lemma acknowledge_outgoing_rows:
  assumes "distinct (map outgoing_key (db_outgoing d))"
  shows "db_outgoing (acknowledge_cleanup_intent tid ep CommandCancel native now d)
    = map (\<lambda>q. if o_task_id q = tid \<and> o_epoch q = ep \<and> o_native_id q = Some native \<and> o_state q = OCleanup
               then q\<lparr>o_state := OAcknowledged, o_updated_at := now\<rparr> else q) (db_outgoing d)"
proof -
  let ?ack = "\<lambda>q. q\<lparr>o_state := OAcknowledged, o_updated_at := now\<rparr>"
  let ?P = "\<lambda>q. o_task_id q = tid \<and> o_epoch q = ep \<and> o_native_id q = Some native \<and> o_state q = OCleanup"
  have fold: "db_outgoing (foldl (\<lambda>d o'. change_outgoing (tid, ep, o_dedupe_key o') ''acknowledged'' now
          (\<lambda>q. o_state q = OCleanup) ?ack d) d1 os)
      = map (\<lambda>q. if \<exists>o' \<in> set os. outgoing_key q = (tid, ep, o_dedupe_key o') \<and> o_state q = OCleanup then ?ack q else q)
          (db_outgoing d1)" for os d1
    by (induction os arbitrary: d1)
       (auto simp: change_outgoing_rows update_by_def outgoing_key_def intro!: map_cong)
  let ?d1 = "change_cleanup (tid, ep, CommandCancel, native) ''acknowledged'' now (\<lambda>c. c_state c = CPending)
                 (\<lambda>c. c\<lparr>c_state := CAcknowledged, c_updated_at := now\<rparr>) d"
  have "(\<exists>o' \<in> set (filter ?P (db_outgoing d)). outgoing_key q = (tid, ep, o_dedupe_key o') \<and> o_state q = OCleanup)
        \<longleftrightarrow> ?P q" if q: "q \<in> set (db_outgoing d)" for q
  proof
    assume "\<exists>o' \<in> set (filter ?P (db_outgoing d)). outgoing_key q = (tid, ep, o_dedupe_key o') \<and> o_state q = OCleanup"
    then obtain o' where o': "o' \<in> set (db_outgoing d)" "?P o'" "outgoing_key q = outgoing_key o'"
      by (auto simp: outgoing_key_def)
    with assms q have "q = o'" by (auto simp: distinct_map inj_on_def)
    with o' show "?P q" by simp
  next
    assume "?P q"
    with q show "\<exists>o' \<in> set (filter ?P (db_outgoing d)). outgoing_key q = (tid, ep, o_dedupe_key o') \<and> o_state q = OCleanup"
      by (auto simp: outgoing_key_def)
  qed
  then show ?thesis
    unfolding acknowledge_cleanup_intent_def Let_def
    by (auto simp: fold intro!: map_cong)
qed

text \<open>
  A send that raced with its task's end is cancelled and then forgotten.  Settling it as
  terminal with the native id the executor gave it leaves a cancel intent for exactly that
  native command, and once that intent is acknowledged the command is no longer among those a
  terminal task still has outstanding.
\<close>

theorem terminal_send_cancelled:
  assumes "db_ok d" and "settle_outgoing_command tid ep key (Some native) True now d = Inr d1"
    and "native \<noteq> ''''" and "d2 = acknowledge_cleanup_intent tid ep CommandCancel native now' d1"
  shows "(tid, ep, CommandCancel, native) \<in> fenced_keys d1
    \<and> key \<in> o_dedupe_key ` set (terminal_outgoing_commands tid ep d1)
    \<and> key \<notin> o_dedupe_key ` set (terminal_outgoing_commands tid ep d2)"
proof -
  let ?f = "\<lambda>o'. o'\<lparr>o_native_id := Some native, o_state := OCleanup, o_updated_at := now\<rparr>"
  from assms(2,3) obtain before where before: "find_outgoing (tid, ep, key) d = Some before"
    and d1: "d1 = insert_cleanup (intent_row tid ep (o_session_id before) now CommandCancel native) ''terminal-send'' now
        (change_outgoing (tid, ep, key) ''cleanup'' now (\<lambda>_. True) ?f d)"
    by (auto simp: settle_outgoing_command_def truthy_def Let_def split: option.splits)
  have rows: "db_outgoing d1 = update_by outgoing_key (tid, ep, key) (\<lambda>_. True) ?f (db_outgoing d)"
    by (simp add: d1 change_outgoing_rows)
  from before have b: "before \<in> set (db_outgoing d)" "outgoing_key before = (tid, ep, key)"
    unfolding find_outgoing_def by (auto dest: lookup_by_SomeD)
  have intent: "(tid, ep, CommandCancel, native) \<in> fenced_keys d1" by (simp add: d1)
  have "?f before \<in> set (db_outgoing d1)" using b by (auto simp: rows update_by_def)
  then have listed: "key \<in> o_dedupe_key ` set (terminal_outgoing_commands tid ep d1)"
    using b(2) unfolding terminal_outgoing_commands_def
    by (intro image_eqI [of _ _ "?f before"]) (auto simp: outgoing_key_def)
  have "db_ok d1" using settle_outgoing_ok [OF assms(2,1)] by simp
  note ack = acknowledge_outgoing_rows [OF db_ok_outgoing_keys [OF this], of tid ep native now']
  have "key \<notin> o_dedupe_key ` set (terminal_outgoing_commands tid ep d2)"
  proof
    assume "key \<in> o_dedupe_key ` set (terminal_outgoing_commands tid ep d2)"
    then obtain q where q: "q \<in> set (db_outgoing d2)" "outgoing_key q = (tid, ep, key)"
      "o_state q \<noteq> OAcknowledged"
      by (auto simp: terminal_outgoing_commands_def outgoing_key_def)
    from q(1) obtain p where p: "p \<in> set (db_outgoing d1)"
      "q = (if o_task_id p = tid \<and> o_epoch p = ep \<and> o_native_id p = Some native \<and> o_state p = OCleanup
            then p\<lparr>o_state := OAcknowledged, o_updated_at := now'\<rparr> else p)"
      unfolding assms(4) ack by auto
    have "q = p \<and> (o_native_id p \<noteq> Some native \<or> o_state p \<noteq> OCleanup)"
    proof (cases "o_task_id p = tid \<and> o_epoch p = ep \<and> o_native_id p = Some native \<and> o_state p = OCleanup")
      case True
      with p(2) have "o_state q = OAcknowledged" by simp
      with q(3) show ?thesis by simp
    next
      case False
      with p(2) q(2) show ?thesis by (simp only: if_False) (auto simp: outgoing_key_def)
    qed
    with q(2) set_update_byD [OF p(1) [unfolded rows]] show False by auto
  qed
  with intent listed show ?thesis by blast
qed

theorem terminal_send_cancelled_witness:
  "\<exists>d1. settle_outgoing_command ''a'' 1 ''k'' (Some ''n'') True 6
            (begin_outgoing_command ''a'' 1 ''s'' ''k'' 5 empty_db) = Inr d1
      \<and> (''a'', 1, CommandCancel, ''n'') \<in> fenced_keys d1"
proof -
  have ok: "db_ok (begin_outgoing_command ''a'' 1 ''s'' ''k'' 5 empty_db)" by (simp add: begin_outgoing_ok db_ok_empty)
  obtain d1 where s: "settle_outgoing_command ''a'' 1 ''k'' (Some ''n'') True 6
            (begin_outgoing_command ''a'' 1 ''s'' ''k'' 5 empty_db) = Inr d1"
    by (simp add: settle_outgoing_command_def begin_outgoing_command_def insert_outgoing_def log_outgoing_def
        find_outgoing_def empty_db_def outgoing_key_def Let_def)
  from terminal_send_cancelled [OF ok s _ refl] s show ?thesis by auto
qed

end
