(* ===== verification/Effects.thy ===== *)
theory Effects
  imports Evolution
begin

text \<open>
  The effect journal (\<open>effects.py\<close>): one durable row per task and epoch, reserved before the
  native launch and only advanced afterwards.  What the executor answers is an argument of
  the operations that ask it, and so is what other processes do to the database while a
  fence is open for that question.
\<close>

subsection \<open>Reserving\<close>

definition reserve_effect ::
  "string \<Rightarrow> int \<Rightarrow> string \<Rightarrow> string \<Rightarrow> real \<Rightarrow> real \<Rightarrow> db \<Rightarrow> kerror + (effect \<times> bool) \<times> db" where
  "reserve_effect tid ep hash owner ttl now d =
     (case find_effect tid ep d of
        None \<Rightarrow>
          let row = \<lparr>e_task_id = tid, e_epoch = ep, e_request_hash = hash, e_state = EReserved,
                     e_workspace_id = None, e_session_id = None, e_outcome = None, e_owner = owner,
                     e_lease_expires_at = now + ttl, e_retry_at = None, e_created_at = now, e_updated_at = now\<rparr>
          in ebind (insert_effect row ''reserved'' now d) (\<lambda>d'. Inr ((decode_effect row, False), d'))
      | Some e \<Rightarrow>
          if e_state e = ETerminal then Inl (EffectIsTerminal tid ep (e_outcome e))
          else if e_state e = ELaunched then Inr ((decode_effect e, False), d)
          else if e_lease_expires_at e > now \<and> e_owner e \<noteq> owner then Inl (EffectIsBusy tid ep)
          else if e_lease_expires_at e > now \<and> e_request_hash e \<noteq> hash then Inl (EffectInConflict tid ep)
          else
            let renew = (\<lambda>r. r\<lparr>e_owner := owner, e_lease_expires_at := now + ttl, e_updated_at := now\<rparr>);
                (hit, d') = change_effect tid ep ''reservation-takeover'' now (\<lambda>_. True) renew d
            in Inr ((decode_effect (renew e), e_lease_expires_at e \<le> now), d'))"

subsection \<open>Advancing\<close>

text \<open>\<open>_advance\<close>: a guarded update that reports when the row is past the states it may move.\<close>

definition advance_effect ::
  "string \<Rightarrow> int \<Rightarrow> (effect_row \<Rightarrow> effect_row) \<Rightarrow> effect_state set \<Rightarrow> real \<Rightarrow> db \<Rightarrow> kerror + effect \<times> db" where
  "advance_effect tid ep assign expect now d =
     (let (hit, d') = change_effect tid ep ''effect-transition'' now (\<lambda>r. e_state r \<in> expect)
                        (\<lambda>r. (assign r)\<lparr>e_updated_at := now\<rparr>) d
      in if \<not> hit then Inl (EffectGone (map_option e_state (find_effect tid ep d')))
         else case find_effect tid ep d' of
                None \<Rightarrow> Inl (EffectMissing tid ep)
              | Some row \<Rightarrow> Inr (decode_effect row, d'))"

definition mark_launched :: "string \<Rightarrow> int \<Rightarrow> string \<Rightarrow> string \<Rightarrow> real \<Rightarrow> db \<Rightarrow> kerror + effect \<times> db" where
  "mark_launched tid ep workspace session =
     advance_effect tid ep
       (\<lambda>r. r\<lparr>e_state := ELaunched, e_workspace_id := Some workspace, e_session_id := Some session\<rparr>)
       {EReserved, ELaunched}"

definition mark_terminal :: "string \<Rightarrow> int \<Rightarrow> string \<Rightarrow> real option \<Rightarrow> real \<Rightarrow> db \<Rightarrow> kerror + effect \<times> db" where
  "mark_terminal tid ep outcome retry_at =
     advance_effect tid ep (\<lambda>r. r\<lparr>e_state := ETerminal, e_outcome := Some outcome, e_retry_at := retry_at\<rparr>)
       {EReserved, ELaunched}"

definition mark_refused :: "string \<Rightarrow> int \<Rightarrow> string \<Rightarrow> real option \<Rightarrow> real \<Rightarrow> db \<Rightarrow> kerror + effect \<times> db" where
  "mark_refused tid ep reason retry_after now =
     advance_effect tid ep
       (\<lambda>r. r\<lparr>e_outcome := Some (''refused:'' @ reason), e_retry_at := map_option (\<lambda>s. now + s) retry_after\<rparr>)
       {EReserved} now"

definition mark_superseded :: "string \<Rightarrow> int \<Rightarrow> string \<Rightarrow> real \<Rightarrow> db \<Rightarrow> kerror + effect \<times> db" where
  "mark_superseded tid ep workspace =
     advance_effect tid ep
       (\<lambda>r. r\<lparr>e_state := ETerminal, e_workspace_id := Some workspace, e_outcome := Some ''superseded''\<rparr>)
       {EReserved, ELaunched}"

text \<open>A row that is not terminal is left alone, and returned as it is.\<close>

definition mark_cleanup_workspace :: "string \<Rightarrow> int \<Rightarrow> string \<Rightarrow> real \<Rightarrow> db \<Rightarrow> kerror + effect \<times> db" where
  "mark_cleanup_workspace tid ep workspace now d =
     (let (hit, d') = change_effect tid ep ''cleanup-workspace'' now (\<lambda>r. e_state r = ETerminal)
            (\<lambda>r. r\<lparr>e_workspace_id := Some workspace, e_outcome := Some ''superseded'', e_updated_at := now\<rparr>) d
      in case find_effect tid ep d' of
           None \<Rightarrow> Inl (EffectMissing tid ep)
         | Some row \<Rightarrow> Inr (decode_effect row, d'))"

subsection \<open>Stopping the workspace of a terminal effect\<close>

text \<open>\<open>stops w\<close> says whether \<open>client.stop_workspace(w)\<close> returned.\<close>

definition stop_terminal :: "(string \<Rightarrow> bool) \<Rightarrow> effect \<Rightarrow> real \<Rightarrow> db \<Rightarrow> kerror + db" where
  "stop_terminal stops e now d =
     (if e_state e \<noteq> ETerminal \<or> \<not> truthy (e_workspace_id e) then Inr d
      else if \<not> stops (the (e_workspace_id e)) then Inl (ClientFailed ''stop_workspace'')
      else Inr (snd (change_effect (e_task_id e) (e_epoch e) ''cleanup-acknowledged'' now
                 (\<lambda>r. e_state r = ETerminal \<and> e_workspace_id r = e_workspace_id e)
                 (\<lambda>r. r\<lparr>e_workspace_id := None, e_updated_at := now\<rparr>) d)))"

definition stop_superseded :: "(string \<Rightarrow> bool) \<Rightarrow> effect \<Rightarrow> real \<Rightarrow> db \<Rightarrow> kerror + db" where
  "stop_superseded stops e now d =
     (if e_outcome e \<noteq> Some ''superseded'' \<or> \<not> truthy (e_workspace_id e) then Inr d
      else stop_terminal stops e now d)"

fun stop_each :: "(effect \<Rightarrow> real \<Rightarrow> db \<Rightarrow> kerror + db) \<Rightarrow> effect list \<Rightarrow> real \<Rightarrow> db \<Rightarrow> nat \<times> db" where
  "stop_each stop [] now d = (0, d)"
| "stop_each stop (e # es) now d =
     (case stop e now d of
        Inl _ \<Rightarrow> stop_each stop es now d
      | Inr d' \<Rightarrow> (let (n, d'') = stop_each stop es now d' in (Suc n, d'')))"

definition reconcile_terminal :: "(string \<Rightarrow> bool) option \<Rightarrow> real \<Rightarrow> db \<Rightarrow> nat \<times> db" where
  "reconcile_terminal client now d =
     (case client of
        None \<Rightarrow> (0, d)
      | Some stops \<Rightarrow>
          stop_each (stop_terminal stops)
            (map decode_effect (filter (\<lambda>e. e_state e = ETerminal \<and> e_workspace_id e \<noteq> None) (db_effects d))) now d)"

definition reconcile_superseded :: "(string \<Rightarrow> bool) option \<Rightarrow> real \<Rightarrow> db \<Rightarrow> nat \<times> db" where
  "reconcile_superseded client now d =
     (case client of
        None \<Rightarrow> (0, d)
      | Some stops \<Rightarrow>
          stop_each (stop_superseded stops)
            (map decode_effect (filter (\<lambda>e. e_state e = ETerminal \<and> e_outcome e = Some ''superseded''
                                          \<and> e_workspace_id e \<noteq> None) (db_effects d))) now d)"

subsection \<open>Reads\<close>

definition get_effect :: "string \<Rightarrow> int \<Rightarrow> db \<Rightarrow> effect option" where
  "get_effect tid ep d = map_option decode_effect (find_effect tid ep d)"

definition with_outcomes :: "string list \<Rightarrow> db \<Rightarrow> effect list" where
  "with_outcomes outcomes d =
     (if outcomes = [] then []
      else map decode_effect (sort_key e_updated_at
        (filter (\<lambda>e. list_ex (\<lambda>t. t_id t = e_task_id e \<and> t_epoch t = e_epoch e
                               \<and> t_state t \<in> {Active, Blocked} \<and> t_attempts t < t_max_attempts t) (db_tasks d)
                    \<and> e_state e = ETerminal \<and> (\<exists>out \<in> set outcomes. e_outcome e = Some out)) (db_effects d))))"

subsection \<open>Expiring reservations\<close>

text \<open>
  What \<open>client.managed_effect\<close> does: raise a \<open>CdesktopError\<close>, answer with a mapping (the
  three fields the journal reads), or answer something else.
\<close>

record cdesktop_error =
  ce_status :: "int option"
  ce_text :: string

record native_effect_row =
  nv_state :: "string option"
  nv_workspace :: "string option"
  nv_session :: "string option"

datatype effect_reply = ReplyError cdesktop_error | ReplyEffect native_effect_row | ReplyOther

definition is_effect_not_found :: "cdesktop_error \<Rightarrow> bool" where
  "is_effect_not_found e \<longleftrightarrow> ce_status e = Some 404 \<or> contains_text ''404'' (ce_text e)
     \<or> contains_text (lower ''Managed task effect not found'') (lower (ce_text e))"

text \<open>\<open>_native_effect\<close>: \<open>Inl\<close> is \<open>_UnknowableEffect\<close>.\<close>

definition native_effect :: "effect_reply option \<Rightarrow> string + native_effect_row option" where
  "native_effect reply =
     (case reply of
        None \<Rightarrow> Inr None
      | Some (ReplyError e) \<Rightarrow> if is_effect_not_found e then Inr None else Inl (ce_text e)
      | Some ReplyOther \<Rightarrow> Inr None
      | Some (ReplyEffect n) \<Rightarrow>
          if (case nv_state n of None \<Rightarrow> '''' | Some s \<Rightarrow> s) \<in> {'''', ''missing'', ''not_found'', ''lost''}
          then Inr None else Inr (Some n))"

definition retire_reservation :: "string \<Rightarrow> int \<Rightarrow> real \<Rightarrow> db \<Rightarrow> effect option \<times> db" where
  "retire_reservation tid ep moment d =
     (let (hit, d') = change_effect tid ep ''reservation-expired'' moment
            (\<lambda>r. e_state r = EReserved \<and> e_lease_expires_at r < moment)
            (\<lambda>r. r\<lparr>e_state := ETerminal, e_outcome := Some ''lost:reservation-expired'', e_updated_at := moment\<rparr>) d
      in (if hit then map_option decode_effect (find_effect tid ep d') else None, d'))"

definition retire_and_lose ::
  "ctx \<Rightarrow> fence \<Rightarrow> string \<Rightarrow> int \<Rightarrow> real \<Rightarrow> real \<Rightarrow> db \<Rightarrow> (kerror + effect option) \<times> db" where
  "retire_and_lose x f tid ep moment now d =
     (case retire_reservation tid ep moment d of
        (None, d') \<Rightarrow> (Inr None, d')
      | (Some e, d') \<Rightarrow>
          (case finish x tid Lost (Some ''reservation expired'') None False (Some f) False now d' of
             Inl err \<Rightarrow> (Inl err, d')
           | Inr (_, d'') \<Rightarrow> (Inr (Some e), d'')))"

text \<open>
  One candidate of the sweep, under its task's lock.  \<open>env\<close> is what happens to the database
  while the fence is open for the executor's answer \<open>reply\<close>.  The result is the effect
  reported lost, the superseded effect still to be stopped, and the database; a
  \<open>TaskStoreError\<close> or an unknowable answer skips the candidate and keeps what was committed.
\<close>

definition expire_one ::
  "ctx \<Rightarrow> effect_reply option \<Rightarrow> (db \<Rightarrow> db) \<Rightarrow> string \<Rightarrow> int \<Rightarrow> real \<Rightarrow> real \<Rightarrow> db
   \<Rightarrow> effect option \<times> effect option \<times> db" where
  "expire_one x reply env tid ep moment now d =
     (let x' = lock_ctx tid x; f = lock_fence tid x in
      case get_by_id tid d of
        None \<Rightarrow> (let (retired, d') = retire_reservation tid ep moment d in (retired, None, d'))
      | Some current \<Rightarrow>
          if t_epoch current \<noteq> ep then (None, None, d)
          else let d1 = env d in
            (case native_effect reply of
               Inl _ \<Rightarrow> (None, None, d1)
             | Inr native \<Rightarrow>
                 let retire = (\<lambda>superseded d2.
                       case retire_and_lose x' f tid ep moment now d2 of
                         (Inl _, d3) \<Rightarrow> (None, None, d3)
                       | (Inr lost, d3) \<Rightarrow> (lost, superseded, d3));
                     moved = (case get_by_id tid d1 of
                                None \<Rightarrow> True
                              | Some c \<Rightarrow> t_epoch c \<noteq> ep \<or> t_version c \<noteq> t_version current)
                 in if moved then
                      (case native of
                         Some n \<Rightarrow>
                           if truthy (nv_workspace n)
                           then (case mark_superseded tid ep (the (nv_workspace n)) now d1 of
                                   Inl _ \<Rightarrow> (None, None, d1)
                                 | Inr (e, d2) \<Rightarrow> retire (Some e) d2)
                           else retire None d1
                       | None \<Rightarrow> retire None d1)
                    else
                      (case native of
                         Some n \<Rightarrow>
                           if nv_state n = Some ''active'' \<and> truthy (nv_workspace n) \<and> truthy (nv_session n)
                           then (case mark_launched tid ep (the (nv_workspace n)) (the (nv_session n)) now d1 of
                                   Inl _ \<Rightarrow> (None, None, d1)
                                 | Inr (_, d2) \<Rightarrow>
                                     (case activate x' tid (the (nv_workspace n)) (the (nv_session n)) (Some f) now d2 of
                                        Inl _ \<Rightarrow> (None, None, d2)
                                      | Inr (_, d3) \<Rightarrow> (None, None, d3)))
                           else retire None d1
                       | None \<Rightarrow> retire None d1)))"

fun expire_each ::
  "ctx \<Rightarrow> (string \<Rightarrow> int \<Rightarrow> effect_reply option) \<Rightarrow> (string \<Rightarrow> bool) \<Rightarrow> (string \<Rightarrow> db \<Rightarrow> db)
   \<Rightarrow> (string \<times> int) list \<Rightarrow> real \<Rightarrow> real \<Rightarrow> db \<Rightarrow> effect list \<times> db" where
  "expire_each x replies stops env [] moment now d = ([], d)"
| "expire_each x replies stops env ((tid, ep) # cs) moment now d =
     (let (lost, superseded, d1) = expire_one x (replies tid ep) (env tid) tid ep moment now d;
          d2 = (case superseded of
                  None \<Rightarrow> d1
                | Some e \<Rightarrow> (case stop_superseded stops e now d1 of Inl _ \<Rightarrow> d1 | Inr d' \<Rightarrow> d'));
          (rest, d3) = expire_each x replies stops env cs moment now d2
      in ((case lost of None \<Rightarrow> rest | Some e \<Rightarrow> e # rest), d3))"

definition expire_reservations ::
  "ctx \<Rightarrow> (string \<Rightarrow> int \<Rightarrow> effect_reply option) \<Rightarrow> (string \<Rightarrow> bool) \<Rightarrow> (string \<Rightarrow> db \<Rightarrow> db)
   \<Rightarrow> real \<Rightarrow> real \<Rightarrow> db \<Rightarrow> effect list \<times> db" where
  "expire_reservations x replies stops env moment now d =
     expire_each x replies stops env
       (map effect_key (filter (\<lambda>e. e_state e = EReserved \<and> e_lease_expires_at e < moment) (db_effects d)))
       moment now d"

subsection \<open>Every operation is a kernel step\<close>

lemma reserve_effect_step:
  assumes run: "reserve_effect tid ep hash owner ttl now d = Inr (res, d')" and inv: "kernel_inv d"
  shows "kernel_step d d'"
proof (cases "find_effect tid ep d")
  case None
  from run None obtain row where "insert_effect row ''reserved'' now d = Inr d'"
    by (auto simp: reserve_effect_def Let_def)
  then show ?thesis using inv by (rule kernel_step_insert_effect)
next
  case (Some e)
  let ?f = "\<lambda>r. r\<lparr>e_owner := owner, e_lease_expires_at := now + ttl, e_updated_at := now\<rparr>"
  from run Some consider "d' = d"
    | hit where "change_effect tid ep ''reservation-takeover'' now (\<lambda>_. True) ?f d = (hit, d')"
    by (cases "change_effect tid ep ''reservation-takeover'' now (\<lambda>_. True) ?f d")
       (auto simp: reserve_effect_def Let_def split: if_splits)
  then show ?thesis
  proof cases
    case 1
    with inv show ?thesis by (simp add: kernel_step_refl)
  next
    case 2
    show ?thesis
      by (rule kernel_step_change_effect [OF 2 inv]) (auto simp: effect_evolves_def effect_key_def)
  qed
qed

text \<open>A successful \<open>_advance\<close> found the row in an expected state and applied the assignment to it.\<close>

lemma advance_effect_cases:
  assumes run: "advance_effect tid ep assign expect now d = Inr (e, d')" and ok: "db_ok d"
    and f: "\<And>r. effect_key (assign r) = effect_key r"
  obtains r where "find_effect tid ep d = Some r" "e_state r \<in> expect"
    "change_effect tid ep ''effect-transition'' now (\<lambda>r. e_state r \<in> expect)
       (\<lambda>r. (assign r)\<lparr>e_updated_at := now\<rparr>) d = (True, d')"
    "find_effect tid ep d' = Some ((assign r)\<lparr>e_updated_at := now\<rparr>)"
    "e = decode_effect ((assign r)\<lparr>e_updated_at := now\<rparr>)"
proof -
  let ?f = "\<lambda>r. (assign r)\<lparr>e_updated_at := now\<rparr>"
  from run obtain row where chg: "change_effect tid ep ''effect-transition'' now (\<lambda>r. e_state r \<in> expect) ?f d = (True, d')"
    and row: "find_effect tid ep d' = Some row" "e = decode_effect row"
    by (cases "change_effect tid ep ''effect-transition'' now (\<lambda>r. e_state r \<in> expect) ?f d")
       (auto simp: advance_effect_def Let_def split: if_splits option.splits)
  from change_effect_hit [OF chg ok] obtain r where r: "find_effect tid ep d = Some r" "e_state r \<in> expect" by auto
  have "\<And>r. effect_key (?f r) = effect_key r" using f by (simp add: effect_key_def)
  from change_effect_find [OF chg this, of tid ep] r row have "row = ?f r" by simp
  with that r chg row show thesis by simp
qed

lemma advance_effect_step:
  assumes run: "advance_effect tid ep assign expect now d = Inr (e, d')" and inv: "kernel_inv d"
    and f: "\<And>r. e_state r \<in> expect \<Longrightarrow> effect_evolves r (assign r)" "\<And>r. effect_key (assign r) = effect_key r"
  shows "kernel_step d d'"
proof -
  from advance_effect_cases [OF run kernel_inv_ok [OF inv] f(2)] obtain r where
    "change_effect tid ep ''effect-transition'' now (\<lambda>r. e_state r \<in> expect)
       (\<lambda>r. (assign r)\<lparr>e_updated_at := now\<rparr>) d = (True, d')" by blast
  then show ?thesis
    by (rule kernel_step_change_effect [OF _ inv]) (use f in \<open>auto simp: effect_evolves_def effect_key_def\<close>)
qed

lemma mark_steps:
  assumes inv: "kernel_inv d"
  shows "mark_launched tid ep ws s now d = Inr (e, d') \<Longrightarrow> kernel_step d d'"
    and "mark_terminal tid ep out retry now d = Inr (e, d') \<Longrightarrow> kernel_step d d'"
    and "mark_refused tid ep reason after now d = Inr (e, d') \<Longrightarrow> kernel_step d d'"
    and "mark_superseded tid ep ws now d = Inr (e, d') \<Longrightarrow> kernel_step d d'"
  unfolding mark_launched_def mark_terminal_def mark_refused_def mark_superseded_def
  by (erule advance_effect_step [OF _ inv], (auto simp: effect_evolves_def effect_key_def) [2])+

lemma mark_cleanup_step:
  assumes "mark_cleanup_workspace tid ep ws now d = Inr (e, d')" and inv: "kernel_inv d"
  shows "kernel_step d d'"
proof -
  let ?f = "\<lambda>r. r\<lparr>e_workspace_id := Some ws, e_outcome := Some ''superseded'', e_updated_at := now\<rparr>"
  from assms(1) obtain hit where "change_effect tid ep ''cleanup-workspace'' now (\<lambda>r. e_state r = ETerminal) ?f d = (hit, d')"
    by (cases "change_effect tid ep ''cleanup-workspace'' now (\<lambda>r. e_state r = ETerminal) ?f d")
       (auto simp: mark_cleanup_workspace_def Let_def split: option.splits)
  then show ?thesis
    by (rule kernel_step_change_effect [OF _ inv]) (auto simp: effect_evolves_def effect_key_def)
qed

lemma stop_terminal_step:
  assumes run: "stop_terminal stops e now d = Inr d'" and inv: "kernel_inv d"
  shows "kernel_step d d'"
proof (cases "e_state e \<noteq> ETerminal \<or> \<not> truthy (e_workspace_id e)")
  case True
  with run inv show ?thesis by (simp add: stop_terminal_def kernel_step_refl)
next
  case False
  let ?G = "\<lambda>r. e_state r = ETerminal \<and> e_workspace_id r = e_workspace_id e"
  let ?f = "\<lambda>r. r\<lparr>e_workspace_id := None, e_updated_at := now\<rparr>"
  from run False obtain hit where
    "change_effect (e_task_id e) (e_epoch e) ''cleanup-acknowledged'' now ?G ?f d = (hit, d')"
    by (cases "change_effect (e_task_id e) (e_epoch e) ''cleanup-acknowledged'' now ?G ?f d")
       (auto simp: stop_terminal_def split: if_splits)
  then show ?thesis
    by (rule kernel_step_change_effect [OF _ inv]) (auto simp: effect_evolves_def effect_key_def)
qed

lemma stop_superseded_step:
  "stop_superseded stops e now d = Inr d' \<Longrightarrow> kernel_inv d \<Longrightarrow> kernel_step d d'"
  by (auto simp: stop_superseded_def intro: kernel_step_refl stop_terminal_step split: if_splits)

lemma stop_each_step:
  assumes "\<And>e d d'. stop e now d = Inr d' \<Longrightarrow> kernel_inv d \<Longrightarrow> kernel_step d d'"
    and "stop_each stop es now d = (n, d')" and "kernel_inv d"
  shows "kernel_step d d'"
  using assms(2,3)
proof (induction es arbitrary: d n d')
  case Nil
  then show ?case by (simp add: kernel_step_refl)
next
  case (Cons e es)
  show ?case
  proof (cases "stop e now d")
    case (Inl err)
    with Cons show ?thesis by simp
  next
    case (Inr d1)
    obtain m d2 where tail: "stop_each stop es now d1 = (m, d2)" by fastforce
    have s: "kernel_step d d1" by (rule assms(1) [OF Inr Cons.prems(2)])
    from Cons.IH [OF tail kernel_step_inv [OF s]] have "kernel_step d1 d2" .
    with Cons.prems(1) Inr tail s show ?thesis by (auto intro: kernel_step_trans)
  qed
qed

lemma reconcile_terminal_step:
  "reconcile_terminal client now d = (n, d') \<Longrightarrow> kernel_inv d \<Longrightarrow> kernel_step d d'"
  by (auto simp: reconcile_terminal_def kernel_step_refl intro: stop_each_step [OF stop_terminal_step]
      split: option.splits)

lemma reconcile_superseded_step:
  "reconcile_superseded client now d = (n, d') \<Longrightarrow> kernel_inv d \<Longrightarrow> kernel_step d d'"
  by (auto simp: reconcile_superseded_def kernel_step_refl intro: stop_each_step [OF stop_superseded_step]
      split: option.splits)

lemma retire_reservation_change:
  assumes "retire_reservation tid ep moment d = (res, d')"
  obtains hit where "change_effect tid ep ''reservation-expired'' moment
      (\<lambda>r. e_state r = EReserved \<and> e_lease_expires_at r < moment)
      (\<lambda>r. r\<lparr>e_state := ETerminal, e_outcome := Some ''lost:reservation-expired'', e_updated_at := moment\<rparr>) d = (hit, d')"
    "res = (if hit then map_option decode_effect (find_effect tid ep d') else None)"
  using assms by (auto simp: retire_reservation_def Let_def split: prod.splits)

lemma retire_reservation_step:
  assumes "retire_reservation tid ep moment d = (res, d')" and inv: "kernel_inv d"
  shows "kernel_step d d'"
  using assms(1)
  by (rule retire_reservation_change)
     (erule kernel_step_change_effect [OF _ inv], auto simp: effect_evolves_def effect_key_def)

lemma retire_and_lose_step:
  assumes "retire_and_lose x f tid ep moment now d = (res, d')" and inv: "kernel_inv d"
  shows "kernel_step d d'"
proof -
  obtain e d1 where r: "retire_reservation tid ep moment d = (e, d1)" by fastforce
  have s: "kernel_step d d1" by (rule retire_reservation_step [OF r inv])
  have "kernel_step d1 d2"
    if "finish x tid Lost (Some ''reservation expired'') None False (Some f) False now d1 = Inr (rec, d2)" for rec d2
    by (rule kernel_step_lifecycle [OF finish_lifecycle [OF that kernel_inv_ok]])
       (rule kernel_step_inv [OF s])+
  with assms(1) r s show ?thesis
    by (auto simp: retire_and_lose_def intro: kernel_step_trans split: option.splits sum.splits)
qed

lemma expire_one_step:
  assumes run: "expire_one x reply env tid ep moment now d = (lost, late, d')" and inv: "kernel_inv d"
    and env: "\<And>d. kernel_inv d \<Longrightarrow> kernel_step d (env d)"
  shows "kernel_step d d'"
proof -
  have e: "kernel_step d (env d)" by (rule env [OF inv])
  note inv1 = kernel_step_inv [OF e]
  have retire: "kernel_step d d3" if "retire_and_lose x' f tid ep moment now d2 = (res, d3)" "kernel_step d d2"
    for x' f d2 d3 res
    using retire_and_lose_step [OF that(1) kernel_step_inv [OF that(2)]] that(2) by (rule kernel_step_trans [rotated])
  have super: "kernel_step d d2" if "mark_superseded tid ep ws now (env d) = Inr (eff, d2)" for ws eff d2
    using mark_steps(4) [OF inv1 that] e by (rule kernel_step_trans [rotated])
  have launch: "kernel_step d d2" if "mark_launched tid ep ws s now (env d) = Inr (eff, d2)" for ws s eff d2
    using mark_steps(1) [OF inv1 that] e by (rule kernel_step_trans [rotated])
  have act: "kernel_step d d3" if "activate x' tid ws s f now d2 = Inr (rec, d3)" "kernel_step d d2"
    for x' ws s f d2 d3 rec
    using kernel_step_lifecycle [OF activate_lifecycle [OF that(1)]] that(2) kernel_inv_ok
    by (meson kernel_step_inv kernel_step_trans)
  note retire0 = retire_reservation_step [OF _ inv]
  show ?thesis
    using run inv unfolding expire_one_def Let_def
    by (auto simp: kernel_step_refl e split: option.splits if_splits sum.splits prod.splits
        intro: retire0 retire super launch act)
qed

lemma expire_each_step:
  assumes "expire_each x replies stops env cs moment now d = (es, d')" and "kernel_inv d"
    and env: "\<And>tid d. kernel_inv d \<Longrightarrow> kernel_step d (env tid d)"
  shows "kernel_step d d'"
  using assms(1,2)
proof (induction cs arbitrary: d es d')
  case Nil
  then show ?case by (simp add: kernel_step_refl)
next
  case (Cons c cs)
  obtain tid ep where c: "c = (tid, ep)" by (cases c)
  obtain lost late d1 where one: "expire_one x (replies tid ep) (env tid) tid ep moment now d = (lost, late, d1)"
    by (cases "expire_one x (replies tid ep) (env tid) tid ep moment now d")
  let ?d2 = "case late of None \<Rightarrow> d1
    | Some e \<Rightarrow> (case stop_superseded stops e now d1 of Inl _ \<Rightarrow> d1 | Inr d' \<Rightarrow> d')"
  obtain rest d3 where tail: "expire_each x replies stops env cs moment now ?d2 = (rest, d3)" by fastforce
  have s1: "kernel_step d d1" by (rule expire_one_step [OF one Cons.prems(2) env])
  have "kernel_step d1 ?d2"
    using kernel_step_inv [OF s1]
    by (auto simp: kernel_step_refl intro: stop_superseded_step split: option.splits sum.splits)
  with s1 have s2: "kernel_step d ?d2" by (rule kernel_step_trans)
  from Cons.IH [OF tail kernel_step_inv [OF s2]] s2 have "kernel_step d d3" by (rule kernel_step_trans [rotated])
  with Cons.prems(1) c one tail show ?case by (auto simp: Let_def)
qed

lemma expire_reservations_step:
  assumes "expire_reservations x replies stops env moment now d = (es, d')" and "kernel_inv d"
    and "\<And>tid d. kernel_inv d \<Longrightarrow> kernel_step d (env tid d)"
  shows "kernel_step d d'"
  using assms unfolding expire_reservations_def by (rule expire_each_step)

subsection \<open>Properties\<close>

lemma find_effect_grows:
  assumes "kernel_step d d'" and "find_effect tid ep d = Some r"
  obtains r' where "find_effect tid ep d' = Some r'" "effect_evolves r r'"
  using assms unfolding kernel_step_def grows_def find_effect_def by blast

text \<open>
  An epoch that was launched is never launched again.  From the moment its native session
  is bound, and through anything the kernel does afterwards, a further reservation of that
  epoch (by any instance, for any specification, at any time) either returns the launched
  effect without touching the database or is refused because the epoch is over.
\<close>

theorem launched_never_relaunched:
  assumes "kernel_inv d" and "mark_launched tid ep ws s now d = Inr (e, d1)" and "kernel_step d1 d2"
  shows "(\<exists>e'. reserve_effect tid ep hash owner ttl later d2 = Inr ((e', False), d2) \<and> e_state e' = ELaunched
            \<and> get_effect tid ep d2 = Some e')
         \<or> (\<exists>out. reserve_effect tid ep hash owner ttl later d2 = Inl (EffectIsTerminal tid ep out))"
proof -
  from assms(2) [unfolded mark_launched_def] kernel_inv_ok [OF assms(1)] obtain r where
    "find_effect tid ep d1 = Some (r\<lparr>e_state := ELaunched, e_workspace_id := Some ws, e_session_id := Some s,
        e_updated_at := now\<rparr>)"
    by (rule advance_effect_cases) (auto simp: effect_key_def)
  with assms(3) obtain r' where r': "find_effect tid ep d2 = Some r'"
    "effect_evolves (r\<lparr>e_state := ELaunched, e_workspace_id := Some ws, e_session_id := Some s, e_updated_at := now\<rparr>) r'"
    by (rule find_effect_grows)
  then have "e_state r' = ELaunched \<or> e_state r' = ETerminal"
    by (cases "e_state r'") (auto simp: effect_evolves_def)
  with r'(1) show ?thesis
    by (auto simp: reserve_effect_def get_effect_def decode_effect_def effect.defs)
qed

definition sample_effect :: "effect_state \<Rightarrow> effect_row" where
  "sample_effect st = \<lparr>e_task_id = ''a'', e_epoch = 1, e_request_hash = ''h'', e_state = st, e_workspace_id = None,
     e_session_id = None, e_outcome = None, e_owner = ''o'', e_lease_expires_at = 10, e_retry_at = None,
     e_created_at = 0, e_updated_at = 0\<rparr>"

definition with_effect :: "effect_row \<Rightarrow> db \<Rightarrow> db" where
  "with_effect e d = (case insert_effect e ''reserved'' 0 d of Inl _ \<Rightarrow> d | Inr d' \<Rightarrow> d')"

lemma with_effect_inv: "kernel_inv d \<Longrightarrow> kernel_inv (with_effect e d)"
  by (auto simp: with_effect_def intro: kernel_step_inv kernel_step_insert_effect split: sum.splits)

lemma with_effect_rows:
  "effect_key e \<notin> effect_key ` set (db_effects d) \<Longrightarrow> db_effects (with_effect e d) = db_effects d @ [e]"
  by (simp add: with_effect_def insert_effect_def log_effect_def)

lemma with_effect_task [simp]: "find_task tid (with_effect e d) = find_task tid d"
  by (auto simp: with_effect_def find_task_def insert_effect_def log_effect_def)

lemma seed_effect_find [simp]:
  "find_effect tid ep (with_effect e (seed rows)) = (if (tid, ep) = effect_key e then Some e else None)"
  using with_effect_rows [of e "seed rows"] by (auto simp: find_effect_def)

lemma advance_effect_succeeds:
  assumes ok: "db_ok d" and r: "find_effect tid ep d = Some r" "e_state r \<in> expect"
    and f: "\<And>r. effect_key (assign r) = effect_key r"
  shows "\<exists>d'. advance_effect tid ep assign expect now d = Inr (decode_effect ((assign r)\<lparr>e_updated_at := now\<rparr>), d')
           \<and> find_effect tid ep d' = Some ((assign r)\<lparr>e_updated_at := now\<rparr>) \<and> db_tasks d' = db_tasks d
           \<and> db_ok d'"
proof -
  let ?f = "\<lambda>r. (assign r)\<lparr>e_updated_at := now\<rparr>"
  obtain hit d' where chg: "change_effect tid ep ''effect-transition'' now (\<lambda>r. e_state r \<in> expect) ?f d = (hit, d')"
    by fastforce
  have key: "\<And>r. effect_key (?f r) = effect_key r" using f by (simp add: effect_key_def)
  from change_effect_hit [OF chg ok] r have "hit" by simp
  with chg change_effect_find [OF chg key, of tid ep] r change_effect_frame [OF chg] change_effect_ok [OF chg ok key]
  show ?thesis by (auto simp: advance_effect_def)
qed

theorem launched_never_relaunched_witness:
  "\<exists>e d1. mark_launched ''a'' 1 ''w'' ''s'' 5 (with_effect (sample_effect EReserved) (seed [sample_row ''a'' Reserved 0 2]))
             = Inr (e, d1)
        \<and> reserve_effect ''a'' 1 ''other'' ''p'' 60 99 d1 = Inr ((e, False), d1)"
proof -
  let ?d = "with_effect (sample_effect EReserved) (seed [sample_row ''a'' Reserved 0 2])"
  have inv: "kernel_inv ?d" by (intro with_effect_inv sample_kernel_inv) auto
  have f: "find_effect ''a'' 1 ?d = Some (sample_effect EReserved)"
    by (simp add: effect_key_def sample_effect_def)
  obtain e d1 where m: "mark_launched ''a'' 1 ''w'' ''s'' 5 ?d = Inr (e, d1)" and e: "e_state e = ELaunched"
      "get_effect ''a'' 1 d1 = Some e"
    using advance_effect_succeeds [OF kernel_inv_ok [OF inv] f, of "{EReserved, ELaunched}"
        "\<lambda>r. r\<lparr>e_state := ELaunched, e_workspace_id := Some ''w'', e_session_id := Some ''s''\<rparr>" 5]
    by (auto simp: mark_launched_def effect_key_def sample_effect_def get_effect_def decode_effect_def effect.defs)
  have "kernel_inv d1" using mark_steps(1) [OF inv m] by (rule kernel_step_inv)
  from launched_never_relaunched [OF inv m kernel_step_refl [OF this], of "''other''" "''p''" 60 99] e
  have "reserve_effect ''a'' 1 ''other'' ''p'' 60 99 d1 = Inr ((e, False), d1)"
    by (auto simp: reserve_effect_def get_effect_def decode_effect_def effect.defs split: option.splits if_splits)
  with m show ?thesis by blast
qed

text \<open>
  A reservation belongs to one live instance.  While the lease of a reserved epoch runs,
  another instance is refused; once it has run out, the next caller takes the row over, is
  told so, and finds the identifiers the crashed owner had reserved.
\<close>

theorem reservation_lease_exclusive:
  assumes "db_ok d" and "reserve_effect tid ep hash owner ttl now d = Inr ((e, took), d1)"
    and "e_state e = EReserved" and "owner' \<noteq> owner"
  shows "if later < now + ttl
         then reserve_effect tid ep hash' owner' ttl' later d1 = Inl (EffectIsBusy tid ep)
         else \<exists>d2. reserve_effect tid ep hash' owner' ttl' later d1
                = Inr ((e\<lparr>e_owner := owner', e_lease_expires_at := later + ttl'\<rparr>, True), d2)"
proof -
  have row: "\<exists>r. find_effect tid ep d1 = Some r \<and> e = decode_effect r \<and> e_owner r = owner
               \<and> e_lease_expires_at r = now + ttl"
  proof (cases "find_effect tid ep d")
    case None
    with assms(2) obtain r where ins: "insert_effect r ''reserved'' now d = Inr d1" "e = decode_effect r"
      "e_owner r = owner" "e_lease_expires_at r = now + ttl" "effect_key r = (tid, ep)"
      by (auto simp: reserve_effect_def Let_def effect_key_def)
    with None insert_effect_frame(6) [OF ins(1)] show ?thesis
      by (auto simp: find_effect_def lookup_by_append)
  next
    case (Some r)
    let ?f = "\<lambda>r. r\<lparr>e_owner := owner, e_lease_expires_at := now + ttl, e_updated_at := now\<rparr>"
    from assms(2,3) Some obtain hit where
      chg: "change_effect tid ep ''reservation-takeover'' now (\<lambda>_. True) ?f d = (hit, d1)" and e: "e = decode_effect (?f r)"
      by (auto simp: reserve_effect_def Let_def decode_effect_def effect.defs split: if_splits prod.splits)
    have "effect_key (?f r) = effect_key r" for r by (simp add: effect_key_def)
    from change_effect_find [OF chg this, of tid ep] Some e show ?thesis by simp
  qed
  then obtain r where r: "find_effect tid ep d1 = Some r" "e = decode_effect r" "e_owner r = owner"
    "e_lease_expires_at r = now + ttl" by blast
  have st: "e_state r = EReserved" using assms(3) r(2) by (simp add: decode_effect_def effect.defs)
  show ?thesis
    using r st assms(4)
    by (auto simp: reserve_effect_def Let_def decode_effect_def effect.defs split: prod.splits)
qed

theorem reservation_lease_exclusive_witness:
  "\<exists>e took d1. reserve_effect ''a'' 1 ''h'' ''o'' 120 5 empty_db = Inr ((e, took), d1)
      \<and> reserve_effect ''a'' 1 ''h'' ''p'' 120 9 d1 = Inl (EffectIsBusy ''a'' 1)"
proof -
  obtain e d1 where r: "reserve_effect ''a'' 1 ''h'' ''o'' 120 5 empty_db = Inr ((e, False), d1)"
    and st: "e_state e = EReserved"
    by (simp add: reserve_effect_def empty_db_def find_effect_def Let_def insert_effect_def decode_effect_def effect.defs)
  have "reserve_effect ''a'' 1 ''h'' ''p'' 120 9 d1 = Inl (EffectIsBusy ''a'' 1)"
    using reservation_lease_exclusive [OF db_ok_empty r st, of "''p''" 9] by simp
  with r show ?thesis by blast
qed

text \<open>
  A takeover for a different specification goes unnoticed, and then locks its own taker out.
  When the lease of a reserved epoch has run out, a caller with another request hash is given
  the reservation, the row keeps the hash of the old specification, and the same caller's
  retry within its new lease is refused as a conflict.
\<close>

theorem takeover_keeps_old_hash:
  assumes "db_ok d" and "find_effect tid ep d = Some r" and "e_state r = EReserved"
    and "e_lease_expires_at r \<le> now" and "e_request_hash r \<noteq> hash" and "now \<le> later" and "later < now + ttl"
  shows "\<exists>e d1. reserve_effect tid ep hash owner ttl now d = Inr ((e, True), d1)
           \<and> e_request_hash e = e_request_hash r
           \<and> reserve_effect tid ep hash owner ttl later d1 = Inl (EffectInConflict tid ep)"
proof -
  let ?f = "\<lambda>r. r\<lparr>e_owner := owner, e_lease_expires_at := now + ttl, e_updated_at := now\<rparr>"
  obtain hit d1 where chg: "change_effect tid ep ''reservation-takeover'' now (\<lambda>_. True) ?f d = (hit, d1)" by fastforce
  have "effect_key (?f r) = effect_key r" for r by (simp add: effect_key_def)
  from change_effect_find [OF chg this, of tid ep] assms(2) have "find_effect tid ep d1 = Some (?f r)" by simp
  with assms chg show ?thesis
    by (auto simp: reserve_effect_def Let_def decode_effect_def effect.defs)
qed

theorem takeover_keeps_old_hash_witness:
  "\<exists>e d1. reserve_effect ''a'' 1 ''new'' ''p'' 60 20 (with_effect (sample_effect EReserved) empty_db) = Inr ((e, True), d1)
        \<and> reserve_effect ''a'' 1 ''new'' ''p'' 60 30 d1 = Inl (EffectInConflict ''a'' 1)"
proof -
  have ok: "db_ok (with_effect (sample_effect EReserved) empty_db)"
    by (intro kernel_inv_ok with_effect_inv kernel_inv_empty)
  have f: "find_effect ''a'' 1 (with_effect (sample_effect EReserved) empty_db) = Some (sample_effect EReserved)"
    using with_effect_rows [of "sample_effect EReserved" empty_db]
    by (simp add: find_effect_def empty_db_def) (simp add: sample_effect_def effect_key_def)
  from takeover_keeps_old_hash [OF ok f, of 20 "''new''" 30 60 "''p''"] show ?thesis
    by (auto simp: sample_effect_def)
qed

subsubsection \<open>Expiry\<close>

lemma retire_reservation_hit:
  assumes ok: "db_ok d" and r: "find_effect tid ep d = Some r" "e_state r = EReserved" "e_lease_expires_at r < moment"
  shows "\<exists>e d'. retire_reservation tid ep moment d = (Some e, d') \<and> e_state e = ETerminal
           \<and> e_outcome e = Some ''lost:reservation-expired'' \<and> get_effect tid ep d' = Some e
           \<and> db_tasks d' = db_tasks d \<and> db_wakes d' = db_wakes d"
proof -
  let ?f = "\<lambda>r. r\<lparr>e_state := ETerminal, e_outcome := Some ''lost:reservation-expired'', e_updated_at := moment\<rparr>"
  let ?G = "\<lambda>r. e_state r = EReserved \<and> e_lease_expires_at r < moment"
  obtain hit d' where chg: "change_effect tid ep ''reservation-expired'' moment ?G ?f d = (hit, d')" by fastforce
  have key: "effect_key (?f r) = effect_key r" for r by (simp add: effect_key_def)
  from change_effect_hit [OF chg ok] r have hit by simp
  with chg change_effect_find [OF chg key, of tid ep] change_effect_frame [OF chg] r show ?thesis
    by (auto simp: retire_reservation_def get_effect_def decode_effect_def effect.defs)
qed

lemma finish_Lost_fenced:
  "finish (lock_ctx tid x) tid Lost res ev charge (Some (lock_fence tid x)) shared now d
   = finish x tid Lost res ev charge None shared now d"
  by (simp add: finish_def with_fence_def)

text \<open>Losing an expired reservation: the row turns terminal and its task is charged one failure.\<close>

lemma retire_and_lose_hit:
  assumes inv: "kernel_inv d" and r: "find_effect tid ep d = Some r" "e_state r = EReserved"
      "e_lease_expires_at r < moment"
    and t: "find_task tid d = Some t" "t_state t \<in> {Reserved, Active, Replacing}" "t_attempts t < t_max_attempts t"
  shows "\<exists>e d' t'. retire_and_lose (lock_ctx tid x) (lock_fence tid x) tid ep moment now d = (Inr (Some e), d')
           \<and> get_effect tid ep d' = Some e \<and> e_outcome e = Some ''lost:reservation-expired''
           \<and> find_task tid d' = Some t' \<and> t_attempts t' = t_attempts t + 1 \<and> t_epoch t' = t_epoch t
           \<and> t_state t' = (if t_attempts t + 1 = t_max_attempts t then Exhausted else Lost)
           \<and> (\<forall>p. p \<noteq> tid \<longrightarrow> find_task p d' = find_task p d) \<and> db_wakes d' = db_wakes d"
proof -
  from retire_reservation_hit [OF kernel_inv_ok [OF inv] r] obtain e d1 where
    ret: "retire_reservation tid ep moment d = (Some e, d1)" and e: "e_state e = ETerminal"
      "e_outcome e = Some ''lost:reservation-expired''" "get_effect tid ep d1 = Some e"
      "db_tasks d1 = db_tasks d" "db_wakes d1 = db_wakes d" by blast
  have ok1: "db_ok d1" using retire_reservation_step [OF ret inv] by (blast intro: kernel_inv_ok kernel_step_inv)
  have t1: "find_task tid d1 = Some t" using t(1) e(4) by (simp add: find_task_def)
  from loss_charges_one_failure [OF ok1 t1 t(2), of None x "Some ''reservation expired''" False False now] t(3)
  obtain rec d2 where fin: "finish x tid Lost (Some ''reservation expired'') None False None False now d1 = Inr (rec, d2)"
    and rec: "t_attempts rec = t_attempts t + 1" "t_epoch rec = t_epoch t"
      "t_state rec = (if t_attempts t + 1 = t_max_attempts t then Exhausted else Lost)" by auto
  from finish_lifecycle [OF fin ok1] t1 obtain r' where
    w: "task_write tid t r' d1 d2" and r': "rec = decode_task r'"
    by (auto simp: lifecycle_write_def task_write_def)
  note found = task_write_find [OF w]
  have side: "same_side_tables d1 d2" using w by (simp add: task_write_def)
  have "find_task tid d2 = Some r'" by (simp add: found)
  moreover have "find_task p d2 = find_task p d" if "p \<noteq> tid" for p
    using that found [of p] e(4) by (simp add: find_task_def)
  ultimately show ?thesis
    using ret fin e(2,3,5) rec r' side
    by (auto simp: retire_and_lose_def finish_Lost_fenced decode_task_def task_record.defs same_side_tables_def
        get_effect_def find_effect_def)
qed


definition expiry_db :: db where
  "expiry_db = with_effect (sample_effect EReserved) (seed [sample_row ''a'' Reserved 0 2])"

lemma expiry_db_facts:
  "kernel_inv expiry_db" "find_task ''a'' expiry_db = Some (sample_row ''a'' Reserved 0 2)"
  "find_effect ''a'' 1 expiry_db = Some (sample_effect EReserved)"
  by (auto simp: expiry_db_def effect_key_def sample_effect_def intro!: with_effect_inv sample_kernel_inv)


text \<open>
  The sweep can lose a task it never asked about.  If the task was moved to its next epoch
  while the fence was open for the question about the old one, and the executor answers that
  the old epoch has no native session, the sweep retires the old reservation and then
  finishes the task as lost with no version to compare: the successor, in its own new epoch,
  is charged a failure and marked lost (or exhausted).
\<close>

theorem expiry_loses_successor:
  assumes "find_task tid d = Some t" and "t_epoch t = ep" and "native_effect reply = Inr None"
    and "kernel_inv (env d)" and "find_task tid (env d) = Some s" and "t_epoch s \<noteq> ep" and "t_state s = Replacing"
    and "t_attempts s < t_max_attempts s" and "find_effect tid ep (env d) = Some r" and "e_state r = EReserved"
    and "e_lease_expires_at r < moment"
  shows "\<exists>e d' s'. expire_one x reply env tid ep moment now d = (Some e, None, d')
           \<and> find_task tid d' = Some s' \<and> t_epoch s' = t_epoch s \<and> t_attempts s' = t_attempts s + 1
           \<and> t_state s' \<in> {Lost, Exhausted}"
proof -
  from retire_and_lose_hit [OF assms(4,9,10,11,5), of x now] assms(7,8) obtain e d' s' where
    "retire_and_lose (lock_ctx tid x) (lock_fence tid x) tid ep moment now (env d) = (Inr (Some e), d')"
    "find_task tid d' = Some s'" "t_attempts s' = t_attempts s + 1" "t_epoch s' = t_epoch s"
    "t_state s' = (if t_attempts s + 1 = t_max_attempts s then Exhausted else Lost)" by auto
  with assms(1,2,3,5,6) show ?thesis
    by (simp add: expire_one_def get_by_id_def Let_def) (simp add: decode_task_def task_record.defs)
qed

definition successor_row :: task_row where
  "successor_row = (sample_row ''a'' Replacing 0 2)\<lparr>t_epoch := 2, t_version := 3\<rparr>"

lemma successor_row_facts [simp]:
  "t_id successor_row = ''a''" "t_epoch successor_row = 2" "t_state successor_row = Replacing"
  "t_attempts successor_row = 0" "t_max_attempts successor_row = 2" "task_row_ok successor_row"
  "row_inv successor_row"
proof -
  show "row_inv successor_row"
    using sample_row_inv [of 0 2 "''a''" Replacing] by (simp add: successor_row_def row_inv_def within_budget_def)
qed (simp_all add: successor_row_def task_row_ok_def)

theorem expiry_loses_successor_witness:
  "\<exists>e d' s'. expire_one sample_ctx None (\<lambda>_. with_effect (sample_effect EReserved) (seed [successor_row]))
               ''a'' 1 99 99 expiry_db = (Some e, None, d')
           \<and> find_task ''a'' d' = Some s' \<and> t_epoch s' = 2 \<and> t_state s' \<in> {Lost, Exhausted}"
proof -
  let ?d = "with_effect (sample_effect EReserved) (seed [successor_row])"
  have table: "task_table_ok [successor_row]" by (simp add: task_table_ok_def unique_where_def)
  have inv: "kernel_inv ?d" by (intro with_effect_inv kernel_inv_seed [OF table]) simp
  have t: "find_task ''a'' ?d = Some successor_row"
    by simp (simp add: find_task_def seed_tasks [OF table])
  have f: "find_effect ''a'' 1 ?d = Some (sample_effect EReserved)" by (simp add: effect_key_def sample_effect_def)
  from expiry_loses_successor [OF expiry_db_facts(2), of 1 None "\<lambda>_. ?d" successor_row "sample_effect EReserved" 99
      sample_ctx 99] inv t f
  show ?thesis by (simp add: native_effect_def) (auto simp: sample_effect_def)
qed

end
