(* ===== verification/Wakes.thy ===== *)
theory Wakes
  imports Evolution
begin

text \<open>
  Durable wakes (\<open>wakes.py\<close>): which wait predicates the child rows satisfy, how a wake row is
  armed for each of them past the parent's watermark, the liveness wakes of a silent child,
  and the terminal transition that does all of it in one transaction.  The \<open>uuid4\<close> drawn for
  the wake with dedupe key \<open>k\<close> is \<open>wid k\<close>; one operation arms a key at most once.
\<close>

subsection \<open>Keys and predicates\<close>

definition dedupe_key :: "string \<Rightarrow> predicate \<Rightarrow> string" where
  "dedupe_key parent p = parent @ '':'' @ predicate_name p"

text \<open>The typed reasons of a liveness wake, and the predicate each satisfies.\<close>

datatype wake_reason = LostReason | StallReason liveness | BudgetReason

fun reason_name :: "wake_reason \<Rightarrow> string" where
  "reason_name LostReason = ''lost''"
| "reason_name (StallReason l) = liveness_name l"
| "reason_name BudgetReason = ''over_budget''"

fun reason_predicate :: "wake_reason \<Rightarrow> predicate" where
  "reason_predicate LostReason = AnyChildLost"
| "reason_predicate (StallReason l) = AnyChildStalled"
| "reason_predicate BudgetReason = AnyChildOverBudget"

definition escalation_suffix :: string where
  "escalation_suffix = '':escalation''"

definition episode_key :: "string \<Rightarrow> int \<Rightarrow> wake_reason \<Rightarrow> int \<Rightarrow> bool \<Rightarrow> string" where
  "episode_key child ep reason episode escalation =
     child @ '':'' @ show_int ep @ '':'' @ reason_name reason @ '':'' @ show_int episode
     @ (if escalation then escalation_suffix else '''')"

definition is_escalation :: "string \<Rightarrow> bool" where
  "is_escalation key = ends_with escalation_suffix key"

definition satisfied_predicates :: "string \<Rightarrow> db \<Rightarrow> predicate list" where
  "satisfied_predicates parent d =
     (let kids = child_rows parent d;
          live = length (filter (\<lambda>r. t_state r \<in> live_states) kids);
          blocked = length (filter (\<lambda>r. t_state r = Blocked) kids)
      in (if blocked \<noteq> 0 then [AnyChildBlocked] else [])
         @ (if kids \<noteq> [] \<and> live = 0 then [AllChildrenTerminal] else []))"

definition has_live_wait_predicate :: "string \<Rightarrow> db \<Rightarrow> bool" where
  "has_live_wait_predicate tid d =
     (let kids = child_rows tid d
      in kids \<noteq> [] \<and> length (filter (\<lambda>r. t_state r \<in> yield_states) kids) \<noteq> 0)"

subsection \<open>Arming\<close>

definition pending_wake :: "string \<Rightarrow> string \<Rightarrow> predicate \<Rightarrow> string \<Rightarrow> int option \<Rightarrow> real \<Rightarrow> wake_row" where
  "pending_wake wid parent p key seq now =
     \<lparr>w_id = wid, w_parent = parent, w_predicate = p, w_dedupe_key = key, w_event_seq = seq,
      w_state = WPending, w_claim_expires_at = None, w_payload = None, w_claim_token = None,
      w_resolution = None, w_created_at = now, w_updated_at = now\<rparr>"

fun arm_each ::
  "(string \<Rightarrow> string) \<Rightarrow> string \<Rightarrow> int \<Rightarrow> real \<Rightarrow> predicate list \<Rightarrow> db \<Rightarrow> string list \<times> db" where
  "arm_each wid parent seq now [] d = ([], d)"
| "arm_each wid parent seq now (p # ps) d =
     (let key = dedupe_key parent p;
          (inserted, d1) = insert_wake (pending_wake (wid key) parent p key (Some seq) now) ''armed'' now d;
          (created, d2) = arm_each wid parent seq now ps d1
      in ((if inserted then [wid key] else []) @ created, d2))"

definition record_wakes :: "(string \<Rightarrow> string) \<Rightarrow> string \<Rightarrow> real \<Rightarrow> db \<Rightarrow> string list \<times> db" where
  "record_wakes wid parent now d =
     (case find_task parent d of
        None \<Rightarrow> ([], d)
      | Some row \<Rightarrow>
          if t_child_event_seq row \<le> t_last_woken_seq row then ([], d)
          else arm_each wid parent (t_child_event_seq row) now (satisfied_predicates parent d) d)"

definition told_wake :: "wake_row \<Rightarrow> bool" where
  "told_wake w \<longleftrightarrow> w_state w \<in> {WPending, WClaimed, WDelivered}"

definition arm_liveness ::
  "(string \<Rightarrow> string) \<Rightarrow> string \<Rightarrow> wake_reason \<Rightarrow> string \<Rightarrow> real \<Rightarrow> bool \<Rightarrow> db \<Rightarrow> string list \<times> db" where
  "arm_liveness wid parent reason key now one_shot d =
     (if one_shot \<and> list_ex (\<lambda>w. w_dedupe_key w = key \<and> told_wake w) (db_wakes d) then ([], d)
      else let (inserted, d') = insert_wake (pending_wake (wid key) parent (reason_predicate reason) key None now)
                                  ''liveness-armed'' now d
           in ((if inserted then [wid key] else []), d'))"

definition reported_lost :: "task_row \<Rightarrow> bool" where
  "reported_lost r \<longleftrightarrow> t_state r = Lost
     \<or> (t_state r = Exhausted \<and> starts_with ''exhausted: lost:'' (case t_result r of None \<Rightarrow> '''' | Some s \<Rightarrow> s))"

text \<open>The stall branch: the first wake of an episode, or its one escalation.\<close>

definition arm_stall ::
  "(string \<Rightarrow> string) \<Rightarrow> string \<Rightarrow> task_row \<Rightarrow> real \<Rightarrow> real \<Rightarrow> db \<Rightarrow> string list \<times> db" where
  "arm_stall wid parent row moment timeout d =
     (if t_liveness row \<notin> stall_liveness then ([], d)
      else let escalating = (t_liveness_wakes row = 1
                             \<and> (case t_liveness_since row of None \<Rightarrow> False | Some since \<Rightarrow> moment - since \<ge> timeout))
           in if t_liveness_wakes row \<noteq> 0 \<and> \<not> escalating then ([], d)
              else let (armed, d1) = arm_liveness wid parent (StallReason (t_liveness row))
                         (episode_key (t_id row) (t_epoch row) (StallReason (t_liveness row))
                            (t_liveness_episode row) escalating) moment False d
                   in (armed, if armed = [] then d1
                              else bump_task (t_id row)
                                (\<lambda>r. r\<lparr>t_liveness_wakes := t_liveness_wakes r + 1, t_liveness_since := Some moment\<rparr>) d1))"

definition record_liveness_wakes ::
  "(string \<Rightarrow> string) \<Rightarrow> string \<Rightarrow> real \<Rightarrow> real \<Rightarrow> db \<Rightarrow> string list \<times> db" where
  "record_liveness_wakes wid child moment timeout d =
     (case find_task child d of
        None \<Rightarrow> ([], d)
      | Some row \<Rightarrow>
          if \<not> truthy (t_parent row) then ([], d)
          else let parent = the (t_parent row) in
            if reported_lost row
            then arm_liveness wid parent LostReason (episode_key child (t_epoch row) LostReason 1 False) moment True d
            else if t_state row \<noteq> Active then ([], d)
            else let (stalled, d1) = arm_stall wid parent row moment timeout d;
                     (budget, d2) = (if t_over_budget row
                        then arm_liveness wid parent BudgetReason (episode_key child (t_epoch row) BudgetReason 1 False)
                               moment True d1
                        else ([], d1))
                 in (stalled @ budget, d2))"

definition episode_is_exhausted :: "task_record \<Rightarrow> bool" where
  "episode_is_exhausted r \<longleftrightarrow> t_liveness r \<in> stall_liveness \<and> t_liveness_wakes r \<ge> 2"

subsection \<open>The terminal transition that tells the parent\<close>

definition default_progress_timeout :: real where
  "default_progress_timeout = 1500"

definition finish_with_wake ::
  "(string \<Rightarrow> string) \<Rightarrow> ctx \<Rightarrow> string \<Rightarrow> task_state \<Rightarrow> string option \<Rightarrow> int option \<Rightarrow> bool \<Rightarrow> fence option
   \<Rightarrow> real \<Rightarrow> db \<Rightarrow> kerror + (task_record \<times> string list) \<times> db" where
  "finish_with_wake wid x tid st res ev charge fence now d =
     with_fence x tid fence (\<lambda>x f.
       ebind (finish x tid st res ev charge f True now d) (\<lambda>(rec, d1).
         if \<not> truthy (t_parent rec) then Inr ((rec, []), d1)
         else let parent = the (t_parent rec);
                  d2 = bump_task parent (\<lambda>r. r\<lparr>t_child_event_seq := t_child_event_seq r + 1\<rparr>) d1;
                  (cohort, d3) = record_wakes wid parent now d2;
                  (live, d4) = record_liveness_wakes wid (t_id rec) now default_progress_timeout d3
              in Inr ((rec, cohort @ live), d4)))"

subsection \<open>Every operation is a kernel step\<close>

lemma arm_one_step:
  assumes "insert_wake (pending_wake wid parent p key seq now) cause now d = (ins, d')" and "kernel_inv d"
    and "\<And>s. seq = Some s \<Longrightarrow> \<exists>r. find_task parent d = Some r \<and> s \<le> t_child_event_seq r"
  shows "kernel_step d d'"
  using assms by (intro kernel_step_insert_wake [OF assms(1,2)]) (simp add: event_known_def pending_wake_def)

lemma arm_each_step:
  assumes "arm_each wid parent seq now ps d = (created, d')" and "kernel_inv d"
    and "\<exists>r. find_task parent d = Some r \<and> seq \<le> t_child_event_seq r"
  shows "kernel_step d d' \<and> db_tasks d' = db_tasks d"
  using assms
proof (induction ps arbitrary: d created d')
  case Nil
  then show ?case by (simp add: kernel_step_refl)
next
  case (Cons p ps)
  let ?key = "dedupe_key parent p"
  obtain ins d1 where ins: "insert_wake (pending_wake (wid ?key) parent p ?key (Some seq) now) ''armed'' now d = (ins, d1)"
    by fastforce
  obtain c d2 where rest: "arm_each wid parent seq now ps d1 = (c, d2)" by fastforce
  have s: "kernel_step d d1" using arm_one_step [OF ins Cons.prems(2)] Cons.prems(3) by blast
  have t: "db_tasks d1 = db_tasks d" using insert_wake_frame [OF ins] by simp
  from Cons.IH [OF rest kernel_step_inv [OF s]] Cons.prems(3) t
  have "kernel_step d1 d2 \<and> db_tasks d2 = db_tasks d1" by (simp add: find_task_def)
  with s t Cons.prems(1) ins rest show ?case by (auto simp: Let_def intro: kernel_step_trans)
qed

lemma record_wakes_step:
  assumes "record_wakes wid parent now d = (created, d')" and "kernel_inv d"
  shows "kernel_step d d' \<and> db_tasks d' = db_tasks d"
  using assms arm_each_step [OF _ assms(2)]
  by (auto simp: record_wakes_def kernel_step_refl split: option.splits if_splits)

lemma arm_liveness_step:
  assumes "arm_liveness wid parent reason key now one_shot d = (created, d')" and "kernel_inv d"
  shows "kernel_step d d' \<and> db_tasks d' = db_tasks d"
proof (cases "one_shot \<and> list_ex (\<lambda>w. w_dedupe_key w = key \<and> told_wake w) (db_wakes d)")
  case True
  with assms show ?thesis by (auto simp: arm_liveness_def kernel_step_refl)
next
  case False
  obtain ins d1 where ins: "insert_wake (pending_wake (wid key) parent (reason_predicate reason) key None now)
      ''liveness-armed'' now d = (ins, d1)" by fastforce
  with assms(1) False have "d' = d1" by (simp add: arm_liveness_def)
  with arm_one_step [OF ins assms(2)] insert_wake_frame [OF ins] show ?thesis by simp
qed

lemma bump_wakes_ok:
  "db_ok d \<Longrightarrow> db_ok (bump_task tid (\<lambda>r. r\<lparr>t_liveness_wakes := t_liveness_wakes r + 1, t_liveness_since := Some m\<rparr>) d)"
  by (rule bump_task_ok) (auto simp: task_row_ok_def live_holder_def task_untracked_def task_cols_def)

lemma bump_event_ok:
  "db_ok d \<Longrightarrow> db_ok (bump_task tid (\<lambda>r. r\<lparr>t_child_event_seq := t_child_event_seq r + 1\<rparr>) d)"
  by (rule bump_task_ok) (auto simp: task_row_ok_def live_holder_def task_untracked_def task_cols_def)

lemma bump_woken_ok:
  "db_ok d \<Longrightarrow> db_ok (bump_task tid (\<lambda>r. r\<lparr>t_last_woken_seq := max (t_last_woken_seq r) s, t_updated_at := now\<rparr>) d)"
  by (rule bump_task_ok) (auto simp: task_row_ok_def live_holder_def task_untracked_def task_cols_def)

lemma bump_event_step:
  assumes "kernel_inv d"
  shows "kernel_step d (bump_task tid (\<lambda>r. r\<lparr>t_child_event_seq := t_child_event_seq r + 1\<rparr>) d)"
  using assms
  by (intro kernel_step_bump bump_event_ok kernel_inv_ok)
     (auto simp: observation_step_def kernel_inv_def list_all_iff row_inv_def within_budget_def)

lemma arm_stall_step:
  assumes run: "arm_stall wid parent row moment timeout d = (created, d')" and inv: "kernel_inv d"
    and row: "find_task (t_id row) d = Some row"
  shows "kernel_step d d'"
proof (cases "created = []")
  case True
  then obtain c key esc where "d' = d \<or> (arm_liveness wid parent (StallReason (t_liveness row)) key moment False d = (c, d'))"
    using run by (auto simp: arm_stall_def Let_def split: if_splits prod.splits)
  with inv arm_liveness_step show ?thesis by (auto simp: kernel_step_refl)
next
  case False
  with run obtain key d1 where arm: "arm_liveness wid parent (StallReason (t_liveness row)) key moment False d = (created, d1)"
    and d': "d' = bump_task (t_id row)
       (\<lambda>r. r\<lparr>t_liveness_wakes := t_liveness_wakes r + 1, t_liveness_since := Some moment\<rparr>) d1"
    and w: "t_liveness_wakes row = 0 \<or> t_liveness_wakes row = 1"
    by (auto simp: arm_stall_def Let_def split: if_splits prod.splits)
  from arm_liveness_step [OF arm inv] have s: "kernel_step d d1" and t: "db_tasks d1 = db_tasks d" by auto
  note inv1 = kernel_step_inv [OF s]
  have same: "r = row" if "r \<in> set (db_tasks d1)" "t_id r = t_id row" for r
    using lookup_by_mem [OF db_ok_task_ids [OF kernel_inv_ok [OF inv1]] that(1)] that(2) row t
    by (simp add: find_task_def)
  have "row_inv row" by (rule kernel_inv_row [OF inv row])
  with w have bumped: "observation_step row (row\<lparr>t_liveness_wakes := t_liveness_wakes row + 1, t_liveness_since := Some moment\<rparr>)
      \<and> row_inv (row\<lparr>t_liveness_wakes := t_liveness_wakes row + 1, t_liveness_since := Some moment\<rparr>)"
    by (auto simp: observation_step_def row_inv_def within_budget_def)
  have "kernel_step d1 d'" unfolding d'
    by (intro kernel_step_bump [OF inv1] bump_wakes_ok kernel_inv_ok [OF inv1]) (drule (1) same, simp add: bumped)
  with s show ?thesis by (rule kernel_step_trans)
qed

lemma record_liveness_wakes_step:
  assumes run: "record_liveness_wakes wid child moment timeout d = (created, d')" and inv: "kernel_inv d"
  shows "kernel_step d d'"
proof (cases "find_task child d")
  case None
  with assms show ?thesis by (simp add: record_liveness_wakes_def kernel_step_refl)
next
  case (Some row)
  then have id: "t_id row = child" by (auto dest: find_task_SomeD)
  consider (idle) "d' = d"
    | (lost) parent key c where "arm_liveness wid parent LostReason key moment True d = (c, d')"
    | (stall) parent c where "arm_stall wid parent row moment timeout d = (c, d')"
    | (budget) parent c d1 key c2 where "arm_stall wid parent row moment timeout d = (c, d1)"
        "arm_liveness wid parent BudgetReason key moment True d1 = (c2, d')"
    using run Some by (auto simp: record_liveness_wakes_def Let_def split: if_splits prod.splits)
  then show ?thesis
  proof cases
    case idle
    with inv show ?thesis by (simp add: kernel_step_refl)
  next
    case lost
    with inv arm_liveness_step show ?thesis by blast
  next
    case stall
    with inv Some id show ?thesis by (blast intro: arm_stall_step)
  next
    case budget
    have s: "kernel_step d d1" by (rule arm_stall_step [OF budget(1) inv]) (simp add: id Some)
    with arm_liveness_step [OF budget(2) kernel_step_inv [OF s]] show ?thesis by (blast intro: kernel_step_trans)
  qed
qed

lemma finish_with_wakeE:
  assumes "finish_with_wake wid x tid st res ev charge fence now d = Inr ((rec, created), d')"
  obtains x' f d1 where "finish x' tid st res ev charge (Some f) True now d = Inr (rec, d1)"
    "\<not> truthy (t_parent rec) \<Longrightarrow> d' = d1 \<and> created = []"
    "truthy (t_parent rec) \<Longrightarrow> \<exists>cohort d3 live.
       record_wakes wid (the (t_parent rec)) now
         (bump_task (the (t_parent rec)) (\<lambda>r. r\<lparr>t_child_event_seq := t_child_event_seq r + 1\<rparr>) d1) = (cohort, d3)
       \<and> record_liveness_wakes wid (t_id rec) now default_progress_timeout d3 = (live, d')
       \<and> created = cohort @ live"
proof -
  from assms obtain x' f where b: "ebind (finish x' tid st res ev charge (Some f) True now d) (\<lambda>(rec, d1).
         if \<not> truthy (t_parent rec) then Inr ((rec, []), d1)
         else let parent = the (t_parent rec);
                  d2 = bump_task parent (\<lambda>r. r\<lparr>t_child_event_seq := t_child_event_seq r + 1\<rparr>) d1;
                  (cohort, d3) = record_wakes wid parent now d2;
                  (live, d4) = record_liveness_wakes wid (t_id rec) now default_progress_timeout d3
              in Inr ((rec, cohort @ live), d4)) = Inr ((rec, created), d')"
    unfolding finish_with_wake_def by (rule with_fence_Inr) blast
  then obtain pair where p: "finish x' tid st res ev charge (Some f) True now d = Inr pair"
    and k: "(\<lambda>(rec, d1).
         if \<not> truthy (t_parent rec) then Inr ((rec, []), d1)
         else let parent = the (t_parent rec);
                  d2 = bump_task parent (\<lambda>r. r\<lparr>t_child_event_seq := t_child_event_seq r + 1\<rparr>) d1;
                  (cohort, d3) = record_wakes wid parent now d2;
                  (live, d4) = record_liveness_wakes wid (t_id rec) now default_progress_timeout d3
              in Inr ((rec, cohort @ live), d4)) pair = (Inr ((rec, created), d') :: kerror + (task_record \<times> string list) \<times> db)"
    by (rule ebind_InrE)
  obtain rec' d1 where pair: "pair = (rec', d1)" by (cases pair)
  from k pair have "rec' = rec" by (auto simp: Let_def split: if_splits prod.splits)
  with p k pair show thesis
    by (intro that [of x' f d1]) (auto simp: Let_def split: prod.splits)
qed

lemma finish_with_wake_step:
  assumes "finish_with_wake wid x tid st res ev charge fence now d = Inr (res', d')" and inv: "kernel_inv d"
  shows "kernel_step d d'"
proof -
  obtain rec created where res': "res' = (rec, created)" by (cases res')
  from assms(1) [unfolded res'] show ?thesis
  proof (rule finish_with_wakeE)
    fix x' f d1
    assume fin: "finish x' tid st res ev charge (Some f) True now d = Inr (rec, d1)"
      and orphan: "\<not> truthy (t_parent rec) \<Longrightarrow> d' = d1 \<and> created = []"
      and told: "truthy (t_parent rec) \<Longrightarrow> \<exists>cohort d3 live.
       record_wakes wid (the (t_parent rec)) now
         (bump_task (the (t_parent rec)) (\<lambda>r. r\<lparr>t_child_event_seq := t_child_event_seq r + 1\<rparr>) d1) = (cohort, d3)
       \<and> record_liveness_wakes wid (t_id rec) now default_progress_timeout d3 = (live, d')
       \<and> created = cohort @ live"
    have s1: "kernel_step d d1" by (rule kernel_step_lifecycle [OF finish_lifecycle [OF fin kernel_inv_ok [OF inv]] inv])
    show ?thesis
    proof (cases "truthy (t_parent rec)")
      case False
      with orphan s1 show ?thesis by simp
    next
      case True
      let ?d2 = "bump_task (the (t_parent rec)) (\<lambda>r. r\<lparr>t_child_event_seq := t_child_event_seq r + 1\<rparr>) d1"
      from told [OF True] obtain cohort d3 live where
        r: "record_wakes wid (the (t_parent rec)) now ?d2 = (cohort, d3)"
          "record_liveness_wakes wid (t_id rec) now default_progress_timeout d3 = (live, d')" by blast
      have s2: "kernel_step d1 ?d2" by (rule bump_event_step [OF kernel_step_inv [OF s1]])
      have s3: "kernel_step ?d2 d3" using record_wakes_step [OF r(1) kernel_step_inv [OF s2]] by simp
      have "kernel_step d3 d'" by (rule record_liveness_wakes_step [OF r(2) kernel_step_inv [OF s3]])
      with s1 s2 s3 show ?thesis by (blast intro: kernel_step_trans)
    qed
  qed
qed

subsection \<open>Arming a satisfied predicate\<close>

text \<open>The ids an operation draws are new, and different for different keys.\<close>

definition fresh_ids :: "(string \<Rightarrow> string) \<Rightarrow> db \<Rightarrow> bool" where
  "fresh_ids wid d \<longleftrightarrow> inj wid \<and> range wid \<inter> w_id ` set (db_wakes d) = {}"

definition live_keys :: "db \<Rightarrow> string set" where
  "live_keys d = w_dedupe_key ` set (filter live_wake (db_wakes d))"

lemma pending_wake_simps [simp]:
  "live_wake (pending_wake wid parent p key seq now)" "w_id (pending_wake wid parent p key seq now) = wid"
  "w_dedupe_key (pending_wake wid parent p key seq now) = key"
  "w_state (pending_wake wid parent p key seq now) = WPending"
  by (simp_all add: pending_wake_def live_wake_def)

lemma wake_conflict_fresh:
  assumes "wid \<notin> w_id ` set rows"
  shows "wake_conflict (pending_wake wid parent p key seq now) rows
         \<longleftrightarrow> key \<in> w_dedupe_key ` set (filter live_wake rows)"
  using assms by (auto simp: wake_conflict_def list_ex_iff)

lemma arm_one:
  assumes "insert_wake (pending_wake wid parent p key seq now) cause now d = (ins, d')"
    and "wid \<notin> w_id ` set (db_wakes d)"
  shows "ins = (key \<notin> live_keys d)" "live_keys d' = insert key (live_keys d)"
    "w_id ` set (db_wakes d') \<subseteq> insert wid (w_id ` set (db_wakes d))"
    "key \<in> live_keys d \<Longrightarrow> d' = d"
proof -
  note conflict = wake_conflict_fresh [OF assms(2), of parent p key seq now]
  note frame = insert_wake_frame [OF assms(1)]
  show "ins = (key \<notin> live_keys d)" using frame conflict by (simp add: live_keys_def)
  show "live_keys d' = insert key (live_keys d)"
    using frame(6) conflict by (cases "key \<in> live_keys d") (simp_all add: live_keys_def insert_absorb del: set_filter)
  show "w_id ` set (db_wakes d') \<subseteq> insert wid (w_id ` set (db_wakes d))" using frame by auto
  show "d' = d" if "key \<in> live_keys d"
    using assms(1) conflict that by (auto simp: insert_wake_def log_wake_def live_keys_def Let_def)
qed

lemma dedupe_key_inj: "dedupe_key parent p = dedupe_key parent q \<longleftrightarrow> p = q"
  by (cases p; cases q) (auto simp: dedupe_key_def)

lemma arm_each_keys:
  assumes "arm_each wid parent seq now ps d = (created, d')" and "inj wid"
    and "\<And>p. p \<in> set ps \<Longrightarrow> wid (dedupe_key parent p) \<notin> w_id ` set (db_wakes d)" and "distinct ps"
  shows "live_keys d' = live_keys d \<union> dedupe_key parent ` set ps
    \<and> (dedupe_key parent ` set ps \<subseteq> live_keys d \<longrightarrow> d' = d \<and> created = [])
    \<and> w_id ` set (db_wakes d') \<subseteq> w_id ` set (db_wakes d) \<union> wid ` dedupe_key parent ` set ps"
  using assms
proof (induction ps arbitrary: d created d')
  case (Cons p ps)
  let ?key = "dedupe_key parent p"
  obtain ins d1 where ins: "insert_wake (pending_wake (wid ?key) parent p ?key (Some seq) now) ''armed'' now d = (ins, d1)"
    by fastforce
  obtain c d2 where rest: "arm_each wid parent seq now ps d1 = (c, d2)" by fastforce
  have new: "wid ?key \<notin> w_id ` set (db_wakes d)" using Cons.prems(3) by simp
  note one = arm_one [OF ins new]
  have fresh1: "wid (dedupe_key parent q) \<notin> w_id ` set (db_wakes d1)" if "q \<in> set ps" for q
  proof -
    from that Cons.prems(4) have "q \<noteq> p" by auto
    then have "wid (dedupe_key parent q) \<noteq> wid ?key"
      using Cons.prems(2) by (metis injD dedupe_key_inj)
    with one(3) Cons.prems(3) [of q] that show ?thesis by auto
  qed
  from Cons.prems(4) have dist: "distinct ps" by simp
  have d': "d' = d2" "created = (if ins then [wid ?key] else []) @ c"
    using Cons.prems(1) ins rest by (simp_all add: Let_def)
  from Cons.IH [OF rest Cons.prems(2) fresh1 dist] have
    IH: "live_keys d2 = live_keys d1 \<union> dedupe_key parent ` set ps"
      "dedupe_key parent ` set ps \<subseteq> live_keys d1 \<Longrightarrow> d2 = d1 \<and> c = []"
      "w_id ` set (db_wakes d2) \<subseteq> w_id ` set (db_wakes d1) \<union> wid ` dedupe_key parent ` set ps" by blast+
  show ?case
  proof (intro conjI impI)
    show "live_keys d' = live_keys d \<union> dedupe_key parent ` set (p # ps)" using IH(1) one(2) d'(1) by simp
    show "w_id ` set (db_wakes d') \<subseteq> w_id ` set (db_wakes d) \<union> wid ` dedupe_key parent ` set (p # ps)"
      using order_trans [OF IH(3) Un_mono [OF one(3) order_refl]] d'(1) by simp
    assume present: "dedupe_key parent ` set (p # ps) \<subseteq> live_keys d"
    then have "d1 = d" "\<not> ins" using one(1,4) by auto
    then show "d' = d" "created = []" using IH(2) present d' by auto
  qed
qed simp

lemma satisfied_distinct: "distinct (satisfied_predicates parent d)"
  by (auto simp: satisfied_predicates_def Let_def)

lemma record_wakes_keys:
  assumes run: "record_wakes wid parent now d = (created, d')" and fresh: "fresh_ids wid d"
    and row: "find_task parent d = Some r" "t_last_woken_seq r < t_child_event_seq r"
  shows "live_keys d' = live_keys d \<union> dedupe_key parent ` set (satisfied_predicates parent d)
    \<and> (dedupe_key parent ` set (satisfied_predicates parent d) \<subseteq> live_keys d \<longrightarrow> d' = d \<and> created = [])
    \<and> w_id ` set (db_wakes d') \<subseteq> w_id ` set (db_wakes d) \<union> wid ` dedupe_key parent ` UNIV"
proof -
  from run row have "arm_each wid parent (t_child_event_seq r) now (satisfied_predicates parent d) d = (created, d')"
    by (simp add: record_wakes_def)
  moreover from fresh have "inj wid" by (simp add: fresh_ids_def)
  moreover have "wid (dedupe_key parent p) \<notin> w_id ` set (db_wakes d)" for p
    using fresh by (auto simp: fresh_ids_def)
  ultimately have "live_keys d' = live_keys d \<union> dedupe_key parent ` set (satisfied_predicates parent d)
    \<and> (dedupe_key parent ` set (satisfied_predicates parent d) \<subseteq> live_keys d \<longrightarrow> d' = d \<and> created = [])
    \<and> w_id ` set (db_wakes d') \<subseteq> w_id ` set (db_wakes d)
        \<union> wid ` dedupe_key parent ` set (satisfied_predicates parent d)"
    by (rule arm_each_keys [OF _ _ _ satisfied_distinct])
  then show ?thesis by (meson image_mono order_trans subset_UNIV Un_mono order_refl)
qed

lemma satisfied_cong:
  assumes "map (\<lambda>r. (t_parent r, t_state r)) (db_tasks d') = map (\<lambda>r. (t_parent r, t_state r)) (db_tasks d)"
  shows "satisfied_predicates parent d' = satisfied_predicates parent d"
proof -
  have "map t_state (filter (\<lambda>r. t_parent r = Some parent) xs)
        = map snd (filter (\<lambda>x. fst x = Some parent) (map (\<lambda>r. (t_parent r, t_state r)) xs))" for xs :: "task_row list"
    by (induction xs) auto
  then have kids: "map t_state (child_rows parent d') = map t_state (child_rows parent d)"
    using assms by (simp add: child_rows_def)
  have count: "length (filter (\<lambda>r. P (t_state r)) xs) = length (filter P (map t_state xs))"
    for P and xs :: "task_row list"
    by (simp add: filter_map comp_def)
  have none: "child_rows parent e = [] \<longleftrightarrow> map t_state (child_rows parent e) = []" for e by simp
  show ?thesis
    unfolding satisfied_predicates_def Let_def none
    by (simp only: count [of "\<lambda>s. s \<in> live_states"] count [of "\<lambda>s. s = Blocked"] kids)
qed

lemma live_keysD: "key \<in> live_keys d \<Longrightarrow> \<exists>w \<in> set (db_wakes d). live_wake w \<and> w_dedupe_key w = key"
  by (auto simp: live_keys_def)

subsection \<open>Properties\<close>

text \<open>
  A child event the manager has not seen always has its wake in the outbox.  While the
  parent's event counter is ahead of its watermark, a scan leaves, for every wait predicate
  the children satisfy, exactly one live wake; and a second scan arms nothing and writes
  nothing, whatever ids it draws.
\<close>

theorem unseen_event_is_armed:
  assumes "kernel_inv d" and "find_task parent d = Some r" and "t_last_woken_seq r < t_child_event_seq r"
    and "fresh_ids wid d" and "record_wakes wid parent now d = (created, d')"
    and "p \<in> set (satisfied_predicates parent d)"
  shows "length (filter (\<lambda>w. live_wake w \<and> w_dedupe_key w = dedupe_key parent p) (db_wakes d')) = 1
    \<and> (fresh_ids wid' d' \<longrightarrow> record_wakes wid' parent now' d' = ([], d'))"
proof -
  note keys = record_wakes_keys [OF assms(5,4,2,3)]
  from record_wakes_step [OF assms(5,1)] have step: "kernel_step d d'" and rows: "db_tasks d' = db_tasks d" by auto
  let ?live = "filter live_wake (db_wakes d')"
  have "distinct (map w_dedupe_key ?live)"
    using db_ok_wakes [OF kernel_inv_ok [OF kernel_step_inv [OF step]]]
    by (simp add: wake_table_ok_def unique_where_def)
  moreover have "dedupe_key parent p \<in> set (map w_dedupe_key ?live)"
    using keys assms(6) by (auto simp: live_keys_def)
  moreover have "distinct (map f xs) \<Longrightarrow> y \<in> set (map f xs) \<Longrightarrow> length (filter (\<lambda>x. f x = y) xs) = 1"
    for f :: "wake_row \<Rightarrow> string" and xs y
    by (induction xs) (auto simp: filter_empty_conv image_iff)
  ultimately have "length (filter (\<lambda>w. w_dedupe_key w = dedupe_key parent p) ?live) = 1" by blast
  moreover have "record_wakes wid' parent now' d' = ([], d')" if "fresh_ids wid' d'"
  proof -
    have row: "find_task parent d' = Some r" using assms(2) rows by (simp add: find_task_def)
    have same: "satisfied_predicates parent d' = satisfied_predicates parent d"
      by (rule satisfied_cong) (simp add: rows)
    obtain c d2 where again: "record_wakes wid' parent now' d' = (c, d2)" by fastforce
    from record_wakes_keys [OF again that row assms(3)] keys same again show ?thesis by auto
  qed
  ultimately show ?thesis by (simp add: conj_commute)
qed

definition wake_kid :: "task_state \<Rightarrow> task_row" where
  "wake_kid st = (sample_row ''k'' st 0 2)\<lparr>t_parent := Some ''p''\<rparr>"

definition wake_manager :: "int \<Rightarrow> task_row" where
  "wake_manager seq = (sample_row ''p'' Active 0 2)\<lparr>t_child_event_seq := seq\<rparr>"

lemma wake_rows_simps [simp]:
  "t_id (wake_kid st) = ''k''" "t_parent (wake_kid st) = Some ''p''" "t_state (wake_kid st) = st"
  "t_id (wake_manager seq) = ''p''" "t_parent (wake_manager seq) = None" "t_state (wake_manager seq) = Active"
  "t_child_event_seq (wake_manager seq) = seq" "t_last_woken_seq (wake_manager seq) = 0"
  "t_version (wake_kid st) = 0" "t_attempts (wake_kid st) = 0" "t_max_attempts (wake_kid st) = 2"
  by (simp_all add: wake_kid_def wake_manager_def)

lemma wake_rows_table: "task_table_ok [wake_manager seq, wake_kid st]"
  by (simp add: task_table_ok_def task_row_ok_def unique_where_def wake_kid_def wake_manager_def)

lemma wake_rows_inv: "0 \<le> seq \<Longrightarrow> kernel_inv (seed [wake_manager seq, wake_kid st])"
proof (rule kernel_inv_seed [OF wake_rows_table])
  assume "0 \<le> seq"
  then show "list_all row_inv [wake_manager seq, wake_kid st]"
    using sample_row_inv [of 0 2 "''p''" Active] sample_row_inv [of 0 2 "''k''" st]
    by (simp add: row_inv_def within_budget_def wake_kid_def wake_manager_def)
qed

lemma seed_fresh [simp]: "inj wid \<Longrightarrow> fresh_ids wid (seed rows)"
  by (simp add: fresh_ids_def)

theorem unseen_event_is_armed_witness:
  "\<exists>created d'. record_wakes id ''p'' 5 (seed [wake_manager 1, wake_kid Completed]) = (created, d')
     \<and> length (filter (\<lambda>w. live_wake w \<and> w_dedupe_key w = dedupe_key ''p'' AllChildrenTerminal) (db_wakes d')) = 1"
proof -
  let ?d = "seed [wake_manager 1, wake_kid Completed]"
  obtain created d' where r: "record_wakes id ''p'' 5 ?d = (created, d')" by fastforce
  have f: "find_task ''p'' ?d = Some (wake_manager 1)" by (simp add: find_task_def seed_tasks [OF wake_rows_table])
  have "AllChildrenTerminal \<in> set (satisfied_predicates ''p'' ?d)"
    by (simp add: satisfied_predicates_def child_rows_def seed_tasks [OF wake_rows_table] live_states_def)
  from unseen_event_is_armed [OF wake_rows_inv f _ _ r this, of id 5] r show ?thesis by auto
qed

subsubsection \<open>The terminal transition\<close>

lemma finish_state:
  assumes "finish x tid st res ev charge fence shared now d = Inr (rec, d')" and ok: "db_ok d"
  shows "(t_state rec = st \<or> t_state rec = Exhausted)
    \<and> t_state rec \<in> {Completed, Blocked, Cancelled, Lost, Exhausted}"
proof -
  have guarded: "t_state rec = st'"
    if run: "transition_on tid expect ev (\<lambda>r. r\<lparr>t_state := st', t_attempts := t_attempts r + n, t_result := out\<rparr>) att now d
        = Inr (rec, d')" for expect att st' n out
  proof -
    obtain r where "rec = decode_task (r\<lparr>t_state := st', t_attempts := t_attempts r + n, t_result := out,
        t_version := t_version r + 1, t_updated_at := now\<rparr>)"
      by (rule transition_on_write [OF run ok]) simp_all
    then show ?thesis by (simp add: decode_task_def task_record.defs)
  qed
  from assms(1) obtain preds where p: "finish_predecessors st = Some preds"
    by (auto simp: finish_def split: option.splits)
  with assms(1) obtain x' f where "(if st = Lost \<or> charge then record_failure x' tid st res ev (Some f) now d
            else if st = Exhausted then record_exhaustion x' tid res ev (Some f) shared now d
            else transition x' tid preds ev (\<lambda>r. r\<lparr>t_state := st, t_result := res\<rparr>)
                   (state_name st) (Some f) now d) = Inr (rec, d')"
    by (auto simp: finish_def elim!: with_fence_Inr)
  then consider (failed) "record_failure x' tid st res ev (Some f) now d = Inr (rec, d')"
    | (exhausted) "record_exhaustion x' tid res ev (Some f) shared now d = Inr (rec, d')"
    | (plain) "transition_on tid preds ev (\<lambda>r. r\<lparr>t_state := st, t_result := res\<rparr>) (state_name st) now d
        = Inr (rec, d')"
    by (auto split: if_splits)
  then have "t_state rec = st \<or> t_state rec = Exhausted"
  proof cases
    case failed
    then obtain task where t: "find_task tid d = Some task" "t_attempts task < t_max_attempts task"
      by (cases "find_task tid d") (simp_all add: record_failure_def split: if_splits)
    show ?thesis
    proof (cases "t_attempts task + 1 \<ge> t_max_attempts task")
      case True
      with failed t p have "transition_on tid preds ev
        (\<lambda>r. r\<lparr>t_state := Exhausted, t_attempts := t_attempts r + 1,
               t_result := Some (''exhausted: '' @ or_default res (state_name st))\<rparr>) ''exhausted'' now d = Inr (rec, d')"
        by (simp add: record_failure_def)
      from guarded [OF this] show ?thesis by simp
    next
      case False
      with failed t p have "transition_on tid preds ev
        (\<lambda>r. r\<lparr>t_state := st, t_attempts := t_attempts r + 1, t_result := res\<rparr>) (state_name st) now d = Inr (rec, d')"
        by (simp add: record_failure_def)
      from guarded [OF this] show ?thesis by simp
    qed
  next
    case exhausted
    then have "transition_on tid {Reserved, Active, Replacing, Blocked} ev
        (\<lambda>r. r\<lparr>t_state := Exhausted, t_attempts := t_attempts r + 1,
               t_result := Some (''exhausted: '' @ or_default res ''failed'')\<rparr>) ''exhausted'' now d = Inr (rec, d')"
      by (simp add: record_exhaustion_def Let_def split: if_splits)
    from guarded [OF this] show ?thesis by simp
  next
    case plain
    obtain r where "rec = decode_task (r\<lparr>t_state := st, t_result := res,
        t_version := t_version r + 1, t_updated_at := now\<rparr>)"
      by (rule transition_on_write [OF plain ok]) simp_all
    then show ?thesis by (simp add: decode_task_def task_record.defs)
  qed
  with p show ?thesis by (cases st) auto
qed

lemma show_one: "show_int 1 = ''1''"
  by code_simp

lemma last_dedupe_key: "last (dedupe_key parent p) \<noteq> CHR ''1''"
  by (cases p) (simp_all add: dedupe_key_def)

lemma loss_key_no_dedupe: "episode_key child ep reason 1 False \<noteq> dedupe_key parent p"
proof -
  have "last (episode_key child ep reason 1 False) = CHR ''1''" by (simp add: episode_key_def show_one)
  then show ?thesis using last_dedupe_key [of parent p] by metis
qed

lemma arm_liveness_keys:
  assumes run: "arm_liveness wid parent reason key now one_shot d = (created, d')"
    and new: "wid key \<notin> w_id ` set (db_wakes d)"
  shows "live_keys d \<subseteq> live_keys d' \<and> (\<exists>w \<in> set (db_wakes d'). told_wake w \<and> w_dedupe_key w = key)"
proof (cases "one_shot \<and> list_ex (\<lambda>w. w_dedupe_key w = key \<and> told_wake w) (db_wakes d)")
  case True
  with run show ?thesis by (auto simp: arm_liveness_def list_ex_iff)
next
  case False
  obtain ins d1 where ins: "insert_wake (pending_wake (wid key) parent (reason_predicate reason) key None now)
      ''liveness-armed'' now d = (ins, d1)" by fastforce
  with run False have "d' = d1" by (simp add: arm_liveness_def)
  with arm_one(2) [OF ins new] live_keysD [of key d'] show ?thesis
    by (auto simp: told_wake_def live_wake_def)
qed



subsubsection \<open>Stall episodes\<close>

text \<open>
  One stall episode is told at most twice.  For a silent active child within its budget, a
  scan sends nothing unless the episode has sent no wake yet, or has sent exactly one and the
  progress timeout has passed since; the second one carries the escalation key; and each one
  sent is counted in the same transaction, so after two the kernel stays quiet.
\<close>

theorem stall_told_at_most_twice:
  assumes "kernel_inv d" and "find_task child d = Some r" and "t_state r = Active" and "t_parent r = Some p"
    and "p \<noteq> ''''" and "t_liveness r \<in> stall_liveness" and "\<not> t_over_budget r" and "fresh_ids wid d"
    and "record_liveness_wakes wid child moment timeout d = (created, d')" and "created \<noteq> []"
  shows "\<exists>escalated r'. t_liveness_wakes r = (if escalated then 1 else 0)
    \<and> (escalated \<longrightarrow> (\<exists>since. t_liveness_since r = Some since \<and> timeout \<le> moment - since))
    \<and> (\<exists>w \<in> set (db_wakes d'). live_wake w \<and> w_id w \<in> set created \<and> w_predicate w = AnyChildStalled \<and> w_parent w = p
         \<and> w_dedupe_key w = episode_key child (t_epoch r) (StallReason (t_liveness r)) (t_liveness_episode r) escalated)
    \<and> find_task child d' = Some r' \<and> t_liveness_wakes r' = t_liveness_wakes r + 1
    \<and> t_liveness_since r' = Some moment \<and> t_liveness_episode r' = t_liveness_episode r"
proof -
  from assms(2) have id: "t_id r = child" by (auto dest: find_task_SomeD)
  have not_lost: "\<not> reported_lost r" using assms(3) by (simp add: reported_lost_def)
  let ?esc = "t_liveness_wakes r = 1
     \<and> (case t_liveness_since r of None \<Rightarrow> False | Some since \<Rightarrow> timeout \<le> moment - since)"
  let ?key = "episode_key child (t_epoch r) (StallReason (t_liveness r)) (t_liveness_episode r) ?esc"
  let ?f = "\<lambda>r :: task_row. r\<lparr>t_liveness_wakes := t_liveness_wakes r + 1, t_liveness_since := Some moment\<rparr>"
  from assms(2-7,9) not_lost have stall: "arm_stall wid p r moment timeout d = (created, d')"
    by (auto simp: record_liveness_wakes_def truthy_def split: prod.splits)
  with assms(6,10) id obtain d1 where
    arm: "arm_liveness wid p (StallReason (t_liveness r)) ?key moment False d = (created, d1)"
    and due: "t_liveness_wakes r = 0 \<or> ?esc" and d': "d' = bump_task child ?f d1"
    by (auto simp: arm_stall_def Let_def split: if_splits prod.splits)
  obtain ins d2 where ins: "insert_wake (pending_wake (wid ?key) p (reason_predicate (StallReason (t_liveness r))) ?key None moment)
      ''liveness-armed'' moment d = (ins, d2)" by fastforce
  from arm ins assms(10) have d1: "d1 = d2" "ins" "created = [wid ?key]"
    by (auto simp: arm_liveness_def split: if_splits)
  have rows: "db_wakes d' = db_wakes d @ [pending_wake (wid ?key) p AnyChildStalled ?key None moment]"
    using insert_wake_frame [OF ins] d1 by (simp add: d')
  have find': "find_task child d' = Some (?f r)"
    using insert_wake_frame(1) [OF ins] d1(1) assms(2) bump_task_find [of ?f child child d1]
    by (simp add: d' find_task_def)
  show ?thesis
  proof (intro exI [of _ ?esc] exI [of _ "?f r"] conjI)
    show "t_liveness_wakes r = (if ?esc then 1 else 0)" using due by auto
    show "?esc \<longrightarrow> (\<exists>since. t_liveness_since r = Some since \<and> timeout \<le> moment - since)"
      by (auto split: option.splits)
    show "\<exists>w \<in> set (db_wakes d'). live_wake w \<and> w_id w \<in> set created \<and> w_predicate w = AnyChildStalled
        \<and> w_parent w = p \<and> w_dedupe_key w = ?key"
      unfolding rows using d1(3)
      by (intro bexI [of _ "pending_wake (wid ?key) p AnyChildStalled ?key None moment"])
         (simp_all add: pending_wake_def live_wake_def)
  qed (use find' in simp_all)
qed

definition stalled_kid :: "int \<Rightarrow> task_row" where
  "stalled_kid n = (wake_kid Active)\<lparr>t_liveness := Stalled, t_liveness_episode := 1, t_liveness_since := Some 100,
     t_liveness_wakes := n\<rparr>"

lemma stalled_kid_table: "task_table_ok [wake_manager 0, stalled_kid n]"
  by (simp add: stalled_kid_def task_table_ok_def task_row_ok_def unique_where_def wake_kid_def wake_manager_def)

lemma stalled_kid_inv: "0 \<le> n \<Longrightarrow> n \<le> 2 \<Longrightarrow> kernel_inv (seed [wake_manager 0, stalled_kid n])"
  using wake_rows_inv [of 0 Active] kernel_inv_seed [OF stalled_kid_table, of n]
  by (simp add: kernel_inv_def seed_tasks [OF wake_rows_table] seed_tasks [OF stalled_kid_table] row_inv_def
      within_budget_def stalled_kid_def)

theorem stall_told_at_most_twice_witness:
  "\<exists>created d' r'. record_liveness_wakes id ''k'' 2000 1500 (seed [wake_manager 0, stalled_kid 1]) = (created, d')
     \<and> created \<noteq> [] \<and> find_task ''k'' d' = Some r' \<and> t_liveness_wakes r' = 2"
proof -
  let ?d = "seed [wake_manager 0, stalled_kid 1]"
  have f: "find_task ''k'' ?d = Some (stalled_kid 1)"
    by (simp add: find_task_def seed_tasks [OF stalled_kid_table]) (simp add: stalled_kid_def)
  have kid: "t_state (stalled_kid 1) = Active" "t_parent (stalled_kid 1) = Some ''p''"
    "t_liveness (stalled_kid 1) \<in> stall_liveness" "\<not> t_over_budget (stalled_kid 1)"
    "t_liveness_wakes (stalled_kid 1) = 1" "t_liveness_since (stalled_kid 1) = Some 100" "t_id (stalled_kid 1) = ''k''"
    by (simp_all add: stalled_kid_def stall_liveness_def) (simp add: wake_kid_def)
  obtain created d' where run: "record_liveness_wakes id ''k'' 2000 1500 ?d = (created, d')" by fastforce
  have "created \<noteq> []"
    using run f kid
    by (auto simp: record_liveness_wakes_def reported_lost_def truthy_def arm_stall_def Let_def arm_liveness_def
        insert_wake_def wake_conflict_def split: if_splits prod.splits)
  with stall_told_at_most_twice [OF stalled_kid_inv f kid(1,2) _ kid(3,4) _ run] run kid show ?thesis by auto
qed

end
