(* ===== verification/Values.thy ===== *)
theory Values
  imports Prelude
begin

text \<open>
  Dynamic values: what \<open>json.loads\<close> and the executor's HTTP client hand to the Python code,
  with the operations the code applies to them (truth value, \<open>dict.get\<close>, \<open>or\<close>, \<open>str\<close>,
  \<open>str.strip\<close>).  A Python number is an int, a finite float (a real; rounding is not
  modelled) or one of the three non-finite floats.  Integers are taken to be in the range of
  a float, where \<open>float()\<close> and \<open>math.isfinite()\<close> do not raise; numbers are compared as
  Python does, so an int read back as the equal float is the same number.  A string is the
  list of its characters up to code point 255.
\<close>

datatype num = PInt int | PFloat real | PNaN | PPosInf | PNegInf

datatype val = VNone | VBool bool | VNum num | VStr string | VList "val list" | VDict "(string \<times> val) list"

fun finite_num :: "num \<Rightarrow> real option" where
  "finite_num (PInt i) = Some (of_int i)"
| "finite_num (PFloat r) = Some r"
| "finite_num _ = None"

fun vtruthy :: "val \<Rightarrow> bool" where
  "vtruthy VNone = False"
| "vtruthy (VBool b) = b"
| "vtruthy (VNum n) = (finite_num n \<noteq> Some 0)"
| "vtruthy (VStr s) = (s \<noteq> [])"
| "vtruthy (VList vs) = (vs \<noteq> [])"
| "vtruthy (VDict kvs) = (kvs \<noteq> [])"

fun vfield :: "string \<Rightarrow> val \<Rightarrow> val option" where
  "vfield k (VDict kvs) = map_of kvs k"
| "vfield k _ = None"

definition vget :: "string \<Rightarrow> val \<Rightarrow> val" where
  "vget k v = (case vfield k v of None \<Rightarrow> VNone | Some w \<Rightarrow> w)"

fun is_dict :: "val \<Rightarrow> bool" where
  "is_dict (VDict kvs) = True"
| "is_dict _ = False"

text \<open>\<open>a or b\<close> and \<open>str(v or "")\<close>; \<open>pystr\<close> is \<open>str()\<close> of a value that is not a string.\<close>

definition vor :: "val \<Rightarrow> val \<Rightarrow> val" where
  "vor a b = (if vtruthy a then a else b)"

definition text_of :: "(val \<Rightarrow> string) \<Rightarrow> val \<Rightarrow> string" where
  "text_of pystr v = (case v of VStr s \<Rightarrow> s | _ \<Rightarrow> pystr v)"

definition text_or_empty :: "(val \<Rightarrow> string) \<Rightarrow> val \<Rightarrow> string" where
  "text_or_empty pystr v = (if vtruthy v then (case v of VStr s \<Rightarrow> s | _ \<Rightarrow> pystr v) else [])"

fun is_space :: "char \<Rightarrow> bool" where
  "is_space c = (let n = of_char c :: nat in (9 \<le> n \<and> n \<le> 13) \<or> (28 \<le> n \<and> n \<le> 32) \<or> n = 133 \<or> n = 160)"

definition strip :: "string \<Rightarrow> string" where
  "strip s = rev (dropWhile is_space (rev (dropWhile is_space s)))"

lemma vget_VDict [simp]: "vget k (VDict kvs) = (case map_of kvs k of None \<Rightarrow> VNone | Some w \<Rightarrow> w)"
  by (simp add: vget_def)

lemma text_of_VStr [simp]: "text_of pystr (VStr s) = s"
  by (simp add: text_of_def)

lemma text_or_empty_VStr [simp]: "text_or_empty pystr (VStr s) = s"
  by (simp add: text_or_empty_def)

lemma text_or_empty_VNone [simp]: "text_or_empty pystr VNone = []"
  by (simp add: text_or_empty_def)

lemma vor_VNone [simp]: "vor VNone b = b"
  by (simp add: vor_def)

end
