(* ===== verification/Ownership.thy ===== *)
theory Ownership
  imports Values Machine
begin

text \<open>
  Durable session ownership (\<open>succession.py\<close>): the table \<open>terminal_ownerships\<close>, retirement,
  successor links, the walk to the live successor and the handoff of a session's open
  commands.  A row exists exactly when its session is retired or superseded.  The two loops
  over successor links are recursive functions whose termination is proved from the finite
  table; operations of other processes between two statements of one operation are the
  parameter \<open>env\<close>, and the executor's answers are parameters.  A database error
  (\<open>sqlite3.DatabaseError\<close>) is not modelled here.
\<close>

subsection \<open>Records\<close>

datatype terminal_kind = Retired | Superseded

record ownership =
  o_session :: string
  o_state :: terminal_kind
  o_reason :: string
  o_retired_at :: string
  o_logical_key :: "string option"
  o_successor :: "string option"

type_synonym owners = "ownership list"

datatype oerror =
    SelfSuccessor string
  | CorruptRecord string
  | Quarantined ownership
  | NoRecord string
  | OtherSuccessor string string
  | SuccessorCycle
  | NoSuccessorSession
  | BeforeSpawn string
  | SpawnFailed string
  | RequestFailed

text \<open>\<open>TerminalOwnership(**row)\<close>: the constructor rejects a row that is its own successor.\<close>

definition ownership_of_row :: "ownership \<Rightarrow> oerror + ownership" where
  "ownership_of_row r =
     (if o_successor r = Some (o_session r) then Inl (CorruptRecord (o_session r)) else Inr r)"

definition get_owner :: "string \<Rightarrow> owners \<Rightarrow> oerror + ownership option" where
  "get_owner sid rows =
     (case lookup_by o_session sid rows of
        None \<Rightarrow> Inr None
      | Some r \<Rightarrow> ebind (ownership_of_row r) (\<lambda>q. Inr (Some q)))"

definition is_quarantined :: "string \<Rightarrow> owners \<Rightarrow> oerror + bool" where
  "is_quarantined sid rows = ebind (get_owner sid rows) (\<lambda>r. Inr (r \<noteq> None))"

definition assert_deliverable :: "string \<Rightarrow> owners \<Rightarrow> oerror + unit" where
  "assert_deliverable sid rows =
     ebind (get_owner sid rows) (\<lambda>r. case r of None \<Rightarrow> Inr () | Some q \<Rightarrow> Inl (Quarantined q))"

text \<open>
  \<open>INSERT OR IGNORE\<close>, and \<open>retire\<close>: another process may write (\<open>env\<close>) between the read
  and the insert; the row that is there afterwards is returned.
\<close>

definition insert_owner :: "ownership \<Rightarrow> owners \<Rightarrow> owners" where
  "insert_owner r rows = (if lookup_by o_session (o_session r) rows = None then rows @ [r] else rows)"

definition retire ::
  "string \<Rightarrow> terminal_kind \<Rightarrow> string \<Rightarrow> string option \<Rightarrow> string \<Rightarrow> (owners \<Rightarrow> owners) \<Rightarrow> owners
   \<Rightarrow> (oerror + ownership) \<times> owners" where
  "retire sid kind reason key stamp env rows =
     (case get_owner sid rows of
        Inl e \<Rightarrow> (Inl e, rows)
      | Inr (Some q) \<Rightarrow> (Inr q, rows)
      | Inr None \<Rightarrow>
          let rows' = insert_owner \<lparr>o_session = sid, o_state = kind, o_reason = reason, o_retired_at = stamp,
                                    o_logical_key = key, o_successor = None\<rparr> (env rows)
          in (case lookup_by o_session sid rows' of
                None \<Rightarrow> Inl (NoRecord sid)
              | Some r \<Rightarrow> ownership_of_row r, rows'))"

subsection \<open>Following successors\<close>

definition next_session :: "owners \<Rightarrow> string \<Rightarrow> string option" where
  "next_session rows s = (case lookup_by o_session s rows of None \<Rightarrow> None | Some r \<Rightarrow> o_successor r)"

text \<open>The table's sessions that a walk has not visited: the measure of both loops.\<close>

definition unseen :: "owners \<Rightarrow> string list \<Rightarrow> nat" where
  "unseen rows seen = card (o_session ` set rows - set seen)"

lemma unseen_decreases:
  assumes "lookup_by o_session s rows = Some r" "s \<notin> set seen"
  shows "unseen rows (s # seen) < unseen rows seen"
proof -
  from lookup_by_SomeD [OF assms(1)] have "s \<in> o_session ` set rows" by auto
  then have "o_session ` set rows - set (s # seen) \<subset> o_session ` set rows - set seen"
    using assms(2) by auto
  then show ?thesis
    unfolding unseen_def by (intro psubset_card_mono) auto
qed

text \<open>The cycle check of \<open>link_successor\<close>: \<open>True\<close> when the walk meets a session it has seen.\<close>

function meets_seen :: "owners \<Rightarrow> string list \<Rightarrow> string option \<Rightarrow> bool" where
  "meets_seen rows seen None = False"
| "meets_seen rows seen (Some s) =
     (if s \<in> set seen then True else meets_seen rows (s # seen) (next_session rows s))"
  by pat_completeness auto

termination
proof (relation "measure (\<lambda>(rows, seen, cur). unseen rows seen + (case cur of None \<Rightarrow> 0 | Some s \<Rightarrow>
                    if lookup_by o_session s rows = None then 1 else 2))", goal_cases)
  case (2 rows seen s)
  show ?case
  proof (cases "lookup_by o_session s rows")
    case None
    then have "unseen rows (s # seen) = unseen rows seen"
      by (auto simp: unseen_def lookup_by_None_iff intro: arg_cong [of _ _ card])
    with None show ?thesis by (simp add: next_session_def)
  next
    case (Some r)
    with unseen_decreases [OF Some 2] show ?thesis
      by (simp add: next_session_def split: option.split)
  qed
qed simp

definition link_successor :: "string \<Rightarrow> string \<Rightarrow> owners \<Rightarrow> (oerror + ownership) \<times> owners" where
  "link_successor source successor rows =
     (if source = successor then (Inl (SelfSuccessor source), rows)
      else case lookup_by o_session source rows of
        None \<Rightarrow> (Inl (NoRecord source), rows)
      | Some row \<Rightarrow>
          (case o_successor row of
             Some q \<Rightarrow> if q = successor then (ownership_of_row row, rows)
                       else (Inl (OtherSuccessor source q), rows)
           | None \<Rightarrow>
               if meets_seen rows [source] (Some successor) then (Inl SuccessorCycle, rows)
               else (Inr (row\<lparr>o_successor := Some successor\<rparr>),
                     update_by o_session source (\<lambda>r. o_successor r = None)
                       (\<lambda>r. r\<lparr>o_successor := Some successor\<rparr>) rows)))"

text \<open>\<open>resolve_live_successor\<close>; \<open>not successor\<close> also holds of an empty string.\<close>

function resolve_from :: "owners \<Rightarrow> string list \<Rightarrow> ownership \<Rightarrow> oerror + string option" where
  "resolve_from rows seen cur =
     (case o_successor cur of
        None \<Rightarrow> Inr None
      | Some s \<Rightarrow>
          if s = [] \<or> s \<in> set seen then Inr None
          else case lookup_by o_session s rows of
            None \<Rightarrow> Inr (Some s)
          | Some r \<Rightarrow> if o_successor r = Some (o_session r) then Inl (CorruptRecord (o_session r))
                      else resolve_from rows (s # seen) r)"
  by pat_completeness auto

termination
  by (relation "measure (\<lambda>(rows, seen, cur). unseen rows seen)") (auto intro: unseen_decreases)

declare resolve_from.simps [simp del]

definition resolve_live_successor :: "owners \<Rightarrow> string \<Rightarrow> oerror + string option" where
  "resolve_live_successor rows sid =
     (case get_owner sid rows of
        Inl e \<Rightarrow> Inl e
      | Inr None \<Rightarrow> Inr (Some sid)
      | Inr (Some r) \<Rightarrow> resolve_from rows [sid] r)"

text \<open>
  \<open>_migrate_legacy_file\<close>: the records of the old JSON file, all of them or none, inserted or
  ignored.
\<close>

definition migrate_legacy :: "ownership list \<Rightarrow> owners \<Rightarrow> oerror + owners" where
  "migrate_legacy records rows =
     (case find (\<lambda>r. o_successor r = Some (o_session r)) records of
        Some r \<Rightarrow> Inl (CorruptRecord (o_session r))
      | None \<Rightarrow> Inr (foldl (\<lambda>acc r. insert_owner r acc) rows records))"

subsection \<open>Handoff\<close>

text \<open>
  The requests of \<open>transfer_ownership\<close> in the order they are made.  \<open>HBadRow\<close> is the
  \<open>KeyError\<close> of a command row without an id.
\<close>

datatype hevent =
    HSpawn string
  | HSend string string string
  | HInterrupt string
  | HStop string string
  | HBadRow

record handoff =
  h_source :: string
  h_successor :: string
  h_key :: string
  h_spawned :: bool
  h_forwarded :: nat
  h_cancelled :: nat

definition command_terminal_states :: "string list" where
  "command_terminal_states = [''done'', ''failed'', ''cancelled'']"

definition command_open :: "(val \<Rightarrow> string) \<Rightarrow> val \<Rightarrow> bool" where
  "command_open pystr row \<longleftrightarrow>
     text_of pystr (vor (vor (vget ''state'' row) (vget ''status'' row)) (VStr ''pending''))
       \<notin> set command_terminal_states"

definition command_body :: "(val \<Rightarrow> string) \<Rightarrow> val \<Rightarrow> string" where
  "command_body pystr row = text_or_empty pystr (vor (vget ''body'' row) (vget ''prompt'' row))"

definition forward_event :: "(val \<Rightarrow> string) \<Rightarrow> string \<Rightarrow> string \<Rightarrow> val \<Rightarrow> hevent list" where
  "forward_event pystr key successor row =
     (let body = command_body pystr row
      in if body = [] then []
         else [HSend successor body
                 (text_of pystr (vor (vget ''dedupe_key'' row)
                    (VStr (key @ '':command:'' @ text_of pystr (vget ''id'' row)))))])"

definition cancel_event :: "(val \<Rightarrow> string) \<Rightarrow> bool \<Rightarrow> val \<Rightarrow> hevent list" where
  "cancel_event pystr can_interrupt row =
     (if can_interrupt then
        (case vfield ''id'' row of None \<Rightarrow> [HBadRow] | Some i \<Rightarrow> [HInterrupt (text_of pystr i)])
      else if vtruthy (vget ''execution_process_id'' row) then
        (case vfield ''id'' row of
           None \<Rightarrow> [HBadRow]
         | Some i \<Rightarrow> [HStop (text_of pystr (vget ''execution_process_id'' row)) (''quarantine:'' @ text_of pystr i)])
      else [])"

text \<open>Requests run in order until one raises; the one that raised is in the log, it may have landed.\<close>

fun perform :: "(hevent \<Rightarrow> bool) \<Rightarrow> hevent list \<Rightarrow> hevent list \<times> bool" where
  "perform ok [] = ([], True)"
| "perform ok (e # es) =
     (if ok e \<and> e \<noteq> HBadRow then (let (l, b) = perform ok es in (e # l, b)) else ([e], False))"

definition handoff_events :: "(val \<Rightarrow> string) \<Rightarrow> bool \<Rightarrow> string \<Rightarrow> string \<Rightarrow> val list \<Rightarrow> hevent list" where
  "handoff_events pystr can_interrupt key successor rows =
     (let live = filter (command_open pystr) rows
      in concat (map (forward_event pystr key successor) live) @ concat (map (cancel_event pystr can_interrupt) live))"

definition finish_handoff ::
  "(val \<Rightarrow> string) \<Rightarrow> bool \<Rightarrow> (hevent \<Rightarrow> bool) \<Rightarrow> string \<Rightarrow> string \<Rightarrow> string \<Rightarrow> bool \<Rightarrow> val list \<Rightarrow> owners
   \<Rightarrow> (oerror + handoff) \<times> owners \<times> hevent list" where
  "finish_handoff pystr can_interrupt ok source successor key spawned commands owners =
     (case assert_deliverable successor owners of
        Inl e \<Rightarrow> (Inl e, owners, [])
      | Inr _ \<Rightarrow>
          let live = filter (command_open pystr) commands;
              (sent, finished) = perform ok (handoff_events pystr can_interrupt key successor commands)
          in (if finished then
                Inr \<lparr>h_source = source, h_successor = successor, h_key = key, h_spawned = spawned,
                     h_forwarded = length (concat (map (forward_event pystr key successor) live)),
                     h_cancelled = length (concat (map (cancel_event pystr can_interrupt) live))\<rparr>
              else Inl RequestFailed, owners, sent))"

text \<open>
  \<open>transfer_ownership\<close>.  \<open>commands\<close> is the answer of \<open>session_commands\<close> (\<open>None\<close>: it raised),
  \<open>before\<close> what \<open>before_spawn\<close> does, \<open>spawn\<close> the new session or the exception, \<open>env1\<close> and
  \<open>env2\<close> the writes of others while the gate is open and while the successor is spawned.
\<close>

definition transfer_ownership ::
  "(val \<Rightarrow> string) \<Rightarrow> bool \<Rightarrow> (hevent \<Rightarrow> bool) \<Rightarrow> string \<Rightarrow> string \<Rightarrow> string \<Rightarrow> string option
   \<Rightarrow> val list option \<Rightarrow> (oerror + unit) \<Rightarrow> (oerror + string) \<Rightarrow> (owners \<Rightarrow> owners) \<Rightarrow> (owners \<Rightarrow> owners) \<Rightarrow> owners
   \<Rightarrow> (oerror + handoff) \<times> owners \<times> hevent list" where
  "transfer_ownership pystr can_interrupt ok source reason stamp logical_key commands before spawn env1 env2 owners =
     (let key0 = (if truthy logical_key then the logical_key else ''handoff:'' @ source) in
      case retire source Superseded reason (Some key0) stamp (\<lambda>r. r) owners of
        (Inl e, owners1) \<Rightarrow> (Inl e, owners1, [])
      | (Inr record, owners1) \<Rightarrow>
          let key = (if truthy (o_logical_key record) then the (o_logical_key record) else key0) in
          (case commands of
             None \<Rightarrow> (Inl RequestFailed, env1 owners1, [])
           | Some rows \<Rightarrow>
               if truthy (o_successor record) then
                 finish_handoff pystr can_interrupt ok source (the (o_successor record)) key False rows (env1 owners1)
               else (case before of
                 Inl e \<Rightarrow> (Inl e, env1 owners1, [])
               | Inr _ \<Rightarrow>
                   (case spawn of
                      Inl e \<Rightarrow> (Inl e, env2 (env1 owners1), [])
                    | Inr successor \<Rightarrow>
                        if successor = [] then (Inl NoSuccessorSession, env2 (env1 owners1), [HSpawn successor])
                        else (case link_successor source successor (env2 (env1 owners1)) of
                          (Inl e, owners2) \<Rightarrow> (Inl e, owners2, [HSpawn successor])
                        | (Inr _, owners2) \<Rightarrow>
                            (case finish_handoff pystr can_interrupt ok source successor key True rows owners2 of
                               (res, owners3, sent) \<Rightarrow> (res, owners3, HSpawn successor # sent)))))))"
subsection \<open>Provider outcomes\<close>

text \<open>\<open>routing_outcome\<close> of \<open>target["recovery"]\<close>, for the scalars \<open>str\<close> is modelled on.\<close>

definition reroute_outcomes :: "string set" where
  "reroute_outcomes = {''rate_limited'', ''auth'', ''provider_down''}"

definition legacy_outcome :: "string \<Rightarrow> string" where
  "legacy_outcome s = (if s = ''quota'' then ''rate_limited'' else s)"

fun outcome_text :: "json option \<Rightarrow> string" where
  "outcome_text (Some (JStr s)) = s"
| "outcome_text _ = ''''"

definition routing_outcome :: "json option \<Rightarrow> string option" where
  "routing_outcome v =
     (let outcome = legacy_outcome (outcome_text v) in if outcome \<in> reroute_outcomes then Some outcome else None)"

subsection \<open>Links between sessions\<close>

definition links :: "owners \<Rightarrow> (string \<times> string) set" where
  "links rows = {(s, t). next_session rows s = Some t}"

lemma links_iff [simp]: "(s, t) \<in> links rows \<longleftrightarrow> next_session rows s = Some t"
  by (simp add: links_def)

lemma next_session_Some: "lookup_by o_session s rows = Some r \<Longrightarrow> next_session rows s = o_successor r"
  by (simp add: next_session_def)

lemma next_session_None: "lookup_by o_session s rows = None \<Longrightarrow> next_session rows s = None"
  by (simp add: next_session_def)

text \<open>Every session has at most one successor, so a walk has no choice.\<close>

lemma links_walk:
  assumes "(s, t) \<in> (links rows)\<^sup>*" "next_session rows s = Some u" "t \<noteq> s"
  shows "(u, t) \<in> (links rows)\<^sup>*"
  using assms by (auto elim: converse_rtranclE)

lemma links_stop: "(s, t) \<in> (links rows)\<^sup>* \<Longrightarrow> next_session rows s = None \<Longrightarrow> t = s"
  by (auto elim: converse_rtranclE)

lemma no_meet_sound:
  "\<not> meets_seen rows seen (Some s) \<Longrightarrow> (s, t) \<in> (links rows)\<^sup>* \<Longrightarrow> t \<notin> set seen"
proof (induction rows seen "Some s" arbitrary: s rule: meets_seen.induct)
  case (2 rows seen s)
  then have s: "s \<notin> set seen" by (auto split: if_splits)
  show ?case
  proof (cases "t = s")
    case False
    show ?thesis
    proof (cases "next_session rows s")
      case None
      with links_stop 2(3) False show ?thesis by blast
    next
      case (Some u)
      from 2(2) s Some have "\<not> meets_seen rows (s # seen) (Some u)" by simp
      from 2(1) [OF s Some this links_walk [OF 2(3) Some False]] show ?thesis by simp
    qed
  qed (simp add: s)
qed

lemma meet_complete:
  "meets_seen rows seen (Some s) \<Longrightarrow> acyclic (links rows) \<Longrightarrow> \<exists>t \<in> set seen. (s, t) \<in> (links rows)\<^sup>*"
proof (induction rows seen "Some s" arbitrary: s rule: meets_seen.induct)
  case (2 rows seen s)
  show ?case
  proof (cases "s \<in> set seen")
    case False
    with 2(2) obtain u where u: "next_session rows s = Some u" "meets_seen rows (s # seen) (Some u)"
      by (cases "next_session rows s") auto
    from 2(1) [OF False u 2(3)] obtain t where t: "t \<in> set (s # seen)" "(u, t) \<in> (links rows)\<^sup>*" by blast
    have st: "(s, t) \<in> (links rows)\<^sup>+"
      using u(1) t(2) by (meson links_iff rtrancl_into_trancl2)
    with 2(3) have "t \<noteq> s" by (auto simp: acyclic_def)
    with t st show ?thesis by (auto intro: trancl_into_rtrancl)
  qed auto
qed

lemma links_insert_owner:
  "o_successor r = None \<Longrightarrow> links (insert_owner r rows) = links rows"
  by (auto simp: links_def next_session_def insert_owner_def lookup_by_append split: option.splits if_splits)

lemma links_link:
  assumes "lookup_by o_session a rows = Some row" "o_successor row = None"
  shows "links (update_by o_session a (\<lambda>r. o_successor r = None) (\<lambda>r. r\<lparr>o_successor := Some b\<rparr>) rows)
         = insert (a, b) (links rows)"
  using assms by (auto simp: links_def next_session_def lookup_update_by split: option.splits if_splits)

subsection \<open>Histories of the table\<close>

text \<open>
  What a write may do to the table: rows stay, and a row only ever gains a successor.
\<close>

definition row_le :: "ownership \<Rightarrow> ownership \<Rightarrow> bool" where
  "row_le r r' \<longleftrightarrow> r' = r \<or> (o_successor r = None \<and> r' = r\<lparr>o_successor := o_successor r'\<rparr>)"

definition owners_le :: "owners \<Rightarrow> owners \<Rightarrow> bool" where
  "owners_le rows rows' \<longleftrightarrow>
     (\<forall>sid r. lookup_by o_session sid rows = Some r \<longrightarrow>
        (\<exists>r'. lookup_by o_session sid rows' = Some r' \<and> row_le r r'))"

lemma row_le_refl [simp]: "row_le r r"
  by (simp add: row_le_def)

lemma row_le_trans: "row_le a b \<Longrightarrow> row_le b c \<Longrightarrow> row_le a c"
  unfolding row_le_def by (cases a; cases b; cases c) auto

lemma owners_le_refl [simp]: "owners_le rows rows"
  by (simp add: owners_le_def)

lemma owners_le_trans: "owners_le a b \<Longrightarrow> owners_le b c \<Longrightarrow> owners_le a c"
  unfolding owners_le_def by (blast intro: row_le_trans)

lemma owners_le_insert: "owners_le rows (insert_owner r rows)"
  by (auto simp: owners_le_def insert_owner_def lookup_by_append split: option.splits)

lemma owners_le_link:
  "owners_le rows (update_by o_session a (\<lambda>r. o_successor r = None) (\<lambda>r. r\<lparr>o_successor := Some b\<rparr>) rows)"
  by (auto simp: owners_le_def lookup_update_by row_le_def)

inductive owner_step :: "owners \<Rightarrow> owners \<Rightarrow> bool" where
  retiring: "owner_step rows (snd (retire sid kind reason key stamp (\<lambda>r. r) rows))"
| linking: "b \<noteq> [] \<Longrightarrow> owner_step rows (snd (link_successor a b rows))"

definition owners_ok :: "owners \<Rightarrow> bool" where
  "owners_ok rows \<longleftrightarrow> acyclic (links rows) \<and> (\<forall>r \<in> set rows. o_successor r \<noteq> Some [])
     \<and> distinct (map o_session rows)"

lemma owners_ok_not_self:
  assumes "owners_ok rows" "lookup_by o_session s rows = Some r"
  shows "ownership_of_row r = Inr r"
proof -
  have "next_session rows s \<noteq> Some s"
    using assms(1) unfolding owners_ok_def acyclic_def by (metis links_iff r_into_trancl)
  with assms(2) lookup_by_SomeD [OF assms(2)] show ?thesis
    by (simp add: next_session_def ownership_of_row_def)
qed

lemma insert_owner_ok:
  assumes "owners_ok rows" "o_successor r = None"
  shows "owners_ok (insert_owner r rows)"
  using assms by (auto simp: owners_ok_def links_insert_owner)
    (auto simp: insert_owner_def lookup_by_None_iff split: if_splits)

lemma retire_rows:
  "snd (retire sid kind reason key stamp env rows) = rows
   \<or> (\<exists>r. o_session r = sid \<and> o_successor r = None \<and> snd (retire sid kind reason key stamp env rows) = insert_owner r (env rows))"
proof -
  let ?new = "\<lparr>o_session = sid, o_state = kind, o_reason = reason, o_retired_at = stamp, o_logical_key = key, o_successor = None\<rparr>"
  have "snd (retire sid kind reason key stamp env rows) = rows
        \<or> snd (retire sid kind reason key stamp env rows) = insert_owner ?new (env rows)"
    by (auto simp: retire_def Let_def split: sum.splits option.splits)
  then show ?thesis by (auto intro!: exI [of _ ?new])
qed

lemma link_rows:
  "snd (link_successor a b rows) = rows
   \<or> (a \<noteq> b \<and> \<not> meets_seen rows [a] (Some b)
      \<and> (\<exists>row. lookup_by o_session a rows = Some row \<and> o_successor row = None)
      \<and> snd (link_successor a b rows)
          = update_by o_session a (\<lambda>r. o_successor r = None) (\<lambda>r. r\<lparr>o_successor := Some b\<rparr>) rows)"
  by (auto simp: link_successor_def split: option.splits)

lemma link_ok:
  assumes "owners_ok rows" "lookup_by o_session a rows = Some row" "o_successor row = None" "b \<noteq> []"
    "\<not> meets_seen rows [a] (Some b)"
  shows "owners_ok (update_by o_session a (\<lambda>r. o_successor r = None) (\<lambda>r. r\<lparr>o_successor := Some b\<rparr>) rows)"
proof -
  have "(b, a) \<notin> (links rows)\<^sup>*"
    using no_meet_sound [OF assms(5)] by auto
  with assms show ?thesis
    by (auto simp: owners_ok_def links_link acyclic_insert key_update_by dest!: set_update_byD)
qed

lemma owner_step_ok: "owners_ok rows \<Longrightarrow> owner_step rows rows' \<Longrightarrow> owners_ok rows'"
proof -
  assume ok: "owners_ok rows"
  assume "owner_step rows rows'"
  then show "owners_ok rows'"
  proof cases
    case (retiring sid kind reason key stamp)
    with ok show ?thesis
      using retire_rows [of sid kind reason key stamp "\<lambda>r. r" rows] insert_owner_ok by auto
  next
    case (linking b a)
    with ok show ?thesis
      using link_rows [of a b rows] link_ok by auto
  qed
qed

interpretation owner_store: invariant_system owner_step "[]" owners_ok
proof
  show "owners_ok []"
    by (simp add: owners_ok_def links_def next_session_def acyclic_def)
qed (rule owner_step_ok)
lemma owner_step_le:
  assumes "owner_step rows rows'"
  shows "owners_le rows rows'"
  using assms
proof cases
  case (retiring sid kind reason key stamp)
  then show ?thesis
    using retire_rows [of sid kind reason key stamp "\<lambda>r. r" rows] by (auto simp: owners_le_insert)
next
  case (linking b a)
  then show ?thesis
    using link_rows [of a b rows] by (auto simp: owners_le_link)
qed

lemma owner_run_le: "owner_step\<^sup>*\<^sup>* rows rows' \<Longrightarrow> owners_le rows rows'"
  by (induction rule: rtranclp_induct) (auto intro: owners_le_trans owner_step_le)

lemma owner_row_final:
  assumes "owner_step\<^sup>*\<^sup>* rows rows'" "lookup_by o_session sid rows = Some r"
  shows "\<exists>r'. lookup_by o_session sid rows' = Some r' \<and> o_state r' = o_state r \<and> o_reason r' = o_reason r
              \<and> o_retired_at r' = o_retired_at r \<and> o_logical_key r' = o_logical_key r
              \<and> (o_successor r \<noteq> None \<longrightarrow> o_successor r' = o_successor r)"
proof -
  from owner_run_le [OF assms(1)] assms(2) obtain r' where r': "lookup_by o_session sid rows' = Some r'" "row_le r r'"
    unfolding owners_le_def by blast
  from r'(2) have "r' = r \<or> (o_successor r = None \<and> (\<exists>q. r' = r\<lparr>o_successor := q\<rparr>))"
    by (auto simp: row_le_def)
  with r'(1) show ?thesis by auto
qed

text \<open>
  The first terminal record of a session wins forever.  Whatever retirements and links
  follow, the session stays quarantined with the state, reason, time and logical key it was
  first given, and a successor, once linked, is never replaced.
\<close>

theorem terminal_record_is_final:
  assumes "owner_step\<^sup>*\<^sup>* rows rows'" "lookup_by o_session sid rows = Some r"
  shows "\<exists>r'. lookup_by o_session sid rows' = Some r' \<and> o_state r' = o_state r \<and> o_reason r' = o_reason r
              \<and> o_retired_at r' = o_retired_at r \<and> o_logical_key r' = o_logical_key r
              \<and> (o_successor r \<noteq> None \<longrightarrow> o_successor r' = o_successor r)"
  using assms by (rule owner_row_final)

definition owners_sample :: owners where
  "owners_sample = snd (link_successor ''a'' ''b'' (snd (retire ''a'' Superseded ''handoff'' (Some ''k'') ''t0'' (\<lambda>r. r) [])))"

lemma owners_sample_eq:
  "owners_sample = [\<lparr>o_session = ''a'', o_state = Superseded, o_reason = ''handoff'', o_retired_at = ''t0'',
                     o_logical_key = Some ''k'', o_successor = Some ''b''\<rparr>]"
  by (simp add: owners_sample_def retire_def get_owner_def insert_owner_def Let_def link_successor_def next_session_def)

lemma owners_sample_reachable: "owner_step\<^sup>*\<^sup>* [] owners_sample"
proof -
  let ?one = "snd (retire ''a'' Superseded ''handoff'' (Some ''k'') ''t0'' (\<lambda>r. r) [])"
  have "owner_step [] ?one" by (rule retiring)
  moreover have "owner_step ?one owners_sample"
    unfolding owners_sample_def by (rule linking) simp
  ultimately show ?thesis by auto
qed

theorem terminal_record_is_final_witness:
  "\<exists>r'. lookup_by o_session ''a'' (snd (retire ''a'' Retired ''later'' None ''t9'' (\<lambda>r. r) owners_sample)) = Some r'
        \<and> o_state r' = Superseded \<and> o_successor r' = Some ''b''"
proof -
  have "owner_step\<^sup>*\<^sup>* owners_sample (snd (retire ''a'' Retired ''later'' None ''t9'' (\<lambda>r. r) owners_sample))"
    by (rule r_into_rtranclp) (rule retiring)
  from terminal_record_is_final [OF this, of "''a''"] show ?thesis
    by (auto simp: owners_sample_eq)
qed

text \<open>
  A successor link is refused exactly when it would close a cycle.  For a retired session
  without a successor in any reachable table, linking another session succeeds and records it,
  unless the recorded links already lead from that session back to the source.
\<close>

theorem link_refuses_exactly_cycles:
  assumes "owner_step\<^sup>*\<^sup>* [] rows" "lookup_by o_session a rows = Some r" "o_successor r = None" "a \<noteq> b"
  shows "fst (link_successor a b rows)
         = (if (b, a) \<in> (links rows)\<^sup>* then Inl SuccessorCycle else Inr (r\<lparr>o_successor := Some b\<rparr>))
         \<and> ((b, a) \<notin> (links rows)\<^sup>* \<longrightarrow> next_session (snd (link_successor a b rows)) a = Some b)"
proof -
  have ac: "acyclic (links rows)"
    using owner_store.reachable_inv [OF assms(1)] by (simp add: owners_ok_def)
  have iff: "meets_seen rows [a] (Some b) \<longleftrightarrow> (b, a) \<in> (links rows)\<^sup>*"
    using meet_complete [OF _ ac, of "[a]" b] no_meet_sound [of rows "[a]" b a]
    by (auto simp del: meets_seen.simps)
  show ?thesis
    using assms(2-4) iff
    by (auto simp: link_successor_def next_session_def lookup_update_by simp del: meets_seen.simps)
qed

theorem link_refuses_exactly_cycles_witness:
  "fst (link_successor ''b'' ''a'' (snd (retire ''b'' Retired ''x'' None ''t1'' (\<lambda>r. r) owners_sample))) = Inl SuccessorCycle"
proof -
  let ?rows = "snd (retire ''b'' Retired ''x'' None ''t1'' (\<lambda>r. r) owners_sample)"
  have "owner_step\<^sup>*\<^sup>* [] ?rows"
    using owners_sample_reachable by (rule rtranclp.rtrancl_into_rtrancl) (rule retiring)
  moreover have "lookup_by o_session ''b'' ?rows = Some \<lparr>o_session = ''b'', o_state = Retired, o_reason = ''x'',
      o_retired_at = ''t1'', o_logical_key = None, o_successor = None\<rparr>" "(''a'', ''b'') \<in> links ?rows"
    by (simp_all add: retire_def get_owner_def insert_owner_def owners_sample_eq next_session_def)
  ultimately show ?thesis
    using link_refuses_exactly_cycles [of ?rows "''b''" _ "''a''"] by (simp add: r_into_rtrancl)
qed

text \<open>The walk computes the end of the chain.\<close>

lemma resolve_from_spec:
  assumes "owners_ok rows" "lookup_by o_session (o_session cur) rows = Some cur"
    "\<forall>x \<in> set seen. (x, o_session cur) \<in> (links rows)\<^sup>*"
  shows "\<exists>res. resolve_from rows seen cur = Inr res
               \<and> (\<forall>s. res = Some s \<longleftrightarrow> (o_session cur, s) \<in> (links rows)\<^sup>* \<and> lookup_by o_session s rows = None)"
  using assms
proof (induction rows seen cur rule: resolve_from.induct)
  case (1 rows seen cur)
  note nx = next_session_Some [OF 1(3)]
  show ?case
  proof (cases "o_successor cur")
    case None
    then have "(o_session cur, s) \<in> (links rows)\<^sup>* \<Longrightarrow> s = o_session cur" for s
      using links_stop nx by metis
    with None 1(3) show ?thesis
      by (subst resolve_from.simps) auto
  next
    case (Some s)
    have edge: "(o_session cur, s) \<in> links rows" using nx Some by simp
    have ac: "acyclic (links rows)" using 1(2) by (simp add: owners_ok_def)
    have ne: "s \<noteq> []" using 1(2) Some lookup_by_SomeD [OF 1(3)] by (auto simp: owners_ok_def)
    have ns: "s \<notin> set seen"
    proof
      assume "s \<in> set seen"
      with 1(4) have "(s, o_session cur) \<in> (links rows)\<^sup>*" by blast
      from this edge have "(s, s) \<in> (links rows)\<^sup>+" by (rule rtrancl_into_trancl1)
      with ac show False by (auto simp: acyclic_def)
    qed
    have walk: "(o_session cur, t) \<in> (links rows)\<^sup>* \<and> lookup_by o_session t rows = None
                \<longleftrightarrow> (s, t) \<in> (links rows)\<^sup>* \<and> lookup_by o_session t rows = None" for t
      using links_walk [of "o_session cur" t rows s] nx Some 1(3) edge
      by (metis converse_rtrancl_into_rtrancl option.distinct(1))
    show ?thesis
    proof (cases "lookup_by o_session s rows")
      case None
      have "(s, t) \<in> (links rows)\<^sup>* \<Longrightarrow> t = s" for t
        using links_stop next_session_None [OF None] by metis
      with None Some ne ns show ?thesis
        unfolding walk by (subst resolve_from.simps) auto
    next
      case row: (Some r)
      have self: "o_successor r \<noteq> Some (o_session r)"
        using owners_ok_not_self [OF 1(2) row] by (auto simp: ownership_of_row_def split: if_splits)
      have rs: "o_session r = s" using lookup_by_SomeD [OF row] by simp
      have "\<forall>x \<in> set (s # seen). (x, o_session r) \<in> (links rows)\<^sup>*"
        using 1(4) edge rs by (auto intro: rtrancl_into_rtrancl)
      from 1(1) [OF Some _ row self 1(2) _ this] ne ns row rs
      obtain res where "resolve_from rows (s # seen) r = Inr res"
        "\<forall>t. res = Some t \<longleftrightarrow> (s, t) \<in> (links rows)\<^sup>* \<and> lookup_by o_session t rows = None" by auto
      with Some ne ns row self show ?thesis
        unfolding walk by (subst resolve_from.simps) auto
    qed
  qed
qed


subsection \<open>The handoff\<close>

lemma perform_subset: "set (fst (perform ok es)) \<subseteq> set es"
  by (induction ok es rule: perform.induct) (auto simp: case_prod_beta Let_def)

lemma perform_all: "snd (perform ok es) \<Longrightarrow> fst (perform ok es) = es"
  by (induction ok es rule: perform.induct) (auto simp: case_prod_beta Let_def split: if_splits)

lemma forward_event_send: "e \<in> set (forward_event pystr key q row) \<Longrightarrow> \<exists>b k. e = HSend q b k"
  by (auto simp: forward_event_def Let_def split: if_splits)

lemma cancel_event_cases:
  "e \<in> set (cancel_event pystr can row) \<Longrightarrow> e = HBadRow \<or> (\<exists>i. e = HInterrupt i) \<or> (\<exists>p k. e = HStop p k)"
  by (auto simp: cancel_event_def split: if_splits option.splits)

lemma handoff_events_send: "HSend q' b k \<in> set (handoff_events pystr can key q rows) \<Longrightarrow> q' = q"
  by (auto simp: handoff_events_def Let_def dest: forward_event_send cancel_event_cases)

lemma handoff_events_no_spawn: "HSpawn s \<notin> set (handoff_events pystr can key q rows)"
  by (auto simp: handoff_events_def Let_def dest: forward_event_send cancel_event_cases)

lemma finish_handoff_parts:
  assumes "finish_handoff pystr can ok source q key spawned commands rows = (res, rows', sent)"
  shows "rows' = rows" "set sent \<subseteq> set (handoff_events pystr can key q commands)"
    "sent \<noteq> [] \<Longrightarrow> lookup_by o_session q rows = None"
    "\<And>h. res = Inr h \<Longrightarrow> sent = handoff_events pystr can key q commands \<and> h_successor h = q \<and> h_key h = key
          \<and> h_spawned h = spawned \<and> lookup_by o_session q rows = None"
proof -
  note d = assms [unfolded finish_handoff_def]
  obtain l b where p: "perform ok (handoff_events pystr can key q commands) = (l, b)" by fastforce
  show "rows' = rows"
    using d by (auto simp: Let_def p split: sum.splits)
  show "set sent \<subseteq> set (handoff_events pystr can key q commands)"
    using d perform_subset [of ok "handoff_events pystr can key q commands"] by (auto simp: Let_def p split: sum.splits)
  show "sent \<noteq> [] \<Longrightarrow> lookup_by o_session q rows = None"
    using d by (auto simp: Let_def p assert_deliverable_def get_owner_def split: sum.splits option.splits)
  show "res = Inr h \<Longrightarrow> sent = handoff_events pystr can key q commands \<and> h_successor h = q \<and> h_key h = key
          \<and> h_spawned h = spawned \<and> lookup_by o_session q rows = None" for h
    using d perform_all [of ok "handoff_events pystr can key q commands"]
    by (auto simp: Let_def p assert_deliverable_def get_owner_def split: sum.splits option.splits if_splits)
qed

text \<open>The key every command of the handoff is forwarded under.\<close>

definition handoff_key :: "string option \<Rightarrow> string \<Rightarrow> ownership \<Rightarrow> string" where
  "handoff_key logical_key source record =
     (if truthy (o_logical_key record) then the (o_logical_key record)
      else if truthy logical_key then the logical_key else ''handoff:'' @ source)"

lemma retire_ok:
  assumes "owners_ok rows"
  shows "\<exists>r rows'. retire sid kind reason key stamp (\<lambda>r. r) rows = (Inr r, rows') \<and> owner_step rows rows'
          \<and> lookup_by o_session sid rows' = Some r \<and> o_successor r = next_session rows sid"
proof -
  have step: "owner_step rows (snd (retire sid kind reason key stamp (\<lambda>r. r) rows))" by (rule retiring)
  show ?thesis
  proof (cases "lookup_by o_session sid rows")
    case None
    with step show ?thesis
      by (auto simp: retire_def get_owner_def Let_def insert_owner_def lookup_by_append ownership_of_row_def next_session_def)
  next
    case (Some r)
    with step owners_ok_not_self [OF assms Some] show ?thesis
      by (auto simp: retire_def get_owner_def next_session_def)
  qed
qed

lemma link_result:
  assumes "link_successor a b rows = (Inr q, rows')" "owners_ok rows" "b \<noteq> []"
  shows "owner_step rows rows' \<and> next_session rows' a = Some b"
proof -
  have "owner_step rows (snd (link_successor a b rows))" using assms(3) by (rule linking)
  with assms(1) show ?thesis
    by (auto simp: link_successor_def next_session_def lookup_update_by split: if_splits option.splits
        simp del: meets_seen.simps)
qed

lemma link_step_any: "b \<noteq> [] \<Longrightarrow> link_successor a b rows = (res, rows') \<Longrightarrow> owner_step rows rows'"
  using linking [of b rows a] by simp

text \<open>The successful and failing shapes of a transfer, in one elimination rule.\<close>

lemma transfer_cases:
  assumes "transfer_ownership pystr can ok source reason stamp logical commands before spawn env1 env2 owners = (res, owners', sent)"
    "owners_ok owners" "\<And>r. owner_step\<^sup>*\<^sup>* r (env1 r)" "\<And>r. owner_step\<^sup>*\<^sup>* r (env2 r)"
  obtains
    (stopped) "owner_step\<^sup>*\<^sup>* owners owners'" "lookup_by o_session source owners' \<noteq> None" "\<exists>e. res = Inl e"
      "set sent \<subseteq> range HSpawn" "length sent \<le> 1" "sent \<noteq> [] \<Longrightarrow> next_session owners source = None"
  | (linked) own rows q where "owner_step\<^sup>*\<^sup>* owners owners'"
      "\<exists>r'. lookup_by o_session source owners' = Some r' \<and> o_logical_key r' = o_logical_key own"
      "next_session owners' source = Some q" "commands = Some rows"
      "finish_handoff pystr can ok source q (handoff_key logical source own) False rows owners' = (res, owners', sent)"
  | (spawned) own rows q tail where "owner_step\<^sup>*\<^sup>* owners owners'"
      "\<exists>r'. lookup_by o_session source owners' = Some r' \<and> o_logical_key r' = o_logical_key own"
      "next_session owners source = None" "next_session owners' source = Some q" "commands = Some rows"
      "sent = HSpawn q # tail"
      "finish_handoff pystr can ok source q (handoff_key logical source own) True rows owners' = (res, owners', tail)"
proof -
  let ?key0 = "if truthy logical then the logical else ''handoff:'' @ source"
  obtain own owners1 where
    ret: "retire source Superseded reason (Some ?key0) stamp (\<lambda>r. r) owners = (Inr own, owners1)" and
    s1: "owner_step owners owners1" and l1: "lookup_by o_session source owners1 = Some own" and
    n1: "o_successor own = next_session owners source"
    using retire_ok [OF assms(2)] by blast
  have run: "owner_step\<^sup>*\<^sup>* owners (env1 owners1)" "owner_step\<^sup>*\<^sup>* owners (env2 (env1 owners1))"
    using s1 assms(3) [of owners1] assms(4) [of "env1 owners1"] by (auto intro: converse_rtranclp_into_rtranclp rtranclp_trans)
  have stays: "\<exists>r'. lookup_by o_session source rows' = Some r' \<and> o_logical_key r' = o_logical_key own
                    \<and> (o_successor own \<noteq> None \<longrightarrow> o_successor r' = o_successor own)"
    if "owner_step\<^sup>*\<^sup>* owners1 rows'" for rows'
    using owner_row_final [OF that l1] by auto
  have env: "owner_step\<^sup>*\<^sup>* owners1 (env1 owners1)" "owner_step\<^sup>*\<^sup>* owners1 (env2 (env1 owners1))"
    using assms(3) [of owners1] assms(4) [of "env1 owners1"] by (auto intro: rtranclp_trans)
  have in1: "lookup_by o_session source (env1 owners1) \<noteq> None" "lookup_by o_session source (env2 (env1 owners1)) \<noteq> None"
    using stays [OF env(1)] stays [OF env(2)] by auto
  have ne: "o_successor own \<noteq> Some []"
    using owner_step_ok [OF assms(2) s1] lookup_by_SomeD [OF l1] by (auto simp: owners_ok_def)
  have key: "(if truthy (o_logical_key own) then the (o_logical_key own) else ?key0) = handoff_key logical source own"
    by (simp add: handoff_key_def)
  note T = assms(1) [unfolded transfer_ownership_def Let_def ret prod.case sum.case key]
  show thesis
  proof (cases commands)
    case None
    with T run in1 show ?thesis by (intro stopped) auto
  next
    case rows: (Some rows)
    show ?thesis
    proof (cases "o_successor own")
      case (Some q)
      with ne have tr: "truthy (o_successor own)" by (auto simp: truthy_def)
      with T rows Some have fin: "finish_handoff pystr can ok source q (handoff_key logical source own) False rows (env1 owners1)
                                  = (res, owners', sent)" by simp
      from finish_handoff_parts(1) [OF fin] have o': "owners' = env1 owners1" .
      have "next_session (env1 owners1) source = Some q"
        using stays [OF env(1)] Some by (auto simp: next_session_def)
      with linked [OF run(1) [folded o'] _ _ rows, of own q] stays [OF env(1)] fin o' show ?thesis by auto
    next
      case None
      then have nt: "\<not> truthy (o_successor own)" by (simp add: truthy_def)
      have unlinked: "next_session owners source = None" using n1 None by simp
      show ?thesis
      proof (cases before)
        case (Inl e)
        with T rows nt run in1 show ?thesis by (intro stopped) auto
      next
        case (Inr u)
        note T2 = T [unfolded rows option.case if_not_P [OF nt] Inr sum.case]
        show ?thesis
        proof (cases spawn)
          case (Inl e)
          with T2 run in1 show ?thesis by (intro stopped) auto
        next
          case (Inr q)
          note T3 = T2 [unfolded Inr sum.case]
          show ?thesis
          proof (cases "q = []")
            case True
            with T3 run in1 unlinked show ?thesis by (intro stopped) auto
          next
            case False
            obtain lres owners2 where link: "link_successor source q (env2 (env1 owners1)) = (lres, owners2)" by fastforce
            have s2: "owner_step\<^sup>*\<^sup>* owners owners2"
              using run(2) link_step_any [OF False link] by (rule rtranclp.rtrancl_into_rtrancl)
            note in2 = stays [OF rtranclp.rtrancl_into_rtrancl [OF env(2) link_step_any [OF False link]]]
            note T4 = T3 [unfolded if_not_P [OF False] link prod.case]
            show ?thesis
            proof (cases lres)
              case (Inl e)
              with T4 s2 in2 unlinked show ?thesis by (intro stopped) auto
            next
              case (Inr r)
              obtain res' owners3 tail where
                fin: "finish_handoff pystr can ok source q (handoff_key logical source own) True rows owners2 = (res', owners3, tail)"
                by (metis prod_cases3)
              from finish_handoff_parts(1) [OF fin] have o3: "owners3 = owners2" .
              from T4 Inr fin have eq: "res = res'" "owners' = owners2" "sent = HSpawn q # tail" by (auto simp: o3)
              have "owners_ok (env2 (env1 owners1))" by (rule owner_store.run_inv [OF run(2) assms(2)])
              with link_result link Inr False have "next_session owners2 source = Some q" by blast
              with spawned [OF s2 [folded eq(2)] _ unlinked _ rows, of own q tail] in2 eq fin o3 show ?thesis by blast
            qed
          qed
        qed
      qed
    qed
  qed
qed

definition open_command :: val where
  "open_command = VDict [(''id'', VStr ''c1''), (''body'', VStr ''go on''), (''state'', VStr ''pending'')]"

definition sample_handoff :: "owners \<Rightarrow> (oerror + handoff) \<times> owners \<times> hevent list" where
  "sample_handoff = transfer_ownership (\<lambda>_. []) True (\<lambda>_. True) ''a'' ''swap'' ''t0'' (Some ''k'') (Some [open_command])
                      (Inr ()) (Inr ''b'') (\<lambda>r. r) (\<lambda>r. r)"

lemma sample_handoff_first:
  "sample_handoff [] =
    (Inr \<lparr>h_source = ''a'', h_successor = ''b'', h_key = ''k'', h_spawned = True, h_forwarded = 1, h_cancelled = 1\<rparr>,
     [\<lparr>o_session = ''a'', o_state = Superseded, o_reason = ''swap'', o_retired_at = ''t0'', o_logical_key = Some ''k'',
       o_successor = Some ''b''\<rparr>],
     [HSpawn ''b'', HSend ''b'' ''go on'' ''k:command:c1'', HInterrupt ''c1''])"
  by code_simp


text \<open>
  A handoff can be run again after a crash at any point.  Once a transfer has forwarded a
  command or linked its successor, running it again with the same open commands spawns
  nothing, sends to the same successor, and every command goes out with the body and the
  deduplication key the first run used, so the executor's idempotent enqueue collapses them.
\<close>

theorem handoff_rerun_is_idempotent:
  assumes "owner_step\<^sup>*\<^sup>* [] owners" "\<And>r. owner_step\<^sup>*\<^sup>* r (env1 r)" "\<And>r. owner_step\<^sup>*\<^sup>* r (env2 r)"
    "transfer_ownership pystr can ok source reason stamp logical (Some rows) before spawn env1 env2 owners = (res, owners1, sent)"
    "next_session owners1 source = Some q"
    "owner_step\<^sup>*\<^sup>* owners1 owners2"
    "transfer_ownership pystr can ok' source reason' stamp' logical (Some rows) before' spawn' env1 env2 owners2 = (res', owners3, sent')"
  shows "\<exists>key. set sent \<subseteq> range HSpawn \<union> set (handoff_events pystr can key q rows)
               \<and> set sent' \<subseteq> set (handoff_events pystr can key q rows)
               \<and> ((\<exists>h. res' = Inr h) \<longrightarrow> sent' = handoff_events pystr can key q rows)"
proof -
  note ok = owner_store.reachable_inv [OF assms(1)]
  from assms(5) obtain r1 where r1: "lookup_by o_session source owners1 = Some r1" "o_successor r1 = Some q"
    by (auto simp: next_session_def split: option.splits)
  let ?key = "handoff_key logical source r1"
  have first: "owner_step\<^sup>*\<^sup>* owners owners1 \<and> set sent \<subseteq> range HSpawn \<union> set (handoff_events pystr can ?key q rows)"
    using assms(4) ok assms(2,3)
  proof (cases rule: transfer_cases)
    case (linked own rows' q')
    with r1 have "handoff_key logical source own = ?key" "q' = q"
      by (auto simp: handoff_key_def next_session_def)
    with finish_handoff_parts(2) [OF linked(5)] linked(1,4) show ?thesis by auto
  next
    case (spawned own rows' q' tail)
    with r1 have "handoff_key logical source own = ?key" "q' = q"
      by (auto simp: handoff_key_def next_session_def)
    with finish_handoff_parts(2) [OF spawned(7)] spawned(1,5,6) show ?thesis by auto
  qed blast
  have ok2: "owners_ok owners2"
    by (rule owner_store.run_inv [OF rtranclp_trans [OF conjunct1 [OF first] assms(6)] ok])
  from owner_row_final [OF assms(6) r1(1)] r1(2) obtain r2 where
    r2: "lookup_by o_session source owners2 = Some r2" "o_logical_key r2 = o_logical_key r1" "o_successor r2 = Some q" by auto
  have linked2: "next_session owners2 source = Some q" using r2 by (simp add: next_session_def)
  have "set sent' \<subseteq> set (handoff_events pystr can ?key q rows)
        \<and> ((\<exists>h. res' = Inr h) \<longrightarrow> sent' = handoff_events pystr can ?key q rows)"
    using assms(7) ok2 assms(2,3)
  proof (cases rule: transfer_cases)
    case stopped
    then have "sent' = []" using linked2 by auto
    with stopped(3) show ?thesis by auto
  next
    case (linked own rows' q')
    from owner_row_final [OF linked(1) r2(1)] linked(2,3) r2(2,3)
    have "handoff_key logical source own = ?key" "q' = q"
      by (auto simp: handoff_key_def next_session_def)
    with finish_handoff_parts(2,4) [OF linked(5)] linked(4) show ?thesis by auto
  next
    case spawned
    with linked2 show ?thesis by simp
  qed
  with first show ?thesis by blast
qed

theorem handoff_rerun_is_idempotent_witness:
  "\<exists>key. {HSpawn ''b'', HSend ''b'' ''go on'' ''k:command:c1'', HInterrupt ''c1''}
          \<subseteq> range HSpawn \<union> set (handoff_events (\<lambda>_. []) True key ''b'' [open_command])
         \<and> snd (snd (sample_handoff (fst (snd (sample_handoff [])))))
            = handoff_events (\<lambda>_. []) True key ''b'' [open_command]"
proof -
  let ?o1 = "[\<lparr>o_session = ''a'', o_state = Superseded, o_reason = ''swap'', o_retired_at = ''t0'', o_logical_key = Some ''k'',
               o_successor = Some ''b''\<rparr>]"
  have second: "sample_handoff ?o1 =
    (Inr \<lparr>h_source = ''a'', h_successor = ''b'', h_key = ''k'', h_spawned = False, h_forwarded = 1, h_cancelled = 1\<rparr>,
     ?o1, [HSend ''b'' ''go on'' ''k:command:c1'', HInterrupt ''c1''])"
    by code_simp
  have nx: "next_session ?o1 ''a'' = Some ''b''" by (simp add: next_session_def)
  from handoff_rerun_is_idempotent [OF rtranclp.rtrancl_refl rtranclp.rtrancl_refl rtranclp.rtrancl_refl
        sample_handoff_first [unfolded sample_handoff_def] nx rtranclp.rtrancl_refl second [unfolded sample_handoff_def]]
  show ?thesis
    by (simp only: sample_handoff_first fst_conv snd_conv second list.set) blast
qed

end
