(* ===== verification/Sdk.thy ===== *)
theory Sdk
  imports TaskCleanup Effects Wakes Ownership
begin

text \<open>
  The manager's lifecycle calls (\<open>sdk.py\<close>): the writes it makes directly through the store's
  guarded \<open>transition\<close> (the reissue of an expired reservation, the resumption of a prepared
  replacement, a local checkpoint), and the locked decision that ends a task.
\<close>

subsection \<open>Direct transitions\<close>

text \<open>\<open>_reissue_expired\<close>: a lost reservation goes back to \<open>reserved\<close> in a new epoch.\<close>

definition reissue_write :: "ctx \<Rightarrow> task_record \<Rightarrow> json \<Rightarrow> fence option \<Rightarrow> real \<Rightarrow> db \<Rightarrow> kerror + task_record \<times> db" where
  "reissue_write x current spec fence now d =
     transition x (t_id current) {Lost} (Some (t_version current))
       (\<lambda>r. r\<lparr>t_state := Reserved, t_epoch := t_epoch r + 1, t_spec := jcanon spec, t_workspace := None,
              t_holder := None, t_result := None\<rparr>) ''reservation retry'' fence now d"

definition expired_loss :: "task_record \<Rightarrow> bool" where
  "expired_loss t \<longleftrightarrow> t_state t = Lost \<and> t_result t = Some ''reservation expired''"

definition reissue_expired :: "ctx \<Rightarrow> string \<Rightarrow> string \<Rightarrow> json \<Rightarrow> real \<Rightarrow> db \<Rightarrow> kerror + db" where
  "reissue_expired x sc ky spec now d =
     (case get_task sc ky d of
        None \<Rightarrow> Inr d
      | Some task \<Rightarrow>
          if \<not> expired_loss task then Inr d
          else
            let y = lock_ctx (t_id task) x; f = lock_fence (t_id task) x in
            case get_by_id (t_id task) d of
              None \<Rightarrow> Inr d
            | Some current \<Rightarrow>
                if \<not> expired_loss current then Inr d
                else if t_attempts current \<ge> t_max_attempts current
                then Inl (CircuitBreaker ky (t_max_attempts current))
                else ebind (reissue_write y current spec (Some f) now d) (\<lambda>(_, d'). Inr d'))"

fun jdel :: "string \<Rightarrow> json \<Rightarrow> json" where
  "jdel k (JObj kvs) = JObj (filter (\<lambda>(c, _). c \<noteq> k) kvs)"
| "jdel k j = j"

text \<open>
  The write of \<open>replace\<close>: a task already \<open>replacing\<close> is resumed with its recovery mark removed
  (and, if the mark was an automatic recovery, a new epoch and one charged attempt); any other
  is prepared by the store.
\<close>

definition resume_write ::
  "ctx \<Rightarrow> task_record \<Rightarrow> bool \<Rightarrow> json \<Rightarrow> fence option \<Rightarrow> real \<Rightarrow> db \<Rightarrow> kerror + task_record \<times> db" where
  "resume_write x task automatic target fence now d =
     transition x (t_id task) {Replacing} (Some (t_version task))
       (\<lambda>r. (if automatic then r\<lparr>t_epoch := t_epoch r + 1, t_attempts := t_attempts r + 1\<rparr> else r)
              \<lparr>t_spec := jcanon (jset ''target'' target (t_spec task))\<rparr>)
       ''manual replacement resume'' fence now d"

definition prepare_manual_replacement ::
  "ctx \<Rightarrow> task_record \<Rightarrow> fence \<Rightarrow> real \<Rightarrow> db \<Rightarrow> kerror + task_record \<times> db" where
  "prepare_manual_replacement x task fence now d =
     (if \<not> truthy (t_workspace task) \<or> \<not> truthy (t_holder task)
      then Inl (ClientFailed ''no session to replace'')
      else case jget ''target'' (t_spec task) of
        None \<Rightarrow> Inl SpecMalformed
      | Some target \<Rightarrow>
          let automatic = (routing_outcome (jget ''recovery'' target) \<noteq> None);
              cleaned = jdel ''recovery'' target
          in if t_state task = Replacing
             then resume_write x task automatic cleaned (Some fence) now d
             else prepare_replacement x (t_id task) (Some cleaned) False (Some (t_version task)) (Some fence) now d)"

text \<open>\<open>checkpoint\<close> without a retention backend.\<close>

definition checkpoint_local ::
  "ctx \<Rightarrow> task_record \<Rightarrow> string \<Rightarrow> fence option \<Rightarrow> real \<Rightarrow> db \<Rightarrow> kerror + task_record \<times> db" where
  "checkpoint_local x task reference fence now d =
     transition x (t_id task) live_states (Some (t_version task))
       (\<lambda>r. r\<lparr>t_checkpoint := Some reference, t_checkpoint_at := Some now\<rparr>) ''checkpoint'' fence now d"

subsection \<open>Ending a task\<close>

text \<open>
  \<open>_finish\<close>: a repeated call for the state already reached is not an error.  The store may have
  committed nothing (error) or everything (success).
\<close>

definition sdk_finish ::
  "(string \<Rightarrow> string) \<Rightarrow> ctx \<Rightarrow> string \<Rightarrow> task_state \<Rightarrow> string option \<Rightarrow> bool \<Rightarrow> fence \<Rightarrow> real \<Rightarrow> db
   \<Rightarrow> kerror + task_record \<times> db" where
  "sdk_finish wid x tid st res charge fence now d =
     (case finish_with_wake wid x tid st res None charge (Some fence) now d of
        Inr ((rec, _), d') \<Rightarrow> Inr (rec, d')
      | Inl (StaleTransition current att) \<Rightarrow>
          if t_state current = st then Inr (current, d) else Inl (StaleTransition current att)
      | Inl e \<Rightarrow> Inl e)"

definition session_text :: "string option \<Rightarrow> string" where
  "session_text s = (case s of None \<Rightarrow> ''None'' | Some v \<Rightarrow> v)"

definition pending_send :: "string \<Rightarrow> native_command" where
  "pending_send native = \<lparr>n_state = ''pending'', n_id = native, n_process = None\<rparr>"

text \<open>The fencing of \<open>_finish_locked\<close>: the snapshot of the queue, then every send with a native id.\<close>

definition fence_terminal :: "task_record \<Rightarrow> native_command list \<Rightarrow> real \<Rightarrow> db \<Rightarrow> db" where
  "fence_terminal current cmds now d =
     (let d1 = record_cleanup_intents (t_id current) (t_epoch current) (session_text (t_holder current)) cmds now d
      in foldl (\<lambda>d o'. if truthy (o_native_id o')
                       then record_cleanup_intents (t_id current) (t_epoch current) (session_text (t_holder current))
                              [pending_send (the (o_native_id o'))] now d
                       else d)
           d1 (terminal_outgoing_commands (t_id current) (t_epoch current) d1))"

text \<open>
  The decision of \<open>_finish_locked\<close> under the task's lock: several transactions, so a failure
  comes with what was already committed.  \<open>cmds\<close> is the executor's answer read before the
  lock (\<open>[]\<close> when the task has no holder or the state is not terminal).
\<close>

definition finish_locked ::
  "(string \<Rightarrow> string) \<Rightarrow> ctx \<Rightarrow> task_record \<Rightarrow> task_state \<Rightarrow> string option \<Rightarrow> native_command list \<Rightarrow> real \<Rightarrow> db
   \<Rightarrow> (kerror + task_record \<times> effect option) \<times> db" where
  "finish_locked wid x task st res cmds now d =
     (let y = lock_ctx (t_id task) x; f = lock_fence (t_id task) x in
      case get_by_id (t_id task) d of
        None \<Rightarrow> (Inl TaskNotFound, d)
      | Some current \<Rightarrow>
          let d1 = (if st \<in> terminal_states \<and> t_holder current = t_holder task
                    then fence_terminal current cmds now d else d)
          in case sdk_finish wid y (t_id current) st res False f now d1 of
               Inl e \<Rightarrow> (Inl e, d1)
             | Inr (updated, d2) \<Rightarrow>
                 (case get_effect (t_id current) (t_epoch current) d2 of
                    None \<Rightarrow> (Inr (updated, None), d2)
                  | Some eff \<Rightarrow>
                      if st \<in> terminal_states \<and> e_state eff \<noteq> ETerminal
                      then (case mark_terminal (t_id current) (t_epoch current) (state_name st) None now d2 of
                              Inl e \<Rightarrow> (Inl e, d2)
                            | Inr (eff', d3) \<Rightarrow> (Inr (updated, Some eff'), d3))
                      else (Inr (updated, Some eff), d2)))"

subsection \<open>Lifecycle writes and kernel steps\<close>

lemma reissue_lifecycle:
  assumes "reissue_write x current spec fence now d = Inr (rec, d')" and "db_ok d"
  shows "lifecycle_write (t_id current) rec d d'"
  using assms(1) unfolding reissue_write_def
  by (auto simp: lifecycle_defs intro!: transition_on_lifecycle [OF _ assms(2)])

lemma resume_lifecycle:
  assumes "resume_write x task automatic target fence now d = Inr (rec, d')" and "db_ok d"
    and "\<And>r. automatic \<Longrightarrow> find_task (t_id task) d = Some r \<Longrightarrow> t_attempts r < t_max_attempts r"
  shows "lifecycle_write (t_id task) rec d d'"
  using assms(1) unfolding resume_write_def transition_eq_Inr
proof (elim conjE)
  assume "transition_on (t_id task) {Replacing} (Some (t_version task))
       (\<lambda>r. (if automatic then r\<lparr>t_epoch := t_epoch r + 1, t_attempts := t_attempts r + 1\<rparr> else r)
              \<lparr>t_spec := jcanon (jset ''target'' target (t_spec task))\<rparr>)
       ''manual replacement resume'' now d = Inr (rec, d')"
  then show ?thesis
    by (rule transition_on_lifecycle [OF _ assms(2)]) (use assms(3) in \<open>auto simp: lifecycle_defs\<close>)
qed

lemma checkpoint_local_lifecycle:
  assumes "checkpoint_local x task reference fence now d = Inr (rec, d')" and "db_ok d"
  shows "lifecycle_write (t_id task) rec d d'"
  using assms(1) unfolding checkpoint_local_def
  by (auto simp: lifecycle_defs intro!: transition_on_lifecycle [OF _ assms(2)])

text \<open>
  C33: an expired reservation can be issued again, once per loss.  A task lost because its
  reservation expired, with an attempt left, goes back to \<open>reserved\<close> in the next epoch with the
  given specification, no holder and no result, its attempts as they were; a task in any
  other condition is left exactly as it is.
\<close>

theorem reissue_reopens_lost:
  assumes "db_ok d" and "find_task_by_key sc ky d = Some r" and "t_attempts r < t_max_attempts r"
  shows "if t_state r = Lost \<and> t_result r = Some ''reservation expired''
    then \<exists>d' r'. reissue_expired x sc ky spec now d = Inr d' \<and> task_write (t_id r) r r' d d'
           \<and> t_state r' = Reserved \<and> t_epoch r' = t_epoch r + 1 \<and> t_attempts r' = t_attempts r
           \<and> t_holder r' = None \<and> t_workspace r' = None \<and> t_result r' = None \<and> t_spec r' = jcanon spec
    else reissue_expired x sc ky spec now d = Inr d"
proof -
  have get: "get_task sc ky d = Some (decode_task r)" using assms(2) by (simp add: get_task_def)
  from assms(2) have "r \<in> set (db_tasks d)" by (auto simp: find_task_by_key_def dest: lookup_by_SomeD)
  then have f: "find_task (t_id r) d = Some r"
    using lookup_by_mem [OF db_ok_task_ids [OF assms(1)]] by (simp add: find_task_def)
  have dec: "t_id (decode_task r) = t_id r" "t_state (decode_task r) = t_state r" "t_result (decode_task r) = t_result r"
    "t_attempts (decode_task r) = t_attempts r" "t_max_attempts (decode_task r) = t_max_attempts r"
    "t_version (decode_task r) = t_version r"
    by (simp_all add: decode_task_def task_record.defs)
  show ?thesis
  proof (cases "t_state r = Lost \<and> t_result r = Some ''reservation expired''")
    case True
    let ?assign = "\<lambda>r :: task_row. r\<lparr>t_state := Reserved, t_epoch := t_epoch r + 1, t_spec := jcanon spec,
        t_workspace := None, t_holder := None, t_result := None\<rparr>"
    let ?r' = "(?assign r)\<lparr>t_version := t_version r + 1, t_updated_at := now\<rparr>"
    have "\<exists>d'. transition_on (t_id r) {Lost} (Some (t_version r)) ?assign ''reservation retry'' now d
        = Inr (decode_task ?r', d') \<and> task_write (t_id r) r ?r' d d'"
      by (rule transition_on_succeeds [OF assms(1) f])
         (use True db_ok_row [OF assms(1) f] in \<open>auto simp: live_holder_def task_row_ok_def\<close>)
    then obtain d' where run: "transition_on (t_id r) {Lost} (Some (t_version r)) ?assign ''reservation retry'' now d
        = Inr (decode_task ?r', d')" and w: "task_write (t_id r) r ?r' d d'" by blast
    with True get f assms(3) have "reissue_expired x sc ky spec now d = Inr d'"
      by (simp add: reissue_expired_def expired_loss_def reissue_write_def get_by_id_def dec Let_def transition_def)
    with w have "reissue_expired x sc ky spec now d = Inr d' \<and> task_write (t_id r) r ?r' d d'
        \<and> t_state ?r' = Reserved \<and> t_epoch ?r' = t_epoch r + 1 \<and> t_attempts ?r' = t_attempts r
        \<and> t_holder ?r' = None \<and> t_workspace ?r' = None \<and> t_result ?r' = None \<and> t_spec ?r' = jcanon spec" by simp
    then show ?thesis unfolding if_P [OF True] by blast
  next
    case False
    with get show ?thesis by (auto simp: reissue_expired_def expired_loss_def dec)
  qed
qed

definition lost_row :: task_row where
  "lost_row = (sample_row ''a'' Lost 1 2)\<lparr>t_result := Some ''reservation expired''\<rparr>"

lemma lost_row_table: "task_table_ok [lost_row]"
  by (simp add: lost_row_def sample_defs)

theorem reissue_reopens_lost_witness:
  "\<exists>d' r'. reissue_expired sample_ctx ''scope'' ''a'' (JObj []) 9 (seed [lost_row]) = Inr d'
     \<and> task_write ''a'' lost_row r' (seed [lost_row]) d' \<and> t_state r' = Reserved \<and> t_epoch r' = 2"
proof -
  have f: "find_task_by_key ''scope'' ''a'' (seed [lost_row]) = Some lost_row"
    by (simp add: find_task_by_key_def seed_tasks [OF lost_row_table]) (simp add: lost_row_def)
  from reissue_reopens_lost [OF seed_ok f, of sample_ctx "JObj []" 9] show ?thesis by (auto simp: lost_row_def)
qed

text \<open>
  C38: resuming a prepared recovery charges past the budget.  \<open>prepare_replacement\<close> refuses a task
  whose attempts are spent; the resumption of an automatic recovery looks only at the state
  and the version, so on a task that has already charged its whole allowance it succeeds and
  leaves it \<open>replacing\<close> with one attempt more than the allowance.
\<close>

theorem resume_skips_budget:
  assumes "db_ok d" and "find_task tid d = Some r" and "t_state r = Replacing" and "t_attempts r = t_max_attempts r"
    and "truthy (t_workspace r)" and "truthy (t_holder r)" and "jget ''target'' (t_spec r) = Some target"
    and "routing_outcome (jget ''recovery'' target) \<noteq> None"
  shows "prepare_replacement (lock_ctx tid x) tid None False None (Some (lock_fence tid x)) now d
      = Inl (CircuitBreaker (t_key r) (t_max_attempts r))
    \<and> (\<exists>d' r'. prepare_manual_replacement (lock_ctx tid x) (decode_task r) (lock_fence tid x) now d
                 = Inr (decode_task r', d') \<and> find_task tid d' = Some r'
             \<and> t_state r' = Replacing \<and> t_attempts r' = t_max_attempts r' + 1)"
proof -
  have id: "t_id r = tid" using assms(2) by (auto dest: find_task_SomeD)
  let ?spec = "jcanon (jset ''target'' (jdel ''recovery'' target) (t_spec r))"
  let ?assign = "\<lambda>r :: task_row. r\<lparr>t_epoch := t_epoch r + 1, t_attempts := t_attempts r + 1, t_spec := ?spec\<rparr>"
  let ?r' = "(?assign r)\<lparr>t_version := t_version r + 1, t_updated_at := now\<rparr>"
  have "live_holder (?assign r) \<Longrightarrow>
      \<forall>y \<in> set (db_tasks d). t_id y \<noteq> tid \<longrightarrow> live_holder y \<longrightarrow> t_holder y \<noteq> t_holder (?assign r)"
  proof (intro ballI impI)
    fix y
    assume live: "live_holder (?assign r)" and y: "y \<in> set (db_tasks d)" "t_id y \<noteq> tid" "live_holder y"
    from assms(2) have r: "r \<in> set (db_tasks d)" by (auto dest: find_task_SomeD)
    from live have "live_holder r" by (simp add: live_holder_def)
    with db_ok_tasks [OF assms(1)] unique_whereD [of live_holder t_holder "db_tasks d" y r] y r id
    show "t_holder y \<noteq> t_holder (?assign r)" by (auto simp: task_table_ok_def distinct_map)
  qed
  with db_ok_row [OF assms(1,2)] assms(3) have "\<exists>d'. transition_on tid {Replacing} (Some (t_version r)) ?assign
      ''manual replacement resume'' now d = Inr (decode_task ?r', d') \<and> task_write tid r ?r' d d'"
    by (intro transition_on_succeeds [OF assms(1,2)]) (auto simp: task_row_ok_def)
  then obtain d' where run: "transition_on tid {Replacing} (Some (t_version r)) ?assign
      ''manual replacement resume'' now d = Inr (decode_task ?r', d')" and w: "task_write tid r ?r' d d'" by blast
  have dec: "t_id (decode_task r) = tid" "t_state (decode_task r) = Replacing" "t_version (decode_task r) = t_version r"
    "t_workspace (decode_task r) = t_workspace r" "t_holder (decode_task r) = t_holder r" "t_spec (decode_task r) = t_spec r"
    using id assms(3) by (simp_all add: decode_task_def task_record.defs)
  have "prepare_manual_replacement (lock_ctx tid x) (decode_task r) (lock_fence tid x) now d = Inr (decode_task ?r', d')"
    using assms(5-8) run by (simp add: prepare_manual_replacement_def dec resume_write_def transition_def)
  moreover have "find_task tid d' = Some ?r'" using w by (simp add: task_write_find)
  ultimately show ?thesis using assms(2-4) by (force simp: prepare_replacement_def with_fence_def)
qed

definition recovery_row :: task_row where
  "recovery_row = (sample_row ''a'' Replacing 2 2)\<lparr>t_workspace := Some ''w'',
     t_spec := JObj [(''target'', JObj [(''recovery'', JStr ''auth'')])]\<rparr>"

theorem resume_skips_budget_witness:
  "\<exists>d' r'. prepare_manual_replacement (lock_ctx ''a'' sample_ctx) (decode_task recovery_row) (lock_fence ''a'' sample_ctx)
       9 (seed [recovery_row]) = Inr (decode_task r', d')
     \<and> find_task ''a'' d' = Some r' \<and> t_attempts r' = t_max_attempts r' + 1"
proof -
  have t: "task_table_ok [recovery_row]" by (simp add: recovery_row_def sample_defs)
  have f: "find_task ''a'' (seed [recovery_row]) = Some recovery_row"
    by (simp add: find_task_def seed_tasks [OF t]) (simp add: recovery_row_def)
  from resume_skips_budget [OF seed_ok f, of "JObj [(''recovery'', JStr ''auth'')]" sample_ctx 9] show ?thesis
    by (auto simp: recovery_row_def truthy_def routing_outcome_def legacy_outcome_def reroute_outcomes_def)
qed

subsection \<open>The terminal decision\<close>

lemma fence_terminal_facts:
  "fenced_keys (fence_terminal current cmds now d)
   = fenced_keys d
     \<union> {(t_id current, t_epoch current, kind, native) |kind native. (kind, native) \<in> set (intents_for cmds)}
     \<union> {(t_id current, t_epoch current, CommandCancel, the (o_native_id o')) |o'.
          o' \<in> set (terminal_outgoing_commands (t_id current) (t_epoch current) d) \<and> truthy (o_native_id o')}"
proof -
  let ?s = "session_text (t_holder current)"
  let ?d1 = "record_cleanup_intents (t_id current) (t_epoch current) ?s cmds now d"
  have out: "db_outgoing (record_cleanup_intents tid ep ss cs now d) = db_outgoing d" for tid ep ss cs d
    unfolding record_cleanup_intents_def
    by (rule foldl_invariant [where I = "\<lambda>s. db_outgoing s = db_outgoing d"]) (auto split: prod.splits)
  have one: "intents_for [pending_send n] = [(CommandCancel, n)]" for n
    by (simp add: pending_send_def finished_command_def truthy_def)
  have folded: "fenced_keys (foldl (\<lambda>d o'. if truthy (o_native_id o')
           then record_cleanup_intents (t_id current) (t_epoch current) ?s [pending_send (the (o_native_id o'))] now d
           else d) e xs)
      = fenced_keys e \<union> {(t_id current, t_epoch current, CommandCancel, the (o_native_id o')) |o'.
          o' \<in> set xs \<and> truthy (o_native_id o')}" for e xs
    by (induction xs arbitrary: e) (auto simp: record_intents_fenced one simp del: intents_for.simps)
  have same: "terminal_outgoing_commands (t_id current) (t_epoch current) ?d1
      = terminal_outgoing_commands (t_id current) (t_epoch current) d"
    by (simp add: terminal_outgoing_commands_def out)
  show ?thesis unfolding fence_terminal_def Let_def same folded record_intents_fenced by (rule refl)
qed

lemma wakes_keep_side:
  "record_wakes wid parent now d = (created, d') \<Longrightarrow>
     db_cleanups d' = db_cleanups d \<and> db_outgoing d' = db_outgoing d \<and> db_effects d' = db_effects d"
  "arm_liveness wid parent reason key now one_shot d = (created, d') \<Longrightarrow>
     db_cleanups d' = db_cleanups d \<and> db_outgoing d' = db_outgoing d \<and> db_effects d' = db_effects d"
proof -
  have each: "arm_each wid parent seq now ps d = (created, d') \<Longrightarrow>
     db_cleanups d' = db_cleanups d \<and> db_outgoing d' = db_outgoing d \<and> db_effects d' = db_effects d" for seq ps
  proof (induction ps arbitrary: d created)
    case (Cons p ps)
    obtain ins d1 where ins: "insert_wake (pending_wake (wid (dedupe_key parent p)) parent p (dedupe_key parent p) (Some seq) now)
        ''armed'' now d = (ins, d1)" by fastforce
    with Cons.prems Cons.IH [of d1] insert_wake_frame [OF ins] show ?case
      by (auto simp: Let_def split: prod.splits)
  qed simp
  show "record_wakes wid parent now d = (created, d') \<Longrightarrow>
     db_cleanups d' = db_cleanups d \<and> db_outgoing d' = db_outgoing d \<and> db_effects d' = db_effects d"
    using each by (auto simp: record_wakes_def split: option.splits if_splits)
  show "arm_liveness wid parent reason key now one_shot d = (created, d') \<Longrightarrow>
     db_cleanups d' = db_cleanups d \<and> db_outgoing d' = db_outgoing d \<and> db_effects d' = db_effects d"
    using insert_wake_frame by (auto simp: arm_liveness_def Let_def split: if_splits prod.splits)
qed

lemma liveness_wakes_keep_side:
  assumes "record_liveness_wakes wid child moment timeout d = (created, d')"
  shows "db_cleanups d' = db_cleanups d \<and> db_outgoing d' = db_outgoing d \<and> db_effects d' = db_effects d"
proof -
  have stall: "db_cleanups d2 = db_cleanups d1 \<and> db_outgoing d2 = db_outgoing d1 \<and> db_effects d2 = db_effects d1"
    if "arm_stall wid parent row moment timeout d1 = (c, d2)" for parent row d1 c d2
    using that wakes_keep_side(2) by (fastforce simp: arm_stall_def Let_def split: if_splits prod.splits)
  show ?thesis
    using assms wakes_keep_side(2) stall
    by (fastforce simp: record_liveness_wakes_def Let_def split: if_splits option.splits prod.splits)
qed

lemma finish_with_wake_side:
  assumes "finish_with_wake wid x tid st res ev charge fence now d = Inr ((rec, created), d')" and "db_ok d"
  shows "db_cleanups d' = db_cleanups d \<and> db_outgoing d' = db_outgoing d \<and> db_effects d' = db_effects d
    \<and> (t_state rec = st \<or> t_state rec = Exhausted)"
  using assms(1)
proof (rule finish_with_wakeE)
  fix x' f d1
  assume fin: "finish x' tid st res ev charge (Some f) True now d = Inr (rec, d1)"
    and alone: "\<not> truthy (t_parent rec) \<Longrightarrow> d' = d1 \<and> created = []"
    and told: "truthy (t_parent rec) \<Longrightarrow> \<exists>cohort d3 live.
       record_wakes wid (the (t_parent rec)) now
         (bump_task (the (t_parent rec)) (\<lambda>r. r\<lparr>t_child_event_seq := t_child_event_seq r + 1\<rparr>) d1) = (cohort, d3)
       \<and> record_liveness_wakes wid (t_id rec) now default_progress_timeout d3 = (live, d')
       \<and> created = cohort @ live"
  have "same_side_tables d d1"
    using finish_lifecycle [OF fin assms(2)] by (auto simp: lifecycle_write_def task_write_def)
  moreover have "db_cleanups d' = db_cleanups d1 \<and> db_outgoing d' = db_outgoing d1 \<and> db_effects d' = db_effects d1"
  proof (cases "truthy (t_parent rec)")
    case True
    from told [OF this] obtain cohort d3 live where
      "record_wakes wid (the (t_parent rec)) now
         (bump_task (the (t_parent rec)) (\<lambda>r. r\<lparr>t_child_event_seq := t_child_event_seq r + 1\<rparr>) d1) = (cohort, d3)"
      "record_liveness_wakes wid (t_id rec) now default_progress_timeout d3 = (live, d')" by blast
    from wakes_keep_side(1) [OF this(1)] liveness_wakes_keep_side [OF this(2)] show ?thesis by simp
  qed (use alone in simp)
  ultimately show ?thesis using finish_state [OF fin assms(2)] by (simp add: same_side_tables_def)
qed

lemma sdk_finish_cases:
  assumes "sdk_finish wid x tid st res charge fence now d = Inr (rec, d')"
  obtains (written) created where "finish_with_wake wid x tid st res None charge (Some fence) now d = Inr ((rec, created), d')"
    | (repeated) "d' = d" "t_state rec = st"
proof (cases "finish_with_wake wid x tid st res None charge (Some fence) now d")
  case (Inl e)
  with assms repeated show thesis by (cases e) (auto simp: sdk_finish_def split: if_splits)
next
  case (Inr out)
  obtain r c e where "out = ((r, c), e)" by (cases out) auto
  with Inr assms written show thesis by (simp add: sdk_finish_def)
qed

lemma fence_terminal_step: "kernel_inv d \<Longrightarrow> kernel_step d (fence_terminal current cmds now d)"
proof -
  assume inv: "kernel_inv d"
  note s = record_cleanup_intents_step [OF inv]
  show ?thesis
    unfolding fence_terminal_def Let_def
    by (rule kernel_step_trans [OF s kernel_step_foldl [OF kernel_step_inv [OF s]]])
       (simp add: record_cleanup_intents_step kernel_step_refl)
qed

lemma sdk_finish_step:
  assumes "sdk_finish wid x tid st res charge fence now d = Inr (rec, d')" and "kernel_inv d"
  shows "kernel_step d d'"
  using assms(1)
proof (cases rule: sdk_finish_cases)
  case (written created)
  from finish_with_wake_step [OF written assms(2)] show ?thesis .
qed (simp add: kernel_step_refl assms(2))

lemma mark_terminal_result:
  assumes "mark_terminal tid ep outcome retry now d = Inr (e, d')" and "db_ok d"
  shows "e_state e = ETerminal \<and> get_effect tid ep d' = Some e \<and> db_cleanups d' = db_cleanups d"
proof -
  let ?f = "\<lambda>r. r\<lparr>e_state := ETerminal, e_outcome := Some outcome, e_retry_at := retry\<rparr>"
  have "\<And>r. effect_key (?f r) = effect_key r" by (simp add: effect_key_def)
  from advance_effect_cases [OF assms(1) [unfolded mark_terminal_def] assms(2) this] obtain r where
    "change_effect tid ep ''effect-transition'' now (\<lambda>r. e_state r \<in> {EReserved, ELaunched})
       (\<lambda>r. (?f r)\<lparr>e_updated_at := now\<rparr>) d = (True, d')"
    "find_effect tid ep d' = Some ((?f r)\<lparr>e_updated_at := now\<rparr>)" "e = decode_effect ((?f r)\<lparr>e_updated_at := now\<rparr>)"
    by blast
  with change_effect_frame(3) show ?thesis by (auto simp: get_effect_def decode_effect_def effect.defs)
qed


lemma plain_finish_succeeds:
  assumes "db_ok d" and "find_task tid d = Some r" and "st \<in> {Completed, Cancelled}"
    and "t_state r \<in> {Active, Replacing, Blocked}" and "t_parent r = None"
  shows "\<exists>rec d'. finish_with_wake wid (lock_ctx tid x) tid st res None False (Some (lock_fence tid x)) now d = Inr ((rec, []), d')"
proof -
  from assms(3) obtain preds where p: "finish_predecessors st = Some preds" "{Active, Replacing, Blocked} \<subseteq> preds" by auto
  have "\<exists>d'. transition_on tid preds None (\<lambda>r. r\<lparr>t_state := st, t_result := res\<rparr>) (state_name st) now d
      = Inr (decode_task (r\<lparr>t_state := st, t_result := res, t_version := t_version r + 1, t_updated_at := now\<rparr>), d')
    \<and> task_write tid r (r\<lparr>t_state := st, t_result := res, t_version := t_version r + 1, t_updated_at := now\<rparr>) d d'"
    using transition_on_succeeds [OF assms(1,2), of preds None "\<lambda>r. r\<lparr>t_state := st, t_result := res\<rparr>" "state_name st" now]
      assms(3,4) p(2) db_ok_row [OF assms(1,2)] by (auto simp: live_holder_def task_row_ok_def)
  then obtain d' where t: "transition_on tid preds None (\<lambda>r. r\<lparr>t_state := st, t_result := res\<rparr>) (state_name st) now d
      = Inr (decode_task (r\<lparr>t_state := st, t_result := res, t_version := t_version r + 1, t_updated_at := now\<rparr>), d')" by blast
  have "\<not> truthy (t_parent (decode_task (r\<lparr>t_state := st, t_result := res, t_version := t_version r + 1, t_updated_at := now\<rparr>)))"
    using assms(5) by (simp add: decode_task_def task_record.defs truthy_def)
  with t p(1) assms(3) show ?thesis
    by (auto simp: finish_with_wake_def with_fence_def finish_def transition_def)
qed

lemma fence_terminal_tasks:
  "db_tasks (fence_terminal current cmds now d) = db_tasks d \<and> db_effects (fence_terminal current cmds now d) = db_effects d"
proof -
  have one: "db_tasks (record_cleanup_intents tid ep ss cs now e) = db_tasks e
      \<and> db_effects (record_cleanup_intents tid ep ss cs now e) = db_effects e" for tid ep ss cs e
    unfolding record_cleanup_intents_def
    by (rule foldl_invariant [where I = "\<lambda>s. db_tasks s = db_tasks e \<and> db_effects s = db_effects e"])
       (auto split: prod.splits)
  show ?thesis
    unfolding fence_terminal_def Let_def
    by (rule foldl_invariant [where I = "\<lambda>e. db_tasks e = db_tasks d \<and> db_effects e = db_effects d"]) (simp_all add: one)
qed

definition queued_command :: native_command where
  "queued_command = \<lparr>n_state = ''running'', n_id = ''c1'', n_process = Some ''p1''\<rparr>"

definition running_db :: db where
  "running_db = with_effect (sample_effect ELaunched) (seed [sample_row ''a'' Active 0 2])"

lemma running_facts:
  "kernel_inv running_db" "find_task ''a'' running_db = Some (sample_row ''a'' Active 0 2)"
  "find_effect ''a'' 1 running_db = Some (sample_effect ELaunched)"
  by (auto simp: running_db_def effect_key_def sample_effect_def intro!: with_effect_inv sample_kernel_inv)


end
