(* ===== verification/Checkpoints.thy ===== *)
theory Checkpoints
  imports TaskContract
begin

text \<open>
  Retained checkpoints: the receipt of a native publication (\<open>evidence.receipt_facts\<close>,
  \<open>retention.verified_receipt\<close>), the durability policy of the writing connection
  (\<open>sqlite_durability.py\<close>), and the store's two operations that prepare a checkpoint and commit
  its occurrence together with the task's checkpoint.  Whether a timestamp is ISO with a
  zone and how long a JSON dump is are the functions \<open>aware\<close> and \<open>dump_bytes\<close>.
\<close>

subsection \<open>Receipts\<close>

definition hex_lower :: "char \<Rightarrow> bool" where
  "hex_lower c \<longleftrightarrow> c \<in> set ''0123456789abcdef''"

definition canonical_uuid :: "string \<Rightarrow> bool" where
  "canonical_uuid s \<longleftrightarrow> length s = 36
     \<and> list_all (\<lambda>(i, c). if i \<in> {8, 13, 18, 23} then c = CHR ''-'' else hex_lower c) (zip [0..<36] s)"

definition receipt_fields :: "string list" where
  "receipt_fields = [''id'', ''execution_id'', ''attachment_id'', ''original_path'', ''original_name'',
     ''producer_ref'', ''publication_key'', ''captured_at'', ''sha256'', ''size_bytes'']"

fun nonempty_text :: "json option \<Rightarrow> bool" where
  "nonempty_text (Some (JStr s)) = (s \<noteq> '''')"
| "nonempty_text _ = False"

fun null_or_text :: "json option \<Rightarrow> bool" where
  "null_or_text (Some (JStr s)) = True"
| "null_or_text (Some JNull) = True"
| "null_or_text _ = False"

fun byte_size_ok :: "json option \<Rightarrow> bool" where
  "byte_size_ok (Some (JInt n)) = (0 \<le> n \<and> n \<le> 2 ^ 63 - 1)"
| "byte_size_ok _ = False"

fun digest_ok :: "json option \<Rightarrow> bool" where
  "digest_ok (Some (JStr s)) = (length s = 64 \<and> list_all hex_lower s)"
| "digest_ok _ = False"

fun text_matches :: "(string \<Rightarrow> bool) \<Rightarrow> json option \<Rightarrow> bool" where
  "text_matches P (Some (JStr s)) = P s"
| "text_matches P _ = False"

definition receipt_facts ::
  "(string \<Rightarrow> bool) \<Rightarrow> (json \<Rightarrow> nat) \<Rightarrow> json \<Rightarrow> json \<Rightarrow> json option \<Rightarrow> (string \<times> json) list option" where
  "receipt_facts aware dump_bytes native execution occurrence =
     (if jget ''durability'' native \<noteq> Some (JStr ''confirmed'') \<or> jget ''execution_id'' native \<noteq> Some execution
         \<or> (occurrence \<noteq> None \<and> jget ''id'' native \<noteq> occurrence)
         \<or> \<not> list_all (\<lambda>f. jget f native \<noteq> None) receipt_fields then None
      else
        let facts = map (\<lambda>f. (f, the (jget f native))) receipt_fields; get = map_of facts in
        if byte_size_ok (get ''size_bytes'') \<and> digest_ok (get ''sha256'')
           \<and> list_all (\<lambda>f. nonempty_text (get f))
               [''id'', ''execution_id'', ''attachment_id'', ''original_path'', ''captured_at'']
           \<and> list_all (\<lambda>f. null_or_text (get f)) [''original_name'', ''producer_ref'', ''publication_key'']
           \<and> text_matches aware (get ''captured_at'') \<and> dump_bytes (JObj facts) \<le> 8192
        then Some facts else None)"

definition verified_receipt ::
  "(string \<Rightarrow> bool) \<Rightarrow> (json \<Rightarrow> nat) \<Rightarrow> checkpoint_operation \<Rightarrow> json \<Rightarrow> json option" where
  "verified_receipt aware dump_bytes oper receipt =
     (case jget ''execution_id'' (k_facts oper) of
        None \<Rightarrow> None
      | Some execution \<Rightarrow>
          (case receipt_facts aware dump_bytes receipt execution None of
             None \<Rightarrow> None
           | Some facts \<Rightarrow>
               let result = JObj (facts @ [(''durability'', JStr ''confirmed'')]);
                   expected =
                     [(''execution_id'', Some execution),
                      (''publication_key'', Some (JStr (''checkpoint:'' @ k_operation_id oper))),
                      (''producer_ref'', Some (JStr (k_task_id oper @ '':'' @ show_int (k_epoch oper)))),
                      (''original_path'', jget ''original_path'' (k_facts oper)),
                      (''original_name'', jget ''original_name'' (k_facts oper)),
                      (''sha256'', jget ''sha256'' (k_facts oper)),
                      (''size_bytes'', jget ''size_bytes'' (k_facts oper)),
                      (''durability'', Some (JStr ''confirmed''))]
               in if list_all (\<lambda>(f, v). v \<noteq> None \<and> jget f result = v) expected
                     \<and> list_all (\<lambda>f. text_matches canonical_uuid (jget f receipt))
                         [''id'', ''attachment_id'', ''execution_id'']
                     \<and> dump_bytes result \<le> 8192
                     \<and> (k_receipt oper = None \<or> k_receipt oper = Some (jcanon result))
                  then Some (jcanon result) else None))"

subsection \<open>The durability policy\<close>

text \<open>
  What the pragmas of the writing connection answer.  \<open>confirm_database\<close> runs after the commit
  and adds barriers on the directories, whose outcome is \<open>barrier\<close>.
\<close>

record conn_policy =
  cp_journal :: "string option"
  cp_synchronous :: "int option"
  cp_fullfsync :: "int option"
  cp_main :: "string option"

definition require_policy :: "conn_policy \<Rightarrow> kerror + string" where
  "require_policy c =
     (if (case cp_journal c of None \<Rightarrow> True | Some j \<Rightarrow> lower j \<noteq> ''wal'')
         \<or> cp_synchronous c \<notin> {Some 2, Some 3} \<or> cp_fullfsync c \<noteq> Some 1 \<or> \<not> truthy (cp_main c)
      then Inl DurabilityUnavailable else Inr (the (cp_main c)))"

definition confirm_database :: "conn_policy \<Rightarrow> bool \<Rightarrow> kerror + unit" where
  "confirm_database c barrier = ebind (require_policy c) (\<lambda>_. ensure barrier DurabilityUnavailable)"

subsection \<open>Preparing and committing\<close>

definition check_checkpoint_owner :: "task_record \<Rightarrow> int \<Rightarrow> string option \<Rightarrow> int \<Rightarrow> kerror + unit" where
  "check_checkpoint_owner current ep holder version =
     ensure (\<not> (t_state current \<notin> live_states \<or> t_epoch current \<noteq> ep \<or> \<not> truthy holder
               \<or> t_holder current \<noteq> holder \<or> t_version current \<noteq> version))
       (StaleTransition current ''checkpoint'')"

definition find_checkpoint :: "string \<Rightarrow> db \<Rightarrow> checkpoint_operation option" where
  "find_checkpoint oid d = lookup_by k_operation_id oid (db_checkpoints d)"

definition insert_checkpoint :: "checkpoint_operation \<Rightarrow> db \<Rightarrow> kerror + db" where
  "insert_checkpoint k d =
     (let rows = db_checkpoints d @ [k]
      in if checkpoint_table_ok rows then Inr (d\<lparr>db_checkpoints := rows\<rparr>) else Inl Integrity)"

text \<open>
  The result is \<open>Inr (Inl e, d')\<close> when the exception is raised by \<open>confirm_database\<close>, after
  the transaction has committed.
\<close>

definition prepare_checkpoint_operation ::
  "ctx \<Rightarrow> conn_policy \<Rightarrow> bool \<Rightarrow> task_record \<Rightarrow> string \<Rightarrow> string \<Rightarrow> json \<Rightarrow> fence option \<Rightarrow> real \<Rightarrow> db
   \<Rightarrow> kerror + (kerror + checkpoint_operation) \<times> db" where
  "prepare_checkpoint_operation x pol barrier task oid text facts fence now d =
     ebind (require_fence x (t_id task) fence) (\<lambda>_.
       if \<not> canonical_uuid oid then Inl CheckpointIdNotUuid
       else case get_by_id (t_id task) d of
         None \<Rightarrow> Inl CheckpointTaskGone
       | Some current \<Rightarrow>
           ebind
             (case find_checkpoint oid d of
                Some oper \<Rightarrow>
                  if (k_task_id oper, k_epoch oper, Some (k_holder oper), k_checkpoint oper, k_facts oper)
                     \<noteq> (t_id task, t_epoch task, t_holder task, text, jcanon facts)
                  then Inl CheckpointFactsChanged
                  else if k_receipt oper = None
                  then ebind (check_checkpoint_owner current (k_epoch oper) (Some (k_holder oper)) (k_expected_version oper))
                         (\<lambda>_. Inr (oper, d))
                  else Inr (oper, d)
              | None \<Rightarrow>
                  ebind (check_checkpoint_owner current (t_epoch task) (t_holder task) (t_version task)) (\<lambda>_.
                    let oper = \<lparr>k_operation_id = oid, k_task_id = t_id task, k_epoch = t_epoch task,
                                k_holder = the (t_holder task), k_expected_version = t_version task,
                                k_checkpoint = text, k_facts = jcanon facts, k_receipt = None,
                                k_durable_commit = False, k_created_at = now, k_committed_at = None\<rparr>
                    in ebind (insert_checkpoint oper d) (\<lambda>d'. Inr (oper, d'))))
             (\<lambda>(oper, d'). ebind (require_policy pol) (\<lambda>_.
                Inr (ebind (confirm_database pol barrier) (\<lambda>_. Inr oper), d'))))"

definition checkpoint_with_occurrence ::
  "(string \<Rightarrow> bool) \<Rightarrow> (json \<Rightarrow> nat) \<Rightarrow> ctx \<Rightarrow> conn_policy \<Rightarrow> bool \<Rightarrow> checkpoint_operation \<Rightarrow> json
   \<Rightarrow> fence option \<Rightarrow> real \<Rightarrow> db \<Rightarrow> kerror + (kerror + task_record) \<times> db" where
  "checkpoint_with_occurrence aware dump_bytes x pol barrier oper native fence now d =
     ebind (require_fence x (k_task_id oper) fence) (\<lambda>_.
       case verified_receipt aware dump_bytes oper native of
         None \<Rightarrow> Inl CheckpointReceiptInvalid
       | Some receipt \<Rightarrow>
           (case find_checkpoint (k_operation_id oper) d of
              None \<Rightarrow> Inl CheckpointNotPrepared
            | Some stored \<Rightarrow>
                if (k_task_id stored, k_epoch stored, k_holder stored, k_expected_version stored,
                    k_checkpoint stored, k_facts stored)
                   \<noteq> (k_task_id oper, k_epoch oper, k_holder oper, k_expected_version oper,
                       k_checkpoint oper, k_facts oper)
                then Inl CheckpointFactsChanged
                else case get_by_id (k_task_id stored) d of
                  None \<Rightarrow> Inl CheckpointTaskGone
                | Some current \<Rightarrow>
                    ebind
                      (case k_receipt stored of
                         Some r \<Rightarrow> if r \<noteq> receipt then Inl CheckpointReplayChanged else Inr (current, d)
                       | None \<Rightarrow>
                           ebind (check_checkpoint_owner current (k_epoch stored) (Some (k_holder stored))
                                    (k_expected_version stored)) (\<lambda>_.
                             transition_on (k_task_id stored) live_states (Some (k_expected_version stored))
                               (\<lambda>r. r\<lparr>t_checkpoint := Some (k_checkpoint stored), t_checkpoint_at := Some now\<rparr>)
                               ''checkpoint'' now d))
                      (\<lambda>(record, d1). ebind (require_policy pol) (\<lambda>_.
                         let d2 = d1\<lparr>db_checkpoints :=
                               update_by k_operation_id (k_operation_id stored) (\<lambda>_. True)
                                 (\<lambda>k. k\<lparr>k_receipt := Some receipt, k_durable_commit := True,
                                        k_committed_at := (case k_committed_at k of None \<Rightarrow> Some now | Some t \<Rightarrow> Some t)\<rparr>)
                                 (db_checkpoints d1)\<rparr>
                         in Inr (ebind (confirm_database pol barrier) (\<lambda>_. Inr record), d2)))))"

text \<open>The reads.\<close>

definition checkpoint_operation_of :: "string \<Rightarrow> string \<Rightarrow> db \<Rightarrow> checkpoint_operation option" where
  "checkpoint_operation_of tid text d =
     find (\<lambda>k. k_task_id k = tid \<and> k_checkpoint k = text) (db_checkpoints d)"

definition pending_checkpoint_operations :: "string \<Rightarrow> db \<Rightarrow> checkpoint_operation list" where
  "pending_checkpoint_operations tid d =
     sort_key k_created_at (sort_key k_operation_id
       (filter (\<lambda>k. k_task_id k = tid \<and> k_receipt k = None) (db_checkpoints d)))"

subsection \<open>Every operation keeps the database well-formed\<close>

lemma db_ok_checkpoints: "db_ok d \<Longrightarrow> checkpoint_table_ok (db_checkpoints d)"
  by (simp add: db_ok_def tables_ok_def)

lemma db_ok_set_checkpoints:
  "db_ok d \<Longrightarrow> checkpoint_table_ok rows \<Longrightarrow> db_ok (d\<lparr>db_checkpoints := rows\<rparr>)"
  by (simp add: db_ok_def tables_ok_def history_ok_def)

text \<open>What identifies a prepared operation: everything but its receipt and commit marks.\<close>

definition prepared_facts :: "checkpoint_operation \<Rightarrow> string \<times> string \<times> int \<times> string \<times> int \<times> string \<times> json" where
  "prepared_facts k = (k_operation_id k, k_task_id k, k_epoch k, k_holder k, k_expected_version k,
                       k_checkpoint k, k_facts k)"

definition mark_committed :: "json \<Rightarrow> real \<Rightarrow> checkpoint_operation \<Rightarrow> checkpoint_operation" where
  "mark_committed receipt now k =
     k\<lparr>k_receipt := Some receipt, k_durable_commit := True,
       k_committed_at := (case k_committed_at k of None \<Rightarrow> Some now | Some t \<Rightarrow> Some t)\<rparr>"

lemma mark_committed_fields [simp]:
  "k_operation_id (mark_committed receipt now k) = k_operation_id k"
  "k_task_id (mark_committed receipt now k) = k_task_id k" "k_epoch (mark_committed receipt now k) = k_epoch k"
  "k_holder (mark_committed receipt now k) = k_holder k"
  "k_expected_version (mark_committed receipt now k) = k_expected_version k"
  "k_checkpoint (mark_committed receipt now k) = k_checkpoint k" "k_facts (mark_committed receipt now k) = k_facts k"
  "k_receipt (mark_committed receipt now k) = Some receipt"
  by (simp_all add: mark_committed_def)

lemma mark_committed_facts [simp]: "prepared_facts (mark_committed receipt now k) = prepared_facts k"
  by (simp add: prepared_facts_def mark_committed_def)

lemma prepare_cases:
  assumes "prepare_checkpoint_operation x pol barrier task oid text facts fence now d = Inr (out, d')"
  obtains (known) oper where "find_checkpoint oid d = Some oper" "d' = d" "k_facts oper = jcanon facts"
      "out = ebind (confirm_database pol barrier) (\<lambda>_. Inr oper)"
    | (fresh) oper current where "find_checkpoint oid d = None" "insert_checkpoint oper d = Inr d'"
      "get_by_id (t_id task) d = Some current"
      "check_checkpoint_owner current (t_epoch task) (t_holder task) (t_version task) = Inr ()"
      "prepared_facts oper = (oid, t_id task, t_epoch task, the (t_holder task), t_version task, text, jcanon facts)"
      "k_receipt oper = None" "out = ebind (confirm_database pol barrier) (\<lambda>_. Inr oper)"
proof (cases "find_checkpoint oid d")
  case None
  from assms None fresh show thesis
    by (auto simp: prepare_checkpoint_operation_def Let_def prepared_facts_def split: if_splits option.splits)
next
  case (Some oper)
  from assms Some known show thesis
    by (auto simp: prepare_checkpoint_operation_def split: if_splits option.splits)
qed

lemma insert_checkpoint_ok:
  assumes "insert_checkpoint k d = Inr d'" and "db_ok d"
  shows "db_ok d'" "d' = d\<lparr>db_checkpoints := db_checkpoints d @ [k]\<rparr>"
  using assms by (auto simp: insert_checkpoint_def Let_def intro: db_ok_set_checkpoints split: if_splits)

lemma prepare_checkpoint_ok:
  assumes "prepare_checkpoint_operation x pol barrier task oid text facts fence now d = Inr (out, d')" and "db_ok d"
  shows "db_ok d' \<and> db_tasks d' = db_tasks d \<and> log_extends d d'"
  using assms(1)
proof (cases rule: prepare_cases)
  case known
  with assms(2) show ?thesis by simp
next
  case (fresh oper current)
  from insert_checkpoint_ok [OF fresh(2) assms(2)] show ?thesis by (simp add: log_extends_def)
qed

lemma update_committed:
  "update_by k_operation_id oid (\<lambda>_. True)
     (\<lambda>k. k\<lparr>k_receipt := Some receipt, k_durable_commit := True,
            k_committed_at := (case k_committed_at k of None \<Rightarrow> Some now | Some t \<Rightarrow> Some t)\<rparr>) rows
   = update_by k_operation_id oid (\<lambda>_. True) (mark_committed receipt now) rows"
  by (simp add: update_by_def mark_committed_def)

lemma commit_cases:
  assumes "checkpoint_with_occurrence aware dump_bytes x pol barrier oper native fence now d = Inr (out, d')"
  obtains receipt stored current res d1 where
    "require_fence x (k_task_id oper) fence = Inr ()"
    "verified_receipt aware dump_bytes oper native = Some receipt"
    "find_checkpoint (k_operation_id oper) d = Some stored" "prepared_facts stored = prepared_facts oper"
    "get_by_id (k_task_id oper) d = Some current"
    "out = ebind (confirm_database pol barrier) (\<lambda>_. Inr res)"
    "d' = d1\<lparr>db_checkpoints := update_by k_operation_id (k_operation_id oper) (\<lambda>_. True)
                (mark_committed receipt now) (db_checkpoints d1)\<rparr>"
    "k_receipt stored = Some receipt \<and> d1 = d \<and> res = current
     \<or> k_receipt stored = None
       \<and> check_checkpoint_owner current (k_epoch oper) (Some (k_holder oper)) (k_expected_version oper) = Inr ()
       \<and> transition_on (k_task_id oper) live_states (Some (k_expected_version oper))
           (\<lambda>r. r\<lparr>t_checkpoint := Some (k_checkpoint oper), t_checkpoint_at := Some now\<rparr>) ''checkpoint'' now d
         = Inr (res, d1)"
proof -
  note run = assms [unfolded checkpoint_with_occurrence_def Let_def update_committed]
  from run have fence: "require_fence x (k_task_id oper) fence = Inr ()" by simp
  from run obtain receipt where receipt: "verified_receipt aware dump_bytes oper native = Some receipt"
    by (cases "verified_receipt aware dump_bytes oper native") auto
  from run receipt obtain stored where stored: "find_checkpoint (k_operation_id oper) d = Some stored"
    by (cases "find_checkpoint (k_operation_id oper) d") auto
  from stored have id: "k_operation_id stored = k_operation_id oper"
    unfolding find_checkpoint_def by (auto dest: lookup_by_SomeD)
  from run receipt stored have same: "k_task_id stored = k_task_id oper" "k_epoch stored = k_epoch oper"
    "k_holder stored = k_holder oper" "k_expected_version stored = k_expected_version oper"
    "k_checkpoint stored = k_checkpoint oper" "k_facts stored = k_facts oper"
    by (auto split: if_splits)
  from run receipt stored same obtain current where current: "get_by_id (k_task_id oper) d = Some current"
    by (cases "get_by_id (k_task_id oper) d") auto
  let ?decide = "case k_receipt stored of
         Some r \<Rightarrow> if r \<noteq> receipt then Inl CheckpointReplayChanged else Inr (current, d)
       | None \<Rightarrow>
           ebind (check_checkpoint_owner current (k_epoch stored) (Some (k_holder stored))
                    (k_expected_version stored)) (\<lambda>_.
             transition_on (k_task_id stored) live_states (Some (k_expected_version stored))
               (\<lambda>r. r\<lparr>t_checkpoint := Some (k_checkpoint stored), t_checkpoint_at := Some now\<rparr>)
               ''checkpoint'' now d)"
  from run receipt stored same current id fence
  have "ebind ?decide (\<lambda>(record, d1). ebind (require_policy pol) (\<lambda>_.
          Inr (ebind (confirm_database pol barrier) (\<lambda>_. Inr record),
               d1\<lparr>db_checkpoints := update_by k_operation_id (k_operation_id oper) (\<lambda>_. True)
                 (mark_committed receipt now) (db_checkpoints d1)\<rparr>))) = Inr (out, d')"
    by (simp del: ebind_eq_Inr)
  then obtain pair where pair: "?decide = Inr pair" "(\<lambda>(record, d1). ebind (require_policy pol) (\<lambda>_.
          Inr (ebind (confirm_database pol barrier) (\<lambda>_. Inr record),
               d1\<lparr>db_checkpoints := update_by k_operation_id (k_operation_id oper) (\<lambda>_. True)
                 (mark_committed receipt now) (db_checkpoints d1)\<rparr>))) pair = Inr (out, d')"
    by (rule ebind_InrE)
  obtain res d1 where p: "pair = (res, d1)" by (cases pair)
  from pair(1) p have decide: "?decide = Inr (res, d1)" by simp
  from pair(2) p have rest: "out = ebind (confirm_database pol barrier) (\<lambda>_. Inr res)"
    "d' = d1\<lparr>db_checkpoints := update_by k_operation_id (k_operation_id oper) (\<lambda>_. True)
                (mark_committed receipt now) (db_checkpoints d1)\<rparr>" by auto
  show thesis
    by (rule that [OF fence receipt stored _ current rest])
       (use decide same id in \<open>auto simp: prepared_facts_def split: option.splits if_splits\<close>)
qed

lemma commit_checkpoint_ok:
  assumes "checkpoint_with_occurrence aware dump_bytes x pol barrier oper native fence now d = Inr (out, d')"
    and ok: "db_ok d"
  shows "db_ok d' \<and> log_extends d d'
    \<and> (db_tasks d' = db_tasks d \<or> (\<exists>res d1. lifecycle_write (k_task_id oper) res d d1 \<and> db_tasks d' = db_tasks d1))"
proof -
  from assms(1) obtain receipt d1 and stored :: checkpoint_operation and current res :: task_record where
    d': "d' = d1\<lparr>db_checkpoints := update_by k_operation_id (k_operation_id oper) (\<lambda>_. True)
                (mark_committed receipt now) (db_checkpoints d1)\<rparr>"
    and c: "k_receipt stored = Some receipt \<and> d1 = d \<and> res = current
     \<or> k_receipt stored = None
       \<and> check_checkpoint_owner current (k_epoch oper) (Some (k_holder oper)) (k_expected_version oper) = Inr ()
       \<and> transition_on (k_task_id oper) live_states (Some (k_expected_version oper))
           (\<lambda>r. r\<lparr>t_checkpoint := Some (k_checkpoint oper), t_checkpoint_at := Some now\<rparr>) ''checkpoint'' now d
         = Inr (res, d1)"
    by (rule commit_cases) (rule that, assumption+)
  have step: "d1 = d \<or> lifecycle_write (k_task_id oper) res d d1"
    using c by (auto simp: lifecycle_defs intro!: transition_on_lifecycle [OF _ ok])
  then have d1: "db_ok d1" "log_extends d d1"
    using ok by (auto simp: lifecycle_write_def task_write_def)
  have "map k_operation_id (update_by k_operation_id oid G (mark_committed receipt now) rows) = map k_operation_id rows"
    "map (\<lambda>k. (k_task_id k, k_epoch k, k_checkpoint k)) (update_by k_operation_id oid G (mark_committed receipt now) rows)
     = map (\<lambda>k. (k_task_id k, k_epoch k, k_checkpoint k)) rows" for oid G rows
    by (simp_all add: update_by_def mark_committed_def)
  with db_ok_checkpoints [OF d1(1)] have "db_ok d'"
    unfolding d' by (intro db_ok_set_checkpoints [OF d1(1)]) (simp add: checkpoint_table_ok_def)
  with step d1 show ?thesis by (auto simp: d' log_extends_def)
qed

subsection \<open>Properties\<close>

lemma find_committed:
  "find_checkpoint oid (d\<lparr>db_checkpoints := update_by k_operation_id oid' (\<lambda>_. True) (mark_committed receipt now) rows\<rparr>)
   = map_option (\<lambda>k. if oid = oid' then mark_committed receipt now k else k) (lookup_by k_operation_id oid rows)"
  unfolding find_checkpoint_def by (simp add: lookup_update_by mark_committed_def)

text \<open>
  C39: a checkpoint is committed only if nothing moved since it was prepared.  The call that
  records an occurrence for the first time finds the task live, in the prepared epoch, held
  by the prepared session and at the prepared version; in one transaction it writes the
  prepared text as the task's checkpoint, counts one version, and marks the operation
  durable with its receipt.  A later failure of the directory barrier does not undo it.
\<close>

theorem checkpoint_commits_prepared:
  assumes "checkpoint_with_occurrence aware dump_bytes x pol barrier oper native fence now d = Inr (out, d')"
    and "db_ok d" and "find_checkpoint (k_operation_id oper) d = Some stored" and "k_receipt stored = None"
  shows "\<exists>r r' k. find_task (k_task_id oper) d = Some r \<and> t_state r \<in> live_states \<and> t_epoch r = k_epoch oper
           \<and> t_holder r = Some (k_holder oper) \<and> t_version r = k_expected_version oper
           \<and> find_task (k_task_id oper) d' = Some r' \<and> t_checkpoint r' = Some (k_checkpoint oper)
           \<and> t_version r' = t_version r + 1 \<and> lifecycle_step r r'
           \<and> find_checkpoint (k_operation_id oper) d' = Some k \<and> prepared_facts k = prepared_facts oper
           \<and> k_receipt k = verified_receipt aware dump_bytes oper native \<and> k_durable_commit k"
  using assms(1)
proof (cases rule: commit_cases)
  case (1 receipt stored' current res d1)
  from 1(3) assms(3) have [simp]: "stored' = stored" by simp
  from 1(8) assms(4) have chk: "check_checkpoint_owner current (k_epoch oper) (Some (k_holder oper))
        (k_expected_version oper) = Inr ()"
    and t: "transition_on (k_task_id oper) live_states (Some (k_expected_version oper))
           (\<lambda>r. r\<lparr>t_checkpoint := Some (k_checkpoint oper), t_checkpoint_at := Some now\<rparr>) ''checkpoint'' now d
         = Inr (res, d1)" by auto
  from transition_on_write [OF t assms(2)] obtain r where
    r: "find_task (k_task_id oper) d = Some r" "t_state r \<in> live_states" "k_expected_version oper = t_version r"
    and w: "task_write (k_task_id oper) r (r\<lparr>t_checkpoint := Some (k_checkpoint oper), t_checkpoint_at := Some now,
              t_version := t_version r + 1, t_updated_at := now\<rparr>) d d1" by auto
  from 1(5) r(1) have cur: "current = decode_task r" by (simp add: get_by_id_def)
  from chk have owner: "t_epoch r = k_epoch oper" "t_holder r = Some (k_holder oper)"
    by (auto simp: check_checkpoint_owner_def cur decode_task_def task_record.defs)
  have "lookup_by k_operation_id (k_operation_id oper) (db_checkpoints d1) = Some stored"
    using w 1(3) by (simp add: task_write_def same_side_tables_def find_checkpoint_def)
  then have k: "find_checkpoint (k_operation_id oper) d' = Some (mark_committed receipt now stored)"
    by (simp add: 1(7) find_committed)
  have "find_task (k_task_id oper) d' = find_task (k_task_id oper) d1"
    by (simp add: 1(7) find_task_def)
  with task_write_find [OF w] r owner k 1(2,4) show ?thesis
    by (auto simp: lifecycle_defs mark_committed_def prepared_facts_def)
qed

text \<open>
  An occurrence is committed once.  Repeating the commit with the same receipt changes
  nothing at all (no second version, no new history entry, the first commit time stays) and
  returns the task as it is; a different receipt for the same operation is refused.
\<close>

theorem checkpoint_committed_once:
  assumes "checkpoint_with_occurrence aware dump_bytes x pol barrier oper native fence now d = Inr (out, d1)"
    and "db_ok d" and "require_fence x' (k_task_id oper) fence' = Inr ()" and "require_policy pol' = Inr path"
    and "verified_receipt aware dump_bytes oper native' = Some receipt'"
  shows "\<exists>current. get_by_id (k_task_id oper) d1 = Some current
    \<and> checkpoint_with_occurrence aware dump_bytes x' pol' barrier' oper native' fence' now' d1
      = (if Some receipt' = verified_receipt aware dump_bytes oper native
         then Inr (ebind (confirm_database pol' barrier') (\<lambda>_. Inr current), d1)
         else Inl CheckpointReplayChanged)"
  using assms(1)
proof (cases rule: commit_cases)
  case (1 receipt stored current res d0)
  have lookup0: "lookup_by k_operation_id (k_operation_id oper) (db_checkpoints d0) = Some stored"
    and task0: "find_task (k_task_id oper) d0 \<noteq> None"
  proof -
    have "d0 = d \<or> (\<exists>r r'. task_write (k_task_id oper) r r' d d0)"
    proof (cases "d0 = d")
      case False
      with 1(8) have "transition_on (k_task_id oper) live_states (Some (k_expected_version oper))
           (\<lambda>r. r\<lparr>t_checkpoint := Some (k_checkpoint oper), t_checkpoint_at := Some now\<rparr>) ''checkpoint'' now d
         = Inr (res, d0)" by blast
      from transition_on_write [OF this assms(2)] show ?thesis by auto
    qed simp
    then show "lookup_by k_operation_id (k_operation_id oper) (db_checkpoints d0) = Some stored"
      using 1(3) by (auto simp: find_checkpoint_def task_write_def same_side_tables_def)
    show "find_task (k_task_id oper) d0 \<noteq> None"
      using \<open>d0 = d \<or> _\<close> 1(5) by (auto simp: get_by_id_def task_write_find)
  qed
  then obtain cur where cur: "get_by_id (k_task_id oper) d1 = Some cur"
    by (auto simp: 1(7) get_by_id_def find_task_def)
  have found: "find_checkpoint (k_operation_id oper) d1 = Some (mark_committed receipt now stored)"
    using lookup0 by (simp add: 1(7) find_committed)
  have again: "update_by k_operation_id (k_operation_id oper) (\<lambda>_. True) (mark_committed receipt now')
      (db_checkpoints d1) = db_checkpoints d1"
    by (auto simp: 1(7) update_by_def mark_committed_def split: option.splits)
  have facts: "k_operation_id stored = k_operation_id oper" "k_task_id stored = k_task_id oper"
    "k_epoch stored = k_epoch oper" "k_holder stored = k_holder oper"
    "k_expected_version stored = k_expected_version oper" "k_checkpoint stored = k_checkpoint oper"
    "k_facts stored = k_facts oper"
    using 1(4) by (simp_all add: prepared_facts_def)
  show ?thesis
  proof (intro exI conjI)
    show "checkpoint_with_occurrence aware dump_bytes x' pol' barrier' oper native' fence' now' d1
      = (if Some receipt' = verified_receipt aware dump_bytes oper native
         then Inr (ebind (confirm_database pol' barrier') (\<lambda>_. Inr cur), d1)
         else Inl CheckpointReplayChanged)"
      unfolding checkpoint_with_occurrence_def Let_def update_committed
      by (simp add: assms(3,4,5) found cur facts again 1(2))
  qed (rule cur)
qed

subsection \<open>A concrete checkpoint\<close>

definition sample_uuid :: string where
  "sample_uuid = ''aaaaaaaa-aaaa-aaaa-aaaa-aaaaaaaaaaaa''"

definition sample_facts :: json where
  "sample_facts = JObj
    [(''execution_id'', JStr sample_uuid), (''original_name'', JStr ''notes''),
     (''original_path'', JStr ''/w/notes''), (''sha256'', JStr (replicate 64 (CHR ''a''))), (''size_bytes'', JInt 3)]"

definition sample_operation :: checkpoint_operation where
  "sample_operation = \<lparr>k_operation_id = sample_uuid, k_task_id = ''a'', k_epoch = 1, k_holder = ''a'',
     k_expected_version = 0, k_checkpoint = ''notes'', k_facts = sample_facts, k_receipt = None,
     k_durable_commit = False, k_created_at = 0, k_committed_at = None\<rparr>"

definition sample_native :: json where
  "sample_native = JObj
    [(''durability'', JStr ''confirmed''), (''id'', JStr sample_uuid), (''execution_id'', JStr sample_uuid),
     (''attachment_id'', JStr sample_uuid), (''original_path'', JStr ''/w/notes''),
     (''original_name'', JStr ''notes''), (''producer_ref'', JStr ''a:1''),
     (''publication_key'', JStr (''checkpoint:'' @ sample_uuid)), (''captured_at'', JStr ''2026-01-01T00:00:00Z''),
     (''sha256'', JStr (replicate 64 (CHR ''a''))), (''size_bytes'', JInt 3)]"

definition sample_policy :: conn_policy where
  "sample_policy = \<lparr>cp_journal = Some ''WAL'', cp_synchronous = Some 2, cp_fullfsync = Some 1, cp_main = Some ''/db''\<rparr>"

definition sample_checkpoint_db :: db where
  "sample_checkpoint_db = (seed [sample_row ''a'' Active 0 2])\<lparr>db_checkpoints := [sample_operation]\<rparr>"

lemma sample_uuid_canonical: "canonical_uuid sample_uuid"
  by code_simp

lemma sample_hex: "list_all hex_lower (replicate 64 (CHR ''a''))"
  by code_simp

lemma sample_policy_ok: "require_policy sample_policy = Inr ''/db''"
  by code_simp

lemma sample_producer: "''a'' @ '':'' @ show_int 1 = ''a:1''"
  by code_simp

lemma sample_verified:
  "verified_receipt (\<lambda>_. True) (\<lambda>_. 0) sample_operation sample_native \<noteq> None"
  using sample_uuid_canonical sample_hex sample_producer
  by (simp add: verified_receipt_def sample_operation_def sample_facts_def sample_native_def receipt_facts_def
      receipt_fields_def Let_def) (simp add: sample_uuid_def)

lemma sample_checkpoint_db_ok: "db_ok sample_checkpoint_db"
  unfolding sample_checkpoint_db_def by (intro db_ok_set_checkpoints) (simp_all add: checkpoint_table_ok_def)

lemma sample_checkpoint_find:
  "find_checkpoint sample_uuid sample_checkpoint_db = Some sample_operation"
  "find_task ''a'' sample_checkpoint_db = Some (sample_row ''a'' Active 0 2)"
  by (simp_all add: find_checkpoint_def sample_checkpoint_db_def sample_operation_def find_task_def)

lemma sample_commit:
  "\<exists>out d'. checkpoint_with_occurrence (\<lambda>_. True) (\<lambda>_. 0) (lock_ctx ''a'' sample_ctx) sample_policy True
     sample_operation sample_native (Some (lock_fence ''a'' sample_ctx)) 5 sample_checkpoint_db = Inr (out, d')"
proof -
  obtain receipt where receipt: "verified_receipt (\<lambda>_. True) (\<lambda>_. 0) sample_operation sample_native = Some receipt"
    using sample_verified by auto
  have "\<exists>d'. transition_on ''a'' live_states (Some 0)
         (\<lambda>r. r\<lparr>t_checkpoint := Some ''notes'', t_checkpoint_at := Some 5\<rparr>) ''checkpoint'' 5 sample_checkpoint_db
       = Inr (decode_task ((sample_row ''a'' Active 0 2)\<lparr>t_checkpoint := Some ''notes'', t_checkpoint_at := Some 5,
               t_version := t_version (sample_row ''a'' Active 0 2) + 1, t_updated_at := 5\<rparr>), d')
       \<and> task_write ''a'' (sample_row ''a'' Active 0 2) ((sample_row ''a'' Active 0 2)\<lparr>t_checkpoint := Some ''notes'', t_checkpoint_at := Some 5,
               t_version := t_version (sample_row ''a'' Active 0 2) + 1, t_updated_at := 5\<rparr>) sample_checkpoint_db d'"
    by (rule transition_on_succeeds [OF sample_checkpoint_db_ok sample_checkpoint_find(2)])
       (auto simp: live_states_def live_holder_def sample_checkpoint_db_def)
  then obtain d' rec where t: "transition_on ''a'' live_states (Some 0)
         (\<lambda>r. r\<lparr>t_checkpoint := Some ''notes'', t_checkpoint_at := Some 5\<rparr>) ''checkpoint'' 5 sample_checkpoint_db
       = Inr (rec, d')" by blast
  have owner: "check_checkpoint_owner (decode_task (sample_row ''a'' Active 0 2)) 1 (Some ''a'') 0 = Inr ()"
    by (simp add: check_checkpoint_owner_def decode_task_def task_record.defs live_states_def truthy_def)
  have op_fields: "k_operation_id sample_operation = sample_uuid" "k_task_id sample_operation = ''a''"
    "k_epoch sample_operation = 1" "k_holder sample_operation = ''a''" "k_expected_version sample_operation = 0"
    "k_checkpoint sample_operation = ''notes''" "k_receipt sample_operation = None"
    by (simp_all add: sample_operation_def)
  show ?thesis
    unfolding checkpoint_with_occurrence_def Let_def
    by (simp add: receipt sample_checkpoint_find op_fields get_by_id_def owner t sample_policy_ok)
qed

theorem checkpoint_commits_prepared_witness:
  "\<exists>out d' k. checkpoint_with_occurrence (\<lambda>_. True) (\<lambda>_. 0) (lock_ctx ''a'' sample_ctx) sample_policy True
     sample_operation sample_native (Some (lock_fence ''a'' sample_ctx)) 5 sample_checkpoint_db = Inr (out, d')
     \<and> find_checkpoint sample_uuid d' = Some k \<and> k_durable_commit k"
proof -
  obtain out d' where s: "checkpoint_with_occurrence (\<lambda>_. True) (\<lambda>_. 0) (lock_ctx ''a'' sample_ctx) sample_policy True
     sample_operation sample_native (Some (lock_fence ''a'' sample_ctx)) 5 sample_checkpoint_db = Inr (out, d')"
    using sample_commit by blast
  have f: "find_checkpoint (k_operation_id sample_operation) sample_checkpoint_db = Some sample_operation"
    using sample_checkpoint_find(1) by (simp add: sample_operation_def)
  from checkpoint_commits_prepared [OF s sample_checkpoint_db_ok f] s show ?thesis
    by (auto simp: sample_operation_def)
qed

theorem checkpoint_committed_once_witness:
  "\<exists>out d' current. checkpoint_with_occurrence (\<lambda>_. True) (\<lambda>_. 0) (lock_ctx ''a'' sample_ctx) sample_policy True
     sample_operation sample_native (Some (lock_fence ''a'' sample_ctx)) 5 sample_checkpoint_db = Inr (out, d')
     \<and> checkpoint_with_occurrence (\<lambda>_. True) (\<lambda>_. 0) (lock_ctx ''a'' sample_ctx) sample_policy True
     sample_operation sample_native (Some (lock_fence ''a'' sample_ctx)) 9 d' = Inr (Inr current, d')"
proof -
  obtain out d' where s: "checkpoint_with_occurrence (\<lambda>_. True) (\<lambda>_. 0) (lock_ctx ''a'' sample_ctx) sample_policy True
     sample_operation sample_native (Some (lock_fence ''a'' sample_ctx)) 5 sample_checkpoint_db = Inr (out, d')"
    using sample_commit by blast
  obtain receipt where receipt: "verified_receipt (\<lambda>_. True) (\<lambda>_. 0) sample_operation sample_native = Some receipt"
    using sample_verified by auto
  have fence: "require_fence (lock_ctx ''a'' sample_ctx) (k_task_id sample_operation) (Some (lock_fence ''a'' sample_ctx)) = Inr ()"
    by (simp add: sample_operation_def)
  from checkpoint_committed_once [OF s sample_checkpoint_db_ok fence sample_policy_ok receipt, of True 9] s receipt
  show ?thesis by (auto simp: confirm_database_def sample_policy_ok)
qed

end
