(* ===== verification/WakeDelivery.thy ===== *)
theory WakeDelivery
  imports Wakes
begin

text \<open>
  Delivery of the wake outbox (\<open>WakeDelivery\<close> in \<open>wakes.py\<close>): claiming under a lease with a
  token, freezing the payload before the first send, sending, and settling under the token.
  Each database operation is its own transaction, so what other processes commit in between
  is an argument of the step: \<open>env\<close> between reading the cohort and freezing the payload,
  \<open>env'\<close> while the message is sent.  The ownership store's answer, the executor's answer and
  the tokens drawn are functions.
\<close>

subsection \<open>Claiming\<close>

definition claimable :: "real \<Rightarrow> wake_row \<Rightarrow> bool" where
  "claimable now w \<longleftrightarrow> w_state w = WPending
     \<or> (w_state w = WClaimed \<and> (case w_claim_expires_at w of None \<Rightarrow> False | Some t \<Rightarrow> t < now))"

definition claim_wake :: "(string \<Rightarrow> string) \<Rightarrow> real \<Rightarrow> real \<Rightarrow> wake_row \<Rightarrow> wake_row" where
  "claim_wake tok lease now w =
     w\<lparr>w_state := WClaimed, w_claim_expires_at := Some (now + lease), w_claim_token := Some (tok (w_id w)),
       w_updated_at := now\<rparr>"

fun claim_each :: "(string \<Rightarrow> string) \<Rightarrow> real \<Rightarrow> real \<Rightarrow> wake_row list \<Rightarrow> db \<Rightarrow> wake list \<times> db" where
  "claim_each tok lease now [] d = ([], d)"
| "claim_each tok lease now (w # ws) d =
     (let (hit, d1) = change_wake (w_id w) ''claimed'' now (\<lambda>_. True) (claim_wake tok lease now) d;
          (claimed, d2) = claim_each tok lease now ws d1
      in ((case find_wake (w_id w) d1 of None \<Rightarrow> claimed | Some row \<Rightarrow> decode_wake row # claimed), d2))"

definition claim :: "(string \<Rightarrow> string) \<Rightarrow> real \<Rightarrow> real \<Rightarrow> db \<Rightarrow> wake list \<times> db" where
  "claim tok lease now d =
     claim_each tok lease now (sort_key w_created_at (filter (claimable now) (db_wakes d))) d"

subsection \<open>The message\<close>

definition child_line :: "task_record \<Rightarrow> string" where
  "child_line c =
     ''- '' @ t_key c @ '' task='' @ t_id c @ '' state='' @ state_name (t_state c) @ '' epoch='' @ show_int (t_epoch c)
     @ (if t_liveness c \<noteq> Live then '' liveness='' @ liveness_name (t_liveness c) else '''')
     @ (if t_over_budget c then '' over_budget=1'' else '''')
     @ (if truthy (t_holder c) then '' session='' @ the (t_holder c) else '''')
     @ (if truthy (t_checkpoint c) then '' checkpoint='' @ the (t_checkpoint c) else '''')"

definition wake_payload :: "predicate \<Rightarrow> task_record \<Rightarrow> task_record list \<Rightarrow> bool \<Rightarrow> string" where
  "wake_payload p parent kids escalation =
     join_with newline
       (((if escalation then ''ESCALATION'' else ''COHORT'') @ '' '' @ predicate_name p @ '': '' @ t_key parent)
        # map child_line kids)"

subsection \<open>Freezing and settling\<close>

definition token_matches :: "wake \<Rightarrow> wake_row \<Rightarrow> bool" where
  "token_matches w r \<longleftrightarrow> w_state r = WClaimed \<and> w_claim_token w \<noteq> None \<and> w_claim_token r = w_claim_token w"

text \<open>\<open>_persist_payload\<close>: not a history occurrence; \<open>None\<close> when another pump has the wake.\<close>

definition persist_payload :: "wake \<Rightarrow> string \<Rightarrow> real \<Rightarrow> db \<Rightarrow> kerror + string option \<times> db" where
  "persist_payload w selected now d =
     (let d' = d\<lparr>db_wakes := update_by w_id (w_id w) (token_matches w)
                  (\<lambda>r. r\<lparr>w_payload := (case w_payload r of None \<Rightarrow> Some selected | Some p \<Rightarrow> Some p), w_updated_at := now\<rparr>)
                  (db_wakes d)\<rparr>
      in if \<not> hits_by w_id (w_id w) (token_matches w) (db_wakes d) then Inr (None, d)
         else case find_wake (w_id w) d' of
                None \<Rightarrow> Inl (WakePayloadMissing (w_id w))
              | Some r \<Rightarrow> (case w_payload r of
                            None \<Rightarrow> Inl (WakePayloadMissing (w_id w))
                          | Some p \<Rightarrow> Inr (Some p, d')))"

definition settle_wake ::
  "wake \<Rightarrow> wake_state \<Rightarrow> string option \<Rightarrow> string option \<Rightarrow> real \<Rightarrow> db \<Rightarrow> bool \<times> db" where
  "settle_wake w st resolution payload now d =
     (let (hit, d1) = change_wake (w_id w) ''settled'' now (token_matches w)
            (\<lambda>r. r\<lparr>w_state := st, w_resolution := resolution,
                   w_payload := (case w_payload r of None \<Rightarrow> payload | Some p \<Rightarrow> Some p),
                   w_claim_expires_at := None, w_updated_at := now\<rparr>) d
      in if \<not> hit then (False, d1)
         else case w_event_seq w of
                Some s \<Rightarrow>
                  if st = WDelivered
                  then (True, bump_task (w_parent w)
                          (\<lambda>r. r\<lparr>t_last_woken_seq := max (t_last_woken_seq r) s, t_updated_at := now\<rparr>) d1)
                  else (True, d1)
              | None \<Rightarrow> (True, d1))"

definition resolve_wake :: "wake \<Rightarrow> string \<Rightarrow> real \<Rightarrow> db \<Rightarrow> db" where
  "resolve_wake w reason now d = snd (settle_wake w WResolved (Some reason) (Some (''suppressed: '' @ reason)) now d)"

subsection \<open>Delivering one wake\<close>

text \<open>A message handed to the executor: session, bytes, and the deduplication key.\<close>

type_synonym message = "string \<times> string \<times> string"

text \<open>
  \<open>_deliver\<close>.  \<open>quarantined s\<close> is the reason \<open>assert_deliverable\<close> refuses session \<open>s\<close> with;
  \<open>accepts\<close> says whether \<open>client.send\<close> returned.  The result is whether the wake left the
  outbox, the messages sent, and the database; \<open>Inl\<close> is a store error.
\<close>

definition why_undeliverable ::
  "(string \<Rightarrow> string option) \<Rightarrow> task_record option \<Rightarrow> task_record list \<Rightarrow> string option" where
  "why_undeliverable quarantined parent kids =
     (case parent of
        None \<Rightarrow> Some ''parent task no longer exists''
      | Some p \<Rightarrow>
          if \<not> truthy (t_holder p) then Some (''parent '' @ t_key p @ '' has no holder session'')
          else if t_state p \<notin> live_states then Some (''parent '' @ t_key p @ '' is '' @ state_name (t_state p))
          else (case quarantined (the (t_holder p)) of
                  Some why \<Rightarrow> Some (''parent '' @ t_key p @ '' session is retired: '' @ why)
                | None \<Rightarrow>
                    if list_ex (\<lambda>c. t_holder c = t_holder p) kids
                    then Some (''parent '' @ t_key p @ '' holds one of its own child sessions'')
                    else None))"

definition deliver ::
  "(string \<Rightarrow> string option) \<Rightarrow> (message \<Rightarrow> bool) \<Rightarrow> (db \<Rightarrow> db) \<Rightarrow> (db \<Rightarrow> db) \<Rightarrow> wake \<Rightarrow> real \<Rightarrow> db
   \<Rightarrow> kerror + bool \<times> message list \<times> db" where
  "deliver quarantined accepts env env' w now d =
     (let parent = get_by_id (w_parent w) d;
          kids = (case parent of None \<Rightarrow> [] | Some p \<Rightarrow> children (t_id p) d)
      in case why_undeliverable quarantined parent kids of
           Some reason \<Rightarrow> Inr (False, [], resolve_wake w reason now (env d))
         | None \<Rightarrow>
             ebind (persist_payload w
                      (wake_payload (w_predicate w) (the parent) kids (is_escalation (w_dedupe_key w))) now (env d))
               (\<lambda>(payload, d1).
                  case payload of
                    None \<Rightarrow> Inr (False, [], d1)
                  | Some bytes \<Rightarrow>
                      let m = (the (t_holder (the parent)), bytes, w_id w); d2 = env' d1 in
                      if \<not> accepts m then Inr (False, [m], d2)
                      else let (left, d3) = settle_wake w WDelivered None None now d2
                           in Inr (left, [m], d3)))"

text \<open>\<open>pump\<close>: a refused send keeps its claim for a later pump; a store error ends the pump.\<close>

fun deliver_each ::
  "(string \<Rightarrow> string option) \<Rightarrow> (message \<Rightarrow> bool) \<Rightarrow> (string \<Rightarrow> db \<Rightarrow> db) \<Rightarrow> (string \<Rightarrow> db \<Rightarrow> db)
   \<Rightarrow> wake list \<Rightarrow> real \<Rightarrow> db \<Rightarrow> kerror + nat \<times> message list \<times> db" where
  "deliver_each quarantined accepts env env' [] now d = Inr (0, [], d)"
| "deliver_each quarantined accepts env env' (w # ws) now d =
     ebind (deliver quarantined accepts (env (w_id w)) (env' (w_id w)) w now d) (\<lambda>(left, sent, d1).
       ebind (deliver_each quarantined accepts env env' ws now d1) (\<lambda>(n, sent', d2).
         Inr ((if left then Suc n else n), sent @ sent', d2)))"

definition pump ::
  "(string \<Rightarrow> string option) \<Rightarrow> (message \<Rightarrow> bool) \<Rightarrow> (string \<Rightarrow> db \<Rightarrow> db) \<Rightarrow> (string \<Rightarrow> db \<Rightarrow> db)
   \<Rightarrow> (string \<Rightarrow> string) \<Rightarrow> real \<Rightarrow> real \<Rightarrow> db \<Rightarrow> kerror + nat \<times> message list \<times> db" where
  "pump quarantined accepts env env' tok lease now d =
     (let (claimed, d1) = claim tok lease now d
      in deliver_each quarantined accepts env env' claimed now d1)"

subsection \<open>Every operation is a kernel step\<close>

lemma claim_wake_keeps [simp]:
  "w_id (claim_wake tok lease now w) = w_id w" "w_parent (claim_wake tok lease now w) = w_parent w"
  "w_dedupe_key (claim_wake tok lease now w) = w_dedupe_key w" "w_event_seq (claim_wake tok lease now w) = w_event_seq w"
  "w_predicate (claim_wake tok lease now w) = w_predicate w" "w_payload (claim_wake tok lease now w) = w_payload w"
  "live_wake (claim_wake tok lease now w)"
  by (simp_all add: claim_wake_def live_wake_def)

lemma claim_each_step:
  assumes "claim_each tok lease now ws d = (claimed, d')" and "kernel_inv d"
    and "\<And>w. w \<in> set ws \<Longrightarrow> \<exists>r. find_wake (w_id w) d = Some r \<and> live_wake r"
  shows "kernel_step d d'"
  using assms
proof (induction ws arbitrary: d claimed d')
  case Nil
  then show ?case by (simp add: kernel_step_refl)
next
  case (Cons w ws)
  obtain hit d1 where chg: "change_wake (w_id w) ''claimed'' now (\<lambda>_. True) (claim_wake tok lease now) d = (hit, d1)"
    by fastforce
  obtain c d2 where rest: "claim_each tok lease now ws d1 = (c, d2)" by fastforce
  have live: "live_wake q" if "q \<in> set (db_wakes d)" "w_id q = w_id w" for q
    using lookup_by_mem [OF db_ok_wake_ids [OF kernel_inv_ok [OF Cons.prems(2)]] that(1)] that(2)
      Cons.prems(3) [of w] by (auto simp: find_wake_def)
  have s: "kernel_step d d1"
    by (rule kernel_step_change_wake [OF chg Cons.prems(2)]) (use live in auto)
  have "\<exists>r. find_wake (w_id v) d1 = Some r \<and> live_wake r" if "v \<in> set ws" for v
  proof -
    from Cons.prems(3) [of v] that obtain r where r: "find_wake (w_id v) d = Some r" "live_wake r" by auto
    with change_wake_find [OF chg, of "w_id v"] show ?thesis by auto
  qed
  from Cons.IH [OF rest kernel_step_inv [OF s] this] s have "kernel_step d d2" by (blast intro: kernel_step_trans)
  with Cons.prems(1) chg rest show ?case by simp
qed

lemma claimable_live: "claimable now w \<Longrightarrow> live_wake w"
  by (auto simp: claimable_def live_wake_def)

lemma claim_step:
  assumes "claim tok lease now d = (claimed, d')" and "kernel_inv d"
  shows "kernel_step d d'"
  using assms(1) unfolding claim_def
proof (rule claim_each_step [OF _ assms(2)])
  fix w
  assume "w \<in> set (sort_key w_created_at (filter (claimable now) (db_wakes d)))"
  then have w: "w \<in> set (db_wakes d)" "live_wake w" by (auto intro: claimable_live)
  from lookup_by_mem [OF db_ok_wake_ids [OF kernel_inv_ok [OF assms(2)]] w(1)] w(2)
  show "\<exists>r. find_wake (w_id w) d = Some r \<and> live_wake r" by (simp add: find_wake_def)
qed

lemma token_live: "token_matches w r \<Longrightarrow> live_wake r"
  by (simp add: token_matches_def live_wake_def)

definition freeze :: "string \<Rightarrow> real \<Rightarrow> wake_row \<Rightarrow> wake_row" where
  "freeze selected now r =
     r\<lparr>w_payload := (case w_payload r of None \<Rightarrow> Some selected | Some p \<Rightarrow> Some p), w_updated_at := now\<rparr>"

lemma freeze_payload [simp]: "w_payload (freeze selected now r) \<noteq> None" "None \<noteq> w_payload (freeze selected now r)"
  by (simp_all add: freeze_def split: option.splits)

lemma persist_payload_cases:
  assumes run: "persist_payload w selected now d = Inr (res, d')" and ok: "db_ok d"
  obtains (lost_claim) "res = None" "d' = d"
    | (frozen) r where "find_wake (w_id w) d = Some r" "token_matches w r"
      "d' = d\<lparr>db_wakes := update_by w_id (w_id w) (token_matches w) (freeze selected now) (db_wakes d)\<rparr>"
      "res = w_payload (freeze selected now r)" "find_wake (w_id w) d' = Some (freeze selected now r)"
proof (cases "hits_by w_id (w_id w) (token_matches w) (db_wakes d)")
  case False
  with run lost_claim show thesis by (simp add: persist_payload_def)
next
  case True
  let ?d = "d\<lparr>db_wakes := update_by w_id (w_id w) (token_matches w) (freeze selected now) (db_wakes d)\<rparr>"
  from True obtain r where r: "find_wake (w_id w) d = Some r" "token_matches w r"
    using db_ok_wake_ids [OF ok] by (auto simp: hits_by_iff find_wake_def)
  have f: "find_wake (w_id w) ?d = Some (freeze selected now r)"
    using r by (simp add: find_wake_def lookup_update_by freeze_def)
  have "w_payload (freeze selected now r) \<noteq> None" by (simp add: freeze_def split: option.splits)
  with run True f have "d' = ?d" "res = w_payload (freeze selected now r)"
    by (auto simp: persist_payload_def Let_def freeze_def [abs_def])
  with r f frozen show thesis by simp
qed

lemma persist_payload_step:
  assumes run: "persist_payload w selected now d = Inr (res, d')" and inv: "kernel_inv d"
  shows "kernel_step d d'"
  using run kernel_inv_ok [OF inv]
proof (cases rule: persist_payload_cases)
  case lost_claim
  with inv show ?thesis by (simp add: kernel_step_refl)
next
  case (frozen r)
  let ?g = "\<lambda>q. if w_id q = w_id w \<and> token_matches w q then freeze selected now q else q"
  have rows: "db_wakes d' = map ?g (db_wakes d)" by (simp add: frozen(3) update_by_def)
  have live: "live_wake (?g q) = live_wake q" "w_dedupe_key (?g q) = w_dedupe_key q" "w_id (?g q) = w_id q" for q
    by (simp_all add: freeze_def live_wake_def)
  have "map w_dedupe_key (filter live_wake (map ?g xs)) = map w_dedupe_key (filter live_wake xs)" for xs
    using live(1,2) by (induction xs) auto
  with db_ok_wakes [OF kernel_inv_ok [OF inv]] live(3) have table: "wake_table_ok (db_wakes d')"
    by (simp add: rows wake_table_ok_def unique_where_def comp_def)
  have "recorded EWake wake_cols wake_untracked (db_wakes d') (db_history d)"
    unfolding rows using kernel_inv_ok [OF inv]
    by (intro wake_log.recorded_untracked)
       (auto simp: db_ok_def history_ok_def freeze_def wake_untracked_def wake_cols_def)
  with table kernel_inv_ok [OF inv] have ok: "db_ok d'"
    by (simp add: frozen(3) db_ok_def tables_ok_def history_ok_def)
  show ?thesis
  proof (rule kernel_step_side [OF inv ok])
    show "grows w_id wake_evolves (db_wakes d) (db_wakes d')"
      unfolding rows by (rule wakes.grows_map)
        (auto simp: wake_evolves_def freeze_def token_matches_def live_wake_def split: option.splits)
    show "\<And>q. q \<in> set (db_wakes d') \<Longrightarrow> event_known d q"
      using inv by (auto simp: rows kernel_inv_def list_all_iff event_known_def freeze_def)
  qed (simp_all add: frozen(3) log_extends_def effects.grows_refl checkpoints.grows_refl)
qed

lemma bump_woken_step:
  assumes inv: "kernel_inv d" and known: "\<And>r. find_task p d = Some r \<Longrightarrow> s \<le> t_child_event_seq r"
  shows "kernel_step d (bump_task p (\<lambda>r. r\<lparr>t_last_woken_seq := max (t_last_woken_seq r) s, t_updated_at := now\<rparr>) d)"
proof (rule kernel_step_bump [OF inv bump_woken_ok [OF kernel_inv_ok [OF inv]]])
  fix r
  assume r: "r \<in> set (db_tasks d)" "t_id r = p"
  then have "find_task p d = Some r"
    using lookup_by_mem [OF db_ok_task_ids [OF kernel_inv_ok [OF inv]] r(1)] by (simp add: find_task_def)
  with known kernel_inv_row [OF inv] have "s \<le> t_child_event_seq r" "row_inv r" by auto
  then show "observation_step r (r\<lparr>t_last_woken_seq := max (t_last_woken_seq r) s, t_updated_at := now\<rparr>)
      \<and> row_inv (r\<lparr>t_last_woken_seq := max (t_last_woken_seq r) s, t_updated_at := now\<rparr>)"
    by (auto simp: observation_step_def row_inv_def within_budget_def)
qed

text \<open>The wake record a claim returned still describes its row: subject and event are immutable.\<close>

definition wake_current :: "wake \<Rightarrow> db \<Rightarrow> bool" where
  "wake_current w d \<longleftrightarrow> (\<exists>r. find_wake (w_id w) d = Some r \<and> w_parent r = w_parent w
     \<and> w_event_seq r = w_event_seq w \<and> w_dedupe_key r = w_dedupe_key w \<and> w_predicate r = w_predicate w)"

lemma wake_current_mono: "wake_current w d \<Longrightarrow> kernel_step d d' \<Longrightarrow> wake_current w d'"
  unfolding wake_current_def kernel_step_def grows_def find_wake_def wake_evolves_def by metis

lemma settle_wake_cases:
  assumes run: "settle_wake w st resolution payload now d = (left, d')"
  obtains hit d1 where "change_wake (w_id w) ''settled'' now (token_matches w)
      (\<lambda>r. r\<lparr>w_state := st, w_resolution := resolution,
             w_payload := (case w_payload r of None \<Rightarrow> payload | Some p \<Rightarrow> Some p),
             w_claim_expires_at := None, w_updated_at := now\<rparr>) d = (hit, d1)"
    "left = hit"
    "d' = (case w_event_seq w of
             Some s \<Rightarrow> if hit \<and> st = WDelivered
               then bump_task (w_parent w) (\<lambda>r. r\<lparr>t_last_woken_seq := max (t_last_woken_seq r) s, t_updated_at := now\<rparr>) d1
               else d1
           | None \<Rightarrow> d1)"
  using run by (auto simp: settle_wake_def Let_def split: prod.splits option.splits if_splits)

lemma settle_wake_step:
  assumes run: "settle_wake w st resolution payload now d = (left, d')" and inv: "kernel_inv d"
    and cur: "wake_current w d"
  shows "kernel_step d d'"
  using run
proof (rule settle_wake_cases)
  let ?f = "\<lambda>r. r\<lparr>w_state := st, w_resolution := resolution,
             w_payload := (case w_payload r of None \<Rightarrow> payload | Some p \<Rightarrow> Some p),
             w_claim_expires_at := None, w_updated_at := now\<rparr>"
  fix hit d1
  assume chg: "change_wake (w_id w) ''settled'' now (token_matches w) ?f d = (hit, d1)"
    and d': "d' = (case w_event_seq w of
             Some s \<Rightarrow> if hit \<and> st = WDelivered
               then bump_task (w_parent w) (\<lambda>r. r\<lparr>t_last_woken_seq := max (t_last_woken_seq r) s, t_updated_at := now\<rparr>) d1
               else d1
           | None \<Rightarrow> d1)"
  have s: "kernel_step d d1"
    by (rule kernel_step_change_wake [OF chg inv]) (auto simp: token_live split: option.splits)
  have "s \<le> t_child_event_seq r" if "w_event_seq w = Some s" "find_task (w_parent w) d1 = Some r" for s r
  proof -
    from cur obtain q where q: "find_wake (w_id w) d = Some q" "w_parent q = w_parent w" "w_event_seq q = w_event_seq w"
      by (auto simp: wake_current_def)
    then have "q \<in> set (db_wakes d)" unfolding find_wake_def by (auto dest: lookup_by_SomeD)
    with inv have "event_known d q" by (auto simp: kernel_inv_def list_all_iff)
    moreover have "find_task (w_parent w) d = Some r"
      using that(2) change_wake_frame(1) [OF chg] by (simp add: find_task_def)
    ultimately show ?thesis using q that(1) by (auto simp: event_known_def)
  qed
  then have "kernel_step d1 d'"
    unfolding d' using kernel_step_inv [OF s]
    by (auto simp: kernel_step_refl intro!: bump_woken_step split: option.splits)
  with s show ?thesis by (rule kernel_step_trans)
qed

lemma deliver_step:
  assumes run: "deliver quarantined accepts env env' w now d = Inr (left, sent, d')" and inv: "kernel_inv d"
    and cur: "wake_current w d"
    and env: "\<And>d. kernel_inv d \<Longrightarrow> kernel_step d (env d)" "\<And>d. kernel_inv d \<Longrightarrow> kernel_step d (env' d)"
  shows "kernel_step d d'"
proof -
  have s1: "kernel_step d (env d)" by (rule env(1) [OF inv])
  note inv1 = kernel_step_inv [OF s1]
  have settle: "kernel_step d d3"
    if "settle_wake w st resolution payload now d2 = (l, d3)" "kernel_step d d2" for st resolution payload l d2 d3
    using settle_wake_step [OF that(1) kernel_step_inv [OF that(2)] wake_current_mono [OF cur that(2)]] that(2)
    by (blast intro: kernel_step_trans)
  have resolve: "kernel_step d (resolve_wake w reason now (env d))" for reason
    unfolding resolve_wake_def using settle [OF _ s1] by (metis prod.collapse)
  have frozen: "kernel_step d (env' d1) \<and> kernel_step d d1" if "persist_payload w selected now (env d) = Inr (p, d1)" for selected p d1
    using persist_payload_step [OF that inv1] s1 env(2) by (meson kernel_step_inv kernel_step_trans)
  show ?thesis
  proof (cases "why_undeliverable quarantined (get_by_id (w_parent w) d)
      (case get_by_id (w_parent w) d of None \<Rightarrow> [] | Some p \<Rightarrow> children (t_id p) d)")
    case (Some reason)
    with run have "d' = resolve_wake w reason now (env d)" by (simp add: deliver_def)
    with resolve show ?thesis by simp
  next
    case None
    with run obtain selected payload d1 where p: "persist_payload w selected now (env d) = Inr (payload, d1)"
      and rest: "(case payload of None \<Rightarrow> Inr (False, [], d1)
         | Some bytes \<Rightarrow> let m = (the (t_holder (the (get_by_id (w_parent w) d))), bytes, w_id w); d2 = env' d1 in
              if \<not> accepts m then Inr (False, [m], d2)
              else let (left, d3) = settle_wake w WDelivered None None now d2 in Inr (left, [m], d3))
         = (Inr (left, sent, d') :: kerror + bool \<times> message list \<times> db)"
      unfolding deliver_def Let_def by (auto simp del: ebind_eq_Inr elim!: ebind_InrE)
    show ?thesis
      using rest frozen [OF p] settle by (auto simp: Let_def split: option.splits if_splits prod.splits)
  qed
qed

subsection \<open>What a claim, a send and a settlement do\<close>

lemma change_wake_missed: "change_wake wid cause now G f d = (False, d') \<Longrightarrow> d' = d"
  by (auto simp: change_wake_def Let_def log_wake_def find_wake_def wake_log.change_unchanged update_by_no_hit)

lemma claim_each_rows:
  assumes "claim_each tok lease now ws d = (claimed, d')" and "distinct (map w_id ws)"
  shows "db_wakes d' = map (\<lambda>r. if w_id r \<in> w_id ` set ws then claim_wake tok lease now r else r) (db_wakes d)
    \<and> db_tasks d' = db_tasks d"
  using assms
proof (induction ws arbitrary: d claimed d')
  case (Cons w ws)
  obtain hit d1 where chg: "change_wake (w_id w) ''claimed'' now (\<lambda>_. True) (claim_wake tok lease now) d = (hit, d1)"
    by fastforce
  obtain c d2 where rest: "claim_each tok lease now ws d1 = (c, d2)" by fastforce
  from Cons.prems(1) chg rest have d': "d' = d2" by simp
  from Cons.prems(2) have notin: "w_id w \<notin> w_id ` set ws" by simp
  from Cons.IH [OF rest] Cons.prems(2) change_wake_frame(1,6) [OF chg] notin
  show ?case unfolding d' by (auto simp: update_by_def)
qed simp

lemma claim_each_returned:
  assumes "claim_each tok lease now ws d = (claimed, d')" and "v \<in> set claimed"
  shows "\<exists>w \<in> set ws. w_id v = w_id w \<and> w_claim_token v = Some (tok (w_id w))"
  using assms
proof (induction ws arbitrary: d claimed d')
  case (Cons w ws)
  obtain hit d1 where chg: "change_wake (w_id w) ''claimed'' now (\<lambda>_. True) (claim_wake tok lease now) d = (hit, d1)"
    by fastforce
  obtain c d2 where rest: "claim_each tok lease now ws d1 = (c, d2)" by fastforce
  have first: "w_id q = w_id w \<and> w_claim_token q = Some (tok (w_id w))" if "find_wake (w_id w) d1 = Some q" for q
    using change_wake_find [OF chg, of "w_id w"] that
    by (auto simp: claim_wake_def find_wake_def dest: lookup_by_SomeD)
  from Cons.prems chg rest have "v \<in> set c \<or> (\<exists>q. find_wake (w_id w) d1 = Some q \<and> v = decode_wake q)"
    by (auto split: option.splits)
  then show ?case
  proof
    assume "v \<in> set c"
    from Cons.IH [OF rest this] show ?thesis by auto
  next
    assume "\<exists>q. find_wake (w_id w) d1 = Some q \<and> v = decode_wake q"
    with first show ?thesis by (auto simp: decode_wake_def wake.defs)
  qed
qed simp

lemma claim_rows:
  assumes "claim tok lease now d = (claimed, d')" and "db_ok d"
  shows "db_wakes d' = map (\<lambda>r. if claimable now r then claim_wake tok lease now r else r) (db_wakes d)
    \<and> db_tasks d' = db_tasks d"
proof -
  let ?ws = "sort_key w_created_at (filter (claimable now) (db_wakes d))"
  have dist: "distinct (map w_id (db_wakes d))" by (rule db_ok_wake_ids [OF assms(2)])
  then have "distinct (map w_id (filter (claimable now) (db_wakes d)))" by (rule distinct_map_filter)
  then have "distinct (map w_id ?ws)"
    using distinct_map [of w_id ?ws] distinct_map [of w_id "filter (claimable now) (db_wakes d)"]
    by simp
  from claim_each_rows [OF assms(1) [unfolded claim_def] this]
  have rows: "db_wakes d' = map (\<lambda>r. if w_id r \<in> w_id ` set ?ws then claim_wake tok lease now r else r) (db_wakes d)"
    and tasks: "db_tasks d' = db_tasks d" by blast+
  have "w_id r \<in> w_id ` set ?ws \<longleftrightarrow> claimable now r" if "r \<in> set (db_wakes d)" for r
    using dist that by (auto simp: distinct_map dest: inj_onD)
  with rows tasks show ?thesis by auto
qed

lemma claim_returned:
  assumes run: "claim tok lease now d = (claimed, d')" and ok: "db_ok d" and v: "v \<in> set claimed"
  shows "\<exists>r. find_wake (w_id v) d' = Some r \<and> token_matches v r \<and> w_claim_token v = Some (tok (w_id v))"
proof -
  from claim_each_returned [OF run [unfolded claim_def] v]
  obtain w where w: "w \<in> set (db_wakes d)" "claimable now w" "w_id v = w_id w" "w_claim_token v = Some (tok (w_id w))"
    by auto
  have "find_wake (w_id w) d' = Some (claim_wake tok lease now w)"
    using lookup_by_mem [OF db_ok_wake_ids [OF ok] w(1)] w(2) claim_rows [OF run ok]
    by (simp add: find_wake_def lookup_by_map)
  with w show ?thesis by (simp add: token_matches_def claim_wake_def)
qed

lemma persist_payload_miss:
  assumes "db_ok d" and "find_wake (w_id w) d = Some r" and "\<not> token_matches w r"
  shows "persist_payload w selected now d = Inr (None, d)"
  using assms by (simp add: persist_payload_def hits_by_iff db_ok_wake_ids find_wake_def)

lemma persist_payload_hit:
  assumes "db_ok d" and "find_wake (w_id w) d = Some r" and "token_matches w r"
  shows "persist_payload w selected now d
    = Inr (w_payload (freeze selected now r),
           d\<lparr>db_wakes := update_by w_id (w_id w) (token_matches w) (freeze selected now) (db_wakes d)\<rparr>)"
proof -
  have "hits_by w_id (w_id w) (token_matches w) (db_wakes d)"
    using assms by (auto simp: hits_by_iff db_ok_wake_ids find_wake_def)
  moreover have "find_wake (w_id w) (d\<lparr>db_wakes := update_by w_id (w_id w) (token_matches w) (freeze selected now) (db_wakes d)\<rparr>)
      = Some (freeze selected now r)"
    using assms by (simp add: find_wake_def lookup_update_by freeze_def)
  ultimately show ?thesis
    by (auto simp: persist_payload_def freeze_def [abs_def] Let_def split: option.splits)
qed

lemma settle_wake_miss:
  assumes "db_ok d" and "find_wake (w_id w) d = Some r" and "\<not> token_matches w r"
  shows "settle_wake w st resolution payload now d = (False, d)"
proof -
  obtain left d' where run: "settle_wake w st resolution payload now d = (left, d')" by fastforce
  from run show ?thesis
  proof (rule settle_wake_cases)
    fix hit d1
    assume chg: "change_wake (w_id w) ''settled'' now (token_matches w)
      (\<lambda>r. r\<lparr>w_state := st, w_resolution := resolution,
             w_payload := (case w_payload r of None \<Rightarrow> payload | Some p \<Rightarrow> Some p),
             w_claim_expires_at := None, w_updated_at := now\<rparr>) d = (hit, d1)"
      and left: "left = hit"
      and d': "d' = (case w_event_seq w of
             Some s \<Rightarrow> if hit \<and> st = WDelivered
               then bump_task (w_parent w) (\<lambda>r. r\<lparr>t_last_woken_seq := max (t_last_woken_seq r) s, t_updated_at := now\<rparr>) d1
               else d1
           | None \<Rightarrow> d1)"
    from change_wake_hit [OF chg assms(1)] assms(2,3) have "\<not> hit" by simp
    with chg have "d1 = d" by (auto intro: change_wake_missed)
    with \<open>\<not> hit\<close> left d' run show ?thesis by (simp split: option.splits)
  qed
qed

lemma settle_wake_hit:
  assumes run: "settle_wake w st resolution payload now d = (left, d')" and ok: "db_ok d"
    and r: "find_wake (w_id w) d = Some r" "token_matches w r"
  shows "left \<and> (\<exists>r'. find_wake (w_id w) d' = Some r' \<and> w_state r' = st \<and> w_resolution r' = resolution)
    \<and> (\<forall>i. i \<noteq> w_id w \<longrightarrow> find_wake i d' = find_wake i d)
    \<and> (st \<noteq> WDelivered \<or> w_event_seq w = None \<longrightarrow> db_tasks d' = db_tasks d)
    \<and> (\<forall>s. st = WDelivered \<and> w_event_seq w = Some s \<longrightarrow>
         db_tasks d' = update_by t_id (w_parent w) (\<lambda>_. True)
           (\<lambda>r. r\<lparr>t_last_woken_seq := max (t_last_woken_seq r) s, t_updated_at := now\<rparr>) (db_tasks d))"
  using run
proof (rule settle_wake_cases)
  let ?f = "\<lambda>r. r\<lparr>w_state := st, w_resolution := resolution,
             w_payload := (case w_payload r of None \<Rightarrow> payload | Some p \<Rightarrow> Some p),
             w_claim_expires_at := None, w_updated_at := now\<rparr>"
  fix hit d1
  assume chg: "change_wake (w_id w) ''settled'' now (token_matches w) ?f d = (hit, d1)" and left: "left = hit"
    and d': "d' = (case w_event_seq w of
           Some s \<Rightarrow> if hit \<and> st = WDelivered
             then bump_task (w_parent w) (\<lambda>r. r\<lparr>t_last_woken_seq := max (t_last_woken_seq r) s, t_updated_at := now\<rparr>) d1
             else d1
         | None \<Rightarrow> d1)"
  have hit: hit using change_wake_hit [OF chg ok] r by auto
  have f: "find_wake i d1 = map_option (\<lambda>r. if i = w_id w \<and> token_matches w r then ?f r else r) (find_wake i d)" for i
    by (rule change_wake_find [OF chg]) simp
  have same: "find_wake i d' = find_wake i d1" for i
    by (auto simp: d' find_wake_def split: option.splits)
  have other: "find_wake i d' = find_wake i d" if "i \<noteq> w_id w" for i
    using that by (simp add: same f) (cases "find_wake i d"; simp)
  have "find_wake (w_id w) d' = Some (?f r)" using r by (simp add: same f)
  then have "\<exists>r'. find_wake (w_id w) d' = Some r' \<and> w_state r' = st \<and> w_resolution r' = resolution" by simp
  with hit left other show ?thesis
    by (auto simp: d' change_wake_frame(1) [OF chg] bump_task_def split: option.splits)
qed

subsection \<open>Properties\<close>

text \<open>
  Only the current claim acts.  Once another pump has taken a wake over (the row carries
  another token), delivering the stale claim sends nothing, settles nothing and leaves the
  database exactly as the other processes left it, whatever the parent's state is.
\<close>

theorem stale_claim_is_inert:
  assumes "db_ok (env d)" and "find_wake (w_id w) (env d) = Some r" and "w_claim_token r \<noteq> w_claim_token w"
  shows "deliver quarantined accepts env env' w now d = Inr (False, [], env d)"
proof -
  have miss: "\<not> token_matches w r" using assms(3) by (simp add: token_matches_def)
  have resolve: "resolve_wake w reason now (env d) = env d" for reason
    by (simp add: resolve_wake_def settle_wake_miss [OF assms(1,2) miss])
  show ?thesis
    by (simp add: deliver_def Let_def resolve persist_payload_miss [OF assms(1,2) miss] split: option.split)
qed

text \<open>The bytes of a send are the payload its row holds, before and after.\<close>

lemma deliver_sent:
  assumes run: "deliver quarantined accepts env env' w now d = Inr (left, [m], d')" and inv: "kernel_inv d"
    and cur: "wake_current w d"
    and env: "\<And>d. kernel_inv d \<Longrightarrow> kernel_step d (env d)" "\<And>d. kernel_inv d \<Longrightarrow> kernel_step d (env' d)"
  shows "snd (snd m) = w_id w \<and> (\<exists>r. find_wake (w_id w) d' = Some r \<and> w_payload r = Some (fst (snd m)))
    \<and> (\<forall>r p. find_wake (w_id w) d = Some r \<and> w_payload r = Some p \<longrightarrow> fst (snd m) = p)"
proof -
  have s1: "kernel_step d (env d)" by (rule env(1) [OF inv])
  from run have "why_undeliverable quarantined (get_by_id (w_parent w) d)
      (case get_by_id (w_parent w) d of None \<Rightarrow> [] | Some p \<Rightarrow> children (t_id p) d) = None"
    by (auto simp: deliver_def Let_def split: option.splits)
  with run obtain selected bytes d1 where p: "persist_payload w selected now (env d) = Inr (Some bytes, d1)"
    and m: "m = (the (t_holder (the (get_by_id (w_parent w) d))), bytes, w_id w)"
    and rest: "(left, d') = (if accepts m then settle_wake w WDelivered None None now (env' d1) else (False, env' d1))"
    unfolding deliver_def Let_def
    by (auto simp del: ebind_eq_Inr elim!: ebind_InrE split: option.splits if_splits prod.splits)
  from persist_payload_step [OF p kernel_step_inv [OF s1]] have s2: "kernel_step (env d) d1" .
  then have s3: "kernel_step d1 (env' d1)" by (intro env(2) kernel_step_inv)
  have cur3: "wake_current w (env' d1)"
    using cur s1 s2 s3 by (blast intro: wake_current_mono)
  have s4: "kernel_step (env' d1) d'"
  proof (cases "accepts m")
    case True
    with rest have "settle_wake w WDelivered None None now (env' d1) = (left, d')" by simp
    from settle_wake_step [OF this kernel_step_inv [OF s3] cur3] show ?thesis .
  next
    case False
    with rest show ?thesis using kernel_step_inv [OF s3] by (simp add: kernel_step_refl)
  qed
  from p kernel_inv_ok [OF kernel_step_inv [OF s1]]
  obtain r where r: "find_wake (w_id w) (env d) = Some r" "w_payload (freeze selected now r) = Some bytes"
    "find_wake (w_id w) d1 = Some (freeze selected now r)"
    by (cases rule: persist_payload_cases) auto
  have later: "\<exists>q'. find_wake (w_id w) b = Some q' \<and> w_payload q' = Some y"
    if "find_wake (w_id w) a = Some q" "w_payload q = Some y" "kernel_step a b" for a b q y
    using that unfolding kernel_step_def grows_def find_wake_def wake_evolves_def by (metis option.distinct(1))
  from later [OF r(3,2) kernel_step_trans [OF s3 s4]]
  have after: "\<exists>q'. find_wake (w_id w) d' = Some q' \<and> w_payload q' = Some bytes" .
  have before: "bytes = p" if "find_wake (w_id w) d = Some q" "w_payload q = Some p" for q p
    using later [OF that s1] r by (auto simp: freeze_def)
  from after before m show ?thesis by auto
qed

text \<open>
  C15: one wake has one message.  Whatever happens between two deliveries of the same wake
  (other pumps, other operations, a retry after a lost response), the second send carries the
  bytes and the deduplication key of the first.
\<close>

theorem delivery_bytes_frozen:
  assumes "deliver quarantined accepts env env' w now d = Inr (left, [m], d1)"
    and "deliver quarantined2 accepts2 env2 env2' w2 now2 d2 = Inr (left2, [m2], d3)"
    and "kernel_step d1 d2" and "w_id w2 = w_id w"
    and "kernel_inv d" and "wake_current w d" and "wake_current w2 d2"
    and "\<And>d. kernel_inv d \<Longrightarrow> kernel_step d (env d)" and "\<And>d. kernel_inv d \<Longrightarrow> kernel_step d (env' d)"
    and "\<And>d. kernel_inv d \<Longrightarrow> kernel_step d (env2 d)" and "\<And>d. kernel_inv d \<Longrightarrow> kernel_step d (env2' d)"
  shows "snd m2 = snd m"
proof -
  from deliver_sent [OF assms(1,5,6,8,9)] obtain r where
    first: "snd (snd m) = w_id w" "find_wake (w_id w) d1 = Some r" "w_payload r = Some (fst (snd m))" by auto
  from assms(3) first(2,3) obtain r2 where r2: "find_wake (w_id w) d2 = Some r2" "w_payload r2 = Some (fst (snd m))"
    unfolding kernel_step_def grows_def find_wake_def wake_evolves_def by (metis option.distinct(1))
  from deliver_sent [OF assms(2) kernel_step_inv [OF assms(3)] assms(7,10,11)] r2 assms(4) first(1)
  have "snd (snd m2) = snd (snd m)" "fst (snd m2) = fst (snd m)" by auto
  then show ?thesis by (simp add: prod_eq_iff)
qed

lemma settle_wake_left:
  assumes "settle_wake w st resolution payload now d = (True, d')" and "db_ok d" and "wake_current w d"
  shows "\<exists>r. find_wake (w_id w) d = Some r \<and> token_matches w r"
  using assms settle_wake_miss by (fastforce simp: wake_current_def)

text \<open>
  C16: a delivery advances the watermark and nothing else does.  A wake that left the outbox was
  sent exactly once in this delivery, is \<open>delivered\<close>, and the parent's watermark is at least
  the event it told of.  A delivery that sent nothing changed no task row, so the watermark is
  where it was and the same event arms again; and if the claim still held, the wake is parked
  as \<open>resolved\<close> with a reason.
\<close>

theorem only_delivery_moves_watermark:
  assumes "deliver quarantined accepts env env' w now d = Inr (left, sent, d')"
    and "kernel_inv d" and "wake_current w d" and "w_event_seq w = Some s" and "find_task (w_parent w) d = Some pr"
    and "\<And>d. kernel_inv d \<Longrightarrow> kernel_step d (env d)" and "\<And>d. kernel_inv d \<Longrightarrow> kernel_step d (env' d)"
  shows "(left \<longrightarrow> (\<exists>m r' pr'. sent = [m] \<and> find_wake (w_id w) d' = Some r' \<and> w_state r' = WDelivered
            \<and> find_task (w_parent w) d' = Some pr' \<and> s \<le> t_last_woken_seq pr'))
    \<and> (sent = [] \<longrightarrow> \<not> left \<and> db_tasks d' = db_tasks (env d)
         \<and> (\<forall>r. find_wake (w_id w) (env d) = Some r \<and> token_matches w r \<longrightarrow>
              (\<exists>r' reason. find_wake (w_id w) d' = Some r' \<and> w_state r' = WResolved \<and> w_resolution r' = Some reason)))"
proof -
  have s1: "kernel_step d (env d)" by (rule assms(6) [OF assms(2)])
  note inv1 = kernel_step_inv [OF s1] and ok1 = kernel_inv_ok [OF kernel_step_inv [OF s1]]
  show ?thesis
  proof (cases "why_undeliverable quarantined (get_by_id (w_parent w) d)
      (case get_by_id (w_parent w) d of None \<Rightarrow> [] | Some p \<Rightarrow> children (t_id p) d)")
    case (Some reason)
    obtain l d2 where st: "settle_wake w WResolved (Some reason) (Some (''suppressed: '' @ reason)) now (env d) = (l, d2)"
      by fastforce
    with Some assms(1) have run: "left = False" "sent = []" "d' = d2"
      by (auto simp: deliver_def Let_def resolve_wake_def)
    obtain r where r: "find_wake (w_id w) (env d) = Some r"
      using wake_current_mono [OF assms(3) s1] by (auto simp: wake_current_def)
    with run settle_wake_hit [OF st ok1 r] settle_wake_miss [OF ok1 r] st show ?thesis
      by (cases "token_matches w r") auto
  next
    case None
    with assms(1) obtain selected payload d1 where p: "persist_payload w selected now (env d) = Inr (payload, d1)"
      and rest: "(case payload of None \<Rightarrow> Inr (False, [], d1)
         | Some bytes \<Rightarrow> let m = (the (t_holder (the (get_by_id (w_parent w) d))), bytes, w_id w); d2 = env' d1 in
              if \<not> accepts m then Inr (False, [m], d2)
              else let (left, d3) = settle_wake w WDelivered None None now d2 in Inr (left, [m], d3))
         = (Inr (left, sent, d') :: kerror + bool \<times> message list \<times> db)"
      unfolding deliver_def Let_def by (auto simp del: ebind_eq_Inr elim!: ebind_InrE)
    show ?thesis
    proof (cases payload)
      case None
      have lost: "\<not> token_matches w r" if "find_wake (w_id w) (env d) = Some r" for r
        using persist_payload_hit [OF ok1 that, of selected now] p None by auto
      from p None have "d1 = env d" by (auto intro: persist_payload_cases [OF p ok1])
      with None rest lost show ?thesis by auto
    next
      case (Some bytes)
      have s2: "kernel_step d (env' d1)"
        using persist_payload_step [OF p inv1] s1 assms(7) by (blast intro: kernel_step_trans kernel_step_inv)
      note ok2 = kernel_inv_ok [OF kernel_step_inv [OF s2]]
      from s2 assms(5) obtain pr2 where pr2: "find_task (w_parent w) (env' d1) = Some pr2"
        unfolding kernel_step_def grows_def find_task_def by blast
      from Some rest obtain m where "sent = [m]"
        and st: "left \<Longrightarrow> settle_wake w WDelivered None None now (env' d1) = (True, d')"
        by (auto simp: Let_def split: if_splits prod.splits)
      moreover have "(\<exists>r'. find_wake (w_id w) d' = Some r' \<and> w_state r' = WDelivered)
          \<and> (\<exists>pr'. find_task (w_parent w) d' = Some pr' \<and> s \<le> t_last_woken_seq pr')" if left
      proof -
        from settle_wake_left [OF st [OF that] ok2 wake_current_mono [OF assms(3) s2]] obtain r where
          "find_wake (w_id w) (env' d1) = Some r" "token_matches w r" by blast
        from settle_wake_hit [OF st [OF that] ok2 this] assms(4) pr2 show ?thesis
          by (auto simp: find_task_def lookup_update_by)
      qed
      ultimately show ?thesis by (auto simp del: split_paired_Ex)
    qed
  qed
qed

text \<open>
  A claim is exclusive and is covered by its lease.  Every wake a pump is handed carries the
  pump's own token in its row, and until the lease has passed no other pump is handed it.
\<close>

theorem claim_is_exclusive:
  assumes "claim tok lease now d = (ws, d')" and "db_ok d" and "db_ok d'"
    and "claim tok2 lease2 now2 d' = (ws2, d2)" and "now2 \<le> now + lease"
  shows "w_id ` set ws \<inter> w_id ` set ws2 = {} \<and> (\<forall>v \<in> set ws. \<exists>r. find_wake (w_id v) d' = Some r \<and> token_matches v r)"
proof -
  have "w_id v \<noteq> w_id v2" if v: "v \<in> set ws" and v2: "v2 \<in> set ws2" for v v2
  proof
    assume eq: "w_id v = w_id v2"
    from claim_each_returned [OF assms(1) [unfolded claim_def] v] obtain r where
      r: "r \<in> set (db_wakes d)" "claimable now r" "w_id v = w_id r" by auto
    then have "claim_wake tok lease now r \<in> set (db_wakes d')" using claim_rows [OF assms(1,2)] by auto
    moreover from claim_each_returned [OF assms(4) [unfolded claim_def] v2] obtain r2 where
      "r2 \<in> set (db_wakes d')" "claimable now2 r2" "w_id v2 = w_id r2" by auto
    ultimately have "claimable now2 (claim_wake tok lease now r)"
      using lookup_by_mem [OF db_ok_wake_ids [OF assms(3)]] r(3) eq by (metis claim_wake_keeps(1) option.inject)
    with assms(5) show False by (simp add: claimable_def claim_wake_def)
  qed
  with claim_returned [OF assms(1,2)] show ?thesis by blast
qed

subsubsection \<open>A quiet pump drains the outbox\<close>

definition held_claim :: "wake \<Rightarrow> db \<Rightarrow> bool" where
  "held_claim w d \<longleftrightarrow> wake_current w d \<and> (\<exists>r. find_wake (w_id w) d = Some r \<and> token_matches w r)"

lemma deliver_quiet:
  assumes inv: "kernel_inv d" and held: "held_claim w d"
  shows "\<exists>left sent d'. deliver quarantined (\<lambda>_. True) (\<lambda>e. e) (\<lambda>e. e) w now d = Inr (left, sent, d') \<and> kernel_step d d'
    \<and> (\<exists>r. find_wake (w_id w) d' = Some r \<and> \<not> live_wake r) \<and> (\<forall>i. i \<noteq> w_id w \<longrightarrow> find_wake i d' = find_wake i d)"
proof -
  from held obtain r where r: "find_wake (w_id w) d = Some r" "token_matches w r" and cur: "wake_current w d"
    by (auto simp: held_claim_def)
  note ok = kernel_inv_ok [OF inv]
  have step: "kernel_step d d'" if "deliver quarantined (\<lambda>_. True) (\<lambda>e. e) (\<lambda>e. e) w now d = Inr (left, sent, d')" for left sent d'
    by (rule deliver_step [OF that inv cur]) (simp_all add: kernel_step_refl)
  show ?thesis
  proof (cases "why_undeliverable quarantined (get_by_id (w_parent w) d)
      (case get_by_id (w_parent w) d of None \<Rightarrow> [] | Some p \<Rightarrow> children (t_id p) d)")
    case (Some reason)
    obtain l d2 where st: "settle_wake w WResolved (Some reason) (Some (''suppressed: '' @ reason)) now d = (l, d2)" by fastforce
    with Some have run: "deliver quarantined (\<lambda>_. True) (\<lambda>e. e) (\<lambda>e. e) w now d = Inr (False, [], d2)"
      by (simp add: deliver_def Let_def resolve_wake_def)
    from run step [OF run] settle_wake_hit [OF st ok r] show ?thesis by (auto simp: live_wake_def)
  next
    case None
    let ?sel = "wake_payload (w_predicate w) (the (get_by_id (w_parent w) d))
      (case get_by_id (w_parent w) d of None \<Rightarrow> [] | Some p \<Rightarrow> children (t_id p) d) (is_escalation (w_dedupe_key w))"
    let ?d1 = "d\<lparr>db_wakes := update_by w_id (w_id w) (token_matches w) (freeze ?sel now) (db_wakes d)\<rparr>"
    have hit: "persist_payload w ?sel now d = Inr (w_payload (freeze ?sel now r), ?d1)" by (rule persist_payload_hit [OF ok r])
    obtain l d2 where st: "settle_wake w WDelivered None None now ?d1 = (l, d2)" by fastforce
    have look: "find_wake i ?d1 = map_option (\<lambda>r. if i = w_id w \<and> token_matches w r then freeze ?sel now r else r) (find_wake i d)"
      for i by (simp add: find_wake_def lookup_update_by freeze_def)
    have r1: "find_wake (w_id w) ?d1 = Some (freeze ?sel now r)" "token_matches w (freeze ?sel now r)"
      using r look [of "w_id w"] by (simp_all add: token_matches_def freeze_def)
    have others: "find_wake i ?d1 = find_wake i d" if "i \<noteq> w_id w" for i
      using that look [of i] by (cases "find_wake i d") simp_all
    have "\<exists>sent. deliver quarantined (\<lambda>_. True) (\<lambda>e. e) (\<lambda>e. e) w now d = Inr (l, sent, d2)"
      using None hit st by (auto simp: deliver_def Let_def split: option.split)
    then obtain sent where run: "deliver quarantined (\<lambda>_. True) (\<lambda>e. e) (\<lambda>e. e) w now d = Inr (l, sent, d2)" ..
    from persist_payload_step [OF hit inv] have "db_ok ?d1" by (intro kernel_inv_ok kernel_step_inv)
    from run step [OF run] settle_wake_hit [OF st this r1] others show ?thesis by (auto simp: live_wake_def)
  qed
qed

lemma deliver_each_quiet:
  assumes "kernel_inv d" and "\<And>w. w \<in> set ws \<Longrightarrow> held_claim w d" and "distinct (map w_id ws)"
  shows "\<exists>n sent d'. deliver_each quarantined (\<lambda>_. True) (\<lambda>_ e. e) (\<lambda>_ e. e) ws now d = Inr (n, sent, d')
    \<and> (\<forall>w \<in> set ws. \<exists>r. find_wake (w_id w) d' = Some r \<and> \<not> live_wake r)
    \<and> (\<forall>i. i \<notin> w_id ` set ws \<longrightarrow> find_wake i d' = find_wake i d)"
  using assms(1-3)
proof (induction ws arbitrary: d)
  case (Cons w ws)
  from deliver_quiet [OF Cons.prems(1) Cons.prems(2) [of w], where quarantined = quarantined and now = now] obtain left sent d1 where
    one: "deliver quarantined (\<lambda>_. True) (\<lambda>e. e) (\<lambda>e. e) w now d = Inr (left, sent, d1)" "kernel_step d d1"
      "\<exists>r. find_wake (w_id w) d1 = Some r \<and> \<not> live_wake r" "\<And>i. i \<noteq> w_id w \<Longrightarrow> find_wake i d1 = find_wake i d"
    by auto
  have "held_claim v d1" if v: "v \<in> set ws" for v
  proof -
    from v Cons.prems(3) have "w_id v \<noteq> w_id w" by (auto simp: image_iff)
    with one(4) [of "w_id v"] Cons.prems(2) [of v] v show ?thesis by (simp add: held_claim_def wake_current_def)
  qed
  with Cons.IH [OF kernel_step_inv [OF one(2)]] Cons.prems(3) obtain n sent' d' where
    rest: "deliver_each quarantined (\<lambda>_. True) (\<lambda>_ e. e) (\<lambda>_ e. e) ws now d1 = Inr (n, sent', d')"
      "\<forall>w \<in> set ws. \<exists>r. find_wake (w_id w) d' = Some r \<and> \<not> live_wake r"
      "\<forall>i. i \<notin> w_id ` set ws \<longrightarrow> find_wake i d' = find_wake i d1" by auto
  with one Cons.prems(3) show ?case by auto
qed simp

lemma claim_each_ids:
  assumes "claim_each tok lease now ws d = (claimed, d')" and "\<And>w. w \<in> set ws \<Longrightarrow> find_wake (w_id w) d \<noteq> None"
  shows "map w_id claimed = map w_id ws"
  using assms
proof (induction ws arbitrary: d claimed d')
  case (Cons w ws)
  obtain hit d1 where chg: "change_wake (w_id w) ''claimed'' now (\<lambda>_. True) (claim_wake tok lease now) d = (hit, d1)"
    by fastforce
  obtain c d2 where rest: "claim_each tok lease now ws d1 = (c, d2)" by fastforce
  have same: "find_wake (w_id v) d1 = None \<longleftrightarrow> find_wake (w_id v) d = None" for v
    using change_wake_find [OF chg] by simp
  obtain row where row: "find_wake (w_id w) d1 = Some row"
    using same [of w] Cons.prems(2) [of w] by (cases "find_wake (w_id w) d1") simp_all
  then have "w_id row = w_id w" by (auto simp: find_wake_def dest: lookup_by_SomeD)
  moreover have "map w_id c = map w_id ws"
    by (rule Cons.IH [OF rest]) (use Cons.prems(2) same in \<open>metis list.set_intros(2)\<close>)
  ultimately show ?case using Cons.prems(1) chg rest row by (auto simp: decode_wake_def wake.defs)
qed simp

lemma claim_each_keeps:
  assumes "claim_each tok lease now ws d = (claimed, d')" and "find_wake i d = Some q"
  shows "wake_current (decode_wake q) d'"
  using assms
proof (induction ws arbitrary: d claimed d' q)
  case Nil
  then show ?case
    by (auto simp: wake_current_def decode_wake_def wake.defs find_wake_def dest: lookup_by_SomeD)
next
  case (Cons w ws)
  obtain hit d1 where chg: "change_wake (w_id w) ''claimed'' now (\<lambda>_. True) (claim_wake tok lease now) d = (hit, d1)"
    by fastforce
  obtain c d2 where rest: "claim_each tok lease now ws d1 = (c, d2)" by fastforce
  have "find_wake i d1 = Some (if i = w_id w then claim_wake tok lease now q else q)"
    using change_wake_find [OF chg, of i] Cons.prems(2) by simp
  from Cons.IH [OF rest this] Cons.prems(1) chg rest show ?case
    by (auto simp: wake_current_def decode_wake_def wake.defs split: if_splits)
qed

lemma claim_each_current:
  assumes "claim_each tok lease now ws d = (claimed, d')" and "v \<in> set claimed"
  shows "wake_current v d'"
  using assms
proof (induction ws arbitrary: d claimed d')
  case (Cons w ws)
  obtain hit d1 where chg: "change_wake (w_id w) ''claimed'' now (\<lambda>_. True) (claim_wake tok lease now) d = (hit, d1)"
    by fastforce
  obtain c d2 where rest: "claim_each tok lease now ws d1 = (c, d2)" by fastforce
  from Cons.prems chg rest have "d' = d2" and "v \<in> set c \<or> (\<exists>q. find_wake (w_id w) d1 = Some q \<and> v = decode_wake q)"
    by (auto split: option.splits)
  then show ?case
    using Cons.IH [OF rest] claim_each_keeps [OF rest] by (auto simp: find_wake_def dest: lookup_by_SomeD)
qed simp

text \<open>
  C34: nothing claimable is dropped.  When the executor accepts every message and no other
  process interferes, one pump succeeds and every wake it could claim has left the outbox:
  delivered, or resolved with its reason; every other row is as the claim left it.
\<close>

theorem pump_drains:
  assumes "kernel_inv d" and "w \<in> set (db_wakes d)" and "claimable now w"
  shows "\<exists>n sent d' r. pump quarantined (\<lambda>_. True) (\<lambda>_ e. e) (\<lambda>_ e. e) tok lease now d = Inr (n, sent, d')
    \<and> find_wake (w_id w) d' = Some r \<and> \<not> live_wake r"
proof -
  let ?ws = "sort_key w_created_at (filter (claimable now) (db_wakes d))"
  note ok = kernel_inv_ok [OF assms(1)]
  obtain claimed d1 where c: "claim tok lease now d = (claimed, d1)" by fastforce
  note s1 = claim_step [OF c assms(1)]
  have "find_wake (w_id v) d \<noteq> None" if "v \<in> set (db_wakes d)" for v
    using lookup_by_mem [OF db_ok_wake_ids [OF ok] that] by (simp add: find_wake_def)
  then have ids: "map w_id claimed = map w_id ?ws" using c by (auto simp: claim_def intro: claim_each_ids)
  have "distinct (map w_id ?ws)"
    using db_ok_wake_ids [OF ok] by (simp add: distinct_map inj_on_def)
  with ids have dist: "distinct (map w_id claimed)" by simp
  have "w_id w \<in> set (map w_id ?ws)" using assms(2,3) by simp
  with ids obtain v where v: "v \<in> set claimed" "w_id v = w_id w" by (metis image_iff set_map)
  have held: "held_claim u d1" if "u \<in> set claimed" for u
    using claim_each_current [OF c [unfolded claim_def] that] claim_returned [OF c ok that] by (auto simp: held_claim_def)
  from deliver_each_quiet [OF kernel_step_inv [OF s1] held dist, where quarantined = quarantined and now = now]
  obtain n sent d' where
    "deliver_each quarantined (\<lambda>_. True) (\<lambda>_ e. e) (\<lambda>_ e. e) claimed now d1 = Inr (n, sent, d')"
    "\<forall>w \<in> set claimed. \<exists>r. find_wake (w_id w) d' = Some r \<and> \<not> live_wake r" by auto
  with v c show ?thesis by (force simp: pump_def)
qed

subsection \<open>Witnesses\<close>

definition outbox_wake :: wake_row where
  "outbox_wake = pending_wake ''w1'' ''p'' AllChildrenTerminal ''key'' (Some 1) 5"

definition outbox_seed :: db where
  "outbox_seed = seed [wake_manager 1, wake_kid Completed]"

definition outbox_db :: db where
  "outbox_db = snd (insert_wake outbox_wake ''armed'' 5 outbox_seed)"

lemma outbox_insert: "insert_wake outbox_wake ''armed'' 5 outbox_seed = (True, outbox_db)"
  by (simp add: outbox_db_def outbox_seed_def insert_wake_def wake_conflict_def Let_def)

lemma outbox_rows [simp]: "db_wakes outbox_db = [outbox_wake]" "db_tasks outbox_db = [wake_manager 1, wake_kid Completed]"
  using insert_wake_frame [OF outbox_insert] seed_tasks [OF wake_rows_table]
  by (auto simp: outbox_seed_def split: if_splits)

lemma outbox_find:
  "find_wake ''w1'' outbox_db = Some outbox_wake" "find_task ''p'' outbox_db = Some (wake_manager 1)"
  by (simp_all add: find_wake_def find_task_def) (simp add: outbox_wake_def pending_wake_def)

lemma outbox_inv: "kernel_inv outbox_db"
proof -
  have "kernel_inv outbox_seed" unfolding outbox_seed_def by (rule wake_rows_inv) simp
  from kernel_step_insert_wake [OF outbox_insert this] show ?thesis
    by (simp add: kernel_step_inv event_known_def outbox_wake_def pending_wake_def outbox_seed_def find_task_def
        seed_tasks [OF wake_rows_table])
qed

text \<open>The claim of the one wake, by a pump whose token is the wake's identifier.\<close>

definition claimed_db :: db where
  "claimed_db = snd (claim (\<lambda>i. i) 60 10 outbox_db)"

definition claimed_wake :: wake where
  "claimed_wake = decode_wake (claim_wake (\<lambda>i. i) 60 10 outbox_wake)"

lemma claimed_run: "claim (\<lambda>i. i) 60 10 outbox_db = ([claimed_wake], claimed_db)"
proof -
  obtain hit d1 where chg: "change_wake ''w1'' ''claimed'' 10 (\<lambda>_. True) (claim_wake (\<lambda>i. i) 60 10) outbox_db = (hit, d1)"
    by fastforce
  have "find_wake ''w1'' d1 = Some (claim_wake (\<lambda>i. i) 60 10 outbox_wake)"
    using change_wake_find [OF chg, of "''w1''"] outbox_find by simp
  with chg show ?thesis
    by (auto simp: claimed_db_def claim_def claimable_def claimed_wake_def outbox_wake_def pending_wake_def)
qed

lemma claimed_inv: "kernel_inv claimed_db"
  by (rule kernel_step_inv [OF claim_step [OF claimed_run outbox_inv]])

lemma claimed_facts:
  "find_wake ''w1'' claimed_db = Some (claim_wake (\<lambda>i. i) 60 10 outbox_wake)"
  "find_task ''p'' claimed_db = Some (wake_manager 1)" "db_tasks claimed_db = [wake_manager 1, wake_kid Completed]"
  "w_id claimed_wake = ''w1''" "w_parent claimed_wake = ''p''" "w_event_seq claimed_wake = Some 1"
  "w_claim_token claimed_wake = Some ''w1''" "w_predicate claimed_wake = AllChildrenTerminal"
  "w_dedupe_key claimed_wake = ''key''"
  using claim_rows [OF claimed_run kernel_inv_ok [OF outbox_inv]] outbox_find
  by (simp_all add: find_wake_def find_task_def claimed_wake_def decode_wake_def wake.defs outbox_wake_def pending_wake_def
      claimable_def claim_wake_def)

lemma claimed_held: "held_claim claimed_wake claimed_db"
  using claimed_facts
  by (auto simp: held_claim_def wake_current_def token_matches_def claim_wake_def outbox_wake_def pending_wake_def)

theorem stale_claim_is_inert_witness:
  "deliver (\<lambda>_. None) (\<lambda>_. True) (\<lambda>d. d) (\<lambda>d. d) (claimed_wake\<lparr>w_claim_token := Some ''other''\<rparr>) 20 claimed_db
   = Inr (False, [], claimed_db)"
  by (rule stale_claim_is_inert [where r = "claim_wake (\<lambda>i. i) 60 10 outbox_wake"])
     (simp_all add: kernel_inv_ok [OF claimed_inv] claimed_facts claim_wake_def outbox_wake_def pending_wake_def)

theorem pump_drains_witness:
  "\<exists>n sent d' r. pump (\<lambda>_. None) (\<lambda>_. True) (\<lambda>_ e. e) (\<lambda>_ e. e) (\<lambda>i. i) 60 10 outbox_db = Inr (n, sent, d')
    \<and> find_wake ''w1'' d' = Some r \<and> \<not> live_wake r"
  using pump_drains [OF outbox_inv, of outbox_wake 10 "\<lambda>_. None" "\<lambda>i. i" 60]
  by (simp add: claimable_def outbox_wake_def pending_wake_def)

theorem claim_is_exclusive_witness:
  "w_id ` set (fst (claim (\<lambda>i. i) 60 40 claimed_db)) \<inter> {''w1''} = {}"
proof -
  obtain ws2 d2 where c2: "claim (\<lambda>i. i) 60 40 claimed_db = (ws2, d2)" by fastforce
  from claim_is_exclusive [OF claimed_run kernel_inv_ok [OF outbox_inv] kernel_inv_ok [OF claimed_inv] c2] c2 claimed_facts(4)
  show ?thesis by auto
qed

lemma claimed_deliverable:
  "why_undeliverable (\<lambda>_. None) (get_by_id ''p'' claimed_db) (children ''p'' claimed_db) = None"
  "get_by_id ''p'' claimed_db = Some (decode_task (wake_manager 1))"
  using claimed_facts(2)
  by (simp_all add: why_undeliverable_def get_by_id_def children_def child_rows_def claimed_facts(3) decode_task_def
      task_record.defs truthy_def live_states_def wake_kid_def wake_manager_def)

lemma frozen_find:
  assumes "find_wake (w_id w) d = Some r" and "token_matches w r"
  shows "find_wake (w_id w) (d\<lparr>db_wakes := update_by w_id (w_id w) (token_matches w) (freeze sel now) (db_wakes d)\<rparr>)
    = Some (freeze sel now r)"
  using assms by (simp add: find_wake_def lookup_update_by freeze_def)

lemma token_freeze [simp]: "token_matches w (freeze sel now r) = token_matches w r"
  by (simp add: token_matches_def freeze_def)

lemma claimed_sends:
  "\<exists>m d'. deliver (\<lambda>_. None) (\<lambda>_. False) (\<lambda>e. e) (\<lambda>e. e) claimed_wake 20 claimed_db = Inr (False, [m], d')
     \<and> kernel_step claimed_db d'
     \<and> (\<exists>m' d''. deliver (\<lambda>_. None) (\<lambda>_. True) (\<lambda>e. e) (\<lambda>e. e) claimed_wake 30 d' = Inr (True, [m'], d''))"
proof -
  let ?r = "claim_wake (\<lambda>i. i) 60 10 outbox_wake"
  let ?sel = "wake_payload AllChildrenTerminal (decode_task (wake_manager 1)) (children ''p'' claimed_db) (is_escalation ''key'')"
  let ?d1 = "claimed_db\<lparr>db_wakes := update_by w_id ''w1'' (token_matches claimed_wake) (freeze ?sel 20) (db_wakes claimed_db)\<rparr>"
  have r: "find_wake (w_id claimed_wake) claimed_db = Some ?r" "token_matches claimed_wake ?r"
    using claimed_facts by (auto simp: token_matches_def claim_wake_def outbox_wake_def pending_wake_def)
  have tid: "t_id (decode_task (wake_manager 1)) = ''p''" by (simp add: decode_task_def task_record.defs)
  have hit: "persist_payload claimed_wake ?sel 20 claimed_db = Inr (w_payload (freeze ?sel 20 ?r), ?d1)"
    using persist_payload_hit [OF kernel_inv_ok [OF claimed_inv] r] by (simp add: claimed_facts)
  obtain b where b: "w_payload (freeze ?sel 20 ?r) = Some b" by (cases "w_payload (freeze ?sel 20 ?r)") auto
  have run1: "\<exists>m. deliver (\<lambda>_. None) (\<lambda>_. False) (\<lambda>e. e) (\<lambda>e. e) claimed_wake 20 claimed_db = Inr (False, [m], ?d1)"
    using hit b claimed_deliverable by (simp add: deliver_def Let_def claimed_facts tid)
  note s = persist_payload_step [OF hit claimed_inv]
  have held: "find_wake ''w1'' ?d1 = Some (freeze ?sel 20 ?r)" "token_matches claimed_wake (freeze ?sel 20 ?r)"
    using r frozen_find [OF r] by (simp_all add: claimed_facts)
  have same: "get_by_id ''p'' ?d1 = get_by_id ''p'' claimed_db" "children ''p'' ?d1 = children ''p'' claimed_db"
    by (simp_all add: get_by_id_def children_def child_rows_def find_task_def)
  let ?d2 = "?d1\<lparr>db_wakes := update_by w_id ''w1'' (token_matches claimed_wake) (freeze ?sel 30) (db_wakes ?d1)\<rparr>"
  have hit2: "persist_payload claimed_wake ?sel 30 ?d1 = Inr (w_payload (freeze ?sel 30 (freeze ?sel 20 ?r)), ?d2)"
    using persist_payload_hit [OF kernel_inv_ok [OF kernel_step_inv [OF s]], of claimed_wake] held by (simp add: claimed_facts)
  obtain b2 where b2: "w_payload (freeze ?sel 30 (freeze ?sel 20 ?r)) = Some b2"
    by (cases "w_payload (freeze ?sel 30 (freeze ?sel 20 ?r))") auto
  have held2: "find_wake (w_id claimed_wake) ?d2 = Some (freeze ?sel 30 (freeze ?sel 20 ?r))"
      "token_matches claimed_wake (freeze ?sel 30 (freeze ?sel 20 ?r))"
    using held frozen_find [of claimed_wake ?d1] by (simp_all add: claimed_facts)
  obtain l d3 where st: "settle_wake claimed_wake WDelivered None None 30 ?d2 = (l, d3)" by fastforce
  from persist_payload_step [OF hit2 kernel_step_inv [OF s]] have "db_ok ?d2" by (intro kernel_inv_ok kernel_step_inv)
  from settle_wake_hit [OF st this held2] have l: l by blast
  have "\<exists>m. deliver (\<lambda>_. None) (\<lambda>_. True) (\<lambda>e. e) (\<lambda>e. e) claimed_wake 30 ?d1 = Inr (True, [m], d3)"
    using hit2 b2 claimed_deliverable st l by (simp add: deliver_def Let_def claimed_facts tid same)
  with run1 s show ?thesis by blast
qed

theorem delivery_bytes_frozen_witness:
  "\<exists>m d1 d2. deliver (\<lambda>_. None) (\<lambda>_. False) (\<lambda>e. e) (\<lambda>e. e) claimed_wake 20 claimed_db = Inr (False, [m], d1)
     \<and> (\<exists>m2. deliver (\<lambda>_. None) (\<lambda>_. True) (\<lambda>e. e) (\<lambda>e. e) claimed_wake 30 d1 = Inr (True, [m2], d2) \<and> snd m2 = snd m)"
proof -
  have cur: "wake_current claimed_wake claimed_db" using claimed_held by (simp add: held_claim_def)
  from claimed_sends obtain m d1 m2 d2 where
    run: "deliver (\<lambda>_. None) (\<lambda>_. False) (\<lambda>e. e) (\<lambda>e. e) claimed_wake 20 claimed_db = Inr (False, [m], d1)"
      "kernel_step claimed_db d1"
      "deliver (\<lambda>_. None) (\<lambda>_. True) (\<lambda>e. e) (\<lambda>e. e) claimed_wake 30 d1 = Inr (True, [m2], d2)" by blast
  have "snd m2 = snd m"
    by (rule delivery_bytes_frozen [OF run(1,3) _ _ claimed_inv cur wake_current_mono [OF cur run(2)]])
       (simp_all add: kernel_step_refl kernel_step_inv [OF run(2)])
  with run show ?thesis by blast
qed

theorem only_delivery_moves_watermark_witness:
  "\<exists>m d1 d2 pr. deliver (\<lambda>_. None) (\<lambda>_. True) (\<lambda>e. e) (\<lambda>e. e) claimed_wake 30 d1 = Inr (True, [m], d2)
     \<and> find_task ''p'' d2 = Some pr \<and> 1 \<le> t_last_woken_seq pr"
proof -
  have cur: "wake_current claimed_wake claimed_db" using claimed_held by (simp add: held_claim_def)
  from claimed_sends obtain d1 m2 d2 where
    run: "kernel_step claimed_db d1"
      "deliver (\<lambda>_. None) (\<lambda>_. True) (\<lambda>e. e) (\<lambda>e. e) claimed_wake 30 d1 = Inr (True, [m2], d2)" by blast
  from run(1) claimed_facts(2) obtain pr where pr: "find_task (w_parent claimed_wake) d1 = Some pr"
    unfolding kernel_step_def grows_def find_task_def by (metis claimed_facts(5))
  from only_delivery_moves_watermark [OF run(2) kernel_step_inv [OF run(1)] wake_current_mono [OF cur run(1)] claimed_facts(6) pr]
  have "\<exists>pr'. find_task (w_parent claimed_wake) d2 = Some pr' \<and> 1 \<le> t_last_woken_seq pr'"
    using kernel_step_refl by blast
  then obtain pr' where "find_task ''p'' d2 = Some pr'" "1 \<le> t_last_woken_seq pr'"
    unfolding claimed_facts(5) by blast
  with run(2) show ?thesis by blast
qed

end
