(* ===== verification/KernelSystem.thy ===== *)
theory KernelSystem
  imports Sdk Checkpoints WakeDelivery
begin

text \<open>
  The kernel as one transition system.  Its state is the shared database; a step is one
  committed transaction of any of the modelled operations, with any arguments, by any process.
  Operations that use several transactions (a wake delivery, an expired reservation) appear by
  their transactions, so every interleaving of processes is a run.  The invariant and the
  preorder of \<open>Evolution\<close> are discharged for every step, and the properties of the kernel
  that no single operation shows are theorems about all runs.
\<close>

subsection \<open>The remaining operations are kernel steps\<close>

lemma kernel_step_checkpoints:
  assumes "kernel_inv d" and "checkpoint_table_ok rows"
    and "grows k_operation_id checkpoint_evolves (db_checkpoints d) rows"
  shows "kernel_step d (d\<lparr>db_checkpoints := rows\<rparr>)"
  by (rule kernel_step_side [OF assms(1)])
     (use assms in \<open>auto simp: db_ok_set_checkpoints kernel_inv_ok log_extends_def effects.grows_refl wakes.grows_refl
        kernel_inv_def list_all_iff\<close>)

lemma prepare_checkpoint_step:
  assumes "prepare_checkpoint_operation x pol barrier task oid text facts fence now d = Inr (out, d')"
    and inv: "kernel_inv d"
  shows "kernel_step d d'"
  using assms(1)
proof (cases rule: prepare_cases)
  case known
  with inv show ?thesis by (simp add: kernel_step_refl)
next
  case (fresh oper current)
  note new = insert_checkpoint_ok [OF fresh(2) kernel_inv_ok [OF inv]]
  from db_ok_checkpoints [OF new(1)] show ?thesis
    unfolding new(2) by (intro kernel_step_checkpoints [OF inv]) (simp_all add: checkpoints.grows_append)
qed

lemma mark_committed_evolves:
  "k_receipt k = None \<or> k_receipt k = Some receipt \<Longrightarrow> checkpoint_evolves k (mark_committed receipt now k)"
  by (auto simp: checkpoint_evolves_def mark_committed_def)

lemma commit_checkpoint_step:
  assumes run: "checkpoint_with_occurrence aware dump_bytes x pol barrier oper native fence now d = Inr (out, d')"
    and inv: "kernel_inv d"
  shows "kernel_step d d'"
  using run
proof (cases rule: commit_cases)
  case (1 receipt stored current res d1)
  have s: "kernel_step d d1 \<and> db_checkpoints d1 = db_checkpoints d"
  proof (cases "d1 = d")
    case False
    with 1(8) have "transition_on (k_task_id oper) live_states (Some (k_expected_version oper))
           (\<lambda>r. r\<lparr>t_checkpoint := Some (k_checkpoint oper), t_checkpoint_at := Some now\<rparr>) ''checkpoint'' now d
         = Inr (res, d1)" by blast
    then have "lifecycle_write (k_task_id oper) res d d1"
      by (rule transition_on_lifecycle [OF _ kernel_inv_ok [OF inv]]) (auto simp: lifecycle_defs)
    then show ?thesis
      using kernel_step_lifecycle [OF _ inv] by (auto simp: lifecycle_write_def task_write_def same_side_tables_def)
  qed (simp add: kernel_step_refl [OF inv])
  have "k_receipt k = None \<or> k_receipt k = Some receipt"
    if k: "k \<in> set (db_checkpoints d1)" "k_operation_id k = k_operation_id oper" for k
  proof -
    have "distinct (map k_operation_id (db_checkpoints d))"
      using db_ok_checkpoints [OF kernel_inv_ok [OF inv]] by (simp add: checkpoint_table_ok_def)
    from lookup_by_mem [OF this, of k] k s 1(3) have "k = stored" by (simp add: find_checkpoint_def)
    with 1(8) show ?thesis by auto
  qed
  then have "grows k_operation_id checkpoint_evolves (db_checkpoints d1)
      (update_by k_operation_id (k_operation_id oper) (\<lambda>_. True) (mark_committed receipt now) (db_checkpoints d1))"
    by (intro checkpoints.grows_update) (auto intro: mark_committed_evolves)
  moreover have "db_ok d'" using commit_checkpoint_ok [OF run kernel_inv_ok [OF inv]] by blast
  ultimately have "kernel_step d1 d'"
    unfolding 1(7) using s kernel_step_inv db_ok_checkpoints by (intro kernel_step_checkpoints) fastforce+
  with s show ?thesis by (blast intro: kernel_step_trans)
qed

subsection \<open>The transition system\<close>

text \<open>
  One constructor per transaction.  Only successful ones are here: an operation that returns an
  error was rolled back.  A wake record a pump settles or freezes was handed to it by a claim,
  which is what \<open>wake_current\<close> says.  The resumption of an automatic recovery appears with the
  budget check the code does not make (\<open>Sdk.resume_skips_budget\<close> shows what happens without it).
\<close>

inductive kstep :: "db \<Rightarrow> db \<Rightarrow> bool" where
  reserve: "reserve_all uuid5 sc parent specs m now d = Inr (rs, d') \<Longrightarrow> kstep d d'"
| activate: "activate x tid ws s fence now d = Inr (rec, d') \<Longrightarrow> kstep d d'"
| replace: "prepare_replacement x tid target charge ev fence now d = Inr (rec, d') \<Longrightarrow> kstep d d'"
| checkpoint: "checkpoint tid text now d = Inr (rec, d') \<Longrightarrow> kstep d d'"
| prepare_checkpoint:
    "prepare_checkpoint_operation x pol barrier task oid text facts fence now d = Inr (out, d') \<Longrightarrow> kstep d d'"
| commit_checkpoint:
    "checkpoint_with_occurrence aware dump_bytes x pol barrier oper native fence now d = Inr (out, d') \<Longrightarrow> kstep d d'"
| finish: "finish x tid st res ev charge fence False now d = Inr (rec, d') \<Longrightarrow> kstep d d'"
| exhaust: "exhaust x tid reason v fence now d = Inr (rec, d') \<Longrightarrow> kstep d d'"
| reissue: "reissue_write x current spec fence now d = Inr (rec, d') \<Longrightarrow> kstep d d'"
| resume: "(\<And>r. automatic \<Longrightarrow> find_task (t_id task) d = Some r \<Longrightarrow> t_attempts r < t_max_attempts r)
    \<Longrightarrow> resume_write x task automatic target fence now d = Inr (rec, d') \<Longrightarrow> kstep d d'"
| checkpoint_local: "checkpoint_local x task reference fence now d = Inr (rec, d') \<Longrightarrow> kstep d d'"
| finish_with_wake: "finish_with_wake wid x tid st res ev charge fence now d = Inr (told, d') \<Longrightarrow> kstep d d'"
| record_liveness: "record_liveness tid name evidence now d = Inr (rec, d') \<Longrightarrow> kstep d d'"
| record_over_budget: "record_over_budget tid now d = Inr (hit, d') \<Longrightarrow> kstep d d'"
| record_wakes: "record_wakes wid parent now d = (created, d') \<Longrightarrow> kstep d d'"
| record_liveness_wakes: "record_liveness_wakes wid child now timeout d = (created, d') \<Longrightarrow> kstep d d'"
| claim: "claim tok lease now d = (ws, d') \<Longrightarrow> kstep d d'"
| freeze: "wake_current w d \<Longrightarrow> persist_payload w bytes now d = Inr (out, d') \<Longrightarrow> kstep d d'"
| settle: "wake_current w d \<Longrightarrow> settle_wake w st resolution payload now d = (left, d') \<Longrightarrow> kstep d d'"
| reserve_effect: "reserve_effect tid ep hash owner ttl now d = Inr (out, d') \<Longrightarrow> kstep d d'"
| mark_launched: "mark_launched tid ep ws s now d = Inr (e, d') \<Longrightarrow> kstep d d'"
| mark_terminal: "mark_terminal tid ep outcome retry now d = Inr (e, d') \<Longrightarrow> kstep d d'"
| mark_refused: "mark_refused tid ep reason after now d = Inr (e, d') \<Longrightarrow> kstep d d'"
| mark_superseded: "mark_superseded tid ep ws now d = Inr (e, d') \<Longrightarrow> kstep d d'"
| mark_cleanup: "mark_cleanup_workspace tid ep ws now d = Inr (e, d') \<Longrightarrow> kstep d d'"
| retire: "retire_reservation tid ep now d = (res, d') \<Longrightarrow> kstep d d'"
| retire_and_lose: "retire_and_lose x f tid ep moment now d = (lost, d') \<Longrightarrow> kstep d d'"
| stop_terminal: "stop_terminal stops e now d = Inr d' \<Longrightarrow> kstep d d'"
| stop_superseded: "stop_superseded stops e now d = Inr d' \<Longrightarrow> kstep d d'"
| fence_commands: "kstep d (record_cleanup_intents tid ep session cmds now d)"
| begin_outgoing: "kstep d (begin_outgoing_command tid ep session key now d)"
| settle_outgoing: "settle_outgoing_command tid ep key native terminal now d = Inr d' \<Longrightarrow> kstep d d'"
| acknowledge: "kstep d (acknowledge_cleanup_intent tid ep kind native now d)"

lemma finish_step: "finish x tid st res ev charge fence shared now d = Inr (rec, d') \<Longrightarrow> kernel_inv d \<Longrightarrow> kernel_step d d'"
  by (rule kernel_step_lifecycle [OF finish_lifecycle]) (simp_all add: kernel_inv_ok)

lemma kstep_kernel:
  assumes "kstep d d'" and inv: "kernel_inv d"
  shows "kernel_step d d'"
  using assms(1)
proof cases
  case (exhaust x tid reason v fence now rec)
  then show ?thesis by (auto simp: exhaust_def intro: finish_step inv)
next
  case (reissue x current spec fence now rec)
  show ?thesis by (rule kernel_step_lifecycle [OF reissue_lifecycle [OF reissue kernel_inv_ok [OF inv]] inv])
next
  case (resume automatic task x target fence now rec)
  from resume(1) have "lifecycle_write (t_id task) rec d d'"
    by (rule resume_lifecycle [OF resume(2) kernel_inv_ok [OF inv]])
  then show ?thesis by (rule kernel_step_lifecycle [OF _ inv])
next
  case (checkpoint_local x task reference fence now rec)
  show ?thesis by (rule kernel_step_lifecycle [OF checkpoint_local_lifecycle [OF checkpoint_local kernel_inv_ok [OF inv]] inv])
next
  case (freeze w bytes now out)
  show ?thesis by (rule persist_payload_step [OF freeze(2) inv])
next
  case (settle w st resolution payload now left)
  show ?thesis by (rule settle_wake_step [OF settle(2) inv settle(1)])
qed (use inv kernel_inv_ok [OF inv] in \<open>auto intro: reserve_all_step lifecycle_steps prepare_checkpoint_step
        commit_checkpoint_step finish_step finish_with_wake_step record_liveness_step record_over_budget_step
        record_wakes_step [THEN conjunct1] record_liveness_wakes_step claim_step reserve_effect_step mark_steps
        mark_cleanup_step retire_reservation_step retire_and_lose_step stop_terminal_step stop_superseded_step
        record_cleanup_intents_step begin_outgoing_step settle_outgoing_step acknowledge_cleanup_step\<close>)

interpretation kernel: invariant_system kstep empty_db kernel_inv
  by unfold_locales (auto intro: kernel_inv_empty kstep_kernel kernel_step_inv)

text \<open>The facts of a task, and when they can no longer change.\<close>

definition task_facts :: "string \<Rightarrow> db \<Rightarrow> (task_state \<times> int \<times> int \<times> json \<times> string option \<times> string option
    \<times> string option \<times> real option \<times> string option) option" where
  "task_facts tid d = map_option lifecycle_facts (find_task tid d)"

lemma kernel_step_find: "kernel_step d d' \<Longrightarrow> find_task tid d = Some r \<Longrightarrow> \<exists>r'. find_task tid d' = Some r' \<and> evolves r r'"
  by (auto simp: kernel_step_def grows_def find_task_def)

interpretation task_end: settling_system kstep empty_db kernel_inv task_facts "\<lambda>v. settled_state (fst v)"
proof unfold_locales
  fix s t i v
  assume inv: "kernel_inv s" and step: "kstep s t" and v: "task_facts i s = Some v" "settled_state (fst v)"
  from v(1) obtain r where r: "find_task i s = Some r" "v = lifecycle_facts r" by (auto simp: task_facts_def)
  from kernel_step_find [OF kstep_kernel [OF step inv] r(1)] obtain r' where
    r': "find_task i t = Some r'" "evolves r r'" by blast
  from v(2) r(2) have "settled_state (t_state r)" by (simp add: lifecycle_facts_def)
  from evolves_settled [OF r'(2) this] r r' show "task_facts i t = Some v" by (simp add: task_facts_def)
qed

lemma run_kernel: "kstep\<^sup>*\<^sup>* d d' \<Longrightarrow> kernel_inv d \<Longrightarrow> kernel_step d d'"
proof (induction rule: rtranclp_induct)
  case (step y z)
  then have "kernel_step d y" by simp
  with kstep_kernel [OF step.hyps(2) kernel_step_inv] show ?case by (blast intro: kernel_step_trans)
qed (simp add: kernel_step_refl)

subsection \<open>Properties of every run\<close>

text \<open>
  C1: equal versions mean equal facts.  However many operations of however many processes
  committed in between, a task whose version is the one a caller read still has the state,
  epoch, attempt count, specification, workspace, holder, checkpoint and result the caller
  read; and its epoch, attempts and version never go down.  This is what makes the
  compare-and-swap on \<open>version\<close> a sound decision.
\<close>

theorem version_guards_facts:
  assumes "kstep\<^sup>*\<^sup>* empty_db d" and "kstep\<^sup>*\<^sup>* d d'" and "find_task tid d = Some r"
  shows "\<exists>r'. find_task tid d' = Some r' \<and> t_version r \<le> t_version r' \<and> t_epoch r \<le> t_epoch r'
    \<and> t_attempts r \<le> t_attempts r' \<and> (t_version r' = t_version r \<longrightarrow> lifecycle_facts r' = lifecycle_facts r)"
proof -
  from kernel_step_find [OF run_kernel [OF assms(2) kernel.reachable_inv [OF assms(1)]] assms(3)]
  obtain r' where "find_task tid d' = Some r'" "evolves r r'" by blast
  with evolves_mono evolves_same_version show ?thesis by blast
qed

text \<open>
  C2: a finished task stays finished.  Once a task is completed, cancelled or exhausted, no
  operation of any process changes its state, epoch, attempts, specification, holder,
  checkpoint or result again.
\<close>

theorem finished_is_final:
  assumes "kstep\<^sup>*\<^sup>* empty_db d" and "kstep\<^sup>*\<^sup>* d d'"
    and "find_task tid d = Some r" and "t_state r \<in> {Completed, Cancelled, Exhausted}"
  shows "\<exists>r'. find_task tid d' = Some r' \<and> lifecycle_facts r' = lifecycle_facts r"
proof -
  from assms(3,4) have "task_facts tid d = Some (lifecycle_facts r)" "settled_state (fst (lifecycle_facts r))"
    by (auto simp: task_facts_def lifecycle_facts_def settled_state_def)
  from task_end.settled_reachable [OF assms(1,2) this] show ?thesis by (auto simp: task_facts_def)
qed



text \<open>
  C14: one live wake per fact.  In every state reached from the empty database, or from any state
  the invariant holds in, two wakes that are still to be delivered never carry the same
  deduplication key, and no wake tells of an event its parent has not recorded.
\<close>

theorem one_live_wake_per_key:
  assumes "kernel_inv s" and "kstep\<^sup>*\<^sup>* s d" and "w \<in> set (db_wakes d)" and "w' \<in> set (db_wakes d)"
    and "live_wake w" and "live_wake w'" and "w_dedupe_key w = w_dedupe_key w'"
  shows "w = w' \<and> (\<forall>n. w_event_seq w = Some n \<longrightarrow> (\<exists>r. find_task (w_parent w) d = Some r \<and> n \<le> t_child_event_seq r))"
proof -
  note inv = kernel.run_inv [OF assms(2,1)]
  from db_ok_wakes [OF kernel_inv_ok [OF inv]]
  have "unique_where live_wake w_dedupe_key (db_wakes d)" "distinct (db_wakes d)"
    by (auto simp: wake_table_ok_def distinct_map)
  from unique_whereD [OF this assms(3-7)] inv assms(3) show ?thesis
    by (auto simp: kernel_inv_def list_all_iff event_known_def)
qed

text \<open>
  The first settlement of a wake is the last.  A wake that is delivered or resolved keeps its
  outcome and its bytes in every later state: no stale pump and no later claim rewrites it.
\<close>

theorem settled_wake_is_final:
  assumes "kernel_inv d" and "kstep\<^sup>*\<^sup>* d d'" and "find_wake i d = Some w" and "\<not> live_wake w"
  shows "find_wake i d' = Some w"
  using run_kernel [OF assms(2,1)] assms(3,4)
  by (auto simp: kernel_step_def grows_def find_wake_def wake_evolves_def)

subsection \<open>Witnesses: a run that reserves a task and cancels it\<close>

lemma sample_run:
  "\<exists>tid d1 r1 d2 r2. kstep\<^sup>*\<^sup>* empty_db d1 \<and> find_task tid d1 = Some r1 \<and> t_state r1 = Reserved
     \<and> kstep d1 d2 \<and> find_task tid d2 = Some r2 \<and> t_state r2 = Cancelled \<and> t_version r2 = t_version r1 + 1"
proof -
  from sample_reserve obtain rs d1 where run: "reserve_all id ''scope'' None [sample_spec] 2 5 empty_db = Inr (rs, d1)" by blast
  then obtain keys where k: "spec_keys [sample_spec] = Inr keys" "distinct keys"
    "reserve_rows id ''scope'' None 2 5 [sample_spec] empty_db = Inr (rs, d1)" by (rule reserve_allE) simp
  from reserve_rows_appends [OF k(3) db_ok_empty k(1,2)] obtain news where
    ok: "db_ok d1" and rows: "db_tasks d1 = news" "list_all (reserved_row ''scope'' None) news"
    and res: "list_all2 (reservation_of ''scope'' empty_db d1) [sample_spec] rs"
    by (auto simp: empty_db_def)
  from res obtain res1 where "reservation_of ''scope'' empty_db d1 sample_spec res1" by (auto simp: list_all2_Cons1)
  then obtain ky r where "find_task_by_key ''scope'' ky d1 = Some r" by (auto simp: reservation_of_def)
  then have r: "r \<in> set (db_tasks d1)" by (auto simp: find_task_by_key_def dest: lookup_by_SomeD)
  with rows have st: "t_state r = Reserved" "t_parent r = None" by (auto simp: list_all_iff reserved_row_def)
  have f: "find_task (t_id r) d1 = Some r"
    using lookup_by_mem [OF db_ok_task_ids [OF ok] r] by (simp add: find_task_def)
  let ?r' = "r\<lparr>t_state := Cancelled, t_result := None, t_version := t_version r + 1, t_updated_at := 9\<rparr>"
  have "\<exists>d2. transition_on (t_id r) {Reserved, Active, Replacing, Blocked} None
      (\<lambda>r. r\<lparr>t_state := Cancelled, t_result := None\<rparr>) ''cancelled'' 9 d1 = Inr (decode_task ?r', d2)
      \<and> task_write (t_id r) r ?r' d1 d2"
    using transition_on_succeeds [OF ok f, of "{Reserved, Active, Replacing, Blocked}" None
        "\<lambda>r. r\<lparr>t_state := Cancelled, t_result := None\<rparr>" "''cancelled''" 9] st db_ok_row [OF ok f]
    by (auto simp: live_holder_def task_row_ok_def)
  then obtain d2 where t: "transition_on (t_id r) {Reserved, Active, Replacing, Blocked} None
      (\<lambda>r. r\<lparr>t_state := Cancelled, t_result := None\<rparr>) ''cancelled'' 9 d1 = Inr (decode_task ?r', d2)"
    and w: "task_write (t_id r) r ?r' d1 d2" by blast
  have "finish sample_ctx (t_id r) Cancelled None None False None False 9 d1 = Inr (decode_task ?r', d2)"
    using t by (simp add: finish_def with_fence_def transition_def)
  then have "kstep d1 d2" by (rule kstep.finish)
  moreover have "kstep\<^sup>*\<^sup>* empty_db d1" by (rule r_into_rtranclp) (rule kstep.reserve [OF run])
  moreover have "find_task (t_id r) d2 = Some ?r'" using w by (simp add: task_write_find)
  ultimately show ?thesis using f st
    by (intro exI [of _ "t_id r"] exI [of _ d1] exI [of _ r] exI [of _ d2] exI [of _ ?r']) simp
qed

theorem version_guards_facts_witness:
  "\<exists>tid d1 d2 r1 r2. kstep\<^sup>*\<^sup>* empty_db d1 \<and> kstep\<^sup>*\<^sup>* d1 d2 \<and> find_task tid d1 = Some r1
     \<and> find_task tid d2 = Some r2 \<and> t_version r1 < t_version r2 \<and> t_epoch r1 \<le> t_epoch r2"
proof -
  from sample_run obtain tid d1 r1 d2 r2 where
    "kstep\<^sup>*\<^sup>* empty_db d1" "find_task tid d1 = Some r1" "kstep d1 d2" "find_task tid d2 = Some r2"
    "t_version r2 = t_version r1 + 1" by blast
  with version_guards_facts [OF this(1) r_into_rtranclp [of kstep, OF this(3)] this(2)] show ?thesis
    by (intro exI [of _ tid] exI [of _ d1] exI [of _ d2] exI [of _ r1] exI [of _ r2]) auto
qed

theorem finished_is_final_witness:
  "\<exists>tid d r. kstep\<^sup>*\<^sup>* empty_db d \<and> find_task tid d = Some r \<and> t_state r = Cancelled
     \<and> (\<exists>r'. find_task tid d = Some r' \<and> lifecycle_facts r' = lifecycle_facts r)"
proof -
  from sample_run obtain tid d1 d2 r2 where
    run: "kstep\<^sup>*\<^sup>* empty_db d1" "kstep d1 d2" and r: "find_task tid d2 = Some r2" "t_state r2 = Cancelled" by blast
  from run have "kstep\<^sup>*\<^sup>* empty_db d2" by (rule rtranclp.rtrancl_into_rtrancl)
  with finished_is_final [OF this rtranclp.rtrancl_refl r(1)] r show ?thesis by blast
qed



theorem one_live_wake_per_key_witness:
  "\<exists>d w n r. kstep\<^sup>*\<^sup>* outbox_db d \<and> db_wakes d = [w] \<and> live_wake w \<and> w_event_seq w = Some n
     \<and> find_task (w_parent w) d = Some r \<and> n \<le> t_child_event_seq r"
proof -
  have run: "kstep\<^sup>*\<^sup>* outbox_db claimed_db" by (rule r_into_rtranclp) (rule kstep.claim [OF claimed_run])
  let ?w = "claim_wake (\<lambda>i. i) 60 10 outbox_wake"
  have rows: "db_wakes claimed_db = [?w]"
    using claim_rows [OF claimed_run kernel_inv_ok [OF outbox_inv]]
    by (simp add: claimable_def outbox_wake_def pending_wake_def)
  have "w_event_seq ?w = Some 1" by (simp add: outbox_wake_def pending_wake_def)
  with one_live_wake_per_key [OF outbox_inv run, of ?w ?w] rows obtain r where
    "find_task (w_parent ?w) claimed_db = Some r" "1 \<le> t_child_event_seq r" by auto
  with run rows \<open>w_event_seq ?w = Some 1\<close> show ?thesis
    by (intro exI [of _ claimed_db] exI [of _ ?w] exI [of _ 1] exI [of _ r]) simp
qed

theorem settled_wake_is_final_witness:
  "\<exists>d d' w. kstep\<^sup>*\<^sup>* claimed_db d \<and> kstep d d' \<and> find_wake ''w1'' d = Some w \<and> \<not> live_wake w \<and> find_wake ''w1'' d' = Some w"
proof -
  obtain left d where st: "settle_wake claimed_wake WDelivered None None 30 claimed_db = (left, d)" by fastforce
  from claimed_held have cur: "wake_current claimed_wake claimed_db" by (simp add: held_claim_def)
  have run: "kstep\<^sup>*\<^sup>* claimed_db d" by (rule r_into_rtranclp) (rule kstep.settle [OF cur st])
  from claimed_held obtain r where "find_wake (w_id claimed_wake) claimed_db = Some r" "token_matches claimed_wake r"
    by (auto simp: held_claim_def)
  from settle_wake_hit [OF st kernel_inv_ok [OF claimed_inv] this] claimed_facts(4) obtain w where
    w: "find_wake ''w1'' d = Some w" "\<not> live_wake w" by (auto simp: live_wake_def)
  obtain ws d' where "claim (\<lambda>i. i) 60 99 d = (ws, d')" by fastforce
  then have step: "kstep d d'" by (rule kstep.claim)
  with settled_wake_is_final [OF kernel.run_inv [OF run claimed_inv] r_into_rtranclp [of kstep, OF step] w] run w show ?thesis
    by blast
qed

subsection \<open>A loss nobody is told of\<close>

text \<open>
  C35: the sweep of expired reservations loses a task silently.  When the executor has no native
  session for an expired reservation, the task is marked lost (or exhausted), but the parent's
  row and the wake outbox are exactly as before: no event is counted, so a later scan of the
  parent's cohort arms nothing, unlike every loss that goes through \<open>finish_with_wake\<close>.
\<close>

theorem expiry_tells_nobody:
  assumes "kernel_inv d" and "find_task tid d = Some t" and "t_epoch t = ep" and "t_parent t = Some p" and "p \<noteq> tid"
    and "find_effect tid ep d = Some r" and "e_state r = EReserved" and "e_lease_expires_at r < moment"
    and "t_state t \<in> {Reserved, Active, Replacing}" and "t_attempts t < t_max_attempts t"
    and "native_effect reply = Inr None" and "find_task p d = Some pr" and "t_child_event_seq pr \<le> t_last_woken_seq pr"
  shows "\<exists>e d' t'. expire_one x reply (\<lambda>d. d) tid ep moment now d = (Some e, None, d')
    \<and> find_task tid d' = Some t' \<and> t_state t' \<in> {Lost, Exhausted}
    \<and> find_task p d' = Some pr \<and> db_wakes d' = db_wakes d \<and> record_wakes wid p now' d' = ([], d')"
proof -
  from retire_and_lose_hit [OF assms(1,6,7,8,2,9,10), of x now] obtain e d' t' where
    run: "retire_and_lose (lock_ctx tid x) (lock_fence tid x) tid ep moment now d = (Inr (Some e), d')"
    "find_task tid d' = Some t'" "t_state t' = (if t_attempts t + 1 = t_max_attempts t then Exhausted else Lost)"
    and side: "\<forall>p. p \<noteq> tid \<longrightarrow> find_task p d' = find_task p d" "db_wakes d' = db_wakes d" by blast
  from side(1) assms(5,12) have parent: "find_task p d' = Some pr" by simp
  then have "record_wakes wid p now' d' = ([], d')" using assms(13) by (simp add: record_wakes_def)
  moreover have "expire_one x reply (\<lambda>d. d) tid ep moment now d = (Some e, None, d')"
    using run(1) assms(2,3,11) by (simp add: expire_one_def get_by_id_def Let_def) (simp add: decode_task_def task_record.defs)
  ultimately show ?thesis using run(2,3) side(2) parent by auto
qed

definition silent_kid :: task_row where
  "silent_kid = (sample_row ''a'' Reserved 0 2)\<lparr>t_parent := Some ''p''\<rparr>"

lemma silent_table: "task_table_ok [wake_manager 0, silent_kid]"
  by (simp add: silent_kid_def wake_manager_def sample_defs)

definition silent_db :: db where
  "silent_db = with_effect (sample_effect EReserved) (seed [wake_manager 0, silent_kid])"

lemma silent_facts:
  "kernel_inv silent_db" "find_task ''a'' silent_db = Some silent_kid" "find_task ''p'' silent_db = Some (wake_manager 0)"
  "find_effect ''a'' 1 silent_db = Some (sample_effect EReserved)"
proof -
  have "kernel_inv (seed [wake_manager 0, silent_kid])"
    using kernel_inv_seed [OF silent_table] wake_rows_inv [of 0 Active] sample_row_inv [of 0 2 "''a''" Reserved]
    by (simp add: kernel_inv_def seed_tasks [OF wake_rows_table] silent_kid_def row_inv_def within_budget_def)
  then show "kernel_inv silent_db" unfolding silent_db_def by (rule with_effect_inv)
  show "find_task ''a'' silent_db = Some silent_kid" "find_task ''p'' silent_db = Some (wake_manager 0)"
    unfolding silent_db_def with_effect_task
    by (simp_all add: find_task_def seed_tasks [OF silent_table]) (simp_all add: silent_kid_def)
  show "find_effect ''a'' 1 silent_db = Some (sample_effect EReserved)"
    by (simp add: silent_db_def effect_key_def sample_effect_def)
qed

theorem expiry_tells_nobody_witness:
  "\<exists>e d' t'. expire_one sample_ctx None (\<lambda>d. d) ''a'' 1 99 99 silent_db = (Some e, None, d')
    \<and> find_task ''a'' d' = Some t' \<and> t_state t' \<in> {Lost, Exhausted}
    \<and> record_wakes id ''p'' 100 d' = ([], d')"
proof -
  have "native_effect None = Inr None" by (simp add: native_effect_def)
  from expiry_tells_nobody [OF silent_facts(1,2) _ _ _ silent_facts(4) _ _ _ _ this silent_facts(3),
      where moment = 99 and x = sample_ctx and now = 99 and wid = id and now' = 100]
  show ?thesis by (auto simp: silent_kid_def sample_effect_def)
qed

end
