(* ===== verification/Pool.thy ===== *)
theory Pool
  imports Values "HOL-Library.Product_Lexorder" "HOL-Library.Multiset"
begin

text \<open>
  The credential pool (\<open>pool/core.py\<close>): ordered accounts, cooldowns, identities, the quota
  cache and selection.  The pool and its state are JSON files; they are modelled by the
  fields the code reads, a missing text field being the empty string.  Files, subprocesses
  and hashing are parameters: \<open>token\<close> is \<open>read_token\<close>, \<open>quota\<close> and \<open>probe\<close> the answers of
  the two lookups, \<open>parse_time\<close> is \<open>parse_iso\<close>.  One clock reading serves an operation.
\<close>

subsection \<open>Accounts and state\<close>

record identity_info =
  i_email :: "string option"
  i_org :: "string option"
  i_chatgpt_id :: "string option"
  i_key_fp :: "string option"

record account =
  a_id :: string
  a_provider :: string
  a_kind :: string
  a_disabled :: bool
  a_codex_home :: string
  a_tier :: "int option"
  a_token_fp :: "string option"
  a_identity :: identity_info

record quota_info =
  q_known :: bool
  q_remaining :: "real option"
  q_resets_at :: string

record probe_info =
  pr_at :: real
  pr_ok :: bool
  pr_reason :: string

record pool_state =
  ps_cooldowns :: "string \<Rightarrow> real option"
  ps_probes :: "string \<Rightarrow> probe_info option"
  ps_quota :: "string \<Rightarrow> (real \<times> quota_info) option"

type_synonym pool = "account list"

definition empty_pool_state :: pool_state where
  "empty_pool_state = \<lparr>ps_cooldowns = (\<lambda>_. None), ps_probes = (\<lambda>_. None), ps_quota = (\<lambda>_. None)\<rparr>"

definition providers :: "string list" where
  "providers = [''claude'', ''codex'']"

definition default_cooldown :: real where
  "default_cooldown = 5 * 3600"

definition short_cooldown :: real where
  "short_cooldown = 15 * 60"

definition quota_ttl :: real where
  "quota_ttl = 120"

definition probe_ttl :: real where
  "probe_ttl = 60"

text \<open>\<open>load_pool\<close> of a version 1 file: accounts sorted by tier and id, tiers dropped.\<close>

definition tier_key :: "account \<Rightarrow> int \<times> string" where
  "tier_key a = ((case a_tier a of None \<Rightarrow> 99 | Some t \<Rightarrow> t), a_id a)"

definition migrate_pool :: "pool \<Rightarrow> pool" where
  "migrate_pool accounts = map (\<lambda>a. a\<lparr>a_tier := None\<rparr>) (sort_key tier_key accounts)"

definition accounts_for :: "pool \<Rightarrow> string option \<Rightarrow> account list" where
  "accounts_for accounts provider = filter (\<lambda>a. \<not> truthy provider \<or> provider = Some (a_provider a)) accounts"

definition find_account :: "pool \<Rightarrow> string \<Rightarrow> account option" where
  "find_account accounts aid = lookup_by a_id aid accounts"

subsection \<open>Cooldowns\<close>

definition cooling_until :: "pool_state \<Rightarrow> string \<Rightarrow> real \<Rightarrow> real" where
  "cooling_until st aid now =
     (let until = (case ps_cooldowns st aid of None \<Rightarrow> 0 | Some t \<Rightarrow> t) in if until > now then until else 0)"

definition cool_until_timestamp :: "string \<Rightarrow> num \<Rightarrow> real \<Rightarrow> pool_state \<Rightarrow> real \<times> pool_state" where
  "cool_until_timestamp aid stamp now st =
     (let requested = (case finite_num stamp of None \<Rightarrow> now + default_cooldown | Some t \<Rightarrow> t);
          until = max requested (case ps_cooldowns st aid of None \<Rightarrow> 0 | Some t \<Rightarrow> t)
      in (until, st\<lparr>ps_cooldowns := (ps_cooldowns st)(aid \<mapsto> until), ps_probes := (ps_probes st)(aid := None)\<rparr>))"

definition set_cooldown :: "string \<Rightarrow> real \<Rightarrow> real \<Rightarrow> pool_state \<Rightarrow> real \<times> pool_state" where
  "set_cooldown aid seconds now st = cool_until_timestamp aid (PFloat (now + seconds)) now st"

definition clear_cooldown :: "string \<Rightarrow> pool_state \<Rightarrow> pool_state" where
  "clear_cooldown aid st =
     st\<lparr>ps_cooldowns := (ps_cooldowns st)(aid := None), ps_probes := (ps_probes st)(aid := None)\<rparr>"

subsection \<open>Durations\<close>

definition two_digits :: "nat \<Rightarrow> string" where
  "two_digits n = (if n < 10 then ''0'' else []) @ show_nat n"

definition fmt_delta :: "real \<Rightarrow> string" where
  "fmt_delta seconds =
     (let s = nat \<lfloor>max 0 seconds\<rfloor>
      in if s \<ge> 86400 then show_nat (s div 86400) @ ''d'' @ two_digits ((s mod 86400) div 3600) @ ''h''
         else if s \<ge> 3600 then show_nat (s div 3600) @ ''h'' @ two_digits ((s mod 3600) div 60) @ ''m''
         else if s \<ge> 60 then show_nat (s div 60) @ ''m''
         else show_nat s @ ''s'')"

definition is_digit :: "char \<Rightarrow> bool" where
  "is_digit c \<longleftrightarrow> (let n = of_char c :: nat in 48 \<le> n \<and> n \<le> 57)"

definition digit_value :: "char \<Rightarrow> nat" where
  "digit_value c = of_char c - 48"

definition read_nat :: "string \<Rightarrow> nat" where
  "read_nat ds = foldl (\<lambda>acc c. 10 * acc + digit_value c) 0 ds"

definition duration_scale :: "string \<Rightarrow> nat option" where
  "duration_scale u =
     (if u = [] \<or> u = ''s'' then Some 1 else if u = ''m'' then Some 60
      else if u = ''h'' then Some 3600 else if u = ''d'' then Some 86400 else None)"

text \<open>\<open>parse_duration\<close>: \<open>(\d+)([smhd]?)\<close> on the stripped text, ASCII digits; \<open>None\<close> is the \<open>PoolError\<close>.\<close>

definition parse_duration :: "string \<Rightarrow> nat option" where
  "parse_duration text =
     (let s = strip text; ds = takeWhile is_digit s; rest = dropWhile is_digit s
      in if ds = [] then None else map_option (\<lambda>k. read_nat ds * k) (duration_scale rest))"

subsection \<open>Identity\<close>

text \<open>
  \<open>identity_key\<close>.  A field that is missing, or null, prints as \<open>None\<close> in an f-string; \<open>str_or\<close>
  is \<open>f"{a or b}"\<close>.
\<close>

definition printed :: "string option \<Rightarrow> string" where
  "printed v = (case v of None \<Rightarrow> ''None'' | Some s \<Rightarrow> s)"

definition str_or :: "string option \<Rightarrow> string option \<Rightarrow> string" where
  "str_or a b = printed (if truthy a then a else b)"

definition identity_key :: "account \<Rightarrow> string option" where
  "identity_key a =
     (let i = a_identity a in
      if a_provider a = ''claude'' then
        (if truthy (i_email i) then
           Some (''claude:'' @ printed (i_email i) @ '':'' @ (case i_org i of None \<Rightarrow> ''?'' | Some g \<Rightarrow> g))
         else if truthy (a_token_fp a) then Some (''claude-token:'' @ printed (a_token_fp a)) else None)
      else if a_provider a = ''codex'' \<and> a_kind a = ''chatgpt'' then
        Some (''codex:'' @ str_or (i_chatgpt_id i) (i_email i))
      else if a_provider a = ''codex'' \<and> a_kind a = ''apikey'' then
        Some (''codex-key:'' @ str_or (i_key_fp i) (a_token_fp a))
      else None)"

definition check_duplicate :: "pool \<Rightarrow> account \<Rightarrow> account option" where
  "check_duplicate accounts candidate =
     (case identity_key candidate of
        None \<Rightarrow> None
      | Some k \<Rightarrow> if k = [] then None else find (\<lambda>a. a_id a \<noteq> a_id candidate \<and> identity_key a = Some k) accounts)"

text \<open>\<open>reorder\<close>: the accounts of one provider take the slots the provider has, in the wanted order.\<close>

fun fill_slots :: "string \<Rightarrow> pool \<Rightarrow> account list \<Rightarrow> pool" where
  "fill_slots provider [] new = []"
| "fill_slots provider (a # accounts) new =
     (if a_provider a = provider then
        (case new of [] \<Rightarrow> a # fill_slots provider accounts [] | b # bs \<Rightarrow> b # fill_slots provider accounts bs)
      else a # fill_slots provider accounts new)"

definition reorder :: "pool \<Rightarrow> string \<Rightarrow> string list \<Rightarrow> pool option" where
  "reorder accounts provider wanted =
     (let current = map a_id (accounts_for accounts (Some provider))
      in if sort wanted \<noteq> sort current then None
         else Some (fill_slots provider accounts (map (\<lambda>i. the (find_account accounts i)) wanted)))"

subsection \<open>Quota, probe and selection\<close>

definition has_env :: "(string \<Rightarrow> string option) \<Rightarrow> account \<Rightarrow> bool" where
  "has_env token a =
     (if a_provider a = ''claude'' then token (a_id a) \<noteq> None
      else if a_provider a = ''codex'' then a_codex_home a \<noteq> []
      else False)"

definition quota_cached :: "(account \<Rightarrow> quota_info) \<Rightarrow> bool \<Rightarrow> account \<Rightarrow> real \<Rightarrow> pool_state \<Rightarrow> quota_info \<times> pool_state" where
  "quota_cached quota force a now st =
     (case ps_quota st (a_id a) of
        Some (stamp, q) \<Rightarrow>
          if \<not> force \<and> now - stamp < quota_ttl then (q, st)
          else (quota a, st\<lparr>ps_quota := (ps_quota st)(a_id a \<mapsto> (now, quota a))\<rparr>)
      | None \<Rightarrow> (quota a, st\<lparr>ps_quota := (ps_quota st)(a_id a \<mapsto> (now, quota a))\<rparr>))"

definition probe_cached :: "(account \<Rightarrow> bool \<times> string) \<Rightarrow> account \<Rightarrow> real \<Rightarrow> pool_state \<Rightarrow> (bool \<times> string) \<times> pool_state" where
  "probe_cached probe a now st =
     (let fresh = (probe a, st\<lparr>ps_probes := (ps_probes st)(a_id a \<mapsto>
                     \<lparr>pr_at = now, pr_ok = fst (probe a), pr_reason = snd (probe a)\<rparr>)\<rparr>)
      in case ps_probes st (a_id a) of
           Some e \<Rightarrow> if now - pr_at e < probe_ttl \<and> pr_ok e then ((True, ''ok (cached)''), st) else fresh
         | None \<Rightarrow> fresh)"

definition zero_quota :: "quota_info \<Rightarrow> bool" where
  "zero_quota q \<longleftrightarrow> q_known q \<and> q_remaining q = Some 0"

text \<open>The body of the selection loop for one account, and the loop.\<close>

datatype consideration = Skip string pool_state | Choose pool_state

definition consider_account ::
  "(string \<Rightarrow> string option) \<Rightarrow> (account \<Rightarrow> quota_info) \<Rightarrow> (account \<Rightarrow> bool \<times> string) \<Rightarrow> (string \<Rightarrow> real option)
   \<Rightarrow> bool \<Rightarrow> real \<Rightarrow> account \<Rightarrow> pool_state \<Rightarrow> consideration" where
  "consider_account token quota probe parse_time verify now a st =
     (let until = cooling_until st (a_id a) now
      in if until \<noteq> 0 then Skip (''cooling '' @ fmt_delta (until - now)) st
         else if \<not> has_env token a then Skip ''no credential stored'' st
         else
           let usage = fst (quota_cached quota False a now st); st1 = snd (quota_cached quota False a now st);
               reset = (if q_resets_at usage = [] then None else parse_time (q_resets_at usage))
           in if zero_quota usage then
                (if reset \<noteq> None \<and> reset \<noteq> Some 0 then
                   Skip (''out of quota, resets in '' @ fmt_delta (the reset - now))
                     (snd (cool_until_timestamp (a_id a) (PFloat (the reset)) now st1))
                 else Skip ''out of quota'' (snd (set_cooldown (a_id a) default_cooldown now st1)))
              else if \<not> verify then Choose st1
              else
                let answer = fst (probe_cached probe a now st1); st2 = snd (probe_cached probe a now st1)
                in if fst answer then Choose st2 else Skip (snd answer) st2)"

fun select_each ::
  "(string \<Rightarrow> string option) \<Rightarrow> (account \<Rightarrow> quota_info) \<Rightarrow> (account \<Rightarrow> bool \<times> string) \<Rightarrow> (string \<Rightarrow> real option)
   \<Rightarrow> bool \<Rightarrow> real \<Rightarrow> account list \<Rightarrow> pool_state \<Rightarrow> (account option \<times> string list) \<times> pool_state" where
  "select_each token quota probe parse_time verify now [] st = ((None, []), st)"
| "select_each token quota probe parse_time verify now (a # accounts) st =
     (case consider_account token quota probe parse_time verify now a st of
        Choose st' \<Rightarrow> ((Some a, []), st')
      | Skip why st' \<Rightarrow>
          (case select_each token quota probe parse_time verify now accounts st' of
             ((chosen, notes), st'') \<Rightarrow> ((chosen, (''skip '' @ a_id a @ '': '' @ why) # notes), st'')))"

definition select_account ::
  "(string \<Rightarrow> string option) \<Rightarrow> (account \<Rightarrow> quota_info) \<Rightarrow> (account \<Rightarrow> bool \<times> string) \<Rightarrow> (string \<Rightarrow> real option)
   \<Rightarrow> bool \<Rightarrow> real \<Rightarrow> pool \<Rightarrow> string \<Rightarrow> pool_state \<Rightarrow> (account option \<times> string list) \<times> pool_state" where
  "select_account token quota probe parse_time verify now accounts provider st =
     select_each token quota probe parse_time verify now (accounts_for accounts (Some provider)) st"
subsection \<open>Cooling\<close>

definition cooled_to :: "pool_state \<Rightarrow> string \<Rightarrow> real" where
  "cooled_to st aid = (case ps_cooldowns st aid of None \<Rightarrow> 0 | Some t \<Rightarrow> t)"

lemma cooled_to_cool:
  "cooled_to (snd (cool_until_timestamp aid stamp now st)) bid
   = (if bid = aid then max (case finite_num stamp of None \<Rightarrow> now + default_cooldown | Some t \<Rightarrow> t) (cooled_to st aid)
      else cooled_to st bid)"
  by (simp add: cool_until_timestamp_def cooled_to_def Let_def)

lemma cooling_until_cooled: "cooling_until st aid now = (if cooled_to st aid > now then cooled_to st aid else 0)"
  by (simp add: cooling_until_def cooled_to_def Let_def)

lemma cool_swap:
  "snd (cool_until_timestamp b u now (snd (cool_until_timestamp a s now st)))
         = snd (cool_until_timestamp a s now (snd (cool_until_timestamp b u now st)))"
  by (auto simp: cool_until_timestamp_def Let_def fun_eq_iff max.left_commute max.commute)

text \<open>
  Cooling an account is monotone, so the order of concurrent observations does not
  matter.  A cooldown is never shortened and reaches the time asked for; recording the same
  refusal again changes nothing; and two refusals of any accounts give the same state in
  either order.
\<close>

theorem cooling_is_monotone:
  "cooled_to st x \<le> cooled_to (snd (cool_until_timestamp a s now st)) x
   \<and> (finite_num s = Some t \<longrightarrow> t \<le> cooled_to (snd (cool_until_timestamp a s now st)) a)
   \<and> snd (cool_until_timestamp a s now (snd (cool_until_timestamp a s now st))) = snd (cool_until_timestamp a s now st)
   \<and> snd (cool_until_timestamp b u now (snd (cool_until_timestamp a s now st)))
     = snd (cool_until_timestamp a s now (snd (cool_until_timestamp b u now st)))"
proof (intro conjI)
  show "cooled_to st x \<le> cooled_to (snd (cool_until_timestamp a s now st)) x"
    by (simp add: cooled_to_cool)
  show "finite_num s = Some t \<longrightarrow> t \<le> cooled_to (snd (cool_until_timestamp a s now st)) a"
    by (simp add: cooled_to_cool)
  show "snd (cool_until_timestamp a s now (snd (cool_until_timestamp a s now st))) = snd (cool_until_timestamp a s now st)"
    by (simp add: cool_until_timestamp_def Let_def fun_eq_iff)
qed (simp add: cool_swap)

theorem cooling_is_monotone_witness:
  "(7::real) \<le> cooled_to (snd (cool_until_timestamp ''x'' (PFloat 7) 3 empty_pool_state)) ''x''"
  using cooling_is_monotone [of empty_pool_state "''x''" "''x''" "PFloat 7" 3 7 "''y''" PNaN] by simp

text \<open>Two unreadable Codex logins get the same identity, although nothing says they are one account.\<close>

lemma unidentified_accounts_collide:
  assumes "a_provider a = ''codex''" "a_kind a = ''chatgpt''" "a_identity a = \<lparr>i_email = None, i_org = None, i_chatgpt_id = None, i_key_fp = None\<rparr>"
    "a_provider b = ''codex''" "a_kind b = ''chatgpt''" "a_identity b = a_identity a" "a_id a \<noteq> a_id b"
  shows "check_duplicate [a] b = Some a"
  using assms by (simp add: check_duplicate_def identity_key_def str_or_def printed_def truthy_def)

subsection \<open>Reordering\<close>

lemma length_fill_slots [simp]: "length (fill_slots p accounts new) = length accounts"
  by (induction p accounts new rule: fill_slots.induct) (auto split: list.splits)

lemma fill_slots_others:
  "\<forall>b \<in> set new. a_provider b = p \<Longrightarrow> i < length accounts \<Longrightarrow> a_provider (accounts ! i) \<noteq> p
   \<Longrightarrow> fill_slots p accounts new ! i = accounts ! i"
proof (induction p accounts new arbitrary: i rule: fill_slots.induct)
  case (2 p a accounts new)
  show ?case
  proof (cases i)
    case 0
    with 2(6) show ?thesis by simp
  next
    case (Suc k)
    with 2(5,6) have k: "k < length accounts" "a_provider (accounts ! k) \<noteq> p" by simp_all
    show ?thesis
      using 2(1-4) k Suc by (cases "a_provider a = p"; cases new) auto
  qed
qed simp

lemma fill_slots_filter:
  "length new = length (filter (\<lambda>a. a_provider a = p) accounts) \<Longrightarrow> \<forall>b \<in> set new. a_provider b = p
   \<Longrightarrow> filter (\<lambda>a. a_provider a = p) (fill_slots p accounts new) = new"
proof (induction p accounts new rule: fill_slots.induct)
  case (2 p a accounts new)
  show ?case
  proof (cases "a_provider a = p")
    case True
    with 2(4) obtain b bs where "new = b # bs" by (cases new) auto
    with 2(2) [OF True] 2(4,5) True show ?thesis by simp
  next
    case False
    with 2(3) 2(4,5) show ?thesis by simp
  qed
qed simp

lemma find_account_mem:
  assumes "i \<in> a_id ` set (accounts_for accounts (Some p))" "distinct (map a_id accounts)"
  shows "\<exists>a. find_account accounts i = Some a \<and> a \<in> set (accounts_for accounts (Some p)) \<and> a_id a = i"
proof -
  from assms(1) obtain a where a: "a \<in> set (accounts_for accounts (Some p))" "a_id a = i" by auto
  then have "a \<in> set accounts" by (simp add: accounts_for_def)
  with lookup_by_mem [OF assms(2) this] a show ?thesis by (auto simp: find_account_def)
qed

text \<open>
  Reordering moves only the named provider's accounts.  With distinct ids, the request is
  refused unless it lists every account of the provider exactly once; otherwise the pool has
  the same length, every other account keeps its position, and the provider's accounts are
  exactly the old ones in the order asked for.
\<close>

theorem reorder_moves_one_provider:
  assumes "distinct (map a_id accounts)" "p \<noteq> []"
  shows "case reorder accounts p wanted of
      None \<Rightarrow> mset wanted \<noteq> mset (map a_id (accounts_for accounts (Some p)))
    | Some accounts' \<Rightarrow>
        mset wanted = mset (map a_id (accounts_for accounts (Some p)))
        \<and> length accounts' = length accounts
        \<and> (\<forall>i < length accounts. a_provider (accounts ! i) \<noteq> p \<longrightarrow> accounts' ! i = accounts ! i)
        \<and> map a_id (accounts_for accounts' (Some p)) = wanted
        \<and> set (accounts_for accounts' (Some p)) = set (accounts_for accounts (Some p))"
proof -
  let ?cur = "accounts_for accounts (Some p)"
  have fil: "accounts_for xs (Some p) = filter (\<lambda>a. a_provider a = p) xs" for xs
    using assms(2) by (auto simp: accounts_for_def truthy_def intro: filter_cong)
  have sorted_iff: "sort wanted = sort (map a_id ?cur) \<longleftrightarrow> mset wanted = mset (map a_id ?cur)"
    by (metis mset_sort properties_for_sort sorted_sort)
  show ?thesis
  proof (cases "mset wanted = mset (map a_id ?cur)")
    case True
    let ?new = "map (\<lambda>i. the (find_account accounts i)) wanted"
    have ws: "set wanted = a_id ` set ?cur" using mset_eq_setD [OF True] by simp
    have found: "\<exists>a. find_account accounts i = Some a \<and> a \<in> set ?cur \<and> a_id a = i" if "i \<in> set wanted" for i
      using find_account_mem [of i accounts p] that assms(1) ws by auto
    have new_ids: "map a_id ?new = wanted"
      using found by (fastforce intro!: map_idI)
    have by_id: "find_account accounts (a_id a) = Some a" if "a \<in> set ?cur" for a
      using that lookup_by_mem [OF assms(1)] by (auto simp: find_account_def accounts_for_def)
    have new_set: "set ?new = set ?cur"
      using found by_id ws by force
    have len: "length ?new = length ?cur"
      using mset_eq_length [OF True] by simp
    have prov: "\<forall>b \<in> set ?new. a_provider b = p"
      unfolding new_set by (simp add: fil)
    show ?thesis
      using True sorted_iff new_ids new_set fill_slots_filter [OF len [unfolded fil] prov] fill_slots_others [OF prov]
      by (simp add: reorder_def fil del: map_map)
  qed (simp add: reorder_def sorted_iff)
qed
definition sample_account :: "string \<Rightarrow> string \<Rightarrow> account" where
  "sample_account i p = \<lparr>a_id = i, a_provider = p, a_kind = ''chatgpt'', a_disabled = False, a_codex_home = ''home'',
     a_tier = None, a_token_fp = None,
     a_identity = \<lparr>i_email = None, i_org = None, i_chatgpt_id = None, i_key_fp = None\<rparr>\<rparr>"

definition sample_pool :: pool where
  "sample_pool = [sample_account ''x'' ''codex'', sample_account ''c'' ''claude'', sample_account ''y'' ''codex'']"

theorem reorder_moves_one_provider_witness:
  "reorder sample_pool ''codex'' [''y'', ''x'']
     = Some [sample_account ''y'' ''codex'', sample_account ''c'' ''claude'', sample_account ''x'' ''codex'']
   \<and> mset [''y'', ''x''] = mset (map a_id (accounts_for sample_pool (Some ''codex'')))"
proof
  show r: "reorder sample_pool ''codex'' [''y'', ''x'']
     = Some [sample_account ''y'' ''codex'', sample_account ''c'' ''claude'', sample_account ''x'' ''codex'']"
    by code_simp
  show "mset [''y'', ''x''] = mset (map a_id (accounts_for sample_pool (Some ''codex'')))"
    using reorder_moves_one_provider [of sample_pool "''codex''" "[''y'', ''x'']"]
    by (simp add: r) (simp add: sample_pool_def sample_account_def)
qed

subsection \<open>Selection\<close>

text \<open>
  Every step of a selection leaves the quota and probe caches of the other accounts alone
  and only lengthens cooldowns.
\<close>

definition touched_only :: "string \<Rightarrow> pool_state \<Rightarrow> pool_state \<Rightarrow> bool" where
  "touched_only aid st st' \<longleftrightarrow>
     (\<forall>x. x \<noteq> aid \<longrightarrow> ps_quota st' x = ps_quota st x \<and> ps_probes st' x = ps_probes st x)
     \<and> (\<forall>x. cooled_to st x \<le> cooled_to st' x)"

lemma touched_refl [simp]: "touched_only aid st st"
  by (simp add: touched_only_def)

lemma touched_trans: "touched_only aid a b \<Longrightarrow> touched_only aid b c \<Longrightarrow> touched_only aid a c"
  unfolding touched_only_def by (metis order_trans)

lemma touched_quota: "touched_only (a_id a) st (snd (quota_cached quota f a now st))"
  by (auto simp: touched_only_def quota_cached_def cooled_to_def split: option.splits)

lemma touched_probe: "touched_only (a_id a) st (snd (probe_cached probe a now st))"
  by (auto simp: touched_only_def probe_cached_def cooled_to_def Let_def split: option.splits)

lemma touched_cool: "touched_only aid st (snd (cool_until_timestamp aid s now st))"
  by (simp add: touched_only_def cooled_to_cool) (simp add: cool_until_timestamp_def Let_def)

lemma touched_set_cooldown: "touched_only aid st (snd (set_cooldown aid s now st))"
  by (simp add: set_cooldown_def touched_cool)

text \<open>What makes an account the choice in a given state.\<close>

definition usable ::
  "(string \<Rightarrow> string option) \<Rightarrow> (account \<Rightarrow> quota_info) \<Rightarrow> (account \<Rightarrow> bool \<times> string) \<Rightarrow> bool \<Rightarrow> real \<Rightarrow> pool_state
   \<Rightarrow> account \<Rightarrow> bool" where
  "usable token quota probe verify now st a \<longleftrightarrow>
     cooled_to st (a_id a) \<le> now \<and> has_env token a
     \<and> \<not> zero_quota (fst (quota_cached quota False a now st))
     \<and> (verify \<longrightarrow> fst (fst (probe_cached probe a now st)))"

lemma usable_touched:
  assumes "touched_only b st st'" "a_id a \<noteq> b" "usable token quota probe verify now st' a"
  shows "usable token quota probe verify now st a"
proof -
  from assms(1,2) have "ps_quota st' (a_id a) = ps_quota st (a_id a)" "ps_probes st' (a_id a) = ps_probes st (a_id a)"
    "cooled_to st (a_id a) \<le> cooled_to st' (a_id a)" by (auto simp: touched_only_def)
  with assms(3) show ?thesis
    by (auto simp: usable_def quota_cached_def probe_cached_def Let_def split: option.splits prod.splits if_splits)
qed

lemma probe_after_quota:
  "fst (probe_cached probe a now (snd (quota_cached quota f a now st))) = fst (probe_cached probe a now st)"
  by (auto simp: probe_cached_def quota_cached_def Let_def split: option.splits)

text \<open>One account of the walk: chosen when usable, and its entries are all that is touched.\<close>

lemma consider_touched:
  "case consider_account token quota probe parse_time verify now a st of
     Skip why st' \<Rightarrow> touched_only (a_id a) st st' | Choose st' \<Rightarrow> touched_only (a_id a) st st'"
  using touched_trans [OF touched_quota touched_probe] touched_trans [OF touched_quota touched_cool]
    touched_trans [OF touched_quota touched_set_cooldown] touched_quota
  by (simp add: consider_account_def Let_def)

lemma consider_choice:
  assumes "now \<ge> 0"
  shows "(\<exists>st'. consider_account token quota probe parse_time verify now a st = Choose st')
         \<longleftrightarrow> usable token quota probe verify now st a"
proof -
  have "cooling_until st (a_id a) now = 0 \<longleftrightarrow> cooled_to st (a_id a) \<le> now"
    using assms by (auto simp: cooling_until_cooled)
  then show ?thesis
    by (simp add: consider_account_def usable_def Let_def probe_after_quota)
qed

lemma usable_untouched:
  assumes "touched_only b st st'" "a_id a \<noteq> b" "usable token quota probe verify now st a"
    "cooled_to st' (a_id a) = cooled_to st (a_id a)"
  shows "usable token quota probe verify now st' a"
proof -
  from assms(1,2) have "ps_quota st' (a_id a) = ps_quota st (a_id a)" "ps_probes st' (a_id a) = ps_probes st (a_id a)"
    by (auto simp: touched_only_def)
  with assms(3,4) show ?thesis
    by (auto simp: usable_def quota_cached_def probe_cached_def Let_def split: option.splits prod.splits if_splits)
qed

lemma select_each_usable:
  assumes "now \<ge> 0" "distinct (map a_id accounts)"
    "select_each token quota probe parse_time verify now accounts st = ((Some c, msgs), st')"
  shows "c \<in> set accounts \<and> usable token quota probe verify now st c"
  using assms(2,3)
proof (induction accounts arbitrary: st msgs)
  case (Cons a accounts)
  show ?case
  proof (cases "consider_account token quota probe parse_time verify now a st")
    case (Choose st1)
    then have "usable token quota probe verify now st a"
      using consider_choice [OF assms(1)] by blast
    with Choose Cons.prems show ?thesis by auto
  next
    case (Skip why st1)
    with Cons.prems(2) obtain ns where rec: "select_each token quota probe parse_time verify now accounts st1 = ((Some c, ns), st')"
      by (auto split: prod.splits)
    from Cons.IH [OF _ rec] Cons.prems(1) have c: "c \<in> set accounts" "usable token quota probe verify now st1 c" by auto
    have "touched_only (a_id a) st st1"
      using consider_touched [of a st token quota probe parse_time verify now] Skip by simp
    moreover have "a_id c \<noteq> a_id a" using c(1) Cons.prems(1) by (auto simp: image_iff)
    ultimately show ?thesis using usable_touched c by auto
  qed
qed simp

lemma consider_cooled:
  "consider_account token quota probe parse_time verify now a st = Choose st' \<Longrightarrow> cooled_to st x \<le> cooled_to st' x"
  "consider_account token quota probe parse_time verify now a st = Skip why st' \<Longrightarrow> cooled_to st x \<le> cooled_to st' x"
  using consider_touched [of a st token quota probe parse_time verify now] by (simp_all add: touched_only_def)

lemma select_each_cooled:
  "select_each token quota probe parse_time verify now accounts st = (res, st') \<Longrightarrow> cooled_to st x \<le> cooled_to st' x"
  by (induction accounts arbitrary: st res)
     (auto split: prod.splits consideration.splits dest: consider_cooled(2) [where x = x] intro: consider_cooled(1) order_trans)

text \<open>
  The account a provider's work is sent to is one it may use.  It is an account of that
  provider which is not cooling, has a credential, has headroom, and, when verification is
  asked for, answered its probe, all judged on the state the selection started from; and the
  selection itself never shortens anybody's cooldown.
\<close>

theorem selection_is_usable:
  assumes "now \<ge> 0" "distinct (map a_id accounts)" "p \<noteq> []"
    "select_account token quota probe parse_time verify now accounts p st = ((Some c, msgs), st')"
  shows "c \<in> set accounts \<and> a_provider c = p \<and> cooling_until st (a_id c) now = 0 \<and> has_env token c
         \<and> \<not> zero_quota (fst (quota_cached quota False c now st))
         \<and> (verify \<longrightarrow> fst (fst (probe_cached probe c now st)))
         \<and> (\<forall>x. cooled_to st x \<le> cooled_to st' x)"
proof -
  have d: "distinct (map a_id (accounts_for accounts (Some p)))"
    using assms(2) by (simp add: accounts_for_def distinct_map_filter)
  from select_each_usable [OF assms(1) d assms(4) [unfolded select_account_def]]
  have "c \<in> set accounts \<and> a_provider c = p" "usable token quota probe verify now st c"
    using assms(3) by (auto simp: accounts_for_def truthy_def)
  moreover have "cooled_to st x \<le> cooled_to st' x" for x
    using select_each_cooled [OF assms(4) [unfolded select_account_def]] .
  ultimately show ?thesis
    using assms(1) by (auto simp: usable_def cooling_until_cooled)
qed

definition no_quota :: quota_info where
  "no_quota = \<lparr>q_known = True, q_remaining = Some 0, q_resets_at = []\<rparr>"

definition unknown_quota :: quota_info where
  "unknown_quota = \<lparr>q_known = False, q_remaining = None, q_resets_at = []\<rparr>"

theorem selection_is_usable_witness:
  "\<exists>st'. select_account (\<lambda>_. None) (\<lambda>a. if a_id a = ''x'' then no_quota else unknown_quota) (\<lambda>_. (True, ''ok'')) (\<lambda>_. None)
           True 1000 sample_pool ''codex'' empty_pool_state
         = ((Some (sample_account ''y'' ''codex''), [''skip x: out of quota'']), st')
       \<and> cooled_to empty_pool_state ''x'' \<le> cooled_to st' ''x''"
proof -
  let ?q = "\<lambda>a. if a_id a = ''x'' then no_quota else unknown_quota"
  obtain st' where s: "select_account (\<lambda>_. None) ?q (\<lambda>_. (True, ''ok'')) (\<lambda>_. None) True 1000 sample_pool ''codex'' empty_pool_state
         = ((Some (sample_account ''y'' ''codex''), [''skip x: out of quota'']), st')"
    by (simp add: select_account_def accounts_for_def truthy_def sample_pool_def sample_account_def consider_account_def
        cooling_until_def empty_pool_state_def has_env_def quota_cached_def no_quota_def unknown_quota_def zero_quota_def
        set_cooldown_def cool_until_timestamp_def probe_cached_def Let_def)
  have "distinct (map a_id sample_pool)" by (simp add: sample_pool_def sample_account_def)
  from selection_is_usable [OF _ this _ s] s show ?thesis by auto
qed

end
