(* ===== verification/Routing.thy ===== *)
theory Routing
  imports Pool Ownership
begin

text \<open>
  Execution routing (\<open>execution_routing.py\<close>): routes, class chains and settings with their
  JSON form, the selection of a route and account, the choice of a class, and the failover
  of \<open>succession.py\<close> after a typed provider outcome.  Selection reads the pool, its state and
  the cached quota; the quota answer and the presence of a token file are parameters.
  Settings are JSON: a value of another type than the field's is the error \<open>RType\<close>, which
  stands for the \<open>TypeError\<close> or \<open>AttributeError\<close> Python raises or for a value it would keep
  unchecked.  Files are not modelled.
\<close>

subsection \<open>Routes, chains, settings\<close>

datatype rerror = RError string | RType string | RMissing string

record route =
  r_id :: string
  r_executor :: string
  r_model :: string
  r_billing :: string
  r_pool :: "string option"
  r_account :: "string option"

record route_chain =
  c_class :: string
  c_routes :: "route list"

record routing_settings =
  rs_enabled :: bool
  rs_chains :: "route_chain list"
  rs_default :: string
  rs_metered :: string
  rs_approval :: int
  rs_exhausted :: string
  rs_notify :: bool
  rs_alias :: bool
  rs_free_fallback :: bool

definition executors :: "string list" where
  "executors = [''CLAUDE_CODE'', ''CODEX'', ''OPENCODE'']"

definition billing_classes :: "string list" where
  "billing_classes = [''subscription'', ''metered'', ''free'']"

definition route_classes :: "string list" where
  "route_classes = [''standard'', ''deep'']"

definition metered_values :: "string list" where
  "metered_values = [''auto'', ''ask'', ''never'']"

text \<open>The checks of \<open>Route.__post_init__\<close>, in order.\<close>

definition route_problem :: "route \<Rightarrow> string option" where
  "route_problem r =
     (if strip (r_id r) = [] then Some ''empty id''
      else if r_executor r \<notin> set executors then Some ''executor''
      else if strip (r_model r) = [] then Some ''model''
      else if r_billing r \<notin> set billing_classes then Some ''billing class''
      else if r_billing r = ''subscription'' then
        (if \<not> truthy (r_pool r) then Some ''accountPool required''
         else if the (r_pool r) \<notin> set providers then Some ''unknown accountPool''
         else if truthy (r_account r) then Some ''account not allowed'' else None)
      else if r_billing r = ''metered'' then
        (if \<not> truthy (r_account r) then Some ''account required''
         else if truthy (r_pool r) then Some ''accountPool not allowed'' else None)
      else if truthy (r_account r) \<or> truthy (r_pool r) then Some ''free route names an account''
      else None)"

definition make_route :: "route \<Rightarrow> rerror + route" where
  "make_route r = (case route_problem r of None \<Rightarrow> Inr r | Some m \<Rightarrow> Inl (RError m))"

definition make_chain :: "route_chain \<Rightarrow> rerror + route_chain" where
  "make_chain c =
     (if c_class c \<notin> set route_classes then Inl (RError ''route class'')
      else if \<not> distinct (map r_id (c_routes c)) then Inl (RError ''route ids'')
      else Inr c)"

definition make_settings :: "routing_settings \<Rightarrow> rerror + routing_settings" where
  "make_settings s =
     (if rs_metered s \<notin> set metered_values then Inl (RError ''meteredFallback'')
      else if rs_default s \<notin> set route_classes then Inl (RError ''defaultClass'')
      else if rs_approval s < 0 then Inl (RError ''approvalTimeoutMinutes'')
      else if rs_exhausted s \<noteq> ''block'' then Inl (RError ''allRoutesExhausted'')
      else if \<not> distinct (map c_class (rs_chains s)) then Inl (RError ''one chain per class'')
      else Inr s)"

definition chain_of :: "routing_settings \<Rightarrow> string option \<Rightarrow> route_chain option" where
  "chain_of s cls = find (\<lambda>c. c_class c = (if truthy cls then the cls else rs_default s)) (rs_chains s)"

definition routes_for :: "routing_settings \<Rightarrow> string option \<Rightarrow> route list" where
  "routes_for s cls = (case chain_of s cls of None \<Rightarrow> [] | Some c \<Rightarrow> c_routes c)"

definition route_of :: "routing_settings \<Rightarrow> string option \<Rightarrow> string \<Rightarrow> route option" where
  "route_of s cls rid = find (\<lambda>r. r_id r = rid) (routes_for s cls)"

subsection \<open>Settings as JSON\<close>

definition text_entry :: "string \<Rightarrow> string option \<Rightarrow> (string \<times> val) list" where
  "text_entry k v = (if truthy v then [(k, VStr (the v))] else [])"

definition route_to_dict :: "route \<Rightarrow> val" where
  "route_to_dict r =
     VDict ([(''id'', VStr (r_id r)), (''executor'', VStr (r_executor r)), (''model'', VStr (r_model r)),
             (''billingClass'', VStr (r_billing r))]
            @ text_entry ''accountPool'' (r_pool r) @ text_entry ''account'' (r_account r))"

definition str_field :: "string \<Rightarrow> val \<Rightarrow> rerror + string" where
  "str_field k v =
     (case vfield k v of None \<Rightarrow> Inl (RMissing k) | Some (VStr s) \<Rightarrow> Inr s | Some _ \<Rightarrow> Inl (RType k))"

definition opt_str_field :: "string \<Rightarrow> val \<Rightarrow> rerror + string option" where
  "opt_str_field k v =
     (case vget k v of VNone \<Rightarrow> Inr None | VStr s \<Rightarrow> Inr (Some s) | _ \<Rightarrow> Inl (RType k))"

definition route_from_dict :: "val \<Rightarrow> rerror + route" where
  "route_from_dict v =
     (if \<not> is_dict v then Inl (RError ''route entry'')
      else ebind (str_field ''id'' v) (\<lambda>i.
           ebind (str_field ''executor'' v) (\<lambda>e.
           ebind (str_field ''model'' v) (\<lambda>m.
           ebind (str_field ''billingClass'' v) (\<lambda>b.
           ebind (opt_str_field ''accountPool'' v) (\<lambda>p.
           ebind (opt_str_field ''account'' v) (\<lambda>a.
             make_route \<lparr>r_id = i, r_executor = e, r_model = m, r_billing = b, r_pool = p, r_account = a\<rparr>)))))))"

fun each :: "('a \<Rightarrow> 'e + 'b) \<Rightarrow> 'a list \<Rightarrow> 'e + 'b list" where
  "each f [] = Inr []"
| "each f (x # xs) = ebind (f x) (\<lambda>y. ebind (each f xs) (\<lambda>ys. Inr (y # ys)))"

definition list_field :: "string \<Rightarrow> val \<Rightarrow> rerror + val list" where
  "list_field k v =
     (case vfield k v of None \<Rightarrow> Inr [] | Some (VList xs) \<Rightarrow> Inr xs | Some _ \<Rightarrow> Inl (RType k))"

definition chain_to_dict :: "route_chain \<Rightarrow> val" where
  "chain_to_dict c = VDict [(''routeClass'', VStr (c_class c)), (''routes'', VList (map route_to_dict (c_routes c)))]"

definition chain_from_dict :: "val \<Rightarrow> rerror + route_chain" where
  "chain_from_dict v =
     (if \<not> is_dict v then Inl (RError ''route chain entry'')
      else ebind (str_field ''routeClass'' v) (\<lambda>cls.
           ebind (list_field ''routes'' v) (\<lambda>items.
           ebind (each route_from_dict items) (\<lambda>routes.
             make_chain \<lparr>c_class = cls, c_routes = routes\<rparr>))))"

definition settings_to_dict :: "routing_settings \<Rightarrow> val" where
  "settings_to_dict s =
     VDict [(''enabled'', VBool (rs_enabled s)), (''chains'', VList (map chain_to_dict (rs_chains s))),
            (''defaultClass'', VStr (rs_default s)), (''meteredFallback'', VStr (rs_metered s)),
            (''approvalTimeoutMinutes'', VNum (PInt (rs_approval s))), (''allRoutesExhausted'', VStr (rs_exhausted s)),
            (''notifyOnSwap'', VBool (rs_notify s)), (''exposeAccountAlias'', VBool (rs_alias s)),
            (''fallbackOnFreeFailure'', VBool (rs_free_fallback s))]"

definition default_settings :: routing_settings where
  "default_settings =
     \<lparr>rs_enabled = True, rs_chains = [], rs_default = ''standard'', rs_metered = ''auto'', rs_approval = 0,
      rs_exhausted = ''block'', rs_notify = True, rs_alias = True, rs_free_fallback = False\<rparr>"

text \<open>\<open>data.get(k, default)\<close> at each type, and \<open>data.get(k) or []\<close>.\<close>

definition get_bool :: "string \<Rightarrow> bool \<Rightarrow> val \<Rightarrow> rerror + bool" where
  "get_bool k d v = (case vfield k v of None \<Rightarrow> Inr d | Some (VBool b) \<Rightarrow> Inr b | Some _ \<Rightarrow> Inl (RType k))"

definition get_text :: "string \<Rightarrow> string \<Rightarrow> val \<Rightarrow> rerror + string" where
  "get_text k d v = (case vfield k v of None \<Rightarrow> Inr d | Some (VStr s) \<Rightarrow> Inr s | Some _ \<Rightarrow> Inl (RType k))"

definition get_int :: "string \<Rightarrow> int \<Rightarrow> val \<Rightarrow> rerror + int" where
  "get_int k d v = (case vfield k v of None \<Rightarrow> Inr d | Some (VNum (PInt i)) \<Rightarrow> Inr i | Some _ \<Rightarrow> Inl (RType k))"

definition get_items :: "string \<Rightarrow> val \<Rightarrow> rerror + val list" where
  "get_items k v =
     (let w = vget k v in if \<not> vtruthy w then Inr [] else (case w of VList xs \<Rightarrow> Inr xs | _ \<Rightarrow> Inl (RType k)))"

definition chains_from_dict :: "val \<Rightarrow> rerror + route_chain list" where
  "chains_from_dict v =
     (if vfield ''chains'' v \<noteq> None then ebind (get_items ''chains'' v) (each chain_from_dict)
      else ebind (get_items ''routes'' v) (\<lambda>items.
           ebind (each route_from_dict items) (\<lambda>routes.
             if routes = [] then Inr []
             else ebind (make_chain \<lparr>c_class = ''standard'', c_routes = routes\<rparr>) (\<lambda>c. Inr [c]))))"

definition settings_from_dict :: "val \<Rightarrow> rerror + routing_settings" where
  "settings_from_dict v =
     (if \<not> is_dict v then Inl (RError ''settings'')
      else ebind (get_bool ''enabled'' (rs_enabled default_settings) v) (\<lambda>enabled.
           ebind (chains_from_dict v) (\<lambda>chains.
           ebind (get_text ''defaultClass'' (rs_default default_settings) v) (\<lambda>dflt.
           ebind (get_text ''meteredFallback'' (rs_metered default_settings) v) (\<lambda>metered.
           ebind (get_int ''approvalTimeoutMinutes'' (rs_approval default_settings) v) (\<lambda>approval.
           ebind (get_text ''allRoutesExhausted'' (rs_exhausted default_settings) v) (\<lambda>exhausted.
           ebind (get_bool ''notifyOnSwap'' (rs_notify default_settings) v) (\<lambda>notify.
           ebind (get_bool ''exposeAccountAlias'' (rs_alias default_settings) v) (\<lambda>alias.
           ebind (get_bool ''fallbackOnFreeFailure'' (rs_free_fallback default_settings) v) (\<lambda>free.
             make_settings \<lparr>rs_enabled = enabled, rs_chains = chains, rs_default = dflt, rs_metered = metered,
               rs_approval = approval, rs_exhausted = exhausted, rs_notify = notify, rs_alias = alias,
               rs_free_fallback = free\<rparr>))))))))))"
subsection \<open>Selection\<close>

record selected_target =
  st_class :: string
  st_route :: string
  st_executor :: string
  st_model :: string
  st_billing :: string
  st_binding :: string
  st_alias :: "string option"

datatype selection_status = Resolved | ApprovalNeeded | Blocked_sel

record selection =
  s_status :: selection_status
  s_target :: "selected_target option"
  s_trace :: "string list"
  s_reason :: "string option"

text \<open>
  What selection reads of the pool: the accounts, the cooldowns, the quota answer of each
  account, the presence of its token file, and the clock.
\<close>

record pool_view =
  pv_accounts :: pool
  pv_state :: pool_state
  pv_usage :: "account \<Rightarrow> quota_info"
  pv_token :: "string \<Rightarrow> bool"
  pv_now :: real

definition has_launch_credential :: "pool_view \<Rightarrow> account \<Rightarrow> bool" where
  "has_launch_credential w a = (if a_provider a = ''codex'' then a_codex_home a \<noteq> [] else pv_token w (a_id a))"

definition account_eligibility :: "pool_view \<Rightarrow> string list \<Rightarrow> account \<Rightarrow> bool \<times> string" where
  "account_eligibility w excluded a =
     (if a_id a \<in> set excluded then (False, ''excluded: prior failed binding'')
      else if a_disabled a then (False, ''account disabled'')
      else if \<not> has_launch_credential w a then (False, ''no credential stored'')
      else let until = cooling_until (pv_state w) (a_id a) (pv_now w)
           in if until \<noteq> 0 then (False, ''cooling '' @ fmt_delta (until - pv_now w))
              else if zero_quota (pv_usage w a) then (False, ''zero quota'')
              else (True, ''eligible''))"

definition route_candidates :: "pool_view \<Rightarrow> route \<Rightarrow> account list" where
  "route_candidates w r =
     (if r_billing r = ''subscription'' then filter (\<lambda>a. a_kind a \<noteq> ''apikey'') (accounts_for (pv_accounts w) (r_pool r))
      else case r_account r of None \<Rightarrow> [] | Some i \<Rightarrow> (case find_account (pv_accounts w) i of None \<Rightarrow> [] | Some a \<Rightarrow> [a]))"

definition trace_account :: "routing_settings \<Rightarrow> account \<Rightarrow> string" where
  "trace_account s a = (if rs_alias s then a_id a else ''account'')"

definition target_of :: "routing_settings \<Rightarrow> string \<Rightarrow> route \<Rightarrow> account option \<Rightarrow> selected_target" where
  "target_of s cls r a =
     \<lparr>st_class = cls, st_route = r_id r, st_executor = r_executor r, st_model = r_model r, st_billing = r_billing r,
      st_binding = (case a of Some b \<Rightarrow> if a_id b \<noteq> [] then a_id b else ''free'' | None \<Rightarrow> ''free''),
      st_alias = (if rs_alias s then map_option a_id a else None)\<rparr>"

text \<open>The walk over the candidates of one route: the chosen account and the trace.\<close>

fun walk_accounts :: "routing_settings \<Rightarrow> pool_view \<Rightarrow> string list \<Rightarrow> route \<Rightarrow> account list \<Rightarrow> account option \<times> string list" where
  "walk_accounts s w excluded r [] = (None, [])"
| "walk_accounts s w excluded r (a # accounts) =
     (case account_eligibility w excluded a of
        (ok, why) \<Rightarrow>
          if ok then (Some a, [''route '' @ r_id r @ '': '' @ trace_account s a @ '' eligible''])
          else (case walk_accounts s w excluded r accounts of
                  (chosen, trace) \<Rightarrow>
                    (chosen, (''route '' @ r_id r @ '': skip '' @ trace_account s a @ '': '' @ why) # trace)))"

datatype route_answer = Next "string list" | Done selection

definition consider_route ::
  "routing_settings \<Rightarrow> pool_view \<Rightarrow> string \<Rightarrow> string option \<Rightarrow> string list \<Rightarrow> string list \<Rightarrow> route \<Rightarrow> route_answer" where
  "consider_route s w wanted preferred ex_accounts ex_routes r =
     (let tag = ''route '' @ r_id r @ '': '' in
      if r_id r \<in> set ex_routes then Next [tag @ ''skip, excluded by caller'']
      else if truthy preferred \<and> r_model r \<noteq> the preferred then
        Next [tag @ ''skip, model '' @ r_model r @ '' != preferred '' @ the preferred]
      else if r_billing r = ''free'' then
        Done \<lparr>s_status = Resolved, s_target = Some (target_of s wanted r None),
              s_trace = [''selected route '' @ r_id r @ '': free, no account required''], s_reason = None\<rparr>
      else if r_billing r = ''metered'' \<and> rs_metered s = ''never'' then
        Next [tag @ ''skip, metered route blocked by meteredFallback=never'']
      else
        let candidates = route_candidates w r;
            absent = (if r_billing r = ''metered'' \<and> candidates = []
                      then [tag @ (if rs_alias s then printed (r_account r) else ''account'') @ '' not in pool''] else []);
            chosen = fst (walk_accounts s w ex_accounts r candidates);
            trace = absent @ snd (walk_accounts s w ex_accounts r candidates)
        in case chosen of
             None \<Rightarrow> Next (trace @ [tag @ ''no eligible account''])
           | Some a \<Rightarrow>
               if r_billing r = ''metered'' \<and> rs_metered s = ''ask'' then
                 Done \<lparr>s_status = ApprovalNeeded, s_target = Some (target_of s wanted r (Some a)),
                       s_trace = trace @ [tag @ ''metered route reached, meteredFallback=ask, approval required''],
                       s_reason = Some ''approval_needed''\<rparr>
               else
                 Done \<lparr>s_status = Resolved, s_target = Some (target_of s wanted r (Some a)),
                       s_trace = trace @ [''selected route '' @ r_id r], s_reason = None\<rparr>)"

definition blocked_selection :: "string list \<Rightarrow> string \<Rightarrow> selection" where
  "blocked_selection trace reason =
     \<lparr>s_status = Blocked_sel, s_target = None, s_trace = trace, s_reason = Some reason\<rparr>"

fun walk_routes ::
  "routing_settings \<Rightarrow> pool_view \<Rightarrow> string \<Rightarrow> string option \<Rightarrow> string list \<Rightarrow> string list \<Rightarrow> route list \<Rightarrow> string list
   \<Rightarrow> selection" where
  "walk_routes s w wanted preferred ex_accounts ex_routes [] trace =
     blocked_selection (trace @ [''class '' @ wanted @ '': all configured routes exhausted'']) ''routes_exhausted''"
| "walk_routes s w wanted preferred ex_accounts ex_routes (r # routes) trace =
     (case consider_route s w wanted preferred ex_accounts ex_routes r of
        Next extra \<Rightarrow> walk_routes s w wanted preferred ex_accounts ex_routes routes (trace @ extra)
      | Done res \<Rightarrow> res\<lparr>s_trace := trace @ s_trace res\<rparr>)"

definition select_route ::
  "routing_settings \<Rightarrow> pool_view \<Rightarrow> string option \<Rightarrow> string option \<Rightarrow> string list \<Rightarrow> string list \<Rightarrow> selection" where
  "select_route s w cls preferred ex_accounts ex_routes =
     (let wanted = (if truthy cls then the cls else rs_default s) in
      if \<not> rs_enabled s then blocked_selection [''execution routing disabled''] ''routing_disabled''
      else if wanted \<notin> set route_classes then blocked_selection [''unknown route class '' @ wanted] ''unknown_route_class''
      else let routes = routes_for s (Some wanted) in
        if routes = [] then blocked_selection [''class '' @ wanted @ '': no routes configured''] ''routes_exhausted''
        else walk_routes s w wanted preferred ex_accounts ex_routes routes [])"

text \<open>\<open>route_warnings\<close>: the routes without an eligible account.\<close>

definition route_warnings :: "routing_settings \<Rightarrow> pool_view \<Rightarrow> string list" where
  "route_warnings s w =
     concat (map (\<lambda>c. map (\<lambda>r. ''class '' @ c_class c @ '': route '' @ r_id r @ '': no eligible account'')
       (filter (\<lambda>r. r_billing r \<noteq> ''free'' \<and> \<not> list_ex (\<lambda>a. fst (account_eligibility w [] a)) (route_candidates w r))
         (c_routes c))) (rs_chains s))"

subsection \<open>The class of a task\<close>

record scope_risk =
  k_class :: "string option"
  k_top_level :: bool
  k_children :: int

definition class_for :: "scope_risk \<Rightarrow> routing_settings \<Rightarrow> rerror + string" where
  "class_for k s =
     (if truthy (k_class k) then
        (if the (k_class k) \<notin> set route_classes then Inl (RError ''route class'') else Inr (the (k_class k)))
      else if k_top_level k \<and> k_children k \<ge> 1 then Inr ''deep''
      else Inr (rs_default s))"

record validation =
  v_class :: string
  v_valid :: bool
  v_reason :: "string option"
  v_trace :: "string list"

definition validate_chain :: "routing_settings \<Rightarrow> pool_view \<Rightarrow> string option \<Rightarrow> validation" where
  "validate_chain s w cls =
     (let wanted = (if truthy cls then the cls else rs_default s) in
      if wanted \<notin> set route_classes then
        \<lparr>v_class = wanted, v_valid = False, v_reason = Some ''unknown_route_class'', v_trace = []\<rparr>
      else if \<not> rs_enabled s then
        \<lparr>v_class = wanted, v_valid = False, v_reason = Some ''routing_disabled'', v_trace = []\<rparr>
      else if routes_for s (Some wanted) = [] then
        \<lparr>v_class = wanted, v_valid = False, v_reason = Some ''routes_exhausted'', v_trace = []\<rparr>
      else
        let res = select_route s w (Some wanted) None [] []; ok = s_status res \<noteq> Blocked_sel
        in \<lparr>v_class = wanted, v_valid = ok, v_reason = (if ok then None else s_reason res), v_trace = s_trace res\<rparr>)"

definition validate_all :: "routing_settings \<Rightarrow> pool_view \<Rightarrow> validation list" where
  "validate_all s w = map (\<lambda>c. validate_chain s w (Some c)) route_classes"

record class_decision =
  d_class :: string
  d_validation :: validation
  d_demoted :: "string option"

definition resolve_class :: "routing_settings \<Rightarrow> pool_view \<Rightarrow> scope_risk \<Rightarrow> rerror + class_decision" where
  "resolve_class s w k =
     ebind (class_for k s) (\<lambda>wanted.
       let v = validate_chain s w (Some wanted) in
       if v_valid v \<or> truthy (k_class k) \<or> wanted = rs_default s then
         Inr \<lparr>d_class = wanted, d_validation = v, d_demoted = None\<rparr>
       else Inr \<lparr>d_class = rs_default s, d_validation = validate_chain s w (Some (rs_default s)), d_demoted = Some wanted\<rparr>)"

subsection \<open>Failover after a typed outcome\<close>

text \<open>\<open>classify_free_failure\<close>; the pattern \<open>model .* unavailable\<close> does not cross a line.\<close>

fun split_lines :: "string \<Rightarrow> string list" where
  "split_lines [] = [[]]"
| "split_lines (c # cs) =
     (if [c] = newline then [] # split_lines cs
      else case split_lines cs of [] \<Rightarrow> [[c]] | l # ls \<Rightarrow> (c # l) # ls)"

fun model_gone_line :: "string \<Rightarrow> bool" where
  "model_gone_line [] = False"
| "model_gone_line (c # cs) =
     ((starts_with ''model '' (c # cs)
       \<and> (contains_text '' not available'' (drop 6 (c # cs)) \<or> contains_text '' unavailable'' (drop 6 (c # cs))))
      \<or> model_gone_line cs)"

definition classify_free_failure :: "string \<Rightarrow> string" where
  "classify_free_failure output =
     (let text = strip output; low = lower text
      in if text = [] then ''unknown''
         else if contains_text ''model not found'' low \<or> contains_text ''unknown model'' low
              \<or> contains_text ''no such model'' low \<or> list_ex model_gone_line (split_lines low)
         then ''model_unavailable''
         else ''provider_rejected'')"

text \<open>\<open>max(retry_at, time.time())\<close>: of the non-finite floats only \<open>inf\<close> and \<open>NaN\<close> survive it.\<close>

fun num_max :: "num \<Rightarrow> real \<Rightarrow> num" where
  "num_max PNaN now = PNaN"
| "num_max PPosInf now = PPosInf"
| "num_max PNegInf now = PFloat now"
| "num_max (PInt i) now = (if now > of_int i then PFloat now else PInt i)"
| "num_max (PFloat r) now = (if now > r then PFloat now else PFloat r)"

definition cool_each :: "string list \<Rightarrow> real \<Rightarrow> real \<Rightarrow> pool_state \<Rightarrow> pool_state" where
  "cool_each ids seconds now st = foldl (\<lambda>acc i. snd (set_cooldown i seconds now acc)) st ids"

definition cool_provider_outcome ::
  "routing_settings \<Rightarrow> pool \<Rightarrow> string \<Rightarrow> string \<Rightarrow> string option \<Rightarrow> string option \<Rightarrow> num option \<Rightarrow> real \<Rightarrow> pool_state
   \<Rightarrow> rerror + string list \<times> pool_state" where
  "cool_provider_outcome s accounts outcome binding cls rid retry_at now st =
     (if outcome \<notin> reroute_outcomes then Inl (RError ''outcome'')
      else
        let r = (if truthy rid then route_of s cls (the rid) else None) in
        if outcome = ''provider_down'' \<and> r \<noteq> None \<and> truthy (r_pool (the r)) then
          let ids = filter (\<lambda>i. i \<noteq> []) (map a_id (accounts_for accounts (r_pool (the r))))
          in Inr (ids, cool_each ids short_cooldown now st)
        else if outcome = ''rate_limited'' then
          (case retry_at of
             Some t \<Rightarrow> Inr ([binding], snd (cool_until_timestamp binding (num_max t now) now st))
           | None \<Rightarrow> Inr ([binding], snd (set_cooldown binding default_cooldown now st)))
        else Inr ([binding], snd (set_cooldown binding short_cooldown now st)))"

definition advance_route_after_outcome ::
  "routing_settings \<Rightarrow> pool_view \<Rightarrow> string \<Rightarrow> string option \<Rightarrow> string option \<Rightarrow> rerror + selection" where
  "advance_route_after_outcome s w outcome cls failed =
     (if outcome \<notin> reroute_outcomes then Inl (RError ''outcome'')
      else Inr (select_route s w cls None (if truthy failed then [the failed] else []) []))"
subsection \<open>Selection against its specification\<close>

text \<open>
  What a route needs to be taken, and the reference selection: the first such route of the
  chain, with its first eligible account.
\<close>

definition first_eligible :: "pool_view \<Rightarrow> string list \<Rightarrow> route \<Rightarrow> account option" where
  "first_eligible w excluded r = find (\<lambda>a. fst (account_eligibility w excluded a)) (route_candidates w r)"

definition route_usable ::
  "routing_settings \<Rightarrow> pool_view \<Rightarrow> string option \<Rightarrow> string list \<Rightarrow> string list \<Rightarrow> route \<Rightarrow> bool" where
  "route_usable s w preferred ex_accounts ex_routes r \<longleftrightarrow>
     r_id r \<notin> set ex_routes \<and> (truthy preferred \<longrightarrow> preferred = Some (r_model r))
     \<and> (r_billing r = ''free''
        \<or> (\<not> (r_billing r = ''metered'' \<and> rs_metered s = ''never'') \<and> first_eligible w ex_accounts r \<noteq> None))"

definition chosen_account :: "pool_view \<Rightarrow> string list \<Rightarrow> route \<Rightarrow> account option" where
  "chosen_account w ex_accounts r = (if r_billing r = ''free'' then None else first_eligible w ex_accounts r)"

definition needs_approval :: "routing_settings \<Rightarrow> route \<Rightarrow> bool" where
  "needs_approval s r \<longleftrightarrow> r_billing r = ''metered'' \<and> rs_metered s = ''ask''"

lemma walk_accounts_find:
  "fst (walk_accounts s w excluded r accounts) = find (\<lambda>a. fst (account_eligibility w excluded a)) accounts"
  by (induction accounts) (auto split: prod.splits)

lemma consider_route_usable:
  assumes "route_usable s w preferred exa exr r"
  shows "\<exists>trace. consider_route s w wanted preferred exa exr r
     = Done \<lparr>s_status = (if needs_approval s r then ApprovalNeeded else Resolved),
             s_target = Some (target_of s wanted r (chosen_account w exa r)), s_trace = trace,
             s_reason = (if needs_approval s r then Some ''approval_needed'' else None)\<rparr>"
  using assms
  by (auto simp: consider_route_def route_usable_def first_eligible_def chosen_account_def needs_approval_def Let_def
      walk_accounts_find)

lemma consider_route_unusable:
  assumes "\<not> route_usable s w preferred exa exr r"
  shows "\<exists>trace. consider_route s w wanted preferred exa exr r = Next trace"
  using assms
  by (auto simp: consider_route_def route_usable_def first_eligible_def Let_def walk_accounts_find truthy_def
      split: option.splits)

lemma walk_routes_spec:
  "\<exists>full. walk_routes s w wanted preferred exa exr routes trace
     = (case find (route_usable s w preferred exa exr) routes of
          None \<Rightarrow> blocked_selection full ''routes_exhausted''
        | Some r \<Rightarrow> \<lparr>s_status = (if needs_approval s r then ApprovalNeeded else Resolved),
                    s_target = Some (target_of s wanted r (chosen_account w exa r)), s_trace = full,
                    s_reason = (if needs_approval s r then Some ''approval_needed'' else None)\<rparr>)"
proof (induction routes arbitrary: trace)
  case (Cons r routes)
  show ?case
  proof (cases "route_usable s w preferred exa exr r")
    case True
    from consider_route_usable [OF this, of wanted] True show ?thesis by auto
  next
    case False
    from consider_route_unusable [OF this, of wanted] obtain extra where
      "consider_route s w wanted preferred exa exr r = Next extra" by blast
    with Cons.IH [of "trace @ extra"] False show ?thesis by simp
  qed
qed auto

lemma select_route_spec:
  assumes "rs_enabled s" "wanted = (if truthy cls then the cls else rs_default s)" "wanted \<in> set route_classes"
    "sel = select_route s w cls preferred exa exr"
  shows "case find (route_usable s w preferred exa exr) (routes_for s (Some wanted)) of
      None \<Rightarrow> s_status sel = Blocked_sel \<and> s_target sel = None \<and> s_reason sel = Some ''routes_exhausted''
    | Some r \<Rightarrow> s_status sel = (if needs_approval s r then ApprovalNeeded else Resolved)
               \<and> s_target sel = Some (target_of s wanted r (chosen_account w exa r))"
proof -
  have nd: "\<not> rs_enabled s = False" using assms(1) by simp
  show ?thesis
  proof (cases "routes_for s (Some wanted) = []")
    case True
    with assms show ?thesis by (simp add: select_route_def Let_def blocked_selection_def)
  next
    case False
    with assms have "sel = walk_routes s w wanted preferred exa exr (routes_for s (Some wanted)) []"
      by (simp add: select_route_def Let_def)
    with walk_routes_spec [of s w wanted preferred exa exr "routes_for s (Some wanted)" "[]"] show ?thesis
      by (auto simp: blocked_selection_def split: option.splits)
  qed
qed

text \<open>
  C29: The selector computes the reference selection.  For an enabled, known class it answers
  with the first usable route of that class's chain in order and, within it, the first
  eligible account in pool order, asking for approval exactly when the route is metered
  and the fallback policy says ask; it is blocked exactly when no route of the class is usable.
\<close>

theorem select_route_is_first_usable:
  assumes "rs_enabled s" "wanted = (if truthy cls then the cls else rs_default s)" "wanted \<in> set route_classes"
    "sel = select_route s w cls preferred exa exr"
  shows "case find (route_usable s w preferred exa exr) (routes_for s (Some wanted)) of
      None \<Rightarrow> s_status sel = Blocked_sel \<and> s_target sel = None \<and> s_reason sel = Some ''routes_exhausted''
    | Some r \<Rightarrow> s_status sel = (if needs_approval s r then ApprovalNeeded else Resolved)
               \<and> s_target sel = Some (target_of s wanted r (chosen_account w exa r))"
  using assms by (rule select_route_spec)

definition sub_route :: route where
  "sub_route = \<lparr>r_id = ''r1'', r_executor = ''CODEX'', r_model = ''m'', r_billing = ''subscription'', r_pool = Some ''codex'', r_account = None\<rparr>"

definition metered_route :: route where
  "metered_route = \<lparr>r_id = ''r2'', r_executor = ''CLAUDE_CODE'', r_model = ''n'', r_billing = ''metered'', r_pool = None, r_account = Some ''c''\<rparr>"

definition sample_settings :: routing_settings where
  "sample_settings = default_settings\<lparr>rs_chains := [\<lparr>c_class = ''standard'', c_routes = [sub_route, metered_route]\<rparr>], rs_metered := ''ask''\<rparr>"

definition sample_view :: pool_view where
  "sample_view = \<lparr>pv_accounts = sample_pool, pv_state = empty_pool_state, pv_usage = (\<lambda>_. unknown_quota), pv_token = (\<lambda>_. True), pv_now = 1000\<rparr>"

lemma sample_selection:
  "routes_for sample_settings (Some ''standard'') = [sub_route, metered_route]"
  "routes_for sample_settings (Some ''deep'') = []"
  "rs_enabled sample_settings" "rs_default sample_settings = ''standard''" "rs_metered sample_settings = ''ask''"
  by (simp_all add: sample_settings_def default_settings_def routes_for_def chain_of_def truthy_def)

lemma sample_usable:
  "\<not> route_usable sample_settings sample_view None [''x'', ''y''] [] sub_route"
  "route_usable sample_settings sample_view None [''x'', ''y''] [] metered_route"
  "route_usable sample_settings sample_view None [''x''] [] sub_route"
  "route_usable sample_settings sample_view None [] [] sub_route"
  by code_simp+

lemma sample_approval: "needs_approval sample_settings metered_route" "\<not> needs_approval sample_settings sub_route"
  by code_simp+

lemma sample_class: "''standard'' = (if truthy None then the None else rs_default sample_settings)" "''standard'' \<in> set route_classes"
  by (simp_all add: truthy_def sample_selection route_classes_def)

theorem select_route_is_first_usable_witness:
  "s_status (select_route sample_settings sample_view None None [''x'', ''y''] []) = ApprovalNeeded
   \<and> s_status (select_route sample_settings sample_view None None [''x''] []) = Resolved"
  using select_route_is_first_usable [OF sample_selection(3) sample_class refl, of sample_view None "[''x'', ''y'']" "[]"]
    select_route_is_first_usable [OF sample_selection(3) sample_class refl, of sample_view None "[''x'']" "[]"]
  by (simp add: sample_selection(1) sample_usable sample_approval)

text \<open>Every answer with a target comes from one usable route of the class asked for.\<close>

lemma selection_route:
  assumes "select_route s w cls preferred exa exr = sel" "s_target sel = Some t"
  shows "\<exists>r wanted. wanted = (if truthy cls then the cls else rs_default s) \<and> wanted \<in> set route_classes \<and> rs_enabled s
           \<and> r \<in> set (routes_for s (Some wanted)) \<and> route_usable s w preferred exa exr r
           \<and> s_status sel = (if needs_approval s r then ApprovalNeeded else Resolved)
           \<and> t = target_of s wanted r (chosen_account w exa r)"
proof -
  define wanted where "wanted = (if truthy cls then the cls else rs_default s)"
  from assms have e: "rs_enabled s" "wanted \<in> set route_classes"
    by (auto simp: select_route_def Let_def blocked_selection_def wanted_def split: if_splits)
  note spec = select_route_spec [OF e(1) wanted_def e(2) assms(1) [symmetric]]
  with assms(2) obtain r where f: "find (route_usable s w preferred exa exr) (routes_for s (Some wanted)) = Some r"
    by (auto split: option.splits)
  then have "r \<in> set (routes_for s (Some wanted))" "route_usable s w preferred exa exr r"
    by (auto simp: find_Some_iff)
  with spec assms(2) f e wanted_def show ?thesis
    by (intro exI [of _ r] exI [of _ wanted]) auto
qed
lemma first_eligible_SomeD:
  assumes "first_eligible w exa r = Some a"
  shows "a \<in> set (route_candidates w r) \<and> fst (account_eligibility w exa a)"
  using assms by (auto simp: first_eligible_def find_Some_iff)

lemma eligibleD:
  assumes "fst (account_eligibility w exa a)"
  shows "a_id a \<notin> set exa \<and> \<not> a_disabled a \<and> has_launch_credential w a
         \<and> cooling_until (pv_state w) (a_id a) (pv_now w) = 0 \<and> \<not> zero_quota (pv_usage w a)"
  using assms by (auto simp: account_eligibility_def Let_def split: if_splits)

text \<open>What the binding of a selected target must satisfy, by the billing class of its route.\<close>

definition bound_as_allowed ::
  "routing_settings \<Rightarrow> pool_view \<Rightarrow> string list \<Rightarrow> selection \<Rightarrow> selected_target \<Rightarrow> route \<Rightarrow> bool" where
  "bound_as_allowed s w exa sel t r \<longleftrightarrow>
     (if r_billing r = ''free'' then st_binding t = ''free'' \<and> s_status sel = Resolved
      else \<exists>a \<in> set (route_candidates w r). st_binding t = (if a_id a \<noteq> [] then a_id a else ''free'')
        \<and> a_id a \<notin> set exa \<and> \<not> a_disabled a \<and> has_launch_credential w a
        \<and> cooling_until (pv_state w) (a_id a) (pv_now w) = 0 \<and> \<not> zero_quota (pv_usage w a)
        \<and> (r_billing r = ''subscription'' \<longrightarrow> a_kind a \<noteq> ''apikey'' \<and> (truthy (r_pool r) \<longrightarrow> r_pool r = Some (a_provider a)))
        \<and> (r_billing r = ''metered'' \<longrightarrow> rs_metered s \<noteq> ''never'' \<and> (s_status sel = Resolved \<longrightarrow> rs_metered s \<noteq> ''ask'')))"

text \<open>
  C22: work is never billed where the operator did not allow it.  A selection with a target
  stays in the class asked for; a subscription route is only ever bound to an account of its
  provider pool that is not an API key; a metered route is taken only when the policy is not
  \<open>never\<close>, and without asking only when it is not \<open>ask\<close> either; a free route is bound to no
  account; and a bound account is enabled, has its credential, is neither cooling nor out of
  quota nor excluded.
\<close>

theorem selection_respects_billing:
  assumes "select_route s w cls preferred exa exr = sel" "s_target sel = Some t"
  shows "st_class t = (if truthy cls then the cls else rs_default s)
    \<and> (\<exists>r \<in> set (routes_for s (Some (st_class t))). st_route t = r_id r \<and> st_billing t = r_billing r \<and> r_id r \<notin> set exr
        \<and> bound_as_allowed s w exa sel t r)"
proof -
  from selection_route [OF assms] obtain r wanted where
    r: "wanted = (if truthy cls then the cls else rs_default s)" "r \<in> set (routes_for s (Some wanted))"
    "route_usable s w preferred exa exr r" "s_status sel = (if needs_approval s r then ApprovalNeeded else Resolved)"
    and t: "t = target_of s wanted r (chosen_account w exa r)" by blast
  have tt: "st_class t = wanted" "st_route t = r_id r" "st_billing t = r_billing r" by (simp_all add: t target_of_def)
  show ?thesis
  proof (cases "r_billing r = ''free''")
    case True
    with r t tt show ?thesis
      by (auto simp: bound_as_allowed_def target_of_def chosen_account_def needs_approval_def route_usable_def intro!: bexI [of _ r])
  next
    case False
    with r(3) obtain a where a: "first_eligible w exa r = Some a" by (auto simp: route_usable_def)
    from first_eligible_SomeD [OF a] eligibleD have ok: "a \<in> set (route_candidates w r)"
      "a_id a \<notin> set exa \<and> \<not> a_disabled a \<and> has_launch_credential w a
       \<and> cooling_until (pv_state w) (a_id a) (pv_now w) = 0 \<and> \<not> zero_quota (pv_usage w a)" by blast+
    have bind: "st_binding t = (if a_id a \<noteq> [] then a_id a else ''free'')"
      using False a by (simp add: t target_of_def chosen_account_def)
    have sub: "r_billing r = ''subscription'' \<longrightarrow> a_kind a \<noteq> ''apikey'' \<and> (truthy (r_pool r) \<longrightarrow> r_pool r = Some (a_provider a))"
      using ok(1) by (auto simp: route_candidates_def accounts_for_def)
    have met: "r_billing r = ''metered'' \<longrightarrow> rs_metered s \<noteq> ''never'' \<and> (s_status sel = Resolved \<longrightarrow> rs_metered s \<noteq> ''ask'')"
      using r(3,4) False by (auto simp: route_usable_def needs_approval_def)
    show ?thesis
      using r(1-3) tt False ok bind sub met
      by (auto simp: bound_as_allowed_def route_usable_def intro!: bexI [of _ r] bexI [of _ a])
  qed
qed

theorem selection_respects_billing_witness:
  "\<exists>t. s_target (select_route sample_settings sample_view None None [''x'', ''y''] []) = Some t
       \<and> st_billing t = ''metered'' \<and> s_status (select_route sample_settings sample_view None None [''x'', ''y''] []) \<noteq> Resolved"
proof -
  let ?sel = "select_route sample_settings sample_view None None [''x'', ''y''] []"
  obtain t where t: "s_target ?sel = Some t" "st_billing t = ''metered''"
    using select_route_spec [OF sample_selection(3) sample_class refl, of sample_view None "[''x'', ''y'']" "[]"]
    by (simp add: sample_selection(1) sample_usable target_of_def) (simp add: metered_route_def)
  from selection_respects_billing [OF refl t(1)] obtain r where
    r: "st_billing t = r_billing r" "bound_as_allowed sample_settings sample_view [''x'', ''y''] ?sel t r" by blast
  then have "s_status ?sel = Resolved \<longrightarrow> rs_metered sample_settings \<noteq> ''ask''"
    unfolding bound_as_allowed_def using t(2) by (simp split: if_splits) blast
  with t show ?thesis by (auto simp: sample_selection)
qed

subsection \<open>Class decisions\<close>

lemma validate_chain_class [simp]: "v_class (validate_chain s w cls) = (if truthy cls then the cls else rs_default s)"
  by (simp add: validate_chain_def Let_def)

lemma select_route_wanted:
  "select_route s w (Some (if truthy cls then the cls else rs_default s)) p ea er = select_route s w cls p ea er"
  by (cases cls) (auto simp: select_route_def truthy_def Let_def)

lemma validate_chain_valid:
  "v_valid (validate_chain s w cls) \<longleftrightarrow> s_status (select_route s w cls None [] []) \<noteq> Blocked_sel"
  unfolding validate_chain_def Let_def select_route_wanted
  by (simp add: select_route_def Let_def blocked_selection_def)

text \<open>
  A dispatch starts only on a class that can run it.  When the decision's validation
  holds, selection on that class answers with a target; an explicit class is honoured or
  refused as given; a promotion is demoted only when the promoted class has nothing usable,
  and then to the default class, with the class it was demoted from on record.
\<close>

theorem class_decision_is_runnable:
  assumes "resolve_class s w k = Inr d" "rs_default s \<noteq> []"
  shows "v_class (d_validation d) = d_class d
         \<and> (v_valid (d_validation d) \<longleftrightarrow> s_target (select_route s w (Some (d_class d)) None [] []) \<noteq> None)
         \<and> (truthy (k_class k) \<longrightarrow> Some (d_class d) = k_class k \<and> d_demoted d = None)
         \<and> (case d_demoted d of
              None \<Rightarrow> class_for k s = Inr (d_class d)
            | Some c \<Rightarrow> class_for k s = Inr c \<and> d_class d = rs_default s \<and> c \<noteq> rs_default s
                      \<and> s_target (select_route s w (Some c) None [] []) = None)"
proof -
  have target: "s_target (select_route s w cls p ea er) = None \<longleftrightarrow> s_status (select_route s w cls p ea er) = Blocked_sel" for cls p ea er
  proof (cases "s_target (select_route s w cls p ea er)")
    case None
    then show ?thesis
      using walk_routes_spec [of s w "if truthy cls then the cls else rs_default s" p ea er
          "routes_for s (Some (if truthy cls then the cls else rs_default s))" "[]"]
      by (auto simp: select_route_def Let_def blocked_selection_def split: option.splits)
  next
    case (Some t)
    with selection_route [OF refl Some] show ?thesis by (auto split: if_splits)
  qed
  from assms(1) obtain wanted where wanted: "class_for k s = Inr wanted"
    and d: "d = (if v_valid (validate_chain s w (Some wanted)) \<or> truthy (k_class k) \<or> wanted = rs_default s
                 then \<lparr>d_class = wanted, d_validation = validate_chain s w (Some wanted), d_demoted = None\<rparr>
                 else \<lparr>d_class = rs_default s, d_validation = validate_chain s w (Some (rs_default s)), d_demoted = Some wanted\<rparr>)"
    by (auto simp: resolve_class_def Let_def split: if_splits)
  have ne: "truthy (Some wanted)"
    using wanted assms(2) by (auto simp: class_for_def truthy_def split: if_splits option.splits)
  have nd: "truthy (Some (rs_default s))" using assms(2) by (simp add: truthy_def)
  have explicit: "truthy (k_class k) \<Longrightarrow> Some wanted = k_class k"
    using wanted by (auto simp: class_for_def truthy_def split: if_splits option.splits)
  show ?thesis
    using wanted ne nd explicit by (auto simp: d validate_chain_valid target)
qed

theorem class_decision_is_runnable_witness:
  "\<exists>d. resolve_class sample_settings sample_view \<lparr>k_class = None, k_top_level = True, k_children = 2\<rparr> = Inr d
       \<and> d_class d = ''standard'' \<and> d_demoted d = Some ''deep'' \<and> s_target (select_route sample_settings sample_view (Some ''standard'') None [] []) \<noteq> None"
proof -
  let ?std = "validate_chain sample_settings sample_view (Some ''standard'')"
  have none: "\<not> v_valid (validate_chain sample_settings sample_view (Some ''deep''))"
    by (simp add: validate_chain_def sample_selection Let_def truthy_def)
  then have d: "resolve_class sample_settings sample_view \<lparr>k_class = None, k_top_level = True, k_children = 2\<rparr>
                = Inr \<lparr>d_class = ''standard'', d_validation = ?std, d_demoted = Some ''deep''\<rparr>"
    by (simp add: resolve_class_def class_for_def truthy_def sample_selection)
  have "v_valid ?std"
    using select_route_spec [OF sample_selection(3) _ sample_class(2) refl, of "Some ''standard''" sample_view None "[]" "[]"]
    by (simp add: validate_chain_valid sample_selection(1) sample_usable sample_approval truthy_def)
  with class_decision_is_runnable [OF d] d show ?thesis
    by (simp add: sample_selection)
qed
subsection \<open>Failover moves on\<close>

lemma cool_each_mono: "cooled_to st x \<le> cooled_to (cool_each ids secs now st) x"
proof (induction ids arbitrary: st)
  case (Cons i ids)
  have "cooled_to st x \<le> cooled_to (snd (set_cooldown i secs now st)) x"
    by (simp add: set_cooldown_def cooled_to_cool)
  also have "\<dots> \<le> cooled_to (cool_each (i # ids) secs now st) x"
    using Cons [of "snd (set_cooldown i secs now st)"] by (simp add: cool_each_def)
  finally show ?case .
qed (simp add: cool_each_def)

lemma cool_each_reaches: "x \<in> set ids \<Longrightarrow> now + secs \<le> cooled_to (cool_each ids secs now st) x"
proof (induction ids arbitrary: st)
  case (Cons i ids)
  show ?case
  proof (cases "x = i")
    case True
    have "now + secs \<le> cooled_to (snd (set_cooldown i secs now st)) x"
      using True by (simp add: set_cooldown_def cooled_to_cool)
    also have "\<dots> \<le> cooled_to (cool_each (i # ids) secs now st) x"
      using cool_each_mono [of "snd (set_cooldown i secs now st)" x ids secs now] by (simp add: cool_each_def)
    finally show ?thesis .
  next
    case False
    with Cons show ?thesis by (simp add: cool_each_def)
  qed
qed simp

text \<open>
  A failover never lands on what just failed.  After the accounts a typed outcome
  condemns were cooled, the next hop selected for the same class at that time is bound to none
  of them: not to the binding that failed, and after a provider outage to no account of that
  provider's pool.
\<close>

theorem failover_moves_on:
  assumes "cool_provider_outcome s (pv_accounts w) outcome binding cls rid retry_at (pv_now w) st = Inr (ids, pv_state w)"
    "advance_route_after_outcome s w outcome cls (Some binding) = Inr sel" "s_target sel = Some t"
    "binding \<noteq> []" "binding \<noteq> ''free''" "''free'' \<notin> set ids" "pv_now w \<ge> 0"
  shows "st_binding t \<notin> set ids \<and> st_binding t \<noteq> binding"
proof -
  have sel: "select_route s w cls None [binding] [] = sel"
    using assms(2,4) by (auto simp: advance_route_after_outcome_def truthy_def split: if_splits)
  from selection_route [OF sel assms(3)] obtain r wanted where
    r: "route_usable s w None [binding] [] r" "t = target_of s wanted r (chosen_account w [binding] r)" by blast
  show ?thesis
  proof (cases "r_billing r = ''free''")
    case True
    with r(2) assms(5,6) show ?thesis by (simp add: target_of_def chosen_account_def)
  next
    case False
    with r(1) obtain a where a: "first_eligible w [binding] r = Some a" by (auto simp: route_usable_def)
    from first_eligible_SomeD [OF a] have "fst (account_eligibility w [binding] a)" by blast
    from eligibleD [OF this] have ok: "a_id a \<noteq> binding" "cooling_until (pv_state w) (a_id a) (pv_now w) = 0"
      by auto
    have bind: "st_binding t = (if a_id a \<noteq> [] then a_id a else ''free'')"
      using False a r(2) by (simp add: target_of_def chosen_account_def)
    have ids: "ids = [binding] \<or> pv_state w = cool_each ids short_cooldown (pv_now w) st"
      using assms(1) by (auto simp: cool_provider_outcome_def Let_def split: if_splits option.splits)
    have "a_id a \<notin> set ids"
    proof
      assume mem: "a_id a \<in> set ids"
      with ids ok(1) have "pv_state w = cool_each ids short_cooldown (pv_now w) st" by auto
      with cool_each_reaches [OF mem, of "pv_now w" short_cooldown st] have "pv_now w < cooled_to (pv_state w) (a_id a)"
        by (simp add: short_cooldown_def)
      with ok(2) assms(7) show False by (simp add: cooling_until_cooled split: if_splits)
    qed
    with bind ok(1) assms(5,6) show ?thesis by simp
  qed
qed

definition cooled_view :: pool_view where
  "cooled_view = sample_view\<lparr>pv_state := empty_pool_state\<lparr>ps_cooldowns := [''x'' \<mapsto> 1900, ''y'' \<mapsto> 1900]\<rparr>\<rparr>"

lemma cooled_view_sel [simp]:
  "pv_accounts cooled_view = sample_pool" "pv_now cooled_view = 1000"
  "pv_state cooled_view = empty_pool_state\<lparr>ps_cooldowns := [''x'' \<mapsto> 1900, ''y'' \<mapsto> 1900]\<rparr>"
  by (simp_all add: cooled_view_def sample_view_def)

lemma sample_cooling:
  "cooling_until (pv_state cooled_view) ''y'' 1000 = 1900" "cooling_until (pv_state cooled_view) ''c'' 1000 = 0"
  by (simp_all add: cooling_until_def empty_pool_state_def)

lemma sample_candidates:
  "map a_id (route_candidates cooled_view sub_route) = [''x'', ''y'']"
  "route_candidates cooled_view metered_route = [sample_account ''c'' ''claude'']"
  by (simp_all add: route_candidates_def sub_route_def metered_route_def accounts_for_def find_account_def truthy_def
      sample_pool_def sample_account_def)

lemma sample_cooled:
  "\<not> route_usable sample_settings cooled_view None [''x''] [] sub_route"
  "route_usable sample_settings cooled_view None [''x''] [] metered_route"
  "cool_provider_outcome sample_settings (pv_accounts cooled_view) ''provider_down'' ''x'' None (Some ''r1'') None (pv_now cooled_view) empty_pool_state
     = Inr ([''x'', ''y''], pv_state cooled_view)"
proof -
  have "\<not> fst (account_eligibility cooled_view [''x''] a)" if "a \<in> set (route_candidates cooled_view sub_route)" for a
  proof -
    have "a_id a \<in> set (map a_id (route_candidates cooled_view sub_route))" using that by (metis image_eqI set_map)
    then have "a_id a = ''x'' \<or> a_id a = ''y''" unfolding sample_candidates by simp
    then show ?thesis using sample_cooling by (auto simp: account_eligibility_def)
  qed
  then show "\<not> route_usable sample_settings cooled_view None [''x''] [] sub_route"
    by (auto simp: route_usable_def first_eligible_def find_None_iff sub_route_def)
  show "route_usable sample_settings cooled_view None [''x''] [] metered_route"
    using sample_cooling by (simp add: route_usable_def first_eligible_def sample_candidates)
      (simp add: account_eligibility_def metered_route_def truthy_def sample_account_def has_launch_credential_def
        sample_settings_def cooled_view_def sample_view_def zero_quota_def unknown_quota_def)
  have cfc: "route_of sample_settings None ''r1'' = Some sub_route"
    by (simp add: route_of_def sample_settings_def default_settings_def routes_for_def chain_of_def truthy_def sub_route_def)
  have ids: "filter (\<lambda>i. i \<noteq> []) (map a_id (accounts_for sample_pool (Some ''codex''))) = [''x'', ''y'']"
    by (simp add: accounts_for_def truthy_def sample_pool_def sample_account_def)
  show "cool_provider_outcome sample_settings (pv_accounts cooled_view) ''provider_down'' ''x'' None (Some ''r1'') None (pv_now cooled_view) empty_pool_state
     = Inr ([''x'', ''y''], pv_state cooled_view)"
    by (simp add: cool_provider_outcome_def reroute_outcomes_def truthy_def cfc)
      (simp add: sub_route_def ids cool_each_def set_cooldown_def cool_until_timestamp_def short_cooldown_def
        empty_pool_state_def fun_eq_iff)
qed

theorem failover_moves_on_witness:
  "\<exists>sel t. advance_route_after_outcome sample_settings cooled_view ''provider_down'' None (Some ''x'') = Inr sel
       \<and> s_target sel = Some t \<and> st_route t = ''r2'' \<and> st_binding t \<notin> {''x'', ''y''}"
proof -
  let ?sel = "select_route sample_settings cooled_view None None [''x''] []"
  have adv: "advance_route_after_outcome sample_settings cooled_view ''provider_down'' None (Some ''x'') = Inr ?sel"
    by (simp add: advance_route_after_outcome_def reroute_outcomes_def truthy_def)
  obtain t where t: "s_target ?sel = Some t" "st_route t = ''r2''"
    using select_route_spec [OF sample_selection(3) sample_class refl, of cooled_view None "[''x'']" "[]"]
    by (simp add: sample_selection(1) sample_cooled target_of_def) (simp add: metered_route_def)
  have "pv_now cooled_view \<ge> 0" by (simp add: cooled_view_def sample_view_def)
  with failover_moves_on [OF sample_cooled(3) adv t(1)] adv t show ?thesis by auto
qed

subsection \<open>Settings round trip\<close>

definition route_stored :: "route \<Rightarrow> bool" where
  "route_stored r \<longleftrightarrow> route_problem r = None \<and> r_pool r \<noteq> Some [] \<and> r_account r \<noteq> Some []"

definition settings_stored :: "routing_settings \<Rightarrow> bool" where
  "settings_stored s \<longleftrightarrow> make_settings s = Inr s
     \<and> (\<forall>c \<in> set (rs_chains s). make_chain c = Inr c \<and> (\<forall>r \<in> set (c_routes c). route_stored r))"

lemma opt_text_entry:
  "v \<noteq> Some [] \<Longrightarrow> map_of (text_entry k v) k' = (if k' = k then map_option VStr v else None)"
  by (cases v) (auto simp: text_entry_def truthy_def)

lemma route_again: "route_stored r \<Longrightarrow> route_from_dict (route_to_dict r) = Inr r"
proof -
  assume ok: "route_stored r"
  then have ne: "r_pool r \<noteq> Some []" "r_account r \<noteq> Some []" "route_problem r = None" by (simp_all add: route_stored_def)
  have "str_field ''id'' (route_to_dict r) = Inr (r_id r)" "str_field ''executor'' (route_to_dict r) = Inr (r_executor r)"
    "str_field ''model'' (route_to_dict r) = Inr (r_model r)" "str_field ''billingClass'' (route_to_dict r) = Inr (r_billing r)"
    using ne by (auto simp: str_field_def route_to_dict_def map_add_def opt_text_entry split: option.splits)
  moreover have "opt_str_field ''accountPool'' (route_to_dict r) = Inr (r_pool r)"
    "opt_str_field ''account'' (route_to_dict r) = Inr (r_account r)"
    using ne by (auto simp: opt_str_field_def route_to_dict_def map_add_def opt_text_entry split: option.splits)
  moreover have "is_dict (route_to_dict r)" by (simp add: route_to_dict_def)
  ultimately show ?thesis using ne(3) by (cases r) (simp add: route_from_dict_def make_route_def)
qed

lemma each_map: "(\<And>x. x \<in> set xs \<Longrightarrow> f (g x) = Inr x) \<Longrightarrow> each f (map g xs) = Inr xs"
  by (induction xs) auto

lemma chain_again:
  assumes "make_chain c = Inr c" "\<forall>r \<in> set (c_routes c). route_stored r"
  shows "chain_from_dict (chain_to_dict c) = Inr c"
  using assms by (cases c) (simp add: chain_from_dict_def chain_to_dict_def str_field_def list_field_def each_map route_again)

text \<open>
  Routing settings survive the round trip through the settings file.  Reading back what
  was written gives the same settings, for all settings the constructors accept.
\<close>

theorem settings_roundtrip:
  assumes "settings_stored s"
  shows "settings_from_dict (settings_to_dict s) = Inr s"
proof -
  have "each chain_from_dict (map chain_to_dict (rs_chains s)) = Inr (rs_chains s)"
    using assms by (intro each_map chain_again) (auto simp: settings_stored_def)
  then have "chains_from_dict (settings_to_dict s) = Inr (rs_chains s)"
    by (auto simp: chains_from_dict_def settings_to_dict_def get_items_def)
  moreover have "make_settings s = Inr s" using assms by (simp add: settings_stored_def)
  ultimately show ?thesis
    by (cases s) (simp add: settings_from_dict_def settings_to_dict_def get_bool_def get_text_def get_int_def)
qed

theorem settings_roundtrip_witness: "settings_from_dict (settings_to_dict sample_settings) = Inr sample_settings"
proof (rule settings_roundtrip)
  show "settings_stored sample_settings"
    by (simp add: settings_stored_def sample_settings_def default_settings_def make_settings_def make_chain_def route_stored_def
        route_problem_def sub_route_def metered_route_def metered_values_def route_classes_def billing_classes_def executors_def
        providers_def truthy_def strip_def of_char_def)
qed

text \<open>A version 1 file is exactly the standard chain of its routes, in their order.\<close>

lemma legacy_settings:
  assumes "vfield ''chains'' v = None" "vget ''routes'' v = VList (map route_to_dict routes)" "routes \<noteq> []"
    "\<forall>r \<in> set routes. route_stored r" "distinct (map r_id routes)"
  shows "chains_from_dict v = Inr [\<lparr>c_class = ''standard'', c_routes = routes\<rparr>]"
proof -
  have "each route_from_dict (map route_to_dict routes) = Inr routes"
    using assms(4) by (intro each_map route_again) auto
  with assms show ?thesis
    by (simp add: chains_from_dict_def get_items_def make_chain_def route_classes_def)
qed

end
