(* ===== verification/Escalation.thy ===== *)
theory Escalation
  imports Machine Routing
begin

text \<open>
  The escalation store and the parent escalation protocol (\<open>escalation.py\<close>): message
  classification, credential redaction, the tables for parked escalations, delivery
  acknowledgments, order expectations, launcher identities and signal policies, and
  \<open>escalate\<close>, which delivers a message to a live parent or parks it.  The end of the theory
  models \<open>escalate_free_route_failure\<close> of \<open>succession.py\<close>, which composes it with route selection.

  A table is the list of its rows.  Every operation reads the clock once and takes the fresh
  uuid as an argument.  SQLite failures (\<open>sqlite3.DatabaseError\<close>) are not modelled.
\<close>

datatype eerror = EStore string | EValue string | EClient | EKey string

subsection \<open>Classification\<close>

definition is_upper :: "char \<Rightarrow> bool" where
  "is_upper c \<longleftrightarrow> (let n = of_char c :: nat in 65 \<le> n \<and> n \<le> 90)"

definition is_lower :: "char \<Rightarrow> bool" where
  "is_lower c \<longleftrightarrow> (let n = of_char c :: nat in 97 \<le> n \<and> n \<le> 122)"

definition is_letter :: "char \<Rightarrow> bool" where
  "is_letter c \<longleftrightarrow> is_upper c \<or> is_lower c"

definition upper_char :: "char \<Rightarrow> char" where
  "upper_char c = (if is_lower c then char_of ((of_char c :: nat) - 32) else c)"

record escalation_class =
  ec_kind :: string
  ec_intent :: string

definition interrupt_tags :: "string list" where
  "interrupt_tags = [''BLOCKED'', ''DECISION'']"

text \<open>\<open>re.match(r"\s*([A-Za-z]+)", message)\<close>: the leading word after white space, empty when there is none.\<close>

definition message_tag :: "string \<Rightarrow> string" where
  "message_tag message = map upper_char (takeWhile is_letter (dropWhile is_space message))"

definition classify_escalation :: "string \<Rightarrow> escalation_class" where
  "classify_escalation message =
     (if message_tag message \<in> set interrupt_tags then \<lparr>ec_kind = ''interrupt'', ec_intent = ''replace''\<rparr>
      else \<lparr>ec_kind = ''routine'', ec_intent = ''continue''\<rparr>)"

record launcher_identity =
  li_launcher :: string
  li_detail :: "string option"

definition detect_launcher :: "(string \<Rightarrow> string option) \<Rightarrow> launcher_identity" where
  "detect_launcher env =
     (if truthy (env ''CDESKTOP_SESSION_ID'') then \<lparr>li_launcher = ''cdesktop'', li_detail = None\<rparr>
      else if truthy (env ''CONDUCTOR_WORKSPACE_NAME'') \<or> truthy (env ''CONDUCTOR_ROOT_PATH'')
      then \<lparr>li_launcher = ''external'', li_detail = Some ''conductor''\<rparr>
      else \<lparr>li_launcher = ''external'', li_detail = Some ''unknown''\<rparr>)"

subsection \<open>Signal conditions\<close>

fun split_on :: "char \<Rightarrow> string \<Rightarrow> string list" where
  "split_on c [] = [[]]"
| "split_on c (x # xs) =
     (if x = c then [] # split_on c xs
      else case split_on c xs of [] \<Rightarrow> [[x]] | w # ws \<Rightarrow> (x # w) # ws)"

definition drop_prefix :: "string \<Rightarrow> string \<Rightarrow> string option" where
  "drop_prefix p s = (if starts_with p s then Some (drop (length p) s) else None)"

text \<open>\<open>0(?:\.\d+)?|1(?:\.0+)?\<close> and \<open>\d+\<close>, on the whole of the text.\<close>

fun pressure_text :: "string \<Rightarrow> bool" where
  "pressure_text [] = False"
| "pressure_text [c] = (c \<in> set ''01'')"
| "pressure_text (c # p # ds) =
     (p = CHR ''.'' \<and> ds \<noteq> []
      \<and> ((c = CHR ''0'' \<and> list_all is_digit ds) \<or> (c = CHR ''1'' \<and> list_all (\<lambda>x. x = CHR ''0'') ds)))"

definition idle_text :: "string \<Rightarrow> bool" where
  "idle_text s \<longleftrightarrow> s \<noteq> [] \<and> list_all is_digit s"

text \<open>
  One condition in canonical form.  \<open>fmt_g\<close> is \<open>format(float(text), "g")\<close> of the standard library.
\<close>

definition canonical_condition :: "(string \<Rightarrow> string) \<Rightarrow> string \<Rightarrow> string option" where
  "canonical_condition fmt_g part =
     (if part = ''terminal'' then Some part
      else case drop_prefix ''context-pressure:'' part of
        Some p \<Rightarrow> if pressure_text p then Some (''context-pressure:'' @ fmt_g p) else None
      | None \<Rightarrow>
          (case drop_prefix ''idle:'' part of
             Some p \<Rightarrow> if idle_text p then Some (''idle:'' @ show_nat (read_nat p)) else None
           | None \<Rightarrow> None))"

definition parse_signal_conditions :: "(string \<Rightarrow> string) \<Rightarrow> string \<Rightarrow> eerror + string list" where
  "parse_signal_conditions fmt_g value =
     (let parts = map strip (split_on (CHR '','') value)
      in if [] \<in> set parts then Inl (EValue ''one or more conditions'')
         else ebind (each (\<lambda>p. case canonical_condition fmt_g p of None \<Rightarrow> Inl (EValue p) | Some c \<Rightarrow> Inr c) parts)
                (\<lambda>cs. Inr (sort (remdups cs))))"

subsection \<open>Redaction\<close>

text \<open>
  The regular-expression substitutions over one string and over prose, and the JSON codec, are
  the library part of redaction; which values are replaced outright is modelled.
\<close>

record redactor =
  rd_scrub :: "string \<Rightarrow> string"
  rd_prose :: "string \<Rightarrow> string"
  rd_loads :: "string \<Rightarrow> val option"
  rd_dumps :: "val \<Rightarrow> string"

definition redacted :: string where
  "redacted = ''[REDACTED]''"

definition credential_parts :: "string list" where
  "credential_parts = [''authorization'', ''bearer'', ''cookie'', ''auth'', ''token'', ''key'', ''apikey'', ''secret'', ''password'', ''credential'']"

definition routing_parts :: "string list" where
  "routing_parts = [''dedupe'', ''session'', ''sha'', ''commit'', ''path'', ''uuid'']"

definition normalized_key :: "string \<Rightarrow> string" where
  "normalized_key k = filter (\<lambda>c. is_lower c \<or> is_digit c) (lower k)"

definition is_credential_key :: "string \<Rightarrow> bool" where
  "is_credential_key k = list_ex (\<lambda>part. contains_text part (normalized_key k)) credential_parts"

definition is_routing_key :: "string \<Rightarrow> bool" where
  "is_routing_key k = list_ex (\<lambda>part. contains_text part (normalized_key k)) routing_parts"

definition is_hex :: "char \<Rightarrow> bool" where
  "is_hex c \<longleftrightarrow> is_digit c \<or> lower_char c \<in> set ''abcdef''"

definition is_name_char :: "char \<Rightarrow> bool" where
  "is_name_char c \<longleftrightarrow> is_letter c \<or> is_digit c \<or> c \<in> set ''_.-''"

definition safe_routing_value :: "string \<Rightarrow> bool" where
  "safe_routing_value v \<longleftrightarrow>
     (7 \<le> length v \<and> length v \<le> 64 \<and> list_all is_hex v)
     \<or> (map length (split_on (CHR ''-'') v) = [8, 4, 4, 4, 12] \<and> list_all (list_all is_hex) (split_on (CHR ''-'') v))
     \<or> (case split_on (CHR ''/'') v of
          [a, b] \<Rightarrow> a \<noteq> [] \<and> is_letter (hd a) \<and> list_all is_name_char a \<and> b \<noteq> [] \<and> list_all is_name_char b
        | _ \<Rightarrow> False)"

definition entropy :: "string \<Rightarrow> real" where
  "entropy v = - sum_list (map (\<lambda>c. let p = real (count_list v c) / real (length v) in p * log 2 p) (remdups v))"

definition high_entropy :: "string \<Rightarrow> bool" where
  "high_entropy v \<longleftrightarrow> \<not> (length v \<le> 24 \<or> safe_routing_value v) \<and> entropy v \<ge> 4"

text \<open>The same test over the integers: \<open>16^n * \<Prod> cnt^cnt \<le> n^n\<close> for the counts of the \<open>n\<close> characters.\<close>

definition repeated_product :: "string \<Rightarrow> nat" where
  "repeated_product v = prod_list (map (\<lambda>c. count_list v c ^ count_list v c) (remdups v))"

lemma repeated_log:
  assumes "\<forall>c \<in> set cs. f c > 0"
  shows "prod_list (map (\<lambda>c. f c ^ f c) cs) > 0"
    "log 2 (real (prod_list (map (\<lambda>c. f c ^ f c) cs))) = sum_list (map (\<lambda>c. real (f c) * log 2 (real (f c))) cs)"
  using assms by (induction cs) (simp_all add: log_mult log_nat_power)

lemma sum_counts: "sum_list (map (\<lambda>c. real (count_list v c)) (remdups v)) = real (length v)"
proof -
  have "sum_list (map (\<lambda>c. real (count_list v c)) (remdups v)) = (\<Sum>c \<in> set v. real (count_list v c))"
    by (simp add: sum_list_distinct_conv_sum_set)
  also have "\<dots> = real (length v)" using sum_count_set [of v "set v"] by (simp flip: of_nat_sum)
  finally show ?thesis .
qed

lemma sum_list_quotient: "sum_list (map (\<lambda>c. g c / n) cs) = sum_list (map g cs) / (n::real)"
  by (induction cs) (simp_all add: add_divide_distrib)

lemma entropy_integral:
  assumes "v \<noteq> []"
  shows "entropy v \<ge> 4 \<longleftrightarrow> 16 ^ length v * repeated_product v \<le> length v ^ length v"
proof -
  let ?n = "length v" and ?cs = "remdups v"
  have n: "real ?n > 0" using assms by simp
  have pos: "\<forall>c \<in> set ?cs. count_list v c > 0" by (simp add: count_list_0_iff neq0_conv [symmetric])
  have each: "(let p = real (count_list v c) / real ?n in p * log 2 p)
      = (real (count_list v c) * log 2 (real (count_list v c)) - log 2 (real ?n) * real (count_list v c)) / real ?n"
    if "c \<in> set ?cs" for c
    using pos that n by (auto simp: log_divide Let_def field_simps)
  have "sum_list (map (\<lambda>c. let p = real (count_list v c) / real ?n in p * log 2 p) ?cs)
      = sum_list (map (\<lambda>c. (real (count_list v c) * log 2 (real (count_list v c)) - log 2 (real ?n) * real (count_list v c)) / real ?n) ?cs)"
    by (rule arg_cong [of _ _ sum_list], rule map_cong [OF refl]) (rule each)
  also have "\<dots> = (log 2 (real (repeated_product v)) - log 2 (real ?n) * real ?n) / real ?n"
    by (simp add: repeated_product_def repeated_log(2) [OF pos] sum_list_quotient sum_list_subtractf sum_list_const_mult sum_counts)
  finally have "entropy v = (log 2 (real ?n) * real ?n - log 2 (real (repeated_product v))) / real ?n"
    by (simp add: entropy_def minus_divide_left)
  then have "entropy v \<ge> 4 \<longleftrightarrow> 4 * real ?n + log 2 (real (repeated_product v)) \<le> real ?n * log 2 (real ?n)"
    using n by (simp add: le_divide_eq algebra_simps)
  also have "\<dots> \<longleftrightarrow> log 2 (real (16 ^ ?n * repeated_product v)) \<le> log 2 (real (?n ^ ?n))"
  proof -
    have "log 2 (16::real) = 4" using log_pow_cancel [of 2 4] by simp
    moreover have "real (repeated_product v) > 0" using repeated_log(1) [OF pos] by (simp add: repeated_product_def)
    ultimately show ?thesis using n by (simp add: log_mult log_nat_power algebra_simps)
  qed
  also have "\<dots> \<longleftrightarrow> 16 ^ ?n * repeated_product v \<le> ?n ^ ?n"
    using repeated_log(1) [OF pos] n by (simp add: repeated_product_def flip: of_nat_mult of_nat_power)
  finally show ?thesis .
qed

lemma high_entropy_code [code]:
  "high_entropy v \<longleftrightarrow> \<not> (length v \<le> 24 \<or> safe_routing_value v) \<and> 16 ^ length v * repeated_product v \<le> length v ^ length v"
  using entropy_integral [of v] by (cases "v = []") (auto simp: high_entropy_def)

definition redact_string :: "redactor \<Rightarrow> string \<Rightarrow> string option \<Rightarrow> string" where
  "redact_string R value key =
     (case key of
        Some k \<Rightarrow> if is_credential_key k \<and> \<not> is_routing_key k \<and> high_entropy value then redacted else rd_scrub R value
      | None \<Rightarrow> rd_scrub R value)"

fun redact_structured :: "redactor \<Rightarrow> val \<Rightarrow> string option \<Rightarrow> val" where
  "redact_structured R (VDict kvs) key =
     VDict (map (\<lambda>(k, v). (k, if is_credential_key k \<and> \<not> is_routing_key k then VStr redacted
                              else redact_structured R v (Some k))) kvs)"
| "redact_structured R (VList vs) key = VList (map (\<lambda>v. redact_structured R v key) vs)"
| "redact_structured R (VStr s) key = VStr (redact_string R s key)"
| "redact_structured R v key = v"

text \<open>\<open>redact_credentials\<close> of a string, as every caller in the store uses it.\<close>

definition redact_credentials :: "redactor \<Rightarrow> string \<Rightarrow> string" where
  "redact_credentials R payload =
     (case rd_loads R payload of
        Some (VDict kvs) \<Rightarrow> rd_dumps R (redact_structured R (VDict kvs) None)
      | Some (VList vs) \<Rightarrow> rd_dumps R (redact_structured R (VList vs) None)
      | _ \<Rightarrow> rd_prose R (redact_string R payload None))"

subsection \<open>The store\<close>

datatype park_status = Parked | Handled

record parked_row =
  pk_id :: string
  pk_child :: string
  pk_workspace :: "string option"
  pk_parent :: "string option"
  pk_reason :: string
  pk_message :: string
  pk_key :: string
  pk_status :: park_status
  pk_created :: real
  pk_resolved :: "real option"

record ack_row =
  ak_id :: string
  ak_key :: string
  ak_child :: string
  ak_parent :: string
  ak_kind :: string
  ak_intent :: string
  ak_message :: string
  ak_at :: real

record order_row =
  or_id :: string
  or_sender :: "string option"
  or_recipient :: string
  or_body :: string
  or_digest :: string
  or_created :: real
  or_satisfied :: "real option"

record launcher_row =
  lr_session :: string
  lr_workspace :: "string option"
  lr_identity :: launcher_identity
  lr_at :: real

record signal_row =
  sg_session :: string
  sg_conditions :: "string list"
  sg_at :: real

record esc_db =
  es_parked :: "parked_row list"
  es_acks :: "ack_row list"
  es_orders :: "order_row list"
  es_launchers :: "launcher_row list"
  es_signals :: "signal_row list"

definition empty_esc :: esc_db where
  "empty_esc = \<lparr>es_parked = [], es_acks = [], es_orders = [], es_launchers = [], es_signals = []\<rparr>"

definition park_reasons :: "string list" where
  "park_reasons = [''no_parent'', ''parent_archived'', ''parent_unreachable'']"

definition escalation_kinds :: "string list" where
  "escalation_kinds = [''routine'', ''interrupt'']"

definition delivery_intents :: "string list" where
  "delivery_intents = [''continue'', ''replace'']"

text \<open>\<open>INSERT OR IGNORE\<close>: a row that would break the primary key or the unique index is dropped.\<close>

definition insert_ignore :: "('r \<Rightarrow> 'k) \<Rightarrow> ('r \<Rightarrow> 'u) \<Rightarrow> 'r \<Rightarrow> 'r list \<Rightarrow> 'r list" where
  "insert_ignore pk uniq r rows =
     (if lookup_by pk (pk r) rows = None \<and> lookup_by uniq (uniq r) rows = None then rows @ [r] else rows)"

definition park ::
  "redactor \<Rightarrow> string \<Rightarrow> real \<Rightarrow> string \<Rightarrow> string option \<Rightarrow> string option \<Rightarrow> string \<Rightarrow> string \<Rightarrow> string \<Rightarrow> esc_db
   \<Rightarrow> (eerror + parked_row) \<times> esc_db" where
  "park R wid now child ws parent reason message key db =
     (if reason \<notin> set park_reasons then (Inl (EValue reason), db)
      else
        let row = \<lparr>pk_id = wid, pk_child = child, pk_workspace = ws, pk_parent = parent, pk_reason = reason,
                   pk_message = redact_credentials R message, pk_key = key, pk_status = Parked, pk_created = now, pk_resolved = None\<rparr>;
            rows = insert_ignore pk_id pk_key row (es_parked db)
        in (case lookup_by pk_key key rows of None \<Rightarrow> Inl (EStore key) | Some r \<Rightarrow> Inr r, db\<lparr>es_parked := rows\<rparr>))"

definition handle :: "real \<Rightarrow> parked_row \<Rightarrow> parked_row" where
  "handle now r = r\<lparr>pk_status := Handled, pk_resolved := Some now\<rparr>"

definition resolve :: "real \<Rightarrow> string \<Rightarrow> esc_db \<Rightarrow> (eerror + parked_row) \<times> esc_db" where
  "resolve now eid db =
     (if \<not> hits_by pk_id eid (\<lambda>r. pk_status r = Parked) (es_parked db) then (Inl (EStore eid), db)
      else
        let rows = update_by pk_id eid (\<lambda>r. pk_status r = Parked) (handle now) (es_parked db)
        in (case lookup_by pk_id eid rows of None \<Rightarrow> Inl (EStore eid) | Some r \<Rightarrow> Inr r, db\<lparr>es_parked := rows\<rparr>))"

definition resolve_dedupe_key :: "real \<Rightarrow> string \<Rightarrow> esc_db \<Rightarrow> parked_row option \<times> esc_db" where
  "resolve_dedupe_key now key db =
     (let rows = update_by pk_key key (\<lambda>r. pk_status r = Parked) (handle now) (es_parked db)
      in (lookup_by pk_key key rows, db\<lparr>es_parked := rows\<rparr>))"

definition acknowledge ::
  "redactor \<Rightarrow> string \<Rightarrow> real \<Rightarrow> string \<Rightarrow> string \<Rightarrow> string \<Rightarrow> string \<Rightarrow> string \<Rightarrow> string \<Rightarrow> esc_db
   \<Rightarrow> (eerror + ack_row) \<times> esc_db" where
  "acknowledge R wid now child parent kind intent message key db =
     (if kind \<notin> set escalation_kinds then (Inl (EValue kind), db)
      else if intent \<notin> set delivery_intents then (Inl (EValue intent), db)
      else
        let row = \<lparr>ak_id = wid, ak_key = key, ak_child = child, ak_parent = parent, ak_kind = kind, ak_intent = intent,
                   ak_message = redact_credentials R message, ak_at = now\<rparr>;
            rows = insert_ignore ak_id ak_key row (es_acks db)
        in (case lookup_by ak_key key rows of None \<Rightarrow> Inl (EStore key) | Some r \<Rightarrow> Inr r, db\<lparr>es_acks := rows\<rparr>))"

definition has_dedupe_key :: "string \<Rightarrow> esc_db \<Rightarrow> bool" where
  "has_dedupe_key key db \<longleftrightarrow> lookup_by ak_key key (es_acks db) \<noteq> None \<or> lookup_by pk_key key (es_parked db) \<noteq> None"

definition has_terminal_dedupe_key :: "string \<Rightarrow> esc_db \<Rightarrow> bool" where
  "has_terminal_dedupe_key key db \<longleftrightarrow>
     lookup_by ak_key key (es_acks db) \<noteq> None \<or> hits_by pk_key key (\<lambda>r. pk_status r = Handled) (es_parked db)"

text \<open>\<open>ORDER BY\<close> with equal stamps is left open by SQL; the model keeps the insertion order.\<close>

definition acknowledgments :: "int \<Rightarrow> esc_db \<Rightarrow> eerror + ack_row list" where
  "acknowledgments cap db =
     (if cap < 1 \<or> cap > 1000 then Inl (EValue ''limit'') else Inr (take (nat cap) (sort_key ak_at (es_acks db))))"

definition pending :: "int \<Rightarrow> esc_db \<Rightarrow> eerror + parked_row list" where
  "pending cap db =
     (if cap < 1 \<or> cap > 1000 then Inl (EValue ''limit'')
      else Inr (rev (take (nat cap) (sort_key (\<lambda>r. - pk_created r) (filter (\<lambda>r. pk_status r = Parked) (es_parked db))))))"

subsection \<open>Orders\<close>

definition expect_order ::
  "redactor \<Rightarrow> (string \<Rightarrow> string) \<Rightarrow> string \<Rightarrow> real \<Rightarrow> string option \<Rightarrow> string option \<Rightarrow> string \<Rightarrow> string \<Rightarrow> esc_db
   \<Rightarrow> (eerror + order_row) \<times> esc_db" where
  "expect_order R sha256 wid now order sender recipient body db =
     (let safe = redact_credentials R body;
          key = (if truthy order then the order else ''order:'' @ wid);
          row = \<lparr>or_id = key, or_sender = sender, or_recipient = recipient, or_body = safe, or_digest = sha256 safe,
                 or_created = now, or_satisfied = None\<rparr>;
          rows = insert_ignore or_id or_id row (es_orders db)
      in (case lookup_by or_id key rows of None \<Rightarrow> Inl (EStore key) | Some r \<Rightarrow> Inr r, db\<lparr>es_orders := rows\<rparr>))"

definition order_due :: "string \<Rightarrow> string option \<Rightarrow> order_row \<Rightarrow> bool" where
  "order_due recipient order r \<longleftrightarrow>
     or_recipient r = recipient \<and> or_satisfied r = None \<and> (case order of None \<Rightarrow> True | Some i \<Rightarrow> or_id r = i)"

definition satisfy_orders :: "real \<Rightarrow> string \<Rightarrow> string option \<Rightarrow> esc_db \<Rightarrow> nat \<times> esc_db" where
  "satisfy_orders now recipient order db =
     (length (filter (order_due recipient order) (es_orders db)),
      db\<lparr>es_orders := map (\<lambda>r. if order_due recipient order r then r\<lparr>or_satisfied := Some now\<rparr> else r) (es_orders db)\<rparr>)"

definition order_filter :: "string option \<Rightarrow> bool \<Rightarrow> string list option \<Rightarrow> order_row \<Rightarrow> bool" where
  "order_filter recipient unmet recipients r \<longleftrightarrow>
     (case recipient of None \<Rightarrow> True | Some s \<Rightarrow> or_recipient r = s)
     \<and> (case recipients of None \<Rightarrow> True | Some ss \<Rightarrow> or_recipient r \<in> set ss)
     \<and> (unmet \<longrightarrow> or_satisfied r = None)"

definition orders :: "string option \<Rightarrow> bool \<Rightarrow> string list option \<Rightarrow> int option \<Rightarrow> esc_db \<Rightarrow> eerror + order_row list" where
  "orders recipient unmet recipients cap db =
     (let found = filter (order_filter recipient unmet recipients) (es_orders db)
      in case cap of
           None \<Rightarrow> Inr (sort_key or_created found)
         | Some n \<Rightarrow> if n < 1 then Inl (EValue ''limit'')
                     else Inr (rev (take (nat n) (sort_key (\<lambda>r. - or_created r) found))))"

definition unacked_counts :: "string list option \<Rightarrow> esc_db \<Rightarrow> nat \<times> nat" where
  "unacked_counts recipients db =
     (length (filter (\<lambda>r. pk_status r = Parked) (es_parked db)),
      length (filter (order_filter None True recipients) (es_orders db)))"

subsection \<open>Launchers and signal policies\<close>

definition record_launcher :: "real \<Rightarrow> string \<Rightarrow> string option \<Rightarrow> launcher_identity \<Rightarrow> esc_db \<Rightarrow> esc_db" where
  "record_launcher now sid ws identity db =
     (let row = \<lparr>lr_session = sid, lr_workspace = ws, lr_identity = identity, lr_at = now\<rparr>
      in db\<lparr>es_launchers :=
           (if lookup_by lr_session sid (es_launchers db) = None then es_launchers db @ [row]
            else update_by lr_session sid (\<lambda>_. True) (\<lambda>_. row) (es_launchers db))\<rparr>)"

definition get_launcher :: "string \<Rightarrow> esc_db \<Rightarrow> launcher_identity option" where
  "get_launcher sid db = map_option lr_identity (lookup_by lr_session sid (es_launchers db))"

definition signal_policy :: "string \<Rightarrow> esc_db \<Rightarrow> signal_row" where
  "signal_policy sid db =
     (case lookup_by sg_session sid (es_signals db) of
        None \<Rightarrow> \<lparr>sg_session = sid, sg_conditions = [], sg_at = 0\<rparr> | Some r \<Rightarrow> r)"

definition set_signal_policy ::
  "(string \<Rightarrow> string) \<Rightarrow> real \<Rightarrow> string \<Rightarrow> string list \<Rightarrow> esc_db \<Rightarrow> (eerror + signal_row) \<times> esc_db" where
  "set_signal_policy fmt_g now sid conditions db =
     (case parse_signal_conditions fmt_g (join_with '','' conditions) of
        Inl e \<Rightarrow> (Inl e, db)
      | Inr canonical \<Rightarrow>
          let row = \<lparr>sg_session = sid, sg_conditions = canonical, sg_at = now\<rparr>
          in (Inr row,
              db\<lparr>es_signals :=
                (if lookup_by sg_session sid (es_signals db) = None then es_signals db @ [row]
                 else update_by sg_session sid (\<lambda>_. True) (\<lambda>_. row) (es_signals db))\<rparr>))"

definition clear_signal_policy :: "string \<Rightarrow> esc_db \<Rightarrow> bool \<times> esc_db" where
  "clear_signal_policy sid db =
     (lookup_by sg_session sid (es_signals db) \<noteq> None,
      db\<lparr>es_signals := filter (\<lambda>r. sg_session r \<noteq> sid) (es_signals db)\<rparr>)"

subsection \<open>Escalating\<close>

text \<open>The executor client: \<open>None\<close> is a \<open>CdesktopError\<close>.\<close>

record sent_message =
  sm_to :: string
  sm_body :: string
  sm_from :: string
  sm_key :: string
  sm_intent :: string

record esc_client =
  cl_session :: "string \<Rightarrow> val option"
  cl_workspace :: "string \<Rightarrow> val option"
  cl_send :: "sent_message \<Rightarrow> val option"

datatype esc_result = Delivered escalation_class string string ack_row val | ParkedAs string parked_row

definition default_dedupe_key :: "(string \<Rightarrow> string) \<Rightarrow> string \<Rightarrow> string \<Rightarrow> string" where
  "default_dedupe_key sha256 child message = ''parent-escalation:'' @ child @ '':'' @ take 16 (sha256 message)"

definition escalation_key :: "(string \<Rightarrow> string) \<Rightarrow> string \<Rightarrow> string \<Rightarrow> string option \<Rightarrow> string" where
  "escalation_key sha256 child message dkey = (if truthy dkey then the dkey else default_dedupe_key sha256 child message)"

text \<open>
  What the look-ups say about the parent: a live workspace, a park reason, or an answer without
  the fields the code reads (\<open>KeyError\<close>, which \<open>except CdesktopError\<close> does not catch).
\<close>

datatype parent_view = Live val | Unreachable string | Malformed string

definition view_parent :: "esc_client \<Rightarrow> (val \<Rightarrow> string) \<Rightarrow> string \<Rightarrow> string option \<Rightarrow> parent_view" where
  "view_parent c pystr child parent =
     (if parent = Some child then Unreachable ''parent_unreachable''
      else if \<not> truthy parent then Unreachable ''no_parent''
      else case cl_session c (the parent) of
        None \<Rightarrow> Unreachable ''parent_unreachable''
      | Some p \<Rightarrow>
          (case vfield ''workspace_id'' p of
             None \<Rightarrow> Malformed ''workspace_id''
           | Some w \<Rightarrow>
               (case cl_workspace c (text_of pystr w) of
                  None \<Rightarrow> Unreachable ''parent_unreachable''
                | Some ws \<Rightarrow> if vtruthy (vget ''archived'' ws) then Unreachable ''parent_archived'' else Live ws)))"

definition escalate ::
  "redactor \<Rightarrow> esc_client \<Rightarrow> (val \<Rightarrow> string) \<Rightarrow> (string \<Rightarrow> string) \<Rightarrow> string \<Rightarrow> real \<Rightarrow> string \<Rightarrow> string option
   \<Rightarrow> string option \<Rightarrow> string \<Rightarrow> string option \<Rightarrow> esc_db \<Rightarrow> (eerror + esc_result) \<times> esc_db \<times> sent_message list" where
  "escalate R c pystr sha256 wid now child ws parent message dkey db =
     (let key = escalation_key sha256 child message dkey;
          cls = classify_escalation message
      in case view_parent c pystr child parent of
           Malformed k \<Rightarrow> (Inl (EKey k), db, [])
         | Unreachable reason \<Rightarrow>
             (case park R wid now child ws parent reason message key db of
                (Inl e, db') \<Rightarrow> (Inl e, db', [])
              | (Inr r, db') \<Rightarrow> (Inr (ParkedAs reason r), db', []))
         | Live wsp \<Rightarrow>
             let m = \<lparr>sm_to = the parent, sm_body = message, sm_from = child, sm_key = key, sm_intent = ec_intent cls\<rparr>
             in (case cl_send c m of
                   None \<Rightarrow> (Inl EClient, db, [m])
                 | Some follow \<Rightarrow>
                     (case acknowledge R wid now child (the parent) (ec_kind cls) (ec_intent cls) message key db of
                        (Inl e, db') \<Rightarrow> (Inl e, db', [m])
                      | (Inr a, db') \<Rightarrow>
                          (case vfield ''id'' wsp of
                             None \<Rightarrow> (Inl (EKey ''id''), db', [m])
                           | Some i \<Rightarrow> (Inr (Delivered cls (the parent) (text_of pystr i) a follow), db', [m])))))"

subsection \<open>The store as a machine\<close>

lemma lookup_insert_ignore:
  "lookup_by key k (insert_ignore pk uniq r rows)
   = (case lookup_by key k rows of
        Some x \<Rightarrow> Some x
      | None \<Rightarrow> if key r = k \<and> lookup_by pk (pk r) rows = None \<and> lookup_by uniq (uniq r) rows = None then Some r else None)"
  by (auto simp: insert_ignore_def lookup_by_append split: option.splits)

lemma insert_ignore_distinct:
  assumes "distinct (map pk rows)" "distinct (map uniq rows)"
  shows "distinct (map pk (insert_ignore pk uniq r rows))" "distinct (map uniq (insert_ignore pk uniq r rows))"
  using assms by (auto simp: insert_ignore_def lookup_by_None_iff)

lemma set_insert_ignore: "x \<in> set (insert_ignore pk uniq r rows) \<Longrightarrow> x \<in> set rows \<or> x = r"
  by (auto simp: insert_ignore_def split: if_splits)

lemma handle_sel [simp]:
  "pk_id (handle now r) = pk_id r" "pk_key (handle now r) = pk_key r" "pk_status (handle now r) = Handled"
  "pk_resolved (handle now r) = Some now"
  by (simp_all add: handle_def)

definition parked_row_ok :: "parked_row \<Rightarrow> bool" where
  "parked_row_ok r \<longleftrightarrow> pk_reason r \<in> set park_reasons \<and> (pk_status r = Handled \<longleftrightarrow> pk_resolved r \<noteq> None)"

definition ack_row_ok :: "ack_row \<Rightarrow> bool" where
  "ack_row_ok r \<longleftrightarrow> ak_kind r \<in> set escalation_kinds \<and> ak_intent r \<in> set delivery_intents"

definition esc_ok :: "esc_db \<Rightarrow> bool" where
  "esc_ok db \<longleftrightarrow>
     distinct (map pk_id (es_parked db)) \<and> distinct (map pk_key (es_parked db)) \<and> (\<forall>r \<in> set (es_parked db). parked_row_ok r)
     \<and> distinct (map ak_id (es_acks db)) \<and> distinct (map ak_key (es_acks db)) \<and> (\<forall>r \<in> set (es_acks db). ack_row_ok r)
     \<and> distinct (map or_id (es_orders db))"

inductive esc_step :: "esc_db \<Rightarrow> esc_db \<Rightarrow> bool" where
  parks: "esc_step db (snd (park R wid now child ws parent reason message key db))"
| resolves: "esc_step db (snd (resolve now eid db))"
| resolves_key: "esc_step db (snd (resolve_dedupe_key now key db))"
| acknowledges: "esc_step db (snd (acknowledge R wid now child parent kind intent message key db))"
| expects: "esc_step db (snd (expect_order R sha256 wid now order sender recipient body db))"
| satisfies: "esc_step db (snd (satisfy_orders now recipient order db))"
| launches: "esc_step db (record_launcher now sid ws identity db)"
| sets_policy: "esc_step db (snd (set_signal_policy fmt_g now sid conditions db))"
| clears_policy: "esc_step db (snd (clear_signal_policy sid db))"

text \<open>What every step does to the two delivery tables, from which both contracts follow.\<close>

definition esc_grows :: "esc_db \<Rightarrow> esc_db \<Rightarrow> bool" where
  "esc_grows db db' \<longleftrightarrow>
     (\<forall>k r. lookup_by pk_key k (es_parked db) = Some r \<longrightarrow>
        (\<exists>r'. lookup_by pk_key k (es_parked db') = Some r' \<and> (r' = r \<or> (pk_status r = Parked \<and> (\<exists>now. r' = handle now r)))))
     \<and> (\<forall>k r. lookup_by ak_key k (es_acks db) = Some r \<longrightarrow> lookup_by ak_key k (es_acks db') = Some r)"

lemma esc_grows_refl: "esc_grows db db"
  by (simp add: esc_grows_def)

lemma park_state:
  "snd (park R wid now child ws parent reason message key db) = db
   \<or> (\<exists>r. parked_row_ok r \<and> snd (park R wid now child ws parent reason message key db)
                           = db\<lparr>es_parked := insert_ignore pk_id pk_key r (es_parked db)\<rparr>)"
  unfolding park_def Let_def parked_row_ok_def
  by (cases "reason \<in> set park_reasons") (force simp: Let_def)+

lemma acknowledge_state:
  "snd (acknowledge R wid now child parent kind intent message key db) = db
   \<or> (\<exists>r. ack_row_ok r \<and> snd (acknowledge R wid now child parent kind intent message key db)
                           = db\<lparr>es_acks := insert_ignore ak_id ak_key r (es_acks db)\<rparr>)"
  unfolding acknowledge_def Let_def ack_row_ok_def
  by (cases "kind \<in> set escalation_kinds"; cases "intent \<in> set delivery_intents") force+

lemma resolve_state:
  "snd (resolve now eid db) = db
   \<or> snd (resolve now eid db)
       = db\<lparr>es_parked := update_by pk_id eid (\<lambda>r. pk_status r = Parked) (handle now) (es_parked db)\<rparr>"
  by (simp add: resolve_def Let_def)

lemma handled_keys:
  "map pk_id (update_by key k g (handle now) rows) = map pk_id rows"
  "map pk_key (update_by key k g (handle now) rows) = map pk_key rows"
  by (auto simp: update_by_def)

lemma handled_rows_ok:
  "\<forall>r \<in> set rows. parked_row_ok r \<Longrightarrow> Ball (set (update_by key k g (handle now) rows)) parked_row_ok"
  by (auto simp: parked_row_ok_def handle_def dest!: set_update_byD)

lemma esc_step_ok: "esc_ok db \<Longrightarrow> esc_step db db' \<Longrightarrow> esc_ok db'"
proof (erule esc_step.cases, goal_cases)
  case (1 db R wid now child ws parent reason message key)
  then show ?case
    using park_state [of R wid now child ws parent reason message key db]
    by (auto simp: esc_ok_def insert_ignore_distinct dest!: set_insert_ignore)
next
  case (2 db now eid)
  then show ?case
    using resolve_state [of now eid db] by (elim disjE) (simp_all add: esc_ok_def handled_keys, intro handled_rows_ok, simp)
next
  case (3 db now key)
  then show ?case by (simp add: resolve_dedupe_key_def Let_def esc_ok_def handled_keys) (intro handled_rows_ok, simp)
next
  case (4 db R wid now child parent kind intent message key)
  then show ?case
    using acknowledge_state [of R wid now child parent kind intent message key db]
    by (auto simp: esc_ok_def insert_ignore_distinct dest!: set_insert_ignore)
next
  case (5 db R sha256 wid now order sender recipient body)
  then show ?case by (simp add: expect_order_def Let_def esc_ok_def insert_ignore_distinct)
next
  case (6 db now recipient order)
  have "map or_id (es_orders db') = map or_id (es_orders db)" using 6 by (simp add: satisfy_orders_def)
  then have "distinct (map or_id (es_orders db'))" using 6 by (simp add: esc_ok_def del: map_map)
  with 6 show ?case by (simp add: satisfy_orders_def esc_ok_def)
qed (auto simp: esc_ok_def record_launcher_def set_signal_policy_def clear_signal_policy_def Let_def split: sum.splits)

lemma esc_grows_handle:
  assumes "distinct (map pk_key (es_parked db))"
    "\<And>r. key r = k \<Longrightarrow> key (handle now r) = key r"
  shows "esc_grows db (db\<lparr>es_parked := update_by key k (\<lambda>r. pk_status r = Parked) (handle now) (es_parked db)\<rparr>)"
proof -
  have "lookup_by pk_key i (update_by key k (\<lambda>r. pk_status r = Parked) (handle now) rows)
        = map_option (\<lambda>r. if key r = k \<and> pk_status r = Parked then handle now r else r) (lookup_by pk_key i rows)" for i rows
    by (induction rows) auto
  then show ?thesis by (auto simp: esc_grows_def)
qed

lemma esc_step_grows: "esc_ok db \<Longrightarrow> esc_step db db' \<Longrightarrow> esc_grows db db'"
proof (erule esc_step.cases, goal_cases)
  case (1 db R wid now child ws parent reason message key)
  then show ?case
    using park_state [of R wid now child ws parent reason message key db]
    by (auto simp: esc_grows_def lookup_insert_ignore)
next
  case (2 db now eid)
  then show ?case
    using resolve_state [of now eid db] esc_grows_handle [of db pk_id eid now] esc_grows_refl
    by (auto simp: esc_ok_def)
next
  case (3 db now key)
  then show ?case
    using esc_grows_handle [of db pk_key key now] by (simp add: resolve_dedupe_key_def Let_def esc_ok_def)
next
  case (4 db R wid now child parent kind intent message key)
  then show ?case
    using acknowledge_state [of R wid now child parent kind intent message key db]
    by (auto simp: esc_grows_def lookup_insert_ignore)
qed (auto simp: esc_grows_def expect_order_def satisfy_orders_def record_launcher_def set_signal_policy_def
    clear_signal_policy_def Let_def split: sum.splits)

interpretation esc_store: settling_system esc_step empty_esc esc_ok
  "\<lambda>k db. lookup_by pk_key k (es_parked db)" "\<lambda>r. pk_status r = Handled"
proof
  show "esc_ok empty_esc" by (simp add: esc_ok_def empty_esc_def)
qed (auto intro: esc_step_ok dest: esc_step_grows simp: esc_grows_def, fastforce dest: esc_step_grows simp: esc_grows_def)

interpretation ack_store: settling_system esc_step empty_esc esc_ok
  "\<lambda>k db. lookup_by ak_key k (es_acks db)" "\<lambda>_. True"
  by unfold_locales (auto dest: esc_step_grows simp: esc_grows_def)

lemma terminal_key_iff:
  "esc_ok db \<Longrightarrow> has_terminal_dedupe_key k db \<longleftrightarrow>
     lookup_by ak_key k (es_acks db) \<noteq> None \<or> (\<exists>r. lookup_by pk_key k (es_parked db) = Some r \<and> pk_status r = Handled)"
  by (simp add: has_terminal_dedupe_key_def esc_ok_def hits_by_iff)

text \<open>
  A finished delivery stays finished.  Once the store says that a logical signal was
  delivered or its parked record resolved, it says so after every later sequence of operations,
  so the sweeps that consult it never send that signal again.
\<close>

theorem finished_delivery_stays_finished:
  assumes "esc_step\<^sup>*\<^sup>* empty_esc s" "esc_step\<^sup>*\<^sup>* s t" "has_terminal_dedupe_key k s"
  shows "has_terminal_dedupe_key k t"
proof -
  have s: "esc_ok s" and t: "esc_ok t"
    using assms by (blast intro: esc_store.reachable_inv esc_store.run_inv)+
  show ?thesis
    using assms(3) esc_store.settled_run [OF assms(2) s] ack_store.settled_run [OF assms(2) s]
    by (auto simp: terminal_key_iff [OF s] terminal_key_iff [OF t])
qed

definition plain :: redactor where
  "plain = \<lparr>rd_scrub = (\<lambda>s. s), rd_prose = (\<lambda>s. s), rd_loads = (\<lambda>_. None), rd_dumps = (\<lambda>_. [])\<rparr>"

definition parked_db :: esc_db where
  "parked_db = snd (park plain ''e1'' 5 ''child'' None None ''no_parent'' ''BLOCKED: help'' ''k'' empty_esc)"

definition handled_db :: esc_db where
  "handled_db = snd (resolve 6 ''e1'' parked_db)"

lemma sample_db_facts:
  "esc_step empty_esc parked_db" "esc_step parked_db handled_db" "has_terminal_dedupe_key ''k'' handled_db"
proof -
  show "esc_step empty_esc parked_db" unfolding parked_db_def by (rule esc_step.intros)
  show "esc_step parked_db handled_db" unfolding handled_db_def by (rule esc_step.intros)
  show "has_terminal_dedupe_key ''k'' handled_db" by code_simp
qed

theorem finished_delivery_stays_finished_witness:
  "has_terminal_dedupe_key ''k''
     (snd (park plain ''e2'' 9 ''child'' None None ''no_parent'' ''BLOCKED: again'' ''k'' handled_db))"
proof (rule finished_delivery_stays_finished)
  show "esc_step\<^sup>*\<^sup>* empty_esc handled_db" using sample_db_facts by auto
  show "esc_step\<^sup>*\<^sup>* handled_db (snd (park plain ''e2'' 9 ''child'' None None ''no_parent'' ''BLOCKED: again'' ''k'' handled_db))"
    by (rule r_into_rtranclp) (rule esc_step.intros)
qed (rule sample_db_facts)

subsection \<open>Two outcomes\<close>

definition answers_well_formed :: "esc_client \<Rightarrow> bool" where
  "answers_well_formed c \<longleftrightarrow>
     (\<forall>s p. cl_session c s = Some p \<longrightarrow> vfield ''workspace_id'' p \<noteq> None)
     \<and> (\<forall>w v. cl_workspace c w = Some v \<longrightarrow> vfield ''id'' v \<noteq> None)"

definition delivered_or_parked :: "string \<Rightarrow> esc_db \<Rightarrow> esc_db \<Rightarrow> sent_message list \<Rightarrow> esc_result \<Rightarrow> bool" where
  "delivered_or_parked key db db' sends out =
     (case out of
        Delivered cls p w a f \<Rightarrow>
          map sm_to sends = [p] \<and> lookup_by ak_key key (es_acks db') = Some a \<and> es_parked db' = es_parked db
      | ParkedAs reason r \<Rightarrow>
          sends = [] \<and> lookup_by pk_key key (es_parked db') = Some r \<and> es_acks db' = es_acks db)"

lemma park_outcome:
  assumes "reason \<in> set park_reasons" "lookup_by pk_id wid (es_parked db) = None"
  shows "\<exists>r. fst (park R wid now child ws parent reason message key db) = Inr r
           \<and> lookup_by pk_key key (es_parked (snd (park R wid now child ws parent reason message key db))) = Some r
           \<and> es_acks (snd (park R wid now child ws parent reason message key db)) = es_acks db"
  using assms by (cases "lookup_by pk_key key (es_parked db)") (simp_all add: park_def Let_def lookup_insert_ignore)

lemma acknowledge_outcome:
  assumes "cls = classify_escalation message" "lookup_by ak_id wid (es_acks db) = None"
  shows "\<exists>a. fst (acknowledge R wid now child parent (ec_kind cls) (ec_intent cls) message key db) = Inr a
    \<and> lookup_by ak_key key (es_acks (snd (acknowledge R wid now child parent (ec_kind cls) (ec_intent cls) message key db))) = Some a
    \<and> es_parked (snd (acknowledge R wid now child parent (ec_kind cls) (ec_intent cls) message key db)) = es_parked db"
proof -
  have "ec_kind cls \<in> set escalation_kinds \<and> ec_intent cls \<in> set delivery_intents"
    unfolding assms(1) classify_escalation_def escalation_kinds_def delivery_intents_def by simp
  with assms(2) show ?thesis
    by (cases "lookup_by ak_key key (es_acks db)") (simp_all add: acknowledge_def Let_def lookup_insert_ignore)
qed

lemma view_unreachable: "view_parent c pystr child parent = Unreachable reason \<Longrightarrow> reason \<in> set park_reasons"
  by (auto simp: view_parent_def park_reasons_def split: if_splits option.splits)

lemma view_live:
  "view_parent c pystr child parent = Live w \<Longrightarrow>
     parent \<noteq> Some child \<and> truthy parent \<and> \<not> vtruthy (vget ''archived'' w) \<and> (\<exists>i. cl_workspace c i = Some w)"
  by (auto simp: view_parent_def split: if_splits option.splits)

lemma view_malformed: "answers_well_formed c \<Longrightarrow> view_parent c pystr child parent \<noteq> Malformed k"
  by (fastforce simp: view_parent_def answers_well_formed_def split: if_splits option.splits)

lemma escalate_recorded:
  assumes "lookup_by pk_id wid (es_parked db) = None" "lookup_by ak_id wid (es_acks db) = None"
    "answers_well_formed c" "\<forall>m. cl_send c m \<noteq> None"
  shows "\<exists>out db' sends. escalate R c pystr sha256 wid now child ws parent message dkey db = (Inr out, db', sends)
           \<and> delivered_or_parked (escalation_key sha256 child message dkey) db db' sends out"
proof (cases "view_parent c pystr child parent")
  case (Live w)
  let ?m = "\<lparr>sm_to = the parent, sm_body = message, sm_from = child, sm_key = escalation_key sha256 child message dkey,
             sm_intent = ec_intent (classify_escalation message)\<rparr>"
  from assms(4) obtain f where f: "cl_send c ?m = Some f" by blast
  from view_live [OF Live] assms(3) obtain i where i: "vfield ''id'' w = Some i"
    by (fastforce simp: answers_well_formed_def)
  from acknowledge_outcome [OF refl assms(2), where message = message and R = R and now = now and child = child
      and parent = "the parent" and key = "escalation_key sha256 child message dkey"]
  show ?thesis
    by (auto simp: escalate_def Let_def Live f i delivered_or_parked_def split: prod.splits sum.splits)
next
  case (Unreachable reason)
  from park_outcome [OF view_unreachable [OF Unreachable] assms(1), where message = message and R = R and now = now
      and child = child and ws = ws and parent = parent and key = "escalation_key sha256 child message dkey"]
  show ?thesis
    by (auto simp: escalate_def Let_def Unreachable delivered_or_parked_def split: prod.splits sum.splits)
next
  case (Malformed k)
  with view_malformed [OF assms(3)] show ?thesis by blast
qed


definition sample_client :: esc_client where
  "sample_client = \<lparr>cl_session = (\<lambda>s. if s = ''parent'' then Some (VDict [(''workspace_id'', VStr ''w'')]) else None),
     cl_workspace = (\<lambda>w. Some (VDict [(''id'', VStr w), (''archived'', VBool False)])), cl_send = (\<lambda>_. Some VNone)\<rparr>"


text \<open>
  A third outcome: when the executor rejects the message after the parent was found live, the
  error escapes and neither table records the escalation.
\<close>

lemma rejected_send_is_not_parked:
  assumes "view_parent c pystr child parent = Live w" "\<forall>m. cl_send c m = None"
  shows "\<exists>m. escalate R c pystr sha256 wid now child ws parent message dkey db = (Inl EClient, db, [m])"
  using assms by (simp add: escalate_def Let_def)

text \<open>
  A repeat is not parked again: once the operator resolved the record, the same escalation from
  the same child changes nothing, and the inbox does not show it.
\<close>

lemma repeat_after_resolution_is_dropped:
  assumes "view_parent c pystr child parent = Unreachable reason"
    "lookup_by pk_key (escalation_key sha256 child message dkey) (es_parked db) = Some r" "pk_status r = Handled"
  shows "escalate R c pystr sha256 wid now child ws parent message dkey db = (Inr (ParkedAs reason r), db, [])"
  using view_unreachable [OF assms(1)] assms
  by (simp add: escalate_def Let_def park_def insert_ignore_def lookup_insert_ignore)

text \<open>
  A message only goes to a live parent.  Whatever escalating sends goes to the recorded
  parent, which is another session than the child and whose workspace the executor reported
  unarchived; it interrupts the parent's turn exactly when the message opens with BLOCKED or
  DECISION.
\<close>

theorem escalation_spares_archived_parents:
  assumes "escalate R c pystr sha256 wid now child ws parent message dkey db = (res, db', sends)" "m \<in> set sends"
  shows "parent = Some (sm_to m) \<and> sm_to m \<noteq> child \<and> sm_from m = child
    \<and> (\<exists>i w. cl_workspace c i = Some w \<and> \<not> vtruthy (vget ''archived'' w))
    \<and> (sm_intent m = ''replace'' \<longleftrightarrow> message_tag message \<in> set interrupt_tags)"
proof -
  obtain w where live: "view_parent c pystr child parent = Live w"
    using assms by (cases "view_parent c pystr child parent") (auto simp: escalate_def Let_def split: prod.splits sum.splits)
  then have "m = \<lparr>sm_to = the parent, sm_body = message, sm_from = child, sm_key = escalation_key sha256 child message dkey,
                sm_intent = ec_intent (classify_escalation message)\<rparr>"
    using assms by (auto simp: escalate_def Let_def split: option.splits prod.splits sum.splits)
  with view_live [OF live] show ?thesis
    by (cases parent) (auto simp: truthy_def classify_escalation_def)
qed

theorem escalation_spares_archived_parents_witness:
  "\<exists>m res db'. escalate plain sample_client (\<lambda>_. []) (\<lambda>_. ''d'') ''e2'' 7 ''child'' None (Some ''parent'') '' blocked: key'' None empty_esc
      = (res, db', [m]) \<and> sm_to m = ''parent'' \<and> sm_intent m = ''replace''"
proof -
  let ?r = "escalate plain sample_client (\<lambda>_. []) (\<lambda>_. ''d'') ''e2'' 7 ''child'' None (Some ''parent'') '' blocked: key'' None empty_esc"
  have one: "length (snd (snd ?r)) = 1" and tag: "message_tag '' blocked: key'' \<in> set interrupt_tags" by code_simp+
  obtain m where m: "snd (snd ?r) = [m]" using one by (cases "snd (snd ?r)") auto
  then have r: "?r = (fst ?r, fst (snd ?r), [m])" by (metis prod.collapse)
  show ?thesis
    using escalation_spares_archived_parents [OF r, of m] tag r by (metis list.set_intros(1) option.inject)
qed

subsection \<open>Bounded reads of the orders\<close>

lemma sort_key_descending:
  fixes f :: "'a \<Rightarrow> real"
  assumes "distinct (map f xs)"
  shows "sort_key (\<lambda>x. - f x) xs = rev (sort_key f xs)"
proof (rule sort_key_inj_key_eq)
  show "inj_on (\<lambda>x. - f x) (set xs)" using assms by (auto simp: distinct_map inj_on_def)
  have "sorted (map f (sort_key f xs))" by simp
  then show "sorted (map (\<lambda>x. - f x) (rev (sort_key f xs)))"
    by (simp add: rev_map [symmetric] sorted_wrt_rev sorted_wrt_map)
qed simp

text \<open>
  A bounded read of the orders shows the newest ones.  With a limit, \<open>orders\<close> returns
  exactly the last rows of the unbounded answer, still oldest first.
\<close>

theorem bounded_orders_are_newest:
  assumes "1 \<le> n" "distinct (map or_created (filter (order_filter recipient unmet recipients) (es_orders db)))"
    "orders recipient unmet recipients None db = Inr every"
  shows "orders recipient unmet recipients (Some n) db = Inr (drop (length every - nat n) every)"
  using assms by (auto simp: orders_def Let_def sort_key_descending rev_take take_rev)

definition sample_orders :: esc_db where
  "sample_orders = empty_esc\<lparr>es_orders := map (\<lambda>i. \<lparr>or_id = show_nat i, or_sender = None, or_recipient = ''r'', or_body = ''b'',
     or_digest = ''d'', or_created = real i, or_satisfied = None\<rparr>) [3, 1, 2]\<rparr>"

theorem bounded_orders_are_newest_witness:
  "\<exists>every. orders (Some ''r'') True None None sample_orders = Inr every \<and> length every = 3
     \<and> orders (Some ''r'') True None (Some 2) sample_orders = Inr (drop 1 every)"
proof -
  let ?found = "filter (order_filter (Some ''r'') True None) (es_orders sample_orders)"
  have d: "distinct (map or_created ?found)" and l: "length ?found = 3"
    by (simp_all add: order_filter_def sample_orders_def)
  have "orders (Some ''r'') True None None sample_orders = Inr (sort_key or_created ?found)" by (simp add: orders_def)
  from bounded_orders_are_newest [OF _ d this, of 2] this l show ?thesis by simp
qed

text \<open>The totals of \<open>unacked_counts\<close> count what the unbounded reads return.\<close>

lemma unacked_counts_total:
  "\<exists>every. orders None True recipients None db = Inr every \<and> snd (unacked_counts recipients db) = length every"
  "pending cap db = Inr shown \<Longrightarrow> length shown \<le> fst (unacked_counts recipients db)"
  by (auto simp: orders_def unacked_counts_def pending_def split: if_splits)

subsection \<open>Signal conditions in canonical form\<close>

lemma digit_char_facts:
  assumes "d < 10"
  shows "is_digit (digit_char d)" "digit_value (digit_char d) = d"
  using assms by (auto simp: digit_char_def is_digit_def digit_value_def of_char_of)

lemma read_nat_snoc: "read_nat (ds @ [d]) = 10 * read_nat ds + digit_value d"
  by (simp add: read_nat_def)

lemma show_nat_digits: "list_all is_digit (show_nat n) \<and> show_nat n \<noteq> [] \<and> read_nat (show_nat n) = n"
proof (induction n rule: show_nat.induct)
  case (1 n)
  show ?case
  proof (cases "n < 10")
    case True
    then show ?thesis
      using digit_char_facts [of n] by (simp add: show_nat.simps [of n] read_nat_def)
  next
    case False
    with 1 show ?thesis
      using digit_char_facts [of "n mod 10"] by (simp add: show_nat.simps [of n] read_nat_snoc)
  qed
qed

definition plain_char :: "char \<Rightarrow> bool" where
  "plain_char c \<longleftrightarrow> c \<noteq> CHR '','' \<and> \<not> is_space c"

lemma digit_plain: "is_digit c \<Longrightarrow> plain_char c"
  by (auto simp: is_digit_def plain_char_def Let_def)

lemma plain_chars: "is_digit (CHR ''0'')" "plain_char (CHR ''0'')" "plain_char (CHR ''1'')" "plain_char (CHR ''.'')"
  by code_simp+

lemma digits_plain: "list_all is_digit s \<Longrightarrow> list_all plain_char s" "list_all (\<lambda>x. x = CHR ''0'') s \<Longrightarrow> list_all plain_char s"
  by (induction s) (auto simp only: list.pred_inject digit_plain plain_chars)

lemma pressure_plain: "pressure_text s \<Longrightarrow> list_all plain_char s"
proof (induction s rule: pressure_text.induct)
  case (2 c)
  then have "c = CHR ''0'' \<or> c = CHR ''1''" by simp
  then show ?case by (elim disjE) (simp_all only: list.pred_inject plain_chars)
next
  case (3 c p ds)
  then have "list_all plain_char ds" by (simp only: pressure_text.simps) (elim conjE disjE; rule digits_plain; assumption)
  moreover from 3 have "plain_char c" "plain_char p"
    by (simp_all only: pressure_text.simps) (elim conjE disjE; simp only: plain_chars)+
  ultimately show ?case by (simp only: list.pred_inject)
qed (simp only: list.pred_inject)

lemma strip_plain: "list_all plain_char s \<Longrightarrow> strip s = s"
proof -
  assume "list_all plain_char s"
  then have "\<forall>c \<in> set s. \<not> is_space c" by (auto simp: list_all_iff plain_char_def)
  then have "dropWhile is_space t = t" if "set t = set s" for t
    using that by (cases t) (auto simp del: is_space.simps)
  then show ?thesis by (simp add: strip_def)
qed

lemma drop_prefix_append [simp]: "drop_prefix p (p @ s) = Some s"
  by (simp add: drop_prefix_def starts_with_iff)

lemma drop_prefix_Some: "drop_prefix p s = Some t \<Longrightarrow> s = p @ t"
  by (auto simp: drop_prefix_def starts_with_iff split: if_splits)

lemma canonical_forms:
  "canonical_condition fmt_g (''context-pressure:'' @ p) = (if pressure_text p then Some (''context-pressure:'' @ fmt_g p) else None)"
  "canonical_condition fmt_g (''idle:'' @ p) = (if idle_text p then Some (''idle:'' @ show_nat (read_nat p)) else None)"
proof -
  have "''context-pressure:'' @ p \<noteq> ''terminal''" "''idle:'' @ p \<noteq> ''terminal''" by simp_all
  moreover have "drop_prefix ''context-pressure:'' (''idle:'' @ p) = None" by (simp add: drop_prefix_def)
  ultimately show
    "canonical_condition fmt_g (''context-pressure:'' @ p) = (if pressure_text p then Some (''context-pressure:'' @ fmt_g p) else None)"
    "canonical_condition fmt_g (''idle:'' @ p) = (if idle_text p then Some (''idle:'' @ show_nat (read_nat p)) else None)"
    unfolding canonical_condition_def by (simp_all only: drop_prefix_append option.simps if_False)
qed

lemma canonical_cases:
  assumes "canonical_condition fmt_g p = Some c"
  obtains "c = ''terminal''" | q where "c = ''context-pressure:'' @ fmt_g q" | n where "c = ''idle:'' @ show_nat n"
  using assms by (auto simp: canonical_condition_def split: if_splits option.splits)

lemma canonical_again:
  assumes "canonical_condition fmt_g p = Some c"
    "\<And>q. c = ''context-pressure:'' @ q \<Longrightarrow> pressure_text q \<and> fmt_g q = q"
  shows "canonical_condition fmt_g c = Some c \<and> list_all plain_char c \<and> c \<noteq> []"
  using assms(1)
proof (cases rule: canonical_cases)
  case 1
  then show ?thesis by (simp add: canonical_condition_def plain_char_def)
next
  case (2 q)
  have "list_all plain_char ''context-pressure:''" by (simp add: plain_char_def)
  with assms(2) [OF 2] 2 show ?thesis
    by (simp only: canonical_forms list_all_append pressure_plain) simp
next
  case (3 n)
  have "list_all plain_char ''idle:''" by (simp add: plain_char_def)
  with show_nat_digits [of n] 3 show ?thesis
    by (simp only: canonical_forms list_all_append idle_text_def) (auto simp: list_all_iff digit_plain)
qed

lemma split_on_ne: "split_on c s \<noteq> []"
  by (cases s) (auto split: list.splits)

lemma split_on_free: "c \<notin> set s \<Longrightarrow> split_on c s = [s]"
  by (induction s) auto

lemma split_on_append: "c \<notin> set s \<Longrightarrow> split_on c (s @ c # t) = s # split_on c t"
  by (induction s) (auto split: list.splits)

lemma split_on_join: "ss \<noteq> [] \<Longrightarrow> \<forall>s \<in> set ss. c \<notin> set s \<Longrightarrow> split_on c (join_with [c] ss) = ss"
  by (induction "[c]" ss rule: join_with.induct) (simp_all add: split_on_free split_on_append)

lemma each_InrD: "each f xs = Inr ys \<Longrightarrow> \<forall>y \<in> set ys. \<exists>x \<in> set xs. f x = Inr y"
  by (induction xs arbitrary: ys) (auto, blast)

lemma each_length: "each f xs = Inr ys \<Longrightarrow> length ys = length xs"
  by (induction xs arbitrary: ys) auto

definition conditions_settled :: "(string \<Rightarrow> string) \<Rightarrow> string list \<Rightarrow> bool" where
  "conditions_settled fmt_g cs \<longleftrightarrow> (\<forall>q. ''context-pressure:'' @ q \<in> set cs \<longrightarrow> pressure_text q \<and> fmt_g q = q)"

lemma parse_again:
  assumes "parse_signal_conditions fmt_g given = Inr cs" "conditions_settled fmt_g cs"
  shows "parse_signal_conditions fmt_g (join_with '','' cs) = Inr cs"
proof -
  obtain ds where ds: "each (\<lambda>p. case canonical_condition fmt_g p of None \<Rightarrow> Inl (EValue p) | Some c \<Rightarrow> Inr c)
      (map strip (split_on (CHR '','') given)) = Inr ds" "cs = sort (remdups ds)"
    using assms(1) by (auto simp: parse_signal_conditions_def Let_def split: if_splits)
  have each_ok: "canonical_condition fmt_g c = Some c \<and> list_all plain_char c \<and> c \<noteq> []" if "c \<in> set cs" for c
  proof -
    from that ds each_InrD [OF ds(1)] obtain p where "canonical_condition fmt_g p = Some c"
      by (fastforce split: option.splits)
    then show ?thesis by (rule canonical_again) (use assms(2) that in \<open>auto simp: conditions_settled_def\<close>)
  qed
  have "ds \<noteq> []" using each_length [OF ds(1)] split_on_ne [of "CHR '',''" given] by auto
  then have ne: "cs \<noteq> []" using ds(2) by (metis set_empty set_remdups set_sort)
  have parts: "map strip (split_on (CHR '','') (join_with '','' cs)) = cs"
  proof -
    have "\<forall>c \<in> set cs. CHR '','' \<notin> set c" using each_ok by (fastforce simp: list_all_iff plain_char_def)
    then have "split_on (CHR '','') (join_with '','' cs) = cs" using ne split_on_join by blast
    then show ?thesis using each_ok by (simp add: map_idI strip_plain)
  qed
  have "each (\<lambda>p. case canonical_condition fmt_g p of None \<Rightarrow> Inl (EValue p) | Some c \<Rightarrow> Inr c) (map (\<lambda>c. c) cs) = Inr cs"
    by (rule each_map) (simp add: each_ok)
  moreover have "[] \<notin> set cs" using each_ok by blast
  moreover have "sort (remdups cs) = cs" using ds(2) by (simp add: distinct_remdups_id sort_key_idem)
  ultimately show ?thesis by (simp add: parse_signal_conditions_def parts)
qed

text \<open>
  A signal policy is stored as it was given.  Setting the conditions that parsing a
  \<open>--signal-on\<close> text produced succeeds, replaces the session's row, and is read back as exactly
  those conditions, where formatting leaves the pressure thresholds as they are.
\<close>

theorem signal_policy_roundtrip:
  assumes "parse_signal_conditions fmt_g given = Inr cs" "conditions_settled fmt_g cs"
  shows "\<exists>db'. set_signal_policy fmt_g now sid cs db = (Inr \<lparr>sg_session = sid, sg_conditions = cs, sg_at = now\<rparr>, db')
           \<and> signal_policy sid db' = \<lparr>sg_session = sid, sg_conditions = cs, sg_at = now\<rparr>
           \<and> (\<forall>s. s \<noteq> sid \<longrightarrow> signal_policy s db' = signal_policy s db)"
proof -
  have set: "set_signal_policy fmt_g now sid cs db
      = (Inr \<lparr>sg_session = sid, sg_conditions = cs, sg_at = now\<rparr>, snd (set_signal_policy fmt_g now sid cs db))"
    by (simp add: set_signal_policy_def parse_again [OF assms] Let_def)
  show ?thesis
  proof (intro exI conjI, rule set)
    show "signal_policy sid (snd (set_signal_policy fmt_g now sid cs db)) = \<lparr>sg_session = sid, sg_conditions = cs, sg_at = now\<rparr>"
      by (auto simp: set_signal_policy_def parse_again [OF assms] Let_def signal_policy_def lookup_by_append lookup_update_by
          split: option.splits)
    show "\<forall>s. s \<noteq> sid \<longrightarrow> signal_policy s (snd (set_signal_policy fmt_g now sid cs db)) = signal_policy s db"
      by (auto simp: set_signal_policy_def parse_again [OF assms] Let_def signal_policy_def lookup_by_append lookup_update_by
          split: option.splits)
  qed
qed

lemma sample_conditions:
  "parse_signal_conditions (\<lambda>_. ''0.5'') '' idle:007, context-pressure:0.50,idle:7'' = Inr [''context-pressure:0.5'', ''idle:7'']"
  by code_simp

theorem signal_policy_roundtrip_witness:
  "sg_conditions (signal_policy ''s'' (snd (set_signal_policy (\<lambda>_. ''0.5'') 3 ''s'' [''context-pressure:0.5'', ''idle:7''] empty_esc)))
     = [''context-pressure:0.5'', ''idle:7'']"
proof -
  have "conditions_settled (\<lambda>_. ''0.5'') [''context-pressure:0.5'', ''idle:7'']"
    by (auto simp: conditions_settled_def is_digit_def)
  from signal_policy_roundtrip [OF sample_conditions this, of 3 "''s''" empty_esc] show ?thesis by fastforce
qed

text \<open>
  A threshold under one in ten thousand parses, but \<open>format(x, "g")\<close> writes it with an exponent,
  which the second parse in \<open>set_signal_policy\<close> refuses: that policy can never be stored.
\<close>

lemma tiny_threshold_is_refused:
  assumes "fmt_g ''0.00001'' = ''1e-05''"
  shows "parse_signal_conditions fmt_g ''context-pressure:0.00001'' = Inr [''context-pressure:1e-05'']"
    "\<exists>e. set_signal_policy fmt_g now sid [''context-pressure:1e-05''] db = (Inl e, db)"
proof -
  have ok: "pressure_text ''0.00001''" "\<not> pressure_text ''1e-05''" by code_simp+
  have split: "split_on (CHR '','') ''context-pressure:0.00001'' = [''context-pressure:0.00001'']"
    "split_on (CHR '','') ''context-pressure:1e-05'' = [''context-pressure:1e-05'']" by code_simp+
  have strips: "strip ''context-pressure:0.00001'' = ''context-pressure:0.00001''"
    "strip ''context-pressure:1e-05'' = ''context-pressure:1e-05''" by code_simp+
  have c: "canonical_condition fmt_g ''context-pressure:0.00001'' = Some ''context-pressure:1e-05''"
    "canonical_condition fmt_g ''context-pressure:1e-05'' = None"
    using canonical_forms(1) [of fmt_g "''0.00001''"] canonical_forms(1) [of fmt_g "''1e-05''"] ok assms by simp_all
  show "parse_signal_conditions fmt_g ''context-pressure:0.00001'' = Inr [''context-pressure:1e-05'']"
    by (simp add: parse_signal_conditions_def split strips c)
  show "\<exists>e. set_signal_policy fmt_g now sid [''context-pressure:1e-05''] db = (Inl e, db)"
    by (simp add: set_signal_policy_def parse_signal_conditions_def split strips c)
qed

subsection \<open>Redaction leaves no credential field\<close>

fun credential_clean :: "val \<Rightarrow> bool" where
  "credential_clean (VDict kvs) =
     list_all (\<lambda>(k, v). (is_credential_key k \<and> \<not> is_routing_key k \<longrightarrow> v = VStr redacted) \<and> credential_clean v) kvs"
| "credential_clean (VList vs) = list_all credential_clean vs"
| "credential_clean v = True"

lemma structured_clean: "credential_clean (redact_structured R v key)"
  by (induction R v key rule: redact_structured.induct) (auto simp: list_all_iff split: if_splits)

text \<open>The redaction without the entropy test.\<close>

fun redact_plain :: "redactor \<Rightarrow> val \<Rightarrow> val" where
  "redact_plain R (VDict kvs) =
     VDict (map (\<lambda>(k, v). (k, if is_credential_key k \<and> \<not> is_routing_key k then VStr redacted else redact_plain R v)) kvs)"
| "redact_plain R (VList vs) = VList (map (redact_plain R) vs)"
| "redact_plain R (VStr s) = VStr (rd_scrub R s)"
| "redact_plain R v = v"

lemma structured_plain:
  "(\<forall>k. key = Some k \<longrightarrow> \<not> (is_credential_key k \<and> \<not> is_routing_key k)) \<Longrightarrow> redact_structured R v key = redact_plain R v"
proof (induction R v key rule: redact_structured.induct)
  case (1 R kvs key)
  then show ?case by (force intro!: map_cong)
next
  case (3 R s key)
  then show ?case by (auto simp: redact_string_def split: option.splits)
qed auto

text \<open>
  C40: redaction is keyed, not statistical.  On every structured payload \<open>redact_credentials\<close>
  equals the redaction that replaces the fields with a credential name and substitutes in the
  remaining strings; no field with a credential name keeps its value, and the entropy test
  never decides.
\<close>

theorem redaction_is_by_key:
  assumes "rd_loads R payload = Some v" "is_dict v \<or> (\<exists>vs. v = VList vs)"
  shows "redact_credentials R payload = rd_dumps R (redact_plain R v) \<and> credential_clean (redact_plain R v)"
proof -
  have "redact_credentials R payload = rd_dumps R (redact_structured R v None)"
    using assms by (cases v) (auto simp: redact_credentials_def)
  moreover have "redact_structured R v None = redact_plain R v" by (simp add: structured_plain)
  ultimately show ?thesis using structured_clean [of R v None] by simp
qed

theorem redaction_is_by_key_witness:
  "redact_plain plain (VDict [(''api_key'', VStr ''x''), (''session_token'', VStr ''y'')])
     = VDict [(''api_key'', VStr redacted), (''session_token'', VStr ''y'')]
   \<and> redact_credentials (plain\<lparr>rd_loads := (\<lambda>_. Some (VDict [(''api_key'', VStr ''x''), (''session_token'', VStr ''y'')])),
        rd_dumps := (\<lambda>v. if v = VDict [(''api_key'', VStr redacted), (''session_token'', VStr ''y'')] then ''clean'' else ''no'')\<rparr>) ''p''
     = ''clean''"
proof -
  let ?v = "VDict [(''api_key'', VStr ''x''), (''session_token'', VStr ''y'')]"
  let ?R = "plain\<lparr>rd_loads := (\<lambda>_. Some ?v),
     rd_dumps := (\<lambda>v. if v = VDict [(''api_key'', VStr redacted), (''session_token'', VStr ''y'')] then ''clean'' else ''no'')\<rparr>"
  have k: "is_credential_key ''api_key''" "\<not> is_routing_key ''api_key''" "is_routing_key ''session_token''" by code_simp+
  have p: "redact_plain R ?v = VDict [(''api_key'', VStr redacted), (''session_token'', VStr (rd_scrub R ''y''))]" for R
    by (simp add: k)
  show ?thesis using redaction_is_by_key [of ?R "''p''" ?v] unfolding p by (simp add: plain_def)
qed

subsection \<open>Free-route failures\<close>

record free_failure =
  ff_route :: string
  ff_outcome :: string
  ff_detail :: string
  ff_result :: esc_result
  ff_selection :: "selection option"

definition line_break :: "char \<Rightarrow> bool" where
  "line_break c \<longleftrightarrow> (let n = of_char c :: nat in (10 \<le> n \<and> n \<le> 13) \<or> (28 \<le> n \<and> n \<le> 30) \<or> n = 133)"

fun text_lines :: "string \<Rightarrow> string list" where
  "text_lines [] = [[]]"
| "text_lines (c # cs) =
     (if line_break c then [] # text_lines cs else case text_lines cs of [] \<Rightarrow> [[c]] | l # ls \<Rightarrow> (c # l) # ls)"

definition failure_detail :: "redactor \<Rightarrow> string \<Rightarrow> string" where
  "failure_detail R output =
     (case filter (\<lambda>l. l \<noteq> []) (map strip (text_lines output)) of
        [] \<Rightarrow> ''no output captured''
      | l # ls \<Rightarrow> take 400 (redact_credentials R l))"

definition free_consequence :: "selection option \<Rightarrow> string" where
  "free_consequence sel =
     (case sel of
        None \<Rightarrow> ''fallbackOnFreeFailure is off, so no billed account was used and this session stays blocked until you route it''
      | Some s \<Rightarrow>
          (case s_target s of
             Some t \<Rightarrow> if s_status s = Resolved then ''fallbackOnFreeFailure moved it to route '' @ st_route t @ '' ('' @ st_billing t @ '')''
                       else ''fallbackOnFreeFailure found no other route ('' @ printed (s_reason s) @ '')''
           | None \<Rightarrow> ''fallbackOnFreeFailure found no other route ('' @ printed (s_reason s) @ '')''))"

definition free_message :: "redactor \<Rightarrow> string \<Rightarrow> string \<Rightarrow> selection option \<Rightarrow> string" where
  "free_message R route_id output sel =
     ''DECISION: free route '' @ route_id @ '' failed ('' @ classify_free_failure output @ ''); '' @ free_consequence sel
     @ ''. Detail: '' @ failure_detail R output"

definition free_key :: "string \<Rightarrow> string \<Rightarrow> string \<Rightarrow> string" where
  "free_key child route_id output = ''free-route-failure:'' @ child @ '':'' @ route_id @ '':'' @ classify_free_failure output"

definition free_selection :: "routing_settings \<Rightarrow> pool_view \<Rightarrow> string option \<Rightarrow> string \<Rightarrow> selection option" where
  "free_selection s w cls route_id = (if rs_free_fallback s then Some (select_route s w cls None [] [route_id]) else None)"

definition escalate_free_route_failure ::
  "redactor \<Rightarrow> esc_client \<Rightarrow> (val \<Rightarrow> string) \<Rightarrow> (string \<Rightarrow> string) \<Rightarrow> routing_settings \<Rightarrow> pool_view \<Rightarrow> string \<Rightarrow> real
   \<Rightarrow> string \<Rightarrow> string \<Rightarrow> string option \<Rightarrow> string option \<Rightarrow> string option \<Rightarrow> string \<Rightarrow> esc_db
   \<Rightarrow> (eerror + free_failure) \<times> esc_db \<times> sent_message list" where
  "escalate_free_route_failure R c pystr sha256 s w wid now route_id child ws parent cls output db =
     (let sel = free_selection s w cls route_id
      in case escalate R c pystr sha256 wid now child ws parent (free_message R route_id output sel)
                (Some (free_key child route_id output)) db of
           (Inl e, db', sends) \<Rightarrow> (Inl e, db', sends)
         | (Inr r, db', sends) \<Rightarrow>
             (Inr \<lparr>ff_route = route_id, ff_outcome = classify_free_failure output, ff_detail = failure_detail R output,
                   ff_result = r, ff_selection = sel\<rparr>, db', sends))"

lemma free_message_interrupts: "classify_escalation (free_message R route_id output sel) = \<lparr>ec_kind = ''interrupt'', ec_intent = ''replace''\<rparr>"
proof -
  have tag: "message_tag (''DECISION: free route '' @ rest) = ''DECISION''" for rest
  proof -
    have "takeWhile is_letter (dropWhile is_space (''DECISION: free route '' @ rest)) = ''DECISION''"
      by (simp add: is_letter_def is_upper_def is_lower_def)
    then show ?thesis by (simp add: message_tag_def upper_char_def is_lower_def)
  qed
  then have "message_tag (free_message R route_id output sel) = ''DECISION''" unfolding free_message_def by blast
  then show ?thesis by (simp add: classify_escalation_def interrupt_tags_def)
qed

lemma free_key_key: "escalation_key sha256 child message (Some (free_key child route_id output)) = free_key child route_id output"
  by (simp add: escalation_key_def truthy_def free_key_def)

text \<open>
  A free route's failure is always visible and never billed by default.  With a fresh id and
  an executor that answers and accepts, one interrupting message reached the parent or one record
  is in the inbox, under the key of this child, route and outcome; another route was selected
  only when the operator opted in, and never the failed one.
\<close>

theorem free_failure_is_visible:
  assumes "lookup_by pk_id wid (es_parked db) = None" "lookup_by ak_id wid (es_acks db) = None"
    "answers_well_formed c" "\<forall>m. cl_send c m \<noteq> None"
  shows "\<exists>ff db' sends. escalate_free_route_failure R c pystr sha256 s w wid now route_id child ws parent cls output db
             = (Inr ff, db', sends)
           \<and> delivered_or_parked (free_key child route_id output) db db' sends (ff_result ff)
           \<and> (\<forall>m \<in> set sends. sm_intent m = ''replace'')
           \<and> (\<not> rs_free_fallback s \<longrightarrow> ff_selection ff = None)
           \<and> (\<forall>sel t. ff_selection ff = Some sel \<longrightarrow> s_target sel = Some t \<longrightarrow> st_route t \<noteq> route_id)"
proof -
  let ?sel = "free_selection s w cls route_id"
  from escalate_recorded [OF assms, of R pystr sha256 now child ws parent "free_message R route_id output ?sel"
      "Some (free_key child route_id output)"]
  obtain out db' sends where e:
    "escalate R c pystr sha256 wid now child ws parent (free_message R route_id output ?sel)
       (Some (free_key child route_id output)) db = (Inr out, db', sends)"
    "delivered_or_parked (free_key child route_id output) db db' sends out"
    by (auto simp: free_key_key)
  have "\<forall>m \<in> set sends. sm_intent m = ''replace''"
    using e(1) by (auto simp: escalate_def Let_def free_message_interrupts split: parent_view.splits option.splits prod.splits sum.splits)
  moreover have "st_route t \<noteq> route_id" if "?sel = Some sel" "s_target sel = Some t" for sel t
    using that selection_route [of s w cls None "[]" "[route_id]" sel t]
    by (auto simp: free_selection_def target_of_def route_usable_def split: if_splits)
  moreover have "\<not> rs_free_fallback s \<longrightarrow> ?sel = None" by (simp add: free_selection_def)
  ultimately show ?thesis using e by (auto simp: escalate_free_route_failure_def Let_def)
qed

theorem free_failure_is_visible_witness:
  "\<exists>ff db'. escalate_free_route_failure plain (sample_client\<lparr>cl_session := (\<lambda>_. None)\<rparr>) (\<lambda>_. []) (\<lambda>_. ''d'') sample_settings sample_view
        ''e2'' 7 ''r1'' ''child'' None (Some ''gone'') None ''Error: unknown model'' parked_db = (Inr ff, db', [])
      \<and> ff_selection ff = None"
proof -
  let ?c = "sample_client\<lparr>cl_session := (\<lambda>_. None)\<rparr>"
  have fresh: "lookup_by pk_id ''e2'' (es_parked parked_db) = None" "lookup_by ak_id ''e2'' (es_acks parked_db) = None"
    by code_simp+
  have "answers_well_formed ?c" "\<forall>m. cl_send ?c m \<noteq> None"
    by (auto simp: answers_well_formed_def sample_client_def)
  from free_failure_is_visible [OF fresh this, of plain "\<lambda>_. []" "\<lambda>_. ''d''" sample_settings sample_view 7 "''r1''" "''child''" None
      "Some ''gone''" None "''Error: unknown model''"]
  obtain ff db' sends where r: "escalate_free_route_failure plain ?c (\<lambda>_. []) (\<lambda>_. ''d'') sample_settings sample_view
        ''e2'' 7 ''r1'' ''child'' None (Some ''gone'') None ''Error: unknown model'' parked_db = (Inr ff, db', sends)"
      "\<not> rs_free_fallback sample_settings \<longrightarrow> ff_selection ff = None" by blast
  have "view_parent ?c (\<lambda>_. []) ''child'' (Some ''gone'') = Unreachable ''parent_unreachable''"
    by (simp add: view_parent_def truthy_def)
  then have "sends = []"
    using r(1) by (auto simp: escalate_free_route_failure_def escalate_def Let_def split: prod.splits sum.splits)
  moreover have "\<not> rs_free_fallback sample_settings" by (simp add: sample_settings_def default_settings_def)
  ultimately show ?thesis using r by blast
qed

end
