(* ===== verification/Steps.thy ===== *)
theory Steps
  imports Prelude
begin

text \<open>
  Operations that thread a state and may raise: the result is an error or a value, together with
  the state reached, which an exception does not undo.  \<open>follow\<close> is the sequence of two
  statements, \<open>each_op\<close> a loop the first exception leaves, \<open>poll\<close> and \<open>await\<close> the two shapes of
  waiting loop of the program.  \<open>keeps R m\<close> says that every run of \<open>m\<close>, successful or not, relates
  the states before and after by \<open>R\<close>.
\<close>

type_synonym ('s, 'e, 'a) op = "'s \<Rightarrow> ('e + 'a) \<times> 's"

definition give :: "'a \<Rightarrow> ('s, 'e, 'a) op" where
  "give a s = (Inr a, s)"

definition raising :: "'e \<Rightarrow> ('s, 'e, 'a) op" where
  "raising e s = (Inl e, s)"

definition follow :: "('s, 'e, 'a) op \<Rightarrow> ('a \<Rightarrow> ('s, 'e, 'b) op) \<Rightarrow> ('s, 'e, 'b) op" where
  "follow m f s = (case m s of (Inl e, s') \<Rightarrow> (Inl e, s') | (Inr a, s') \<Rightarrow> f a s')"

definition given :: "'e + 'a \<Rightarrow> ('s, 'e, 'a) op" where
  "given r s = (r, s)"

definition check :: "bool \<Rightarrow> 'e \<Rightarrow> ('s, 'e, unit) op" where
  "check b e s = (if b then Inr () else Inl e, s)"

definition observe :: "('s \<Rightarrow> 'a) \<Rightarrow> ('s, 'e, 'a) op" where
  "observe f s = (Inr (f s), s)"

definition modify :: "('s \<Rightarrow> 's) \<Rightarrow> ('s, 'e, unit) op" where
  "modify f s = (Inr (), f s)"

fun each_op :: "('b \<Rightarrow> ('s, 'e, 'a) op) \<Rightarrow> 'b list \<Rightarrow> ('s, 'e, 'a list) op" where
  "each_op f [] = give []"
| "each_op f (x # xs) = follow (f x) (\<lambda>a. follow (each_op f xs) (\<lambda>as. give (a # as)))"

subsection \<open>Runs\<close>

lemma op_simps [simp]:
  "give a s = (Inr a, s)" "raising e s = (Inl e, s)" "given r s = (r, s)" "observe f s = (Inr (f s), s)"
  "modify g s = (Inr (), g s)" "check True e s = (Inr (), s)" "check False e s = (Inl e, s)"
  by (simp_all add: give_def raising_def given_def check_def observe_def modify_def)

lemma follow_give [simp]: "follow (give a) f = f a"
  by (rule ext) (simp add: follow_def)

lemma follow_raising [simp]: "follow (raising e) f = raising e"
  by (rule ext) (simp add: follow_def)

lemma follow_Inr: "m s = (Inr a, s') \<Longrightarrow> follow m f s = f a s'"
  by (simp add: follow_def)

lemma follow_Inl: "m s = (Inl e, s') \<Longrightarrow> follow m f s = (Inl e, s')"
  by (simp add: follow_def)

lemma follow_eq_Inr: "follow m f s = (Inr b, s') \<longleftrightarrow> (\<exists>a t. m s = (Inr a, t) \<and> f a t = (Inr b, s'))"
  by (auto simp: follow_def split: prod.splits sum.splits)

lemma followE:
  assumes "follow m f s = (Inr b, s')"
  obtains a t where "m s = (Inr a, t)" "f a t = (Inr b, s')"
  using assms by (auto simp: follow_eq_Inr)

lemma check_eq_Inr [simp]: "check b e s = (Inr u, s') \<longleftrightarrow> b \<and> s' = s"
  by (auto simp: check_def)

subsection \<open>Relations every run keeps\<close>

definition keeps :: "('s \<Rightarrow> 's \<Rightarrow> bool) \<Rightarrow> ('s, 'e, 'a) op \<Rightarrow> bool" where
  "keeps R m \<longleftrightarrow> (\<forall>s. R s (snd (m s)))"

definition preorder :: "('s \<Rightarrow> 's \<Rightarrow> bool) \<Rightarrow> bool" where
  "preorder R \<longleftrightarrow> reflp R \<and> transp R"

named_theorems keeping \<open>operations and the relations they keep\<close>

lemma keepsD: "keeps R m \<Longrightarrow> m s = (r, s') \<Longrightarrow> R s s'"
  by (auto simp: keeps_def dest: spec [of _ s])

lemma keepsI: "(\<And>s r s'. m s = (r, s') \<Longrightarrow> R s s') \<Longrightarrow> keeps R m"
  by (auto simp: keeps_def) (metis prod.collapse)

lemma preorder_refl: "preorder R \<Longrightarrow> R s s"
  by (simp add: preorder_def reflp_def)

lemma preorder_trans: "preorder R \<Longrightarrow> R s t \<Longrightarrow> R t u \<Longrightarrow> R s u"
  by (auto simp: preorder_def dest: transpD)

lemma keeps_basic [keeping]:
  assumes "preorder R"
  shows "keeps R (give a)" "keeps R (raising e)" "keeps R (given r)" "keeps R (observe f)" "keeps R (check b e)"
  using preorder_refl [OF assms]
  by (simp_all add: keeps_def check_def give_def raising_def given_def observe_def)

lemma keeps_follow [keeping]:
  assumes "preorder R" "keeps R m" "\<And>a. keeps R (f a)"
  shows "keeps R (follow m f)"
proof (rule keepsI)
  fix s r s'
  assume run: "follow m f s = (r, s')"
  obtain q t where m: "m s = (q, t)" by fastforce
  from keepsD [OF assms(2) m] run m keepsD [OF assms(3)] preorder_trans [OF assms(1)] show "R s s'"
    by (cases q) (auto simp: follow_def)
qed

lemma keeps_each [keeping]:
  assumes "preorder R" "\<And>x. keeps R (f x)"
  shows "keeps R (each_op f xs)"
proof (induction xs)
  case Nil
  show ?case unfolding each_op.simps by (rule keeps_basic(1) [OF assms(1)])
next
  case (Cons x xs)
  show ?case unfolding each_op.simps
    by (intro keeps_follow [OF assms(1)] assms(2) Cons.IH keeps_basic(1) [OF assms(1)])
qed

lemma keeps_if [keeping]: "keeps R m \<Longrightarrow> keeps R n \<Longrightarrow> keeps R (if b then m else n)"
  by simp

lemma keeps_option [keeping]:
  "keeps R m \<Longrightarrow> (\<And>a. keeps R (f a)) \<Longrightarrow> keeps R (case x of None \<Rightarrow> m | Some a \<Rightarrow> f a)"
  by (cases x) simp_all

lemma keeps_sum [keeping]:
  "(\<And>e. keeps R (f e)) \<Longrightarrow> (\<And>a. keeps R (g a)) \<Longrightarrow> keeps R (case x of Inl e \<Rightarrow> f e | Inr a \<Rightarrow> g a)"
  by (cases x) simp_all

lemma keeps_prod [keeping]: "(\<And>a b. keeps R (f a b)) \<Longrightarrow> keeps R (case x of (a, b) \<Rightarrow> f a b)"
  by (cases x) simp

subsection \<open>Waiting loops\<close>

text \<open>
  The delays of the program's polls: the first delay and the cap it doubles up to.  A step takes
  \<open>lag i\<close> milliseconds, so time never runs backwards and every round lasts at least the first
  delay.
\<close>

datatype nap = AdoptNap | CapacityNap | SessionNap | WorkspaceNap

fun nap_base :: "nap \<Rightarrow> real" where
  "nap_base AdoptNap = 1 / 20"
| "nap_base CapacityNap = 1 / 2"
| "nap_base SessionNap = 1 / 10"
| "nap_base WorkspaceNap = 1 / 4"

fun nap_cap :: "nap \<Rightarrow> real" where
  "nap_cap AdoptNap = 1 / 2"
| "nap_cap CapacityNap = 5"
| "nap_cap SessionNap = 1 / 10"
| "nap_cap WorkspaceNap = 1 / 4"

fun nap_delay :: "nap \<Rightarrow> nat \<Rightarrow> real" where
  "nap_delay k 0 = nap_base k"
| "nap_delay k (Suc i) = min (nap_delay k i * 2) (nap_cap k)"

definition rounds_left :: "nap \<Rightarrow> real \<Rightarrow> real \<Rightarrow> nat" where
  "rounds_left k deadline t = nat (\<lfloor>(deadline - t) / nap_base k\<rfloor> + 1)"

lemma nap_base_pos: "nap_base k > 0"
  by (cases k) simp_all

lemma nap_delay_bounds: "nap_base k \<le> nap_delay k i \<and> nap_delay k i \<le> nap_cap k"
proof (induction i)
  case 0
  show ?case by (cases k) simp_all
next
  case (Suc i)
  with nap_base_pos [of k] show ?case by (auto simp: min_def)
qed

lemma rounds_left_less:
  assumes "t \<le> deadline" and "t + nap_base k \<le> u"
  shows "rounds_left k deadline u < rounds_left k deadline t"
proof -
  have "(deadline - u) / nap_base k \<le> (deadline - t) / nap_base k - 1"
    using divide_right_mono [of "deadline - u" "deadline - t - nap_base k" "nap_base k"] assms(2) nap_base_pos [of k]
    by (simp add: diff_divide_distrib)
  then have "\<lfloor>(deadline - u) / nap_base k\<rfloor> \<le> \<lfloor>(deadline - t) / nap_base k - 1\<rfloor>" by (rule floor_mono)
  then have "\<lfloor>(deadline - u) / nap_base k\<rfloor> \<le> \<lfloor>(deadline - t) / nap_base k\<rfloor> - 1" by simp
  moreover have "\<lfloor>(deadline - t) / nap_base k\<rfloor> \<ge> 0" using assms(1) nap_base_pos [of k] by simp
  ultimately show ?thesis by (simp add: rounds_left_def)
qed

text \<open>
  \<open>poll\<close>: try, give up once the deadline has passed, else sleep and try again; \<open>await\<close>: while
  the deadline has not passed, try and sleep.
\<close>

function poll ::
  "nap \<Rightarrow> real \<Rightarrow> (nat \<Rightarrow> nat) \<Rightarrow> (nat \<Rightarrow> ('s, 'e, 'a option) op) \<Rightarrow> (nat \<Rightarrow> 's \<Rightarrow> 's) \<Rightarrow> 'e \<Rightarrow> nat \<Rightarrow> real
   \<Rightarrow> ('s, 'e, 'a) op" where
  "poll k deadline lag try_once pause late i t s =
     (case try_once i s of
        (Inl e, s') \<Rightarrow> (Inl e, s')
      | (Inr (Some a), s') \<Rightarrow> (Inr a, s')
      | (Inr None, s') \<Rightarrow>
          let now = t + real (lag i) / 1000 in
          if now \<ge> deadline then (Inl late, s')
          else poll k deadline lag try_once pause late (Suc i) (now + nap_delay k i) (pause i s'))"
  by pat_completeness auto
termination
proof (relation "measure (\<lambda>(k, deadline, lag, try_once, pause, late, i, t, s). rounds_left k deadline t)", goal_cases)
  case 2
  with nap_delay_bounds show ?case by (auto intro!: rounds_left_less simp: add_increasing2 add_mono)
qed simp

function await ::
  "nap \<Rightarrow> real \<Rightarrow> (nat \<Rightarrow> nat) \<Rightarrow> (nat \<Rightarrow> ('s, 'e, 'a option) op) \<Rightarrow> 'e \<Rightarrow> nat \<Rightarrow> real \<Rightarrow> ('s, 'e, 'a) op" where
  "await k deadline lag try_once late i t s =
     (if t > deadline then (Inl late, s)
      else case try_once i s of
             (Inl e, s') \<Rightarrow> (Inl e, s')
           | (Inr (Some a), s') \<Rightarrow> (Inr a, s')
           | (Inr None, s') \<Rightarrow> await k deadline lag try_once late (Suc i) (t + real (lag i) / 1000 + nap_delay k i) s')"
  by pat_completeness auto
termination
proof (relation "measure (\<lambda>(k, deadline, lag, try_once, late, i, t, s). rounds_left k deadline t)", goal_cases)
  case 2
  with nap_delay_bounds show ?case by (auto intro!: rounds_left_less simp: add_increasing2 add_mono)
qed simp

declare poll.simps [simp del] await.simps [simp del]

lemma keeps_poll [keeping]:
  assumes "preorder R" "\<And>i. keeps R (try_once i)" "\<And>i s. R s (pause i s)"
  shows "keeps R (poll k deadline lag try_once pause late i t)"
proof -
  have "R s (snd (poll k deadline lag try_once pause late i t s))" for s
    using assms(2,3)
  proof (induction k deadline lag try_once pause late i t s rule: poll.induct)
    case (1 k deadline lag try_once pause late i t s)
    obtain q u where q: "try_once i s = (q, u)" by fastforce
    note su = keepsD [OF 1(2) [of i] q]
    show ?case
    proof (cases "q = Inr None \<and> t + real (lag i) / 1000 < deadline")
      case True
      with q 1(1) [OF q [symmetric] _ _ refl] 1(2,3) preorder_trans [OF assms(1) su] preorder_trans [OF assms(1) 1(3)]
      show ?thesis by (subst poll.simps) (simp add: Let_def)
    next
      case False
      with q su show ?thesis by (subst poll.simps) (auto simp: Let_def split: sum.split option.split)
    qed
  qed
  then show ?thesis by (simp add: keeps_def)
qed

lemma keeps_await [keeping]:
  assumes "preorder R" "\<And>i. keeps R (try_once i)"
  shows "keeps R (await k deadline lag try_once late i t)"
proof -
  have "R s (snd (await k deadline lag try_once late i t s))" for s
    using assms(2)
  proof (induction k deadline lag try_once late i t s rule: await.induct)
    case (1 k deadline lag try_once late i t s)
    obtain q u where q: "try_once i s = (q, u)" by fastforce
    note su = keepsD [OF 1(2) [of i] q]
    show ?case
    proof (cases "q = Inr None \<and> t \<le> deadline")
      case True
      with q 1(1) [OF _ q [symmetric]] 1(2) preorder_trans [OF assms(1) su]
      show ?thesis by (subst await.simps) simp
    next
      case False
      with q su preorder_refl [OF assms(1)] show ?thesis by (subst await.simps) (auto split: sum.split option.split)
    qed
  qed
  then show ?thesis by (simp add: keeps_def)
qed

text \<open>However the tries count, a loop makes no more of them than the deadline has room for.\<close>

lemma poll_rounds:
  fixes count :: "'s \<Rightarrow> nat"
  assumes "\<And>i s. count (snd (try_once i s)) \<le> count s + 1" "\<And>i s. count (pause i s) \<le> count s"
  shows "count (snd (poll k deadline lag try_once pause late i t s)) \<le> count s + rounds_left k deadline t + 1"
  using assms
proof (induction k deadline lag try_once pause late i t s rule: poll.induct)
  case (1 k deadline lag try_once pause late i t s)
  obtain q u where q: "try_once i s = (q, u)" by fastforce
  with 1(2) [of i s] have u: "count u \<le> count s + 1" by simp
  let ?now = "t + real (lag i) / 1000"
  show ?case
  proof (cases "q = Inr None \<and> ?now < deadline")
    case True
    have "rounds_left k deadline (?now + nap_delay k i) < rounds_left k deadline t"
      using nap_delay_bounds [of k i] True by (intro rounds_left_less) (auto simp: add_increasing2 add_mono)
    moreover have "count (snd (poll k deadline lag try_once pause late (Suc i) (?now + nap_delay k i) (pause i u)))
        \<le> count (pause i u) + rounds_left k deadline (?now + nap_delay k i) + 1"
      using True by (intro 1(1) [OF q [symmetric] _ _ refl _ 1(2,3)]) auto
    ultimately show ?thesis using True q u 1(3) [of i u] by (subst poll.simps) (simp add: Let_def)
  next
    case False
    with q u show ?thesis by (subst poll.simps) (auto simp: Let_def split: sum.split option.split)
  qed
qed

lemma await_rounds:
  fixes count :: "'s \<Rightarrow> nat"
  assumes "\<And>i s. count (snd (try_once i s)) \<le> count s + 1"
  shows "count (snd (await k deadline lag try_once late i t s)) \<le> count s + rounds_left k deadline t"
  using assms
proof (induction k deadline lag try_once late i t s rule: await.induct)
  case (1 k deadline lag try_once late i t s)
  obtain q u where q: "try_once i s = (q, u)" by fastforce
  with 1(2) [of i s] have u: "count u \<le> count s + 1" by simp
  let ?next = "t + real (lag i) / 1000 + nap_delay k i"
  show ?case
  proof (cases "t \<le> deadline")
    case True
    have less: "rounds_left k deadline ?next < rounds_left k deadline t"
      using nap_delay_bounds [of k i] True by (intro rounds_left_less) (auto simp: add_increasing2 add_mono)
    show ?thesis
    proof (cases "q = Inr None")
      case none: True
      have "count (snd (await k deadline lag try_once late (Suc i) ?next u)) \<le> count u + rounds_left k deadline ?next"
        using True none by (intro 1(1) [OF _ q [symmetric] _ _ 1(2)]) auto
      with True none q u less show ?thesis by (subst await.simps) simp
    next
      case False
      with True q u less show ?thesis by (subst await.simps) (auto split: sum.split option.split)
    qed
  qed (subst await.simps, simp)
qed

text \<open>A loop that returns does so on a try that succeeded.\<close>

lemma poll_result:
  "poll k deadline lag try_once pause late i t s = (Inr a, s') \<Longrightarrow> \<exists>j u. try_once j u = (Inr (Some a), s')"
proof (induction k deadline lag try_once pause late i t s rule: poll.induct)
  case (1 k deadline lag try_once pause late i t s)
  obtain q u where q: "try_once i s = (q, u)" by fastforce
  show ?case
  proof (cases "q = Inr None \<and> t + real (lag i) / 1000 < deadline")
    case True
    with 1(2) q have "poll k deadline lag try_once pause late (Suc i) (t + real (lag i) / 1000 + nap_delay k i) (pause i u) = (Inr a, s')"
      by (subst (asm) poll.simps) (simp add: Let_def)
    with True 1(1) [OF q [symmetric] _ _ refl] show ?thesis by auto
  next
    case False
    with 1(2) q have "q = Inr (Some a) \<and> u = s'"
      by (subst (asm) poll.simps) (auto simp: Let_def split: sum.splits option.splits)
    with q show ?thesis by blast
  qed
qed

lemma await_result:
  "await k deadline lag try_once late i t s = (Inr a, s') \<Longrightarrow> \<exists>j u. try_once j u = (Inr (Some a), s')"
proof (induction k deadline lag try_once late i t s rule: await.induct)
  case (1 k deadline lag try_once late i t s)
  obtain q u where q: "try_once i s = (q, u)" by fastforce
  show ?case
  proof (cases "q = Inr None \<and> t \<le> deadline")
    case True
    with 1(2) q have "await k deadline lag try_once late (Suc i) (t + real (lag i) / 1000 + nap_delay k i) u = (Inr a, s')"
      by (subst (asm) await.simps) simp
    with True 1(1) [OF _ q [symmetric]] show ?thesis by auto
  next
    case False
    with 1(2) q have "q = Inr (Some a) \<and> u = s'"
      by (subst (asm) await.simps) (auto split: sum.splits option.splits if_splits)
    with q show ?thesis by blast
  qed
qed

end
