(* ===== verification/Liveness.thy ===== *)
theory Liveness
  imports Values
begin

text \<open>
  Progress evidence and the stall classifier (\<open>liveness.py\<close>), the pure half of the detector.
  \<open>datetime.fromisoformat\<close>, \<open>float(str)\<close> and \<open>str()\<close> of a value that is not text are
  parameters; a read that raises is \<open>VNone\<close>, as \<open>_safe\<close> makes it.
\<close>

subsection \<open>Numbers the detector accepts\<close>

text \<open>\<open>_is_positive_number\<close>, \<open>_plausible\<close>, \<open>_non_negative_int\<close>, \<open>_smaller\<close>, \<open>_finite\<close>.\<close>

fun positive_number :: "val \<Rightarrow> real option" where
  "positive_number (VNum n) = (case finite_num n of Some r \<Rightarrow> if r > 0 then Some r else None | None \<Rightarrow> None)"
| "positive_number _ = None"

definition max_clock_skew :: real where
  "max_clock_skew = 300"

definition implausible_timestamp :: real where
  "implausible_timestamp = 10 ^ 11"

fun plausible :: "val \<Rightarrow> real \<Rightarrow> real option" where
  "plausible (VNum n) now =
     (case finite_num n of
        None \<Rightarrow> None
      | Some r \<Rightarrow>
          if r \<le> 0 \<or> r \<ge> implausible_timestamp then None
          else if r > now + max_clock_skew then None
          else Some r)"
| "plausible _ now = None"

fun non_negative_int :: "val \<Rightarrow> int option" where
  "non_negative_int (VNum n) =
     (case finite_num n of None \<Rightarrow> None | Some r \<Rightarrow> if r < 0 then None else Some \<lfloor>r\<rfloor>)"
| "non_negative_int _ = None"

fun smaller :: "real option \<Rightarrow> real option \<Rightarrow> real option" where
  "smaller None r = r"
| "smaller l None = l"
| "smaller (Some l) (Some r) = Some (min l r)"

subsection \<open>Budgets and policies\<close>

text \<open>
  A \<open>Budget\<close> or a \<open>DetectionPolicy\<close> that exists has passed its \<open>__post_init__\<close>: the
  constructors are the partial functions \<open>make_budget\<close> and \<open>make_policy\<close>.
\<close>

record budget =
  b_turns :: "real option"
  b_tokens :: "real option"
  b_cost :: "real option"

record policy =
  p_progress :: real
  p_approval :: "real option"
  p_budget :: "budget option"

datatype lerror = BudgetError string | DetectionPolicyError string

definition axis_ok :: "real option \<Rightarrow> bool" where
  "axis_ok v = (case v of None \<Rightarrow> True | Some r \<Rightarrow> r > 0)"

definition budget_ok :: "budget \<Rightarrow> bool" where
  "budget_ok b \<longleftrightarrow> axis_ok (b_turns b) \<and> axis_ok (b_tokens b) \<and> axis_ok (b_cost b)"

definition policy_ok :: "policy \<Rightarrow> bool" where
  "policy_ok p \<longleftrightarrow> p_progress p > 0 \<and> axis_ok (p_approval p)
     \<and> (case p_budget p of None \<Rightarrow> True | Some b \<Rightarrow> budget_ok b)"

text \<open>One axis as a dynamic value: absent, or a positive number, or an error.\<close>

definition axis_of :: "(string \<Rightarrow> lerror) \<Rightarrow> string \<Rightarrow> val \<Rightarrow> lerror + real option" where
  "axis_of err name v =
     (if v = VNone then Inr None
      else case positive_number v of None \<Rightarrow> Inl (err name) | Some r \<Rightarrow> Inr (Some r))"

definition make_budget :: "val \<Rightarrow> val \<Rightarrow> val \<Rightarrow> lerror + budget" where
  "make_budget turns tokens cost =
     ebind (axis_of BudgetError ''max_turns'' turns) (\<lambda>t.
     ebind (axis_of BudgetError ''max_tokens'' tokens) (\<lambda>k.
     ebind (axis_of BudgetError ''max_cost'' cost) (\<lambda>c.
       Inr \<lparr>b_turns = t, b_tokens = k, b_cost = c\<rparr>)))"

definition budget_from_dict :: "val \<Rightarrow> lerror + budget option" where
  "budget_from_dict v =
     (if \<not> is_dict v \<or> \<not> vtruthy v then Inr None
      else ebind (make_budget (vget ''max_turns'' v) (vget ''max_tokens'' v) (vget ''max_cost'' v)) (\<lambda>b. Inr (Some b)))"

definition axis_entry :: "string \<Rightarrow> real option \<Rightarrow> (string \<times> val) list" where
  "axis_entry k v = (case v of None \<Rightarrow> [] | Some r \<Rightarrow> [(k, VNum (PFloat r))])"

definition budget_to_dict :: "budget \<Rightarrow> val" where
  "budget_to_dict b =
     VDict (axis_entry ''max_turns'' (b_turns b) @ axis_entry ''max_tokens'' (b_tokens b) @ axis_entry ''max_cost'' (b_cost b))"

definition tightest :: "budget \<Rightarrow> budget option \<Rightarrow> budget" where
  "tightest b other =
     (case other of
        None \<Rightarrow> b
      | Some q \<Rightarrow> \<lparr>b_turns = smaller (b_turns b) (b_turns q), b_tokens = smaller (b_tokens b) (b_tokens q),
                   b_cost = smaller (b_cost b) (b_cost q)\<rparr>)"

definition default_progress :: real where
  "default_progress = 1500"

definition default_approval :: real where
  "default_approval = 1800"

definition required_positive :: "string \<Rightarrow> val \<Rightarrow> lerror + real" where
  "required_positive name v =
     (case positive_number v of None \<Rightarrow> Inl (DetectionPolicyError name) | Some r \<Rightarrow> Inr r)"

definition policy_from_dict :: "val \<Rightarrow> lerror + policy" where
  "policy_from_dict v =
     (if \<not> is_dict v then Inl (DetectionPolicyError ''object'')
      else
        let raw = vget ''budget'' v in
        case budget_from_dict raw of
          Inl _ \<Rightarrow> Inl (DetectionPolicyError ''budget'')
        | Inr b \<Rightarrow>
            if raw \<noteq> VNone \<and> b = None \<and> raw \<noteq> VDict [] then Inl (DetectionPolicyError ''budget'')
            else
              ebind (case vfield ''progress_timeout'' v of
                       None \<Rightarrow> Inr default_progress
                     | Some p \<Rightarrow> required_positive ''progress_timeout'' p) (\<lambda>progress.
              ebind (if vget ''approval_timeout'' v = VNone then Inr None
                     else ebind (required_positive ''approval_timeout'' (vget ''approval_timeout'' v)) (\<lambda>r. Inr (Some r)))
                (\<lambda>approval. Inr \<lparr>p_progress = progress, p_approval = approval, p_budget = b\<rparr>)))"

definition policy_to_dict :: "policy \<Rightarrow> val" where
  "policy_to_dict p =
     VDict ([(''progress_timeout'', VNum (PFloat (p_progress p)))]
            @ axis_entry ''approval_timeout'' (p_approval p)
            @ (case p_budget p of None \<Rightarrow> [] | Some b \<Rightarrow> [(''budget'', budget_to_dict b)]))"

definition effective_approval_timeout :: "policy \<Rightarrow> real" where
  "effective_approval_timeout p = (case p_approval p of None \<Rightarrow> default_approval | Some t \<Rightarrow> t)"

text \<open>
  \<open>trusted_policy\<close>: the floor from the manager's environment.  \<open>num_of\<close> is \<open>float(str)\<close>, with
  \<open>None\<close> for a \<open>ValueError\<close>; \<open>int()\<close> of a ceiling truncates.
\<close>

definition env_positive :: "(string \<Rightarrow> num option) \<Rightarrow> string \<Rightarrow> real option" where
  "env_positive num_of raw =
     (case num_of raw of None \<Rightarrow> None | Some n \<Rightarrow> positive_number (VNum n))"

definition positive_float :: "(string \<Rightarrow> num option) \<Rightarrow> string option \<Rightarrow> real \<Rightarrow> real" where
  "positive_float num_of raw fallback =
     (case raw of
        None \<Rightarrow> fallback
      | Some s \<Rightarrow> (case env_positive num_of s of None \<Rightarrow> fallback | Some r \<Rightarrow> r))"

definition positive_float_or_none :: "(string \<Rightarrow> num option) \<Rightarrow> string option \<Rightarrow> real option" where
  "positive_float_or_none num_of raw =
     (case raw of None \<Rightarrow> None | Some s \<Rightarrow> if strip s = [] then None else env_positive num_of s)"

definition positive_int_or_none :: "(string \<Rightarrow> num option) \<Rightarrow> string option \<Rightarrow> int option" where
  "positive_int_or_none num_of raw = map_option floor (positive_float_or_none num_of raw)"

definition vint :: "int option \<Rightarrow> val" where
  "vint v = (case v of None \<Rightarrow> VNone | Some i \<Rightarrow> VNum (PInt i))"

definition vreal :: "real option \<Rightarrow> val" where
  "vreal v = (case v of None \<Rightarrow> VNone | Some r \<Rightarrow> VNum (PFloat r))"

definition trusted_policy :: "(string \<Rightarrow> num option) \<Rightarrow> (string \<Rightarrow> string option) \<Rightarrow> lerror + policy" where
  "trusted_policy num_of env =
     (let turns = vint (positive_int_or_none num_of (env ''SIGHTMESH_MAX_TURNS''));
          tokens = vint (positive_int_or_none num_of (env ''SIGHTMESH_MAX_TOKENS''));
          cost = vreal (positive_float_or_none num_of (env ''SIGHTMESH_MAX_COST''))
      in ebind (if vtruthy turns \<or> vtruthy tokens \<or> vtruthy cost
                then ebind (make_budget turns tokens cost) (\<lambda>b. Inr (Some b)) else Inr None) (\<lambda>b.
         Inr \<lparr>p_progress = positive_float num_of (env ''SIGHTMESH_PROGRESS_TIMEOUT_SECONDS'') default_progress,
              p_approval = Some (positive_float num_of (env ''SIGHTMESH_APPROVAL_TIMEOUT_SECONDS'') default_approval),
              p_budget = b\<rparr>))"

text \<open>\<open>resolve_policy\<close>: the request merged with the floor, always tightening.\<close>

definition resolve_policy :: "val \<Rightarrow> val \<Rightarrow> budget option \<Rightarrow> policy \<Rightarrow> lerror + policy" where
  "resolve_policy progress approval b base =
     (if progress \<noteq> VNone \<and> positive_number progress = None then Inl (DetectionPolicyError ''progress_timeout'')
      else if approval \<noteq> VNone \<and> positive_number approval = None then Inl (DetectionPolicyError ''approval_timeout'')
      else Inr \<lparr>p_progress = min (p_progress base)
                  (case positive_number progress of None \<Rightarrow> p_progress base | Some r \<Rightarrow> r),
                p_approval = smaller (p_approval base) (positive_number approval),
                p_budget = (case b of None \<Rightarrow> p_budget base | Some q \<Rightarrow> Some (tightest q (p_budget base)))\<rparr>)"

subsection \<open>Evidence and classification\<close>

text \<open>\<open>ProgressEvidence\<close>, with \<open>v_typed\<close> for the confidence \<open>"typed"\<close>.\<close>

record evidence =
  v_last_activity :: "real option"
  v_observed :: bool
  v_process_alive :: bool
  v_stream_alive :: "bool option"
  v_output_growing :: bool
  v_output_unmeasured :: bool
  v_parked :: bool
  v_turn_ended :: bool
  v_lifecycle_called :: bool
  v_queued_mail :: bool
  v_lost_reason :: "string option"
  v_turns :: int
  v_tokens :: int
  v_cost :: "real option"
  v_output_bytes :: "int option"
  v_typed :: bool
  v_sources :: "string list"

definition no_evidence :: evidence where
  "no_evidence =
     \<lparr>v_last_activity = None, v_observed = False, v_process_alive = False, v_stream_alive = None,
      v_output_growing = False, v_output_unmeasured = False, v_parked = False, v_turn_ended = False,
      v_lifecycle_called = False, v_queued_mail = False, v_lost_reason = None, v_turns = 0, v_tokens = 0,
      v_cost = None, v_output_bytes = None, v_typed = False, v_sources = []\<rparr>"

datatype cause = CLost | CParked | CLive | CUnknown | CIdle | CLimbo | CStalled

fun cause_name :: "cause \<Rightarrow> string" where
  "cause_name CLost = ''lost''"
| "cause_name CParked = ''parked''"
| "cause_name CLive = ''live''"
| "cause_name CUnknown = ''unknown''"
| "cause_name CIdle = ''idle_unreported''"
| "cause_name CLimbo = ''limbo''"
| "cause_name CStalled = ''stalled''"

definition silent_for :: "evidence \<Rightarrow> real \<Rightarrow> real option" where
  "silent_for v now = map_option (\<lambda>t. max 0 (now - t)) (v_last_activity v)"

definition idle_grace :: real where
  "idle_grace = 120"

definition classify :: "evidence \<Rightarrow> real \<Rightarrow> policy \<Rightarrow> cause" where
  "classify v now p =
     (if truthy (v_lost_reason v) \<and> \<not> v_process_alive v then CLost
      else if v_parked v then CParked
      else if v_output_growing v then CLive
      else case silent_for v now of
        None \<Rightarrow> CUnknown
      | Some silent \<Rightarrow>
          if v_turn_ended v \<and> \<not> v_lifecycle_called v \<and> \<not> v_queued_mail v then
            if silent < idle_grace then CLive
            else if v_observed v then CIdle else CUnknown
          else if silent < p_progress p then CLive
          else if \<not> v_observed v \<or> v_output_unmeasured v then CUnknown
          else if v_stream_alive v = Some False \<and> v_process_alive v then CLimbo
          else CStalled)"

definition crossed :: "real \<Rightarrow> real option \<Rightarrow> bool" where
  "crossed used cap = (case cap of None \<Rightarrow> False | Some c \<Rightarrow> used \<ge> c)"

definition over_budget :: "evidence \<Rightarrow> budget option \<Rightarrow> bool" where
  "over_budget v b =
     (case b of
        None \<Rightarrow> False
      | Some q \<Rightarrow>
          crossed (of_int (v_turns v)) (b_turns q) \<or> crossed (of_int (v_tokens v)) (b_tokens q)
          \<or> (case v_cost v of None \<Rightarrow> False | Some c \<Rightarrow> crossed c (b_cost q)))"

record finding =
  f_reason :: cause
  f_evidence :: evidence
  f_now :: real
  f_over_budget :: bool

definition actionable :: "finding \<Rightarrow> bool" where
  "actionable f \<longleftrightarrow> f_reason f \<noteq> CLive \<and> f_reason f \<noteq> CUnknown"

definition opt_json :: "('a \<Rightarrow> json) \<Rightarrow> 'a option \<Rightarrow> json" where
  "opt_json f v = (case v of None \<Rightarrow> JNull | Some x \<Rightarrow> f x)"

definition evidence_body :: "evidence \<Rightarrow> real \<Rightarrow> (string \<times> json) list" where
  "evidence_body v now =
     [(''confidence'', JStr (if v_typed v then ''typed'' else ''degraded'')),
      (''sources'', JList (map JStr (v_sources v))),
      (''silent_for'', opt_json JReal (silent_for v now)),
      (''observed'', JBool (v_observed v)),
      (''process_alive'', JBool (v_process_alive v)),
      (''stream_alive'', opt_json JBool (v_stream_alive v)),
      (''output_growing'', JBool (v_output_growing v)),
      (''turns'', JInt (v_turns v)),
      (''tokens'', JInt (v_tokens v)),
      (''cost'', opt_json JReal (v_cost v))]"

definition finding_payload :: "finding \<Rightarrow> json" where
  "finding_payload f =
     jcanon (JObj (evidence_body (f_evidence f) (f_now f) @ [(''reason'', JStr (cause_name (f_reason f)))]
                   @ (if f_over_budget f then [(''over_budget'', JBool True)] else [])))"
subsection \<open>Reading the executor\<close>

definition eligible :: "val \<Rightarrow> bool" where
  "eligible item \<longleftrightarrow> is_dict item \<and> \<not> vtruthy (vget ''dropped'' item)
     \<and> vget ''run_reason'' item \<noteq> VStr ''devserver''"

fun eligible_processes :: "val \<Rightarrow> val list" where
  "eligible_processes (VList items) = filter eligible items"
| "eligible_processes _ = []"

definition process_status :: "val \<Rightarrow> string" where
  "process_status item = (case vget ''status'' item of VStr s \<Rightarrow> lower (strip s) | _ \<Rightarrow> [])"

definition running_row :: "val \<Rightarrow> bool" where
  "running_row item \<longleftrightarrow> process_status item = ''running''"

text \<open>
  \<open>isotime\<close> is the timestamp of \<open>datetime.fromisoformat\<close> on the string with \<open>Z\<close> replaced,
  read as UTC when it has no zone; \<open>None\<close> is its \<open>ValueError\<close>.
\<close>

definition zulu :: "string \<Rightarrow> string" where
  "zulu s = concat (map (\<lambda>c. if c = CHR ''Z'' then ''+00:00'' else [c]) s)"

definition stamp_value :: "(string \<Rightarrow> real option) \<Rightarrow> val \<Rightarrow> val" where
  "stamp_value isotime v =
     (case v of VStr s \<Rightarrow> (case isotime (zulu s) of None \<Rightarrow> VNone | Some t \<Rightarrow> VNum (PFloat t)) | _ \<Rightarrow> v)"

fun first_stamp :: "(string \<Rightarrow> real option) \<Rightarrow> val \<Rightarrow> real \<Rightarrow> string list \<Rightarrow> real option" where
  "first_stamp isotime item now [] = None"
| "first_stamp isotime item now (name # names) =
     (case plausible (stamp_value isotime (vget name item)) now of
        Some t \<Rightarrow> Some t
      | None \<Rightarrow> first_stamp isotime item now names)"

definition timestamp :: "(string \<Rightarrow> real option) \<Rightarrow> val \<Rightarrow> real \<Rightarrow> real option" where
  "timestamp isotime item now =
     first_stamp isotime item now [''completed_at'', ''updated_at'', ''started_at'', ''created_at'']"

definition execution_rank :: "(val \<Rightarrow> string) \<Rightarrow> (string \<Rightarrow> real option) \<Rightarrow> real \<Rightarrow> val \<Rightarrow> real \<times> string" where
  "execution_rank pystr isotime now item =
     ((case timestamp isotime item now of None \<Rightarrow> 0 | Some t \<Rightarrow> t), text_or_empty pystr (vget ''id'' item))"

definition rank_less :: "real \<times> string \<Rightarrow> real \<times> string \<Rightarrow> bool" where
  "rank_less a b \<longleftrightarrow> fst a < fst b \<or> (fst a = fst b \<and> snd a < snd b)"

text \<open>\<open>max(rows, key=...)\<close>: the first of the rows with the greatest key.\<close>

fun best_of :: "('a \<Rightarrow> real \<times> string) \<Rightarrow> 'a list \<Rightarrow> 'a option" where
  "best_of key [] = None"
| "best_of key (x # xs) =
     (case best_of key xs of
        None \<Rightarrow> Some x
      | Some y \<Rightarrow> if rank_less (key x) (key y) then Some y else Some x)"

definition current_execution :: "(val \<Rightarrow> string) \<Rightarrow> (string \<Rightarrow> real option) \<Rightarrow> val list \<Rightarrow> real \<Rightarrow> val option" where
  "current_execution pystr isotime rows now =
     (let live = filter running_row rows
      in best_of (execution_rank pystr isotime now) (if live \<noteq> [] then live else rows))"

fun output_bytes_from :: "int option \<Rightarrow> val list \<Rightarrow> int option" where
  "output_bytes_from acc [] = acc"
| "output_bytes_from acc (item # rows) =
     output_bytes_from
       (case vfield ''output_bytes'' item of
          None \<Rightarrow> acc
        | Some v \<Rightarrow> (case non_negative_int v of
                     None \<Rightarrow> acc
                   | Some n \<Rightarrow> Some (case acc of None \<Rightarrow> n | Some k \<Rightarrow> k + n))) rows"

definition output_bytes :: "val list \<Rightarrow> int option" where
  "output_bytes rows = output_bytes_from None rows"

definition degraded_loss :: "val \<Rightarrow> string option" where
  "degraded_loss item =
     (case vget ''exit_reason'' item of
        VStr s \<Rightarrow> if strip s \<noteq> [] then Some (strip s)
                   else if process_status item = ''killed'' then Some ''killed'' else None
      | _ \<Rightarrow> if process_status item = ''killed'' then Some ''killed'' else None)"

fun mail_flag :: "val \<Rightarrow> bool option" where
  "mail_flag (VBool b) = Some b"
| "mail_flag (VNum n) = map_option (\<lambda>r. r > 0) (finite_num n)"
| "mail_flag (VList vs) = Some (vs \<noteq> [])"
| "mail_flag _ = None"

fun first_flag :: "val \<Rightarrow> string list \<Rightarrow> bool option" where
  "first_flag v [] = None"
| "first_flag v (k # ks) = (case mail_flag (vget k v) of Some b \<Rightarrow> Some b | None \<Rightarrow> first_flag v ks)"

definition queued_mail :: "val \<Rightarrow> bool option" where
  "queued_mail status = (if is_dict status then first_flag status [''pending'', ''queued'', ''depth''] else None)"

definition entry_tokens :: "val \<Rightarrow> int option" where
  "entry_tokens wrapped =
     (let entry = vget ''entry_type'' (vget ''content'' wrapped)
      in if is_dict entry \<and> vget ''type'' entry = VStr ''token_usage_info''
         then non_negative_int (vget ''total_tokens'' entry) else None)"

fun first_tokens :: "val list \<Rightarrow> int" where
  "first_tokens [] = 0"
| "first_tokens (w # ws) = (case entry_tokens w of Some n \<Rightarrow> n | None \<Rightarrow> first_tokens ws)"

definition snapshot_tokens :: "val \<Rightarrow> int" where
  "snapshot_tokens snapshot = (case vget ''entries'' snapshot of VList ws \<Rightarrow> first_tokens ws | _ \<Rightarrow> 0)"
fun latest :: "real list \<Rightarrow> real option" where
  "latest [] = None"
| "latest (t # ts) = Some (case latest ts of None \<Rightarrow> t | Some u \<Rightarrow> max t u)"

fun keep_first :: "'a list \<Rightarrow> 'a list" where
  "keep_first [] = []"
| "keep_first (x # xs) = x # filter (\<lambda>y. y \<noteq> x) (keep_first xs)"

definition option_list :: "'a option \<Rightarrow> 'a list" where
  "option_list v = (case v of None \<Rightarrow> [] | Some x \<Rightarrow> [x])"

definition marker_truthy :: "string \<Rightarrow> val \<Rightarrow> bool" where
  "marker_truthy k snapshot \<longleftrightarrow> vtruthy (vget k snapshot)"

definition stream_alive_of :: "val \<Rightarrow> bool option" where
  "stream_alive_of snapshot =
     (case vfield ''stream_alive'' snapshot of
        None \<Rightarrow> Some True
      | Some (VBool b) \<Rightarrow> Some b
      | Some _ \<Rightarrow> None)"

definition typed_markers :: "val \<Rightarrow> bool" where
  "typed_markers snapshot \<longleftrightarrow>
     list_ex (\<lambda>k. vfield k snapshot \<noteq> None) [''turn_ended'', ''parked'', ''lifecycle_called'', ''lost_reason'']"

text \<open>
  \<open>gather_evidence\<close>: the typed loss marker of the snapshot, or what the current process row
  says; then all the reads together.  \<open>processes\<close>, \<open>snapshot_of\<close> and \<open>queue\<close> are the
  executor's answers.  \<open>snap\<close> is \<open>None\<close> when there is no snapshot to read.
\<close>

definition loss_reason :: "(val \<Rightarrow> string) \<Rightarrow> val option \<Rightarrow> val option \<Rightarrow> string option" where
  "loss_reason pystr snap current =
     (let typed = (case snap of None \<Rightarrow> VNone | Some s \<Rightarrow> vget ''lost_reason'' s)
      in if typed \<noteq> VNone then (if vtruthy typed then Some (text_or_empty pystr typed) else None)
         else case current of None \<Rightarrow> None | Some c \<Rightarrow> degraded_loss c)"

definition degraded_source :: "val option \<Rightarrow> val option \<Rightarrow> string list" where
  "degraded_source snap current =
     (let typed = (case snap of None \<Rightarrow> VNone | Some s \<Rightarrow> vget ''lost_reason'' s)
      in if typed = VNone \<and> truthy (case current of None \<Rightarrow> None | Some c \<Rightarrow> degraded_loss c)
         then [''process_status''] else [])"

definition read_snapshot :: "(string \<Rightarrow> val) \<Rightarrow> (val \<Rightarrow> string) \<Rightarrow> val option \<Rightarrow> val option" where
  "read_snapshot snapshot_of pystr current =
     (case current of
        None \<Rightarrow> None
      | Some c \<Rightarrow> let s = snapshot_of (text_or_empty pystr (vget ''id'' c)) in if is_dict s then Some s else None)"

definition gather_evidence ::
  "(val \<Rightarrow> string) \<Rightarrow> (string \<Rightarrow> real option) \<Rightarrow> val \<Rightarrow> (string \<Rightarrow> val) \<Rightarrow> val
   \<Rightarrow> real \<Rightarrow> real option \<Rightarrow> int option \<Rightarrow> evidence" where
  "gather_evidence pystr isotime processes snapshot_of queue now checkpoint_at previous =
     (let rows = eligible_processes processes;
          checkpoint = (case checkpoint_at of None \<Rightarrow> None | Some t \<Rightarrow> plausible (VNum (PFloat t)) now)
      in if rows = [] then
           no_evidence\<lparr>v_last_activity := checkpoint,
                       v_sources := (if checkpoint_at \<noteq> None then [''checkpoint''] else [])\<rparr>
         else
           let stamps = concat (map (\<lambda>r. option_list (timestamp isotime r now)) rows);
               bytes = output_bytes rows;
               current = current_execution pystr isotime rows now;
               snap = read_snapshot snapshot_of pystr current;
               activity = (case snap of None \<Rightarrow> None | Some s \<Rightarrow> plausible (vget ''last_activity_at'' s) now);
               marked = (\<lambda>k. case snap of None \<Rightarrow> False | Some s \<Rightarrow> marker_truthy k s);
               mail = (if marked ''turn_ended'' then queued_mail queue else None)
           in \<lparr>v_last_activity = latest (stamps @ option_list checkpoint @ option_list activity),
               v_observed = True,
               v_process_alive = (filter running_row rows \<noteq> []),
               v_stream_alive = (case snap of None \<Rightarrow> None | Some s \<Rightarrow> stream_alive_of s),
               v_output_growing = (case (previous, bytes) of (Some p, Some b) \<Rightarrow> b > p | _ \<Rightarrow> False),
               v_output_unmeasured = (bytes \<noteq> None \<and> previous = None),
               v_parked = marked ''parked'',
               v_turn_ended = marked ''turn_ended'',
               v_lifecycle_called = marked ''lifecycle_called'',
               v_queued_mail = (mail = Some True),
               v_lost_reason = loss_reason pystr snap current,
               v_turns = int (length (filter (\<lambda>r. vget ''run_reason'' r = VStr ''codingagent'') rows)),
               v_tokens = (case snap of None \<Rightarrow> 0 | Some s \<Rightarrow> snapshot_tokens s),
               v_cost = None,
               v_output_bytes = bytes,
               v_typed = (case snap of None \<Rightarrow> False | Some s \<Rightarrow> typed_markers s),
               v_sources = keep_first
                 ([''execution_processes'']
                  @ (if checkpoint \<noteq> None then [''checkpoint''] else [])
                  @ (if bytes \<noteq> None then [''output_bytes''] else [])
                  @ (if snap \<noteq> None then [''normalized_snapshot''] else [])
                  @ (if activity \<noteq> None then [''transcript''] else [])
                  @ (if mail \<noteq> None then [''queue_status''] else [])
                  @ degraded_source snap current)\<rparr>)"
subsection \<open>What the classifier may conclude\<close>

lemma silent_for_None: "silent_for v now = None \<longleftrightarrow> v_last_activity v = None"
  by (simp add: silent_for_def)

lemma silent_for_SomeD:
  "silent_for v now = Some s \<Longrightarrow> \<exists>t. v_last_activity v = Some t \<and> s = max 0 (now - t)"
  by (auto simp: silent_for_def)

lemma classify_lost: "classify v now p = CLost \<longleftrightarrow> truthy (v_lost_reason v) \<and> \<not> v_process_alive v"
  by (auto simp: classify_def split: option.splits)

lemma classify_unobserved:
  assumes "\<not> v_observed v" "\<not> truthy (v_lost_reason v)" "\<not> v_parked v"
  shows "classify v now p = CLive \<or> classify v now p = CUnknown"
  using assms by (auto simp: classify_def split: option.splits)

text \<open>A verdict of silence has a timestamp behind it that is at least one timeout old.\<close>

lemma classify_silent:
  assumes "classify v now p = CStalled \<or> classify v now p = CLimbo" "p_progress p > 0"
  shows "\<exists>t. v_last_activity v = Some t \<and> now - t \<ge> p_progress p \<and> v_observed v \<and> \<not> v_output_unmeasured v
          \<and> \<not> v_output_growing v"
proof -
  from assms(1) obtain s where s: "silent_for v now = Some s" "\<not> s < p_progress p"
    and o: "v_observed v" "\<not> v_output_unmeasured v" "\<not> v_output_growing v"
    by (auto simp: classify_def split: if_splits option.splits)
  from silent_for_SomeD [OF s(1)] obtain t where t: "v_last_activity v = Some t" "s = max 0 (now - t)"
    by blast
  from s(2) t(2) assms(2) have "now - t \<ge> p_progress p"
    by linarith
  with t(1) o show ?thesis by blast
qed

lemma latest_None [simp]: "latest ts = None \<longleftrightarrow> ts = []"
  by (cases ts) auto

lemma latest_upper: "t \<in> set ts \<Longrightarrow> latest ts = Some u \<Longrightarrow> t \<le> u"
proof (induction ts arbitrary: u)
  case (Cons a ts)
  then show ?case by (cases "latest ts") (auto simp: max_def split: if_splits intro: order_trans)
qed simp

lemma set_keep_first [simp]: "set (keep_first xs) = set xs"
  by (induction xs) auto

lemma distinct_keep_first [simp]: "distinct (keep_first xs)"
  by (induction xs) auto

text \<open>The two shapes of gathered evidence.\<close>

lemma gather_nothing:
  assumes "eligible_processes processes = []"
  shows "gather_evidence pystr isotime processes snapshot_of queue now checkpoint_at previous
         = no_evidence\<lparr>v_last_activity := (case checkpoint_at of None \<Rightarrow> None | Some t \<Rightarrow> plausible (VNum (PFloat t)) now),
                       v_sources := (if checkpoint_at \<noteq> None then [''checkpoint''] else [])\<rparr>"
  using assms by (simp add: gather_evidence_def)

lemma gather_observed [simp]:
  "v_observed (gather_evidence pystr isotime processes snapshot_of queue now checkpoint_at previous)
   \<longleftrightarrow> eligible_processes processes \<noteq> []"
  by (simp add: gather_evidence_def no_evidence_def Let_def)

lemma gather_alive [simp]:
  "v_process_alive (gather_evidence pystr isotime processes snapshot_of queue now checkpoint_at previous)
   \<longleftrightarrow> (\<exists>r \<in> set (eligible_processes processes). running_row r)"
  by (simp add: gather_evidence_def no_evidence_def Let_def filter_empty_conv)

lemma gather_activity:
  assumes "v_last_activity (gather_evidence pystr isotime processes snapshot_of queue now checkpoint_at previous) = Some u"
    "r \<in> set (eligible_processes processes)" "timestamp isotime r now = Some t"
  shows "t \<le> u"
proof -
  from assms(2) have ne: "eligible_processes processes \<noteq> []" by auto
  have "t \<in> set (concat (map (\<lambda>r. option_list (timestamp isotime r now)) (eligible_processes processes)))"
    using assms(2,3) by (force simp: option_list_def)
  then show ?thesis
    using assms(1) ne
    by (intro latest_upper [OF _ assms(1) [unfolded gather_evidence_def Let_def, simplified ne, simplified]]) simp
qed

lemma gather_usage:
  assumes "eligible_processes processes = []"
  shows "v_turns (gather_evidence pystr isotime processes snapshot_of queue now checkpoint_at previous) = 0"
    and "v_tokens (gather_evidence pystr isotime processes snapshot_of queue now checkpoint_at previous) = 0"
    and "v_cost (gather_evidence pystr isotime processes snapshot_of queue now checkpoint_at previous) = None"
  using assms by (simp_all add: gather_evidence_def no_evidence_def)

lemma crossed_zero: "axis_ok c \<Longrightarrow> \<not> crossed 0 c"
  by (simp add: axis_ok_def crossed_def split: option.splits)

lemma over_budget_unused:
  assumes "v_turns v = 0" "v_tokens v = 0" "v_cost v = None" "\<forall>q. b = Some q \<longrightarrow> budget_ok q"
  shows "\<not> over_budget v b"
proof (cases b)
  case (Some q)
  with assms(4) show ?thesis
    by (simp add: over_budget_def assms(1-3) budget_ok_def crossed_zero)
qed (simp add: over_budget_def)

text \<open>
  Silence of the executor is never held against a task.  When the process read fails, or
  holds no eligible row, the gathered evidence is classified live or unknown whatever the
  other reads answer, and no ceiling of a valid policy counts as crossed: the pass records
  no finding.
\<close>

theorem no_reading_no_verdict:
  assumes "eligible_processes processes = []" "policy_ok p"
    and v_def: "v = gather_evidence pystr isotime processes snapshot_of queue now checkpoint_at previous"
  shows "\<not> actionable \<lparr>f_reason = classify v clock p, f_evidence = v, f_now = clock,
                      f_over_budget = over_budget v (p_budget p)\<rparr>
         \<and> \<not> over_budget v (p_budget p)"
proof -
  have "classify v clock p = CLive \<or> classify v clock p = CUnknown"
    unfolding v_def
    by (rule classify_unobserved) (simp_all add: assms(1) gather_nothing no_evidence_def truthy_def)
  moreover have "\<not> over_budget v (p_budget p)"
    unfolding v_def using assms(2)
    by (intro over_budget_unused) (auto simp: gather_usage assms(1) policy_ok_def)
  ultimately show ?thesis by (auto simp: actionable_def)
qed

definition floor_policy :: policy where
  "floor_policy = \<lparr>p_progress = 60, p_approval = Some 30, p_budget = Some \<lparr>b_turns = Some 3, b_tokens = None, b_cost = None\<rparr>\<rparr>"

theorem no_reading_no_verdict_witness:
  "let v = gather_evidence (\<lambda>_. []) (\<lambda>_. None) (VList [VNone, VDict [(''run_reason'', VStr ''devserver'')]])
             (\<lambda>_. VNone) VNone 1000 (Some 10) None
   in \<not> actionable \<lparr>f_reason = classify v 1000 floor_policy, f_evidence = v, f_now = 1000,
                   f_over_budget = over_budget v (p_budget floor_policy)\<rparr>
      \<and> \<not> over_budget v (p_budget floor_policy)"
  unfolding Let_def
  by (rule no_reading_no_verdict [OF _ _ refl])
     (simp_all add: eligible_def vget_def floor_policy_def policy_ok_def axis_ok_def budget_ok_def)

text \<open>
  A running process vetoes the irreversible verdict.  Whenever one eligible row is
  running, the classifier does not answer lost, whatever loss markers the snapshot or the
  current row carry.
\<close>

theorem running_vetoes_lost:
  assumes "r \<in> set (eligible_processes processes)" "running_row r"
  shows "classify (gather_evidence pystr isotime processes snapshot_of queue now checkpoint_at previous) clock p \<noteq> CLost"
  using assms by (auto simp: classify_lost)

definition running_killed_row :: val where
  "running_killed_row = VDict [(''id'', VStr ''p1''), (''status'', VStr '' Running''), (''exit_reason'', VStr ''oom''),
                               (''updated_at'', VNum (PInt 900))]"

lemma running_killed_running: "running_row running_killed_row"
  by code_simp

theorem running_vetoes_lost_witness:
  "classify (gather_evidence (\<lambda>_. []) (\<lambda>_. None) (VList [running_killed_row]) (\<lambda>_. VNone) VNone 1000 None None)
     1000 floor_policy \<noteq> CLost"
  by (rule running_vetoes_lost [where r = running_killed_row])
     (simp_all add: running_killed_running, simp add: eligible_def running_killed_row_def vget_def)
text \<open>
  A stall needs proof of silence.  When gathered evidence is classified stalled or limbo,
  the executor did report an eligible process, every plausible timestamp it carries is at
  least the policy's progress timeout old, and no output growth was measured or left
  unmeasured.
\<close>

theorem stall_needs_silence:
  assumes "v = gather_evidence pystr isotime processes snapshot_of queue now checkpoint_at previous"
    "classify v clock p \<in> {CStalled, CLimbo}" "policy_ok p"
  shows "eligible_processes processes \<noteq> [] \<and> \<not> v_output_growing v \<and> \<not> v_output_unmeasured v
         \<and> (\<forall>r \<in> set (eligible_processes processes). \<forall>t. timestamp isotime r now = Some t
              \<longrightarrow> clock - t \<ge> p_progress p)"
proof -
  from assms(2,3) have c: "classify v clock p = CStalled \<or> classify v clock p = CLimbo" "p_progress p > 0"
    by (auto simp: policy_ok_def)
  from classify_silent [OF c] obtain u where u: "v_last_activity v = Some u" "clock - u \<ge> p_progress p"
    "v_observed v" "\<not> v_output_unmeasured v" "\<not> v_output_growing v" by blast
  have "t \<le> u" if "r \<in> set (eligible_processes processes)" "timestamp isotime r now = Some t" for r t
    using gather_activity [OF u(1) [unfolded assms(1)] that] .
  with u show ?thesis
    unfolding assms(1) by (fastforce simp: algebra_simps)
qed

definition quiet_row :: val where
  "quiet_row = VDict [(''id'', VStr ''p1''), (''status'', VStr ''completed''), (''updated_at'', VNum (PInt 100))]"

definition silent_evidence :: evidence where
  "silent_evidence = gather_evidence (\<lambda>_. []) (\<lambda>_. None) (VList [quiet_row]) (\<lambda>_. VNone) VNone 1000 None None"

lemma silent_evidence_activity: "v_last_activity silent_evidence = Some 100"
  by (simp add: silent_evidence_def gather_evidence_def quiet_row_def eligible_def vget_def timestamp_def
      stamp_value_def option_list_def read_snapshot_def current_execution_def running_row_def process_status_def
      Let_def implausible_timestamp_def max_clock_skew_def)

lemma silent_evidence_flags:
  "\<not> truthy (v_lost_reason silent_evidence)" "\<not> v_parked silent_evidence" "\<not> v_output_growing silent_evidence"
  "\<not> v_turn_ended silent_evidence" "v_observed silent_evidence" "\<not> v_output_unmeasured silent_evidence"
  "v_stream_alive silent_evidence = None"
  by (code_simp | simp add: silent_evidence_def)+

theorem stall_needs_silence_witness:
  "classify silent_evidence 1000 floor_policy = CStalled
   \<and> (\<forall>r \<in> set (eligible_processes (VList [quiet_row])). \<forall>t. timestamp (\<lambda>_. None) r 1000 = Some t \<longrightarrow> 1000 - t \<ge> 60)"
proof
  show c: "classify silent_evidence 1000 floor_policy = CStalled"
    by (simp add: classify_def silent_evidence_flags silent_for_def silent_evidence_activity floor_policy_def)
  show "\<forall>r \<in> set (eligible_processes (VList [quiet_row])). \<forall>t. timestamp (\<lambda>_. None) r 1000 = Some t \<longrightarrow> 1000 - t \<ge> 60"
    using stall_needs_silence [OF silent_evidence_def, where clock = 1000 and p = floor_policy]
    by (simp add: c) (simp add: floor_policy_def policy_ok_def axis_ok_def budget_ok_def)
qed

subsection \<open>Policies\<close>

lemma positive_number_pos: "positive_number v = Some r \<Longrightarrow> r > 0"
  by (cases v) (auto split: option.splits if_splits)

lemma axis_of_ok: "axis_of err name v = Inr r \<Longrightarrow> axis_ok r"
  by (auto simp: axis_of_def axis_ok_def split: if_splits option.splits dest: positive_number_pos)

lemma make_budget_ok: "make_budget a b c = Inr q \<Longrightarrow> budget_ok q"
  by (auto simp: make_budget_def budget_ok_def dest: axis_of_ok)

lemma budget_from_dict_ok: "budget_from_dict v = Inr (Some q) \<Longrightarrow> budget_ok q"
  by (auto simp: budget_from_dict_def split: if_splits dest: make_budget_ok)

lemma smaller_ok: "axis_ok a \<Longrightarrow> axis_ok b \<Longrightarrow> axis_ok (smaller a b)"
  by (cases a; cases b) (auto simp: axis_ok_def)

lemma tightest_ok:
  "budget_ok q \<Longrightarrow> \<forall>q'. b = Some q' \<longrightarrow> budget_ok q' \<Longrightarrow> budget_ok (tightest q b)"
  by (auto simp: tightest_def budget_ok_def intro: smaller_ok split: option.splits)

lemma required_positive_ok: "required_positive name v = Inr r \<Longrightarrow> r > 0"
  by (auto simp: required_positive_def split: option.splits dest: positive_number_pos)

lemma positive_float_pos: "d > 0 \<Longrightarrow> positive_float num_of raw d > 0"
  by (auto simp: positive_float_def env_positive_def split: option.splits dest: positive_number_pos)

lemma policy_from_dict_ok:
  assumes "policy_from_dict v = Inr p"
  shows "policy_ok p"
proof -
  from assms obtain q prog appr where
    b: "budget_from_dict (vget ''budget'' v) = Inr q" and
    g: "(case vfield ''progress_timeout'' v of None \<Rightarrow> Inr default_progress
         | Some x \<Rightarrow> required_positive ''progress_timeout'' x) = Inr prog" and
    a: "(if vget ''approval_timeout'' v = VNone then Inr None
         else ebind (required_positive ''approval_timeout'' (vget ''approval_timeout'' v)) (\<lambda>r. Inr (Some r))) = Inr appr" and
    p: "p = \<lparr>p_progress = prog, p_approval = appr, p_budget = q\<rparr>"
    by (auto simp: policy_from_dict_def Let_def split: if_splits sum.splits)
  have "prog > 0"
    using g by (auto split: option.splits dest: required_positive_ok simp: default_progress_def)
  moreover have "axis_ok appr"
    using a by (auto simp: axis_ok_def split: if_splits dest: required_positive_ok)
  moreover have "\<forall>r. q = Some r \<longrightarrow> budget_ok r"
    using b budget_from_dict_ok by auto
  ultimately show ?thesis
    by (auto simp: policy_ok_def p split: option.splits)
qed

lemma trusted_policy_ok:
  assumes "trusted_policy num_of env = Inr p"
  shows "policy_ok p"
  using assms make_budget_ok
  by (fastforce simp: trusted_policy_def policy_ok_def axis_ok_def Let_def default_progress_def default_approval_def
      intro!: positive_float_pos split: if_splits)

lemma resolve_policy_ok:
  assumes "resolve_policy a b q base = Inr p" "policy_ok base" "\<forall>r. q = Some r \<longrightarrow> budget_ok r"
  shows "policy_ok p"
proof -
  from assms(1) have p: "p = \<lparr>p_progress = min (p_progress base)
                            (case positive_number a of None \<Rightarrow> p_progress base | Some r \<Rightarrow> r),
                     p_approval = smaller (p_approval base) (positive_number b),
                     p_budget = (case q of None \<Rightarrow> p_budget base | Some r \<Rightarrow> Some (tightest r (p_budget base)))\<rparr>"
    by (auto simp: resolve_policy_def split: if_splits)
  have "axis_ok (positive_number b)"
    by (simp add: axis_ok_def positive_number_pos split: option.split)
  with assms(2,3) show ?thesis
    by (simp add: p policy_ok_def positive_number_pos smaller_ok tightest_ok split: option.split)
       (simp add: positive_number_pos smaller_ok tightest_ok split: option.splits)
qed
text \<open>
  C38: every policy the detector can work with is well formed.  Reading a stored policy,
  taking the floor from the environment and merging a request with a well-formed floor
  either raise or give positive timeouts and positive ceilings, so \<open>silent >= timeout\<close> cannot
  hold on a fresh task.
\<close>

theorem policies_well_formed:
  "(policy_from_dict stored = Inr p \<longrightarrow> policy_ok p)
   \<and> (trusted_policy num_of env = Inr base \<longrightarrow> policy_ok base)
   \<and> (trusted_policy num_of env = Inr base \<and> budget_from_dict raw = Inr q
       \<and> resolve_policy progress approval q base = Inr p' \<longrightarrow> policy_ok p')"
proof -
  have "policy_ok p'" if "trusted_policy num_of env = Inr base" "budget_from_dict raw = Inr q"
    "resolve_policy progress approval q base = Inr p'"
  proof (rule resolve_policy_ok [OF that(3) trusted_policy_ok [OF that(1)]])
    show "\<forall>r. q = Some r \<longrightarrow> budget_ok r"
      using that(2) by (auto intro: budget_from_dict_ok)
  qed
  then show ?thesis
    using policy_from_dict_ok trusted_policy_ok by blast
qed

definition sample_env :: "string \<Rightarrow> string option" where
  "sample_env name = (if name = ''SIGHTMESH_MAX_COST'' then Some ''5'' else None)"

definition sample_num :: "string \<Rightarrow> num option" where
  "sample_num s = (if s = ''5'' then Some (PInt 5) else if s = ''0.5'' then Some (PFloat (1/2)) else None)"

theorem policies_well_formed_witness:
  "policy_ok \<lparr>p_progress = 90, p_approval = None, p_budget = None\<rparr>
   \<and> (\<exists>base p'. trusted_policy sample_num sample_env = Inr base
        \<and> resolve_policy (VNum (PInt 90)) VNone None base = Inr p' \<and> policy_ok p' \<and> p_progress p' = 90)"
proof (intro conjI exI)
  have stored: "policy_from_dict (VDict [(''progress_timeout'', VNum (PInt 90))])
                = Inr \<lparr>p_progress = 90, p_approval = None, p_budget = None\<rparr>"
    by (simp add: policy_from_dict_def budget_from_dict_def required_positive_def vget_def)
  let ?base = "\<lparr>p_progress = default_progress, p_approval = Some default_approval,
                p_budget = Some \<lparr>b_turns = None, b_tokens = None, b_cost = Some 5\<rparr>\<rparr>"
  show t: "trusted_policy sample_num sample_env = Inr ?base"
    by (simp add: trusted_policy_def sample_env_def sample_num_def positive_int_or_none_def positive_float_def
        positive_float_or_none_def env_positive_def vint_def vreal_def make_budget_def axis_of_def strip_def
        of_char_def Let_def)
  let ?p = "\<lparr>p_progress = 90, p_approval = Some default_approval,
             p_budget = Some \<lparr>b_turns = None, b_tokens = None, b_cost = Some 5\<rparr>\<rparr>"
  show r: "resolve_policy (VNum (PInt 90)) VNone None ?base = Inr ?p"
    by (simp add: resolve_policy_def default_progress_def)
  from policies_well_formed [of "VDict [(''progress_timeout'', VNum (PInt 90))]"
      "\<lparr>p_progress = 90, p_approval = None, p_budget = None\<rparr>" sample_num sample_env ?base VNone None
      "VNum (PInt 90)" VNone ?p] stored t r
  show "policy_ok \<lparr>p_progress = 90, p_approval = None, p_budget = None\<rparr>" "policy_ok ?p"
    by (simp_all add: budget_from_dict_def)
  show "p_progress ?p = 90" by simp
qed

text \<open>Tightening, axis by axis.\<close>

definition tighter :: "real option \<Rightarrow> real option \<Rightarrow> bool" where
  "tighter a b = (case b of None \<Rightarrow> True | Some r \<Rightarrow> (case a of None \<Rightarrow> False | Some q \<Rightarrow> q \<le> r))"

lemma tighter_refl [simp]: "tighter a a"
  by (simp add: tighter_def split: option.splits)

lemma tighter_smaller [simp]: "tighter (smaller a b) a" "tighter (smaller a b) b"
  by (cases a; cases b; simp add: tighter_def)+

lemma crossed_tighter: "crossed used b \<Longrightarrow> tighter a b \<Longrightarrow> crossed used a"
  by (auto simp: crossed_def tighter_def split: option.splits)

lemma over_budget_tightest: "over_budget v b \<Longrightarrow> over_budget v (Some (tightest q b))"
  by (auto simp: over_budget_def tightest_def split: option.splits intro: crossed_tighter)

lemma classify_tighter:
  assumes "classify v now base \<in> {CStalled, CLimbo}" "p_progress p \<le> p_progress base"
  shows "classify v now p = classify v now base"
  using assms by (auto simp: classify_def split: if_splits option.splits)

text \<open>
  A worker's request can only narrow its own detection.  Whatever the spec asks for, the
  merged policy has a progress timeout and an approval timeout no longer than the floor's,
  everything the floor calls over budget is still over budget, and evidence the floor calls
  stalled or in limbo gets the same verdict.
\<close>

theorem request_only_tightens:
  assumes "resolve_policy progress approval q base = Inr p"
  shows "p_progress p \<le> p_progress base
         \<and> (\<forall>t. p_approval base = Some t \<longrightarrow> effective_approval_timeout p \<le> t)
         \<and> (over_budget v (p_budget base) \<longrightarrow> over_budget v (p_budget p))
         \<and> (classify v now base \<in> {CStalled, CLimbo} \<longrightarrow> classify v now p = classify v now base)"
proof -
  from assms have p: "p = \<lparr>p_progress = min (p_progress base)
                            (case positive_number progress of None \<Rightarrow> p_progress base | Some r \<Rightarrow> r),
                     p_approval = smaller (p_approval base) (positive_number approval),
                     p_budget = (case q of None \<Rightarrow> p_budget base | Some r \<Rightarrow> Some (tightest r (p_budget base)))\<rparr>"
    by (auto simp: resolve_policy_def split: if_splits)
  have le: "p_progress p \<le> p_progress base" by (simp add: p)
  have ap: "\<forall>t. p_approval base = Some t \<longrightarrow> effective_approval_timeout p \<le> t"
    by (cases "positive_number approval") (auto simp: p effective_approval_timeout_def)
  have ov: "over_budget v (p_budget base) \<longrightarrow> over_budget v (p_budget p)"
    by (auto simp: p over_budget_tightest split: option.splits)
  show ?thesis
    using le ap ov classify_tighter [OF _ le] by auto
qed
theorem request_only_tightens_witness:
  "\<exists>p. resolve_policy (VNum (PInt 999999)) (VNum (PInt 864000)) (Some \<lparr>b_turns = Some 100, b_tokens = None, b_cost = None\<rparr>)
          floor_policy = Inr p
       \<and> p_progress p \<le> 60 \<and> effective_approval_timeout p \<le> 30"
proof (intro exI conjI)
  let ?p = "\<lparr>p_progress = 60, p_approval = Some 30, p_budget = Some \<lparr>b_turns = Some 3, b_tokens = None, b_cost = None\<rparr>\<rparr>"
  show r: "resolve_policy (VNum (PInt 999999)) (VNum (PInt 864000)) (Some \<lparr>b_turns = Some 100, b_tokens = None, b_cost = None\<rparr>)
             floor_policy = Inr ?p"
    by (simp add: resolve_policy_def floor_policy_def tightest_def)
  from request_only_tightens [OF r, of no_evidence 0]
  show "p_progress ?p \<le> 60" "effective_approval_timeout ?p \<le> 30"
    by (simp_all add: floor_policy_def)
qed

definition no_ceilings :: budget where
  "no_ceilings = \<lparr>b_turns = None, b_tokens = None, b_cost = None\<rparr>"

lemma map_of_axis_entry:
  "map_of (axis_entry k v) k' = (if k' = k then map_option (\<lambda>r. VNum (PFloat r)) v else None)"
  by (cases v) (auto simp: axis_entry_def)

lemma axis_of_back: "axis_ok v \<Longrightarrow> axis_of err name (vreal v) = Inr v"
  by (cases v) (auto simp: axis_of_def axis_ok_def vreal_def)

lemma budget_axes:
  "vget ''max_turns'' (budget_to_dict b) = vreal (b_turns b)"
  "vget ''max_tokens'' (budget_to_dict b) = vreal (b_tokens b)"
  "vget ''max_cost'' (budget_to_dict b) = vreal (b_cost b)"
  by (cases "b_turns b"; cases "b_tokens b"; cases "b_cost b";
      simp add: budget_to_dict_def axis_entry_def vreal_def)+

lemma axis_entry_Nil [simp]: "axis_entry k v = [] \<longleftrightarrow> v = None"
  by (simp add: axis_entry_def split: option.splits)

lemma budget_back:
  assumes "budget_ok b"
  shows "budget_from_dict (budget_to_dict b) = Inr (if b = no_ceilings then None else Some b)"
proof (cases "b = no_ceilings")
  case False
  then have "b_turns b \<noteq> None \<or> b_tokens b \<noteq> None \<or> b_cost b \<noteq> None"
    by (cases b) (auto simp: no_ceilings_def)
  then have "vtruthy (budget_to_dict b)"
    by (simp add: budget_to_dict_def)
  then show ?thesis
    using assms False
    by (simp add: budget_from_dict_def budget_axes make_budget_def axis_of_back budget_ok_def del: vget_VDict)
       (simp add: budget_to_dict_def)
qed (simp add: budget_from_dict_def budget_to_dict_def no_ceilings_def axis_entry_def)

lemma policy_from_dictI:
  assumes "is_dict v" "budget_from_dict (vget ''budget'' v) = Inr b"
    "b = None \<Longrightarrow> vget ''budget'' v = VNone \<or> vget ''budget'' v = VDict []"
    "vfield ''progress_timeout'' v = Some (VNum (PFloat g))" "g > 0"
    "vget ''approval_timeout'' v = (case a of None \<Rightarrow> VNone | Some r \<Rightarrow> VNum (PFloat r))" "axis_ok a"
  shows "policy_from_dict v = Inr \<lparr>p_progress = g, p_approval = a, p_budget = b\<rparr>"
  unfolding policy_from_dict_def Let_def assms(2,4,6)
  using assms(1,3,5,7) by (cases a) (auto simp: required_positive_def axis_ok_def)

text \<open>
  C36: a stored policy survives the round trip.  Reading back what \<open>to_dict\<close> wrote gives the
  same policy for every well-formed policy; the one exception is a budget without a single
  ceiling, which is written as an empty object and comes back as no budget.
\<close>

theorem policy_roundtrip:
  assumes "policy_ok p"
  shows "policy_from_dict (policy_to_dict p)
         = Inr (if p_budget p = Some no_ceilings then p\<lparr>p_budget := None\<rparr> else p)"
proof -
  have budget: "vget ''budget'' (policy_to_dict p) = (case p_budget p of None \<Rightarrow> VNone | Some b \<Rightarrow> budget_to_dict b)"
    by (simp add: policy_to_dict_def map_add_def map_of_axis_entry split: option.split)
  have again: "budget_from_dict (vget ''budget'' (policy_to_dict p))
              = Inr (if p_budget p = Some no_ceilings then None else p_budget p)"
  proof (cases "p_budget p")
    case (Some b)
    with assms have "budget_ok b" by (simp add: policy_ok_def)
    with Some show ?thesis unfolding budget by (simp add: budget_back)
  qed (simp add: budget budget_from_dict_def)
  have raw: "vget ''budget'' (policy_to_dict p) = VDict []" if "p_budget p = Some no_ceilings"
    unfolding budget that by (simp add: budget_to_dict_def no_ceilings_def axis_entry_def)
  have progress: "vfield ''progress_timeout'' (policy_to_dict p) = Some (VNum (PFloat (p_progress p)))"
    by (simp add: policy_to_dict_def map_add_def map_of_axis_entry split: option.split)
  have approval: "vget ''approval_timeout'' (policy_to_dict p)
                  = (case p_approval p of None \<Rightarrow> VNone | Some r \<Rightarrow> VNum (PFloat r))"
    by (cases "p_approval p"; cases "p_budget p")
       (simp_all add: policy_to_dict_def map_add_def map_of_axis_entry axis_entry_def)
  have d: "is_dict (policy_to_dict p)"
    by (simp add: policy_to_dict_def)
  have "policy_from_dict (policy_to_dict p)
        = Inr \<lparr>p_progress = p_progress p, p_approval = p_approval p,
               p_budget = (if p_budget p = Some no_ceilings then None else p_budget p)\<rparr>"
    using assms raw
    by (intro policy_from_dictI [OF d again _ progress _ approval])
       (auto simp: policy_ok_def budget axis_ok_def split: option.splits if_splits)
  then show ?thesis by simp
qed

theorem policy_roundtrip_witness:
  "policy_from_dict (policy_to_dict floor_policy) = Inr floor_policy"
  using policy_roundtrip [of floor_policy]
  by (simp add: floor_policy_def no_ceilings_def policy_ok_def axis_ok_def budget_ok_def)

text \<open>
  A ceiling below one is accepted as a positive number and then truncated to zero: next to
  another ceiling the floor itself cannot be built, and alone it silently disappears.
\<close>

lemma fractional_ceiling_breaks_floor:
  "trusted_policy sample_num (\<lambda>n. if n = ''SIGHTMESH_MAX_TURNS'' then Some ''0.5''
                                  else if n = ''SIGHTMESH_MAX_COST'' then Some ''5'' else None)
   = Inl (BudgetError ''max_turns'')"
  "map_option p_budget (case trusted_policy sample_num (\<lambda>n. if n = ''SIGHTMESH_MAX_TURNS'' then Some ''0.5'' else None)
     of Inl _ \<Rightarrow> None | Inr p \<Rightarrow> Some p) = Some None"
  by (simp_all add: trusted_policy_def sample_num_def positive_int_or_none_def positive_float_def
        positive_float_or_none_def env_positive_def vint_def vreal_def make_budget_def axis_of_def strip_def
        of_char_def Let_def)

subsection \<open>The current execution\<close>

lemma rank_trans: "rank_less a b \<Longrightarrow> rank_less b c \<Longrightarrow> rank_less a c"
  by (auto simp: rank_less_def)

lemma rank_le_trans: "\<not> rank_less b a \<Longrightarrow> \<not> rank_less c b \<Longrightarrow> \<not> rank_less c a"
  by (auto simp: rank_less_def)

lemma best_of_None [simp]: "best_of key xs = None \<longleftrightarrow> xs = []"
  by (cases xs) (auto split: option.splits)

lemma best_of_mem: "best_of key xs = Some y \<Longrightarrow> y \<in> set xs"
  by (induction xs arbitrary: y) (auto split: option.splits if_splits)

lemma rank_irrefl [simp]: "\<not> rank_less a a"
  by (simp add: rank_less_def)

lemma rank_asym: "rank_less a b \<Longrightarrow> \<not> rank_less b a"
  by (auto simp: rank_less_def)

lemma best_of_max: "best_of key xs = Some y \<Longrightarrow> x \<in> set xs \<Longrightarrow> \<not> rank_less (key y) (key x)"
proof (induction xs arbitrary: y x)
  case (Cons a xs)
  show ?case
  proof (cases "best_of key xs")
    case None
    with Cons.prems show ?thesis by simp
  next
    case (Some b)
    note max = Cons.IH [OF Some]
    show ?thesis
    proof (cases "rank_less (key a) (key b)")
      case True
      with Cons.prems(1) Some have "y = b" by simp
      with Cons.prems(2) max rank_asym [OF True] show ?thesis by auto
    next
      case False
      with Cons.prems(1) Some have "y = a" by simp
      have "\<not> rank_less (key a) (key x)" if "x \<in> set xs"
        by (rule rank_le_trans [OF max [OF that] False])
      with Cons.prems(2) \<open>y = a\<close> show ?thesis by auto
    qed
  qed
qed simp

definition candidates :: "val list \<Rightarrow> val list" where
  "candidates rows = (if filter running_row rows \<noteq> [] then filter running_row rows else rows)"

lemma set_candidates:
  "set (candidates rows) = (if \<exists>r \<in> set rows. running_row r then {r \<in> set rows. running_row r} else set rows)"
  by (auto simp: candidates_def filter_empty_conv)

lemma rank_antisym: "\<not> rank_less a b \<Longrightarrow> \<not> rank_less b a \<Longrightarrow> b = a"
  by (cases a; cases b) (auto simp: rank_less_def)

lemma current_execution_eq:
  "current_execution pystr isotime rows now = best_of (execution_rank pystr isotime now) (candidates rows)"
  by (simp add: current_execution_def candidates_def Let_def)

lemma best_of_rank:
  assumes "best_of key xs = Some c" "best_of key ys = Some c'" "set ys = set xs"
  shows "key c' = key c"
proof (rule rank_antisym)
  show "\<not> rank_less (key c) (key c')"
    using best_of_max [OF assms(1)] best_of_mem [OF assms(2)] assms(3) by simp
  show "\<not> rank_less (key c') (key c)"
    using best_of_max [OF assms(2)] best_of_mem [OF assms(1)] assms(3) by simp
qed

lemma candidates_subset: "c \<in> set (candidates rows) \<Longrightarrow> c \<in> set rows"
  by (simp add: set_candidates split: if_splits)

lemma candidates_running:
  "\<exists>r \<in> set rows. running_row r \<Longrightarrow> c \<in> set (candidates rows) \<Longrightarrow> running_row c"
  by (simp add: set_candidates)

lemma candidates_mem:
  "r \<in> set rows \<Longrightarrow> running_row c \<longrightarrow> running_row r \<Longrightarrow> (\<exists>r \<in> set rows. running_row r \<Longrightarrow> running_row c)
   \<Longrightarrow> r \<in> set (candidates rows)"
  by (simp add: set_candidates)

text \<open>
  Liveness is read from the one right execution.  The chosen row is an eligible row; it is
  running whenever any row is; no candidate has a newer plausible timestamp; and a second
  look at the same rows in any other order chooses a row of the same rank, so two passes
  over an unchanged list agree.
\<close>

theorem current_execution_choice:
  assumes "current_execution pystr isotime rows now = Some c" "set rows' = set rows"
    "current_execution pystr isotime rows' now = Some c'"
  shows "c \<in> set rows
         \<and> ((\<exists>r \<in> set rows. running_row r) \<longrightarrow> running_row c)
         \<and> (\<forall>r \<in> set rows. (running_row c \<longrightarrow> running_row r) \<longrightarrow>
              fst (execution_rank pystr isotime now r) \<le> fst (execution_rank pystr isotime now c))
         \<and> execution_rank pystr isotime now c' = execution_rank pystr isotime now c"
proof (intro conjI ballI impI)
  note b = assms(1,3) [unfolded current_execution_eq]
  from b(1) have m: "c \<in> set (candidates rows)" by (rule best_of_mem)
  then show "c \<in> set rows" by (rule candidates_subset)
  show r: "running_row c" if "\<exists>r \<in> set rows. running_row r"
    using that m by (rule candidates_running)
  fix r assume r: "r \<in> set rows" "running_row c \<longrightarrow> running_row r"
  have "r \<in> set (candidates rows)"
    using r candidates_running [OF _ m] by (rule candidates_mem)
  from best_of_max [OF b(1) this]
  show "fst (execution_rank pystr isotime now r) \<le> fst (execution_rank pystr isotime now c)"
    unfolding rank_less_def by linarith
next
  show "execution_rank pystr isotime now c' = execution_rank pystr isotime now c"
    using assms(1,3) [unfolded current_execution_eq] by (rule best_of_rank) (simp add: set_candidates assms(2))
qed

theorem current_execution_choice_witness:
  "\<exists>c. current_execution (\<lambda>_. []) (\<lambda>_. None) [quiet_row, running_killed_row] 1000 = Some c \<and> running_row c"
proof -
  let ?rows = "[quiet_row, running_killed_row]"
  obtain c where c: "current_execution (\<lambda>_. []) (\<lambda>_. None) ?rows 1000 = Some c"
    by (cases "current_execution (\<lambda>_. []) (\<lambda>_. None) ?rows 1000")
       (auto simp: current_execution_def Let_def split: if_splits option.splits)
  from current_execution_choice [OF c refl c] running_killed_running c show ?thesis by auto
qed

end
