(* ===== verification/Executor.thy ===== *)
theory Executor
  imports Steps Liveness Effects
begin

text \<open>
  The executor client (\<open>cdesktop.py\<close>): what a request to the executor's HTTP service becomes,
  the typed errors routing acts on, the retried and verified send, the fleet-wide list of
  running processes over the new and the old route, the launch requests, the recovery of a
  half-started workspace, the approval stream, the waits for idleness, and what a stopped
  process says of its provider.  The service is a parameter: \<open>cl_net\<close> answers each request
  and moves the service's own state.
\<close>

subsection \<open>Requests and errors\<close>

datatype cerror =
    CFailed string
  | CRejected string "int option" "real option"
  | CInterrupted string "int option" "real option"
  | CPending string "int option" "real option"
  | CTransport string
  | CDelivery string
  | CValue string
  | CJson
  | CKey
  | CType

text \<open>The subclasses of \<open>CdesktopError\<close>; the others are Python's own exceptions.\<close>

fun is_cdesktop_error :: "cerror \<Rightarrow> bool" where
  "is_cdesktop_error (CValue m) = False"
| "is_cdesktop_error CJson = False"
| "is_cdesktop_error CKey = False"
| "is_cdesktop_error CType = False"
| "is_cdesktop_error e = True"

fun error_text :: "cerror \<Rightarrow> string" where
  "error_text (CFailed m) = m"
| "error_text (CRejected m s r) = m"
| "error_text (CInterrupted m s r) = m"
| "error_text (CPending m s r) = m"
| "error_text (CTransport m) = m"
| "error_text (CDelivery m) = m"
| "error_text (CValue m) = m"
| "error_text CJson = []"
| "error_text CKey = []"
| "error_text CType = []"

fun error_status :: "cerror \<Rightarrow> int option" where
  "error_status (CRejected m s r) = s"
| "error_status (CInterrupted m s r) = s"
| "error_status (CPending m s r) = s"
| "error_status e = None"

record http_request =
  hq_method :: string
  hq_path :: string
  hq_query :: "(string \<times> string) list"
  hq_payload :: "val option"
  hq_headers :: "(string \<times> string) list"

text \<open>
  An HTTP error with its body and \<open>Retry-After\<close> header; no connection; a body that is not
  JSON; a body (\<open>None\<close> when it is empty).
\<close>

datatype http_reply = HttpError int string "string option" | Unreachable string | Garbage | HttpBody "val option"

record 'w client =
  cl_base :: string
  cl_now :: real
  cl_num :: "string \<Rightarrow> num option"
  cl_pystr :: "val \<Rightarrow> string"
  cl_fmtg :: "real \<Rightarrow> string"
  cl_iso :: "string \<Rightarrow> real option"
  cl_epoch :: "string \<Rightarrow> real option"
  cl_resolve :: "string \<Rightarrow> string"
  cl_basename :: "string \<Rightarrow> string"
  cl_net :: "http_request \<Rightarrow> 'w \<Rightarrow> http_reply \<times> 'w"

definition rejection_error :: "string \<Rightarrow> int \<Rightarrow> real option \<Rightarrow> cerror" where
  "rejection_error message code retry =
     (if code = 424 then CInterrupted message (Some code) retry
      else if code = 425 then CPending message (Some code) retry
      else if code \<in> {401, 403, 409, 429} then CRejected message (Some code) retry
      else CFailed message)"

definition retry_at :: "'w client \<Rightarrow> string option \<Rightarrow> real option" where
  "retry_at C raw =
     (case raw of
        None \<Rightarrow> None
      | Some s \<Rightarrow>
          (case cl_num C (strip s) of
             None \<Rightarrow> None
           | Some n \<Rightarrow> (case finite_num n of None \<Rightarrow> None | Some r \<Rightarrow> if r \<ge> 0 then Some (cl_now C + r) else None)))"

definition answer_of :: "'w client \<Rightarrow> string \<Rightarrow> string \<Rightarrow> http_reply \<Rightarrow> cerror + val" where
  "answer_of C meth path reply =
     (case reply of
        HttpError code detail after \<Rightarrow>
          Inl (rejection_error (meth @ '' '' @ path @ '' failed: HTTP '' @ show_int code @ '': '' @ detail) code (retry_at C after))
      | Unreachable why \<Rightarrow> Inl (CTransport (''Cannot reach cdesktop at '' @ cl_base C @ '': '' @ why))
      | Garbage \<Rightarrow> Inl CJson
      | HttpBody None \<Rightarrow> Inr VNone
      | HttpBody (Some v) \<Rightarrow>
          if is_dict v \<and> vget ''success'' v = VBool False
          then Inl (CRejected (text_of (cl_pystr C) (vor (vget ''message'' v) v)) None None)
          else (case vfield ''data'' v of Some x \<Rightarrow> Inr x | None \<Rightarrow> Inr v))"

definition request ::
  "'w client \<Rightarrow> string \<Rightarrow> string \<Rightarrow> (string \<times> string) list \<Rightarrow> val option \<Rightarrow> (string \<times> string) list \<Rightarrow> ('w, cerror, val) op" where
  "request C meth path query payload headers w =
     (case cl_net C \<lparr>hq_method = meth, hq_path = path, hq_query = query, hq_payload = payload, hq_headers = headers\<rparr> w of
        (reply, w') \<Rightarrow> (answer_of C meth path reply, w'))"

abbreviation fetch :: "'w client \<Rightarrow> string \<Rightarrow> ('w, cerror, val) op" where
  "fetch C path \<equiv> request C ''GET'' path [] None []"

abbreviation post :: "'w client \<Rightarrow> string \<Rightarrow> val \<Rightarrow> ('w, cerror, val) op" where
  "post C path payload \<equiv> request C ''POST'' path [] (Some payload) []"

text \<open>Python's \<open>for x in v\<close>, \<open>x.get\<close> and \<open>x[k]\<close> on an answer.\<close>

definition items_of :: "val \<Rightarrow> cerror + val list" where
  "items_of v = (case v of VList vs \<Rightarrow> Inr vs | VDict [] \<Rightarrow> Inr [] | VStr [] \<Rightarrow> Inr [] | _ \<Rightarrow> Inl CType)"

definition got :: "string \<Rightarrow> val \<Rightarrow> cerror + val" where
  "got k v = (if is_dict v then Inr (vget k v) else Inl CType)"

definition item_at :: "string \<Rightarrow> val \<Rightarrow> cerror + val" where
  "item_at k v = (if is_dict v then (case vfield k v of None \<Rightarrow> Inl CKey | Some x \<Rightarrow> Inr x) else Inl CType)"

fun vset :: "string \<Rightarrow> val \<Rightarrow> val \<Rightarrow> val" where
  "vset k v (VDict kvs) =
     VDict (if k \<in> fst ` set kvs then map (\<lambda>(c, x). (c, if c = k then v else x)) kvs else kvs @ [(k, v)])"
| "vset k v d = d"

definition vsets :: "(string \<times> val) list \<Rightarrow> val \<Rightarrow> val" where
  "vsets kvs d = foldl (\<lambda>d (k, v). vset k v d) d kvs"

definition listed :: "string \<Rightarrow> val \<Rightarrow> cerror + val list" where
  "listed message v = (case v of VList vs \<Rightarrow> Inr (filter is_dict vs) | _ \<Rightarrow> Inl (CFailed message))"

definition mapped :: "string \<Rightarrow> val \<Rightarrow> cerror + val" where
  "mapped message v = (if is_dict v then Inr v else Inl (CFailed message))"

subsection \<open>Reads\<close>

definition execution_processes :: "'w client \<Rightarrow> string option \<Rightarrow> string option \<Rightarrow> ('w, cerror, val list) op" where
  "execution_processes C session status =
     follow (request C ''GET'' ''/execution-processes''
               ((case session of None \<Rightarrow> [] | Some s \<Rightarrow> [(''session_id'', s)])
                @ (case status of None \<Rightarrow> [] | Some s \<Rightarrow> [(''status'', s)])) None [])
       (\<lambda>v. given (listed ''cdesktop execution process response is not a list'' v))"

definition queue_status :: "'w client \<Rightarrow> string \<Rightarrow> ('w, cerror, val) op" where
  "queue_status C session =
     follow (fetch C (''/sessions/'' @ session @ ''/queue''))
       (\<lambda>v. given (mapped ''cdesktop queue status response is invalid'' v))"

definition session_commands :: "'w client \<Rightarrow> string \<Rightarrow> ('w, cerror, val list) op" where
  "session_commands C session =
     follow (fetch C (''/sessions/'' @ session @ ''/commands''))
       (\<lambda>v. given (listed ''cdesktop command response is not a list'' v))"

definition cancel_command :: "'w client \<Rightarrow> string \<Rightarrow> string \<Rightarrow> ('w, cerror, val) op" where
  "cancel_command C session command =
     follow (request C ''POST'' (''/sessions/'' @ session @ ''/commands/'' @ command @ ''/cancel'') [] None [])
       (\<lambda>v. given (mapped ''cdesktop command cancel response is invalid'' v))"

definition requeue_execution_commands :: "'w client \<Rightarrow> string \<Rightarrow> string \<Rightarrow> ('w, cerror, val) op" where
  "requeue_execution_commands C session process =
     post C (''/sessions/'' @ session @ ''/commands/requeue'') (VDict [(''execution_process_id'', VStr process)])"

definition normalized_snapshot :: "'w client \<Rightarrow> string \<Rightarrow> ('w, cerror, val) op" where
  "normalized_snapshot C process =
     follow (fetch C (''/execution-processes/'' @ process @ ''/normalized-snapshot''))
       (\<lambda>v. given (mapped ''cdesktop normalized snapshot response is invalid'' v))"

definition stop_execution :: "'w client \<Rightarrow> string \<Rightarrow> string option \<Rightarrow> ('w, cerror, val) op" where
  "stop_execution C process key =
     post C (''/execution-processes/'' @ process @ ''/stop'')
       (VDict (if truthy key then [(''dedupe_key'', VStr (the key))] else []))"

definition workspaces :: "'w client \<Rightarrow> ('w, cerror, val) op" where
  "workspaces C = fetch C ''/workspaces''"

definition sessions_of :: "'w client \<Rightarrow> string \<Rightarrow> ('w, cerror, val) op" where
  "sessions_of C workspace = request C ''GET'' ''/sessions'' [(''workspace_id'', workspace)] None []"

definition delete_workspace :: "'w client \<Rightarrow> string \<Rightarrow> ('w, cerror, val) op" where
  "delete_workspace C workspace =
     request C ''DELETE'' (''/workspaces/'' @ workspace)
       [(''delete_remote'', ''false''), (''delete_branches'', ''false'')] None []"

definition stop_workspace :: "'w client \<Rightarrow> string \<Rightarrow> ('w, cerror, val) op" where
  "stop_workspace C workspace = post C (''/workspaces/'' @ workspace @ ''/execution/stop'') (VDict [])"
subsection \<open>Running processes, over the new and the old route\<close>

definition running_route_missing :: "string \<Rightarrow> bool" where
  "running_route_missing m \<longleftrightarrow>
     contains_text ''HTTP 404'' m \<or> contains_text ''HTTP 400'' m \<and> contains_text ''Cannot parse `id`'' m"

text \<open>\<open>rescue m h\<close>: the handler of \<open>except CdesktopError\<close>.\<close>

definition rescue :: "('w, cerror, 'a) op \<Rightarrow> (cerror \<Rightarrow> ('w, cerror, 'a) op) \<Rightarrow> ('w, cerror, 'a) op" where
  "rescue m h w =
     (case m w of (Inr a, w') \<Rightarrow> (Inr a, w') | (Inl e, w') \<Rightarrow> if is_cdesktop_error e then h e w' else (Inl e, w'))"

definition walked_row :: "val \<Rightarrow> val \<Rightarrow> val \<Rightarrow> val" where
  "walked_row ws session process =
     vsets [(''session_id'', vget ''id'' session), (''session_name'', vget ''name'' session),
            (''workspace_id'', vget ''id'' ws), (''workspace_name'', vor (vget ''name'' ws) (vget ''branch'' ws))] process"

definition walk_session :: "'w client \<Rightarrow> val \<Rightarrow> val \<Rightarrow> ('w, cerror, val list) op" where
  "walk_session C ws session =
     follow (given (got ''id'' session)) (\<lambda>sid.
       if \<not> vtruthy sid then give []
       else follow (execution_processes C (Some (text_of (cl_pystr C) sid)) None) (\<lambda>rows.
              give (map (walked_row ws session) (filter (\<lambda>p. vget ''status'' p = VStr ''running'') rows))))"

definition walk_workspace :: "'w client \<Rightarrow> val \<Rightarrow> ('w, cerror, val list) op" where
  "walk_workspace C ws =
     follow (given (got ''id'' ws)) (\<lambda>wid.
       if \<not> vtruthy wid \<or> vtruthy (vget ''archived'' ws) then give []
       else follow (sessions_of C (text_of (cl_pystr C) wid)) (\<lambda>v.
              follow (given (items_of v)) (\<lambda>ss.
                follow (each_op (walk_session C ws) ss) (\<lambda>found. give (concat found)))))"

definition walk_fleet :: "'w client \<Rightarrow> ('w, cerror, val list) op" where
  "walk_fleet C =
     follow (workspaces C) (\<lambda>v.
       follow (given (items_of v)) (\<lambda>wss.
         follow (each_op (walk_workspace C) wss) (\<lambda>found. give (concat found))))"

definition routed_rows :: "val \<Rightarrow> cerror + val list" where
  "routed_rows v =
     (case v of
        VList vs \<Rightarrow>
          if list_all is_dict vs
          then Inr (map (\<lambda>p. vsets [(''status'', VStr ''running''), (''session_name'', vget ''name'' p)] p) vs)
          else Inl (CFailed ''cdesktop running execution response contains a malformed member'')
      | _ \<Rightarrow> Inl (CFailed ''cdesktop running execution response is not a list''))"

definition running_execution_processes :: "'w client \<Rightarrow> ('w, cerror, val list) op" where
  "running_execution_processes C w =
     (case fetch C ''/execution-processes/running'' w of
        (Inr v, w') \<Rightarrow> (routed_rows v, w')
      | (Inl e, w') \<Rightarrow>
          if is_cdesktop_error e \<and> running_route_missing (error_text e) then walk_fleet C w' else (Inl e, w'))"

subsection \<open>Sending\<close>

definition send_transport_retries :: nat where
  "send_transport_retries = 3"

text \<open>The retry loop: the answer, or the message of the last transport failure.\<close>

fun send_attempts :: "('w, cerror, val) op \<Rightarrow> nat \<Rightarrow> string \<Rightarrow> ('w, cerror, string + val) op" where
  "send_attempts try_once 0 heard w = (Inr (Inl heard), w)"
| "send_attempts try_once (Suc n) heard w =
     (case try_once w of
        (Inr v, w') \<Rightarrow> (Inr (Inr v), w')
      | (Inl (CTransport m), w') \<Rightarrow> send_attempts try_once n m w'
      | (Inl e, w') \<Rightarrow> (Inl e, w'))"

definition command_is_queued :: "'w client \<Rightarrow> string \<Rightarrow> string \<Rightarrow> ('w, cerror, bool) op" where
  "command_is_queued C session key =
     rescue (follow (session_commands C session) (\<lambda>rows. give (list_ex (\<lambda>r. vget ''dedupe_key'' r = VStr key) rows)))
            (\<lambda>e. give False)"

definition send_attempt_count :: "string option \<Rightarrow> nat" where
  "send_attempt_count key = (if truthy key then send_transport_retries else 1)"

definition queued_answer :: "val \<Rightarrow> val" where
  "queued_answer v = (if is_dict v \<and> vfield ''delivery'' v = None then vset ''delivery'' (VStr ''queued'') v else v)"

definition undelivered :: "string \<Rightarrow> nat \<Rightarrow> string \<Rightarrow> string \<Rightarrow> cerror" where
  "undelivered session attempts heard key =
     CDelivery (''Follow-up to session '' @ session @ '' could NOT be confirmed queued after '' @ show_nat attempts
       @ '' attempt(s) ('' @ heard @ ''). Retry with the same dedupe_key '' @ key @ ''; it is safe to repeat.'')"

definition send_once ::
  "'w client \<Rightarrow> string \<Rightarrow> string \<Rightarrow> string option \<Rightarrow> string option \<Rightarrow> string \<Rightarrow> ('w, cerror, val) op" where
  "send_once C session prompt sender key intent =
     request C ''POST'' (''/sessions/'' @ session @ ''/follow-up'') []
       (Some (VDict ([(''prompt'', VStr prompt)]
                     @ (if truthy key then [(''dedupe_key'', VStr (the key))] else [])
                     @ [(''intent'', VStr intent)])))
       (if truthy sender then [(''x-cdesktop-from-session'', the sender)] else [])"

definition send ::
  "'w client \<Rightarrow> string \<Rightarrow> string \<Rightarrow> string option \<Rightarrow> string option \<Rightarrow> string \<Rightarrow> ('w, cerror, val) op" where
  "send C session prompt sender key intent =
     follow (send_attempts (send_once C session prompt sender key intent) (send_attempt_count key) ''None'') (\<lambda>r.
       case r of
         Inr v \<Rightarrow> give (queued_answer v)
       | Inl heard \<Rightarrow>
           follow (if truthy key then command_is_queued C session (the key) else give False) (\<lambda>queued.
             if queued then give (VDict [(''delivery'', VStr ''already_queued''), (''dedupe_key'', VStr (the key))])
             else raising (undelivered session (send_attempt_count key) heard
                    (case key of None \<Rightarrow> ''None'' | Some k \<Rightarrow> CHR 0x27 # k @ [CHR 0x27]))))"

subsection \<open>Launch requests\<close>

fun find_repo :: "'w client \<Rightarrow> string \<Rightarrow> val list \<Rightarrow> cerror + val option" where
  "find_repo C resolved [] = Inr None"
| "find_repo C resolved (r # rs) =
     ebind (item_at ''path'' r) (\<lambda>p.
       case p of
         VStr s \<Rightarrow> if cl_resolve C s = resolved then Inr (Some r) else find_repo C resolved rs
       | _ \<Rightarrow> Inl CType)"

definition vopt :: "string option \<Rightarrow> val" where
  "vopt v = (case v of None \<Rightarrow> VNone | Some s \<Rightarrow> VStr s)"

definition setup_fields :: "string option \<Rightarrow> (string \<times> val) list" where
  "setup_fields setup = [(''setup_script'', vopt setup), (''parallel_setup_script'', VBool False)]"

definition register_repo ::
  "'w client \<Rightarrow> string \<Rightarrow> string option \<Rightarrow> string option \<Rightarrow> bool \<Rightarrow> ('w, cerror, val) op" where
  "register_repo C path display setup configure =
     (let resolved = cl_resolve C path in
      follow (fetch C ''/repos'') (\<lambda>v.
        follow (given (ebind (items_of v) (find_repo C resolved))) (\<lambda>known.
          case known of
            Some r \<Rightarrow>
              if configure
              then follow (given (item_at ''id'' r)) (\<lambda>i.
                     request C ''PUT'' (''/repos/'' @ text_of (cl_pystr C) i) [] (Some (VDict (setup_fields setup))) [])
              else give r
          | None \<Rightarrow>
              post C ''/repos''
                (VDict ([(''path'', VStr resolved),
                         (''display_name'', VStr (if truthy display then the display else cl_basename C resolved))]
                        @ (if configure then setup_fields setup else []))))))"

record launch_args =
  la_name :: string
  la_repo :: string
  la_branch :: string
  la_executor :: string
  la_prompt :: string
  la_worktree :: bool
  la_permission :: string
  la_model :: "string option"
  la_reasoning :: "string option"
  la_provider :: "string option"
  la_setup :: "string option"
  la_binding :: "string option"

definition some_text :: "string \<Rightarrow> string option \<Rightarrow> (string \<times> val) list" where
  "some_text k v = (if truthy v then [(k, VStr (the v))] else [])"

definition workspace_launch_request :: "'w client \<Rightarrow> launch_args \<Rightarrow> ('w, cerror, val) op" where
  "workspace_launch_request C a =
     follow (register_repo C (la_repo a) None (la_setup a) (la_worktree a \<and> la_setup a \<noteq> None)) (\<lambda>r.
       follow (given (item_at ''id'' r)) (\<lambda>i.
         give (VDict ([(''name'', VStr (la_name a)),
                       (''repos'', VList [VDict [(''repo_id'', i), (''target_branch'', VStr (la_branch a))]]),
                       (''linked_issue'', VNone),
                       (''executor_config'', VDict ([(''executor'', VStr (la_executor a)), (''permission_policy'', VStr (la_permission a))]
                          @ some_text ''model_id'' (la_model a) @ some_text ''reasoning_id'' (la_reasoning a))),
                       (''prompt'', VStr (la_prompt a)), (''attachment_ids'', VNone),
                       (''use_worktree'', VBool (la_worktree a)), (''selected_provider_id'', vopt (la_provider a))]
                      @ some_text ''auth_binding_id'' (la_binding a)))))"

definition session_launch_request ::
  "string \<Rightarrow> string \<Rightarrow> string option \<Rightarrow> string option \<Rightarrow> string option \<Rightarrow> string option \<Rightarrow> string option \<Rightarrow> string option \<Rightarrow> val" where
  "session_launch_request name prompt executor permission model reasoning provider binding =
     (let config = some_text ''executor'' executor @ some_text ''permission_policy'' permission
                   @ some_text ''model_id'' model @ some_text ''reasoning_id'' reasoning
      in VDict ([(''name'', VStr name), (''prompt'', VStr prompt)]
                @ (if config \<noteq> [] then [(''executor_config'', VDict config)] else [])
                @ some_text ''selected_provider_id'' provider @ some_text ''auth_binding_id'' binding))"

definition managed_launch :: "'w client \<Rightarrow> string \<Rightarrow> int \<Rightarrow> val \<Rightarrow> ('w, cerror, val) op" where
  "managed_launch C tid ep launch =
     (if ep < 1 then raising (CValue ''Task epoch must be positive'')
      else follow (request C ''PUT'' (''/managed-tasks/'' @ tid @ ''/epochs/'' @ show_int ep) [] (Some launch) [])
             (\<lambda>v. given (mapped ''cdesktop managed launch response is invalid'' v)))"

definition managed_effect :: "'w client \<Rightarrow> string \<Rightarrow> int \<Rightarrow> ('w, cerror, val) op" where
  "managed_effect C tid ep =
     follow (fetch C (''/managed-tasks/'' @ tid @ ''/epochs/'' @ show_int ep))
       (\<lambda>v. given (mapped ''cdesktop managed effect response is invalid'' v))"
subsection \<open>Starting a workspace, and what a failed start leaves\<close>

definition new_with_name :: "'w client \<Rightarrow> string \<Rightarrow> string list \<Rightarrow> val \<Rightarrow> bool" where
  "new_with_name C name known item \<longleftrightarrow>
     text_of (cl_pystr C) (vget ''id'' item) \<notin> set known \<and> vget ''name'' item = VStr name"

definition workspace_items :: "'w client \<Rightarrow> ('w, cerror, val list) op" where
  "workspace_items C =
     follow (workspaces C) (\<lambda>v. follow (given (items_of v)) (\<lambda>ws.
       follow (check (list_all is_dict ws) CType) (\<lambda>_. give ws)))"

definition cleanup_failed_start :: "'w client \<Rightarrow> string \<Rightarrow> string list \<Rightarrow> ('w, cerror, string option) op" where
  "cleanup_failed_start C name known =
     follow
       (rescue (follow (workspace_items C) (\<lambda>ws. give (Inr (filter (new_with_name C name known) ws))))
          (\<lambda>e. give (Inl (''could not inspect partial workspace for cleanup: '' @ error_text e))))
       (\<lambda>found.
         case found of
           Inl m \<Rightarrow> give (Some m)
         | Inr [] \<Rightarrow> give None
         | Inr [ws] \<Rightarrow>
             let wid = text_of (cl_pystr C) (vget ''id'' ws) in
             rescue (follow (delete_workspace C wid) (\<lambda>_. give (Some (''native cleanup deleted partial workspace '' @ wid))))
               (\<lambda>e. give (Some (''partial workspace '' @ wid @ '' was not cleaned up: '' @ error_text e)))
         | Inr _ \<Rightarrow> give (Some ''left partial workspace untouched because cleanup was ambiguous''))"

definition spawn_workspace :: "'w client \<Rightarrow> launch_args \<Rightarrow> ('w, cerror, val) op" where
  "spawn_workspace C a =
     follow (workspace_launch_request C a) (\<lambda>payload.
       follow (workspace_items C) (\<lambda>ws.
         rescue (post C ''/workspaces/start'' payload) (\<lambda>e.
           follow (cleanup_failed_start C (la_name a) (map (\<lambda>i. text_of (cl_pystr C) (vget ''id'' i)) ws)) (\<lambda>cleanup.
             if truthy cleanup then raising (CFailed (error_text e @ ''; '' @ the cleanup)) else raising e))))"

subsection \<open>Approvals\<close>

text \<open>\<open>s.replace(ab, c)\<close> for a two-letter \<open>ab\<close>.\<close>

fun replace_pair :: "char \<Rightarrow> char \<Rightarrow> char \<Rightarrow> string \<Rightarrow> string" where
  "replace_pair a b c (x # y # zs) =
     (if x = a \<and> y = b then c # replace_pair a b c zs else x # replace_pair a b c (y # zs))"
| "replace_pair a b c s = s"

definition pending_prefix :: string where
  "pending_prefix = ''/pending/''"

definition approval_id_of :: "string \<Rightarrow> string" where
  "approval_id_of path =
     replace_pair CHR ''~'' CHR ''0'' CHR ''~'' (replace_pair CHR ''~'' CHR ''1'' CHR ''/'' (drop (length pending_prefix) path))"

text \<open>\<open>operation in {"add", "replace"}\<close>: a list or a dictionary cannot be hashed.\<close>

definition puts :: "val \<Rightarrow> cerror + bool" where
  "puts operation =
     (case operation of
        VList vs \<Rightarrow> Inl CType
      | VDict kvs \<Rightarrow> Inl CType
      | v \<Rightarrow> Inr (v = VStr ''add'' \<or> v = VStr ''replace''))"

type_synonym pending = "(string \<times> val) list"

fun put_pending :: "string \<Rightarrow> val \<Rightarrow> pending \<Rightarrow> pending" where
  "put_pending i v [] = [(i, v)]"
| "put_pending i v ((j, u) # p) = (if j = i then (j, v) # p else (j, u) # put_pending i v p)"

definition patch_entry :: "pending \<Rightarrow> string \<Rightarrow> val \<Rightarrow> val \<Rightarrow> cerror + pending" where
  "patch_entry pending i operation value =
     (if operation = VStr ''remove'' then Inr (filter (\<lambda>(j, _). j \<noteq> i) pending)
      else ebind (puts operation) (\<lambda>b. Inr (if b \<and> is_dict value then put_pending i value pending else pending)))"

definition apply_patch :: "pending \<Rightarrow> val \<Rightarrow> cerror + pending" where
  "apply_patch pending patch =
     (if \<not> is_dict patch then Inl CType
      else
        let operation = vget ''op'' patch; value = vget ''value'' patch in
        case vget ''path'' patch of
          VStr path \<Rightarrow>
            if path = ''/pending'' then
              ebind (puts operation) (\<lambda>b.
                if \<not> b then Inr pending
                else case value of
                       VDict kvs \<Rightarrow> Inr (filter (\<lambda>(_, item). is_dict item) kvs)
                     | _ \<Rightarrow> Inl (CFailed ''cdesktop approval snapshot has invalid pending data''))
            else if starts_with pending_prefix path then patch_entry pending (approval_id_of path) operation value
            else Inr pending
        | _ \<Rightarrow> Inr pending)"

fun apply_patches :: "pending \<Rightarrow> val list \<Rightarrow> cerror + pending" where
  "apply_patches pending [] = Inr pending"
| "apply_patches pending (p # ps) = ebind (apply_patch pending p) (\<lambda>pending'. apply_patches pending' ps)"

text \<open>Sorted by creation time and then by id: two stable sorts, the last key first.\<close>

definition approval_order :: "'w client \<Rightarrow> val list \<Rightarrow> val list" where
  "approval_order C items =
     sort_key (\<lambda>i. text_or_empty (cl_pystr C) (vget ''created_at'' i))
       (sort_key (\<lambda>i. text_or_empty (cl_pystr C) (vget ''approval_id'' i)) items)"

text \<open>The messages of the stream until it breaks or the deadline passes, both of which raise.\<close>

fun read_stream :: "'w client \<Rightarrow> pending \<Rightarrow> val list \<Rightarrow> cerror + val list" where
  "read_stream C pending [] = Inl (CFailed ''cdesktop approval stream'')"
| "read_stream C pending (m # ms) =
     (if \<not> is_dict m then Inl CType
      else ebind (case vget ''JsonPatch'' m of VList ps \<Rightarrow> apply_patches pending ps | _ \<Rightarrow> Inr pending) (\<lambda>pending'.
             if vget ''Ready'' m = VBool True then Inr (approval_order C (map snd pending'))
             else read_stream C pending' ms))"

definition pending_approvals :: "'w client \<Rightarrow> val list \<Rightarrow> ('w, cerror, val list) op" where
  "pending_approvals C stream w =
     (case fetch C ''/approvals'' w of
        (Inr v, w') \<Rightarrow> (listed ''cdesktop pending approval response is not a list'' v, w')
      | (Inl e, w') \<Rightarrow> (if is_cdesktop_error e \<or> e = CJson then read_stream C [] stream else Inl e, w'))"

definition respond_to_approval :: "'w client \<Rightarrow> string \<Rightarrow> string \<Rightarrow> bool \<Rightarrow> string option \<Rightarrow> ('w, cerror, val) op" where
  "respond_to_approval C approval process approved reason =
     post C (''/approvals/'' @ approval @ ''/respond'')
       (VDict [(''execution_process_id'', VStr process),
               (''status'', VDict (if approved then [(''status'', VStr ''approved'')]
                 else [(''status'', VStr ''denied''),
                       (''reason'', VStr (if truthy reason then the reason else ''Reviewer denied this request.''))]))])"

subsection \<open>Waiting for idleness\<close>

definition session_running :: "val \<Rightarrow> bool" where
  "session_running p \<longleftrightarrow> vget ''status'' p = VStr ''running'' \<and> vget ''run_reason'' p \<noteq> VStr ''devserver''"

definition wait_for_session_idle :: "'w client \<Rightarrow> (nat \<Rightarrow> nat) \<Rightarrow> string \<Rightarrow> real \<Rightarrow> ('w, cerror, val list) op" where
  "wait_for_session_idle C lag session timeout =
     await SessionNap timeout lag
       (\<lambda>i. follow (execution_processes C (Some session) None) (\<lambda>rows.
              give (if filter session_running rows = [] then Some rows else None)))
       (CFailed (''Session '' @ session @ '' did not stop within '' @ cl_fmtg C timeout
                 @ '' seconds; the steering follow-up was not sent''))
       0 0"

definition workspace_summaries :: "'w client \<Rightarrow> bool \<Rightarrow> ('w, cerror, val list) op" where
  "workspace_summaries C archived =
     follow (post C ''/workspaces/summaries'' (VDict [(''archived'', VBool archived)])) (\<lambda>v.
       give (case vget ''summaries'' v of VList vs \<Rightarrow> vs | _ \<Rightarrow> []))"

fun find_summary :: "string \<Rightarrow> val list \<Rightarrow> cerror + val option" where
  "find_summary workspace [] = Inr None"
| "find_summary workspace (s # ss) =
     ebind (got ''workspace_id'' s) (\<lambda>i. if i = VStr workspace then Inr (Some s) else find_summary workspace ss)"

definition wait_for_workspace_idle :: "'w client \<Rightarrow> (nat \<Rightarrow> nat) \<Rightarrow> string \<Rightarrow> real \<Rightarrow> ('w, cerror, val) op" where
  "wait_for_workspace_idle C lag workspace timeout =
     await WorkspaceNap timeout lag
       (\<lambda>i. follow (workspace_summaries C False) (\<lambda>ss.
              follow (given (find_summary workspace ss)) (\<lambda>found.
                case found of
                  None \<Rightarrow> raising (CFailed (''Workspace '' @ workspace @ '' is not active in cdesktop''))
                | Some s \<Rightarrow> give (if vget ''latest_process_status'' s \<noteq> VStr ''running'' then Some s else None))))
       (CFailed (''Workspace '' @ workspace @ '' did not stop within '' @ cl_fmtg C timeout
                 @ '' seconds; the follow-up was not sent''))
       0 0"

subsection \<open>What a stopped process says\<close>

definition process_failure_statuses :: "string set" where
  "process_failure_statuses = {''failed'', ''killed''}"

definition outcome_class :: "string \<Rightarrow> string option" where
  "outcome_class c =
     (if c = ''quota_exhausted'' \<or> c = ''rate_limited_transient'' then Some ''rate_limited''
      else if c = ''auth_expired'' \<or> c = ''auth_invalid'' then Some ''auth'' else None)"

definition float_of :: "'w client \<Rightarrow> val \<Rightarrow> num option" where
  "float_of C v =
     (case v of VNum n \<Rightarrow> Some n | VStr s \<Rightarrow> cl_num C s | VBool b \<Rightarrow> Some (PInt (if b then 1 else 0)) | _ \<Rightarrow> None)"

definition outcome_reset :: "'w client \<Rightarrow> val \<Rightarrow> real option" where
  "outcome_reset C outcome =
     (case vget ''resets_at'' outcome of
        VStr s \<Rightarrow> cl_epoch C s
      | _ \<Rightarrow>
          (case vfield ''retry_after_seconds'' outcome of
             None \<Rightarrow> None
           | Some v \<Rightarrow>
               (case float_of C v of
                  None \<Rightarrow> None
                | Some n \<Rightarrow> (case finite_num n of None \<Rightarrow> None | Some r \<Rightarrow> if r \<ge> 0 then Some (cl_now C + r) else None))))"

definition process_provider_outcome :: "'w client \<Rightarrow> val \<Rightarrow> string option \<times> real option" where
  "process_provider_outcome C process =
     (let outcome = (case vget ''outcome'' process of VStr s \<Rightarrow> VDict [(''class'', VStr s)] | v \<Rightarrow> v) in
      if \<not> is_dict outcome then (None, None)
      else case outcome_class (text_or_empty (cl_pystr C) (vget ''class'' outcome)) of
             None \<Rightarrow> (None, None)
           | Some r \<Rightarrow> (Some r, outcome_reset C outcome))"

definition process_failure_reason :: "'w client \<Rightarrow> val \<Rightarrow> string" where
  "process_failure_reason C process =
     (let status = text_of (cl_pystr C) (vor (vget ''status'' process) (VStr ''failed''));
          outcome = vget ''outcome'' process;
          detail = text_or_empty (cl_pystr C) (if is_dict outcome then vget ''class'' outcome else outcome);
          code = vget ''exit_code'' process;
          parts = filter (\<lambda>p. p \<noteq> []) [take 64 detail, if vtruthy code then ''exit '' @ text_of (cl_pystr C) code else []]
      in ''worker process '' @ status @ (if parts \<noteq> [] then '' ('' @ join_with '', '' parts @ '')'' else []))"

definition execution_process_event_time :: "'w client \<Rightarrow> val \<Rightarrow> real option" where
  "execution_process_event_time C process =
     (case vor (vor (vor (vget ''completed_at'' process) (vget ''updated_at'' process)) (vget ''started_at'' process))
               (vget ''created_at'' process) of
        VStr s \<Rightarrow> cl_iso C s
      | _ \<Rightarrow> None)"

text \<open>\<open>datetime.min\<close> in UTC, before every time a row can carry.\<close>

definition datetime_min :: real where
  "datetime_min = - 62135596800"

definition event_rank :: "'w client \<Rightarrow> val \<Rightarrow> real \<times> string" where
  "event_rank C process =
     (case execution_process_event_time C process of None \<Rightarrow> datetime_min | Some t \<Rightarrow> t,
      text_or_empty (cl_pystr C) (vget ''id'' process))"

definition latest_execution_process :: "'w client \<Rightarrow> val list \<Rightarrow> val option" where
  "latest_execution_process C rows =
     best_of (event_rank C)
       (filter (\<lambda>p. \<not> vtruthy (vget ''dropped'' p) \<and> vget ''run_reason'' p \<noteq> VStr ''devserver'') rows)"
subsection \<open>Exchanges with the service\<close>

text \<open>The same client with a log of its requests and their replies.\<close>

type_synonym exchange = "http_request \<times> http_reply"

definition logged :: "'w client \<Rightarrow> ('w \<times> exchange list) client" where
  "logged C = \<lparr>cl_base = cl_base C, cl_now = cl_now C, cl_num = cl_num C, cl_pystr = cl_pystr C, cl_fmtg = cl_fmtg C,
     cl_iso = cl_iso C, cl_epoch = cl_epoch C, cl_resolve = cl_resolve C, cl_basename = cl_basename C,
     cl_net = (\<lambda>q (w, tr). case cl_net C q w of (reply, w') \<Rightarrow> (reply, (w', tr @ [(q, reply)])))\<rparr>"

lemma logged_fields [simp]:
  "cl_base (logged C) = cl_base C" "cl_now (logged C) = cl_now C" "cl_num (logged C) = cl_num C"
  "cl_pystr (logged C) = cl_pystr C" "cl_fmtg (logged C) = cl_fmtg C" "cl_resolve (logged C) = cl_resolve C"
  by (simp_all add: logged_def)

lemma logged_net: "cl_net (logged C) q (w, tr) = (case cl_net C q w of (reply, w') \<Rightarrow> (reply, (w', tr @ [(q, reply)])))"
  by (simp add: logged_def)

lemma answer_logged [simp]: "answer_of (logged C) m p reply = answer_of C m p reply"
  by (simp add: answer_of_def retry_at_def split: http_reply.split option.split)

lemma request_logged:
  assumes "request (logged C) m p q b h (w, tr) = (res, (w', tr'))"
  obtains reply where "cl_net C \<lparr>hq_method = m, hq_path = p, hq_query = q, hq_payload = b, hq_headers = h\<rparr> w = (reply, w')"
    "res = answer_of C m p reply"
    "tr' = tr @ [(\<lparr>hq_method = m, hq_path = p, hq_query = q, hq_payload = b, hq_headers = h\<rparr>, reply)]"
  using assms by (auto simp: request_def logged_net split: prod.splits)

lemma request_logged_length: "length (snd (snd (request (logged C) m p q b h s))) = length (snd s) + 1"
  by (cases s) (simp add: request_def logged_net split: prod.split)

lemma http_request_eta [simp]:
  "\<lparr>hq_method = hq_method q, hq_path = hq_path q, hq_query = hq_query q, hq_payload = hq_payload q, hq_headers = hq_headers q\<rparr> = q"
  by (cases q) simp

lemma transport_iff: "answer_of C m p reply = Inl (CTransport t) \<longleftrightarrow> (\<exists>why. reply = Unreachable why
    \<and> t = ''Cannot reach cdesktop at '' @ cl_base C @ '': '' @ why)"
  by (auto simp: answer_of_def rejection_error_def split: http_reply.split option.split)

definition unreached :: "exchange \<Rightarrow> bool" where
  "unreached x \<longleftrightarrow> (\<exists>why. snd x = Unreachable why)"

text \<open>The loop repeats one request; only its last reply can be an answer.\<close>

lemma send_attempts_log:
  fixes q :: http_request
  defines "once \<equiv> \<lambda>C. request C (hq_method q) (hq_path q) (hq_query q) (hq_payload q) (hq_headers q)"
  assumes "send_attempts (once (logged C)) n heard (w, tr) = (res, (w', tr'))"
  shows "\<exists>xs. tr' = tr @ xs \<and> length xs \<le> n \<and> (\<forall>x \<in> set xs. fst x = q) \<and>
    (case res of
       Inr (Inl m) \<Rightarrow> length xs = n \<and> (\<forall>x \<in> set xs. unreached x)
     | Inr (Inr v) \<Rightarrow> xs \<noteq> [] \<and> answer_of C (hq_method q) (hq_path q) (snd (List.last xs)) = Inr v
     | Inl e \<Rightarrow> xs \<noteq> [] \<and> answer_of C (hq_method q) (hq_path q) (snd (List.last xs)) = Inl e \<and> (\<forall>m. e \<noteq> CTransport m))"
  using assms(2)
proof (induction n arbitrary: heard w tr)
  case 0
  then show ?case by auto
next
  case (Suc n)
  obtain r w1 tr1 where r: "once (logged C) (w, tr) = (r, (w1, tr1))" by (metis prod.exhaust)
  from request_logged [OF this [unfolded once_def]] obtain reply where
    ans: "r = answer_of C (hq_method q) (hq_path q) reply" and tr1: "tr1 = tr @ [(q, reply)]" unfolding http_request_eta .
  show ?case
  proof (cases "\<exists>m. r = Inl (CTransport m)")
    case True
    then obtain m where m: "r = Inl (CTransport m)" by blast
    with Suc.prems r have "send_attempts (once (logged C)) n m (w1, tr1) = (res, (w', tr'))" by simp
    from Suc.IH [OF this] obtain ys where ys: "tr' = tr1 @ ys" "length ys \<le> n" "\<forall>x \<in> set ys. fst x = q"
      "case res of
       Inr (Inl m) \<Rightarrow> length ys = n \<and> (\<forall>x \<in> set ys. unreached x)
     | Inr (Inr v) \<Rightarrow> ys \<noteq> [] \<and> answer_of C (hq_method q) (hq_path q) (snd (List.last ys)) = Inr v
     | Inl e \<Rightarrow> ys \<noteq> [] \<and> answer_of C (hq_method q) (hq_path q) (snd (List.last ys)) = Inl e \<and> (\<forall>m. e \<noteq> CTransport m)"
      by blast
    from m ans have "unreached (q, reply)" by (auto simp: transport_iff unreached_def)
    with ys tr1 show ?thesis
      by (intro exI [of _ "(q, reply) # ys"]) (auto split: sum.splits)
  next
    case False
    then have "send_attempts (once (logged C)) (Suc n) heard (w, tr)
        = (case r of Inr v \<Rightarrow> (Inr (Inr v), (w1, tr1)) | Inl e \<Rightarrow> (Inl e, (w1, tr1)))"
      using r by (auto split: sum.split cerror.split)
    with Suc.prems False ans tr1 show ?thesis
      by (intro exI [of _ "[(q, reply)]"]) (auto split: sum.splits)
  qed
qed
lemma session_commands_logged:
  assumes "session_commands (logged C) s (w, tr) = (res, (w', tr'))"
  obtains reply where "tr' = tr @ [(\<lparr>hq_method = ''GET'', hq_path = ''/sessions/'' @ s @ ''/commands'', hq_query = [],
       hq_payload = None, hq_headers = []\<rparr>, reply)]"
    "res = (case answer_of C ''GET'' (''/sessions/'' @ s @ ''/commands'') reply of
       Inl e \<Rightarrow> Inl e | Inr v \<Rightarrow> listed ''cdesktop command response is not a list'' v)"
proof -
  let ?p = "''/sessions/'' @ s @ ''/commands''"
  obtain r w1 tr1 where r: "fetch (logged C) ?p (w, tr) = (r, (w1, tr1))" by (metis prod.exhaust)
  from request_logged [OF this] obtain reply where
    "r = answer_of C ''GET'' ?p reply" "tr1 = tr @ [(\<lparr>hq_method = ''GET'', hq_path = ?p, hq_query = [],
       hq_payload = None, hq_headers = []\<rparr>, reply)]" by blast
  with assms r that [of reply] show thesis
    by (auto simp: session_commands_def follow_def split: sum.splits)
qed

definition follow_up :: "string \<Rightarrow> string \<Rightarrow> string option \<Rightarrow> string option \<Rightarrow> string \<Rightarrow> http_request" where
  "follow_up session prompt sender key intent =
     \<lparr>hq_method = ''POST'', hq_path = ''/sessions/'' @ session @ ''/follow-up'', hq_query = [],
      hq_payload = Some (VDict ([(''prompt'', VStr prompt)]
                     @ (if truthy key then [(''dedupe_key'', VStr (the key))] else [])
                     @ [(''intent'', VStr intent)])),
      hq_headers = (if truthy sender then [(''x-cdesktop-from-session'', the sender)] else [])\<rparr>"

definition shows_command :: "'w client \<Rightarrow> string \<Rightarrow> string \<Rightarrow> exchange \<Rightarrow> bool" where
  "shows_command C session key x \<longleftrightarrow>
     hq_method (fst x) = ''GET'' \<and> hq_path (fst x) = ''/sessions/'' @ session @ ''/commands''
     \<and> (\<exists>vs. answer_of C ''GET'' (hq_path (fst x)) (snd x) = Inr (VList vs)
          \<and> (\<exists>row \<in> set vs. is_dict row \<and> vget ''dedupe_key'' row = VStr key))"

lemma command_is_queued_logged:
  assumes "command_is_queued (logged C) s k (w, tr) = (res, (w', tr'))"
  shows "\<exists>x. tr' = tr @ [x] \<and> (case res of Inl e \<Rightarrow> \<not> is_cdesktop_error e | Inr b \<Rightarrow> b \<longleftrightarrow> shows_command C s k x)"
proof -
  obtain r w1 tr1 where r: "session_commands (logged C) s (w, tr) = (r, (w1, tr1))" by (metis prod.exhaust)
  from session_commands_logged [OF this] obtain reply where
    tr1: "tr1 = tr @ [(\<lparr>hq_method = ''GET'', hq_path = ''/sessions/'' @ s @ ''/commands'', hq_query = [],
       hq_payload = None, hq_headers = []\<rparr>, reply)]"
    and res: "r = (case answer_of C ''GET'' (''/sessions/'' @ s @ ''/commands'') reply of
       Inl e \<Rightarrow> Inl e | Inr v \<Rightarrow> listed ''cdesktop command response is not a list'' v)" by blast
  from assms r have "tr' = tr1" and b: "res = (case r of Inl e \<Rightarrow> if is_cdesktop_error e then Inr False else Inl e
      | Inr rows \<Rightarrow> Inr (list_ex (\<lambda>r. vget ''dedupe_key'' r = VStr k) rows))"
    by (auto simp: command_is_queued_def rescue_def follow_def split: sum.splits if_splits)
  with tr1 show ?thesis
    by (auto simp: b res shows_command_def listed_def list_ex_iff split: sum.splits val.splits if_splits)
qed

text \<open>A send is a series of posts, which ends in an answer, in an error, or without a reply.\<close>

lemma send_cases:
  assumes "send (logged C) session prompt sender key intent (w, []) = (res, (w', tr))"
  defines "q \<equiv> follow_up session prompt sender key intent"
  obtains (raised) e where "res = Inl e" "\<forall>m. e \<noteq> CDelivery m" "length tr \<le> send_attempt_count key" "\<forall>x \<in> set tr. fst x = q"
    | (answered) v where "res = Inr (queued_answer v)" "tr \<noteq> []" "answer_of C ''POST'' (hq_path q) (snd (last tr)) = Inr v"
        "length tr \<le> send_attempt_count key" "\<forall>x \<in> set tr. fst x = q"
    | (silent) posts w1 m where "length posts = send_attempt_count key" "\<forall>x \<in> set posts. fst x = q" "list_all unreached posts"
        "if truthy key
         then \<exists>b. command_is_queued (logged C) session (the key) (w1, posts) = (b, (w', tr))
                \<and> (case b of Inl e \<Rightarrow> res = Inl e
                    | Inr b \<Rightarrow> if b then \<exists>v. res = Inr v else res = Inl (CDelivery m))
         else tr = posts \<and> res = Inl (CDelivery m)"
proof -
  let ?once = "\<lambda>C. request C (hq_method q) (hq_path q) (hq_query q) (hq_payload q) (hq_headers q)"
  obtain r w1 tr1 where r: "send_attempts (?once (logged C)) (send_attempt_count key) ''None'' (w, []) = (r, (w1, tr1))"
    by (metis prod.exhaust)
  from send_attempts_log [OF r] have
    tr1: "length tr1 \<le> send_attempt_count key" "\<forall>x \<in> set tr1. fst x = q"
    and out: "case r of
       Inr (Inl m) \<Rightarrow> length tr1 = send_attempt_count key \<and> (\<forall>x \<in> set tr1. unreached x)
     | Inr (Inr v) \<Rightarrow> tr1 \<noteq> [] \<and> answer_of C (hq_method q) (hq_path q) (snd (last tr1)) = Inr v
     | Inl e \<Rightarrow> tr1 \<noteq> [] \<and> answer_of C (hq_method q) (hq_path q) (snd (last tr1)) = Inl e \<and> (\<forall>m. e \<noteq> CTransport m)"
    by auto
  have once: "send_once (logged C) session prompt sender key intent = ?once (logged C)" "hq_method q = ''POST''"
    by (simp_all add: send_once_def q_def follow_up_def)
  consider e where "r = Inl e" | v where "r = Inr (Inr v)" | m where "r = Inr (Inl m)"
    by (metis sum.exhaust)
  then show thesis
  proof cases
    case (1 e)
    have "e \<noteq> CDelivery m" for m
      using out 1 by (auto simp: answer_of_def rejection_error_def split: http_reply.splits option.splits if_splits)
    with assms(1) r 1 once tr1 raised show ?thesis by (auto simp: send_def follow_def)
  next
    case (2 v)
    with assms(1) r once tr1 out answered show ?thesis by (auto simp: send_def follow_def)
  next
    case (3 m)
    with assms(1) r once tr1 out show ?thesis
      by (intro silent [of tr1 w1]) (auto simp: send_def follow_def undelivered_def list_all_iff split: prod.splits sum.splits if_splits)
  qed
qed

text \<open>A service that never answers a post, and lists one command.\<close>

definition sample_client :: "(http_request \<Rightarrow> nat \<Rightarrow> http_reply \<times> nat) \<Rightarrow> nat client" where
  "sample_client net = \<lparr>cl_base = ''http://x'', cl_now = 0, cl_num = (\<lambda>_. None), cl_pystr = (\<lambda>_. []), cl_fmtg = (\<lambda>_. []),
     cl_iso = (\<lambda>_. None), cl_epoch = (\<lambda>_. None), cl_resolve = id, cl_basename = id, cl_net = net\<rparr>"

definition deaf_service :: "http_request \<Rightarrow> nat \<Rightarrow> http_reply \<times> nat" where
  "deaf_service q n =
     (if hq_method q = ''POST'' then (Unreachable ''timeout'', n + 1)
      else (HttpBody (Some (VList [VDict [(''dedupe_key'', VStr ''k'')]])), n))"

lemma deaf_send:
  "send (logged (sample_client deaf_service)) ''s'' ''go'' None (Some ''k'') ''continue'' (0, [])
   = (Inr (VDict [(''delivery'', VStr ''already_queued''), (''dedupe_key'', VStr ''k'')]),
      (3, replicate 3 (follow_up ''s'' ''go'' None (Some ''k'') ''continue'', Unreachable ''timeout'')
          @ [(\<lparr>hq_method = ''GET'', hq_path = ''/sessions/s/commands'', hq_query = [], hq_payload = None, hq_headers = []\<rparr>,
              HttpBody (Some (VList [VDict [(''dedupe_key'', VStr ''k'')]])))]))"
  by (simp add: send_def send_once_def send_attempt_count_def send_transport_retries_def follow_def request_def logged_net
      sample_client_def deaf_service_def answer_of_def truthy_def command_is_queued_def rescue_def session_commands_def
      listed_def follow_up_def numeral_3_eq_3)


subsection \<open>The cleanup after a failed start\<close>

lemma workspace_items_run:
  "workspaces C w = (r, w1) \<Longrightarrow> workspace_items C w
     = (ebind r (\<lambda>v. ebind (items_of v) (\<lambda>ws. if list_all is_dict ws then Inr ws else Inl CType)), w1)"
  by (auto simp: workspace_items_def follow_def check_def split: sum.split)

lemma items_of_Cons: "items_of v = Inr (x # xs) \<longleftrightarrow> v = VList (x # xs)"
  by (auto simp: items_of_def split: val.splits list.splits)

lemma cleanup_cases:
  assumes "workspace_items C w = (q, w1)" and "cleanup_failed_start C name known w = (res, w')"
  shows "w' = w1 \<or> (\<exists>ws item. q = Inr ws \<and> filter (new_with_name C name known) ws = [item]
    \<and> w' = snd (delete_workspace C (text_of (cl_pystr C) (vget ''id'' item)) w1))"
proof (cases q)
  case (Inl e)
  with assms show ?thesis by (auto simp: cleanup_failed_start_def follow_def rescue_def split: if_splits)
next
  case (Inr ws)
  show ?thesis
  proof (cases "filter (new_with_name C name known) ws")
    case Nil
    with Inr assms show ?thesis by (auto simp: cleanup_failed_start_def follow_def rescue_def)
  next
    case (Cons item rest)
    with Inr assms show ?thesis
      by (cases rest) (auto simp: cleanup_failed_start_def follow_def rescue_def Let_def split: prod.splits sum.splits if_splits)
  qed
qed


definition half_started :: "http_request \<Rightarrow> nat \<Rightarrow> http_reply \<times> nat" where
  "half_started q n =
     (if hq_method q = ''GET'' then (HttpBody (Some (VList [VDict [(''id'', VStr ''w2''), (''name'', VStr ''k'')]])), n)
      else (HttpBody None, n + 1))"


subsection \<open>The approval stream\<close>

text \<open>What one patch does to one approval: nothing, forget it, or give it a value.\<close>

definition patch_effect :: "string \<Rightarrow> val \<Rightarrow> val option \<Rightarrow> val option" where
  "patch_effect i patch cur =
     (case vget ''path'' patch of
        VStr path \<Rightarrow>
          if path = ''/pending'' then
            (if vget ''op'' patch \<in> {VStr ''add'', VStr ''replace''}
             then (case vget ''value'' patch of VDict kvs \<Rightarrow> map_of (filter (\<lambda>(_, item). is_dict item) kvs) i | _ \<Rightarrow> None)
             else cur)
          else if starts_with pending_prefix path \<and> approval_id_of path = i then
            (if vget ''op'' patch = VStr ''remove'' then None
             else if vget ''op'' patch \<in> {VStr ''add'', VStr ''replace''} \<and> is_dict (vget ''value'' patch)
             then Some (vget ''value'' patch) else cur)
          else cur
      | _ \<Rightarrow> cur)"

lemma map_of_put [simp]: "map_of (put_pending i v p) j = (if j = i then Some v else map_of p j)"
  by (induction i v p rule: put_pending.induct) auto

lemma map_of_drop: "map_of (filter (\<lambda>(j, _). j \<noteq> i) p) k = (if k = i then None else map_of p k)"
  by (induction p) auto

lemma puts_Inr: "puts operation = Inr b \<longleftrightarrow> (\<forall>vs. operation \<noteq> VList vs) \<and> (\<forall>kvs. operation \<noteq> VDict kvs)
    \<and> b = (operation = VStr ''add'' \<or> operation = VStr ''replace'')"
  by (auto simp: puts_def split: val.splits)

lemma patch_entry_effect:
  "patch_entry p i operation value = Inr p' \<Longrightarrow> map_of p' j =
     (if j \<noteq> i then map_of p j else if operation = VStr ''remove'' then None
      else if operation \<in> {VStr ''add'', VStr ''replace''} \<and> is_dict value then Some value else map_of p j)"
  by (auto simp: patch_entry_def map_of_drop puts_Inr split: if_splits)

lemma snapshot_effect:
  assumes "ebind (puts operation) (\<lambda>b. if \<not> b then Inr p
      else case value of VDict kvs \<Rightarrow> Inr (filter (\<lambda>(_, item). is_dict item) kvs) | _ \<Rightarrow> Inl e) = Inr p'"
  shows "map_of p' i = (if operation \<in> {VStr ''add'', VStr ''replace''}
    then (case value of VDict kvs \<Rightarrow> map_of (filter (\<lambda>(_, item). is_dict item) kvs) i | _ \<Rightarrow> None) else map_of p i)"
  using assms by (cases "value") (auto simp: puts_Inr split: if_splits)

lemma apply_patch_effect:
  assumes "apply_patch p patch = Inr p'"
  shows "map_of p' i = patch_effect i patch (map_of p i)"
proof (cases "vget ''path'' patch")
  case (VStr path)
  consider "path = ''/pending''" | "path \<noteq> ''/pending''" "starts_with pending_prefix path"
    | "path \<noteq> ''/pending''" "\<not> starts_with pending_prefix path" by blast
  then show ?thesis
  proof cases
    case 1
    with assms VStr have "ebind (puts (vget ''op'' patch)) (\<lambda>b. if \<not> b then Inr p else case vget ''value'' patch of
        VDict kvs \<Rightarrow> Inr (filter (\<lambda>(_, item). is_dict item) kvs)
      | _ \<Rightarrow> Inl (CFailed ''cdesktop approval snapshot has invalid pending data'')) = Inr p'"
      by (simp add: apply_patch_def Let_def del: ebind_eq_Inr split: if_splits)
    from snapshot_effect [OF this] 1 VStr show ?thesis by (simp add: patch_effect_def)
  next
    case 2
    with assms VStr have "patch_entry p (approval_id_of path) (vget ''op'' patch) (vget ''value'' patch) = Inr p'"
      by (simp add: apply_patch_def Let_def split: if_splits)
    from patch_entry_effect [OF this, of i] 2 VStr show ?thesis by (simp add: patch_effect_def)
  next
    case 3
    with assms VStr show ?thesis by (simp add: apply_patch_def Let_def patch_effect_def split: if_splits)
  qed
qed (use assms in \<open>simp_all add: apply_patch_def patch_effect_def Let_def split: if_splits\<close>)

text \<open>
  The pending approvals are those the stream says.  After any series of patches the client
  holds, for every approval id, exactly what the patches taken one by one leave of it: a
  snapshot replaces everything, an addition or replacement sets its own entry, a removal
  forgets its own entry, and every other patch changes nothing.
\<close>

theorem patches_track_each_approval:
  assumes "apply_patches pending patches = Inr pending'"
  shows "map_of pending' i = foldl (\<lambda>cur patch. patch_effect i patch cur) (map_of pending i) patches"
  using assms by (induction pending patches rule: apply_patches.induct) (auto simp: apply_patch_effect)

theorem patches_track_each_approval_witness:
  "\<exists>p. apply_patches [(''a'', VDict [])]
         [VDict [(''op'', VStr ''add''), (''path'', VStr ''/pending/b~1c''), (''value'', VDict [])],
          VDict [(''op'', VStr ''remove''), (''path'', VStr ''/pending/a'')]] = Inr p
     \<and> map_of p ''b/c'' = Some (VDict []) \<and> map_of p ''a'' = None"
proof -
  have run: "apply_patches [(''a'', VDict [])]
         [VDict [(''op'', VStr ''add''), (''path'', VStr ''/pending/b~1c''), (''value'', VDict [])],
          VDict [(''op'', VStr ''remove''), (''path'', VStr ''/pending/a'')]] = Inr [(''b/c'', VDict [])]"
    by (simp add: apply_patch_def patch_entry_def puts_def approval_id_of_def pending_prefix_def Let_def)
  from patches_track_each_approval [OF run, of "''a''"] patches_track_each_approval [OF run, of "''b/c''"] run
  show ?thesis by (auto simp: patch_effect_def approval_id_of_def pending_prefix_def)
qed

subsection \<open>Rows that run\<close>

lemma map_of_set: "map_of (map (\<lambda>(c, x). (c, if c = k then v else x)) xs) c
      = (if c = k \<and> k \<in> fst ` set xs then Some v else map_of xs c)"
proof (induction xs)
  case (Cons y ys)
  obtain a b where y: "y = (a, b)" by fastforce
  show ?case using Cons.IH by (cases "a = k"; cases "c = k"; cases "a = c") (simp_all add: y)
qed simp

lemma vget_vset: "is_dict d \<Longrightarrow> vget c (vset k v d) = (if c = k then v else vget c d)"
proof (cases d)
  case (VDict kvs)
  show ?thesis
  proof (cases "k \<in> fst ` set kvs")
    case True
    then show ?thesis by (simp add: VDict map_of_set)
  next
    case False
    then have n: "map_of kvs k = None" by (simp add: map_of_eq_None_iff)
    show ?thesis 
    proof (cases "c = k")
      case True with False n show ?thesis by (simp add: VDict map_add_def)
    next
     case c: False 
     with False show ?thesis by (simp add: VDict map_add_def split: option.split)
    qed
  qed
qed simp_all
lemma is_dict_vset [simp]: "is_dict (vset k v d) = is_dict d"
  by (cases d) simp_all

lemma vsets_simps [simp]: "vsets [] d = d" "vsets ((k, v) # kvs) d = vsets kvs (vset k v d)"
  by (simp_all add: vsets_def)

definition running_dict :: "val \<Rightarrow> bool" where
  "running_dict p \<longleftrightarrow> is_dict p \<and> vget ''status'' p = VStr ''running''"

definition yields_running :: "('w, cerror, val list) op \<Rightarrow> bool" where
  "yields_running m \<longleftrightarrow> (\<forall>w rows w'. m w = (Inr rows, w') \<longrightarrow> list_all running_dict rows)"

lemma yields_running_each:
  assumes "\<And>x. yields_running (f x)"
  shows "yields_running (follow (each_op f xs) (\<lambda>found. give (concat found)))"
proof -
  have "each_op f xs w = (Inr rows, w') \<Longrightarrow> list_all (list_all running_dict) rows" for w rows w'
  proof (induction xs arbitrary: w rows)
    case (Cons x xs)
    with assms [of x] show ?case unfolding yields_running_def by (fastforce simp: follow_eq_Inr)
  qed simp
  then show ?thesis by (fastforce simp: yields_running_def follow_eq_Inr list_all_iff)
qed

lemma yields_running_follow: "(\<And>a. yields_running (f a)) \<Longrightarrow> yields_running (follow m f)"
  by (auto simp: yields_running_def follow_eq_Inr)

lemma listed_eq: "listed m v = Inr rows \<longleftrightarrow> (\<exists>vs. v = VList vs \<and> rows = filter is_dict vs)"
  by (auto simp: listed_def split: val.splits)

lemma walk_session_running: "yields_running (walk_session C ws session)"
proof -
  have "list_all running_dict (map (walked_row ws session) (filter (\<lambda>p. vget ''status'' p = VStr ''running'') rows))"
    if "execution_processes C s t w = (Inr rows, w')" for s t w rows w'
  proof -
    from that have "\<forall>p \<in> set rows. is_dict p"
      by (auto simp: execution_processes_def follow_eq_Inr listed_eq)
    then show ?thesis by (auto simp: list_all_iff running_dict_def walked_row_def vget_vset)
  qed
  then show ?thesis by (auto simp: yields_running_def walk_session_def follow_eq_Inr)
qed

lemma walk_fleet_running: "yields_running (walk_fleet C)"
proof -
  have "yields_running (walk_workspace C ws)" for ws
    unfolding walk_workspace_def
    by (intro yields_running_follow keeps_if)
       (auto intro!: yields_running_follow yields_running_each walk_session_running split: if_splits simp: yields_running_def [of "give []"])
  then show ?thesis unfolding walk_fleet_def by (intro yields_running_follow yields_running_each)
qed

text \<open>
  C0: every row of the fleet-wide list is a running process.  Whichever way the list is read, by
  the new route or by the walk over workspaces and sessions that an older executor needs, each
  row of the answer is a dictionary whose status is \<open>running\<close>.
\<close>

theorem fleet_rows_run:
  assumes "running_execution_processes C w = (Inr rows, w')"
  shows "\<forall>p \<in> set rows. is_dict p \<and> vget ''status'' p = VStr ''running''"
proof (cases "fetch C ''/execution-processes/running'' w")
  case (Pair r w1)
  show ?thesis
  proof (cases r)
    case (Inl e)
    with Pair assms walk_fleet_running [of C] show ?thesis
      by (auto simp: running_execution_processes_def yields_running_def list_all_iff running_dict_def split: if_splits)
  next
    case (Inr v)
    with Pair assms show ?thesis
      by (auto simp: running_execution_processes_def routed_rows_def list_all_iff vget_vset split: val.splits if_splits)
  qed
qed

subsection \<open>A failed lookup that reads as absence\<close>

text \<open>\<open>EffectJournal._native_effect\<close> reads the client's answer; other exceptions escape it.\<close>

definition effect_answer :: "'w client \<Rightarrow> cerror + val \<Rightarrow> effect_reply" where
  "effect_answer C r =
     (case r of
        Inl e \<Rightarrow> ReplyError \<lparr>ce_status = error_status e, ce_text = error_text e\<rparr>
      | Inr v \<Rightarrow> ReplyEffect \<lparr>nv_state = Some (text_or_empty (cl_pystr C) (vget ''state'' v)),
                  nv_workspace = (case vget ''workspace_id'' v of VStr s \<Rightarrow> Some s | _ \<Rightarrow> None),
                  nv_session = (case vget ''session_id'' v of VStr s \<Rightarrow> Some s | _ \<Rightarrow> None)\<rparr>)"

lemma starts_with_append: "starts_with p s \<Longrightarrow> starts_with p (s @ t)"
  by (auto simp: starts_with_iff)

lemma contains_text_append: "contains_text p b \<Longrightarrow> contains_text p (a @ b)" "contains_text p a \<Longrightarrow> contains_text p (a @ b)"
proof -
  show "contains_text p b \<Longrightarrow> contains_text p (a @ b)" by (induction a) auto
  show "contains_text p a \<Longrightarrow> contains_text p (a @ b)"
  proof (induction a)
    case Nil
    then show ?case by (cases b) (simp_all add: starts_with_iff)
  next
    case (Cons c a)
    then show ?case using starts_with_append [of p "c # a" b] by auto
  qed
qed

text \<open>
  An unreadable effect can read as a missing one.  The lookup of a launch is told from its
  error text, and the text of every HTTP error repeats the request's path.  So when the
  task's id contains the digits 404, any failure of the executor, of whatever status, is taken
  for the definitive absence of the effect, where for an unreachable or failing executor the
  journal otherwise leaves the reservation alone.
\<close>

theorem failure_reads_as_absence:
  assumes "contains_text ''404'' tid" and "code \<notin> {424, 425}"
    and "cl_net C \<lparr>hq_method = ''GET'', hq_path = ''/managed-tasks/'' @ tid @ ''/epochs/'' @ show_int ep, hq_query = [],
           hq_payload = None, hq_headers = []\<rparr> w = (HttpError code detail after, w')"
  shows "native_effect (Some (effect_answer C (fst (managed_effect C tid ep w)))) = Inr None"
proof -
  let ?p = "''/managed-tasks/'' @ tid @ ''/epochs/'' @ show_int ep"
  from assms(3) have run: "managed_effect C tid ep w = (Inl (rejection_error
      (''GET'' @ '' '' @ ?p @ '' failed: HTTP '' @ show_int code @ '': '' @ detail) code (retry_at C after)), w')"
    by (simp add: managed_effect_def follow_def request_def answer_of_def)
  have "contains_text ''404'' (''GET'' @ '' '' @ ?p @ '' failed: HTTP '' @ show_int code @ '': '' @ detail)"
    by (simp only: append_assoc) (intro contains_text_append(1) contains_text_append(2) [of _ tid] assms(1))
  with run assms(2) show ?thesis
    by (auto simp: native_effect_def effect_answer_def is_effect_not_found_def rejection_error_def)
qed

definition failing_service :: "http_request \<Rightarrow> nat \<Rightarrow> http_reply \<times> nat" where
  "failing_service q n = (HttpError 500 ''database is locked'' None, n)"

theorem failure_reads_as_absence_witness:
  "native_effect (Some (effect_answer (sample_client failing_service)
     (fst (managed_effect (sample_client failing_service) ''a404b'' 1 0)))) = Inr None"
  by (rule failure_reads_as_absence [of "''a404b''" 500 _ 1 0 "''database is locked''" None 0])
     (simp_all add: sample_client_def failing_service_def)
subsection \<open>The wait for an idle session\<close>

text \<open>
  Waiting for a session to stop is bounded and honest.  The wait asks the executor at most
  once per tenth of a second of its allowance, plus once, whatever the executor answers and
  however long each answer takes; when it returns, the rows it returns are the last answer and
  hold no running process of the session other than a development server's.
\<close>

theorem idle_wait_is_bounded:
  "length (snd (snd (wait_for_session_idle (logged C) lag session timeout (w, [])))) \<le> nat (\<lfloor>10 * timeout\<rfloor> + 1)
   \<and> (case fst (wait_for_session_idle (logged C) lag session timeout (w, [])) of
        Inl e \<Rightarrow> True
      | Inr rows \<Rightarrow> list_all is_dict rows
          \<and> list_all (\<lambda>p. \<not> session_running p) rows)"
proof (intro conjI)
  let ?once = "\<lambda>i. follow (execution_processes (logged C) (Some session) None) (\<lambda>rows.
      give (if filter session_running rows = [] then Some rows else None))"
  let ?wait = "wait_for_session_idle (logged C) lag session timeout (w, [])"
  have one: "length (snd (snd (?once i s))) \<le> length (snd s) + 1" for i :: nat and s
    using request_logged_length [of C "''GET''" "''/execution-processes''" "[(''session_id'', session)]" None "[]" s]
    by (auto simp: execution_processes_def follow_def split: prod.split sum.split)
  have "rounds_left SessionNap timeout 0 = nat (\<lfloor>10 * timeout\<rfloor> + 1)"
    by (simp add: rounds_left_def mult.commute)
  moreover have "length (snd (snd ?wait)) \<le> length (snd (w, [] :: exchange list)) + rounds_left SessionNap timeout 0"
    unfolding wait_for_session_idle_def by (rule await_rounds [where count = "\<lambda>s. length (snd s)"]) (rule one)
  ultimately show "length (snd (snd ?wait)) \<le> nat (\<lfloor>10 * timeout\<rfloor> + 1)" by simp
  show "case fst ?wait of Inl e \<Rightarrow> True
      | Inr rows \<Rightarrow> list_all is_dict rows
          \<and> list_all (\<lambda>p. \<not> session_running p) rows"
  proof (cases "fst ?wait")
    case (Inr rows)
    then have "?wait = (Inr rows, snd ?wait)" by (simp add: prod_eq_iff)
    then obtain s' where "?wait = (Inr rows, s')" by blast
    from await_result [OF this [unfolded wait_for_session_idle_def]] obtain i :: nat and u where
      "?once i u = (Inr (Some rows), s')" by (elim exE)
    then have "filter session_running rows = []" "list_all is_dict rows"
      by (auto simp: follow_eq_Inr execution_processes_def listed_eq list_all_iff split: if_splits)
    with Inr show ?thesis by (auto simp: list_all_iff filter_empty_conv)
  qed simp
qed

end
