(* ===== verification/Ledger.thy ===== *)
theory Ledger
  imports KernelSystem
begin

text \<open>
  The history is written and never read (\<open>history.py\<close>: the scheduler keeps reading current rows).
  \<open>forget\<close> drops the log of a database; every operation used here gives the same answer and the
  same tables on two databases that differ only in their logs.
\<close>

definition forget :: "db \<Rightarrow> db" where
  "forget d = d\<lparr>db_history := db_history empty_db\<rparr>"

definition forget_snd :: "'e + 'a \<times> db \<Rightarrow> 'e + 'a \<times> db" where
  "forget_snd r = (case r of Inl e \<Rightarrow> Inl e | Inr (a, d) \<Rightarrow> Inr (a, forget d))"

lemma forget_tables [simp]:
  "db_tasks (forget d) = db_tasks d" "db_effects (forget d) = db_effects d" "db_wakes (forget d) = db_wakes d"
  "db_cleanups (forget d) = db_cleanups d" "db_outgoing (forget d) = db_outgoing d" "db_checkpoints (forget d) = db_checkpoints d"
  by (simp_all add: forget_def)

lemma forget_idem [simp]: "forget (forget d) = forget d"
  by (simp add: forget_def)

lemma forget_eq_iff:
  "forget d = forget e \<longleftrightarrow> db_tasks d = db_tasks e \<and> db_effects d = db_effects e \<and> db_wakes d = db_wakes e
     \<and> db_cleanups d = db_cleanups e \<and> db_outgoing d = db_outgoing e \<and> db_checkpoints d = db_checkpoints e"
  by (cases d; cases e) (auto simp: forget_def)

lemma forget_finds [simp]:
  "find_task tid (forget d) = find_task tid d" "find_effect tid ep (forget d) = find_effect tid ep d"
  "find_wake wid (forget d) = find_wake wid d" "child_rows tid (forget d) = child_rows tid d"
  by (simp_all add: find_task_def find_effect_def find_wake_def child_rows_def)

lemma forget_logs [simp]:
  "forget (log_task c k now tid b a) = forget a" "forget (log_wake c now wid b a) = forget a"
  "forget (log_effect c now tid ep b a) = forget a" "forget (log_cleanup c now ck b a) = forget a"
  by (simp_all add: log_task_def log_wake_def log_effect_def log_cleanup_def forget_def)

lemma find_log_task [simp]: "find_task tid (log_task c k now i b a) = find_task tid a"
  by (simp add: log_task_def find_task_def)

lemma forget_change_task:
  "forget_snd (change_task tid c k now G f (forget d)) = forget_snd (change_task tid c k now G f d)"
  by (simp add: change_task_def forget_snd_def Let_def) (simp add: forget_def)

lemma forget_bump: "forget (bump_task tid f (forget d)) = forget (bump_task tid f d)"
  by (simp add: bump_task_def) (simp add: forget_def)

lemma forget_insert_wake:
  "map_prod id forget (insert_wake row c now (forget d)) = map_prod id forget (insert_wake row c now d)"
  by (simp add: insert_wake_def Let_def) (simp add: forget_def)

text \<open>Two computations that agree up to the log.\<close>

definition same_but_log :: "'e + 'a \<times> db \<Rightarrow> 'e + 'a \<times> db \<Rightarrow> bool" where
  "same_but_log r s \<longleftrightarrow> forget_snd r = forget_snd s"

lemma same_but_log_cases:
  "same_but_log r s \<longleftrightarrow>
     (case r of Inl e \<Rightarrow> s = Inl e | Inr (a, d) \<Rightarrow> \<exists>d'. s = Inr (a, d') \<and> forget d' = forget d)"
  by (cases r; cases s) (auto simp: same_but_log_def forget_snd_def split: prod.splits)

lemma change_task_unlogged:
  assumes "forget d = forget e"
  shows "same_but_log (change_task tid c k now G f d) (change_task tid c k now G f e)"
  by (simp add: same_but_log_def) (metis assms forget_change_task)

lemma find_task_unlogged: "forget d = forget e \<Longrightarrow> find_task tid d = find_task tid e"
  by (metis forget_finds(1))

lemma same_but_log_refl [simp]: "same_but_log r r"
  by (simp add: same_but_log_def)

lemma same_but_log_Inr: "forget d = forget e \<Longrightarrow> same_but_log (Inr (a, d)) (Inr (a, e))"
  by (simp add: same_but_log_def forget_snd_def)

lemma ebind_unlogged:
  assumes "same_but_log r s" "\<And>a d e. forget d = forget e \<Longrightarrow> same_but_log (f (a, d)) (f (a, e))"
  shows "same_but_log (ebind r f) (ebind s f)"
proof (cases r)
  case (Inl e)
  with assms(1) have "s = Inl e" by (simp add: same_but_log_cases)
  with Inl show ?thesis by simp
next
  case (Inr p)
  then obtain a d where r: "r = Inr (a, d)" by (cases p) auto
  with assms(1) obtain e where "s = Inr (a, e)" "forget e = forget d" by (auto simp: same_but_log_cases)
  with r assms(2) [of d e a] show ?thesis by simp
qed

lemma transition_on_unlogged:
  assumes "forget d = forget e"
  shows "same_but_log (transition_on tid expect ev assign a now d) (transition_on tid expect ev assign a now e)"
  unfolding transition_on_def
proof (rule ebind_unlogged [OF change_task_unlogged [OF assms]], goal_cases)
  case (1 hit d' e')
  then show ?case by (auto simp: find_task_unlogged [OF 1] intro: same_but_log_Inr split: option.splits)
qed

lemma transition_unlogged:
  assumes "forget d = forget e"
  shows "same_but_log (transition x tid expect ev assign a fence now d) (transition x tid expect ev assign a fence now e)"
  using transition_on_unlogged [OF assms] by (cases "require_fence x tid fence") (simp_all add: transition_def)

lemma record_failure_unlogged:
  assumes "forget d = forget e"
  shows "same_but_log (record_failure x tid st res ev fence now d) (record_failure x tid st res ev fence now e)"
  using transition_unlogged [OF assms]
  by (auto simp: record_failure_def Let_def find_task_unlogged [OF assms] split: option.splits)

lemma finish_unlogged:
  assumes "forget d = forget e"
  shows "same_but_log (finish x tid st res ev charge fence shared now d) (finish x tid st res ev charge fence shared now e)"
proof -
  have exh: "same_but_log (record_exhaustion y tid res ev g shared now d) (record_exhaustion y tid res ev g shared now e)" for y g
    using transition_unlogged [OF assms] transition_on_unlogged [OF assms] by (simp add: record_exhaustion_def Let_def)
  show ?thesis
    using record_failure_unlogged [OF assms] transition_unlogged [OF assms] exh
    by (auto simp: finish_def with_fence_def split: option.splits)
qed

text \<open>The operations that return the answer and the database as a pair.\<close>

definition pair_log :: "'a \<times> db \<Rightarrow> 'a \<times> db \<Rightarrow> bool" where
  "pair_log r s \<longleftrightarrow> fst r = fst s \<and> forget (snd r) = forget (snd s)"

lemma pair_logE:
  assumes "pair_log r s"
  obtains a d e where "r = (a, d)" "s = (a, e)" "forget d = forget e"
  using assms by (cases r; cases s) (auto simp: pair_log_def)

lemma pair_log_if:
  "(P \<Longrightarrow> pair_log a b) \<Longrightarrow> (\<not> P \<Longrightarrow> pair_log c d) \<Longrightarrow> pair_log (if P then a else c) (if P then b else d)"
  by simp

lemma pair_log_same: "forget d = forget e \<Longrightarrow> pair_log (a, d) (a, e)"
  by (simp add: pair_log_def)

lemma insert_wake_unlogged: "forget d = forget e \<Longrightarrow> pair_log (insert_wake row c now d) (insert_wake row c now e)"
  by (simp add: pair_log_def insert_wake_def Let_def forget_eq_iff)

lemma arm_each_unlogged: "forget d = forget e \<Longrightarrow> pair_log (arm_each wid parent seq now ps d) (arm_each wid parent seq now ps e)"
proof (induction ps arbitrary: d e)
  case (Cons p ps)
  let ?row = "pending_wake (wid (dedupe_key parent p)) parent p (dedupe_key parent p) (Some seq) now"
  obtain i d1 e1 where i: "insert_wake ?row ''armed'' now d = (i, d1)" "insert_wake ?row ''armed'' now e = (i, e1)" "forget d1 = forget e1"
    by (rule pair_logE [OF insert_wake_unlogged [OF Cons.prems, of ?row "''armed''" now]])
  show ?case
    by (rule pair_logE [OF Cons.IH [OF i(3)]]) (simp add: i Let_def pair_log_def)
qed (simp add: pair_log_def)

lemma satisfied_unlogged: "forget d = forget e \<Longrightarrow> satisfied_predicates parent d = satisfied_predicates parent e"
proof -
  have "satisfied_predicates parent d = satisfied_predicates parent (forget d)" for d
    by (simp only: satisfied_predicates_def forget_finds)
  then show "forget d = forget e \<Longrightarrow> satisfied_predicates parent d = satisfied_predicates parent e" by metis
qed

lemma record_wakes_unlogged: "forget d = forget e \<Longrightarrow> pair_log (record_wakes wid parent now d) (record_wakes wid parent now e)"
  using arm_each_unlogged [of d e]
  by (auto simp: record_wakes_def find_task_unlogged [of d e] satisfied_unlogged [of d e] pair_log_def split: option.splits)

lemma bump_unlogged: "forget d = forget e \<Longrightarrow> forget (bump_task tid f d) = forget (bump_task tid f e)"
  by (metis forget_bump)

lemma arm_liveness_unlogged:
  assumes "forget d = forget e"
  shows "pair_log (arm_liveness wid parent reason key now one d) (arm_liveness wid parent reason key now one e)"
proof -
  let ?row = "pending_wake (wid key) parent (reason_predicate reason) key None now"
  have "db_wakes d = db_wakes e" using assms by (simp add: forget_eq_iff)
  with insert_wake_unlogged [OF assms, of ?row "''liveness-armed''" now] assms show ?thesis
    by (auto simp: arm_liveness_def Let_def pair_log_def split: prod.splits)
qed

lemma arm_stall_unlogged:
  assumes "forget d = forget e"
  shows "pair_log (arm_stall wid parent row now timeout d) (arm_stall wid parent row now timeout e)"
proof -
  let ?next = "\<lambda>r. case r of (armed, d1) \<Rightarrow>
     (armed, if armed = [] then d1
             else bump_task (t_id row) (\<lambda>r. r\<lparr>t_liveness_wakes := t_liveness_wakes r + 1, t_liveness_since := Some now\<rparr>) d1)"
  have stall: "pair_log (?next (arm_liveness wid parent reason key now False d)) (?next (arm_liveness wid parent reason key now False e))" for reason key
    by (rule pair_logE [OF arm_liveness_unlogged [OF assms, of wid parent reason key now False]]) (auto simp: pair_log_def intro: bump_unlogged)
  show ?thesis
    unfolding arm_stall_def Let_def by (intro pair_log_if stall pair_log_same [OF assms])
qed

lemma record_liveness_wakes_unlogged:
  assumes "forget d = forget e"
  shows "pair_log (record_liveness_wakes wid child now timeout d) (record_liveness_wakes wid child now timeout e)"
proof (cases "find_task child e")
  case (Some row)
  let ?p = "the (t_parent row)"
  obtain a d1 e1 where a: "arm_stall wid ?p row now timeout d = (a, d1)" "arm_stall wid ?p row now timeout e = (a, e1)"
      "forget d1 = forget e1"
    by (rule pair_logE [OF arm_stall_unlogged [OF assms, of wid ?p row now timeout]])
  let ?key = "episode_key child (t_epoch row) BudgetReason 1 False"
  obtain b d2 e2 where b: "arm_liveness wid ?p BudgetReason ?key now True d1 = (b, d2)"
      "arm_liveness wid ?p BudgetReason ?key now True e1 = (b, e2)" "forget d2 = forget e2"
    by (rule pair_logE [OF arm_liveness_unlogged [OF a(3), of wid ?p BudgetReason ?key now True]])
  have d: "find_task child d = Some row" using Some find_task_unlogged [OF assms] by simp
  have lost: "pair_log (arm_liveness wid ?p LostReason key now True d) (arm_liveness wid ?p LostReason key now True e)" for key
    by (rule arm_liveness_unlogged [OF assms])
  show ?thesis
    unfolding record_liveness_wakes_def d Some option.case Let_def a prod.case
    by (intro pair_log_if lost pair_log_same [OF assms])
      (cases "t_over_budget row"; simp add: b pair_log_same [OF a(3)] pair_log_same [OF b(3)])
qed (use assms find_task_unlogged [OF assms, of child] in \<open>simp add: record_liveness_wakes_def pair_log_def\<close>)

lemma finish_with_wake_unlogged:
  assumes "forget d = forget e"
  shows "same_but_log (finish_with_wake wid x tid st res ev charge fence now d) (finish_with_wake wid x tid st res ev charge fence now e)"
proof -
  have rest: "same_but_log
      (if \<not> truthy (t_parent rec) then Inr ((rec, []), d1)
       else let parent = the (t_parent rec); d2 = bump_task parent (\<lambda>r. r\<lparr>t_child_event_seq := t_child_event_seq r + 1\<rparr>) d1;
                (cohort, d3) = record_wakes wid parent now d2;
                (live, d4) = record_liveness_wakes wid (t_id rec) now default_progress_timeout d3
            in Inr ((rec, cohort @ live), d4))
      (if \<not> truthy (t_parent rec) then Inr ((rec, []), e1)
       else let parent = the (t_parent rec); d2 = bump_task parent (\<lambda>r. r\<lparr>t_child_event_seq := t_child_event_seq r + 1\<rparr>) e1;
                (cohort, d3) = record_wakes wid parent now d2;
                (live, d4) = record_liveness_wakes wid (t_id rec) now default_progress_timeout d3
            in Inr ((rec, cohort @ live), d4))" if logs: "forget d1 = forget e1" for rec and d1 e1 :: db
  proof -
    let ?bump = "\<lambda>d. bump_task (the (t_parent rec)) (\<lambda>r. r\<lparr>t_child_event_seq := t_child_event_seq r + 1\<rparr>) d"
    obtain c d3 e3 where c: "record_wakes wid (the (t_parent rec)) now (?bump d1) = (c, d3)"
        "record_wakes wid (the (t_parent rec)) now (?bump e1) = (c, e3)" "forget d3 = forget e3"
      by (rule pair_logE [OF record_wakes_unlogged [OF bump_unlogged [OF logs], of wid "the (t_parent rec)" now]])
    obtain l d4 e4 where "record_liveness_wakes wid (t_id rec) now default_progress_timeout d3 = (l, d4)"
        "record_liveness_wakes wid (t_id rec) now default_progress_timeout e3 = (l, e4)" "forget d4 = forget e4"
      by (rule pair_logE [OF record_liveness_wakes_unlogged [OF c(3), of wid "t_id rec" now default_progress_timeout]])
    with c logs show ?thesis by (simp add: Let_def same_but_log_Inr)
  qed
  have body: "same_but_log
     (ebind (finish y tid st res ev charge f True now d) (\<lambda>(rec, d1).
         if \<not> truthy (t_parent rec) then Inr ((rec, []), d1)
         else let parent = the (t_parent rec); d2 = bump_task parent (\<lambda>r. r\<lparr>t_child_event_seq := t_child_event_seq r + 1\<rparr>) d1;
                  (cohort, d3) = record_wakes wid parent now d2;
                  (live, d4) = record_liveness_wakes wid (t_id rec) now default_progress_timeout d3
              in Inr ((rec, cohort @ live), d4)))
     (ebind (finish y tid st res ev charge f True now e) (\<lambda>(rec, d1).
         if \<not> truthy (t_parent rec) then Inr ((rec, []), d1)
         else let parent = the (t_parent rec); d2 = bump_task parent (\<lambda>r. r\<lparr>t_child_event_seq := t_child_event_seq r + 1\<rparr>) d1;
                  (cohort, d3) = record_wakes wid parent now d2;
                  (live, d4) = record_liveness_wakes wid (t_id rec) now default_progress_timeout d3
              in Inr ((rec, cohort @ live), d4)))" for y f
    by (rule ebind_unlogged [OF finish_unlogged [OF assms]]) (simp only: prod.case, rule rest)
  then show ?thesis by (auto simp: finish_with_wake_def with_fence_def split: option.splits)
qed

end
