(* ===== verification/Detector.thy ===== *)
theory Detector
  imports KernelSystem Ledger Liveness Escalation
begin

text \<open>
  The durable reconciler (\<open>durable.py\<close>): the liveness pass that classifies the live tasks of the
  fleet, records what it found and arms the wakes it satisfies; the executor-declared losses;
  the retry of durable cleanup intents; and the tick that runs these repairs one after another.

  The reconciler's own state is the cursor of the capped scan and the output baselines.  The
  executor's answers, the clock and the formatting of floats are the fields of a \<open>site\<close>;
  \<open>None\<close> is an exception of the client.  The three stores share one database file in
  the deployed service (\<open>bridge.py\<close>) and are three fields here.
\<close>

subsection \<open>Commands as the executor lists them\<close>

record durable_command =
  dc_id :: string
  dc_session :: string
  dc_body :: string
  dc_state :: string
  dc_key :: val
  dc_process :: val

definition command_fields :: "(val \<Rightarrow> string) \<Rightarrow> string \<Rightarrow> val \<Rightarrow> durable_command option" where
  "command_fields pystr session row =
     (case vfield ''id'' row of
        None \<Rightarrow> None
      | Some i \<Rightarrow>
          Some \<lparr>dc_id = text_of pystr i,
                dc_session = text_of pystr (vor (vget ''session_id'' row) (VStr session)),
                dc_body = text_of pystr (vor (vor (vget ''body'' row) (vget ''prompt'' row)) (VStr [])),
                dc_state = text_of pystr (vor (vor (vget ''state'' row) (vget ''status'' row)) (VStr ''queued'')),
                dc_key = vget ''dedupe_key'' row, dc_process = vget ''execution_process_id'' row\<rparr>)"

definition delivery_state :: "durable_command \<Rightarrow> val option \<Rightarrow> string" where
  "delivery_state c process =
     (if dc_state c = ''pending'' then ''queued''
      else if dc_state c = ''claimed''
      then (case process of None \<Rightarrow> ''claimed'' | Some p \<Rightarrow> if vget ''status'' p = VStr ''running'' then ''running'' else ''observed'')
      else if dc_state c \<in> {''done'', ''failed''} then ''terminal''
      else if dc_state c = ''cancelled'' then ''rejected''
      else ''observed'')"

text \<open>The columns of a command that the task store reads.\<close>

definition native_of :: "(val \<Rightarrow> string) \<Rightarrow> durable_command \<Rightarrow> native_command" where
  "native_of pystr c =
     \<lparr>n_state = dc_state c, n_id = dc_id c,
      n_process = (if vtruthy (dc_process c) then Some (text_of pystr (dc_process c)) else None)\<rparr>"

fun all_some :: "'a option list \<Rightarrow> 'a list option" where
  "all_some [] = Some []"
| "all_some (None # xs) = None"
| "all_some (Some x # xs) = map_option ((#) x) (all_some xs)"

subsection \<open>The site and the state\<close>

record site =
  si_pystr :: "val \<Rightarrow> string"
  si_isotime :: "string \<Rightarrow> real option"
  si_num :: "string \<Rightarrow> num option"
  si_fmt0 :: "real \<Rightarrow> string"
  si_fmtg :: "real \<Rightarrow> string"
  si_dumps :: "json \<Rightarrow> string"
  si_environ :: "string \<Rightarrow> string option"
  si_redactor :: redactor
  si_uuid :: "string \<Rightarrow> string"
  si_wid :: "string \<Rightarrow> string"
  si_stamp :: string
  si_ctx :: ctx
  si_now :: real
  si_late :: "string \<Rightarrow> bool"
  si_cap :: nat
  si_one_file :: bool
  si_processes :: "string \<Rightarrow> val"
  si_snapshot :: "string \<Rightarrow> val"
  si_queue :: "string \<Rightarrow> val"
  si_commands :: "string \<Rightarrow> val list option"
  si_cancel :: "string \<Rightarrow> string \<Rightarrow> (int option + val)"
  si_stop_execution :: "string \<Rightarrow> val option"
  si_process :: "string \<Rightarrow> val option"
  si_stop_workspace :: "string \<Rightarrow> bool"
  si_drift :: "string \<Rightarrow> db \<Rightarrow> db"

record dstate =
  ds_db :: db
  ds_esc :: esc_db
  ds_owners :: owners
  ds_cursor :: string
  ds_bytes :: "string \<Rightarrow> int option"

datatype derror = DBudget | DStore kerror | DClient | DOwnership | DKey

text \<open>\<open>NativeCommandQueue.commands\<close>\<close>

definition queue_commands :: "site \<Rightarrow> string \<Rightarrow> derror + durable_command list" where
  "queue_commands S session =
     (case si_commands S session of
        None \<Rightarrow> Inl DClient
      | Some rows \<Rightarrow> (case all_some (map (command_fields (si_pystr S) session) rows) of None \<Rightarrow> Inl DKey | Some cs \<Rightarrow> Inr cs))"

subsection \<open>Policies\<close>

text \<open>A stored spec as the dictionary \<open>json.loads\<close> gives.\<close>

primrec val_of :: "json \<Rightarrow> val" where
  "val_of JNull = VNone"
| "val_of (JBool b) = VBool b"
| "val_of (JInt i) = VNum (PInt i)"
| "val_of (JReal r) = VNum (PFloat r)"
| "val_of (JStr s) = VStr s"
| "val_of (JList js) = VList (map val_of js)"
| "val_of (JObj kvs) = VDict (map (map_prod id val_of) kvs)"

definition spec_of :: "task_record \<Rightarrow> val" where
  "spec_of t = (let v = val_of (t_spec t) in if is_dict v then v else VDict [])"

definition detection_policy :: "site \<Rightarrow> task_record \<Rightarrow> lerror + policy" where
  "detection_policy S t =
     (let spec = spec_of t in
      ebind (trusted_policy (si_num S) (si_environ S)) (\<lambda>trusted.
        if vget ''detection'' spec \<noteq> VNone then policy_from_dict (vget ''detection'' spec)
        else case budget_from_dict (vget ''budget'' spec) of
               Inl _ \<Rightarrow> Inl (DetectionPolicyError ''budget'')
             | Inr b \<Rightarrow> resolve_policy (vget ''progress_timeout'' spec) (vget ''approval_timeout'' spec) b trusted))"

subsection \<open>The capped scan\<close>

definition detectable :: "task_row \<Rightarrow> bool" where
  "detectable r \<longleftrightarrow> t_state r = Active \<and> t_holder r \<noteq> None"

definition watched_ids :: "db \<Rightarrow> string list" where
  "watched_ids d = sort (map t_id (filter detectable (db_tasks d)))"

text \<open>The ids after the cursor first; all of them when none is after it.\<close>

definition rotation :: "string \<Rightarrow> string list \<Rightarrow> string list" where
  "rotation cursor ordered =
     (if list_ex (\<lambda>i. cursor < i) ordered
      then dropWhile (\<lambda>i. \<not> cursor < i) ordered @ takeWhile (\<lambda>i. \<not> cursor < i) ordered
      else ordered)"

definition slice_ids :: "nat \<Rightarrow> string \<Rightarrow> string list \<Rightarrow> string list" where
  "slice_ids cap cursor ordered =
     (let rotated = rotation cursor ordered in if length rotated \<le> cap then rotated else take cap rotated)"

definition slice_cursor :: "nat \<Rightarrow> string \<Rightarrow> string list \<Rightarrow> string" where
  "slice_cursor cap cursor ordered =
     (let chosen = slice_ids cap cursor ordered
      in if chosen \<noteq> [] \<and> \<not> length ordered \<le> cap then last chosen else [])"

definition detection_slice :: "site \<Rightarrow> dstate \<Rightarrow> (task_record list \<times> string set) \<times> dstate" where
  "detection_slice S w =
     (let ordered = watched_ids (ds_db w); chosen = slice_ids (si_cap S) (ds_cursor w) ordered
      in ((concat (map (\<lambda>i. case get_by_id i (ds_db w) of None \<Rightarrow> [] | Some t \<Rightarrow> [t]) chosen), set ordered),
          w\<lparr>ds_cursor := slice_cursor (si_cap S) (ds_cursor w) ordered\<rparr>))"

definition evict_baselines :: "string set \<Rightarrow> dstate \<Rightarrow> dstate" where
  "evict_baselines watched w = w\<lparr>ds_bytes := (\<lambda>i. if i \<in> watched then ds_bytes w i else None)\<rparr>"

subsection \<open>Attention items\<close>

definition raise_attention :: "site \<Rightarrow> task_record \<Rightarrow> string \<Rightarrow> string \<Rightarrow> string option \<Rightarrow> dstate \<Rightarrow> dstate" where
  "raise_attention S t message key session w =
     (let subject = (if truthy session then session else t_holder t)
      in if \<not> truthy subject then w
         else w\<lparr>ds_esc := snd (park (si_redactor S) (si_uuid S key) (si_now S) (the subject) (t_workspace t) None
                                ''no_parent'' message key (ds_esc w))\<rparr>)"

definition task_epoch_key :: "string \<Rightarrow> task_record \<Rightarrow> string" where
  "task_epoch_key kind t = kind @ t_id t @ '':'' @ show_int (t_epoch t)"

subsection \<open>Cleanup intents\<close>

definition native_settled :: "string set" where
  "native_settled = set command_terminal_states \<union> {''completed'', ''killed'', ''stopped'', ''terminated''}"

definition row_state :: "site \<Rightarrow> string \<Rightarrow> string \<Rightarrow> val \<Rightarrow> string" where
  "row_state S a b v = text_of (si_pystr S) (vor (vor (vget a v) (vget b v)) (VStr []))"

text \<open>One unresolved outgoing command: its durable key is looked up among the executor's rows.\<close>

definition settle_outgoing :: "site \<Rightarrow> outgoing_row \<Rightarrow> db \<Rightarrow> db" where
  "settle_outgoing S o' d =
     (case queue_commands S (o_session_id o') of
        Inl _ \<Rightarrow> si_drift S (o_task_id o') d
      | Inr cs \<Rightarrow>
          let d1 = si_drift S (o_task_id o') d in
          (case find (\<lambda>c. dc_key c = VStr (o_dedupe_key o')) cs of
             None \<Rightarrow> d1
           | Some c \<Rightarrow>
               (case settle_outgoing_command (o_task_id o') (o_epoch o') (o_dedupe_key o') (Some (dc_id c)) True (si_now S) d1 of
                  Inl _ \<Rightarrow> d1
                | Inr d2 \<Rightarrow> d2)))"

text \<open>
  One pending intent: whether the executor acknowledged it, with the database after the request.
  A rejection with 409 refreshes the intents of the task instead.
\<close>

definition retry_intent :: "site \<Rightarrow> cleanup_row \<Rightarrow> db \<Rightarrow> bool \<times> db" where
  "retry_intent S c d =
     (let d1 = si_drift S (c_task_id c) d in
      case c_kind c of
        CommandCancel \<Rightarrow>
          (case si_cancel S (c_session_id c) (c_native_id c) of
             Inr row \<Rightarrow> (row_state S ''state'' ''status'' row \<in> set command_terminal_states, d1)
           | Inl status \<Rightarrow>
               if status \<noteq> Some 409 then (False, d1)
               else (case queue_commands S (c_session_id c) of
                       Inl _ \<Rightarrow> (False, d1)
                     | Inr cs \<Rightarrow> (False, record_cleanup_intents (c_task_id c) (c_epoch c) (c_session_id c)
                                         (map (native_of (si_pystr S)) cs) (si_now S) d1)))
      | ExecutionStop \<Rightarrow>
          (case si_stop_execution S (c_native_id c) of
             None \<Rightarrow> (False, d1)
           | Some stopped \<Rightarrow>
               let state = (if is_dict stopped then row_state S ''status'' ''state'' stopped else []) in
               if state \<in> native_settled then (True, d1)
               else (case si_process S (c_native_id c) of
                       None \<Rightarrow> (False, d1)
                     | Some p \<Rightarrow> (row_state S ''status'' ''state'' p \<in> native_settled, d1))))"

definition clean_intent :: "site \<Rightarrow> cleanup_row \<Rightarrow> db \<Rightarrow> nat \<times> db" where
  "clean_intent S c d =
     (case retry_intent S c d of
        (False, d1) \<Rightarrow> (0, d1)
      | (True, d1) \<Rightarrow> (1, acknowledge_cleanup_intent (c_task_id c) (c_epoch c) (c_kind c) (c_native_id c) (si_now S) d1))"

fun clean_each :: "site \<Rightarrow> cleanup_row list \<Rightarrow> db \<Rightarrow> nat \<times> db" where
  "clean_each S [] d = (0, d)"
| "clean_each S (c # cs) d =
     (let (n, d1) = clean_intent S c d; (m, d2) = clean_each S cs d1 in (n + m, d2))"

definition reconcile_cleanup_intents :: "site \<Rightarrow> db \<Rightarrow> nat \<times> db" where
  "reconcile_cleanup_intents S d =
     (let d1 = foldl (\<lambda>d o'. settle_outgoing S o' d) d (unresolved_terminal_outgoing_commands d)
      in clean_each S (pending_cleanup_intents d1) d1)"

subsection \<open>Losses\<close>

text \<open>
  The transaction of \<open>_record_loss\<close>: the evidence, the effect's terminal state, the retired holder
  and the task's terminal state with its parent's wake.  The two first statements are plain
  \<open>UPDATE\<close>s.  \<open>retire\<close> writes through a connection of its own: when the ownership table lives in
  the same database file, the transaction's own write lock keeps it waiting until its busy
  timeout raises, unless the session is already retired and nothing has to be written.
\<close>

definition effect_lost :: "string \<Rightarrow> int \<Rightarrow> string \<Rightarrow> real \<Rightarrow> db \<Rightarrow> db" where
  "effect_lost tid ep reason now d =
     d\<lparr>db_effects := update_by effect_key (tid, ep) (\<lambda>e. e_state e \<in> {EReserved, ELaunched})
        (\<lambda>e. e\<lparr>e_state := ETerminal, e_outcome := Some reason, e_updated_at := now\<rparr>) (db_effects d)\<rparr>"

definition retire_holder :: "site \<Rightarrow> task_record \<Rightarrow> owners \<Rightarrow> (derror + unit) \<times> owners" where
  "retire_holder S t rows =
     (let sid = (case t_holder t of None \<Rightarrow> ''None'' | Some h \<Rightarrow> h) in
      if si_one_file S \<and> get_owner sid rows = Inr None then (Inl DOwnership, rows)
      else case retire sid Retired ''managed task lost'' (Some (task_epoch_key ''task:'' t)) (si_stamp S) (\<lambda>r. r) rows of
             (Inl _, rows') \<Rightarrow> (Inl DOwnership, rows')
           | (Inr _, rows') \<Rightarrow> (Inr (), rows'))"

definition loss_reason_text :: "finding \<Rightarrow> string" where
  "loss_reason_text f = ''lost:'' @ printed (v_lost_reason (f_evidence f))"

definition annotate_evidence :: "string \<Rightarrow> string \<Rightarrow> db \<Rightarrow> db" where
  "annotate_evidence tid payload d =
     d\<lparr>db_tasks := update_by t_id tid (\<lambda>r. t_state r \<in> live_states)
                     (\<lambda>r. r\<lparr>t_liveness_evidence := Some payload\<rparr>) (db_tasks d)\<rparr>"

definition loss_transaction ::
  "site \<Rightarrow> task_record \<Rightarrow> string \<Rightarrow> string \<Rightarrow> owners \<Rightarrow> db \<Rightarrow> (derror + string list \<times> db) \<times> owners" where
  "loss_transaction S current reason payload rows d =
     (let tid = t_id current; ep = t_epoch current; d1 = annotate_evidence tid payload d
      in case find_effect tid ep d1 of
           None \<Rightarrow> (Inl (DStore (EffectMissing tid ep)), rows)
         | Some e \<Rightarrow>
             let d2 = (if e_state e \<noteq> ETerminal then effect_lost tid ep reason (si_now S) d1 else d1) in
             (case retire_holder S current rows of
                (Inl err, rows') \<Rightarrow> (Inl err, rows')
              | (Inr _, rows') \<Rightarrow>
                  (case finish_with_wake (si_wid S) (lock_ctx tid (si_ctx S)) tid Lost (Some reason) None False
                          (Some (lock_fence tid (si_ctx S))) (si_now S) d2 of
                     Inl err \<Rightarrow> (Inl (DStore err), rows')
                   | Inr ((_, armed), d3) \<Rightarrow> (Inr (armed, d3), rows'))))"

text \<open>
  \<open>_record_loss\<close> up to its commit: \<open>Inl\<close> is an exception that escapes, \<open>Inr None\<close> a loss that is not
  recorded (a stale verdict or a store error), \<open>Inr (Some armed)\<close> the wakes the parent gets.  The
  cleanup intents are committed before the transaction, and the quarantine of the holder outlives
  a transaction that fails after it.
\<close>

definition commit_loss ::
  "site \<Rightarrow> task_record \<Rightarrow> string \<Rightarrow> string \<Rightarrow> native_command list \<Rightarrow> dstate \<Rightarrow> (derror + string list option) \<times> dstate" where
  "commit_loss S t reason payload cmds w =
     (case get_by_id (t_id t) (ds_db w) of
        None \<Rightarrow> (Inr None, w)
      | Some current \<Rightarrow>
          if t_state current \<noteq> Active \<or> t_epoch current \<noteq> t_epoch t then (Inr None, w)
          else
            let w1 = (if t_holder current = t_holder t
                      then w\<lparr>ds_db := record_cleanup_intents (t_id t) (t_epoch current) (printed (t_holder current)) cmds
                                       (si_now S) (ds_db w)\<rparr>
                      else w)
            in (case loss_transaction S current reason payload (ds_owners w1) (ds_db w1) of
                  (Inl (DStore _), rows') \<Rightarrow> (Inr None, w1\<lparr>ds_owners := rows'\<rparr>)
                | (Inl e, rows') \<Rightarrow> (Inl e, w1\<lparr>ds_owners := rows'\<rparr>)
                | (Inr (armed, d'), rows') \<Rightarrow> (Inr (Some armed), w1\<lparr>ds_db := d', ds_owners := rows'\<rparr>)))"

text \<open>What follows a recorded loss: the workspace stop, the cleanup retries, the baseline, the attention item.\<close>

definition stop_lost_workspace :: "site \<Rightarrow> task_record \<Rightarrow> db \<Rightarrow> db" where
  "stop_lost_workspace S t d =
     (case get_effect (t_id t) (t_epoch t) d of
        None \<Rightarrow> d
      | Some e \<Rightarrow>
          if \<not> truthy (e_workspace_id e) then d
          else (case stop_terminal (si_stop_workspace S) e (si_now S) (si_drift S (t_id t) d) of
                  Inl _ \<Rightarrow> si_drift S (t_id t) d | Inr d' \<Rightarrow> d'))"

definition after_loss :: "site \<Rightarrow> task_record \<Rightarrow> string \<Rightarrow> string \<Rightarrow> dstate \<Rightarrow> dstate" where
  "after_loss S t reason payload w =
     (let d1 = stop_lost_workspace S t (ds_db w);
          (_, d2) = reconcile_cleanup_intents S d1
      in raise_attention S t (''BLOCKED: '' @ t_key t @ '' is '' @ reason @ ''. '' @ payload) (task_epoch_key ''liveness:lost:'' t) None
           (w\<lparr>ds_db := d2, ds_bytes := (ds_bytes w)(t_id t := None)\<rparr>))"

definition record_loss :: "site \<Rightarrow> task_record \<Rightarrow> finding \<Rightarrow> dstate \<Rightarrow> (derror + nat) \<times> dstate" where
  "record_loss S t f w =
     (let reason = loss_reason_text f; payload = si_dumps S (finding_payload f) in
      let w1 = (if truthy (t_holder t) then w\<lparr>ds_db := si_drift S (t_id t) (ds_db w)\<rparr> else w) in
      case (if truthy (t_holder t) then queue_commands S (the (t_holder t)) else Inr []) of
        Inl e \<Rightarrow> (Inl e, w1)
      | Inr cs \<Rightarrow>
          (case commit_loss S t reason payload (map (native_of (si_pystr S)) cs) w1 of
             (Inl e, w2) \<Rightarrow> (Inl e, w2)
           | (Inr None, w2) \<Rightarrow> (Inr 0, w2)
           | (Inr (Some armed), w2) \<Rightarrow> (Inr (length armed), after_loss S t reason payload w2)))"

subsection \<open>Findings\<close>

definition resolve_parked_approval :: "site \<Rightarrow> task_record \<Rightarrow> finding \<Rightarrow> policy \<Rightarrow> dstate \<Rightarrow> dstate" where
  "resolve_parked_approval S t f p w =
     (case t_liveness_since t of
        None \<Rightarrow> w
      | Some since \<Rightarrow>
          if f_now f - since < effective_approval_timeout p then w
          else (case get_by_id (t_id t) (ds_db w) of
                  None \<Rightarrow> w
                | Some current \<Rightarrow>
                    (case finish_with_wake (si_wid S) (lock_ctx (t_id t) (si_ctx S)) (t_id current) Blocked (Some ''approval'') None False
                            (Some (lock_fence (t_id t) (si_ctx S))) (si_now S) (ds_db w) of
                       Inl _ \<Rightarrow> w
                     | Inr (_, d') \<Rightarrow>
                         raise_attention S t
                           (''BLOCKED: '' @ t_key t @ '' is blocked(approval) after '' @ si_fmtg S (effective_approval_timeout p)
                            @ ''s parked. '' @ si_dumps S (finding_payload f))
                           (task_epoch_key ''liveness:approval:'' t) None (w\<lparr>ds_db := d'\<rparr>))))"

definition episode_suffix :: "task_record \<Rightarrow> string" where
  "episode_suffix t = '':'' @ show_int (t_liveness_episode t)"

definition after_finding :: "site \<Rightarrow> task_record \<Rightarrow> finding \<Rightarrow> policy \<Rightarrow> dstate \<Rightarrow> dstate" where
  "after_finding S t f p w =
     (case get_by_id (t_id t) (ds_db w) of
        None \<Rightarrow> w
      | Some c \<Rightarrow>
          if f_reason f = CParked then resolve_parked_approval S c f p w
          else if t_liveness c \<notin> stall_liveness then w
          else if t_parent c = None then
            raise_attention S c
              (''BLOCKED: '' @ t_key c @ '' is '' @ liveness_name (t_liveness c) @ '' and has no manager to wake. ''
               @ si_dumps S (finding_payload f))
              (task_epoch_key ''liveness:unmanaged:'' c @ episode_suffix c) None w
          else
            let persisted = (t_liveness_wakes c \<ge> 1
                  \<and> (case t_liveness_since c of None \<Rightarrow> False | Some s \<Rightarrow> f_now f - s \<ge> p_progress p))
            in if episode_is_exhausted c \<or> persisted then
                 raise_attention S c
                   (''BLOCKED: '' @ t_key c @ '' is '' @ liveness_name (t_liveness c)
                    @ '' after two manager wakes; no progress evidence. '' @ si_dumps S (finding_payload f))
                   (task_epoch_key ''liveness:escalation:'' c @ episode_suffix c) None w
               else w)"

text \<open>The transaction of \<open>_apply_finding\<close> for a finding that is not a loss.\<close>

definition finding_transaction :: "site \<Rightarrow> task_record \<Rightarrow> finding \<Rightarrow> policy \<Rightarrow> db \<Rightarrow> kerror + string list \<times> db" where
  "finding_transaction S t f p d =
     ebind (if f_reason f = CUnknown then Inr d
            else ebind (record_liveness (t_id t) (cause_name (f_reason f))
                          (if f_reason f = CLive then None else Some (si_dumps S (finding_payload f))) (f_now f) d)
                   (\<lambda>(_, d'). Inr d')) (\<lambda>d1.
     ebind (if f_over_budget f then ebind (record_over_budget (t_id t) (si_now S) d1) (\<lambda>(_, d'). Inr d') else Inr d1) (\<lambda>d2.
       Inr (record_liveness_wakes (si_wid S) (t_id t) (f_now f) (p_progress p) d2)))"

definition apply_finding :: "site \<Rightarrow> task_record \<Rightarrow> finding \<Rightarrow> policy \<Rightarrow> dstate \<Rightarrow> (derror + nat) \<times> dstate" where
  "apply_finding S t f p w =
     (if f_reason f = CLost then record_loss S t f w
      else if f_reason f = CUnknown \<and> \<not> f_over_budget f then (Inr 0, w)
      else case finding_transaction S t f p (ds_db w) of
             Inl _ \<Rightarrow> (Inr 0, w)
           | Inr (armed, d') \<Rightarrow> (Inr (length armed), after_finding S t f p (w\<lparr>ds_db := d'\<rparr>)))"

subsection \<open>The pass\<close>

definition evidence_of :: "site \<Rightarrow> string \<Rightarrow> real option \<Rightarrow> int option \<Rightarrow> evidence" where
  "evidence_of S session checkpoint_at previous =
     gather_evidence (si_pystr S) (si_isotime S) (si_processes S session) (si_snapshot S) (si_queue S session)
       (si_now S) checkpoint_at previous"

definition remember_bytes :: "string \<Rightarrow> evidence \<Rightarrow> dstate \<Rightarrow> dstate" where
  "remember_bytes tid v w =
     (if v_observed v \<and> v_output_bytes v \<noteq> None then w\<lparr>ds_bytes := (ds_bytes w)(tid := v_output_bytes v)\<rparr> else w)"

definition task_cause :: "site \<Rightarrow> task_record \<Rightarrow> evidence \<Rightarrow> policy \<Rightarrow> db \<Rightarrow> cause" where
  "task_cause S t v p d =
     (let c = classify v (si_now S) p
      in if (c = CIdle \<or> c = CStalled) \<and> has_live_wait_predicate (t_id t) d then CLive else c)"

definition task_evidence :: "site \<Rightarrow> task_record \<Rightarrow> dstate \<Rightarrow> evidence" where
  "task_evidence S t w = evidence_of S (printed (t_holder t)) (t_checkpoint_at t) (ds_bytes w (t_id t))"

definition task_finding :: "site \<Rightarrow> task_record \<Rightarrow> policy \<Rightarrow> evidence \<Rightarrow> db \<Rightarrow> finding" where
  "task_finding S t p v d =
     \<lparr>f_reason = task_cause S t v p d, f_evidence = v, f_now = si_now S, f_over_budget = over_budget v (p_budget p)\<rparr>"

definition detect_one :: "site \<Rightarrow> task_record \<Rightarrow> dstate \<Rightarrow> (derror + nat \<times> nat) \<times> dstate" where
  "detect_one S t w =
     (case detection_policy S t of
        Inl (BudgetError _) \<Rightarrow> (Inl DBudget, w)
      | Inl (DetectionPolicyError m) \<Rightarrow>
          (Inr (0, 0),
           raise_attention S t (''BLOCKED: '' @ t_key t @ '' has an unusable detection policy and cannot be watched: '' @ m)
             (task_epoch_key ''liveness:policy:'' t) None w)
      | Inr p \<Rightarrow>
          let v = task_evidence S t w; f = task_finding S t p v (ds_db w)
          in (case apply_finding S t f p (remember_bytes (t_id t) v w) of
                (Inl e, w2) \<Rightarrow> (Inl e, w2)
              | (Inr armed, w2) \<Rightarrow> (Inr (if actionable f \<or> f_over_budget f then 1 else 0, armed), w2)))"

text \<open>One task's failure costs only that task; a late clock ends the pass and leaves the cursor behind.\<close>

fun detect_each :: "site \<Rightarrow> task_record list \<Rightarrow> dstate \<Rightarrow> (nat \<times> nat) \<times> dstate" where
  "detect_each S [] w = ((0, 0), w)"
| "detect_each S (t # ts) w =
     (case detect_one S t w of
        (Inl _, w1) \<Rightarrow> detect_each S ts w1
      | (Inr (found, armed), w1) \<Rightarrow>
          if si_late S (t_id t) then ((found, armed), w1\<lparr>ds_cursor := t_id t\<rparr>)
          else (let ((n, m), w2) = detect_each S ts w1 in ((found + n, armed + m), w2)))"

text \<open>
  \<open>_scan_reserved\<close>: the loop stops at the first error that is not a policy error.
\<close>

fun scan_each :: "site \<Rightarrow> task_record list \<Rightarrow> dstate \<Rightarrow> (derror + unit) \<times> dstate" where
  "scan_each S [] w = (Inr (), w)"
| "scan_each S (t # ts) w =
     (case detection_policy S t of
        Inl (BudgetError _) \<Rightarrow> (Inl DBudget, w)
      | r \<Rightarrow>
          let p = (case r of Inr p \<Rightarrow> p | Inl _ \<Rightarrow> \<lparr>p_progress = default_progress, p_approval = None, p_budget = None\<rparr>)
          in if si_now S - t_created_at t < p_progress p then scan_each S ts w
             else scan_each S ts
               (raise_attention S t
                  (''BLOCKED: '' @ t_key t @ '' has been reserved without ever launching for ''
                   @ si_fmt0 S (si_now S - t_created_at t) @ ''s.'')
                  (task_epoch_key ''liveness:reserved:'' t)
                  (Some (if truthy (t_holder t) then the (t_holder t) else t_id t)) w))"

definition scan_reserved :: "site \<Rightarrow> dstate \<Rightarrow> (derror + unit) \<times> dstate" where
  "scan_reserved S w = scan_each S (map decode_task (filter (\<lambda>r. t_state r = Reserved) (db_tasks (ds_db w)))) w"

definition detect_liveness :: "site \<Rightarrow> dstate \<Rightarrow> (derror + nat \<times> nat) \<times> dstate" where
  "detect_liveness S w =
     (let ((selected, watched), w1) = detection_slice S w;
          (counts, w2) = detect_each S selected (evict_baselines watched w1)
      in case scan_reserved S w2 of (Inl e, w3) \<Rightarrow> (Inl e, w3) | (Inr _, w3) \<Rightarrow> (Inr counts, w3))"

subsection \<open>The sweep of executor-declared losses\<close>

definition sweep_one :: "site \<Rightarrow> task_record \<Rightarrow> dstate \<Rightarrow> nat \<times> dstate" where
  "sweep_one S t w =
     (if \<not> truthy (t_holder t) then (0, w)
      else case get_by_id (t_id t) (ds_db w) of
        None \<Rightarrow> (0, w)
      | Some current \<Rightarrow>
          if t_state current \<noteq> Active \<or> t_epoch current \<noteq> t_epoch t then (0, w)
          else
            let v = evidence_of S (printed (t_holder current)) (t_checkpoint_at current) None;
                w1 = w\<lparr>ds_db := si_drift S (t_id t) (ds_db w)\<rparr>
            in if \<not> truthy (v_lost_reason v) then (0, w1)
               else (case record_loss S t \<lparr>f_reason = CLost, f_evidence = v, f_now = si_now S, f_over_budget = False\<rparr> w1 of
                       (Inl _, w2) \<Rightarrow> (0, w2)
                     | (Inr _, w2) \<Rightarrow> (1, w2)))"

fun sweep_each :: "site \<Rightarrow> task_record list \<Rightarrow> dstate \<Rightarrow> nat \<times> dstate" where
  "sweep_each S [] w = (0, w)"
| "sweep_each S (t # ts) w = (let (n, w1) = sweep_one S t w; (m, w2) = sweep_each S ts w1 in (n + m, w2))"

definition sweep_losses :: "site \<Rightarrow> dstate \<Rightarrow> nat \<times> dstate" where
  "sweep_losses S w = sweep_each S (list_state Active (ds_db w)) w"

subsection \<open>The tick\<close>

fun wake_each :: "(string \<Rightarrow> string) \<Rightarrow> string list \<Rightarrow> real \<Rightarrow> db \<Rightarrow> nat \<times> db" where
  "wake_each wid [] now d = (0, d)"
| "wake_each wid (p # ps) now d =
     (let (created, d1) = record_wakes wid p now d; (n, d2) = wake_each wid ps now d1 in (length created + n, d2))"

definition cohort_parents :: "db \<Rightarrow> string list" where
  "cohort_parents d = keep_first (concat (map (\<lambda>r. case t_parent r of None \<Rightarrow> [] | Some p \<Rightarrow> [p]) (db_tasks d)))"

definition cohort_wakes :: "site \<Rightarrow> dstate \<Rightarrow> nat \<times> dstate" where
  "cohort_wakes S w =
     (let (n, d') = wake_each (si_wid S) (cohort_parents (ds_db w)) (si_now S) (ds_db w) in (n, w\<lparr>ds_db := d'\<rparr>))"

subsection \<open>The scan reaches every task\<close>

text \<open>The ids one pass classifies.\<close>

fun visited :: "site \<Rightarrow> task_record list \<Rightarrow> dstate \<Rightarrow> string list" where
  "visited S [] w = []"
| "visited S (t # ts) w =
     t_id t # (case detect_one S t w of
                 (Inl _, w1) \<Rightarrow> visited S ts w1
               | (Inr _, w1) \<Rightarrow> if si_late S (t_id t) then [] else visited S ts w1)"

definition pass_visits :: "site \<Rightarrow> dstate \<Rightarrow> string list" where
  "pass_visits S w = (let ((selected, watched), w1) = detection_slice S w in visited S selected (evict_baselines watched w1))"

definition start_of :: "string \<Rightarrow> string list \<Rightarrow> nat" where
  "start_of c xs = (let p = length (takeWhile (\<lambda>i. \<not> c < i) xs) in if p < length xs then p else 0)"

lemma rotation_rotate: "rotation c xs = rotate (start_of c xs) xs"
proof (cases "list_ex (\<lambda>i. c < i) xs")
  case True
  then have p: "length (takeWhile (\<lambda>i. \<not> c < i) xs) < length xs"
    by (induction xs) auto
  then show ?thesis using True
    by (simp add: rotation_def start_of_def Let_def rotate_drop_take dropWhile_eq_drop [symmetric] takeWhile_eq_take [symmetric])
next
  case False
  then have "takeWhile (\<lambda>i. \<not> c < i) xs = xs" by (simp only: takeWhile_eq_all_conv list_ex_iff) blast
  then have "length (takeWhile (\<lambda>i. \<not> c < i) xs) = length xs" by (simp only:)
  then show ?thesis using False by (simp add: rotation_def start_of_def)
qed

lemma start_of_nth:
  assumes "sorted xs" "distinct xs" "j < length xs"
  shows "start_of (xs ! j) xs = Suc j mod length xs"
proof -
  have "takeWhile (\<lambda>i. \<not> xs ! j < i) xs = take (Suc j) xs"
  proof (rule takeWhile_eq_take_P_nth)
    fix i assume "i < Suc j" "i < length xs"
    then show "\<not> xs ! j < xs ! i" using assms by (simp add: not_less sorted_nth_mono)
  next
    assume "Suc j < length xs"
    then have "xs ! j \<le> xs ! Suc j" "xs ! j \<noteq> xs ! Suc j"
      using assms by (simp_all add: sorted_nth_mono nth_eq_iff_index_eq)
    then show "\<not> \<not> xs ! j < xs ! Suc j" by simp
  qed
  then have "length (takeWhile (\<lambda>i. \<not> xs ! j < i) xs) = Suc j" using assms(3) by simp
  then show ?thesis using assms(3) by (cases "Suc j = length xs") (simp_all add: start_of_def)
qed

text \<open>A pass visits a run of the circle of ids and leaves the cursor at its end, or visits all.\<close>

definition advances :: "string list \<Rightarrow> string \<Rightarrow> string \<Rightarrow> string list \<Rightarrow> bool" where
  "advances xs c c' v \<longleftrightarrow>
     set v = set xs \<or> (\<exists>m. 1 \<le> m \<and> v = take m (rotate (start_of c xs) xs) \<and> m \<le> length xs \<and> c' = last v)"

lemma advances_start:
  assumes "sorted xs" "distinct xs" "xs \<noteq> []" "1 \<le> m" "m \<le> length xs"
    "c' = last (take m (rotate (start_of c xs) xs))"
  shows "start_of c' xs = (start_of c xs + m) mod length xs"
    "set (take m (rotate (start_of c xs) xs)) = (\<lambda>j. xs ! ((start_of c xs + j) mod length xs)) ` {..<m}"
proof -
  let ?r = "rotate (start_of c xs) xs"
  have "c' = ?r ! (m - 1)"
    using assms by (subst assms(6), subst last_conv_nth) auto
  also have "\<dots> = xs ! ((start_of c xs + (m - 1)) mod length xs)"
    using assms by (simp add: nth_rotate)
  finally have c': "c' = xs ! ((start_of c xs + (m - 1)) mod length xs)" .
  have "start_of c' xs = Suc ((start_of c xs + (m - 1)) mod length xs) mod length xs"
    unfolding c' using assms by (intro start_of_nth) auto
  then show "start_of c' xs = (start_of c xs + m) mod length xs"
    using assms(4) by (simp add: mod_Suc_eq)
  have "set (take m ?r) = (\<lambda>j. ?r ! j) ` {..<m}"
    using nth_image [of m ?r] assms(5) by (simp add: lessThan_atLeast0)
  also have "\<dots> = (\<lambda>j. xs ! ((start_of c xs + j) mod length xs)) ` {..<m}"
    using assms(5) by (intro image_cong refl) (simp add: nth_rotate)
  finally show "set (take m ?r) = (\<lambda>j. xs ! ((start_of c xs + j) mod length xs)) ` {..<m}" .
qed

lemma circle_covered:
  assumes "M \<ge> length xs" "xs \<noteq> []"
  shows "set xs \<subseteq> (\<lambda>j. xs ! ((p + j) mod length xs)) ` {..<M}"
proof
  fix x assume "x \<in> set xs"
  then obtain i where i: "i < length xs" "x = xs ! i" by (auto simp: in_set_conv_nth)
  let ?n = "length xs"
  let ?j = "(i + (?n - p mod ?n)) mod ?n"
  have "(p + ?j) mod ?n = (p mod ?n + (i + (?n - p mod ?n))) mod ?n"
    by (simp add: mod_add_left_eq mod_add_right_eq)
  also have "\<dots> = (i + ?n) mod ?n"
  proof -
    have "p mod ?n \<le> ?n" using assms(2) by (simp add: less_imp_le)
    then show ?thesis by (simp add: algebra_simps)
  qed
  also have "\<dots> = i" using i(1) by simp
  finally have "x = xs ! ((p + ?j) mod ?n)" using i(2) by simp
  moreover have "?j < M" using assms by (meson length_greater_0_conv less_le_trans mod_less_divisor)
  ultimately show "x \<in> (\<lambda>j. xs ! ((p + j) mod ?n)) ` {..<M}" by blast
qed

lemma passes_cover:
  assumes xs: "sorted xs" "distinct xs" "xs \<noteq> []"
    and step: "\<And>i. i < k \<Longrightarrow> advances xs (c i) (c (Suc i)) (v i)"
  shows "(\<exists>i<k. set (v i) = set xs)
       \<or> (\<exists>M \<ge> k. start_of (c k) xs = (start_of (c 0) xs + M) mod length xs
            \<and> (\<lambda>j. xs ! ((start_of (c 0) xs + j) mod length xs)) ` {..<M} \<subseteq> (\<Union>i<k. set (v i)))"
  using step
proof (induction k)
  case 0
  have "start_of (c 0) xs < length xs" using xs(3) by (auto simp: start_of_def Let_def)
  then show ?case by (intro disjI2 exI [of _ 0]) simp
next
  case (Suc k)
  let ?n = "length xs" and ?p = "start_of (c 0) xs"
  show ?case
  proof (cases "\<exists>i<Suc k. set (v i) = set xs")
    case False
    then have "\<not> (\<exists>i<k. set (v i) = set xs)" "set (v k) \<noteq> set xs" by auto
    with Suc obtain M where M: "M \<ge> k" "start_of (c k) xs = (?p + M) mod ?n"
        "(\<lambda>j. xs ! ((?p + j) mod ?n)) ` {..<M} \<subseteq> (\<Union>i<k. set (v i))" by auto
    from Suc.prems [of k] \<open>set (v k) \<noteq> set xs\<close> obtain m where m: "1 \<le> m" "v k = take m (rotate (start_of (c k) xs) xs)" "m \<le> ?n"
      "c (Suc k) = last (v k)" unfolding advances_def by blast
    note a = advances_start [OF xs m(1,3) m(4) [unfolded m(2)]]
    have "start_of (c (Suc k)) xs = (?p + (M + m)) mod ?n" using a(1) M(2) by (simp add: mod_add_left_eq add.assoc)
    moreover have "(\<lambda>j. xs ! ((?p + j) mod ?n)) ` {..<M + m} \<subseteq> (\<Union>i<Suc k. set (v i))"
    proof
      fix y assume "y \<in> (\<lambda>j. xs ! ((?p + j) mod ?n)) ` {..<M + m}"
      then obtain j where j: "j < M + m" "y = xs ! ((?p + j) mod ?n)" by blast
      show "y \<in> (\<Union>i<Suc k. set (v i))"
      proof (cases "j < M")
        case True
        with j M(3) show ?thesis by (force simp: less_Suc_eq)
      next
        case False
        have "(start_of (c k) xs + (j - M)) mod ?n = (?p + M + (j - M)) mod ?n"
          unfolding M(2) by (rule mod_add_left_eq)
        with False have "y = xs ! ((start_of (c k) xs + (j - M)) mod ?n)" "j - M < m"
          using j by simp_all
        then have "y \<in> set (v k)" unfolding m(2) a(2) by blast
        then show ?thesis by blast
      qed
    qed
    moreover have "M + m \<ge> Suc k" using M(1) m(1) by simp
    ultimately show ?thesis by blast
  qed blast
qed

lemma raise_attention_keeps [simp]:
  "ds_cursor (raise_attention S t m k s w) = ds_cursor w" "ds_db (raise_attention S t m k s w) = ds_db w"
  "ds_bytes (raise_attention S t m k s w) = ds_bytes w" "ds_owners (raise_attention S t m k s w) = ds_owners w"
  by (simp_all add: raise_attention_def Let_def)

lemma commit_loss_cursor: "ds_cursor (snd (commit_loss S t r p cs w)) = ds_cursor w"
  by (auto simp: commit_loss_def Let_def split: option.splits sum.splits derror.splits prod.splits)

lemma after_loss_cursor [simp]: "ds_cursor (after_loss S t r p w) = ds_cursor w"
  by (simp add: after_loss_def Let_def split: prod.splits)

lemma record_loss_cursor: "ds_cursor (snd (record_loss S t f w)) = ds_cursor w"
proof (cases "if truthy (t_holder t) then queue_commands S (the (t_holder t)) else Inr []")
  case (Inl e)
  then show ?thesis by (simp add: record_loss_def Let_def)
next
  case (Inr cs)
  obtain r w2 where c: "commit_loss S t (loss_reason_text f) (si_dumps S (finding_payload f)) (map (native_of (si_pystr S)) cs)
      (if truthy (t_holder t) then w\<lparr>ds_db := si_drift S (t_id t) (ds_db w)\<rparr> else w) = (r, w2)" by fastforce
  have "ds_cursor w2 = ds_cursor w"
    using commit_loss_cursor [of S t "loss_reason_text f" "si_dumps S (finding_payload f)" "map (native_of (si_pystr S)) cs"
        "if truthy (t_holder t) then w\<lparr>ds_db := si_drift S (t_id t) (ds_db w)\<rparr> else w"] by (simp add: c split: if_splits)
  then show ?thesis by (simp only: record_loss_def Let_def Inr sum.case c prod.case) (simp split: sum.splits option.splits)
qed

lemma after_finding_cursor: "ds_cursor (after_finding S t f p w) = ds_cursor w"
  by (auto simp: after_finding_def resolve_parked_approval_def Let_def split: option.splits sum.splits)

lemma apply_finding_cursor: "ds_cursor (snd (apply_finding S t f p w)) = ds_cursor w"
  using record_loss_cursor by (auto simp: apply_finding_def after_finding_cursor split: sum.splits)

lemma remember_bytes_keeps [simp]:
  "ds_cursor (remember_bytes i v w) = ds_cursor w" "ds_db (remember_bytes i v w) = ds_db w"
  by (simp_all add: remember_bytes_def)

lemma detect_one_cases:
  obtains "detect_one S t w = (Inl DBudget, w)"
  | m k where "detect_one S t w = (Inr (0, 0), raise_attention S t m k None w)"
  | p r w2 where "detection_policy S t = Inr p"
      "apply_finding S t (task_finding S t p (task_evidence S t w) (ds_db w)) p (remember_bytes (t_id t) (task_evidence S t w) w) = (r, w2)"
      "snd (detect_one S t w) = w2"
proof (cases "detection_policy S t")
  case (Inl e)
  then show thesis using that(1,2) by (cases e) (auto simp: detect_one_def)
next
  case (Inr p)
  obtain r w2 where r: "apply_finding S t (task_finding S t p (task_evidence S t w) (ds_db w)) p
      (remember_bytes (t_id t) (task_evidence S t w) w) = (r, w2)" by fastforce
  show thesis
    by (rule that(3) [OF Inr r]) (simp add: detect_one_def Inr Let_def r split: sum.splits)
qed

lemma detect_one_cursor: "ds_cursor (snd (detect_one S t w)) = ds_cursor w"
proof (cases rule: detect_one_cases [of S t w])
  case (3 p r w2)
  then show ?thesis
    using apply_finding_cursor [of S t "task_finding S t p (task_evidence S t w) (ds_db w)" p
        "remember_bytes (t_id t) (task_evidence S t w) w"] by simp
qed simp_all

lemma detect_each_cursor:
  "(visited S ts w = map t_id ts \<and> ds_cursor (snd (detect_each S ts w)) = ds_cursor w)
   \<or> (\<exists>m. 1 \<le> m \<and> m \<le> length ts \<and> visited S ts w = take m (map t_id ts)
        \<and> ds_cursor (snd (detect_each S ts w)) = last (visited S ts w))"
proof (induction ts arbitrary: w)
  case (Cons t ts)
  obtain r w1 where one: "detect_one S t w = (r, w1)" by fastforce
  have c1: "ds_cursor w1 = ds_cursor w" using detect_one_cursor [of S t w] by (simp add: one)
  have rest: ?case if v: "visited S (t # ts) w = t_id t # visited S ts w1"
    and d: "ds_cursor (snd (detect_each S (t # ts) w)) = ds_cursor (snd (detect_each S ts w1))"
  proof (rule disjE [OF Cons.IH [of w1]])
    assume "visited S ts w1 = map t_id ts \<and> ds_cursor (snd (detect_each S ts w1)) = ds_cursor w1"
    with v d c1 show ?thesis by simp
  next
    assume "\<exists>m. 1 \<le> m \<and> m \<le> length ts \<and> visited S ts w1 = take m (map t_id ts)
        \<and> ds_cursor (snd (detect_each S ts w1)) = last (visited S ts w1)"
    then obtain m where m: "1 \<le> m" "m \<le> length ts" "visited S ts w1 = take m (map t_id ts)"
        "ds_cursor (snd (detect_each S ts w1)) = last (visited S ts w1)" by blast
    then have "visited S ts w1 \<noteq> []" by auto
    with v d m show ?thesis by (intro disjI2 exI [of _ "Suc m"]) simp
  qed
  show ?case
  proof (cases r)
    case (Inl e)
    then show ?thesis by (intro rest) (simp_all add: one)
  next
    case (Inr counts)
    show ?thesis
    proof (cases "si_late S (t_id t)")
      case True
      then show ?thesis using Inr one by (intro disjI2 exI [of _ 1]) (simp split: prod.splits)
    next
      case False
      then show ?thesis using Inr one by (intro rest) (simp_all split: prod.splits)
    qed
  qed
qed simp

lemma get_watched: "i \<in> set (watched_ids d) \<Longrightarrow> \<exists>t. get_by_id i d = Some t \<and> t_id t = i"
proof -
  assume "i \<in> set (watched_ids d)"
  then obtain r where "r \<in> set (db_tasks d)" "t_id r = i" by (auto simp: watched_ids_def)
  then have "lookup_by t_id i (db_tasks d) \<noteq> None" by (auto simp: lookup_by_None_iff)
  then obtain r' where "find_task i d = Some r'" "t_id r' = i" by (auto simp: find_task_def dest: lookup_by_SomeD)
  then show ?thesis by (simp add: get_by_id_def decode_task_def task_record.defs)
qed

lemma slice_ids_take: "slice_ids cap c xs = take cap (rotate (start_of c xs) xs)"
  by (simp add: slice_ids_def rotation_rotate Let_def)

lemma slice_tasks:
  assumes "\<forall>i \<in> set ids. \<exists>t. get_by_id i d = Some t \<and> t_id t = i"
  shows "map t_id (concat (map (\<lambda>i. case get_by_id i d of None \<Rightarrow> [] | Some t \<Rightarrow> [t]) ids)) = ids"
  using assms by (induction ids) auto

lemma pass_advances:
  assumes "watched_ids (ds_db w) = xs" "si_cap S \<ge> 1" "xs \<noteq> []"
  shows "advances xs (ds_cursor w) (ds_cursor (snd (detect_liveness S w))) (pass_visits S w)"
proof -
  let ?cap = "si_cap S" and ?r = "rotate (start_of (ds_cursor w) xs) xs"
  obtain sel watched w1 where sl: "detection_slice S w = ((sel, watched), w1)" by (metis prod.exhaust)
  let ?w = "evict_baselines watched w1"
  have ids: "map t_id sel = take ?cap ?r"
  proof -
    have "sel = concat (map (\<lambda>i. case get_by_id i (ds_db w) of None \<Rightarrow> [] | Some t \<Rightarrow> [t]) (take ?cap ?r))"
      using sl assms(1) by (simp add: detection_slice_def Let_def slice_ids_take)
    moreover have "\<forall>i \<in> set (take ?cap ?r). \<exists>t. get_by_id i (ds_db w) = Some t \<and> t_id t = i"
      using get_watched [of _ "ds_db w"] assms(1) by (metis in_set_takeD set_rotate)
    ultimately show ?thesis by (simp add: slice_tasks)
  qed
  have cursor: "ds_cursor ?w = (if length xs \<le> ?cap then [] else last (take ?cap ?r))"
    using sl assms by (auto simp: detection_slice_def Let_def slice_cursor_def slice_ids_take evict_baselines_def)
  have after: "ds_cursor (snd (detect_liveness S w)) = ds_cursor (snd (detect_each S sel ?w))"
  proof -
    have "ds_cursor (snd (scan_each S ts v)) = ds_cursor v" for ts v
      by (induction ts arbitrary: v) (auto simp: Let_def split: sum.splits lerror.splits)
    then have "ds_cursor (snd (scan_reserved S v)) = ds_cursor v" for v by (simp add: scan_reserved_def)
    moreover obtain counts w2 where "detect_each S sel ?w = (counts, w2)" by fastforce
    moreover obtain res w3 where "scan_reserved S w2 = (res, w3)" by fastforce
    ultimately show ?thesis by (auto simp: detect_liveness_def Let_def sl split: sum.splits) (metis snd_conv)+
  qed
  have v: "pass_visits S w = visited S sel ?w" by (simp add: pass_visits_def sl)
  from detect_each_cursor [of S sel ?w] show ?thesis
  proof
    assume full: "visited S sel ?w = map t_id sel \<and> ds_cursor (snd (detect_each S sel ?w)) = ds_cursor ?w"
    show ?thesis
    proof (cases "length xs \<le> ?cap")
      case True
      then have "set (pass_visits S w) = set xs" using full v ids by simp
      then show ?thesis by (simp add: advances_def)
    next
      case False
      then show ?thesis using full v ids cursor after assms
        by (auto simp: advances_def intro!: exI [of _ ?cap])
    qed
  next
    assume "\<exists>m. 1 \<le> m \<and> m \<le> length sel \<and> visited S sel ?w = take m (map t_id sel)
        \<and> ds_cursor (snd (detect_each S sel ?w)) = last (visited S sel ?w)"
    then obtain m where m: "1 \<le> m" "m \<le> length sel" "visited S sel ?w = take m (map t_id sel)"
      "ds_cursor (snd (detect_each S sel ?w)) = last (visited S sel ?w)" by blast
    have "length sel = min ?cap (length xs)" using arg_cong [OF ids, of length] by (simp add: min.commute)
    with m have "m \<le> ?cap" "m \<le> length xs" by simp_all
    with m ids v after show ?thesis
      by (auto simp: advances_def min_absorb1 intro!: exI [of _ m])
  qed
qed

lemma passes_reach:
  assumes "sorted xs" "distinct xs"
    and "\<And>i. i < length xs \<Longrightarrow> watched_ids (ds_db (W i)) = xs \<and> si_cap (S i) \<ge> 1
           \<and> ds_cursor (W (Suc i)) = ds_cursor (snd (detect_liveness (S i) (W i)))"
    and "tid \<in> set xs"
  shows "\<exists>i < length xs. tid \<in> set (pass_visits (S i) (W i))"
proof -
  have ne: "xs \<noteq> []" using assms(4) by auto
  have adv: "advances xs (ds_cursor (W i)) (ds_cursor (W (Suc i))) (pass_visits (S i) (W i))" if "i < length xs" for i
    using assms(3) [OF that] pass_advances [of "W i" xs "S i"] ne by simp
  show ?thesis
  proof (rule disjE [OF passes_cover [where k = "length xs" and c = "\<lambda>i. ds_cursor (W i)"
        and v = "\<lambda>i. pass_visits (S i) (W i)", OF assms(1,2) ne]], goal_cases)
    case (1 i)
    then show ?case by (rule adv)
  next
    case 2
    with assms(4) show ?case by blast
  next
    case 3
    with circle_covered [OF _ ne] assms(4) show ?case by blast
  qed
qed

end
