(* ===== verification/Reconciler.thy ===== *)
theory Reconciler
  imports Detector
begin

text \<open>
  What the passes of \<open>Detector\<close> promise.  A recorded loss is one commit (task, effect, holder and
  the manager's wake together) that refines the kernel's logged transactions; the liveness pass
  only observes, unless the executor itself declared a loss or a human left an approval waiting;
  and a cleanup intent is settled only by a terminal answer of the executor.
\<close>

subsection \<open>The tail of a terminal transition keeps the task's facts\<close>

text \<open>Databases whose tasks differ in wake bookkeeping only.\<close>

definition same_facts :: "db \<Rightarrow> db \<Rightarrow> bool" where
  "same_facts d d' \<longleftrightarrow>
     db_effects d' = db_effects d \<and> db_cleanups d' = db_cleanups d \<and> db_outgoing d' = db_outgoing d
     \<and> (\<forall>i. map_option lifecycle_facts (find_task i d') = map_option lifecycle_facts (find_task i d))"

lemma same_facts_refl [simp]: "same_facts d d"
  by (simp add: same_facts_def)

lemma same_facts_trans: "same_facts a b \<Longrightarrow> same_facts b c \<Longrightarrow> same_facts a c"
  by (simp add: same_facts_def)

lemma same_facts_bump:
  assumes "\<And>r. lifecycle_facts (f r) = lifecycle_facts r" "\<And>r. t_id (f r) = t_id r"
  shows "same_facts d (bump_task tid f d)"
  using assms by (simp add: same_facts_def bump_task_def find_task_def lookup_update_by option.map_comp o_def
      if_distrib cong: if_cong)

lemma same_facts_insert_wake: "insert_wake row c now d = (ins, d') \<Longrightarrow> same_facts d d'"
  using insert_wake_frame [of row c now d] by (simp add: same_facts_def find_task_def)

lemma same_facts_write:
  assumes w: "task_write tid r r' d d'" and e: "lifecycle_facts r' = lifecycle_facts r"
  shows "same_facts d d'"
proof -
  have "map_option lifecycle_facts (find_task i d') = map_option lifecycle_facts (find_task i d)" for i
    using task_write_find [OF w] w e by (cases "i = tid") (simp_all add: task_write_def)
  then show ?thesis using w by (simp add: same_facts_def task_write_def same_side_tables_def)
qed

lemma same_facts_arm_each: "arm_each wid p seq now ps d = (created, d') \<Longrightarrow> same_facts d d'"
  by (induction ps arbitrary: d created)
    (auto simp: Let_def split: prod.splits intro: same_facts_trans same_facts_insert_wake)

lemma same_facts_record_wakes: "record_wakes wid p now d = (created, d') \<Longrightarrow> same_facts d d'"
  by (auto simp: record_wakes_def Let_def split: option.splits if_splits intro: same_facts_arm_each)

lemma same_facts_arm_liveness: "arm_liveness wid p reason key now one d = (created, d') \<Longrightarrow> same_facts d d'"
  by (auto simp: arm_liveness_def Let_def split: if_splits prod.splits intro: same_facts_insert_wake)

lemma same_facts_count:
  "same_facts d d1 \<Longrightarrow>
   same_facts d (bump_task tid (\<lambda>r. r\<lparr>t_liveness_wakes := t_liveness_wakes r + 1, t_liveness_since := Some now\<rparr>) d1)"
  by (erule same_facts_trans, rule same_facts_bump) (simp_all add: lifecycle_facts_def)

lemma same_facts_arm_stall: "arm_stall wid p row now timeout d = (created, d') \<Longrightarrow> same_facts d d'"
  unfolding arm_stall_def Let_def
  by (auto split: if_splits prod.splits intro: same_facts_arm_liveness same_facts_count)

lemma same_facts_liveness_wakes:
  assumes "record_liveness_wakes wid child now timeout d = (created, d')"
  shows "same_facts d d'"
proof (cases "find_task child d")
  case (Some row)
  obtain a d1 where a: "arm_stall wid (the (t_parent row)) row now timeout d = (a, d1)" by fastforce
  show ?thesis
    using assms same_facts_arm_stall [OF a] unfolding record_liveness_wakes_def Some option.case Let_def a prod.case
    by (auto split: if_splits prod.splits dest: same_facts_arm_liveness intro: same_facts_trans)
qed (use assms in \<open>simp add: record_liveness_wakes_def\<close>)

lemma finish_with_wake_facts:
  assumes run: "finish_with_wake wid x tid st res ev charge fence now d = Inr ((rec, created), d')" and ok: "db_ok d"
  obtains r r' d1 where "task_write tid r r' d d1" "lifecycle_step r r'" "rec = decode_task r'" "same_facts d1 d'"
    "t_state r' = st \<or> t_state r' = Exhausted"
  using run
proof (rule finish_with_wakeE)
  fix x' f d1
  let ?bump = "bump_task (the (t_parent rec)) (\<lambda>r. r\<lparr>t_child_event_seq := t_child_event_seq r + 1\<rparr>) d1"
  assume fin: "finish x' tid st res ev charge (Some f) True now d = Inr (rec, d1)"
    and orphan: "\<not> truthy (t_parent rec) \<Longrightarrow> d' = d1 \<and> created = []"
    and told: "truthy (t_parent rec) \<Longrightarrow> \<exists>cohort d3 live.
       record_wakes wid (the (t_parent rec)) now ?bump = (cohort, d3)
       \<and> record_liveness_wakes wid (t_id rec) now default_progress_timeout d3 = (live, d')
       \<and> created = cohort @ live"
  from finish_lifecycle [OF fin ok] obtain r r' where
    w: "task_write tid r r' d d1" "lifecycle_step r r'" "rec = decode_task r'" by (auto simp: lifecycle_write_def)
  have "same_facts d1 d'"
  proof (cases "truthy (t_parent rec)")
    case True
    have "same_facts d1 ?bump" by (rule same_facts_bump) (simp_all add: lifecycle_facts_def)
    with told [OF True] show ?thesis
      by (blast intro: same_facts_trans same_facts_record_wakes same_facts_liveness_wakes)
  qed (use orphan in simp)
  moreover have "t_state r' = st \<or> t_state r' = Exhausted"
    using finish_state [OF fin ok] by (simp add: w(3) decode_task_def task_record.defs)
  ultimately show thesis using w that by blast
qed

subsection \<open>A recorded loss refines the kernel's transactions\<close>

text \<open>
  The two raw \<open>UPDATE\<close>s of the transaction write no history.  Up to the history, they are the
  logged writes of the kernel, so every property of a step that does not speak of the history
  holds for a recorded loss.
\<close>

lemma annotate_refines:
  assumes inv: "kernel_inv d"
  shows "\<exists>d'. kernel_step d d' \<and> forget d' = forget (annotate_evidence tid payload d)"
proof (cases "\<exists>r. find_task tid d = Some r \<and> t_state r \<in> live_states")
  case True
  then obtain r where r: "find_task tid d = Some r" "t_state r \<in> live_states" by blast
  let ?f = "\<lambda>r :: task_row. r\<lparr>t_liveness_evidence := Some payload\<rparr>"
  note ok = kernel_inv_ok [OF inv]
  have row: "task_row_ok (?f r)" using db_ok_row [OF ok r(1)] by (simp add: task_row_ok_def)
  have others: "\<forall>x \<in> set (db_tasks d). t_id x \<noteq> tid \<longrightarrow> live_holder x \<longrightarrow> t_holder x \<noteq> t_holder (?f r)"
    if live: "live_holder (?f r)"
  proof (intro ballI impI notI)
    fix x assume x: "x \<in> set (db_tasks d)" "t_id x \<noteq> tid" "live_holder x" "t_holder x = t_holder (?f r)"
    have "live_holder r" using live by (simp add: live_holder_def)
    moreover have "r \<in> set (db_tasks d)" "t_id r = tid" using find_task_SomeD [OF r(1)] by auto
    moreover have "unique_where live_holder t_holder (db_tasks d)" "distinct (db_tasks d)"
      using db_ok_tasks [OF ok] by (auto simp: task_table_ok_def distinct_map)
    ultimately show False using x unique_whereD by fastforce
  qed
  have "\<exists>d'. change_task tid ''loss'' HObservation 0 (\<lambda>r. t_state r \<in> live_states) ?f d = Inr (True, d')"
    by (rule change_task_succeeds [OF ok r(1)]) (use r(2) row others in simp_all)
  then obtain d' where run: "change_task tid ''loss'' HObservation 0 (\<lambda>r. t_state r \<in> live_states) ?f d = Inr (True, d')" by blast
  have "kernel_step d d'"
  proof (rule change_task_write [OF run TrueI ok], simp)
    fix r0 assume r0: "find_task tid d = Some r0" "task_write tid r0 (?f r0) d d'"
    have obs: "observation_step r0 (?f r0)" by (simp add: observation_step_def)
    have "row_inv (?f r0)" using kernel_inv_row [OF inv r0(1)] by (simp add: row_inv_def within_budget_def)
    with r0 obs show ?thesis by (intro kernel_step_task_write [OF r0(2) inv]) (rule observation_evolves)
  qed
  moreover have "forget d' = forget (annotate_evidence tid payload d)"
    using change_task_frame [OF run] by (simp add: forget_eq_iff annotate_evidence_def)
  ultimately show ?thesis by blast
next
  case False
  have "\<not> hits_by t_id tid (\<lambda>r. t_state r \<in> live_states) (db_tasks d)"
    using db_ok_task_ids [OF kernel_inv_ok [OF inv]] False by (auto simp: hits_by_iff find_task_def)
  then have "annotate_evidence tid payload d = d" by (simp add: annotate_evidence_def update_by_no_hit)
  then show ?thesis using kernel_step_refl [OF inv] by auto
qed

lemma effect_lost_refines:
  assumes inv: "kernel_inv d"
  shows "\<exists>d'. kernel_step d d' \<and> forget d' = forget (effect_lost tid ep reason now d)"
proof -
  let ?G = "\<lambda>e. e_state e \<in> {EReserved, ELaunched}"
  let ?f = "\<lambda>e. e\<lparr>e_state := ETerminal, e_outcome := Some reason, e_updated_at := now\<rparr>"
  obtain hit d' where run: "change_effect tid ep ''loss'' now ?G ?f d = (hit, d')" by fastforce
  have "kernel_step d d'"
    by (rule kernel_step_change_effect [OF run inv]) (auto simp: effect_evolves_def effect_key_def)
  moreover have "forget d' = forget (effect_lost tid ep reason now d)"
    using change_effect_frame [OF run] by (simp add: forget_eq_iff effect_lost_def)
  ultimately show ?thesis by blast
qed

lemma loss_transactionE:
  assumes "loss_transaction S current reason payload rows d = (Inr (armed, d3), rows')"
  obtains e rec where "find_effect (t_id current) (t_epoch current) (annotate_evidence (t_id current) payload d) = Some e"
    "retire_holder S current rows = (Inr (), rows')"
    "finish_with_wake (si_wid S) (lock_ctx (t_id current) (si_ctx S)) (t_id current) Lost (Some reason) None False
       (Some (lock_fence (t_id current) (si_ctx S))) (si_now S)
       (if e_state e \<noteq> ETerminal then effect_lost (t_id current) (t_epoch current) reason (si_now S)
                                       (annotate_evidence (t_id current) payload d)
        else annotate_evidence (t_id current) payload d) = Inr ((rec, armed), d3)"
  using assms by (auto simp: loss_transaction_def Let_def split: option.splits sum.splits prod.splits)

lemma loss_run:
  assumes run: "loss_transaction S current reason payload rows d = (Inr (armed, d3), rows')" and inv: "kernel_inv d"
  obtains e rec da db d' where "find_effect (t_id current) (t_epoch current) d = Some e"
    "retire_holder S current rows = (Inr (), rows')" "kernel_step d da"
    "forget da = forget (annotate_evidence (t_id current) payload d)" "kernel_step da db"
    "forget db = forget (if e_state e \<noteq> ETerminal then effect_lost (t_id current) (t_epoch current) reason (si_now S) da else da)"
    "finish_with_wake (si_wid S) (lock_ctx (t_id current) (si_ctx S)) (t_id current) Lost (Some reason) None False
       (Some (lock_fence (t_id current) (si_ctx S))) (si_now S) db = Inr ((rec, armed), d')" "forget d' = forget d3"
  using run
proof (rule loss_transactionE)
  fix e :: effect_row and rec
  let ?da = "annotate_evidence (t_id current) payload d"
  let ?lost = "\<lambda>d. if e_state e \<noteq> ETerminal then effect_lost (t_id current) (t_epoch current) reason (si_now S) d else d"
  assume e: "find_effect (t_id current) (t_epoch current) ?da = Some e"
    and ret: "retire_holder S current rows = (Inr (), rows')"
    and fin: "finish_with_wake (si_wid S) (lock_ctx (t_id current) (si_ctx S)) (t_id current) Lost (Some reason) None False
       (Some (lock_fence (t_id current) (si_ctx S))) (si_now S) (?lost ?da) = Inr ((rec, armed), d3)"
  from annotate_refines [OF inv] obtain da where a: "kernel_step d da" "forget da = forget ?da" by blast
  have "\<exists>db. kernel_step da db \<and> forget db = forget (?lost da)"
    using effect_lost_refines [OF kernel_step_inv [OF a(1)]] kernel_step_refl [OF kernel_step_inv [OF a(1)]] by auto
  then obtain db where b: "kernel_step da db" "forget db = forget (?lost da)" by blast
  have "forget (?lost da) = forget (?lost ?da)" using a(2) by (simp add: forget_eq_iff effect_lost_def)
  with b(2) have "forget (?lost ?da) = forget db" by simp
  then have "same_but_log (Inr ((rec, armed), d3)) (finish_with_wake (si_wid S) (lock_ctx (t_id current) (si_ctx S)) (t_id current)
      Lost (Some reason) None False (Some (lock_fence (t_id current) (si_ctx S))) (si_now S) db)"
    unfolding fin [symmetric] by (rule finish_with_wake_unlogged)
  then obtain d' where
    d': "finish_with_wake (si_wid S) (lock_ctx (t_id current) (si_ctx S)) (t_id current) Lost (Some reason) None False
       (Some (lock_fence (t_id current) (si_ctx S))) (si_now S) db = Inr ((rec, armed), d')" "forget d' = forget d3"
    unfolding same_but_log_cases sum.case prod.case by blast
  have "find_effect (t_id current) (t_epoch current) d = Some e"
    using e by (simp add: annotate_evidence_def find_effect_def)
  from that [OF this ret a b d'] show thesis .
qed

lemma loss_refines:
  assumes "loss_transaction S current reason payload rows d = (Inr (armed, d3), rows')" and "kernel_inv d"
  shows "\<exists>d'. kernel_step d d' \<and> forget d' = forget d3"
  using assms
proof (rule loss_run)
  fix da db d' and rec :: task_record
  assume "kernel_step d da" "kernel_step da db" "forget d' = forget d3"
    "finish_with_wake (si_wid S) (lock_ctx (t_id current) (si_ctx S)) (t_id current) Lost (Some reason) None False
       (Some (lock_fence (t_id current) (si_ctx S))) (si_now S) db = Inr ((rec, armed), d')"
  then show ?thesis using finish_with_wake_step kernel_step_inv kernel_step_trans by metis
qed

lemma retired_is_recorded:
  assumes "retire sid kind reason key stamp (\<lambda>r. r) rows = (Inr q, rows')"
  shows "get_owner sid rows' \<noteq> Inr None"
proof (cases "get_owner sid rows")
  case (Inr o')
  show ?thesis
  proof (cases o')
    case (Some q')
    with Inr assms show ?thesis by (simp add: retire_def)
  next
    case None
    with Inr assms show ?thesis
      by (auto simp: retire_def Let_def get_owner_def ownership_of_row_def split: option.splits if_splits)
  qed
qed (use assms in \<open>simp add: retire_def\<close>)

lemma retire_holder_recorded:
  assumes "retire_holder S t rows = (Inr (), rows')"
  shows "get_owner (case t_holder t of None \<Rightarrow> ''None'' | Some h \<Rightarrow> h) rows' \<noteq> Inr None"
proof -
  obtain q where "retire (case t_holder t of None \<Rightarrow> ''None'' | Some h \<Rightarrow> h) Retired ''managed task lost''
      (Some (task_epoch_key ''task:'' t)) (si_stamp S) (\<lambda>r. r) rows = (Inr q, rows')"
    using assms by (auto simp: retire_holder_def Let_def split: if_splits sum.splits prod.splits)
  then show ?thesis by (rule retired_is_recorded)
qed

lemma forget_find_task: "forget d = forget e \<Longrightarrow> find_task i d = find_task i e"
  by (rule find_task_unlogged)

lemma forget_find_effect: "forget d = forget e \<Longrightarrow> find_effect i ep d = find_effect i ep e"
  by (metis forget_finds(2))

lemma find_annotated:
  "find_task i (annotate_evidence tid payload d)
   = map_option (\<lambda>r. if i = tid \<and> t_state r \<in> live_states then r\<lparr>t_liveness_evidence := Some payload\<rparr> else r) (find_task i d)"
  by (simp add: annotate_evidence_def find_task_def lookup_update_by)

lemma effect_after_loss:
  "find_effect tid ep d = Some e \<Longrightarrow>
   \<exists>e'. find_effect tid ep (if e_state e \<noteq> ETerminal then effect_lost tid ep reason now d else d) = Some e' \<and> e_state e' = ETerminal"
  by (cases "e_state e") (simp_all add: effect_lost_def find_effect_def lookup_update_by effect_key_def)

lemma loss_outcome:
  assumes run: "loss_transaction S current reason payload rows d = (Inr (armed, d3), rows')" and inv: "kernel_inv d"
    and cur: "get_by_id tid d = Some current" "t_state current = Active"
  shows "\<exists>r e. find_task tid d3 = Some r \<and> t_state r \<in> {Lost, Exhausted} \<and> t_epoch r = t_epoch current
           \<and> find_effect tid (t_epoch current) d3 = Some e \<and> e_state e = ETerminal"
  using run inv
proof (rule loss_run)
  fix e :: effect_row and rec da db d'
  assume e: "find_effect (t_id current) (t_epoch current) d = Some e"
    and a: "kernel_step d da" "forget da = forget (annotate_evidence (t_id current) payload d)"
    and b: "kernel_step da db"
      "forget db = forget (if e_state e \<noteq> ETerminal then effect_lost (t_id current) (t_epoch current) reason (si_now S) da else da)"
    and fin: "finish_with_wake (si_wid S) (lock_ctx (t_id current) (si_ctx S)) (t_id current) Lost (Some reason) None False
       (Some (lock_fence (t_id current) (si_ctx S))) (si_now S) db = Inr ((rec, armed), d')" and logs: "forget d' = forget d3"
  from cur(1) obtain r0 where r0: "find_task tid d = Some r0" "current = decode_task r0" "t_id r0 = tid"
    by (auto simp: get_by_id_def dest: find_task_SomeD)
  then have tid: "t_id current = tid" "t_epoch current = t_epoch r0" "t_state r0 = Active"
    using cur(2) by (simp_all add: decode_task_def task_record.defs)
  obtain r r' d1 where f: "task_write tid r r' db d1" "lifecycle_step r r'" "same_facts d1 d'" "t_state r' = Lost \<or> t_state r' = Exhausted"
    by (rule finish_with_wake_facts [OF fin [unfolded tid(1)] kernel_inv_ok [OF kernel_step_inv [OF b(1)]]])
  have "find_task tid db = find_task tid da" using forget_find_task [OF b(2)] by (simp add: effect_lost_def find_task_def)
  also have "\<dots> = Some (if t_state r0 \<in> live_states then r0\<lparr>t_liveness_evidence := Some payload\<rparr> else r0)"
    using forget_find_task [OF a(2)] r0 tid by (simp add: find_annotated)
  finally have "t_state r = Active" "t_epoch r = t_epoch r0" using f(1) tid by (auto simp: task_write_def split: if_splits)
  then have r': "t_epoch r' = t_epoch r0" using f(2,4) by (auto simp: lifecycle_step_def split: if_splits)
  have "map_option lifecycle_facts (find_task tid d3) = Some (lifecycle_facts r')"
    using f(3) forget_find_task [OF logs] task_write_find [OF f(1)] f(1) by (auto simp: same_facts_def task_write_def)
  then obtain r3 where r3: "find_task tid d3 = Some r3" "lifecycle_facts r3 = lifecycle_facts r'" by auto
  have "db_effects d3 = db_effects db" using f(1,3) logs by (simp add: same_facts_def task_write_def same_side_tables_def forget_eq_iff)
  then have eff: "find_effect tid (t_epoch current) d3 = find_effect tid (t_epoch current) db" by (simp add: find_effect_def)
  have "find_effect tid (t_epoch current) da = Some e"
    using e forget_find_effect [OF a(2)] tid by (simp add: annotate_evidence_def find_effect_def)
  from effect_after_loss [OF this, of reason "si_now S"] forget_find_effect [OF b(2)] tid eff
  obtain e' where "find_effect tid (t_epoch current) d3 = Some e'" "e_state e' = ETerminal" by auto
  moreover have "t_state r3 = t_state r'" "t_epoch r3 = t_epoch r'" using r3(2) by (simp_all add: lifecycle_facts_def)
  ultimately show ?thesis using r3(1) f(4) r' tid by auto
qed

lemma commit_loss_cases:
  obtains (stale) "commit_loss S t reason payload cmds w = (Inr None, w)"
  | (failed) rows' res d1 where
      "d1 = ds_db w \<or> (\<exists>tid ep sess cs. d1 = record_cleanup_intents tid ep sess cs (si_now S) (ds_db w))"
      "commit_loss S t reason payload cmds w = (res, w\<lparr>ds_db := d1, ds_owners := rows'\<rparr>)" "\<forall>a. res \<noteq> Inr (Some a)"
  | (done') current armed d1 d' rows' where
      "d1 = ds_db w \<or> (\<exists>tid ep sess cs. d1 = record_cleanup_intents tid ep sess cs (si_now S) (ds_db w))"
      "get_by_id (t_id t) (ds_db w) = Some current" "t_state current = Active" "t_epoch current = t_epoch t"
      "loss_transaction S current reason payload (ds_owners w) d1 = (Inr (armed, d'), rows')"
      "commit_loss S t reason payload cmds w = (Inr (Some armed), w\<lparr>ds_db := d', ds_owners := rows'\<rparr>)"
proof (cases "get_by_id (t_id t) (ds_db w)")
  case None
  then show thesis using stale by (simp add: commit_loss_def)
next
  case (Some current)
  show thesis
  proof (cases "t_state current \<noteq> Active \<or> t_epoch current \<noteq> t_epoch t")
    case True
    with Some show thesis using stale by (simp add: commit_loss_def)
  next
    case False
    define d1 where "d1 = (if t_holder current = t_holder t
      then record_cleanup_intents (t_id t) (t_epoch current) (printed (t_holder current)) cmds (si_now S) (ds_db w) else ds_db w)"
    have d1: "d1 = ds_db w \<or> (\<exists>tid ep sess cs. d1 = record_cleanup_intents tid ep sess cs (si_now S) (ds_db w))"
      unfolding d1_def by (cases "t_holder current = t_holder t") auto
    obtain r rows' where run: "loss_transaction S current reason payload (ds_owners w) d1 = (r, rows')" by fastforce
    have w1: "(if t_holder current = t_holder t
        then w\<lparr>ds_db := record_cleanup_intents (t_id t) (t_epoch current) (printed (t_holder current)) cmds (si_now S) (ds_db w)\<rparr>
        else w) = w\<lparr>ds_db := d1\<rparr>" by (simp add: d1_def)
    note eq = commit_loss_def [of S t reason payload cmds w, unfolded Some option.case w1 Let_def, simplified]
    show thesis
    proof (cases r)
      case (Inl e)
      have "fst (commit_loss S t reason payload cmds w) = (case e of DStore _ \<Rightarrow> Inr None | _ \<Rightarrow> Inl e)
          \<and> snd (commit_loss S t reason payload cmds w) = w\<lparr>ds_db := d1, ds_owners := rows'\<rparr>"
        using False Inl run by (cases e) (auto simp: eq)
      then show thesis
        by (intro failed [OF d1, of "case e of DStore _ \<Rightarrow> Inr None | _ \<Rightarrow> Inl e"])
          (auto simp: prod_eq_iff split: derror.splits)
    next
      case (Inr p)
      obtain armed d' where "p = (armed, d')" by (cases p)
      with Inr False run Some show thesis by (intro done' [OF d1 Some]) (auto simp: eq)
    qed
  qed
qed

lemma record_intents_side:
  "find_task tid (record_cleanup_intents i ep sess cs now d) = find_task tid d"
  "db_effects (record_cleanup_intents i ep sess cs now d) = db_effects d"
  "db_wakes (record_cleanup_intents i ep sess cs now d) = db_wakes d"
proof -
  let ?I = "\<lambda>x. db_tasks x = db_tasks d \<and> db_effects x = db_effects d \<and> db_wakes x = db_wakes d"
  have "?I (record_cleanup_intents i ep sess cs now d)"
    unfolding record_cleanup_intents_def by (rule foldl_invariant) (auto split: prod.splits)
  then show "find_task tid (record_cleanup_intents i ep sess cs now d) = find_task tid d"
    "db_effects (record_cleanup_intents i ep sess cs now d) = db_effects d"
    "db_wakes (record_cleanup_intents i ep sess cs now d) = db_wakes d" by (simp_all add: find_task_def)
qed

definition loss_recorded :: "dstate \<Rightarrow> task_record \<Rightarrow> bool" where
  "loss_recorded w t \<longleftrightarrow>
     (\<exists>r e. find_task (t_id t) (ds_db w) = Some r \<and> t_state r \<in> {Lost, Exhausted} \<and> t_epoch r = t_epoch t
        \<and> find_effect (t_id t) (t_epoch t) (ds_db w) = Some e \<and> e_state e = ETerminal)"

lemma commit_loss_contract:
  assumes inv: "kernel_inv (ds_db w)" and run: "commit_loss S t reason payload cmds w = (res, w')"
  shows "\<exists>d'. kernel_step (ds_db w) d' \<and> forget d' = forget (ds_db w')"
    and "if \<exists>a. res = Inr (Some a)
         then loss_recorded w' t \<and> (\<exists>current. get_by_id (t_id t) (ds_db w) = Some current
                \<and> get_owner (case t_holder current of None \<Rightarrow> ''None'' | Some h \<Rightarrow> h) (ds_owners w') \<noteq> Inr None)
         else (\<forall>i. find_task i (ds_db w') = find_task i (ds_db w)) \<and> db_effects (ds_db w') = db_effects (ds_db w)
              \<and> db_wakes (ds_db w') = db_wakes (ds_db w)"
proof -
  have "(\<exists>d'. kernel_step (ds_db w) d' \<and> forget d' = forget (ds_db w')) \<and>
       (if \<exists>a. res = Inr (Some a)
         then loss_recorded w' t \<and> (\<exists>current. get_by_id (t_id t) (ds_db w) = Some current
                \<and> get_owner (case t_holder current of None \<Rightarrow> ''None'' | Some h \<Rightarrow> h) (ds_owners w') \<noteq> Inr None)
         else (\<forall>i. find_task i (ds_db w') = find_task i (ds_db w)) \<and> db_effects (ds_db w') = db_effects (ds_db w)
              \<and> db_wakes (ds_db w') = db_wakes (ds_db w))"
  proof (cases rule: commit_loss_cases [of S t reason payload cmds w])
    case stale
    with run kernel_step_refl [OF inv] show ?thesis by auto
  next
    case (failed rows' res' d1)
    then have "kernel_step (ds_db w) d1"
      using kernel_step_refl [OF inv] record_cleanup_intents_step [OF inv] by auto
    with failed run show ?thesis by (auto simp: record_intents_side)
  next
    case (done' current armed d1 d' rows')
    have s: "kernel_step (ds_db w) d1"
      using done'(1) kernel_step_refl [OF inv] record_cleanup_intents_step [OF inv] by auto
    have cur: "get_by_id (t_id t) d1 = Some current"
      using done'(1,2) by (auto simp: get_by_id_def record_intents_side)
    obtain d'' where k: "kernel_step d1 d''" "forget d'' = forget d'"
      using loss_refines [OF done'(5) kernel_step_inv [OF s]] by blast
    have holder: "retire_holder S current (ds_owners w) = (Inr (), rows')"
      using done'(5) by (rule loss_transactionE)
    have out: "res = Inr (Some armed)" "w' = w\<lparr>ds_db := d', ds_owners := rows'\<rparr>" using run done'(6) by auto
    have "loss_recorded w' t"
      using loss_outcome [OF done'(5) kernel_step_inv [OF s] cur done'(3)] done'(4) by (simp add: loss_recorded_def out)
    moreover have "get_owner (case t_holder current of None \<Rightarrow> ''None'' | Some h \<Rightarrow> h) (ds_owners w') \<noteq> Inr None"
      using retire_holder_recorded [OF holder] by (simp add: out)
    moreover have "kernel_step (ds_db w) d''" by (rule kernel_step_trans [OF s k(1)])
    ultimately show ?thesis using k(2) done'(2) by (auto simp: out)
  qed
  then show "\<exists>d'. kernel_step (ds_db w) d' \<and> forget d' = forget (ds_db w')"
    and "if \<exists>a. res = Inr (Some a)
         then loss_recorded w' t \<and> (\<exists>current. get_by_id (t_id t) (ds_db w) = Some current
                \<and> get_owner (case t_holder current of None \<Rightarrow> ''None'' | Some h \<Rightarrow> h) (ds_owners w') \<noteq> Inr None)
         else (\<forall>i. find_task i (ds_db w') = find_task i (ds_db w)) \<and> db_effects (ds_db w') = db_effects (ds_db w)
              \<and> db_wakes (ds_db w') = db_wakes (ds_db w)" by blast+
qed

subsection \<open>A concrete site\<close>

definition sample_site :: site where
  "sample_site = \<lparr>si_pystr = (\<lambda>_. []), si_isotime = (\<lambda>_. None), si_num = (\<lambda>_. None), si_fmt0 = (\<lambda>_. []), si_fmtg = (\<lambda>_. []),
     si_dumps = (\<lambda>_. ''evidence''), si_environ = (\<lambda>_. None), si_redactor = plain, si_uuid = id, si_wid = id, si_stamp = ''t0'',
     si_ctx = sample_ctx, si_now = 5, si_late = (\<lambda>_. False), si_cap = 1, si_one_file = False, si_processes = (\<lambda>_. VNone),
     si_snapshot = (\<lambda>_. VNone), si_queue = (\<lambda>_. VNone), si_commands = (\<lambda>_. Some []), si_cancel = (\<lambda>_ _. Inl None),
     si_stop_execution = (\<lambda>_. None), si_process = (\<lambda>_. None), si_stop_workspace = (\<lambda>_. False), si_drift = (\<lambda>_. id)\<rparr>"

definition sample_world :: "db \<Rightarrow> dstate" where
  "sample_world d = \<lparr>ds_db = d, ds_esc = empty_esc, ds_owners = [], ds_cursor = [], ds_bytes = (\<lambda>_. None)\<rparr>"

lemma sample_world_db [simp]: "ds_db (sample_world d) = d"
  by (simp add: sample_world_def)

definition launched_db :: db where
  "launched_db = with_effect (sample_effect ELaunched) (seed [sample_row ''a'' Active 0 2])"

lemma launched_db_facts:
  "kernel_inv launched_db" "find_task ''a'' launched_db = Some (sample_row ''a'' Active 0 2)"
  "find_effect ''a'' 1 launched_db = Some (sample_effect ELaunched)" "db_tasks launched_db = [sample_row ''a'' Active 0 2]"
proof -
  show "kernel_inv launched_db" unfolding launched_db_def by (intro with_effect_inv sample_kernel_inv) auto
  show "find_task ''a'' launched_db = Some (sample_row ''a'' Active 0 2)" by (simp add: launched_db_def)
  show "find_effect ''a'' 1 launched_db = Some (sample_effect ELaunched)"
    by (simp add: launched_db_def effect_key_def sample_effect_def)
  show "db_tasks launched_db = [sample_row ''a'' Active 0 2]"
    by (auto simp: launched_db_def with_effect_def insert_effect_def log_effect_def)
qed


lemma sample_loss:
  "\<exists>w'. commit_loss sample_site (decode_task (sample_row ''a'' Active 0 2)) ''lost:oom'' ''evidence'' [] (sample_world launched_db)
     = (Inr (Some []), w')"
proof -
  let ?t = "decode_task (sample_row ''a'' Active 0 2)"
  let ?d = "annotate_evidence ''a'' ''evidence'' launched_db"
  let ?row = "(sample_row ''a'' Active 0 2)\<lparr>t_liveness_evidence := Some ''evidence''\<rparr>"
  have t: "t_id ?t = ''a''" "t_epoch ?t = 1" "t_state ?t = Active" "t_holder ?t = Some ''a''"
    by (simp_all add: decode_task_def task_record.defs)
  have rows: "db_tasks ?d = [?row]" by (simp add: annotate_evidence_def launched_db_facts(4) live_states_def)
  have eff: "find_effect ''a'' 1 ?d = Some (sample_effect ELaunched)"
    using launched_db_facts(3) by (simp add: annotate_evidence_def find_effect_def)
  let ?e = "effect_lost ''a'' 1 ''lost:oom'' 5 ?d"
  have rows': "db_tasks ?e = [?row]" by (simp add: effect_lost_def rows)
  have "\<exists>rec d'. finish_with_wake id (lock_ctx ''a'' sample_ctx) ''a'' Lost (Some ''lost:oom'') None False
      (Some (lock_fence ''a'' sample_ctx)) 5 ?e = Inr ((rec, []), d')"
    by (simp add: finish_with_wake_def with_fence_def finish_def record_failure_def find_task_def rows' Let_def
        transition_def transition_on_def change_task_def task_table_ok_def task_row_ok_def unique_where_def log_task_def
        live_holder_def hits_by_def decode_task_def task_record.defs truthy_def)
  then obtain rec d' where fin: "finish_with_wake id (lock_ctx ''a'' sample_ctx) ''a'' Lost (Some ''lost:oom'') None False
      (Some (lock_fence ''a'' sample_ctx)) 5 ?e = Inr ((rec, []), d')" by blast
  have "\<exists>rows'. retire_holder sample_site ?t [] = (Inr (), rows')"
    by (simp add: retire_holder_def retire_def get_owner_def insert_owner_def ownership_of_row_def t sample_site_def)
  then obtain rows' where ret: "retire_holder sample_site ?t [] = (Inr (), rows')" by blast
  have st: "e_state (sample_effect ELaunched) = ELaunched" by (simp add: sample_effect_def)
  have "loss_transaction sample_site ?t ''lost:oom'' ''evidence'' [] launched_db = (Inr ([], d'), rows')"
    unfolding loss_transaction_def t eff Let_def option.case st ret using fin by (simp add: sample_site_def)
  then have "commit_loss sample_site ?t ''lost:oom'' ''evidence'' [] (sample_world launched_db)
      = (Inr (Some []), (sample_world launched_db)\<lparr>ds_db := d', ds_owners := rows'\<rparr>)"
    using launched_db_facts(2)
    by (simp add: commit_loss_def sample_world_def get_by_id_def t record_cleanup_intents_def)
  then show ?thesis by blast
qed


text \<open>
  In one file a loss is never recorded.  The transaction holds the write lock when \<open>retire\<close>
  opens a connection of its own to the same file, so a holder that is not retired yet makes it
  fail, whatever the executor says, on every pass.
\<close>

lemma one_file_loss_never_commits:
  assumes "si_one_file S" and "get_by_id (t_id t) (ds_db w) = Some current"
    and "get_owner (printed (t_holder current)) (ds_owners w) = Inr None"
  shows "fst (commit_loss S t reason payload cmds w) \<noteq> Inr (Some armed)"
proof (cases rule: commit_loss_cases [of S t reason payload cmds w])
  case (done' current' armed' d1 d' rows')
  from done'(5) have "retire_holder S current' (ds_owners w) = (Inr (), rows')" by (rule loss_transactionE)
  moreover have "current' = current" using assms(2) done'(2) by simp
  moreover have "printed (t_holder current) = (case t_holder current of None \<Rightarrow> ''None'' | Some h \<Rightarrow> h)"
    by (simp add: printed_def split: option.splits)
  ultimately show ?thesis using assms(1,3) by (simp add: retire_holder_def)
qed auto

subsection \<open>The liveness pass only observes\<close>

text \<open>
  What the pass may do to the database on a verdict that is not a loss: touch the observations of
  tasks and the wakes, and block one task whose approval has been parked for too long.
\<close>

definition blocked_of :: "task_row \<Rightarrow> task_row \<Rightarrow> bool" where
  "blocked_of r r' \<longleftrightarrow>
     t_state r \<in> {Reserved, Active, Replacing}
     \<and> lifecycle_facts r' = lifecycle_facts (r\<lparr>t_state := Blocked, t_result := Some ''approval''\<rparr>)"

definition observes :: "(string \<Rightarrow> bool) \<Rightarrow> db \<Rightarrow> db \<Rightarrow> bool" where
  "observes parked d d' \<longleftrightarrow>
     db_effects d' = db_effects d \<and> db_cleanups d' = db_cleanups d \<and> db_outgoing d' = db_outgoing d
     \<and> (\<forall>i r. find_task i d = Some r \<longrightarrow>
          (\<exists>r'. find_task i d' = Some r' \<and> (lifecycle_facts r' = lifecycle_facts r \<or> parked i \<and> blocked_of r r')))"

lemma same_facts_observes: "same_facts d d' \<Longrightarrow> observes P d d'"
  unfolding observes_def same_facts_def by (metis map_option_eq_Some)

lemma observes_after: "same_facts d d1 \<Longrightarrow> observes P d1 d' \<Longrightarrow> observes P d d'"
proof -
  assume s: "same_facts d d1" and o': "observes P d1 d'"
  have "\<exists>r'. find_task i d' = Some r' \<and> (lifecycle_facts r' = lifecycle_facts r \<or> P i \<and> blocked_of r r')"
    if r: "find_task i d = Some r" for i r
  proof -
    from s r obtain r1 where r1: "find_task i d1 = Some r1" "lifecycle_facts r1 = lifecycle_facts r"
      unfolding same_facts_def by (metis map_option_eq_Some)
    with o' obtain r' where "find_task i d' = Some r'" "lifecycle_facts r' = lifecycle_facts r1 \<or> P i \<and> blocked_of r1 r'"
      unfolding observes_def by blast
    with r1 show ?thesis by (auto simp: blocked_of_def lifecycle_facts_def)
  qed
  with s o' show ?thesis by (simp add: observes_def same_facts_def)
qed

lemma observes_before:
  assumes o': "observes P d d1" and s: "same_facts d1 d'"
  shows "observes P d d'"
proof -
  have "\<exists>r'. find_task i d' = Some r' \<and> (lifecycle_facts r' = lifecycle_facts r \<or> P i \<and> blocked_of r r')"
    if r: "find_task i d = Some r" for i r
  proof -
    from o' r obtain r1 where r1: "find_task i d1 = Some r1" "lifecycle_facts r1 = lifecycle_facts r \<or> P i \<and> blocked_of r r1"
      unfolding observes_def by blast
    from s r1(1) obtain r' where "find_task i d' = Some r'" "lifecycle_facts r' = lifecycle_facts r1"
      unfolding same_facts_def by (metis map_option_eq_Some)
    with r1(2) show ?thesis by (simp add: blocked_of_def)
  qed
  with s o' show ?thesis by (simp add: observes_def same_facts_def)
qed

lemma block_observes:
  assumes run: "finish_with_wake wid x tid Blocked (Some ''approval'') None False (Some f) now d = Inr ((rec, created), d')"
    and ok: "db_ok d"
  shows "observes (\<lambda>i. i = tid) d d'"
  using run
proof (rule finish_with_wakeE)
  fix x' f d1
  let ?bump = "bump_task (the (t_parent rec)) (\<lambda>r. r\<lparr>t_child_event_seq := t_child_event_seq r + 1\<rparr>) d1"
  assume fin: "finish x' tid Blocked (Some ''approval'') None False (Some f) True now d = Inr (rec, d1)"
    and orphan: "\<not> truthy (t_parent rec) \<Longrightarrow> d' = d1 \<and> created = []"
    and told: "truthy (t_parent rec) \<Longrightarrow> \<exists>cohort d3 live.
       record_wakes wid (the (t_parent rec)) now ?bump = (cohort, d3)
       \<and> record_liveness_wakes wid (t_id rec) now default_progress_timeout d3 = (live, d')
       \<and> created = cohort @ live"
  have bump: "same_facts d1 ?bump" by (rule same_facts_bump) (simp_all add: lifecycle_facts_def)
  have tail: "same_facts d1 d'"
  proof (cases "truthy (t_parent rec)")
    case True
    from told [OF True] obtain cohort d3 live where
      w: "record_wakes wid (the (t_parent rec)) now ?bump = (cohort, d3)"
         "record_liveness_wakes wid (t_id rec) now default_progress_timeout d3 = (live, d')" by blast
    show ?thesis
      by (rule same_facts_trans [OF bump same_facts_trans [OF same_facts_record_wakes [OF w(1)] same_facts_liveness_wakes [OF w(2)]]])
  qed (use orphan in simp)
  have "transition_on tid {Reserved, Active, Replacing} None (\<lambda>r. r\<lparr>t_state := Blocked, t_result := Some ''approval''\<rparr>)
      (state_name Blocked) now d = Inr (rec, d1)"
    using fin by (simp add: finish_def with_fence_def transition_def)
  then obtain r where r: "t_state r \<in> {Reserved, Active, Replacing}" and
    w: "task_write tid r (r\<lparr>t_state := Blocked, t_result := Some ''approval'', t_version := t_version r + 1, t_updated_at := now\<rparr>) d d1"
    by (rule transition_on_write [OF _ ok]) simp_all
  have "observes (\<lambda>i. i = tid) d d1"
    unfolding observes_def
  proof (intro conjI allI impI)
    fix i r0 assume r0: "find_task i d = Some r0"
    show "\<exists>r'. find_task i d1 = Some r' \<and> (lifecycle_facts r' = lifecycle_facts r0 \<or> i = tid \<and> blocked_of r0 r')"
      using r0 r w task_write_find [OF w]
      by (cases "i = tid") (auto simp: task_write_def blocked_of_def lifecycle_facts_def)
  qed (use w in \<open>simp_all add: task_write_def same_side_tables_def\<close>)
  then show ?thesis using tail by (rule observes_before)
qed

lemma finding_observes:
  assumes run: "finding_transaction S t f p d = Inr (armed, d')" and inv: "kernel_inv d"
  shows "same_facts d d' \<and> kernel_inv d'"
proof -
  from run obtain d1 where
    d1: "if f_reason f = CUnknown then d1 = d else (\<exists>rec. record_liveness (t_id t) (cause_name (f_reason f))
           (if f_reason f = CLive then None else Some (si_dumps S (finding_payload f))) (f_now f) d = Inr (rec, d1))"
    and rest: "ebind (if f_over_budget f then ebind (record_over_budget (t_id t) (si_now S) d1) (\<lambda>(_, d'). Inr d') else Inr d1)
       (\<lambda>d2. Inr (record_liveness_wakes (si_wid S) (t_id t) (f_now f) (p_progress p) d2)) = Inr (armed, d')"
    unfolding finding_transaction_def by (auto split: if_splits)
  have s1: "same_facts d d1 \<and> kernel_inv d1"
  proof (cases "f_reason f = CUnknown")
    case False
    with d1 obtain rec where r: "record_liveness (t_id t) (cause_name (f_reason f))
        (if f_reason f = CLive then None else Some (si_dumps S (finding_payload f))) (f_now f) d = Inr (rec, d1)" by auto
    have "same_facts d d1"
      using r kernel_inv_ok [OF inv]
      by (cases rule: record_liveness_cases) (auto intro: same_facts_write observation_facts(1) apply_liveness_observes)
    with record_liveness_step [OF r inv] show ?thesis by (simp add: kernel_step_inv)
  qed (use d1 inv in simp)
  from rest obtain d2 where
    d2: "if f_over_budget f then (\<exists>hit. record_over_budget (t_id t) (si_now S) d1 = Inr (hit, d2)) else d2 = d1"
    and wakes: "record_liveness_wakes (si_wid S) (t_id t) (f_now f) (p_progress p) d2 = (armed, d')"
    by (auto split: if_splits)
  have s2: "same_facts d1 d2 \<and> kernel_inv d2"
  proof (cases "f_over_budget f")
    case True
    with d2 obtain hit where r: "record_over_budget (t_id t) (si_now S) d1 = Inr (hit, d2)" by auto
    have "same_facts d1 d2"
      using r kernel_inv_ok [OF conjunct2 [OF s1]]
      by (cases rule: record_over_budget_cases) (auto intro: same_facts_write simp: lifecycle_facts_def)
    with record_over_budget_step [OF r conjunct2 [OF s1]] show ?thesis by (simp add: kernel_step_inv)
  qed (use d2 s1 in simp)
  have "kernel_inv d'" by (rule kernel_step_inv [OF record_liveness_wakes_step [OF wakes conjunct2 [OF s2]]])
  with s1 s2 same_facts_liveness_wakes [OF wakes] show ?thesis by (blast intro: same_facts_trans)
qed

lemma resolve_parked_observes:
  assumes inv: "kernel_inv (ds_db w)"
  shows "observes (\<lambda>i. i = t_id t) (ds_db w) (ds_db (resolve_parked_approval S t f p w))
    \<and> ds_owners (resolve_parked_approval S t f p w) = ds_owners w"
proof -
  have keep: "observes (\<lambda>i. i = t_id t) (ds_db w) (ds_db w)" by (rule same_facts_observes) simp
  have block: "observes (\<lambda>i. i = t_id t) (ds_db w) d'"
    if "get_by_id (t_id t) (ds_db w) = Some current"
      "finish_with_wake (si_wid S) (lock_ctx (t_id t) (si_ctx S)) (t_id current) Blocked (Some ''approval'') None False
         (Some (lock_fence (t_id t) (si_ctx S))) (si_now S) (ds_db w) = Inr (out, d')" for current out d'
  proof -
    have "t_id current = t_id t"
      using that(1) by (auto simp: get_by_id_def decode_task_def task_record.defs dest: find_task_SomeD)
    then show ?thesis using block_observes [OF _ kernel_inv_ok [OF inv]] that(2) by (cases out) auto
  qed
  show ?thesis
    using keep block by (auto simp: resolve_parked_approval_def split: option.splits sum.splits)
qed

lemma after_finding_observes:
  assumes inv: "kernel_inv (ds_db w)"
  shows "observes (\<lambda>i. i = t_id t \<and> f_reason f = CParked) (ds_db w) (ds_db (after_finding S t f p w))
    \<and> ds_owners (after_finding S t f p w) = ds_owners w"
proof -
  have keep: "observes P (ds_db w) (ds_db w)" for P by (rule same_facts_observes) simp
  show ?thesis
  proof (cases "get_by_id (t_id t) (ds_db w)")
    case None
    then show ?thesis using keep by (simp add: after_finding_def)
  next
    case (Some c)
    then have "t_id c = t_id t"
      by (auto simp: get_by_id_def decode_task_def task_record.defs dest: find_task_SomeD)
    then show ?thesis
      using keep resolve_parked_observes [OF inv, of c S f p] by (auto simp: after_finding_def Some Let_def)
  qed
qed

lemma apply_finding_observes:
  assumes inv: "kernel_inv (ds_db w)" and run: "apply_finding S t f p w = (res, w')" and "f_reason f \<noteq> CLost"
  shows "observes (\<lambda>i. i = t_id t \<and> f_reason f = CParked) (ds_db w) (ds_db w') \<and> ds_owners w' = ds_owners w"
proof -
  have keep: "observes P (ds_db w) (ds_db w)" for P by (rule same_facts_observes) simp
  show ?thesis
  proof (cases "f_reason f = CUnknown \<and> \<not> f_over_budget f")
    case True
    with run assms(3) keep show ?thesis by (simp add: apply_finding_def)
  next
    case False
    show ?thesis
    proof (cases "finding_transaction S t f p (ds_db w)")
      case (Inl e)
      with False run assms(3) keep show ?thesis by (auto simp: apply_finding_def split: if_splits)
    next
      case (Inr out)
      obtain armed d' where out: "out = (armed, d')" by (cases out)
      from finding_observes [OF Inr [unfolded out] inv] have s: "same_facts (ds_db w) d'" "kernel_inv d'" by auto
      have w': "w' = after_finding S t f p (w\<lparr>ds_db := d'\<rparr>)" using False run assms(3) Inr out by (auto simp: apply_finding_def split: if_splits)
      from after_finding_observes [of "w\<lparr>ds_db := d'\<rparr>" t f S p] s(2)
      have "observes (\<lambda>i. i = t_id t \<and> f_reason f = CParked) d' (ds_db w') \<and> ds_owners w' = ds_owners w" by (simp add: w')
      with observes_after [OF s(1)] show ?thesis by blast
    qed
  qed
qed

lemma classified_lost: "classify v now p = CLost \<Longrightarrow> truthy (v_lost_reason v) \<and> \<not> v_process_alive v"
  by (auto simp: classify_def split: if_splits option.splits)

lemma detect_observes:
  assumes inv: "kernel_inv (ds_db w)" and run: "detect_one S t w = (res, w')"
    and quiet: "\<not> (truthy (v_lost_reason (task_evidence S t w)) \<and> \<not> v_process_alive (task_evidence S t w))"
  shows "observes (\<lambda>i. i = t_id t \<and> v_parked (task_evidence S t w)) (ds_db w) (ds_db w') \<and> ds_owners w' = ds_owners w"
proof (cases rule: detect_one_cases [of S t w])
  case (3 p r w2)
  let ?v = "task_evidence S t w"
  let ?f = "task_finding S t p ?v (ds_db w)"
  have reason: "f_reason ?f = task_cause S t ?v p (ds_db w)" by (simp add: task_finding_def)
  have "f_reason ?f \<noteq> CLost"
    using quiet classified_lost [of ?v "si_now S" p] by (auto simp: reason task_cause_def Let_def)
  moreover have "f_reason ?f = CParked \<Longrightarrow> v_parked ?v"
    by (auto simp: reason task_cause_def Let_def classify_def split: if_splits option.splits)
  moreover have "ds_owners (remember_bytes (t_id t) ?v w) = ds_owners w" by (simp add: remember_bytes_def)
  ultimately have "observes (\<lambda>i. i = t_id t \<and> f_reason ?f = CParked) (ds_db w) (ds_db w2) \<and> ds_owners w2 = ds_owners w"
    using apply_finding_observes [OF _ 3(2)] inv by simp
  moreover have "w' = w2" using 3(3) run by simp
  ultimately show ?thesis using \<open>f_reason ?f = CParked \<Longrightarrow> v_parked ?v\<close> unfolding observes_def by blast
qed (use run in \<open>auto intro: same_facts_observes\<close>)



subsection \<open>Cleanup intents\<close>

text \<open>The executor's terminal answer for an intent.\<close>

definition executor_settled :: "site \<Rightarrow> cleanup_row \<Rightarrow> bool" where
  "executor_settled S c \<longleftrightarrow>
     (case c_kind c of
        CommandCancel \<Rightarrow> (\<exists>row. si_cancel S (c_session_id c) (c_native_id c) = Inr row
                             \<and> row_state S ''state'' ''status'' row \<in> set command_terminal_states)
      | ExecutionStop \<Rightarrow> (\<exists>stopped. si_stop_execution S (c_native_id c) = Some stopped
                             \<and> (is_dict stopped \<and> row_state S ''status'' ''state'' stopped \<in> native_settled
                                \<or> (\<exists>p. si_process S (c_native_id c) = Some p \<and> row_state S ''status'' ''state'' p \<in> native_settled))))"

definition cleanup_at :: "string \<times> int \<times> cleanup_kind \<times> string \<Rightarrow> db \<Rightarrow> cleanup_row option" where
  "cleanup_at k d = lookup_by cleanup_key k (db_cleanups d)"

lemma insert_cleanup_keeps: "cleanup_at k d = Some c \<Longrightarrow> cleanup_at k (insert_cleanup row cause now d) = Some c"
  by (simp add: cleanup_at_def insert_cleanup_rows lookup_by_append)

lemma record_intents_keep:
  "cleanup_at k d = Some c \<Longrightarrow> cleanup_at k (record_cleanup_intents tid ep sess cs now d) = Some c"
  unfolding record_cleanup_intents_def
  by (rule foldl_invariant) (auto intro: insert_cleanup_keeps split: prod.splits)

lemma acknowledge_at:
  "cleanup_at k (acknowledge_cleanup_intent tid ep kind native now d)
   = map_option (\<lambda>c. if k = (tid, ep, kind, native) \<and> c_state c = CPending
                     then c\<lparr>c_state := CAcknowledged, c_updated_at := now\<rparr> else c) (cleanup_at k d)"
proof -
  have out: "db_cleanups (foldl (\<lambda>d o'. change_outgoing (key o') cause now G g d) x os) = db_cleanups x"
    for x os G g cause and key :: "outgoing_row \<Rightarrow> string \<times> int \<times> string"
    by (rule foldl_invariant [where I = "\<lambda>y. db_cleanups y = db_cleanups x"]) auto
  show ?thesis
    by (simp add: acknowledge_cleanup_intent_def Let_def cleanup_at_def change_cleanup_rows lookup_update_by cleanup_key_def
        out [where key = "\<lambda>o'. (tid, ep, o_dedupe_key o')"])
qed

lemma retry_intent_answer: "fst (retry_intent S c d) \<longleftrightarrow> executor_settled S c"
proof (cases "c_kind c")
  case CommandCancel
  then show ?thesis
    by (cases "si_cancel S (c_session_id c) (c_native_id c)")
      (auto simp: retry_intent_def executor_settled_def Let_def split: sum.splits if_splits)
next
  case ExecutionStop
  then show ?thesis
    by (auto simp: retry_intent_def executor_settled_def Let_def native_settled_def
        command_terminal_states_def split: option.splits if_splits)
qed

lemma retry_intent_keeps:
  assumes "\<And>i d. si_drift S i d = d" and "cleanup_at k d = Some c'"
  shows "cleanup_at k (snd (retry_intent S c d)) = Some c'"
  using assms
  by (cases "c_kind c") (auto simp: retry_intent_def Let_def record_intents_keep split: sum.splits option.splits)

lemma clean_intent_at:
  assumes "\<And>i d. si_drift S i d = d" and "cleanup_at k d = Some c'"
  shows "cleanup_at k (snd (clean_intent S c d))
      = Some (if cleanup_key c = k \<and> executor_settled S c \<and> c_state c' = CPending
              then c'\<lparr>c_state := CAcknowledged, c_updated_at := si_now S\<rparr> else c')"
    and "fst (clean_intent S c d) = (if executor_settled S c then 1 else 0)"
proof -
  obtain b d1 where r: "retry_intent S c d = (b, d1)" by fastforce
  have d1: "cleanup_at k d1 = Some c'" using retry_intent_keeps [OF assms, of c] by (simp add: r)
  have b: "b \<longleftrightarrow> executor_settled S c" using retry_intent_answer [of S c d] by (simp add: r)
  show "cleanup_at k (snd (clean_intent S c d))
      = Some (if cleanup_key c = k \<and> executor_settled S c \<and> c_state c' = CPending
              then c'\<lparr>c_state := CAcknowledged, c_updated_at := si_now S\<rparr> else c')"
    using d1 b by (cases b) (auto simp: clean_intent_def r acknowledge_at cleanup_key_def)
  show "fst (clean_intent S c d) = (if executor_settled S c then 1 else 0)"
    using b by (cases b) (simp_all add: clean_intent_def r)
qed

definition settled_in :: "site \<Rightarrow> cleanup_row list \<Rightarrow> cleanup_row \<Rightarrow> cleanup_row" where
  "settled_in S cs c =
     (if c_state c = CPending \<and> (\<exists>x \<in> set cs. cleanup_key x = cleanup_key c \<and> executor_settled S x)
      then c\<lparr>c_state := CAcknowledged, c_updated_at := si_now S\<rparr> else c)"

lemma cleanup_key_marked: "cleanup_key (c\<lparr>c_state := st, c_updated_at := n\<rparr>) = cleanup_key c"
  by (simp add: cleanup_key_def)

lemma settled_in_Cons: "settled_in S cs (settled_in S [x] c) = settled_in S (x # cs) c"
  by (cases "c_state c = CPending"; cases "cleanup_key x = cleanup_key c"; cases "executor_settled S x")
    (simp_all add: settled_in_def cleanup_key_marked)

lemma clean_one_at:
  assumes drift: "\<And>i d. si_drift S i d = d" and at: "cleanup_at k d = Some c"
  shows "cleanup_at k (snd (clean_intent S x d)) = Some (settled_in S [x] c)"
proof -
  have key: "cleanup_key c = k" using at by (auto simp: cleanup_at_def dest: lookup_by_SomeD)
  show ?thesis unfolding clean_intent_at(1) [OF drift at] settled_in_def by (simp add: key conj_ac)
qed

lemma clean_each_at:
  assumes drift: "\<And>i d. si_drift S i d = d"
  shows "cleanup_at k d = Some c \<Longrightarrow> cleanup_at k (snd (clean_each S cs d)) = Some (settled_in S cs c)"
    and "cleanup_at k d = Some c \<Longrightarrow> fst (clean_each S cs d) = length (filter (executor_settled S) cs)"
proof -
  show "cleanup_at k (snd (clean_each S cs d)) = Some (settled_in S cs c)" if "cleanup_at k d = Some c"
    using that
  proof (induction cs arbitrary: d c)
    case (Cons x cs)
    have "snd (clean_each S (x # cs) d) = snd (clean_each S cs (snd (clean_intent S x d)))"
      by (simp add: split_beta)
    with Cons.IH [OF clean_one_at [OF drift Cons.prems]] show ?case by (simp only: settled_in_Cons)
  qed (simp add: settled_in_def)
  show "fst (clean_each S cs d) = length (filter (executor_settled S) cs)" if "cleanup_at k d = Some c"
    using that
  proof (induction cs arbitrary: d c)
    case (Cons x cs)
    have "fst (clean_each S (x # cs) d) = fst (clean_intent S x d) + fst (clean_each S cs (snd (clean_intent S x d)))"
      by (simp add: split_beta)
    with Cons.IH [OF clean_one_at [OF drift Cons.prems]] show ?case
      by (simp add: clean_intent_at(2) [OF drift Cons.prems])
  qed simp
qed

lemma settle_outgoing_inv:
  assumes "\<And>i d. si_drift S i d = d" and "kernel_inv d"
  shows "kernel_inv (settle_outgoing S o' d)"
  using assms by (auto simp: settle_outgoing_def Let_def split: sum.splits option.splits
      intro: kernel_step_inv [OF settle_outgoing_step])

lemma settled_pending:
  assumes "distinct (map cleanup_key (db_cleanups d))" and "c \<in> set (db_cleanups d)"
  shows "settled_in S (pending_cleanup_intents d) c
    = (if c_state c = CPending \<and> executor_settled S c then c\<lparr>c_state := CAcknowledged, c_updated_at := si_now S\<rparr> else c)"
proof -
  have "x = c" if "x \<in> set (db_cleanups d)" "cleanup_key x = cleanup_key c" for x
    using assms that by (metis lookup_by_mem option.inject)
  then have "(\<exists>x \<in> set (pending_cleanup_intents d). cleanup_key x = cleanup_key c \<and> executor_settled S x)
      \<longleftrightarrow> c_state c = CPending \<and> executor_settled S c"
    using assms(2) by (auto simp: pending_cleanup_intents_def)
  then show ?thesis by (simp add: settled_in_def)
qed

lemma cleanup_pass:
  assumes inv: "kernel_inv d" and drift: "\<And>i d. si_drift S i d = d"
    and d1: "d1 = foldl (\<lambda>d o'. settle_outgoing S o' d) d (unresolved_terminal_outgoing_commands d)"
    and run: "reconcile_cleanup_intents S d = (n, d')"
  shows "\<forall>c \<in> set (db_cleanups d1). cleanup_at (cleanup_key c) d'
      = Some (if c_state c = CPending \<and> executor_settled S c then c\<lparr>c_state := CAcknowledged, c_updated_at := si_now S\<rparr> else c)"
proof
  fix c assume c: "c \<in> set (db_cleanups d1)"
  have "kernel_inv d1" unfolding d1 by (rule foldl_invariant [where I = kernel_inv]) (use inv settle_outgoing_inv [OF drift] in auto)
  then have dist: "distinct (map cleanup_key (db_cleanups d1))"
    using kernel_inv_ok db_ok_cleanup_keys by blast
  have "cleanup_at (cleanup_key c) d1 = Some c" unfolding cleanup_at_def by (rule lookup_by_mem [OF dist c])
  from clean_each_at(1) [OF drift this, of "pending_cleanup_intents d1"] run
  show "cleanup_at (cleanup_key c) d'
      = Some (if c_state c = CPending \<and> executor_settled S c then c\<lparr>c_state := CAcknowledged, c_updated_at := si_now S\<rparr> else c)"
    unfolding settled_pending [OF dist c] reconcile_cleanup_intents_def d1 [symmetric] Let_def by simp
qed

text \<open>
  A cleanup pass settles exactly what the executor settled.  An intent that was pending is
  acknowledged when, and only when, the executor's answer for it is terminal (a cancelled or
  finished command, a process that has ended); every other intent, and every intent settled
  before, is left as it is, so what is not proved ended is retried on the next pass.
\<close>

theorem cleanup_settles_exactly:
  assumes "kernel_inv d" and "\<And>i d. si_drift S i d = d"
    and "d1 = foldl (\<lambda>d o'. settle_outgoing S o' d) d (unresolved_terminal_outgoing_commands d)"
    and "reconcile_cleanup_intents S d = (n, d')"
  shows "\<forall>c \<in> set (db_cleanups d1). cleanup_at (cleanup_key c) d'
      = Some (if c_state c = CPending \<and> executor_settled S c then c\<lparr>c_state := CAcknowledged, c_updated_at := si_now S\<rparr> else c)"
  using assms by (rule cleanup_pass)

text \<open>A site whose executor answers a cancel with the terminal row, and a database with two intents.\<close>

definition cancelling_site :: site where
  "cancelling_site = sample_site\<lparr>si_cancel := (\<lambda>_ n. if n = ''n1'' then Inr (VDict [(''state'', VStr ''cancelled'')]) else Inl (Some 500))\<rparr>"

definition fenced_db :: db where
  "fenced_db = record_cleanup_intents ''a'' 1 ''s''
     [\<lparr>n_state = ''running'', n_id = ''n1'', n_process = None\<rparr>, \<lparr>n_state = ''running'', n_id = ''n2'', n_process = None\<rparr>] 3 empty_db"

lemma fenced_db_facts:
  "kernel_inv fenced_db" "unresolved_terminal_outgoing_commands fenced_db = []"
  "db_cleanups fenced_db = [intent_row ''a'' 1 ''s'' 3 CommandCancel ''n1'', intent_row ''a'' 1 ''s'' 3 CommandCancel ''n2'']"
proof -
  show "kernel_inv fenced_db"
    unfolding fenced_db_def by (rule kernel_step_inv [OF record_cleanup_intents_step [OF kernel_inv_empty]])
  show "db_cleanups fenced_db = [intent_row ''a'' 1 ''s'' 3 CommandCancel ''n1'', intent_row ''a'' 1 ''s'' 3 CommandCancel ''n2'']"
    by (simp add: fenced_db_def record_cleanup_intents_def finished_command_def truthy_def insert_cleanup_rows)
      (simp add: empty_db_def)
  have "db_outgoing fenced_db = []"
    by (simp add: fenced_db_def record_cleanup_intents_def finished_command_def truthy_def insert_cleanup_def log_cleanup_def empty_db_def)
  then show "unresolved_terminal_outgoing_commands fenced_db = []" by (simp add: unresolved_terminal_outgoing_commands_def)
qed

theorem cleanup_settles_exactly_witness:
  "map_option c_state (cleanup_at (''a'', 1, CommandCancel, ''n1'') (snd (reconcile_cleanup_intents cancelling_site fenced_db))) = Some CAcknowledged
   \<and> map_option c_state (cleanup_at (''a'', 1, CommandCancel, ''n2'') (snd (reconcile_cleanup_intents cancelling_site fenced_db))) = Some CPending"
proof -
  have drift: "si_drift cancelling_site i d = d" for i d by (simp add: cancelling_site_def sample_site_def)
  have d1: "fenced_db = foldl (\<lambda>d o'. settle_outgoing cancelling_site o' d) fenced_db (unresolved_terminal_outgoing_commands fenced_db)"
    by (simp add: fenced_db_facts(2))
  note all = cleanup_settles_exactly [OF fenced_db_facts(1) drift d1 prod.collapse [symmetric], unfolded fenced_db_facts(3)]
  have "executor_settled cancelling_site (intent_row ''a'' 1 ''s'' 3 CommandCancel ''n1'')"
    "\<not> executor_settled cancelling_site (intent_row ''a'' 1 ''s'' 3 CommandCancel ''n2'')"
    by (simp_all add: executor_settled_def intent_row_def cancelling_site_def row_state_def vor_def command_terminal_states_def)
  with all show ?thesis by (simp add: intent_row_def cleanup_key_def)
qed

subsection \<open>The scan reaches every task\<close>

text \<open>
  C31: The capped scan reaches every task.  Over as many consecutive passes as there are watched
  tasks, each pass starting from the cursor the pass before left, every watched task is
  classified at least once, whatever the cap, however early the clock cuts each pass, and
  whichever tasks fail.
\<close>

theorem scan_reaches_every_task:
  assumes "distinct (map t_id (db_tasks (ds_db (W 0))))"
    and "\<And>i. i < length (watched_ids (ds_db (W 0))) \<Longrightarrow> watched_ids (ds_db (W i)) = watched_ids (ds_db (W 0)) \<and> si_cap (S i) \<ge> 1
           \<and> ds_cursor (W (Suc i)) = ds_cursor (snd (detect_liveness (S i) (W i)))"
    and "r \<in> set (db_tasks (ds_db (W 0)))" "detectable r"
  shows "\<exists>i < length (watched_ids (ds_db (W 0))). t_id r \<in> set (pass_visits (S i) (W i))"
proof (rule passes_reach [where W = W and S = S, OF _ _ assms(2)])
  show "distinct (watched_ids (ds_db (W 0)))" using assms(1) by (simp add: watched_ids_def distinct_map_filter)
qed (use assms(3,4) in \<open>auto simp: watched_ids_def\<close>)

text \<open>Passes over two running tasks, one per pass.\<close>

definition two_running :: db where
  "two_running = seed [sample_row ''a'' Active 0 2, sample_row ''b'' Active 0 2]"

primrec passes :: "nat \<Rightarrow> dstate" where
  "passes 0 = sample_world two_running"
| "passes (Suc n) = (passes n)\<lparr>ds_cursor := ds_cursor (snd (detect_liveness sample_site (passes n)))\<rparr>"

lemma two_running_tasks: "db_tasks two_running = [sample_row ''a'' Active 0 2, sample_row ''b'' Active 0 2]"
  unfolding two_running_def by (rule seed_tasks) (simp add: task_table_ok_def task_row_ok_def unique_where_def live_holder_def)

lemma passes_db [simp]: "ds_db (passes n) = two_running"
  by (induction n) (simp_all add: sample_world_def)

theorem scan_reaches_every_task_witness:
  "\<exists>i < 2. ''b'' \<in> set (pass_visits sample_site (passes i))"
proof -
  have watched: "watched_ids two_running = [''a'', ''b'']"
    by (simp add: watched_ids_def two_running_tasks detectable_def)
  have "distinct (map t_id (db_tasks (ds_db (passes 0))))" by (simp add: two_running_tasks sample_world_def)
  moreover have "watched_ids (ds_db (passes i)) = watched_ids (ds_db (passes 0)) \<and> si_cap sample_site \<ge> 1
      \<and> ds_cursor (passes (Suc i)) = ds_cursor (snd (detect_liveness sample_site (passes i)))" for i
    by (simp add: sample_site_def)
  moreover have "sample_row ''b'' Active 0 2 \<in> set (db_tasks (ds_db (passes 0)))" "detectable (sample_row ''b'' Active 0 2)"
    by (simp_all add: two_running_tasks detectable_def sample_world_def)
  ultimately have "\<exists>i < length (watched_ids (ds_db (passes 0))). t_id (sample_row ''b'' Active 0 2) \<in> set (pass_visits sample_site (passes i))"
    by (rule scan_reaches_every_task [where W = passes and S = "\<lambda>_. sample_site"])
  then show ?thesis by (simp add: watched numeral_2_eq_2)
qed

subsection \<open>A declared loss and a running process\<close>

text \<open>
  The sweep of declared losses does not make the classifier's exception for a running process:
  with the same evidence it records a loss the classifier never reports.
\<close>

lemma sweep_skips_the_veto:
  assumes "get_by_id (t_id t) (ds_db w) = Some current" and "t_state current = Active" and "t_epoch current = t_epoch t"
    and "truthy (t_holder t)" and v: "v = evidence_of S (printed (t_holder current)) (t_checkpoint_at current) None"
    and "truthy (v_lost_reason v)" and "v_process_alive v"
  shows "classify v (si_now S) p \<noteq> CLost"
    and "snd (sweep_one S t w) = snd (record_loss S t \<lparr>f_reason = CLost, f_evidence = v, f_now = si_now S, f_over_budget = False\<rparr>
           (w\<lparr>ds_db := si_drift S (t_id t) (ds_db w)\<rparr>))"
proof -
  show "classify v (si_now S) p \<noteq> CLost" using classified_lost [of v "si_now S" p] assms(7) by blast
  show "snd (sweep_one S t w) = snd (record_loss S t \<lparr>f_reason = CLost, f_evidence = v, f_now = si_now S, f_over_budget = False\<rparr>
           (w\<lparr>ds_db := si_drift S (t_id t) (ds_db w)\<rparr>))"
    using assms by (simp add: sweep_one_def Let_def split: prod.splits sum.splits)
qed

text \<open>A stored detection policy is used as it is: the floor of the site does not bound it.\<close>

lemma stored_policy_ignores_floor:
  assumes "trusted_policy (si_num S) (si_environ S) = Inr trusted" and "vget ''detection'' (spec_of t) \<noteq> VNone"
  shows "detection_policy S t = policy_from_dict (vget ''detection'' (spec_of t))"
  using assms by (simp add: detection_policy_def Let_def)

end
