(* ===== verification/Launch.thy ===== *)
theory Launch
  imports Executor Reconciler
begin

text \<open>
  Launching a task's epoch (\<open>sdk.py\<close>): the admission wait, the journalled native launch with its
  typed rejections, refusals and losses, the launch of a reservation, and the replacement of a
  session by its successor.  Every operation threads the manager's durable world, the task
  database, the escalation store, the ownership table and the account pool, and may raise;
  what it wrote before raising stays.  While a task's gate is open for a request, others may
  write: \<open>mg_drift\<close> says what they do at each gate.
\<close>

subsection \<open>The manager's world\<close>

record mesh =
  ms_db :: db
  ms_esc :: esc_db
  ms_owners :: owners
  ms_pool :: pool_state
  ms_calls :: "(string \<times> int) list"

datatype merror =
    MStore kerror
  | MClient cerror
  | MOwner oerror
  | MRoute rerror
  | MKey
  | MGone string
  | MChanged string
  | MCapacity string
  | MSuperseded string
  | MLost string string
  | MInvalid string string
  | MProvider
  | MContract
  | MRefused string
  | MProfile
  | MPolicy lerror

text \<open>The points at which a task's gate is opened for the executor.\<close>

datatype gate = GRequest | GCapacity nat | GWait nat | GLaunch | GStop | GQueue | GForward | GProcesses | GProviders | GSend | GCheckpoint

text \<open>
  What the manager is configured with and told: its identity, the executor's answers, the
  limits read from the environment, the routing settings and pool, and the interference.
\<close>

record manager =
  mg_site :: site
  mg_owner :: string
  mg_interrupts :: bool
  mg_handoff :: "hevent \<Rightarrow> bool"
  mg_workspace :: "launch_args \<Rightarrow> cerror + val"
  mg_hash :: "val \<Rightarrow> string"
  mg_launch :: "string \<Rightarrow> int \<Rightarrow> val \<Rightarrow> cerror + val"
  mg_running :: "nat \<Rightarrow> cerror + json list"
  mg_clock :: "nat \<Rightarrow> real"
  mg_lag :: "nat \<Rightarrow> nat"
  mg_cap :: int
  mg_patience :: real
  mg_settings :: "rerror + routing_settings"
  mg_accounts :: pool
  mg_view :: "pool_state \<Rightarrow> pool_view"
  mg_client :: "unit client"
  mg_processes :: "string \<Rightarrow> cerror + val list"
  mg_commands :: "string \<Rightarrow> cerror + val list"
  mg_providers :: "cerror + val list"
  mg_info :: "cerror + val"
  mg_lookup :: "(cerror + val) option"
  mg_checkpoint :: "task_record \<Rightarrow> merror + string option"
  mg_drift :: "gate \<Rightarrow> mesh \<Rightarrow> mesh"

type_synonym 'a mesh_op = "(mesh, merror, 'a) op"

abbreviation mg_now :: "manager \<Rightarrow> real" where
  "mg_now M \<equiv> si_now (mg_site M)"

text \<open>The context and the fence inside \<open>with task_lock(task_id) as fence\<close>.\<close>

definition held_ctx :: "manager \<Rightarrow> string \<Rightarrow> ctx" where
  "held_ctx M tid = lock_ctx tid (si_ctx (mg_site M))"

definition held_fence :: "manager \<Rightarrow> string \<Rightarrow> fence" where
  "held_fence M tid = lock_fence tid (si_ctx (mg_site M))"

definition on_db :: "(db \<Rightarrow> kerror + 'a \<times> db) \<Rightarrow> 'a mesh_op" where
  "on_db f w = (case f (ms_db w) of Inl e \<Rightarrow> (Inl (MStore e), w) | Inr (a, d) \<Rightarrow> (Inr a, w\<lparr>ms_db := d\<rparr>))"

definition on_db_only :: "(db \<Rightarrow> kerror + db) \<Rightarrow> unit mesh_op" where
  "on_db_only f = on_db (\<lambda>d. ebind (f d) (\<lambda>d'. Inr ((), d')))"

definition on_owners :: "(owners \<Rightarrow> (oerror + 'a) \<times> owners) \<Rightarrow> 'a mesh_op" where
  "on_owners f w =
     (case f (ms_owners w) of
        (Inl e, rows) \<Rightarrow> (Inl (MOwner e), w\<lparr>ms_owners := rows\<rparr>)
      | (Inr a, rows) \<Rightarrow> (Inr a, w\<lparr>ms_owners := rows\<rparr>))"

text \<open>\<open>with fence.external_io()\<close>: what the others wrote by the time the gate is closed again.\<close>

definition opened :: "manager \<Rightarrow> gate \<Rightarrow> unit mesh_op" where
  "opened M g = modify (\<lambda>w. (mg_drift M g w)\<lparr>ms_calls := ms_calls w\<rparr>)"

definition given_client :: "cerror + 'a \<Rightarrow> 'a mesh_op" where
  "given_client r = given (case r of Inl e \<Rightarrow> Inl (MClient e) | Inr a \<Rightarrow> Inr a)"

subsection \<open>Specifications\<close>

text \<open>A text or null entry of a stored dictionary, by \<open>get\<close> and by subscript.\<close>

definition jtext :: "string \<Rightarrow> json \<Rightarrow> string option" where
  "jtext k j = (case jget k j of Some (JStr s) \<Rightarrow> Some s | _ \<Rightarrow> None)"

definition jneed :: "string \<Rightarrow> json \<Rightarrow> merror + string" where
  "jneed k j = (case jget k j of Some (JStr s) \<Rightarrow> Inr s | _ \<Rightarrow> Inl MKey)"

definition target_field :: "task_record \<Rightarrow> json" where
  "target_field t = (case jget ''target'' (t_spec t) of None \<Rightarrow> JObj [] | Some j \<Rightarrow> j)"

definition need_target :: "task_record \<Rightarrow> merror + json" where
  "need_target t = (case jget ''target'' (t_spec t) of None \<Rightarrow> Inl MKey | Some j \<Rightarrow> Inr j)"

text \<open>\<open>_workspace_request\<close>\<close>

definition workspace_args :: "task_record \<Rightarrow> string \<Rightarrow> merror + launch_args" where
  "workspace_args t prompt =
     ebind (need_target t) (\<lambda>target.
     ebind (jneed ''repo_path'' (t_spec t)) (\<lambda>repo.
     ebind (jneed ''base'' (t_spec t)) (\<lambda>base.
     ebind (jneed ''executor'' target) (\<lambda>executor.
     ebind (jneed ''permission'' (t_spec t)) (\<lambda>permission.
       Inr \<lparr>la_name = t_key t, la_repo = repo, la_branch = base, la_executor = executor, la_prompt = prompt,
            la_worktree = True, la_permission = permission, la_model = jtext ''model'' target,
            la_reasoning = jtext ''reasoning'' target, la_provider = jtext ''provider_id'' target,
            la_setup = jtext ''setup_script'' (t_spec t), la_binding = jtext ''auth_binding_id'' target\<rparr>)))))"

definition workspace_request :: "manager \<Rightarrow> task_record \<Rightarrow> string \<Rightarrow> val mesh_op" where
  "workspace_request M t prompt =
     follow (opened M GRequest) (\<lambda>_. follow (given (workspace_args t prompt)) (\<lambda>a. given_client (mg_workspace M a)))"

subsection \<open>Snapshots\<close>

definition unchanged :: "task_record \<Rightarrow> task_record \<Rightarrow> bool" where
  "unchanged t c \<longleftrightarrow> t_epoch c = t_epoch t \<and> t_version c = t_version t"

definition reload_unchanged :: "task_record \<Rightarrow> mesh \<Rightarrow> task_record option" where
  "reload_unchanged t w =
     (case get_by_id (t_id t) (ms_db w) of None \<Rightarrow> None | Some c \<Rightarrow> if unchanged t c then Some c else None)"

definition require_unchanged :: "task_record \<Rightarrow> task_record mesh_op" where
  "require_unchanged t =
     follow (observe (reload_unchanged t)) (\<lambda>c. case c of None \<Rightarrow> raising (MChanged (t_key t)) | Some c \<Rightarrow> give c)"

definition still_reserved :: "task_record \<Rightarrow> mesh \<Rightarrow> bool" where
  "still_reserved t w \<longleftrightarrow> (case reload_unchanged t w of None \<Rightarrow> False | Some c \<Rightarrow> t_state c = Reserved)"

definition reloaded_or :: "task_record \<Rightarrow> task_record mesh_op" where
  "reloaded_or t = observe (\<lambda>w. case get_by_id (t_id t) (ms_db w) of None \<Rightarrow> t | Some c \<Rightarrow> c)"

subsection \<open>Outcomes\<close>

definition finish_task :: "manager \<Rightarrow> task_record \<Rightarrow> task_state \<Rightarrow> string option \<Rightarrow> bool \<Rightarrow> task_record mesh_op" where
  "finish_task M t st res charge =
     on_db (sdk_finish (si_wid (mg_site M)) (held_ctx M (t_id t)) (t_id t) st res charge (held_fence M (t_id t)) (mg_now M))"

definition cool_binding :: "manager \<Rightarrow> task_record \<Rightarrow> string \<Rightarrow> real option \<Rightarrow> unit mesh_op" where
  "cool_binding M t outcome retry =
     (let target = target_field t; binding = jtext ''auth_binding_id'' target in
      if \<not> truthy binding \<or> binding = Some ''free'' then give ()
      else follow (given (case mg_settings M of Inl e \<Rightarrow> Inl (MRoute e) | Inr s \<Rightarrow> Inr s)) (\<lambda>s w.
             case cool_provider_outcome s (mg_accounts M) outcome (the binding) (jtext ''route_class'' target)
                    (jtext ''route_id'' target) (map_option PFloat retry) (mg_now M) (ms_pool w) of
               Inl e \<Rightarrow> (Inl (MRoute e), w)
             | Inr (ids, st) \<Rightarrow> (Inr (), w\<lparr>ms_pool := st\<rparr>)))"

definition record_provider_outcome :: "manager \<Rightarrow> task_record \<Rightarrow> string \<Rightarrow> real option \<Rightarrow> string mesh_op" where
  "record_provider_outcome M t outcome retry =
     follow (if outcome \<in> reroute_outcomes then cool_binding M t outcome retry else give ()) (\<lambda>_.
       follow (on_db (mark_terminal (t_id t) (t_epoch t) outcome retry (mg_now M))) (\<lambda>_. give outcome))"

definition rejection_outcome :: "int option \<Rightarrow> string" where
  "rejection_outcome status =
     (if status = Some 429 then ''rate_limited''
      else if status = Some 401 \<or> status = Some 403 then ''auth''
      else ''rejected:'' @ (case status of None \<Rightarrow> ''unknown'' | Some i \<Rightarrow> show_int i))"

subsection \<open>The native launch\<close>

text \<open>\<open>_effect_ids\<close>: a temporary refusal leaves the reservation adoptable, a loss ends the task.\<close>

definition retry_after_of :: "val \<Rightarrow> real option" where
  "retry_after_of native = (case vget ''retry_after_seconds'' native of VNum n \<Rightarrow> finite_num n | _ \<Rightarrow> None)"

definition retry_notice :: "val \<Rightarrow> string" where
  "retry_notice native =
     (case retry_after_of native of
        None \<Rightarrow> []
      | Some r \<Rightarrow> if r = 0 then [] else ''; retry after '' @ show_int (if r \<ge> 0 then \<lfloor>r\<rfloor> else \<lceil>r\<rceil>) @ ''s'')"

definition refusal_text :: "string \<Rightarrow> string \<Rightarrow> val \<Rightarrow> string" where
  "refusal_text key reason native =
     ''launch refused for '' @ CHR 0x27 # key @ CHR 0x27 # '': ''
       @ (if reason = [] then ''temporary refusal'' else reason) @ retry_notice native"

definition effect_ids :: "manager \<Rightarrow> task_record \<Rightarrow> val \<Rightarrow> (string \<times> string) mesh_op" where
  "effect_ids M t native =
     (let pystr = si_pystr (mg_site M);
          state = text_or_empty pystr (vget ''state'' native);
          reason = strip (text_or_empty pystr (vget ''reason'' native));
          ws = vget ''workspace_id'' native; sid = vget ''session_id'' native in
      if state = ''pending'' \<and> vtruthy (vget ''retryable'' native) then
        follow (on_db (mark_refused (t_id t) (t_epoch t) (if reason = [] then ''refused'' else reason) (retry_after_of native) (mg_now M)))
          (\<lambda>_. raising (MClient (CPending (refusal_text (t_key t) reason native) (Some 503) None)))
      else if state = ''lost'' then
        (let why = (if reason = [] then ''lost'' else reason) in
         follow (on_db (mark_terminal (t_id t) (t_epoch t) (''lost:'' @ why) None (mg_now M))) (\<lambda>_.
           follow (finish_task M t Lost (Some why) False) (\<lambda>_. raising (MLost (t_key t) why))))
      else if state \<noteq> ''active'' \<or> \<not> vtruthy ws \<or> \<not> vtruthy sid
      then raising (MInvalid (t_key t) (if state = [] then ''invalid'' else state))
      else give (text_of pystr ws, text_of pystr sid))"

text \<open>The handler of a rejected launch; the rejection itself is raised again after it.\<close>

fun is_rejection :: "cerror \<Rightarrow> bool" where
  "is_rejection (CRejected m s r) = True"
| "is_rejection (CInterrupted m s r) = True"
| "is_rejection (CPending m s r) = True"
| "is_rejection e = False"

fun undecided :: "cerror \<Rightarrow> bool" where
  "undecided (CInterrupted m s r) = True"
| "undecided (CPending m s r) = True"
| "undecided e = False"

fun error_retry :: "cerror \<Rightarrow> real option" where
  "error_retry (CRejected m s r) = r"
| "error_retry (CInterrupted m s r) = r"
| "error_retry (CPending m s r) = r"
| "error_retry e = None"

definition launch_rejected :: "manager \<Rightarrow> task_record \<Rightarrow> cerror \<Rightarrow> unit mesh_op" where
  "launch_rejected M t e =
     follow (observe (\<lambda>w. reload_unchanged t w \<noteq> None)) (\<lambda>same.
       if \<not> same
       then follow (on_db (mark_terminal (t_id t) (t_epoch t) ''superseded'' None (mg_now M))) (\<lambda>_. give ())
       else if undecided e then give ()
       else follow (record_provider_outcome M t (rejection_outcome (error_status e)) (error_retry e)) (\<lambda>outcome.
              follow (finish_task M t Blocked (Some (''launch rejected: '' @ outcome)) True) (\<lambda>_. give ())))"

definition launch_superseded :: "manager \<Rightarrow> task_record \<Rightarrow> string \<Rightarrow> (string \<times> string) mesh_op" where
  "launch_superseded M t ws =
     follow (observe (\<lambda>w. case get_effect (t_id t) (t_epoch t) (ms_db w) of None \<Rightarrow> False | Some e \<Rightarrow> e_state e = ETerminal)) (\<lambda>ended.
       follow (on_db (if ended then mark_cleanup_workspace (t_id t) (t_epoch t) ws (mg_now M)
                      else mark_superseded (t_id t) (t_epoch t) ws (mg_now M))) (\<lambda>e.
         follow (opened M GStop) (\<lambda>_.
           follow (on_db_only (stop_terminal (si_stop_workspace (mg_site M)) e (mg_now M))) (\<lambda>_.
             raising (MSuperseded (t_key t))))))"

definition native_launch :: "manager \<Rightarrow> task_record \<Rightarrow> val \<Rightarrow> (string \<times> string) mesh_op" where
  "native_launch M t launch =
     follow (modify (\<lambda>w. w\<lparr>ms_calls := ms_calls w @ [(t_id t, t_epoch t)]\<rparr>)) (\<lambda>_.
       follow (opened M GLaunch) (\<lambda>_.
         case mg_launch M (t_id t) (t_epoch t) launch of
           Inl e \<Rightarrow>
             if is_rejection e then follow (launch_rejected M t e) (\<lambda>_. raising (MClient e)) else raising (MClient e)
         | Inr native \<Rightarrow>
             follow (effect_ids M t native) (\<lambda>(ws, sid).
               follow (observe (\<lambda>w. reload_unchanged t w \<noteq> None)) (\<lambda>same.
                 if same
                 then follow (on_db (mark_launched (t_id t) (t_epoch t) ws sid (mg_now M))) (\<lambda>_. give (ws, sid))
                 else launch_superseded M t ws))))"

text \<open>
  The reservation: a launch that is still owned by another starter is waited for, with the gate
  open while sleeping, up to the adoption deadline.
\<close>

definition adopt_timeout :: real where
  "adopt_timeout = 30"

definition reservation_ttl :: real where
  "reservation_ttl = 120"

definition try_reserve :: "manager \<Rightarrow> task_record \<Rightarrow> string \<Rightarrow> nat \<Rightarrow> effect option mesh_op" where
  "try_reserve M t hash i w =
     (case reserve_effect (t_id t) (t_epoch t) hash (mg_owner M) reservation_ttl (mg_clock M i) (ms_db w) of
        Inr ((e, took_over), d) \<Rightarrow> (Inr (Some e), w\<lparr>ms_db := d\<rparr>)
      | Inl (EffectIsBusy a b) \<Rightarrow> (Inr None, w)
      | Inl e \<Rightarrow> (Inl (MStore e), w))"

definition reserve_or_wait :: "manager \<Rightarrow> task_record \<Rightarrow> string \<Rightarrow> effect mesh_op" where
  "reserve_or_wait M t hash =
     poll AdoptNap adopt_timeout (mg_lag M) (try_reserve M t hash) (\<lambda>i w. snd (opened M (GWait i) w))
       (MStore (EffectIsBusy (t_id t) (t_epoch t))) 0 0"

definition journaled_launch :: "manager \<Rightarrow> task_record \<Rightarrow> val \<Rightarrow> (string \<times> string) mesh_op" where
  "journaled_launch M t launch =
     follow (reserve_or_wait M t (mg_hash M launch)) (\<lambda>e.
       if e_state e = ELaunched \<and> truthy (e_workspace_id e) \<and> truthy (e_session_id e)
       then give (the (e_workspace_id e), the (e_session_id e))
       else native_launch M t launch)"
subsection \<open>Starting a reservation\<close>

definition record_launcher_of :: "manager \<Rightarrow> task_record \<Rightarrow> unit mesh_op" where
  "record_launcher_of M t =
     modify (\<lambda>w. if \<not> truthy (t_holder t) then w
                  else w\<lparr>ms_esc := record_launcher (mg_now M) (the (t_holder t)) (t_workspace t)
                                    \<lparr>li_launcher = ''cdesktop'', li_detail = Some ''sightmesh-task''\<rparr> (ms_esc w)\<rparr>)"

definition wait_for_capacity :: "manager \<Rightarrow> task_record \<Rightarrow> unit mesh_op" where
  "wait_for_capacity M t =
     poll CapacityNap (mg_patience M) (mg_lag M)
       (\<lambda>i. follow (opened M (GCapacity i)) (\<lambda>_.
              follow (given_client (mg_running M i)) (\<lambda>rows.
                follow (given (case count_running rows of Inl e \<Rightarrow> Inl (MStore e) | Inr n \<Rightarrow> Inr n)) (\<lambda>n.
                  give (if n < mg_cap M then Some () else None)))))
       (\<lambda>i w. w) (MCapacity (t_key t)) 0 0"

definition launch_of :: "val \<Rightarrow> val" where
  "launch_of req = VDict [(''kind'', VStr ''workspace''), (''request'', req)]"

text \<open>\<open>activate\<close> and \<open>_record_launcher\<close>, the end of every successful launch.\<close>

definition activate_launched :: "manager \<Rightarrow> task_record \<Rightarrow> string \<Rightarrow> string \<Rightarrow> task_record mesh_op" where
  "activate_launched M t ws sid =
     follow (on_db (activate (held_ctx M (t_id t)) (t_id t) ws sid (Some (held_fence M (t_id t))) (mg_now M))) (\<lambda>active.
       follow (record_launcher_of M active) (\<lambda>_. give active))"

definition start_reserved_locked :: "manager \<Rightarrow> task_record \<Rightarrow> task_record mesh_op" where
  "start_reserved_locked M t =
     (if t_state t \<noteq> Reserved then give t
      else case jneed ''prompt'' (t_spec t) of
        Inl e \<Rightarrow> follow (opened M GRequest) (\<lambda>_. raising e)
      | Inr prompt \<Rightarrow>
          follow (workspace_request M t prompt) (\<lambda>req.
            follow (observe (still_reserved t)) (\<lambda>same.
              if \<not> same then reloaded_or t
              else follow (wait_for_capacity M t) (\<lambda>_.
                follow (observe (still_reserved t)) (\<lambda>same.
                  if \<not> same then reloaded_or t
                  else follow (journaled_launch M t (launch_of req)) (\<lambda>(ws, sid). activate_launched M t ws sid))))))"

definition start_reserved :: "manager \<Rightarrow> task_record \<Rightarrow> task_record mesh_op" where
  "start_reserved M t =
     follow (observe (\<lambda>w. get_by_id (t_id t) (ms_db w))) (\<lambda>c.
       case c of None \<Rightarrow> raising (MGone (t_key t)) | Some c \<Rightarrow> start_reserved_locked M c)"

subsection \<open>Replacing a session\<close>

text \<open>
  \<open>transfer_ownership\<close> with its callbacks: \<open>before\<close> runs once the queue has been read, \<open>spawn\<close>
  only while no successor is recorded.
\<close>

definition link_spawned :: "manager \<Rightarrow> string \<Rightarrow> string \<Rightarrow> string mesh_op" where
  "link_spawned M source sid =
     (if sid = [] then raising (MOwner NoSuccessorSession)
      else follow (on_owners (link_successor source sid)) (\<lambda>_. give sid))"

definition forward_commands :: "manager \<Rightarrow> string \<Rightarrow> string \<Rightarrow> string \<Rightarrow> bool \<Rightarrow> val list \<Rightarrow> string mesh_op" where
  "forward_commands M source sid key spawned cmds w =
     (case finish_handoff (si_pystr (mg_site M)) (mg_interrupts M) (mg_handoff M) source sid key spawned cmds (ms_owners w) of
        (res, rows, sent) \<Rightarrow>
          (case res of Inl e \<Rightarrow> Inl (MOwner e) | Inr h \<Rightarrow> Inr (h_successor h),
           if sent = [] then w else snd (opened M GForward w)))"

definition hand_over :: "manager \<Rightarrow> string \<Rightarrow> string \<Rightarrow> string \<Rightarrow> unit mesh_op \<Rightarrow> string mesh_op \<Rightarrow> string mesh_op" where
  "hand_over M source reason key before spawn =
     follow (on_owners (retire source Superseded reason (Some key) (si_stamp (mg_site M)) (\<lambda>r. r))) (\<lambda>own.
       follow (opened M GQueue) (\<lambda>_.
         case si_commands (mg_site M) source of
           None \<Rightarrow> raising (MOwner RequestFailed)
         | Some cmds \<Rightarrow>
             let key' = (if truthy (o_logical_key own) then the (o_logical_key own) else key) in
             if truthy (o_successor own)
             then forward_commands M source (the (o_successor own)) key' False cmds
             else follow before (\<lambda>_. follow spawn (\<lambda>sid. follow (link_spawned M source sid) (\<lambda>_.
                    forward_commands M source sid key' True cmds)))))"

definition session_request :: "task_record \<Rightarrow> string \<Rightarrow> merror + val" where
  "session_request t prompt =
     ebind (need_target t) (\<lambda>target.
     ebind (jneed ''executor'' target) (\<lambda>executor.
     ebind (jneed ''permission'' (t_spec t)) (\<lambda>permission.
       Inr (session_launch_request (t_key t) prompt (Some executor) (Some permission) (jtext ''model'' target)
              (jtext ''reasoning'' target) (jtext ''provider_id'' target) (jtext ''auth_binding_id'' target)))))"

definition session_launch :: "task_record \<Rightarrow> val \<Rightarrow> val" where
  "session_launch t req =
     VDict [(''kind'', VStr ''session''), (''workspace_id'', vopt (t_workspace t)),
            (''caller_session_id'', vopt (t_holder t)), (''request'', req)]"

definition replace_prepared :: "manager \<Rightarrow> task_record \<Rightarrow> string \<Rightarrow> task_record mesh_op" where
  "replace_prepared M t prompt =
     follow (given (session_request t prompt)) (\<lambda>req.
       follow (hand_over M (printed (t_holder t)) ''managed task replacement''
                 (''task:'' @ t_id t @ '':epoch:'' @ show_int (t_epoch t))
                 (follow (require_unchanged t) (\<lambda>_. give ()))
                 (follow (journaled_launch M t (session_launch t req)) (\<lambda>(ws, sid). give sid)))
         (\<lambda>sid. activate_launched M t (printed (t_workspace t)) sid))"

definition launch_prepared :: "manager \<Rightarrow> task_record \<Rightarrow> string \<Rightarrow> task_record mesh_op" where
  "launch_prepared M t prompt =
     (if truthy (t_workspace t) \<and> truthy (t_holder t) then replace_prepared M t prompt
      else follow (workspace_request M t prompt) (\<lambda>req.
        follow (require_unchanged t) (\<lambda>_.
          follow (journaled_launch M t (launch_of req)) (\<lambda>(ws, sid). activate_launched M t ws sid))))"
subsection \<open>What every launch keeps\<close>

text \<open>
  The step of the manager's world: the task database moves by a kernel step, ownership only
  gains terminal records and successor links, and no account is cooled for less time.
\<close>

definition mesh_step :: "mesh \<Rightarrow> mesh \<Rightarrow> bool" where
  "mesh_step w w' \<longleftrightarrow>
     (kernel_inv (ms_db w) \<longrightarrow> kernel_step (ms_db w) (ms_db w'))
     \<and> (owners_ok (ms_owners w) \<longrightarrow> owners_ok (ms_owners w') \<and> owners_le (ms_owners w) (ms_owners w'))
     \<and> (\<forall>aid. cooled_to (ms_pool w) aid \<le> cooled_to (ms_pool w') aid)"

definition fair :: "manager \<Rightarrow> bool" where
  "fair M \<longleftrightarrow> (\<forall>g w. mesh_step w (mg_drift M g w))"

lemma mesh_step_refl [simp]: "mesh_step w w"
  by (simp add: mesh_step_def kernel_step_refl)

lemma mesh_step_trans: "mesh_step a b \<Longrightarrow> mesh_step b c \<Longrightarrow> mesh_step a c"
  unfolding mesh_step_def by (meson kernel_step_inv kernel_step_trans order_trans owners_le_trans)

lemma mesh_preorder: "preorder mesh_step"
  by (auto simp: preorder_def reflp_def transp_def intro: mesh_step_trans)

named_theorems mesh_keeps \<open>operations that move the manager's world by its step\<close>

lemmas mesh_combinators [mesh_keeps] = keeps_basic [OF mesh_preorder] keeps_follow [OF mesh_preorder] keeps_each [OF mesh_preorder]
  keeps_poll [OF mesh_preorder] keeps_if keeps_option keeps_sum keeps_prod

lemma keeps_modify: "(\<And>w. mesh_step w (f w)) \<Longrightarrow> keeps mesh_step (modify f)"
  by (simp add: keeps_def modify_def)

lemma keeps_opened [mesh_keeps]: "fair M \<Longrightarrow> keeps mesh_step (opened M g)"
  unfolding opened_def by (rule keeps_modify) (simp add: fair_def mesh_step_def)

lemma keeps_on_db:
  assumes "\<And>d a d'. f d = Inr (a, d') \<Longrightarrow> kernel_inv d \<Longrightarrow> kernel_step d d'"
  shows "keeps mesh_step (on_db f)"
  using assms by (auto intro!: keepsI simp: on_db_def mesh_step_def kernel_step_refl split: sum.splits)

lemma keeps_on_db_only:
  assumes "\<And>d d'. f d = Inr d' \<Longrightarrow> kernel_inv d \<Longrightarrow> kernel_step d d'"
  shows "keeps mesh_step (on_db_only f)"
  unfolding on_db_only_def using assms by (intro keeps_on_db) auto

lemma keeps_on_owners:
  assumes "\<And>rows. owner_step rows (snd (f rows))"
  shows "keeps mesh_step (on_owners f)"
proof (rule keepsI)
  fix w r w'
  assume "on_owners f w = (r, w')"
  then have "w' = w\<lparr>ms_owners := snd (f (ms_owners w))\<rparr>" by (auto simp: on_owners_def split: prod.splits sum.splits)
  with assms [of "ms_owners w"] show "mesh_step w w'"
    by (auto simp: mesh_step_def intro: owner_step_ok owner_step_le kernel_step_refl)
qed

lemma keeps_given_client [mesh_keeps]: "keeps mesh_step (given_client r)"
  unfolding given_client_def by (rule mesh_keeps)

text \<open>The writes of the store and of the journal.\<close>

lemma keeps_marks [mesh_keeps]:
  "keeps mesh_step (on_db (mark_launched tid ep ws s now))"
  "keeps mesh_step (on_db (mark_terminal tid ep out retry now))"
  "keeps mesh_step (on_db (mark_refused tid ep reason after now))"
  "keeps mesh_step (on_db (mark_superseded tid ep ws now))"
  "keeps mesh_step (on_db (mark_cleanup_workspace tid ep ws now))"
  "keeps mesh_step (on_db (activate x tid ws sid fence now))"
  "keeps mesh_step (on_db (prepare_replacement x tid target charge ev fence now))"
  "keeps mesh_step (on_db_only (stop_terminal stops e now))"
  by (auto intro!: keeps_on_db keeps_on_db_only intro: mark_steps mark_cleanup_step lifecycle_steps kernel_inv_ok stop_terminal_step)

lemma keeps_finish [mesh_keeps]: "keeps mesh_step (finish_task M t st res charge)"
  unfolding finish_task_def by (rule keeps_on_db) (rule sdk_finish_step)

lemma keeps_retire [mesh_keeps]: "keeps mesh_step (on_owners (retire sid kind reason key stamp (\<lambda>r. r)))"
  by (rule keeps_on_owners) (rule retiring)

lemma keeps_link [mesh_keeps]: "sid \<noteq> [] \<Longrightarrow> keeps mesh_step (on_owners (link_successor source sid))"
  by (rule keeps_on_owners) (rule linking)

lemma cool_each_longer: "cooled_to st x \<le> cooled_to (cool_each ids seconds now st) x"
  unfolding cool_each_def
  by (rule foldl_invariant [where I = "\<lambda>st'. cooled_to st x \<le> cooled_to st' x"])
     (auto simp: set_cooldown_def cooled_to_cool intro: order_trans)

lemma cool_longer:
  "cool_provider_outcome s accounts outcome b cls rid retry now st = Inr (ids, st') \<Longrightarrow> cooled_to st x \<le> cooled_to st' x"
  by (auto simp: cool_provider_outcome_def Let_def cooled_to_cool set_cooldown_def cool_each_longer split: if_splits option.splits)

lemma keeps_cool_binding [mesh_keeps]: "keeps mesh_step (cool_binding M t outcome retry)"
  unfolding cool_binding_def Let_def
  by (intro mesh_keeps) (auto intro!: keepsI simp: mesh_step_def kernel_step_refl cool_longer split: sum.splits prod.splits)
lemma keeps_record_outcome [mesh_keeps]: "keeps mesh_step (record_provider_outcome M t outcome retry)"
  unfolding record_provider_outcome_def by (intro mesh_keeps)

lemma keeps_effect_ids [mesh_keeps]: "keeps mesh_step (effect_ids M t native)"
  unfolding effect_ids_def Let_def by (intro mesh_keeps)

lemma keeps_launch_rejected [mesh_keeps]: "keeps mesh_step (launch_rejected M t e)"
  unfolding launch_rejected_def by (intro mesh_keeps)

lemma keeps_launch_superseded [mesh_keeps]: "fair M \<Longrightarrow> keeps mesh_step (launch_superseded M t ws)"
  unfolding launch_superseded_def by (intro mesh_keeps) (simp_all add: mesh_keeps split: if_split)

lemma keeps_native_launch [mesh_keeps]: "fair M \<Longrightarrow> keeps mesh_step (native_launch M t launch)"
  unfolding native_launch_def
  by (intro mesh_keeps keeps_modify) (simp_all add: mesh_step_def kernel_step_refl)

lemma keeps_reserve [mesh_keeps]: "fair M \<Longrightarrow> keeps mesh_step (reserve_or_wait M t hash)"
  unfolding reserve_or_wait_def
proof (rule keeps_poll [OF mesh_preorder])
  show "keeps mesh_step (try_reserve M t hash i)" for i
    by (rule keepsI) (auto simp: try_reserve_def mesh_step_def kernel_step_refl intro: reserve_effect_step
        split: sum.splits kerror.splits)
  show "fair M \<Longrightarrow> mesh_step s (snd (opened M (GWait i) s))" for i s
    using keeps_opened [of M "GWait i"] by (simp add: keeps_def)
qed

lemma keeps_journaled_launch [mesh_keeps]: "fair M \<Longrightarrow> keeps mesh_step (journaled_launch M t launch)"
  unfolding journaled_launch_def by (intro mesh_keeps)

lemma keeps_workspace_request [mesh_keeps]: "fair M \<Longrightarrow> keeps mesh_step (workspace_request M t prompt)"
  unfolding workspace_request_def by (intro mesh_keeps)

lemma keeps_activate_launched [mesh_keeps]: "keeps mesh_step (activate_launched M t ws sid)"
  unfolding activate_launched_def record_launcher_of_def
  by (intro mesh_keeps keeps_modify) (simp add: mesh_step_def kernel_step_refl)

lemma keeps_wait_for_capacity [mesh_keeps]: "fair M \<Longrightarrow> keeps mesh_step (wait_for_capacity M t)"
  unfolding wait_for_capacity_def by (intro mesh_keeps) simp_all

lemma keeps_start_locked [mesh_keeps]: "fair M \<Longrightarrow> keeps mesh_step (start_reserved_locked M t)"
  unfolding start_reserved_locked_def reloaded_or_def by (intro mesh_keeps)

lemma keeps_start_reserved [mesh_keeps]: "fair M \<Longrightarrow> keeps mesh_step (start_reserved M t)"
  unfolding start_reserved_def by (intro mesh_keeps)

lemma keeps_link_spawned [mesh_keeps]: "keeps mesh_step (link_spawned M source sid)"
  unfolding link_spawned_def by (cases "sid = []") (simp_all add: mesh_keeps)

lemma keeps_forward [mesh_keeps]: "fair M \<Longrightarrow> keeps mesh_step (forward_commands M source sid key spawned cmds)"
  using keeps_opened [of M GForward]
  by (auto intro!: keepsI simp: forward_commands_def keeps_def split: prod.splits if_splits)

lemma keeps_hand_over [mesh_keeps]:
  "fair M \<Longrightarrow> keeps mesh_step before \<Longrightarrow> keeps mesh_step spawn \<Longrightarrow> keeps mesh_step (hand_over M source reason key before spawn)"
  unfolding hand_over_def Let_def by (intro mesh_keeps)

lemma keeps_replace_prepared [mesh_keeps]: "fair M \<Longrightarrow> keeps mesh_step (replace_prepared M t prompt)"
  unfolding replace_prepared_def require_unchanged_def by (intro mesh_keeps)

lemma keeps_launch_prepared [mesh_keeps]: "fair M \<Longrightarrow> keeps mesh_step (launch_prepared M t prompt)"
  unfolding launch_prepared_def require_unchanged_def by (intro mesh_keeps)
subsection \<open>Native calls\<close>

definition quiet :: "mesh \<Rightarrow> mesh \<Rightarrow> bool" where
  "quiet w w' \<longleftrightarrow> ms_calls w' = ms_calls w"

lemma quiet_preorder: "preorder quiet"
  by (simp add: preorder_def reflp_def transp_def quiet_def)

named_theorems quiet_keeps \<open>operations that request no native launch\<close>

lemmas quiet_combinators [quiet_keeps] = keeps_basic [OF quiet_preorder] keeps_follow [OF quiet_preorder]
  keeps_each [OF quiet_preorder] keeps_poll [OF quiet_preorder] keeps_if keeps_option keeps_sum keeps_prod

lemma quiet_on [quiet_keeps]:
  "keeps quiet (on_db f)" "keeps quiet (on_db_only g)" "keeps quiet (on_owners h)" "keeps quiet (opened M gt)"
  "keeps quiet (given_client r)" "keeps quiet (cool_binding M t outcome retry)" "keeps quiet (record_launcher_of M t)"
  by (auto intro!: keepsI simp: quiet_def on_db_only_def on_db_def on_owners_def opened_def given_client_def cool_binding_def
      record_launcher_of_def Let_def follow_def split: sum.splits prod.splits if_splits)

lemma quiet_workspace_request [quiet_keeps]: "keeps quiet (workspace_request M t prompt)"
  unfolding workspace_request_def by (intro quiet_keeps)

lemma quiet_wait [quiet_keeps]: "keeps quiet (wait_for_capacity M t)"
  unfolding wait_for_capacity_def by (intro quiet_keeps) (simp add: quiet_def)

lemma quiet_reserve [quiet_keeps]: "keeps quiet (reserve_or_wait M t hash)"
  unfolding reserve_or_wait_def
proof (rule keeps_poll [OF quiet_preorder])
  show "keeps quiet (try_reserve M t hash i)" for i
    by (rule keepsI) (auto simp: try_reserve_def quiet_def split: sum.splits kerror.splits)
qed (simp add: quiet_def opened_def)

lemma quiet_outcomes [quiet_keeps]:
  "keeps quiet (finish_task M t st res charge)" "keeps quiet (effect_ids M t native)"
  "keeps quiet (launch_rejected M t e)" "keeps quiet (launch_superseded M t ws)"
proof -
  show fin: "keeps quiet (finish_task M t st res charge)" for st res charge
    unfolding finish_task_def by (intro quiet_keeps)
  show "keeps quiet (effect_ids M t native)" unfolding effect_ids_def Let_def by (intro quiet_keeps fin)
  show "keeps quiet (launch_rejected M t e)"
    unfolding launch_rejected_def record_provider_outcome_def by (intro quiet_keeps fin)
  show "keeps quiet (launch_superseded M t ws)" unfolding launch_superseded_def by (intro quiet_keeps)
qed

lemma native_launch_calls: "ms_calls (snd (native_launch M t launch w)) = ms_calls w @ [(t_id t, t_epoch t)]"
proof -
  let ?w1 = "w\<lparr>ms_calls := ms_calls w @ [(t_id t, t_epoch t)]\<rparr>"
  let ?rest = "follow (opened M GLaunch) (\<lambda>_.
         case mg_launch M (t_id t) (t_epoch t) launch of
           Inl e \<Rightarrow>
             if is_rejection e then follow (launch_rejected M t e) (\<lambda>_. raising (MClient e)) else raising (MClient e)
         | Inr native \<Rightarrow>
             follow (effect_ids M t native) (\<lambda>(ws, sid).
               follow (observe (\<lambda>w. reload_unchanged t w \<noteq> None)) (\<lambda>same.
                 if same
                 then follow (on_db (mark_launched (t_id t) (t_epoch t) ws sid (mg_now M))) (\<lambda>_. give (ws, sid))
                 else launch_superseded M t ws)))"
  have "keeps quiet ?rest" by (intro quiet_keeps)
  then have "quiet ?w1 (snd (?rest ?w1))" by (simp add: keeps_def)
  then show ?thesis by (simp add: quiet_def native_launch_def follow_def [of "modify _"])
qed

lemma journaled_launch_calls:
  "ms_calls (snd (journaled_launch M t launch w)) \<in> {ms_calls w, ms_calls w @ [(t_id t, t_epoch t)]}"
proof -
  obtain r w1 where r: "reserve_or_wait M t (mg_hash M launch) w = (r, w1)" by fastforce
  from keepsD [OF quiet_reserve r] have "ms_calls w1 = ms_calls w" by (simp add: quiet_def)
  with r native_launch_calls [of M t launch w1] show ?thesis
    by (auto simp: journaled_launch_def follow_def split: sum.split)
qed

subsection \<open>Admission\<close>

lemma follow_loud:
  assumes "follow m f w = (res, w')" "ms_calls w' \<noteq> c" "keeps quiet m" "ms_calls w = c"
  obtains a w1 where "m w = (Inr a, w1)" "f a w1 = (res, w')" "ms_calls w1 = c"
proof -
  obtain r w1 where r: "m w = (r, w1)" by fastforce
  from keepsD [OF assms(3) r] have "ms_calls w1 = ms_calls w" by (simp add: quiet_def)
  with assms r that show thesis by (cases r) (auto simp: follow_def)
qed

lemma reserved_branch:
  assumes "start_reserved_locked M t w = (res, w')" "ms_calls w' \<noteq> ms_calls w"
  obtains prompt where "t_state t = Reserved" "jneed ''prompt'' (t_spec t) = Inr prompt"
    "follow (workspace_request M t prompt) (\<lambda>req.
            follow (observe (still_reserved t)) (\<lambda>same.
              if \<not> same then reloaded_or t
              else follow (wait_for_capacity M t) (\<lambda>_.
                follow (observe (still_reserved t)) (\<lambda>same.
                  if \<not> same then reloaded_or t
                  else follow (journaled_launch M t (launch_of req)) (\<lambda>(ws, sid). activate_launched M t ws sid))))) w = (res, w')"
proof -
  from assms have st: "t_state t = Reserved" by (auto simp: start_reserved_locked_def split: if_splits)
  show thesis
  proof (cases "jneed ''prompt'' (t_spec t)")
    case (Inl e)
    have "keeps quiet (follow (opened M GRequest) (\<lambda>_. raising e) :: task_record mesh_op)" by (intro quiet_keeps)
    with assms st Inl show ?thesis by (auto simp: start_reserved_locked_def dest: keepsD simp: quiet_def)
  next
    case (Inr prompt)
    with assms st that show ?thesis by (simp add: start_reserved_locked_def)
  qed
qed

lemma capacity_seen:
  assumes "wait_for_capacity M t w = (Inr u, w')"
  shows "\<exists>i rows n. mg_running M i = Inr rows \<and> count_running rows = Inr n \<and> n < mg_cap M"
proof -
  from poll_result [OF assms [unfolded wait_for_capacity_def]] obtain i v where
    "follow (opened M (GCapacity i)) (\<lambda>_. follow (given_client (mg_running M i)) (\<lambda>rows.
        follow (given (case count_running rows of Inl e \<Rightarrow> Inl (MStore e) | Inr n \<Rightarrow> Inr n)) (\<lambda>n.
          give (if n < mg_cap M then Some () else None)))) v = (Inr (Some u), w')" by blast
  then show ?thesis
    by (auto simp: follow_eq_Inr given_client_def split: sum.splits if_splits)
qed

text \<open>
  C20: a reservation is launched only under the cap.  If starting a reserved task asked the
  executor for a native launch at all, it asked for exactly one, for the task's own epoch, and
  some snapshot of the running processes taken before it counted fewer managed workers than
  the cap.
\<close>

theorem launches_respect_capacity:
  assumes "start_reserved_locked M t w = (res, w')" and "ms_calls w' \<noteq> ms_calls w"
  shows "ms_calls w' = ms_calls w @ [(t_id t, t_epoch t)] \<and> t_state t = Reserved
    \<and> (\<exists>i rows n. mg_running M i = Inr rows \<and> count_running rows = Inr n \<and> n < mg_cap M)"
  using assms
proof (rule reserved_branch)
  fix prompt
  assume st: "t_state t = Reserved" and run: "follow (workspace_request M t prompt) (\<lambda>req.
            follow (observe (still_reserved t)) (\<lambda>same.
              if \<not> same then reloaded_or t
              else follow (wait_for_capacity M t) (\<lambda>_.
                follow (observe (still_reserved t)) (\<lambda>same.
                  if \<not> same then reloaded_or t
                  else follow (journaled_launch M t (launch_of req)) (\<lambda>(ws, sid). activate_launched M t ws sid))))) w = (res, w')"
  from run assms(2) obtain req w1 where w1: "ms_calls w1 = ms_calls w"
    and run1: "(if \<not> still_reserved t w1 then reloaded_or t
              else follow (wait_for_capacity M t) (\<lambda>_.
                follow (observe (still_reserved t)) (\<lambda>same.
                  if \<not> same then reloaded_or t
                  else follow (journaled_launch M t (launch_of req)) (\<lambda>(ws, sid). activate_launched M t ws sid)))) w1 = (res, w')"
    by (elim follow_loud) (auto intro: quiet_keeps)
  from run1 assms(2) w1 have same: "still_reserved t w1" by (auto simp: reloaded_or_def split: if_splits)
  with run1 obtain u w2 where wait: "wait_for_capacity M t w1 = (Inr u, w2)" and w2: "ms_calls w2 = ms_calls w"
    and run2: "(if \<not> still_reserved t w2 then reloaded_or t
       else follow (journaled_launch M t (launch_of req)) (\<lambda>(ws, sid). activate_launched M t ws sid)) w2 = (res, w')"
    using assms(2) w1 by (auto elim!: follow_loud intro: quiet_keeps)
  from run2 assms(2) w2 have "follow (journaled_launch M t (launch_of req)) (\<lambda>(ws, sid). activate_launched M t ws sid) w2 = (res, w')"
    by (auto simp: reloaded_or_def split: if_splits)
  moreover obtain r w3 where j: "journaled_launch M t (launch_of req) w2 = (r, w3)" by fastforce
  moreover have "ms_calls w' = ms_calls w3" if "r = Inr (ws, sid)" for ws sid
  proof -
    have "keeps quiet (activate_launched M t ws sid)" unfolding activate_launched_def by (intro quiet_keeps)
    with that calculation show ?thesis by (auto simp: follow_def quiet_def dest: keepsD)
  qed
  ultimately have "ms_calls w' = ms_calls w3" by (cases r) (auto simp: follow_def)
  with journaled_launch_calls [of M t "launch_of req" w2] j w2 assms(2) have "ms_calls w' = ms_calls w @ [(t_id t, t_epoch t)]"
    by auto
  with st capacity_seen [OF wait] show ?thesis by blast
qed
subsection \<open>One launch for an epoch\<close>

lemma adopted_run:
  assumes "get_effect (t_id t) (t_epoch t) (ms_db w) = Some e" "e_state e = ELaunched"
    and "e_workspace_id e = Some ws" "e_session_id e = Some sid" "ws \<noteq> []" "sid \<noteq> []"
  shows "journaled_launch M t launch w = (Inr (ws, sid), w)"
proof -
  from assms(1) obtain r where r: "find_effect (t_id t) (t_epoch t) (ms_db w) = Some r" "e = decode_effect r"
    by (auto simp: get_effect_def)
  with assms(2) have "e_state r = ELaunched" by (simp add: decode_effect_def effect.defs)
  with r have "try_reserve M t h i w = (Inr (Some e), w)" for h i
    by (simp add: try_reserve_def reserve_effect_def)
  then have "reserve_or_wait M t h w = (Inr e, w)" for h
    unfolding reserve_or_wait_def by (subst poll.simps) simp
  with assms(2-6) show ?thesis by (simp add: journaled_launch_def follow_def truthy_def)
qed

lemma superseded_raises: "launch_superseded M t ws w \<noteq> (Inr r, w')"
  by (auto simp: launch_superseded_def follow_eq_Inr)

lemma effect_ids_Inr: "effect_ids M t native w = (Inr p, w') \<Longrightarrow> w' = w"
  by (auto simp: effect_ids_def Let_def follow_eq_Inr split: if_splits)

lemma native_launch_Inr:
  assumes "native_launch M t launch w = (Inr (ws, sid), w')" "fair M" "kernel_inv (ms_db w)"
  shows "reload_unchanged t w' \<noteq> None \<and> (\<exists>e. get_effect (t_id t) (t_epoch t) (ms_db w') = Some e
    \<and> e_state e = ELaunched \<and> e_workspace_id e = Some ws \<and> e_session_id e = Some sid)"
proof -
  let ?w1 = "w\<lparr>ms_calls := ms_calls w @ [(t_id t, t_epoch t)]\<rparr>"
  obtain w2 where w2: "opened M GLaunch ?w1 = (Inr (), w2)" by (simp add: opened_def)
  from keepsD [OF keeps_opened [OF assms(2)] w2] assms(3) have inv: "kernel_inv (ms_db w2)"
    by (auto simp: mesh_step_def dest: kernel_step_inv)
  from assms(1) w2 have "(case mg_launch M (t_id t) (t_epoch t) launch of
           Inl e \<Rightarrow>
             if is_rejection e then follow (launch_rejected M t e) (\<lambda>_. raising (MClient e)) else raising (MClient e)
         | Inr native \<Rightarrow>
             follow (effect_ids M t native) (\<lambda>(ws, sid).
               follow (observe (\<lambda>w. reload_unchanged t w \<noteq> None)) (\<lambda>same.
                 if same
                 then follow (on_db (mark_launched (t_id t) (t_epoch t) ws sid (mg_now M))) (\<lambda>_. give (ws, sid))
                 else launch_superseded M t ws))) w2 = (Inr (ws, sid), w')"
    by (simp add: native_launch_def follow_def [of "modify _"] follow_def [of "opened M GLaunch"])
  then obtain e d' where same: "reload_unchanged t w2 \<noteq> None" and w': "w' = w2\<lparr>ms_db := d'\<rparr>"
    and m: "mark_launched (t_id t) (t_epoch t) ws sid (mg_now M) (ms_db w2) = Inr (e, d')"
    by (auto simp: follow_eq_Inr on_db_def superseded_raises dest!: effect_ids_Inr split: sum.splits if_splits)
  let ?f = "\<lambda>r. r\<lparr>e_state := ELaunched, e_workspace_id := Some ws, e_session_id := Some sid\<rparr>"
  have "\<And>r. effect_key (?f r) = effect_key r" by (simp add: effect_key_def)
  from advance_effect_cases [OF m [unfolded mark_launched_def] kernel_inv_ok [OF inv] this] obtain r where
    ch: "change_effect (t_id t) (t_epoch t) ''effect-transition'' (mg_now M) (\<lambda>r. e_state r \<in> {EReserved, ELaunched})
       (\<lambda>r. (?f r)\<lparr>e_updated_at := mg_now M\<rparr>) (ms_db w2) = (True, d')"
    and fd: "find_effect (t_id t) (t_epoch t) d' = Some ((?f r)\<lparr>e_updated_at := mg_now M\<rparr>)" by blast
  from change_effect_frame(1) [OF ch] same have "reload_unchanged t w' \<noteq> None"
    by (simp add: w' reload_unchanged_def get_by_id_def find_task_def)
  with fd show ?thesis by (auto simp: w' get_effect_def decode_effect_def effect.defs)
qed

subsection \<open>A concrete launch\<close>

definition sample_unit_client :: "unit client" where
  "sample_unit_client = \<lparr>cl_base = [], cl_now = 5, cl_num = (\<lambda>_. None), cl_pystr = (\<lambda>_. []), cl_fmtg = (\<lambda>_. []),
     cl_iso = (\<lambda>_. None), cl_epoch = (\<lambda>_. None), cl_resolve = id, cl_basename = id, cl_net = (\<lambda>_ w. (Garbage, w))\<rparr>"

definition sample_manager :: manager where
  "sample_manager = \<lparr>mg_site = sample_site, mg_owner = ''me'', mg_interrupts = False, mg_handoff = (\<lambda>_. True),
     mg_workspace = (\<lambda>_. Inr (VDict [])), mg_hash = (\<lambda>_. ''h''),
     mg_launch = (\<lambda>_ _ _. Inr (VDict [(''state'', VStr ''active''), (''workspace_id'', VStr ''w1''), (''session_id'', VStr ''s1'')])),
     mg_running = (\<lambda>_. Inr []), mg_clock = (\<lambda>_. 5), mg_lag = (\<lambda>_. 0), mg_cap = 4, mg_patience = 90,
     mg_settings = Inr default_settings, mg_accounts = [], mg_view = (\<lambda>_. sample_view), mg_client = sample_unit_client,
     mg_processes = (\<lambda>_. Inr []), mg_commands = (\<lambda>_. Inr []), mg_providers = Inr [], mg_info = Inr VNone,
     mg_lookup = None, mg_checkpoint = (\<lambda>_. Inr None), mg_drift = (\<lambda>_ w. w)\<rparr>"

definition mesh_of :: "db \<Rightarrow> mesh" where
  "mesh_of d = \<lparr>ms_db = d, ms_esc = empty_esc, ms_owners = [], ms_pool = empty_pool_state, ms_calls = []\<rparr>"

definition worker_spec :: json where
  "worker_spec = JObj [(''prompt'', JStr ''do it''), (''repo_path'', JStr ''r''), (''base'', JStr ''main''),
     (''permission'', JStr ''PLAN''), (''target'', JObj [(''executor'', JStr ''CODEX'')])]"

definition worker_row :: task_row where
  "worker_row = (sample_row ''a'' Reserved 0 2)\<lparr>t_spec := worker_spec\<rparr>"

lemma sample_manager_fair: "fair sample_manager"
  by (simp add: fair_def sample_manager_def)

lemma worker_row_fields [simp]:
  "t_id worker_row = ''a''" "t_epoch worker_row = 1" "t_version worker_row = 0" "t_state worker_row = Reserved"
  by (simp_all add: worker_row_def sample_row_def new_task_row_def)

lemma worker_task [simp]:
  "t_id (decode_task worker_row) = ''a''" "t_epoch (decode_task worker_row) = 1" "t_version (decode_task worker_row) = 0"
  "t_state (decode_task worker_row) = Reserved" "t_spec (decode_task worker_row) = worker_spec"
  by (simp_all add: decode_task_def task_record.defs) (simp add: worker_row_def)

lemma worker_table: "task_table_ok [worker_row]"
  by (simp add: worker_row_def sample_defs)

lemma worker_db: "kernel_inv (seed [worker_row])" "find_task ''a'' (seed [worker_row]) = Some worker_row"
  "db_effects (seed [worker_row]) = []"
proof -
  have "row_inv worker_row" using sample_row_inv [of 0 2 "''a''" Reserved] by (simp add: worker_row_def row_inv_def within_budget_def)
  then show "kernel_inv (seed [worker_row])" by (intro kernel_inv_seed worker_table) simp
  show "find_task ''a'' (seed [worker_row]) = Some worker_row"
    by (simp add: find_task_def seed_tasks [OF worker_table])
  show "db_effects (seed [worker_row]) = []" by simp
qed

definition reserved_effect :: effect_row where
  "reserved_effect = (sample_effect EReserved)\<lparr>e_owner := ''me'', e_lease_expires_at := 125, e_created_at := 5, e_updated_at := 5\<rparr>"

lemma sample_reserved:
  "\<exists>d1. reserve_or_wait sample_manager (decode_task worker_row) ''h'' (mesh_of (seed [worker_row]))
        = (Inr (decode_effect reserved_effect), (mesh_of (seed [worker_row]))\<lparr>ms_db := d1\<rparr>)
     \<and> kernel_inv d1 \<and> find_effect ''a'' 1 d1 = Some reserved_effect \<and> find_task ''a'' d1 = Some worker_row"
proof -
  let ?row = "\<lparr>e_task_id = ''a'', e_epoch = 1, e_request_hash = ''h'', e_state = EReserved, e_workspace_id = None,
      e_session_id = None, e_outcome = None, e_owner = ''me'', e_lease_expires_at = 125, e_retry_at = None,
      e_created_at = 5, e_updated_at = 5\<rparr>"
  have row: "?row = reserved_effect" by (simp add: reserved_effect_def sample_effect_def)
  obtain d1 where ins: "insert_effect ?row ''reserved'' 5 (seed [worker_row]) = Inr d1"
    using worker_db(3) by (simp add: insert_effect_def)
  have "reserve_effect ''a'' 1 ''h'' ''me'' 120 5 (seed [worker_row]) = Inr ((decode_effect ?row, False), d1)"
    using ins worker_db(3) by (simp add: reserve_effect_def find_effect_def)
  then have "try_reserve sample_manager (decode_task worker_row) ''h'' 0 (mesh_of (seed [worker_row]))
      = (Inr (Some (decode_effect ?row)), (mesh_of (seed [worker_row]))\<lparr>ms_db := d1\<rparr>)"
    by (simp add: try_reserve_def sample_manager_def mesh_of_def reservation_ttl_def)
  then have "reserve_or_wait sample_manager (decode_task worker_row) ''h'' (mesh_of (seed [worker_row]))
      = (Inr (decode_effect ?row), (mesh_of (seed [worker_row]))\<lparr>ms_db := d1\<rparr>)"
    unfolding reserve_or_wait_def by (subst poll.simps) simp
  moreover have "kernel_inv d1" using kernel_step_insert_effect [OF ins worker_db(1)] by (rule kernel_step_inv)
  moreover have "find_effect ''a'' 1 d1 = Some ?row"
    using insert_effect_frame(6) [OF ins] worker_db(3) by (simp add: find_effect_def effect_key_def)
  moreover have "find_task ''a'' d1 = Some worker_row"
    using insert_effect_frame(1) [OF ins] worker_db(2) by (simp add: find_task_def)
  ultimately show ?thesis unfolding row by blast
qed

lemma sample_journaled:
  "\<exists>w'. journaled_launch sample_manager (decode_task worker_row) launch (mesh_of (seed [worker_row]))
        = (Inr (''w1'', ''s1''), w') \<and> ms_calls w' = [(''a'', 1)]"
proof -
  from sample_reserved obtain d1 where r: "reserve_or_wait sample_manager (decode_task worker_row) ''h'' (mesh_of (seed [worker_row]))
        = (Inr (decode_effect reserved_effect), (mesh_of (seed [worker_row]))\<lparr>ms_db := d1\<rparr>)"
    and d1: "kernel_inv d1" "find_effect ''a'' 1 d1 = Some reserved_effect" "find_task ''a'' d1 = Some worker_row" by blast
  let ?f = "\<lambda>r. r\<lparr>e_state := ELaunched, e_workspace_id := Some ''w1'', e_session_id := Some ''s1''\<rparr>"
  from advance_effect_succeeds [OF kernel_inv_ok [OF d1(1)] d1(2), of "{EReserved, ELaunched}" ?f 5]
  obtain e d2 where m: "mark_launched ''a'' 1 ''w1'' ''s1'' 5 d1 = Inr (e, d2)"
    by (auto simp: mark_launched_def effect_key_def reserved_effect_def sample_effect_def)
  have "e_state (decode_effect reserved_effect) = EReserved"
    by (simp add: decode_effect_def effect.defs reserved_effect_def sample_effect_def)
  with r d1(3) m show ?thesis
    by (simp add: journaled_launch_def follow_def native_launch_def opened_def effect_ids_def reload_unchanged_def on_db_def
        get_by_id_def unchanged_def sample_manager_def sample_site_def mesh_of_def Let_def)
qed


theorem launches_respect_capacity_witness:
  "\<exists>res w'. start_reserved_locked sample_manager (decode_task worker_row) (mesh_of (seed [worker_row])) = (res, w')
     \<and> ms_calls w' = [(''a'', 1)]"
proof -
  let ?t = "decode_task worker_row" and ?w = "mesh_of (seed [worker_row])"
  obtain res w' where run: "start_reserved_locked sample_manager ?t ?w = (res, w')" by fastforce
  obtain u where wr: "workspace_request sample_manager ?t ''do it'' ?w = (Inr u, ?w)"
    by (simp add: workspace_request_def follow_def opened_def sample_manager_def workspace_args_def need_target_def jneed_def
        worker_spec_def given_client_def mesh_of_def)
  have still: "still_reserved ?t ?w"
    by (simp add: still_reserved_def reload_unchanged_def get_by_id_def mesh_of_def worker_db(2) unchanged_def)
  have wait: "wait_for_capacity sample_manager ?t ?w = (Inr (), ?w)"
    unfolding wait_for_capacity_def
    by (subst poll.simps) (simp add: follow_def opened_def given_client_def sample_manager_def mesh_of_def)
  from sample_journaled [of "launch_of u"] obtain w1 where
    j: "journaled_launch sample_manager ?t (launch_of u) ?w = (Inr (''w1'', ''s1''), w1)" "ms_calls w1 = [(''a'', 1)]" by blast
  have q: "keeps quiet (activate_launched sample_manager ?t ''w1'' ''s1'')" unfolding activate_launched_def by (intro quiet_keeps)
  from run wr still wait j have "activate_launched sample_manager ?t ''w1'' ''s1'' w1 = (res, w')"
    by (simp add: start_reserved_locked_def jneed_def worker_spec_def follow_def)
  from keepsD [OF q this] j(2) have "ms_calls w' \<noteq> ms_calls ?w" by (simp add: quiet_def mesh_of_def)
  from launches_respect_capacity [OF run this] run show ?thesis by (simp add: mesh_of_def)
qed
subsection \<open>Replacing a session quarantines it\<close>

lemma owners_le_next: "owners_le a b \<Longrightarrow> lookup_by o_session s a = Some r \<Longrightarrow> o_successor r = Some q \<Longrightarrow> next_session b s = Some q"
  by (fastforce simp: owners_le_def next_session_def row_le_def)

lemma link_spawned_next:
  assumes "link_spawned M source sid w = (Inr s, w')"
  shows "\<exists>r. lookup_by o_session source (ms_owners w') = Some r \<and> o_successor r = Some sid"
  using assms
  by (auto simp: link_spawned_def follow_eq_Inr on_owners_def link_successor_def lookup_update_by
      split: if_splits prod.splits sum.splits option.splits simp del: meets_seen.simps)

lemma forward_successor: "forward_commands M source sid key spawned cmds w = (Inr s, w') \<Longrightarrow> s = sid"
  by (auto simp: forward_commands_def dest!: finish_handoff_parts(4) split: prod.splits sum.splits)

lemma activate_holder:
  assumes "activate x tid ws sid fence now d = Inr (rec, d')" and "db_ok d"
  shows "t_holder rec = Some sid"
  using assms(1) unfolding activate_def
proof (rule with_fence_Inr)
  fix x' f
  assume "ebind (require_fence x' tid (Some f)) (\<lambda>_. transition_on tid activate_predecessors None
      (\<lambda>r. r\<lparr>t_state := Active, t_workspace := Some ws, t_holder := Some sid\<rparr>) ''active'' now d) = Inr (rec, d')"
  then have "transition_on tid activate_predecessors None
      (\<lambda>r. r\<lparr>t_state := Active, t_workspace := Some ws, t_holder := Some sid\<rparr>) ''active'' now d = Inr (rec, d')" by simp
  then obtain r where "rec = decode_task ((r\<lparr>t_state := Active, t_workspace := Some ws, t_holder := Some sid\<rparr>)
      \<lparr>t_version := t_version r + 1, t_updated_at := now\<rparr>)"
    by (rule transition_on_write [OF _ assms(2)]) simp
  then show ?thesis by (simp add: decode_task_def task_record.defs)
qed

lemma activated:
  assumes "activate_launched M t ws sid w = (Inr rec, w')" and "db_ok (ms_db w)"
  shows "t_holder rec = Some sid"
proof -
  obtain q w1 where a: "on_db (activate (held_ctx M (t_id t)) (t_id t) ws sid (Some (held_fence M (t_id t))) (mg_now M)) w = (q, w1)"
    by fastforce
  with assms(1) have "q = Inr rec"
    by (cases q) (simp_all add: activate_launched_def follow_def record_launcher_of_def)
  with a obtain d' where "activate (held_ctx M (t_id t)) (t_id t) ws sid (Some (held_fence M (t_id t))) (mg_now M) (ms_db w) = Inr (rec, d')"
    by (auto simp: on_db_def split: sum.splits)
  from activate_holder [OF this assms(2)] show ?thesis .
qed

lemma activate_launched_owners: "ms_owners (snd (activate_launched M t ws sid w)) = ms_owners w"
  by (simp add: activate_launched_def follow_def on_db_def record_launcher_of_def split: sum.split prod.split)

text \<open>What follows the quarantine of the source in \<open>hand_over\<close>.\<close>

definition hand_over_rest :: "manager \<Rightarrow> string \<Rightarrow> string \<Rightarrow> unit mesh_op \<Rightarrow> string mesh_op \<Rightarrow> ownership \<Rightarrow> string mesh_op" where
  "hand_over_rest M source key before spawn own =
     follow (opened M GQueue) (\<lambda>_.
         case si_commands (mg_site M) source of
           None \<Rightarrow> raising (MOwner RequestFailed)
         | Some cmds \<Rightarrow>
             let key' = (if truthy (o_logical_key own) then the (o_logical_key own) else key) in
             if truthy (o_successor own)
             then forward_commands M source (the (o_successor own)) key' False cmds
             else follow before (\<lambda>_. follow spawn (\<lambda>sid. follow (link_spawned M source sid) (\<lambda>_.
                    forward_commands M source sid key' True cmds))))"

lemma keeps_hand_over_rest:
  "fair M \<Longrightarrow> keeps mesh_step before \<Longrightarrow> keeps mesh_step spawn \<Longrightarrow> keeps mesh_step (hand_over_rest M source key before spawn own)"
  unfolding hand_over_rest_def Let_def by (intro mesh_keeps)

lemma hand_over_rest_next:
  assumes "hand_over_rest M source key before spawn own w = (Inr sid, w')" "fair M" "owners_ok (ms_owners w)"
    and "keeps mesh_step before" "keeps mesh_step spawn" and "lookup_by o_session source (ms_owners w) = Some own"
  shows "next_session (ms_owners w') source = Some sid"
proof -
  obtain w1 where g: "opened M GQueue w = (Inr (), w1)" by (simp add: opened_def)
  with assms(1) obtain cmds where cmds: "si_commands (mg_site M) source = Some cmds"
    by (auto simp: hand_over_rest_def follow_def split: option.splits)
  note le1 = keepsD [OF keeps_opened [OF assms(2)] g, unfolded mesh_step_def]
  define key' where "key' = (if truthy (o_logical_key own) then the (o_logical_key own) else key)"
  show ?thesis
  proof (cases "truthy (o_successor own)")
    case True
    then have own: "o_successor own = Some (the (o_successor own))" by (auto simp: truthy_def split: option.splits)
    from assms(1) g cmds True have f: "forward_commands M source (the (o_successor own)) key' False cmds w1 = (Inr sid, w')"
      by (simp add: hand_over_rest_def follow_def key'_def)
    with keepsD [OF keeps_forward [OF assms(2)] f, unfolded mesh_step_def] le1 assms(3)
    have "owners_le (ms_owners w) (ms_owners w')" by (auto intro: owners_le_trans)
    from owners_le_next [OF this assms(6) own] forward_successor [OF f] show ?thesis by simp
  next
    case False
    with assms(1) g cmds obtain u w2 s w3 v w4 where w2: "before w1 = (Inr u, w2)" and w3: "spawn w2 = (Inr s, w3)"
      and w4: "link_spawned M source s w3 = (Inr v, w4)" and f: "forward_commands M source s key' True cmds w4 = (Inr sid, w')"
      by (auto simp: hand_over_rest_def follow_def [of "opened M GQueue"] key'_def follow_eq_Inr)
    note le = le1 keepsD [OF assms(4) w2, unfolded mesh_step_def] keepsD [OF assms(5) w3, unfolded mesh_step_def]
      keepsD [OF keeps_link_spawned w4, unfolded mesh_step_def] keepsD [OF keeps_forward [OF assms(2)] f, unfolded mesh_step_def]
    from link_spawned_next [OF w4] obtain r where "lookup_by o_session source (ms_owners w4) = Some r" "o_successor r = Some s" by blast
    with owners_le_next [of "ms_owners w4" "ms_owners w'" source r s] le assms(3) forward_successor [OF f] show ?thesis by auto
  qed
qed

lemma hand_over_quarantines:
  assumes "hand_over M source reason key before spawn w = (res, w')" and "fair M" and "owners_ok (ms_owners w)"
    and "keeps mesh_step before" and "keeps mesh_step spawn"
  shows "lookup_by o_session source (ms_owners w') \<noteq> None
    \<and> (\<forall>sid. res = Inr sid \<longrightarrow> next_session (ms_owners w') source = Some sid)"
proof -
  from retire_ok [OF assms(3), of source Superseded reason "Some key" "si_stamp (mg_site M)"] obtain own rows where
    r: "retire source Superseded reason (Some key) (si_stamp (mg_site M)) (\<lambda>r. r) (ms_owners w) = (Inr own, rows)"
    and rows: "owner_step (ms_owners w) rows" "lookup_by o_session source rows = Some own" by blast
  let ?w1 = "w\<lparr>ms_owners := rows\<rparr>"
  have rest: "hand_over_rest M source key before spawn own ?w1 = (res, w')"
    using assms(1) r by (simp add: hand_over_def hand_over_rest_def follow_def on_owners_def)
  have ok: "owners_ok (ms_owners ?w1)" using owner_step_ok [OF assms(3) rows(1)] by simp
  from keepsD [OF keeps_hand_over_rest [OF assms(2,4,5)] rest] ok have "owners_le rows (ms_owners w')"
    by (simp add: mesh_step_def)
  with rows(2) have "lookup_by o_session source (ms_owners w') \<noteq> None" by (fastforce simp: owners_le_def)
  with hand_over_rest_next [OF _ assms(2) ok assms(4,5)] rest rows(2) show ?thesis by auto
qed

text \<open>
  C19: a replaced session is quarantined first, and replaced by the session it names.  Whatever
  a replacement ends in, an error at any step included, the session it replaces has a terminal
  record from its first write on; when it succeeds, the task is held by the one session that
  record names as the successor.
\<close>

theorem replacement_quarantines:
  assumes "replace_prepared M t prompt w = (res, w')" and "fair M" and "owners_ok (ms_owners w)"
    and "kernel_inv (ms_db w)" and "session_request t prompt = Inr req" and "t_holder t = Some source"
  shows "lookup_by o_session source (ms_owners w') \<noteq> None
    \<and> (case res of Inl e \<Rightarrow> True | Inr rec \<Rightarrow> next_session (ms_owners w') source = t_holder rec \<and> t_holder rec \<noteq> None)"
proof -
  let ?before = "follow (require_unchanged t) (\<lambda>_. give ()) :: unit mesh_op"
  let ?spawn = "follow (journaled_launch M t (session_launch t req)) (\<lambda>(ws, sid). give sid)"
  let ?hand = "hand_over M source ''managed task replacement'' (''task:'' @ t_id t @ '':epoch:'' @ show_int (t_epoch t)) ?before ?spawn"
  have k: "keeps mesh_step ?before" "keeps mesh_step ?spawn"
    unfolding require_unchanged_def using assms(2) by (intro mesh_keeps)+
  obtain q w1 where h: "?hand w = (q, w1)" by (rule prod.exhaust)
  note hand = hand_over_quarantines [OF h assms(2,3) k]
  from keepsD [OF keeps_hand_over [OF assms(2) k] h] assms(4) have ok: "db_ok (ms_db w1)"
    by (auto simp: mesh_step_def intro: kernel_inv_ok dest: kernel_step_inv)
  have "replace_prepared M t prompt w = follow ?hand (\<lambda>sid. activate_launched M t (printed (t_workspace t)) sid) w"
    by (simp only: replace_prepared_def assms(5,6) printed_def option.case follow_def [of "given _"] op_simps sum.case prod.case)
  with assms(1) h have run: "(case q of Inl e \<Rightarrow> (Inl e, w1) | Inr sid \<Rightarrow> activate_launched M t (printed (t_workspace t)) sid w1) = (res, w')"
    by (simp add: follow_def)
  show ?thesis
  proof (cases q)
    case (Inl e)
    with run hand show ?thesis by auto
  next
    case (Inr sid)
    with run have act: "activate_launched M t (printed (t_workspace t)) sid w1 = (res, w')" by simp
    from activate_launched_owners [of M t "printed (t_workspace t)" sid w1] act have same: "ms_owners w' = ms_owners w1" by simp
    have "t_holder rec = Some sid" if "res = Inr rec" for rec
      using activated [OF act [unfolded that] ok] .
    with same hand Inr show ?thesis by (auto split: sum.split)
  qed
qed
definition replacing_row :: task_row where
  "replacing_row = (sample_row ''a'' Replacing 1 2)\<lparr>t_workspace := Some ''w'', t_spec := worker_spec\<rparr>"

lemma replacing_db: "kernel_inv (seed [replacing_row])" "find_task ''a'' (seed [replacing_row]) = Some replacing_row"
proof -
  have t: "task_table_ok [replacing_row]" by (simp add: replacing_row_def sample_defs)
  have "row_inv replacing_row"
    using sample_row_inv [of 1 2 "''a''" Replacing] by (simp add: replacing_row_def row_inv_def within_budget_def)
  with t show "kernel_inv (seed [replacing_row])" by (intro kernel_inv_seed) simp_all
  show "find_task ''a'' (seed [replacing_row]) = Some replacing_row"
    by (simp add: find_task_def seed_tasks [OF t]) (simp add: replacing_row_def)
qed

theorem replacement_quarantines_witness:
  "lookup_by o_session ''a''
     (ms_owners (snd (replace_prepared sample_manager (decode_task replacing_row) ''go on'' (mesh_of (seed [replacing_row]))))) \<noteq> None"
proof -
  let ?t = "decode_task replacing_row"
  have h: "t_holder ?t = Some ''a''" "t_spec ?t = worker_spec"
    by (simp_all add: decode_task_def task_record.defs) (simp_all add: replacing_row_def)
  have req: "session_request ?t ''go on'' = Inr (session_launch_request (t_key ?t) ''go on'' (Some ''CODEX'') (Some ''PLAN'') None None None None)"
    by (simp add: session_request_def need_target_def jneed_def jtext_def h worker_spec_def)
  from replacement_quarantines [OF surjective_pairing sample_manager_fair _ _ req h(1), of "mesh_of (seed [replacing_row])"] replacing_db(1)
  show ?thesis by (simp add: mesh_of_def owners_ok_def links_def next_session_def acyclic_def)
qed

subsection \<open>Rejections\<close>

lemma finish_task_effects:
  assumes "finish_task M t st res charge w = (Inr rec, w')" and "db_ok (ms_db w)"
  shows "db_effects (ms_db w') = db_effects (ms_db w)"
proof -
  from assms(1) obtain d where f: "sdk_finish (si_wid (mg_site M)) (held_ctx M (t_id t)) (t_id t) st res charge
      (held_fence M (t_id t)) (mg_now M) (ms_db w) = Inr (rec, d)" and w': "w' = w\<lparr>ms_db := d\<rparr>"
    by (auto simp: finish_task_def on_db_def split: sum.splits)
  from f show ?thesis
  proof (cases rule: sdk_finish_cases)
    case (written created)
    from finish_with_wake_side [OF written assms(2)] show ?thesis by (simp add: w')
  qed (simp add: w')
qed

lemma on_db_Inr: "on_db f w = (Inr a, w') \<longleftrightarrow> (\<exists>d. f (ms_db w) = Inr (a, d) \<and> w' = w\<lparr>ms_db := d\<rparr>)"
  by (auto simp: on_db_def split: sum.splits)

lemma cool_binding_db: "cool_binding M t outcome retry w = (r, w') \<Longrightarrow> ms_db w' = ms_db w"
  by (auto simp: cool_binding_def Let_def follow_def split: if_splits sum.splits prod.splits)

text \<open>What a recorded outcome leaves in the journal.\<close>

lemma record_outcome_effect:
  assumes "record_provider_outcome M t outcome retry w = (Inr out, w')" and "db_ok (ms_db w)"
  shows "out = outcome \<and> (\<exists>e. get_effect (t_id t) (t_epoch t) (ms_db w') = Some e \<and> e_state e = ETerminal
    \<and> e_outcome e = Some outcome \<and> e_retry_at e = retry)"
proof -
  from assms(1) obtain u w1 a d where c: "(if outcome \<in> reroute_outcomes then cool_binding M t outcome retry else give ()) w = (Inr u, w1)"
    and m: "mark_terminal (t_id t) (t_epoch t) outcome retry (mg_now M) (ms_db w1) = Inr (a, d)"
    and w': "w' = w1\<lparr>ms_db := d\<rparr>" and out: "out = outcome"
    by (auto simp: record_provider_outcome_def follow_eq_Inr on_db_Inr)
  from c cool_binding_db have db: "ms_db w1 = ms_db w" by (fastforce split: if_splits)
  let ?f = "\<lambda>r. r\<lparr>e_state := ETerminal, e_outcome := Some outcome, e_retry_at := retry\<rparr>"
  have "\<And>r. effect_key (?f r) = effect_key r" by (simp add: effect_key_def)
  from advance_effect_cases [OF m [unfolded mark_terminal_def db] assms(2) this] obtain r where
    "find_effect (t_id t) (t_epoch t) d = Some ((?f r)\<lparr>e_updated_at := mg_now M\<rparr>)" by blast
  then show ?thesis using out by (simp add: w' get_effect_def decode_effect_def effect.defs)
qed

lemma recording_errors:
  "record_provider_outcome M t outcome retry w = (Inl x, w') \<Longrightarrow> x \<noteq> MClient c"
  "finish_task M t st r charge w = (Inl x, w') \<Longrightarrow> x \<noteq> MClient c"
  by (auto simp: record_provider_outcome_def finish_task_def follow_def on_db_def cool_binding_def Let_def
      split: sum.splits prod.splits if_splits)

lemma launch_rejected_recorded:
  assumes "follow (launch_rejected M t e) (\<lambda>_. raising (MClient e)) w = (Inl (MClient e), w')"
    and "\<not> undecided e" and "reload_unchanged t w \<noteq> None"
  obtains out w1 rec where "record_provider_outcome M t (rejection_outcome (error_status e)) (error_retry e) w = (Inr out, w1)"
    "finish_task M t Blocked (Some (''launch rejected: '' @ out)) True w1 = (Inr rec, w')"
proof -
  obtain q w1 where o: "record_provider_outcome M t (rejection_outcome (error_status e)) (error_retry e) w = (q, w1)"
    by (rule prod.exhaust)
  show thesis
  proof (cases q)
    case (Inl x)
    with assms o recording_errors(1) [of M t _ _ w x w1] show ?thesis by (auto simp: launch_rejected_def follow_def)
  next
    case (Inr out)
    obtain q2 w2 where f: "finish_task M t Blocked (Some (''launch rejected: '' @ out)) True w1 = (q2, w2)" by (rule prod.exhaust)
    show ?thesis
    proof (cases q2)
      case (Inl x)
      with assms o Inr f recording_errors(2) [of M t _ _ _ w1 x w2] show ?thesis by (auto simp: launch_rejected_def follow_def)
    next
      case (Inr rec)
      with assms o f \<open>q = Inr out\<close> that [of out w1 rec] show ?thesis by (simp add: launch_rejected_def follow_def)
    qed
  qed
qed


definition interrupted_manager :: manager where
  "interrupted_manager = sample_manager\<lparr>mg_launch := (\<lambda>_ _ _. Inl (CInterrupted ''424'' (Some 424) None))\<rparr>"


end
