(* ===== verification/Profiles.thy ===== *)
theory Profiles
  imports Executor
begin

text \<open>
  Named executor profiles (\<open>profiles.py\<close>): the registry file, its entries, and the check of a
  profile against the executor's providers.  A registry file is absent, unreadable, or holds a
  decoded document; the order of keys in a written document is not observable, since the
  registry is read by key and listed in sorted order.
\<close>

subsection \<open>Profiles\<close>

text \<open>The fields after the first four are stored as given; only their truth value is used.\<close>

record profile =
  pf_name :: string
  pf_executor :: val
  pf_provider :: val
  pf_credential :: val
  pf_model :: val
  pf_reasoning :: val
  pf_failover :: val

text \<open>\<open>ProfileError\<close>, and the \<open>AttributeError\<close> of \<open>strip\<close> on a value that is not a string.\<close>

datatype perror = ProfileProblem string | ProfileAttribute

definition profile_executors :: "string set" where
  "profile_executors = {''CLAUDE_CODE'', ''CODEX'', ''OPENCODE''}"

definition credential_kinds :: "string set" where
  "credential_kinds = {''ambient'', ''api'', ''enterprise''}"

definition text_in :: "string set \<Rightarrow> val \<Rightarrow> bool" where
  "text_in S v \<longleftrightarrow> (case v of VStr s \<Rightarrow> s \<in> S | _ \<Rightarrow> False)"

definition make_profile :: "profile \<Rightarrow> perror + profile" where
  "make_profile p =
     (if strip (pf_name p) = [] then Inl (ProfileProblem ''Profile name must not be empty'')
      else if \<not> text_in profile_executors (pf_executor p) then Inl (ProfileProblem ''Unsupported executor'')
      else case pf_provider p of
        VStr s \<Rightarrow>
          if strip s = [] then Inl (ProfileProblem ''Profile must reference a cdesktop provider id'')
          else if \<not> text_in credential_kinds (pf_credential p) then Inl (ProfileProblem ''Unsupported credential kind'')
          else Inr p
      | _ \<Rightarrow> Inl ProfileAttribute)"

definition profile_keys :: "string set" where
  "profile_keys = {''executor'', ''provider_id'', ''credential_kind'', ''model'', ''reasoning'', ''automatic_failover''}"

text \<open>\<open>_decode\<close>: an unknown or a missing argument of the constructor is a \<open>TypeError\<close>.\<close>

definition or_value :: "val \<Rightarrow> string \<Rightarrow> val \<Rightarrow> val" where
  "or_value otherwise k v = (case vfield k v of None \<Rightarrow> otherwise | Some x \<Rightarrow> x)"

definition decode_profile :: "string \<Rightarrow> val \<Rightarrow> perror + profile" where
  "decode_profile name v =
     (case v of
        VDict kvs \<Rightarrow>
          if \<not> fst ` set kvs \<subseteq> profile_keys \<or> vfield ''executor'' v = None \<or> vfield ''provider_id'' v = None
          then Inl (ProfileProblem ''Invalid profile entry'')
          else make_profile
            \<lparr>pf_name = name, pf_executor = vget ''executor'' v, pf_provider = vget ''provider_id'' v,
             pf_credential = or_value (VStr ''ambient'') ''credential_kind'' v, pf_model = vget ''model'' v,
             pf_reasoning = vget ''reasoning'' v, pf_failover = or_value (VBool False) ''automatic_failover'' v\<rparr>
      | _ \<Rightarrow> Inl (ProfileProblem ''Invalid profile entry''))"

text \<open>\<open>to_dict\<close> without the name.\<close>

definition encode_profile :: "profile \<Rightarrow> val" where
  "encode_profile p =
     VDict [(''executor'', pf_executor p), (''provider_id'', pf_provider p), (''credential_kind'', pf_credential p),
            (''model'', pf_model p), (''reasoning'', pf_reasoning p), (''automatic_failover'', pf_failover p)]"

subsection \<open>The registry\<close>

datatype registry = NoRegistry | Unreadable | Registry val

text \<open>\<open>payload.get("version") != 1\<close>, where Python's \<open>True\<close> and \<open>1.0\<close> equal 1.\<close>

definition is_version_one :: "val \<Rightarrow> bool" where
  "is_version_one v \<longleftrightarrow> v \<in> {VNum (PInt 1), VNum (PFloat 1), VBool True}"

definition read_registry :: "registry \<Rightarrow> perror + val" where
  "read_registry f =
     (case f of
        NoRegistry \<Rightarrow> Inr (VDict [(''version'', VNum (PInt 1)), (''profiles'', VDict [])])
      | Unreadable \<Rightarrow> Inl (ProfileProblem ''Cannot read profile registry'')
      | Registry v \<Rightarrow>
          if is_dict v \<and> is_version_one (vget ''version'' v) then Inr v
          else Inl (ProfileProblem ''Unsupported profile registry version''))"

definition profiles_field :: "val \<Rightarrow> perror + (string \<times> val) list" where
  "profiles_field payload =
     (case vfield ''profiles'' payload of
        None \<Rightarrow> Inr []
      | Some (VDict kvs) \<Rightarrow> Inr kvs
      | Some _ \<Rightarrow> Inl (ProfileProblem ''Invalid profile registry''))"

fun decode_all :: "(string \<times> val) list \<Rightarrow> perror + profile list" where
  "decode_all [] = Inr []"
| "decode_all ((k, v) # kvs) = ebind (decode_profile k v) (\<lambda>p. ebind (decode_all kvs) (\<lambda>ps. Inr (p # ps)))"

definition list_profiles :: "registry \<Rightarrow> perror + profile list" where
  "list_profiles f = ebind (read_registry f) (\<lambda>payload. ebind (profiles_field payload) (\<lambda>kvs. decode_all (sort_key fst kvs)))"

definition get_profile :: "registry \<Rightarrow> string \<Rightarrow> perror + profile" where
  "get_profile f name =
     ebind (list_profiles f) (\<lambda>ps.
       case find (\<lambda>p. pf_name p = name) ps of
         None \<Rightarrow> Inl (ProfileProblem ''Unknown SightMesh profile'')
       | Some p \<Rightarrow> Inr p)"

definition set_profile :: "registry \<Rightarrow> profile \<Rightarrow> perror + profile \<times> registry" where
  "set_profile f p =
     ebind (read_registry f) (\<lambda>payload. ebind (profiles_field payload) (\<lambda>kvs.
       Inr (p, Registry (vset ''profiles'' (vset (pf_name p) (encode_profile p) (VDict kvs)) payload))))"

definition remove_profile :: "registry \<Rightarrow> string \<Rightarrow> perror + profile \<times> registry" where
  "remove_profile f name =
     ebind (read_registry f) (\<lambda>payload.
       case profiles_field payload of
         Inl e \<Rightarrow> Inl (ProfileProblem ''Unknown SightMesh profile'')
       | Inr kvs \<Rightarrow>
           (case map_of kvs name of
              None \<Rightarrow> Inl (ProfileProblem ''Unknown SightMesh profile'')
            | Some v \<Rightarrow>
                ebind (decode_profile name v) (\<lambda>p.
                  Inr (p, Registry (vset ''profiles'' (VDict (filter (\<lambda>(k, _). k \<noteq> name) kvs)) payload)))))"

text \<open>\<open>validate_provider\<close>: \<open>None\<close> when the profile can be used.\<close>

definition provider_problem :: "profile \<Rightarrow> val list \<Rightarrow> string option" where
  "provider_problem p providers =
     (case find (\<lambda>i. vget ''id'' i = pf_provider p) providers of
        None \<Rightarrow> Some ''references missing cdesktop provider''
      | Some v \<Rightarrow>
          if \<not> vtruthy v then Some ''references missing cdesktop provider''
          else if \<not> vtruthy (vget ''enabled'' v) then Some ''references a disabled cdesktop provider''
          else if vget ''kind'' v \<noteq> VStr ''Default''
                  \<and> vget (case pf_executor p of VStr s \<Rightarrow> s | _ \<Rightarrow> []) (vor (vget ''perAgentEnabled'' v) (VDict [])) \<noteq> VBool True
          then Some ''is not enabled for the executor'' else None)"

definition provider_summary :: "val \<Rightarrow> val" where
  "provider_summary v =
     (let per_agent = vget ''perAgentEnabled'' v;
          models = (case vget ''enabledModels'' v of VList ms \<Rightarrow> filter is_dict ms | _ \<Rightarrow> []);
          key_of = (\<lambda>k. VBool (vtruthy (vget ''apiKey'' (vor (vget k v) (VDict [])))))
      in VDict [(''id'', vget ''id'' v), (''name'', vget ''name'' v), (''kind'', vget ''kind'' v),
                (''enabled'', VBool (vtruthy (vget ''enabled'' v))), (''preset_id'', vget ''presetId'' v),
                (''per_agent_enabled'', if is_dict per_agent then per_agent else VDict []),
                (''models'', VList (map (\<lambda>m. VDict [(''id'', vget ''id'' m), (''display_name'', vget ''displayName'' m)]) models)),
                (''credentials_present'',
                 VDict [(''provider'', VBool (vtruthy (vget ''apiKey'' v))), (''claude'', key_of ''claude''), (''codex'', key_of ''codex'')])])"

subsection \<open>Reading back what was written\<close>

lemma map_of_sort_key: "map_of (sort_key fst xs) k = map_of (xs :: (string \<times> 'a) list) k"
proof -
  have "map_of ys k = (case filter (\<lambda>p. fst p = k) ys of [] \<Rightarrow> None | p # ps \<Rightarrow> Some (snd p))" for ys :: "(string \<times> 'a) list"
    by (induction ys) auto
  then show ?thesis by (simp add: sort_key_stable)
qed

lemma make_profile_same: "make_profile p = Inr q \<Longrightarrow> q = p"
  by (auto simp: make_profile_def split: if_splits val.splits)

lemma decode_profile_name: "decode_profile name v = Inr p \<Longrightarrow> pf_name p = name"
  by (auto simp: decode_profile_def dest!: make_profile_same split: val.splits if_splits)

lemma decode_encode: "decode_profile (pf_name p) (encode_profile p) = make_profile p"
  by (cases p) (auto simp: decode_profile_def encode_profile_def profile_keys_def or_value_def)

lemma decode_all_iff: "(\<exists>ps. decode_all kvs = Inr ps) \<longleftrightarrow> (\<forall>(k, v) \<in> set kvs. \<exists>p. decode_profile k v = Inr p)"
proof (induction kvs)
  case (Cons kv kvs)
  obtain k v where "kv = (k, v)" by (cases kv)
  with Cons show ?case by (cases "decode_profile k v"; cases "decode_all kvs") auto
qed simp

lemma decode_all_find:
  "decode_all kvs = Inr ps \<Longrightarrow> find (\<lambda>p. pf_name p = n) ps
     = (case map_of kvs n of None \<Rightarrow> None | Some v \<Rightarrow> (case decode_profile n v of Inl e \<Rightarrow> None | Inr p \<Rightarrow> Some p))"
proof (induction kvs arbitrary: ps)
  case (Cons kv kvs)
  obtain k v where kv: "kv = (k, v)" by (cases kv)
  with Cons.prems obtain p qs where p: "decode_profile k v = Inr p" "decode_all kvs = Inr qs" "ps = p # qs" by auto
  from decode_profile_name [OF p(1)] Cons.IH [OF p(2)] p kv show ?case by (auto split: option.split)
qed simp

definition registry_entries :: "registry \<Rightarrow> (string \<times> val) list option" where
  "registry_entries f =
     (case read_registry f of Inl e \<Rightarrow> None | Inr v \<Rightarrow> (case profiles_field v of Inl e \<Rightarrow> None | Inr kvs \<Rightarrow> Some kvs))"

text \<open>A registry all of whose entries decode is read by key.\<close>

definition registry_ok :: "registry \<Rightarrow> bool" where
  "registry_ok f \<longleftrightarrow> (case registry_entries f of None \<Rightarrow> False
     | Some kvs \<Rightarrow> distinct (map fst kvs) \<and> list_all (\<lambda>(k, v). case decode_profile k v of Inl e \<Rightarrow> False | Inr p \<Rightarrow> True) kvs)"

lemma get_profile_entry:
  assumes "registry_entries f = Some kvs" and "registry_ok f"
  shows "get_profile f n = (case map_of kvs n of None \<Rightarrow> Inl (ProfileProblem ''Unknown SightMesh profile'') | Some v \<Rightarrow> decode_profile n v)"
proof -
  from assms have "\<forall>(k, v) \<in> set kvs. case decode_profile k v of Inl e \<Rightarrow> False | Inr p \<Rightarrow> True"
    by (simp add: registry_ok_def list_all_iff)
  then have "\<exists>p. decode_profile k v = Inr p" if "(k, v) \<in> set kvs" for k v
    using that by (cases "decode_profile k v") auto
  then have each: "\<forall>(k, v) \<in> set kvs. \<exists>p. decode_profile k v = Inr p" by blast
  then obtain ps where ps: "decode_all (sort_key fst kvs) = Inr ps" using decode_all_iff [of "sort_key fst kvs"] by auto
  from assms(1) have "list_profiles f = decode_all (sort_key fst kvs)"
    by (auto simp: registry_entries_def list_profiles_def split: sum.splits)
  with ps have g: "get_profile f n = (case find (\<lambda>p. pf_name p = n) ps of
      None \<Rightarrow> Inl (ProfileProblem ''Unknown SightMesh profile'') | Some p \<Rightarrow> Inr p)"
    by (simp add: get_profile_def)
  show ?thesis
  proof (cases "map_of kvs n")
    case None
    with g decode_all_find [OF ps, of n] show ?thesis by (simp add: map_of_sort_key)
  next
    case (Some v)
    from each map_of_SomeD [OF this] obtain p where "decode_profile n v = Inr p" by auto
    with Some g decode_all_find [OF ps, of n] show ?thesis by (simp add: map_of_sort_key)
  qed
qed

lemma vset_entries:
  "vset k v (VDict kvs) = VDict kvs' \<Longrightarrow> map_of kvs' n = (if n = k then Some v else map_of kvs n)
     \<and> (distinct (map fst kvs) \<longrightarrow> distinct (map fst kvs')) \<and> set kvs' \<subseteq> insert (k, v) (set kvs)"
proof -
  assume "vset k v (VDict kvs) = VDict kvs'"
  then have kvs': "kvs' = (if k \<in> fst ` set kvs then map (\<lambda>(c, x). (c, if c = k then v else x)) kvs else kvs @ [(k, v)])" by simp
  have look: "map_of (map (\<lambda>(c, x). (c, if c = k then v else x)) kvs) n = (if n = k then (if k \<in> fst ` set kvs then Some v else None) else map_of kvs n)"
  proof (induction kvs)
    case (Cons kv kvs)
    then show ?case by (cases kv; cases "n = k") simp_all
  qed simp
  have keys: "map fst (map (\<lambda>(c, x). (c, if c = k then v else x)) kvs) = map fst kvs"
    by (simp add: comp_def case_prod_beta)
  have rows: "set (map (\<lambda>(c, x). (c, if c = k then v else x)) kvs) \<subseteq> insert (k, v) (set kvs)" by (auto split: if_splits)
  show ?thesis
  proof (cases "k \<in> fst ` set kvs")
    case True
    with kvs' have "kvs' = map (\<lambda>(c, x). (c, if c = k then v else x)) kvs" by simp
    with look keys rows True show ?thesis by (simp only: simp_thms if_True if_False)
  next
    case False
    then have "map_of kvs k = None" by (simp add: map_of_eq_None_iff)
    with False kvs' show ?thesis by (auto simp: map_add_def split: option.split)
  qed
qed

lemma set_registry_entries:
  assumes "set_profile f p = Inr (q, f')" and "registry_entries f = Some kvs"
  shows "\<exists>kvs'. vset (pf_name p) (encode_profile p) (VDict kvs) = VDict kvs' \<and> registry_entries f' = Some kvs'"
proof -
  from assms obtain payload where r: "read_registry f = Inr payload" "profiles_field payload = Inr kvs"
    and f': "f' = Registry (vset ''profiles'' (vset (pf_name p) (encode_profile p) (VDict kvs)) payload)"
    by (auto simp: set_profile_def registry_entries_def split: sum.splits)
  from r(1) have "is_dict payload" "is_version_one (vget ''version'' payload)"
    by (auto simp: read_registry_def is_version_one_def split: registry.splits if_splits)
  then obtain fields where payload: "payload = VDict fields" "is_version_one (vget ''version'' payload)"
    by (cases payload) simp_all
  obtain kvs' where kvs': "vset (pf_name p) (encode_profile p) (VDict kvs) = VDict kvs'" by simp
  obtain fields' where fields': "vset ''profiles'' (VDict kvs') (VDict fields) = VDict fields'" by simp
  from vset_entries [OF this] have "map_of fields' ''profiles'' = Some (VDict kvs')" "map_of fields' ''version'' = map_of fields ''version''"
    by simp_all
  with payload kvs' fields' f' show ?thesis
    by (simp add: registry_entries_def read_registry_def profiles_field_def)
qed

text \<open>
  C37: A profile that was stored is read back, and only that one has changed.  In a
  registry all of whose entries are valid, setting a valid profile succeeds, the registry stays
  valid, getting that name gives exactly the profile that was set, and every other name gives
  what it gave before.
\<close>

theorem profile_set_get:
  assumes "registry_ok f" and "make_profile p = Inr p"
  shows "\<exists>f'. set_profile f p = Inr (p, f') \<and> registry_ok f' \<and> get_profile f' (pf_name p) = Inr p
    \<and> (\<forall>n. n \<noteq> pf_name p \<longrightarrow> get_profile f' n = get_profile f n)"
proof -
  from assms(1) obtain kvs where kvs: "registry_entries f = Some kvs" "distinct (map fst kvs)"
    "\<forall>(k, v) \<in> set kvs. case decode_profile k v of Inl e \<Rightarrow> False | Inr p \<Rightarrow> True"
    by (auto simp: registry_ok_def list_all_iff split: option.splits)
  from kvs(1) obtain f' where run: "set_profile f p = Inr (p, f')"
    by (auto simp: set_profile_def registry_entries_def split: sum.splits)
  from set_registry_entries [OF run kvs(1)] obtain kvs' where
    v: "vset (pf_name p) (encode_profile p) (VDict kvs) = VDict kvs'" and f': "registry_entries f' = Some kvs'" by blast
  note e = vset_entries [OF v]
  from e kvs(2,3) assms(2) decode_encode [of p] have ok: "registry_ok f'"
    by (fastforce simp: registry_ok_def f' list_all_iff)
  show ?thesis
    using run ok e get_profile_entry [OF f' ok] get_profile_entry [OF kvs(1) assms(1)] assms(2) decode_encode [of p] by simp
qed

definition sample_profile :: profile where
  "sample_profile = \<lparr>pf_name = ''fast'', pf_executor = VStr ''CODEX'', pf_provider = VStr ''p'', pf_credential = VStr ''ambient'',
     pf_model = VNone, pf_reasoning = VNone, pf_failover = VBool False\<rparr>"

theorem profile_set_get_witness:
  "\<exists>f'. set_profile NoRegistry sample_profile = Inr (sample_profile, f') \<and> get_profile f' ''fast'' = Inr sample_profile"
proof -
  have "registry_ok NoRegistry"
    by (simp add: registry_ok_def registry_entries_def read_registry_def profiles_field_def)
  moreover have "make_profile sample_profile = Inr sample_profile"
    by (simp add: make_profile_def sample_profile_def text_in_def profile_executors_def credential_kinds_def strip_def of_char_def)
  ultimately show ?thesis using profile_set_get [of NoRegistry sample_profile] by (auto simp: sample_profile_def)
qed

end
