(* ===== verification/Recovery.thy ===== *)
theory Recovery
  imports Launch Profiles
begin

text \<open>
  What the manager does about a session that stopped (\<open>sdk.py\<close>): the observation of its process,
  the advance of a task past a typed provider outcome along its route chain, the settlement of
  a replacement that was opened and never filled, the sweep over both, and the manual
  \<open>replace\<close>.
\<close>

subsection \<open>Workers\<close>

record worker =
  wk_key :: string
  wk_state :: task_state
  wk_repo :: string
  wk_base :: string
  wk_workspace :: "string option"
  wk_session :: "string option"
  wk_attempts :: int
  wk_max_attempts :: int
  wk_child_limit :: int
  wk_checkpoint :: "string option"
  wk_result :: "string option"

definition worker_of :: "task_record \<Rightarrow> merror + worker" where
  "worker_of t =
     ebind (jneed ''repo'' (t_spec t)) (\<lambda>repo. ebind (jneed ''base'' (t_spec t)) (\<lambda>base.
       Inr \<lparr>wk_key = t_key t, wk_state = t_state t, wk_repo = repo, wk_base = base, wk_workspace = t_workspace t,
            wk_session = t_holder t, wk_attempts = t_attempts t, wk_max_attempts = t_max_attempts t,
            wk_child_limit = t_child_limit t, wk_checkpoint = t_checkpoint t, wk_result = t_result t\<rparr>))"

definition reported :: "task_record \<Rightarrow> worker option mesh_op" where
  "reported t = given (case worker_of t of Inl e \<Rightarrow> Inl e | Inr k \<Rightarrow> Inr (Some k))"

subsection \<open>The launch contract\<close>

text \<open>
  \<open>_probe_managed_launch\<close>: \<open>None\<close> is a client without the lookup.  Only a definitive absence of
  the sentinel effect proves the seam works.
\<close>

definition probe_managed_launch :: "(cerror + val) option \<Rightarrow> merror + unit" where
  "probe_managed_launch lookup =
     (case lookup of
        None \<Rightarrow> Inl MContract
      | Some (Inl e) \<Rightarrow>
          if \<not> is_cdesktop_error e then Inl (MClient e)
          else if is_effect_not_found \<lparr>ce_status = error_status e, ce_text = error_text e\<rparr> then Inr ()
          else Inl MContract
      | Some (Inr v) \<Rightarrow>
          if \<not> is_dict v then Inl MContract
          else if vget ''state'' v \<in> {VNone, VStr [], VStr ''missing'', VStr ''not_found''} then Inr ()
          else Inl MContract)"

definition advertised_level :: "val \<Rightarrow> merror + int" where
  "advertised_level v =
     (case v of
        VNum n \<Rightarrow> (case finite_num n of None \<Rightarrow> Inl MKey | Some r \<Rightarrow> Inr (if r \<ge> 0 then \<lfloor>r\<rfloor> else \<lceil>r\<rceil>))
      | VBool b \<Rightarrow> Inr (if b then 1 else 0)
      | _ \<Rightarrow> Inl MKey)"

definition require_contract :: "manager \<Rightarrow> unit mesh_op" where
  "require_contract M =
     follow (given_client (mg_info M)) (\<lambda>info.
       follow (given (case vfield ''service_capabilities'' info of
                        None \<Rightarrow> Inr 0
                      | Some caps \<Rightarrow>
                          if \<not> is_dict caps then Inl MKey
                          else (case vfield ''managed_task_launch'' caps of None \<Rightarrow> Inr 0 | Some v \<Rightarrow> advertised_level v)))
         (\<lambda>level. if level < 1 then raising MContract else given (probe_managed_launch (mg_lookup M))))"

subsection \<open>Settling\<close>

text \<open>\<open>_block_unroutable\<close>: silent once the task is blocked.\<close>

definition block_unroutable :: "manager \<Rightarrow> task_record \<Rightarrow> string \<Rightarrow> worker option mesh_op" where
  "block_unroutable M t reason =
     (if t_state t = Blocked then give None
      else follow (finish_task M t Blocked (Some reason) True) reported)"

text \<open>\<open>_queue_still_owns\<close> and \<open>_observe_session_failure\<close>\<close>

definition queue_still_owns :: "manager \<Rightarrow> string \<Rightarrow> bool mesh_op" where
  "queue_still_owns M session =
     follow (given_client (mg_commands M session)) (\<lambda>rows. give (list_ex (command_open (si_pystr (mg_site M))) rows))"

definition stopped_process :: "manager \<Rightarrow> val list \<Rightarrow> val option" where
  "stopped_process M rows =
     (case latest_execution_process (mg_client M) (filter (\<lambda>p. vget ''run_reason'' p = VStr ''codingagent'') rows) of
        None \<Rightarrow> None
      | Some p \<Rightarrow>
          if text_or_empty (cl_pystr (mg_client M)) (vget ''status'' p) \<in> process_failure_statuses then Some p else None)"

definition observe_locked :: "manager \<Rightarrow> task_record \<Rightarrow> string \<Rightarrow> worker option mesh_op" where
  "observe_locked M t session =
     (if t_state t \<noteq> Active then give None
      else follow (observe (\<lambda>w. get_effect (t_id t) (t_epoch t) (ms_db w))) (\<lambda>e.
        if e = None \<or> e_state (the e) \<noteq> ELaunched then give None
        else follow (opened M GProcesses) (\<lambda>_. follow (given_client (mg_processes M session)) (\<lambda>rows.
          case stopped_process M rows of
            None \<Rightarrow> give None
          | Some p \<Rightarrow>
              (case process_provider_outcome (mg_client M) p of
                 (Some outcome, retry) \<Rightarrow> follow (record_provider_outcome M t outcome retry) (\<lambda>_. give None)
               | (None, _) \<Rightarrow>
                   follow (opened M GQueue) (\<lambda>_. follow (queue_still_owns M session) (\<lambda>owned.
                     if owned then give None
                     else block_unroutable M t (process_failure_reason (mg_client M) p))))))))"

definition observe_session_failure :: "manager \<Rightarrow> string \<Rightarrow> string \<Rightarrow> worker option mesh_op" where
  "observe_session_failure M tid session =
     follow (observe (\<lambda>w. get_by_id tid (ms_db w))) (\<lambda>c.
       case c of None \<Rightarrow> give None | Some t \<Rightarrow> observe_locked M t session)"

subsection \<open>Advancing past an outcome\<close>

definition default_provider_id :: "manager \<Rightarrow> string mesh_op" where
  "default_provider_id M =
     follow (given_client (mg_providers M)) (\<lambda>rows.
       follow (check (list_all is_dict rows) MKey) (\<lambda>_.
         case filter (\<lambda>p. vget ''kind'' p = VStr ''Default'' \<and> vtruthy (vget ''enabled'' p) \<and> vtruthy (vget ''id'' p)) rows of
           [p] \<Rightarrow> give (text_of (si_pystr (mg_site M)) (vget ''id'' p))
         | _ \<Rightarrow> raising MProvider))"

text \<open>The typed outcome of the task's own epoch, if its effect is over.\<close>

definition epoch_outcome :: "task_record \<Rightarrow> mesh \<Rightarrow> string option" where
  "epoch_outcome t w =
     (case get_effect (t_id t) (t_epoch t) (ms_db w) of
        None \<Rightarrow> None
      | Some e \<Rightarrow> if e_state e = ETerminal then routing_outcome (map_option JStr (e_outcome e)) else None)"

definition joption :: "string option \<Rightarrow> json" where
  "joption v = (case v of None \<Rightarrow> JNull | Some s \<Rightarrow> JStr s)"

definition next_target :: "task_record \<Rightarrow> selected_target \<Rightarrow> string \<Rightarrow> string \<Rightarrow> json" where
  "next_target t s provider outcome =
     JObj [(''executor'', JStr (st_executor s)), (''model'', JStr (st_model s)),
           (''reasoning'', joption (jtext ''reasoning'' (t_spec t))), (''provider_id'', JStr provider),
           (''auth_binding_id'', JStr (st_binding s)), (''route_class'', JStr (st_class s)),
           (''route_id'', JStr (st_route s)), (''billing_class'', JStr (st_billing s)),
           (''failover'', JStr ''auto''), (''recovery'', JStr outcome)]"

definition launch_and_report :: "manager \<Rightarrow> task_record \<Rightarrow> string \<Rightarrow> worker option mesh_op" where
  "launch_and_report M t prompt = follow (launch_prepared M t prompt) reported"

definition resume_replacement :: "manager \<Rightarrow> task_record \<Rightarrow> effect option \<Rightarrow> worker option mesh_op" where
  "resume_replacement M t e =
     (case e of
        Some x \<Rightarrow>
          if e_state x = ETerminal
          then block_unroutable M t (''replacement epoch ended: '' @ printed (e_outcome x))
          else follow (given (jneed ''prompt'' (t_spec t))) (launch_and_report M t)
      | None \<Rightarrow> follow (given (jneed ''prompt'' (t_spec t))) (launch_and_report M t))"

definition route_class_of :: "json \<Rightarrow> string" where
  "route_class_of target = (case jtext ''route_class'' target of Some (c # cs) \<Rightarrow> c # cs | _ \<Rightarrow> ''standard'')"

definition exhaust_task :: "manager \<Rightarrow> task_record \<Rightarrow> string \<Rightarrow> worker option mesh_op" where
  "exhaust_task M t outcome =
     follow (finish_task M t Exhausted (Some (outcome @ '' on route '' @ printed (jtext ''route_id'' (target_field t)))) False) (\<lambda>done.
       follow (if truthy (t_holder t)
               then follow (on_owners (retire (the (t_holder t)) Retired ''managed task exhausted''
                              (Some (task_epoch_key ''task:'' t)) (si_stamp (mg_site M)) (\<lambda>r. r))) (\<lambda>_. give ())
               else give ()) (\<lambda>_. reported done))"

definition reroute :: "manager \<Rightarrow> task_record \<Rightarrow> selected_target \<Rightarrow> string \<Rightarrow> worker option mesh_op" where
  "reroute M t s outcome =
     follow (opened M GProviders) (\<lambda>_. follow (default_provider_id M) (\<lambda>provider.
       follow (on_db (prepare_replacement (held_ctx M (t_id t)) (t_id t) (Some (next_target t s provider outcome))
                        (t_state t = Active) (Some (t_version t)) (Some (held_fence M (t_id t))) (mg_now M))) (\<lambda>prepared.
         follow (given (jneed ''prompt'' (t_spec t))) (launch_and_report M prepared))))"

definition select_next :: "manager \<Rightarrow> task_record \<Rightarrow> string \<Rightarrow> selection mesh_op" where
  "select_next M t outcome w =
     ((case mg_settings M of
         Inl e \<Rightarrow> Inl (MRoute e)
       | Inr s \<Rightarrow>
           (case advance_route_after_outcome s (mg_view M (ms_pool w)) outcome (Some (route_class_of (target_field t)))
                   (jtext ''auth_binding_id'' (target_field t)) of
              Inl e \<Rightarrow> Inl (MRoute e) | Inr sel \<Rightarrow> Inr sel)), w)"

definition advance_with :: "manager \<Rightarrow> task_record \<Rightarrow> string \<Rightarrow> worker option mesh_op" where
  "advance_with M t outcome =
     (let target = target_field t; rid = jtext ''route_id'' target in
      if t_attempts t \<ge> t_max_attempts t then give None
      else if t_state t = Active \<and> t_attempts t + 1 \<ge> t_max_attempts t then exhaust_task M t outcome
      else if jtext ''failover'' target = Some ''pinned''
      then block_unroutable M t (outcome @ '' on '' @ printed rid @ ''; automatic failover is off'')
      else follow (select_next M t outcome) (\<lambda>sel.
             if s_status sel \<noteq> Resolved \<or> s_target sel = None
             then block_unroutable M t (outcome @ '' on route '' @ printed rid @ '' ('' @ route_class_of target @ ''); ''
                                        @ printed (s_reason sel))
             else reroute M t (the (s_target sel)) outcome))"

definition advance_locked :: "manager \<Rightarrow> task_record \<Rightarrow> worker option mesh_op" where
  "advance_locked M t =
     (if t_state t = Replacing
      then (if routing_outcome (jget ''recovery'' (target_field t)) = None then give None
            else follow (observe (\<lambda>w. get_effect (t_id t) (t_epoch t) (ms_db w))) (resume_replacement M t))
      else if t_state t \<noteq> Active \<and> t_state t \<noteq> Blocked then give None
      else follow (observe (epoch_outcome t)) (\<lambda>outcome.
             case outcome of None \<Rightarrow> give None | Some out \<Rightarrow> advance_with M t out))"

definition advance_past_outcome :: "manager \<Rightarrow> task_record \<Rightarrow> worker option mesh_op" where
  "advance_past_outcome M t =
     follow (require_contract M) (\<lambda>_.
       follow (observe (\<lambda>w. get_by_id (t_id t) (ms_db w))) (\<lambda>c.
         case c of None \<Rightarrow> give None | Some cur \<Rightarrow> advance_locked M cur))"

subsection \<open>Sweeps\<close>

definition reconcile_provider_outcome :: "manager \<Rightarrow> string \<Rightarrow> worker option mesh_op" where
  "reconcile_provider_outcome M session =
     follow (observe (\<lambda>w. get_by_session session (ms_db w))) (\<lambda>t.
       case t of
         None \<Rightarrow> give None
       | Some t \<Rightarrow>
           follow (observe_session_failure M (t_id t) session) (\<lambda>blocked.
             case blocked of
               Some k \<Rightarrow> give (Some k)
             | None \<Rightarrow>
                 follow (observe (\<lambda>w. case get_by_id (t_id t) (ms_db w) of None \<Rightarrow> t | Some c \<Rightarrow> c)) (advance_past_outcome M)))"

definition sweepable_outcomes :: "string list" where
  "sweepable_outcomes = [''rate_limited'', ''auth'', ''provider_down'', ''quota'']"

text \<open>The tasks to settle, each once: those with an outcome, then those left replacing.\<close>

fun once_each :: "task_record list \<Rightarrow> task_record list" where
  "once_each [] = []"
| "once_each (t # ts) = t # filter (\<lambda>u. t_id u \<noteq> t_id t) (once_each ts)"

definition pending_tasks :: "db \<Rightarrow> task_record list" where
  "pending_tasks d =
     once_each (concat (map (\<lambda>e. option_list (get_by_id (e_task_id e) d)) (with_outcomes sweepable_outcomes d))
                @ list_state Replacing d)"

text \<open>The errors the sweep isolates; a malformed specification and the client's own exceptions escape.\<close>

fun store_error :: "kerror \<Rightarrow> bool" where
  "store_error Integrity = False"
| "store_error SpecMalformed = False"
| "store_error MalformedProcess = False"
| "store_error (UnsupportedFinish s) = False"
| "store_error (UnsupportedLiveness s) = False"
| "store_error DurabilityUnavailable = False"
| "store_error e = True"

fun isolated :: "merror \<Rightarrow> bool" where
  "isolated (MStore e) = store_error e"
| "isolated (MClient e) = is_cdesktop_error e"
| "isolated (MOwner e) = True"
| "isolated (MRoute e) = (case e of RError m \<Rightarrow> True | _ \<Rightarrow> False)"
| "isolated MKey = False"
| "isolated MProfile = False"
| "isolated (MPolicy e) = False"
| "isolated e = True"

fun advance_each :: "manager \<Rightarrow> task_record list \<Rightarrow> worker list mesh_op" where
  "advance_each M [] w = (Inr [], w)"
| "advance_each M (t # ts) w =
     (case advance_past_outcome M t w of
        (Inl e, w') \<Rightarrow> if isolated e then advance_each M ts w' else (Inl e, w')
      | (Inr k, w') \<Rightarrow> follow (advance_each M ts) (\<lambda>ks. give (option_list k @ ks)) w')"

definition reconcile_provider_outcomes :: "manager \<Rightarrow> worker list mesh_op" where
  "reconcile_provider_outcomes M = follow (observe (\<lambda>w. pending_tasks (ms_db w))) (advance_each M)"

subsection \<open>What recovery keeps\<close>

lemma keeps_worker [mesh_keeps]: "keeps mesh_step (reported t)"
  unfolding reported_def by (rule mesh_keeps)

lemma keeps_require_contract [mesh_keeps]: "keeps mesh_step (require_contract M)"
  unfolding require_contract_def by (intro mesh_keeps)

lemma keeps_block [mesh_keeps]: "keeps mesh_step (block_unroutable M t reason)"
  unfolding block_unroutable_def by (intro mesh_keeps)

lemma keeps_queue_owns [mesh_keeps]: "keeps mesh_step (queue_still_owns M session)"
  unfolding queue_still_owns_def by (intro mesh_keeps)

lemma keeps_observe_locked [mesh_keeps]: "fair M \<Longrightarrow> keeps mesh_step (observe_locked M t session)"
  unfolding observe_locked_def by (intro mesh_keeps)

lemma keeps_observe_failure [mesh_keeps]: "fair M \<Longrightarrow> keeps mesh_step (observe_session_failure M tid session)"
  unfolding observe_session_failure_def by (intro mesh_keeps)

lemma keeps_default_provider [mesh_keeps]: "keeps mesh_step (default_provider_id M)"
  unfolding default_provider_id_def by (intro mesh_keeps) (simp_all split: list.split add: mesh_keeps)

lemma keeps_launch_and_report [mesh_keeps]: "fair M \<Longrightarrow> keeps mesh_step (launch_and_report M t prompt)"
  unfolding launch_and_report_def by (intro mesh_keeps)

lemma keeps_resume [mesh_keeps]: "fair M \<Longrightarrow> keeps mesh_step (resume_replacement M t e)"
  unfolding resume_replacement_def by (intro mesh_keeps)

lemma keeps_exhaust [mesh_keeps]: "keeps mesh_step (exhaust_task M t outcome)"
  unfolding exhaust_task_def by (intro mesh_keeps)

lemma keeps_reroute [mesh_keeps]: "fair M \<Longrightarrow> keeps mesh_step (reroute M t s outcome)"
  unfolding reroute_def by (intro mesh_keeps)

lemma keeps_select_next [mesh_keeps]: "keeps mesh_step (select_next M t outcome)"
  by (rule keepsI) (simp add: select_next_def)

lemma keeps_advance_with [mesh_keeps]: "fair M \<Longrightarrow> keeps mesh_step (advance_with M t outcome)"
  unfolding advance_with_def Let_def by (intro mesh_keeps)

lemma keeps_advance_locked [mesh_keeps]: "fair M \<Longrightarrow> keeps mesh_step (advance_locked M t)"
  unfolding advance_locked_def by (intro mesh_keeps)

lemma keeps_advance [mesh_keeps]: "fair M \<Longrightarrow> keeps mesh_step (advance_past_outcome M t)"
  unfolding advance_past_outcome_def by (intro mesh_keeps)

lemma keeps_reconcile_outcome [mesh_keeps]: "fair M \<Longrightarrow> keeps mesh_step (reconcile_provider_outcome M session)"
  unfolding reconcile_provider_outcome_def by (intro mesh_keeps)

lemma keeps_advance_each [mesh_keeps]: "fair M \<Longrightarrow> keeps mesh_step (advance_each M ts)"
proof (induction ts)
  case Nil
  show ?case by (rule keepsI) simp
next
  case (Cons t ts)
  show ?case
  proof (rule keepsI)
    fix w r w'
    assume run: "advance_each M (t # ts) w = (r, w')"
    obtain q v where q: "advance_past_outcome M t w = (q, v)" by (rule prod.exhaust)
    have rest: "keeps mesh_step (follow (advance_each M ts) (\<lambda>ks. give (option_list k @ ks)))" for k
      using Cons by (intro mesh_keeps) auto
    note step = keepsD [OF keeps_advance [OF Cons.prems] q]
    show "mesh_step w w'"
    proof (cases q)
      case (Inl e)
      with run q step Cons show ?thesis by (auto split: if_splits dest: keepsD intro: mesh_step_trans)
    next
      case (Inr k)
      with run q have "follow (advance_each M ts) (\<lambda>ks. give (option_list k @ ks)) v = (r, w')" by simp
      from mesh_step_trans [OF step keepsD [OF rest this]] show ?thesis .
    qed
  qed
qed

lemma keeps_sweep [mesh_keeps]: "fair M \<Longrightarrow> keeps mesh_step (reconcile_provider_outcomes M)"
  unfolding reconcile_provider_outcomes_def by (intro mesh_keeps)

subsection \<open>Native launches of recovery\<close>

text \<open>An operation that asks for at most one native launch, of an epoch in \<open>S\<close>.\<close>

definition rings :: "(string \<times> int) set \<Rightarrow> 'a mesh_op \<Rightarrow> bool" where
  "rings S m \<longleftrightarrow> (\<forall>w. ms_calls (snd (m w)) = ms_calls w \<or> (\<exists>c \<in> S. ms_calls (snd (m w)) = ms_calls w @ [c]))"

lemma quiet_rings: "keeps quiet m \<Longrightarrow> rings S m"
  by (simp add: rings_def keeps_def quiet_def)

lemma ringsD: "rings S m \<Longrightarrow> m w = (r, w') \<Longrightarrow> ms_calls w' = ms_calls w \<or> (\<exists>c \<in> S. ms_calls w' = ms_calls w @ [c])"
  by (auto simp: rings_def dest: spec [of _ w])

lemma rings_before:
  assumes "keeps quiet m" and "\<And>w a w'. m w = (Inr a, w') \<Longrightarrow> rings S (f a)"
  shows "rings S (follow m f)"
  unfolding rings_def
proof
  fix w
  obtain q v where q: "m w = (q, v)" by (rule prod.exhaust)
  have same: "ms_calls v = ms_calls w" using keepsD [OF assms(1) q] by (simp add: quiet_def)
  show "ms_calls (snd (follow m f w)) = ms_calls w \<or> (\<exists>c \<in> S. ms_calls (snd (follow m f w)) = ms_calls w @ [c])"
  proof (cases q)
    case (Inr a)
    with assms(2) [of w a v] q have "rings S (f a)" by simp
    then have "ms_calls (snd (f a v)) = ms_calls v \<or> (\<exists>c \<in> S. ms_calls (snd (f a v)) = ms_calls v @ [c])"
      unfolding rings_def by (rule spec)
    with Inr q same show ?thesis by (simp add: follow_def)
  qed (simp add: follow_def q same)
qed

lemma rings_after:
  assumes "rings S m" and "\<And>a. keeps quiet (f a)"
  shows "rings S (follow m f)"
  unfolding rings_def
proof
  fix w
  obtain q v where q: "m w = (q, v)" by (rule prod.exhaust)
  have "ms_calls (snd (f a v)) = ms_calls v" for a using assms(2) by (simp add: keeps_def quiet_def)
  with ringsD [OF assms(1) q] q show "ms_calls (snd (follow m f w)) = ms_calls w
      \<or> (\<exists>c \<in> S. ms_calls (snd (follow m f w)) = ms_calls w @ [c])"
    by (cases q) (auto simp: follow_def)
qed

lemma rings_if: "rings S m \<Longrightarrow> rings S n \<Longrightarrow> rings S (if b then m else n)"
  by simp

lemma rings_option: "rings S m \<Longrightarrow> (\<And>a. x = Some a \<Longrightarrow> rings S (f a)) \<Longrightarrow> rings S (case x of None \<Rightarrow> m | Some a \<Rightarrow> f a)"
  by (cases x) simp_all

lemma rings_mono: "rings S m \<Longrightarrow> S \<subseteq> S' \<Longrightarrow> rings S' m"
  by (auto simp: rings_def)

lemma rings_journaled: "rings {(t_id t, t_epoch t)} (journaled_launch M t launch)"
  using journaled_launch_calls [of M t launch] by (auto simp: rings_def)

lemma quiet_finish_parts [quiet_keeps]:
  "keeps quiet (reported t)" "keeps quiet (block_unroutable M t reason)" "keeps quiet (exhaust_task M t outcome)"
  "keeps quiet (require_contract M)" "keeps quiet (default_provider_id M)" "keeps quiet (select_next M t outcome)"
  "keeps quiet (require_unchanged t)" "keeps quiet (link_spawned M source sid)"
  "keeps quiet (forward_commands M source sid key spawned cmds)" "keeps quiet (activate_launched M t ws sid)"
proof -
  show r: "keeps quiet (reported t)" for t unfolding reported_def by (rule quiet_keeps)
  show "keeps quiet (block_unroutable M t reason)" unfolding block_unroutable_def by (intro quiet_keeps r)
  show "keeps quiet (exhaust_task M t outcome)" unfolding exhaust_task_def by (intro quiet_keeps r)
  show "keeps quiet (require_contract M)" unfolding require_contract_def by (intro quiet_keeps)
  show "keeps quiet (default_provider_id M)"
    unfolding default_provider_id_def by (intro quiet_keeps) (simp_all split: list.split add: quiet_keeps)
  show "keeps quiet (select_next M t outcome)" by (rule keepsI) (simp add: select_next_def quiet_def)
  show "keeps quiet (require_unchanged t)" unfolding require_unchanged_def by (intro quiet_keeps)
  show "keeps quiet (link_spawned M source sid)" unfolding link_spawned_def by (intro quiet_keeps)
  show "keeps quiet (forward_commands M source sid key spawned cmds)"
    by (rule keepsI) (auto simp: forward_commands_def quiet_def opened_def split: prod.splits if_splits)
  show "keeps quiet (activate_launched M t ws sid)" unfolding activate_launched_def by (intro quiet_keeps)
qed

lemma rings_hand_over:
  assumes "keeps quiet before" "rings S spawn"
  shows "rings S (hand_over M source reason key before spawn)"
proof -
  have spawned: "rings S (follow spawn (\<lambda>sid. follow (link_spawned M source sid) (\<lambda>_. forward_commands M source sid k True cmds)))" for k cmds
    by (intro rings_after assms quiet_keeps)
  have "rings S (case si_commands (mg_site M) source of
           None \<Rightarrow> raising (MOwner RequestFailed)
         | Some cmds \<Rightarrow>
             if truthy (o_successor own)
             then forward_commands M source (the (o_successor own)) k False cmds
             else follow before (\<lambda>_. follow spawn (\<lambda>sid. follow (link_spawned M source sid) (\<lambda>_.
                    forward_commands M source sid k True cmds))))" for own k
    by (intro rings_option rings_if rings_before [OF assms(1)] spawned quiet_rings quiet_keeps)
  then show ?thesis
    unfolding hand_over_def Let_def by (intro rings_before quiet_keeps)
qed

lemma rings_launch_prepared: "rings {(t_id t, t_epoch t)} (launch_prepared M t prompt)"
proof -
  note j = rings_journaled [of t M]
  have spawn: "rings {(t_id t, t_epoch t)} (follow (journaled_launch M t l) (\<lambda>(ws, sid). give sid))" for l
    by (intro rings_after j) (auto intro: quiet_keeps)
  have "rings {(t_id t, t_epoch t)} (replace_prepared M t prompt)"
    unfolding replace_prepared_def
    by (rule rings_before; (intro quiet_keeps)?) (intro rings_after rings_hand_over quiet_keeps spawn)
  then show ?thesis
    unfolding launch_prepared_def
    by (intro rings_if rings_before rings_after j quiet_keeps) (auto intro: quiet_keeps)
qed

lemma rings_report: "rings {(t_id t, t_epoch t)} (launch_and_report M t prompt)"
  unfolding launch_and_report_def by (intro rings_after rings_launch_prepared quiet_keeps)

lemma rings_resume: "rings {(t_id t, t_epoch t)} (resume_replacement M t e)"
  unfolding resume_replacement_def
  by (intro rings_option rings_if rings_before rings_report quiet_keeps quiet_rings)

lemma transition_keeps_id:
  assumes "transition_on tid expect ev assign att now d = Inr (rec, d')"
  shows "t_id rec = tid"
proof -
  from assms obtain d1 row where "find_task tid d1 = Some row" "rec = decode_task row"
    by (auto simp: transition_on_def split: option.splits if_splits)
  then show ?thesis by (auto simp: decode_task_def task_record.defs dest: find_task_SomeD)
qed

lemma prepare_keeps_id: "prepare_replacement x tid target charge ev fence now d = Inr (rec, d') \<Longrightarrow> t_id rec = tid"
  unfolding prepare_replacement_def
  by (elim with_fence_Inr) (auto simp: Let_def dest: transition_keeps_id split: option.splits if_splits)

lemma rings_reroute: "rings ({t_id t} \<times> UNIV) (reroute M t s outcome)"
proof -
  have "rings ({t_id t} \<times> UNIV) (launch_and_report M p prompt)" if "t_id p = t_id t" for p prompt
    by (rule rings_mono [OF rings_report]) (simp add: that)
  then have launch: "rings ({t_id t} \<times> UNIV) (follow (given (jneed ''prompt'' (t_spec t))) (launch_and_report M p))"
    if "t_id p = t_id t" for p
    using that by (intro rings_before quiet_keeps) blast
  show ?thesis
    unfolding reroute_def
    by (intro rings_before quiet_keeps launch) (auto simp: on_db_Inr dest: prepare_keeps_id)
qed

lemma rings_advance_with: "rings ({t_id t} \<times> UNIV) (advance_with M t outcome)"
  unfolding advance_with_def Let_def
  by (intro rings_if rings_before rings_reroute quiet_rings quiet_keeps)

lemma rings_advance_locked: "rings ({t_id t} \<times> UNIV) (advance_locked M t)"
proof -
  have "rings ({t_id t} \<times> UNIV) (resume_replacement M t e)" for e
    by (rule rings_mono [OF rings_resume]) simp
  then show ?thesis
    unfolding advance_locked_def
    by (intro rings_if rings_before rings_option rings_advance_with quiet_keeps) (auto intro: quiet_rings quiet_keeps)
qed

lemma rings_advance: "rings ({t_id t} \<times> UNIV) (advance_past_outcome M t)"
proof -
  have "rings ({t_id t} \<times> UNIV) (advance_locked M c)" if "get_by_id (t_id t) d = Some c" for c d
    using rings_advance_locked [of c M] that
    by (auto simp: get_by_id_def decode_task_def task_record.defs dest: find_task_SomeD)
  then show ?thesis
    unfolding advance_past_outcome_def
    by (intro rings_before rings_option quiet_keeps) (auto intro: quiet_rings quiet_keeps)
qed

lemma get_by_id_id: "get_by_id tid d = Some t \<Longrightarrow> t_id t = tid"
  by (auto simp: get_by_id_def decode_task_def task_record.defs dest: find_task_SomeD)

lemma once_each_distinct: "distinct (map t_id (once_each ts))"
  by (induction ts) (auto simp: distinct_map_filter)

lemma advance_each_calls:
  assumes "distinct (map t_id ts)"
  shows "\<exists>new. ms_calls (snd (advance_each M ts w)) = ms_calls w @ new \<and> distinct (map fst new) \<and> fst ` set new \<subseteq> t_id ` set ts"
  using assms
proof (induction ts arbitrary: w)
  case (Cons t ts)
  obtain q v where q: "advance_past_outcome M t w = (q, v)" by (rule prod.exhaust)
  from ringsD [OF rings_advance q] obtain one where one: "ms_calls v = ms_calls w @ one" "one = [] \<or> (\<exists>e. one = [(t_id t, e)])"
    by auto
  from Cons.IH [of v] Cons.prems obtain new where new: "ms_calls (snd (advance_each M ts v)) = ms_calls v @ new"
    "distinct (map fst new)" "fst ` set new \<subseteq> t_id ` set ts" by auto
  have "t_id t \<notin> fst ` set new" using new(3) Cons.prems by auto
  with one new have far: "distinct (map fst (one @ new))" "fst ` set (one @ new) \<subseteq> t_id ` set (t # ts)"
    by (auto simp: image_iff)
  have tail: "ms_calls (snd (follow (advance_each M ts) (\<lambda>ks. give (option_list k @ ks)) v)) = ms_calls (snd (advance_each M ts v))" for k
    by (simp add: follow_def split: prod.split sum.split)
  consider "ms_calls (snd (advance_each M (t # ts) w)) = ms_calls w @ one"
    | "ms_calls (snd (advance_each M (t # ts) w)) = ms_calls w @ one @ new"
    using q one(1) new(1) tail by (cases q; cases "isolated (projl q)") simp_all
  then show ?case
  proof cases
    case 1
    with one(2) show ?thesis by auto
  next
    case 2
    with far show ?thesis by blast
  qed
qed simp

lemma advance_each_raises: "advance_each M ts w = (Inl e, w') \<Longrightarrow> \<not> isolated e"
proof (induction ts arbitrary: w)
  case (Cons t ts)
  obtain q v where q: "advance_past_outcome M t w = (q, v)" by (rule prod.exhaust)
  show ?case
  proof (cases q)
    case (Inl x)
    with Cons q show ?thesis by (auto split: if_splits)
  next
    case (Inr k)
    with Cons.prems q have "advance_each M ts v = (Inl e, w')" by (auto simp: follow_def split: prod.splits sum.splits)
    from Cons.IH [OF this] show ?thesis .
  qed
qed simp

text \<open>
  C22: a sweep settles each stuck task at most once, and no task's error reaches the next.
  Whatever the tasks and the executor's answers are, the native launches one sweep requests
  are for pairwise different tasks, each of them one whose journal shows a typed outcome or
  that was left replacing; and the only errors that end the sweep early are those its handler
  does not name.
\<close>

theorem sweep_settles_each_once:
  "\<exists>new. ms_calls (snd (reconcile_provider_outcomes M w)) = ms_calls w @ new \<and> distinct (map fst new)
     \<and> fst ` set new \<subseteq> t_id ` set (pending_tasks (ms_db w))
     \<and> (case fst (reconcile_provider_outcomes M w) of Inl e \<Rightarrow> \<not> isolated e | Inr ks \<Rightarrow> True)"
proof -
  have "distinct (map t_id (pending_tasks (ms_db w)))" unfolding pending_tasks_def by (rule once_each_distinct)
  from advance_each_calls [OF this, of M w] advance_each_raises [of M "pending_tasks (ms_db w)" w]
  show ?thesis
    by (auto simp: reconcile_provider_outcomes_def follow_def [of "observe _"] split: sum.split)
      (metis fst_conv surjective_pairing)
qed

subsection \<open>Where a reroute goes\<close>

lemma jget_jcanon: "jget k (jcanon j) = map_option jcanon (jget k j)"
proof (cases j)
  case (JObj kvs)
  have "map_of (map (map_prod id jcanon) kvs) k = map_option jcanon (map_of kvs k)"
    by (induction kvs) auto
  then show ?thesis using JObj by (simp add: map_of_sort_key)
qed simp_all

lemma jget_jset: "jget k j \<noteq> None \<Longrightarrow> jget k (jset k v j) = Some v"
proof (cases j)
  case (JObj kvs)
  assume "jget k j \<noteq> None"
  with JObj have "k \<in> fst ` set kvs" by (force dest: map_of_SomeD)
  moreover have "k \<in> fst ` set kvs \<Longrightarrow> map_of (map (\<lambda>(k', v'). (k', if k' = k then v else v')) kvs) k = Some v"
    by (induction kvs) auto
  ultimately show ?thesis using JObj by simp
qed simp_all

lemma target_written:
  assumes "jget ''target'' (t_spec r) \<noteq> None" and "t_spec p = jcanon (jset ''target'' (next_target t s provider outcome) (t_spec r))"
  shows "jtext ''auth_binding_id'' (target_field p) = Some (st_binding s)"
  using jget_jset [OF assms(1)]
  by (simp add: jtext_def target_field_def assms(2) jget_jcanon next_target_def) 

lemma prepare_facts:
  assumes "prepare_replacement x tid (Some target) charge (Some v) fence now d = Inr (p, d')" and "db_ok d"
  obtains r where "find_task tid d = Some r" "t_version r = v" "t_attempts r < t_max_attempts r" "t_id p = tid"
    "t_epoch p = t_epoch r + 1" "t_spec p = jcanon (jset ''target'' target (t_spec r))"
    "t_attempts p = (if charge then t_attempts r + 1 else t_attempts r)" "t_state p = Replacing"
  using assms(1) unfolding prepare_replacement_def
proof (rule with_fence_Inr)
  fix x' f
  let ?assign = "\<lambda>spec r. r\<lparr>t_state := Replacing, t_epoch := t_epoch r + 1,
                           t_attempts := (if charge then t_attempts r + 1 else t_attempts r),
                           t_spec := jcanon spec, t_liveness := liveness.Live, t_liveness_episode := 0,
                           t_liveness_since := None, t_liveness_wakes := 0,
                           t_liveness_evidence := None, t_over_budget := False,
                           t_checkpoint_at := None\<rparr>"
  assume "ebind (require_fence x' tid (Some f)) (\<lambda>_.
         case find_task tid d of
           None \<Rightarrow> Inl TaskNotFound
         | Some task \<Rightarrow>
             if t_attempts task \<ge> t_max_attempts task
             then Inl (CircuitBreaker (t_key task) (t_max_attempts task))
             else
               let spec = (case Some target of None \<Rightarrow> t_spec task | Some tg \<Rightarrow> jset ''target'' tg (t_spec task))
               in transition x' tid replace_predecessors (Some v) (?assign spec) ''replacing'' (Some f) now d) = Inr (p, d')"
  then obtain r where r: "find_task tid d = Some r" "t_attempts r < t_max_attempts r"
    and tr: "transition_on tid replace_predecessors (Some v) (?assign (jset ''target'' target (t_spec r))) ''replacing'' now d = Inr (p, d')"
    by (auto simp: Let_def split: option.splits if_splits)
  from r(1) have id: "t_id r = tid" by (auto dest: find_task_SomeD)
  from tr obtain r0 where r0: "find_task tid d = Some r0" "Some v = None \<or> Some v = Some (t_version r0)"
    "p = decode_task ((?assign (jset ''target'' target (t_spec r)) r0)\<lparr>t_version := t_version r0 + 1, t_updated_at := now\<rparr>)"
    by (rule transition_on_write [OF _ assms(2)]) simp
  from r0(1) r(1) have "r0 = r" by simp
  with r0 r id that [of r] show thesis by (simp add: decode_task_def task_record.defs)
qed

lemma failover_avoids:
  assumes "advance_route_after_outcome s w outcome cls (Some binding) = Inr sel" "s_target sel = Some t"
    and "binding \<noteq> []" "binding \<noteq> ''free''"
  shows "st_binding t \<noteq> binding"
proof -
  have sel: "select_route s w cls None [binding] [] = sel"
    using assms(1,3) by (auto simp: advance_route_after_outcome_def truthy_def split: if_splits)
  from selection_route [OF sel assms(2)] obtain r wanted where
    r: "route_usable s w None [binding] [] r" "t = target_of s wanted r (chosen_account w [binding] r)" by blast
  show ?thesis
  proof (cases "r_billing r = ''free''")
    case True
    with r(2) assms(4) show ?thesis by (simp add: target_of_def chosen_account_def)
  next
    case False
    with r(1) obtain a where a: "first_eligible w [binding] r = Some a" by (auto simp: route_usable_def)
    from first_eligible_SomeD [OF a] eligibleD [of w "[binding]" a] have "a_id a \<noteq> binding" by simp
    with False a r(2) assms(4) show ?thesis by (simp add: target_of_def chosen_account_def)
  qed
qed

lemma quiet_run: "keeps quiet m \<Longrightarrow> m w = (r, w') \<Longrightarrow> ms_calls w' = ms_calls w"
  by (auto simp: quiet_def dest: keepsD)

lemma advance_with_loud:
  assumes "advance_with M t out w = (res, w')" and "ms_calls w' \<noteq> ms_calls w"
  obtains sel s where "select_next M t out w = (Inr sel, w)" "s_target sel = Some s" "reroute M t s out w = (res, w')"
    "jtext ''failover'' (target_field t) \<noteq> Some ''pinned''"
    "t_attempts t + (if t_state t = Active then 1 else 0) < t_max_attempts t"
proof -
  note q = quiet_finish_parts(2,3) [THEN quiet_run]
  from assms q have g: "t_attempts t + (if t_state t = Active then 1 else 0) < t_max_attempts t"
    "jtext ''failover'' (target_field t) \<noteq> Some ''pinned''"
    and f: "follow (select_next M t out) (\<lambda>sel.
             if s_status sel \<noteq> Resolved \<or> s_target sel = None
             then block_unroutable M t (out @ '' on route '' @ printed (jtext ''route_id'' (target_field t)) @ '' ('' @ route_class_of (target_field t) @ ''); ''
                                        @ printed (s_reason sel))
             else reroute M t (the (s_target sel)) out) w = (res, w')"
    by (auto simp: advance_with_def Let_def split: if_splits)
  obtain r where sel: "select_next M t out w = (r, w)" by (simp add: select_next_def)
  with f assms(2) obtain sel where r: "r = Inr sel" by (cases r) (auto simp: follow_def)
  with f sel q assms(2) have "s_target sel \<noteq> None" "reroute M t (the (s_target sel)) out w = (res, w')"
    by (auto simp: follow_def split: if_splits)
  with that sel r g show thesis by auto
qed

lemma reroute_loud:
  assumes "reroute M t s out w = (res, w')" and "ms_calls w' \<noteq> ms_calls w" and "fair M" and "kernel_inv (ms_db w)"
    and "find_task (t_id t) (ms_db w) = Some r" and "t = decode_task r" and "jget ''target'' (t_spec t) \<noteq> None"
  obtains p prompt v where "launch_prepared M p prompt v = (fst (launch_prepared M p prompt v), w')"
    "t_id p = t_id t" "t_epoch p = t_epoch t + 1" "ms_calls v = ms_calls w"
    "t_attempts p = t_attempts t + (if t_state t = Active then 1 else 0)" "t_state p = Replacing"
    "jtext ''auth_binding_id'' (target_field p) = Some (st_binding s)"
proof -
  obtain w1 where o: "opened M GProviders w = (Inr (), w1)" by (simp add: opened_def)
  from keepsD [OF keeps_opened [OF assms(3)] o] assms(4) have step: "kernel_step (ms_db w) (ms_db w1)"
    by (simp add: mesh_step_def)
  have q1: "ms_calls w1 = ms_calls w" using quiet_run [OF quiet_on(4) o] .
  let ?rest = "\<lambda>provider. follow (on_db (prepare_replacement (held_ctx M (t_id t)) (t_id t) (Some (next_target t s provider out))
                        (t_state t = Active) (Some (t_version t)) (Some (held_fence M (t_id t))) (mg_now M))) (\<lambda>prepared.
         follow (given (jneed ''prompt'' (t_spec t))) (launch_and_report M prepared))"
  from assms(1) o have run1: "follow (default_provider_id M) ?rest w1 = (res, w')"
    by (simp add: reroute_def follow_def [of "opened _ _"])
  obtain provider w2 where d: "default_provider_id M w1 = (Inr provider, w2)" and run2: "?rest provider w2 = (res, w')"
    and q2: "ms_calls w2 = ms_calls w"
    by (rule follow_loud [OF run1 assms(2) quiet_finish_parts(5) q1])
  obtain p v where prep: "on_db (prepare_replacement (held_ctx M (t_id t)) (t_id t) (Some (next_target t s provider out))
        (t_state t = Active) (Some (t_version t)) (Some (held_fence M (t_id t))) (mg_now M)) w2 = (Inr p, v)"
    and run3: "follow (given (jneed ''prompt'' (t_spec t))) (launch_and_report M p) v = (res, w')" and q3: "ms_calls v = ms_calls w"
    by (rule follow_loud [OF run2 assms(2) quiet_on(1) q2])
  have "w2 = w1" using d by (auto simp: default_provider_id_def follow_def given_client_def check_def split: sum.splits list.splits if_splits)
  with prep obtain d' where pr: "prepare_replacement (held_ctx M (t_id t)) (t_id t) (Some (next_target t s provider out))
        (t_state t = Active) (Some (t_version t)) (Some (held_fence M (t_id t))) (mg_now M) (ms_db w1) = Inr (p, d')"
    by (auto simp: on_db_Inr)
  from kernel_step_find [OF step assms(5)] obtain r1 where r1: "find_task (t_id t) (ms_db w1) = Some r1" "evolves r r1" by blast
  have f: "t_version t = t_version r" "t_epoch t = t_epoch r" "t_attempts t = t_attempts r" "t_spec t = t_spec r" "t_state t = t_state r"
    by (simp_all add: assms(6) decode_task_def task_record.defs)
  from kernel_inv_ok [OF kernel_step_inv [OF step]] have "db_ok (ms_db w1)" .
  from pr this obtain r2 where r2: "find_task (t_id t) (ms_db w1) = Some r2" "t_version r2 = t_version t" "t_id p = t_id t"
    "t_epoch p = t_epoch r2 + 1" "t_spec p = jcanon (jset ''target'' (next_target t s provider out) (t_spec r2))"
    "t_attempts p = (if t_state t = Active then t_attempts r2 + 1 else t_attempts r2)" "t_state p = Replacing"
    by (rule prepare_facts)
  with r1 have r2r1: "r2 = r1" by simp
  with evolves_same_version [OF r1(2)] r2(2) f(1) have "lifecycle_facts r2 = lifecycle_facts r" by simp
  then have same: "t_epoch r2 = t_epoch t" "t_attempts r2 = t_attempts t" "t_spec r2 = t_spec t"
    by (simp_all add: lifecycle_facts_def f)
  obtain prompt v' where "given (jneed ''prompt'' (t_spec t)) v = (Inr prompt, v')" "launch_and_report M p prompt v' = (res, w')"
    by (rule follow_loud [OF run3 assms(2) quiet_combinators(3) q3])
  then have "launch_and_report M p prompt v = (res, w')" by simp
  then have "snd (launch_prepared M p prompt v) = w'"
    by (auto simp: launch_and_report_def follow_def reported_def split: prod.splits sum.splits)
  with that [of p prompt v] r2 same q3 target_written [of r2 p t s provider out] assms(7) show thesis
    by (simp add: prod_eq_iff)
qed


definition moving_spec :: json where
  "moving_spec = JObj [(''prompt'', JStr ''do it''), (''repo_path'', JStr ''r''), (''base'', JStr ''main''),
     (''permission'', JStr ''PLAN''), (''target'', JObj [(''executor'', JStr ''CODEX''), (''auth_binding_id'', JStr ''x'')])]"

definition moving_row :: task_row where
  "moving_row = (sample_row ''a'' Active 0 2)\<lparr>t_spec := moving_spec\<rparr>"

definition refused_effect :: effect_row where
  "refused_effect = (sample_effect ETerminal)\<lparr>e_outcome := Some ''auth''\<rparr>"

definition moving_db :: db where
  "moving_db = with_effect refused_effect (seed [moving_row])"

definition moving_manager :: manager where
  "moving_manager = sample_manager\<lparr>mg_settings := Inr sample_settings,
     mg_providers := Inr [VDict [(''kind'', VStr ''Default''), (''enabled'', VBool True), (''id'', VStr ''p'')]]\<rparr>"

lemma moving_fields [simp]:
  "t_id moving_row = ''a''" "t_epoch moving_row = 1" "t_version moving_row = 0" "t_state moving_row = Active"
  "t_attempts moving_row = 0" "t_max_attempts moving_row = 2" "t_workspace moving_row = None" "t_spec moving_row = moving_spec"
  by (simp_all add: moving_row_def sample_row_def new_task_row_def)

lemma moving_table: "task_table_ok [moving_row]"
  by (simp add: moving_row_def sample_defs)

lemma moving_facts:
  "kernel_inv moving_db" "find_task ''a'' moving_db = Some moving_row" "find_effect ''a'' 1 moving_db = Some refused_effect"
  "find_effect ''a'' 2 moving_db = None" "db_tasks moving_db = [moving_row]"
proof -
  have "row_inv moving_row" using sample_row_inv [of 0 2 "''a''" Active] by (simp add: moving_row_def row_inv_def within_budget_def)
  then have inv: "kernel_inv (seed [moving_row])" by (intro kernel_inv_seed moving_table) simp
  show "kernel_inv moving_db" unfolding moving_db_def by (rule with_effect_inv [OF inv])
  obtain d where d: "insert_effect refused_effect ''reserved'' 0 (seed [moving_row]) = Inr d"
    by (simp add: insert_effect_def refused_effect_def)
  then have e: "moving_db = d" by (simp add: moving_db_def with_effect_def)
  show "db_tasks moving_db = [moving_row]" using insert_effect_frame(1) [OF d] by (simp add: e seed_tasks [OF moving_table])
  then show "find_task ''a'' moving_db = Some moving_row" by (simp add: find_task_def)
  have "db_effects moving_db = [refused_effect]" using insert_effect_frame(6) [OF d] by (simp add: e)
  then show "find_effect ''a'' 1 moving_db = Some refused_effect" "find_effect ''a'' 2 moving_db = None"
    by (simp_all add: find_effect_def effect_key_def refused_effect_def sample_effect_def)
qed

lemma moving_task [simp]:
  "t_id (decode_task moving_row) = ''a''" "t_epoch (decode_task moving_row) = 1" "t_version (decode_task moving_row) = 0"
  "t_state (decode_task moving_row) = Active" "t_attempts (decode_task moving_row) = 0" "t_max_attempts (decode_task moving_row) = 2"
  "t_spec (decode_task moving_row) = moving_spec"
  by (simp_all add: decode_task_def task_record.defs)

lemma moving_target: "target_field (decode_task moving_row) = JObj [(''executor'', JStr ''CODEX''), (''auth_binding_id'', JStr ''x'')]"
  by (simp add: target_field_def moving_spec_def)

lemma moving_selection:
  "\<exists>sel s. select_next moving_manager (decode_task moving_row) ''auth'' w = (Inr sel, w) \<and> s_status sel = Resolved \<and> s_target sel = Some s"
proof -
  let ?sel = "select_route sample_settings sample_view (Some ''standard'') None [''x''] []"
  have "advance_route_after_outcome sample_settings sample_view ''auth'' (Some ''standard'') (Some ''x'') = Inr ?sel"
    by (simp add: advance_route_after_outcome_def reroute_outcomes_def truthy_def)
  then have "select_next moving_manager (decode_task moving_row) ''auth'' w = (Inr ?sel, w)"
    by (simp add: select_next_def moving_manager_def sample_manager_def moving_target route_class_of_def jtext_def)
  moreover have "s_status ?sel = Resolved \<and> s_target ?sel \<noteq> None"
    using select_route_spec [OF sample_selection(3) _ sample_class(2) refl, of "Some ''standard''" sample_view None "[''x'']" "[]"]
    by (simp add: sample_selection(1) sample_usable sample_approval truthy_def)
  ultimately show ?thesis by auto
qed

lemma moving_prepared:
  "\<exists>r d. prepare_replacement (held_ctx moving_manager ''a'') ''a'' (Some target) True (Some 0) (Some (held_fence moving_manager ''a'')) 5 moving_db
      = Inr (decode_task r, d) \<and> find_task ''a'' d = Some r \<and> t_epoch r = 2 \<and> t_workspace r = None \<and> t_id r = ''a''
        \<and> t_spec r = jcanon (jset ''target'' target moving_spec) \<and> find_effect ''a'' 2 d = None"
proof -
  let ?assign = "\<lambda>r :: task_row. r\<lparr>t_state := Replacing, t_epoch := t_epoch r + 1, t_attempts := t_attempts r + 1,
                           t_spec := jcanon (jset ''target'' target moving_spec), t_liveness := liveness.Live, t_liveness_episode := 0,
                           t_liveness_since := None, t_liveness_wakes := 0, t_liveness_evidence := None, t_over_budget := False,
                           t_checkpoint_at := None\<rparr>"
  let ?r = "(?assign moving_row)\<lparr>t_version := t_version moving_row + 1, t_updated_at := 5\<rparr>"
  have "\<exists>d'. transition_on ''a'' replace_predecessors (Some 0) ?assign ''replacing'' 5 moving_db = Inr (decode_task ?r, d')
      \<and> task_write ''a'' moving_row ?r moving_db d'"
    by (rule transition_on_succeeds [OF kernel_inv_ok [OF moving_facts(1)] moving_facts(2)])
       (simp_all add: replace_predecessors_def moving_facts(5))
  then obtain d where tr: "transition_on ''a'' replace_predecessors (Some 0) ?assign ''replacing'' 5 moving_db = Inr (decode_task ?r, d)"
    and w: "task_write ''a'' moving_row ?r moving_db d" by blast
  have fence: "require_fence (held_ctx moving_manager ''a'') ''a'' (Some (held_fence moving_manager ''a'')) = Inr ()"
    by (simp add: held_ctx_def held_fence_def)
  have "prepare_replacement (held_ctx moving_manager ''a'') ''a'' (Some target) True (Some 0) (Some (held_fence moving_manager ''a'')) 5 moving_db
      = Inr (decode_task ?r, d)"
    using tr fence by (simp add: prepare_replacement_def with_fence_def moving_facts(2) transition_def Let_def)
  moreover have "find_task ''a'' d = Some ?r" using task_write_find [OF w] by simp
  moreover have "find_effect ''a'' 2 d = None" using w moving_facts(4) by (simp add: task_write_def same_side_tables_def find_effect_def)
  ultimately show ?thesis by (intro exI [of _ ?r] exI [of _ d]) simp
qed

lemma fresh_launch_calls:
  assumes "find_effect (t_id p) (t_epoch p) (ms_db w) = None"
  shows "ms_calls (snd (journaled_launch M p l w)) = ms_calls w @ [(t_id p, t_epoch p)]"
proof -
  let ?row = "\<lparr>e_task_id = t_id p, e_epoch = t_epoch p, e_request_hash = mg_hash M l, e_state = EReserved, e_workspace_id = None,
      e_session_id = None, e_outcome = None, e_owner = mg_owner M, e_lease_expires_at = mg_clock M 0 + reservation_ttl, e_retry_at = None,
      e_created_at = mg_clock M 0, e_updated_at = mg_clock M 0\<rparr>"
  have "effect_key ?row \<notin> effect_key ` set (db_effects (ms_db w))"
    using assms by (simp add: find_effect_def effect_key_def lookup_by_None_iff)
  then obtain d where ins: "insert_effect ?row ''reserved'' (mg_clock M 0) (ms_db w) = Inr d"
    by (simp add: insert_effect_def)
  with assms have "try_reserve M p (mg_hash M l) 0 w = (Inr (Some (decode_effect ?row)), w\<lparr>ms_db := d\<rparr>)"
    by (simp add: try_reserve_def reserve_effect_def)
  then have "reserve_or_wait M p (mg_hash M l) w = (Inr (decode_effect ?row), w\<lparr>ms_db := d\<rparr>)"
    unfolding reserve_or_wait_def by (subst poll.simps) simp
  moreover have "e_state (decode_effect ?row) = EReserved" by (simp add: decode_effect_def effect.defs)
  ultimately show ?thesis by (simp add: journaled_launch_def follow_def native_launch_calls)
qed

lemma moving_launch:
  assumes "find_task ''a'' (ms_db v) = Some r" "t_epoch r = 2" "t_workspace r = None" "t_id r = ''a''"
    "t_spec r = jcanon (jset ''target'' (next_target t s provider out) moving_spec)" "find_effect ''a'' 2 (ms_db v) = None"
  shows "ms_calls (snd (launch_prepared moving_manager (decode_task r) ''do it'' v)) = ms_calls v @ [(''a'', 2)]"
proof -
  let ?p = "decode_task r"
  have p: "t_id ?p = ''a''" "t_epoch ?p = 2" "t_workspace ?p = None" "t_spec ?p = jcanon (jset ''target'' (next_target t s provider out) moving_spec)"
    using assms by (simp_all add: decode_task_def task_record.defs)
  obtain req where req: "workspace_request moving_manager ?p ''do it'' v = (Inr req, v)"
    by (simp add: workspace_request_def follow_def opened_def moving_manager_def sample_manager_def workspace_args_def need_target_def
        jneed_def jtext_def p(4) jget_jcanon moving_spec_def next_target_def given_client_def)
  have same: "require_unchanged ?p v = (Inr ?p, v)"
    using assms(1,4) p by (simp add: require_unchanged_def follow_def reload_unchanged_def get_by_id_def unchanged_def)
  have "launch_prepared moving_manager ?p ''do it'' v
      = follow (journaled_launch moving_manager ?p (launch_of req)) (\<lambda>(ws, sid). activate_launched moving_manager ?p ws sid) v"
    using req same p(3) by (simp add: launch_prepared_def truthy_def follow_def [of "workspace_request _ _ _"] follow_def [of "require_unchanged _"])
  moreover obtain q v' where j: "journaled_launch moving_manager ?p (launch_of req) v = (q, v')" by (rule prod.exhaust)
  moreover have "ms_calls (snd (activate_launched moving_manager ?p ws sid v')) = ms_calls v'" for ws sid
    using quiet_finish_parts(10) [of moving_manager ?p ws sid] by (simp add: keeps_def quiet_def)
  moreover have "ms_calls v' = ms_calls v @ [(''a'', 2)]"
    using fresh_launch_calls [of ?p v moving_manager "launch_of req"] assms(6) p j by simp
  ultimately show ?thesis by (cases q) (auto simp: follow_def split: prod.split)
qed


end
