(* ===== verification/Dispatch.thy ===== *)
theory Dispatch
  imports Recovery WakeDelivery "HOL-Library.Multiset"
begin

text \<open>
  The calls of a manager (\<open>sdk.py\<close>): the specification of a worker and its target, batches of
  starts and of commands, the manual replacement, and the calls that end a task.
\<close>

subsection \<open>Requests and the caller\<close>

record worker_request =
  wr_key :: string
  wr_prompt :: string
  wr_repo :: string
  wr_base :: string
  wr_profile :: "string option"
  wr_executor :: "string option"
  wr_model :: "string option"
  wr_reasoning :: "string option"
  wr_permission :: string
  wr_children :: int
  wr_class :: "string option"
  wr_progress :: val
  wr_approval :: val
  wr_budget :: "budget option"

text \<open>
  The caller: its session, the files and paths of its host, the repositories the executor knows,
  and the answers to what it sends.  \<open>ca_accepts\<close> says whether the executor took a wake, and
  \<open>ca_traffic\<close> what others wrote before a wake's bytes are frozen and while it is sent.
  \<open>ca_settings\<close> is the parsed \<open>.conductor/settings.toml\<close> of a
  base branch, \<open>None\<close> when git has none.
\<close>

record caller =
  ca_manager :: manager
  ca_session :: "string option"
  ca_swept :: bool
  ca_is_dir :: "string \<Rightarrow> bool"
  ca_resolve :: "string \<Rightarrow> string"
  ca_basename :: "string \<Rightarrow> string"
  ca_fold :: "string \<Rightarrow> string"
  ca_register :: "string \<Rightarrow> cerror + val"
  ca_repos :: "cerror + val list"
  ca_settings :: "string \<Rightarrow> string \<Rightarrow> val option"
  ca_profiles :: registry
  ca_uuid5 :: "string \<Rightarrow> string"
  ca_send :: "string \<Rightarrow> string \<Rightarrow> string \<Rightarrow> cerror + val"
  ca_accepts :: "message \<Rightarrow> bool"
  ca_traffic :: "string \<Rightarrow> bool \<Rightarrow> db \<Rightarrow> db"
  ca_token :: "string \<Rightarrow> string"
  ca_lease :: real
  ca_replies :: "string \<Rightarrow> int \<Rightarrow> effect_reply option"

abbreviation ca_pystr :: "caller \<Rightarrow> val \<Rightarrow> string" where
  "ca_pystr E \<equiv> si_pystr (mg_site (ca_manager E))"

abbreviation ca_now :: "caller \<Rightarrow> real" where
  "ca_now E \<equiv> mg_now (ca_manager E)"

definition max_attempts :: int where
  "max_attempts = 3"

text \<open>\<open>_context\<close>, \<open>_find\<close> and \<open>_current\<close>\<close>

definition context_of :: "caller \<Rightarrow> mesh \<Rightarrow> string \<times> task_record option" where
  "context_of E w =
     (let parent = (if truthy (ca_session E) then get_by_session (the (ca_session E)) (ms_db w) else None) in
      case parent of
        Some p \<Rightarrow> (t_id p, Some p)
      | None \<Rightarrow> (if truthy (ca_session E) then ''session:'' @ the (ca_session E) else ''operator'', None))"

definition find_worker :: "caller \<Rightarrow> string \<Rightarrow> task_record mesh_op" where
  "find_worker E key =
     follow (observe (\<lambda>w. get_task (fst (context_of E w)) key (ms_db w))) (\<lambda>t.
       case t of None \<Rightarrow> raising (MRefused ''Unknown task'') | Some t \<Rightarrow> give t)"

definition current_task :: "caller \<Rightarrow> task_record mesh_op" where
  "current_task E =
     follow (observe (\<lambda>w. snd (context_of E w))) (\<lambda>t.
       case t of None \<Rightarrow> raising (MRefused ''This process is not running inside a managed task'') | Some t \<Rightarrow> give t)"

definition named_or_current :: "caller \<Rightarrow> string option \<Rightarrow> task_record mesh_op" where
  "named_or_current E key = (case key of None \<Rightarrow> current_task E | Some k \<Rightarrow> find_worker E k)"

text \<open>\<open>show\<close> and \<open>list\<close>\<close>

definition show_worker :: "caller \<Rightarrow> string option \<Rightarrow> worker mesh_op" where
  "show_worker E key = follow (named_or_current E key) (\<lambda>t. given (worker_of t))"

definition list_workers :: "caller \<Rightarrow> worker list mesh_op" where
  "list_workers E =
     follow (observe (\<lambda>w. list_scope (fst (context_of E w)) (ms_db w))) (each_op (\<lambda>t. given (worker_of t)))"

subsection \<open>The specification of a worker\<close>

definition key_start :: "char \<Rightarrow> bool" where
  "key_start c \<longleftrightarrow> (let n = of_char c :: nat in (97 \<le> n \<and> n \<le> 122) \<or> (48 \<le> n \<and> n \<le> 57))"

text \<open>\<open>KEY_PATTERN\<close>, matched in full\<close>

definition valid_key :: "string \<Rightarrow> bool" where
  "valid_key k \<longleftrightarrow>
     (case k of [] \<Rightarrow> False
      | c # cs \<Rightarrow> key_start c \<and> length cs \<le> 23 \<and> list_all (\<lambda>c. key_start c \<or> c = CHR ''_'' \<or> c = CHR ''-'') cs)"

definition permission_policies :: "string set" where
  "permission_policies = {''BYPASS_PERMISSIONS'', ''ACCEPT_EDITS'', ''PLAN'', ''SUPERVISED''}"

definition spec_problem :: "worker_request \<Rightarrow> string option" where
  "spec_problem r =
     (if \<not> valid_key (wr_key r) then Some ''Task keys use 1 to 24 lowercase letters, numbers, hyphens, or underscores''
      else if strip (wr_prompt r) = [] then Some ''Prompt must not be empty''
      else if strip (wr_base r) = [] then Some ''Base branch must not be empty''
      else if wr_children r < 0 \<or> wr_children r > 1000 then Some ''children must be between 0 and 1000''
      else if wr_permission r \<notin> permission_policies then Some ''Unknown permission policy''
      else case wr_class r of
        None \<Rightarrow> None
      | Some c \<Rightarrow> if c \<in> set route_classes then None else Some ''route_class must be one of the route classes'')"

definition refused_if :: "string option \<Rightarrow> unit mesh_op" where
  "refused_if problem = (case problem of None \<Rightarrow> give () | Some m \<Rightarrow> raising (MRefused m))"

text \<open>\<open>_is_ephemeral_repo_path\<close>\<close>

definition ephemeral_path :: "caller \<Rightarrow> string \<Rightarrow> bool" where
  "ephemeral_path E path \<longleftrightarrow>
     contains_text ''/conductor/workspaces/'' (ca_resolve E path) \<or> contains_text ''/.cdesktop-workspaces/'' (ca_resolve E path)"

definition repo_names :: "caller \<Rightarrow> val \<Rightarrow> string list" where
  "repo_names E r =
     map (ca_fold E)
       [text_or_empty (ca_pystr E) (vget ''id'' r), text_or_empty (ca_pystr E) (vget ''name'' r),
        text_or_empty (ca_pystr E) (vget ''display_name'' r),
        ca_basename E (text_or_empty (ca_pystr E) (vget ''path'' r))]"

definition canonical_repo :: "caller \<Rightarrow> val \<Rightarrow> bool" where
  "canonical_repo E r \<longleftrightarrow> vtruthy (vget ''path'' r) \<and> \<not> ephemeral_path E (text_of (ca_pystr E) (vget ''path'' r))"

definition resolve_repo :: "caller \<Rightarrow> string \<Rightarrow> val mesh_op" where
  "resolve_repo E name =
     (if ca_is_dir E name then given_client (ca_register E name)
      else follow (given_client (ca_repos E)) (\<lambda>rows.
        follow (check (list_all is_dict rows) MKey) (\<lambda>_.
          let matches = filter (\<lambda>r. ca_fold E name \<in> set (repo_names E r)) rows;
              canonical = filter (canonical_repo E) matches
          in case (if canonical \<noteq> [] then canonical else matches) of
               [r] \<Rightarrow> give r
             | [] \<Rightarrow> raising (MRefused ''Repository handle is not registered in cdesktop'')
             | _ \<Rightarrow> raising (MRefused ''Repository handle is ambiguous in cdesktop''))))"

text \<open>\<open>_setup_script\<close>\<close>

definition setup_script_of :: "val option \<Rightarrow> merror + string option" where
  "setup_script_of settings =
     (case settings of
        None \<Rightarrow> Inr None
      | Some data \<Rightarrow>
          (case vget ''setup'' (vget ''scripts'' data) of
             VNone \<Rightarrow> Inr None
           | VStr s \<Rightarrow> Inr (if strip s = [] then None else Some (strip s))
           | _ \<Rightarrow> Inl (MRefused ''.conductor/settings.toml scripts.setup must be a string'')))"

text \<open>Decoded values as stored JSON; the values stored here are finite.\<close>

fun json_of :: "val \<Rightarrow> json" where
  "json_of VNone = JNull"
| "json_of (VBool b) = JBool b"
| "json_of (VNum (PInt i)) = JInt i"
| "json_of (VNum (PFloat r)) = JReal r"
| "json_of (VNum n) = JNull"
| "json_of (VStr s) = JStr s"
| "json_of (VList vs) = JList (map json_of vs)"
| "json_of (VDict kvs) = JObj (map (\<lambda>(k, v). (k, json_of v)) kvs)"

subsection \<open>The target\<close>

definition from_routing :: "rerror + 'a \<Rightarrow> 'a mesh_op" where
  "from_routing r = given (case r of Inl e \<Rightarrow> Inl (MRoute e) | Inr a \<Rightarrow> Inr a)"

definition usable_provider :: "profile \<Rightarrow> val list \<Rightarrow> merror + unit" where
  "usable_provider p rows =
     (if \<not> list_all is_dict rows then Inl MKey
      else case provider_problem p rows of None \<Rightarrow> Inr () | Some m \<Rightarrow> Inl MProfile)"
definition profile_target :: "caller \<Rightarrow> worker_request \<Rightarrow> string \<Rightarrow> string \<Rightarrow> json mesh_op" where
  "profile_target E r cls name =
     (case get_profile (ca_profiles E) name of
        Inl e \<Rightarrow> raising MProfile
      | Inr p \<Rightarrow>
          follow (given_client (mg_providers (ca_manager E))) (\<lambda>rows.
            follow (given (usable_provider p rows)) (\<lambda>_.
              if truthy (wr_executor r) \<and> VStr (the (wr_executor r)) \<noteq> pf_executor p
              then raising (MRefused ''executor cannot override a profile'')
              else give (JObj
                [(''executor'', json_of (pf_executor p)), (''model'', json_of (vor (vopt (wr_model r)) (pf_model p))),
                 (''reasoning'', json_of (vor (vopt (wr_reasoning r)) (pf_reasoning p))), (''provider_id'', json_of (pf_provider p)),
                 (''auth_binding_id'', JNull), (''route_class'', JStr cls), (''route_id'', JStr (''profile:'' @ pf_name p)),
                 (''failover'', JStr (if vtruthy (pf_failover p) then ''auto'' else ''pinned''))]))))"

definition executor_target :: "worker_request \<Rightarrow> string \<Rightarrow> string \<Rightarrow> json" where
  "executor_target r cls executor =
     JObj [(''executor'', JStr executor), (''model'', joption (wr_model r)), (''reasoning'', joption (wr_reasoning r)),
           (''provider_id'', JNull), (''auth_binding_id'', JNull), (''route_class'', JStr cls),
           (''route_id'', JStr (''executor:'' @ executor)), (''failover'', JStr ''auto'')]"

definition routed_target :: "caller \<Rightarrow> worker_request \<Rightarrow> selection \<Rightarrow> json mesh_op" where
  "routed_target E r sel =
     (case s_target sel of
        Some s \<Rightarrow>
          if s_status sel \<noteq> Resolved then raising (MRefused ''Execution routing could not start the worker'')
          else follow (default_provider_id (ca_manager E)) (\<lambda>provider. give (JObj
            [(''executor'', JStr (st_executor s)), (''model'', JStr (st_model s)), (''reasoning'', joption (wr_reasoning r)),
             (''provider_id'', JStr provider), (''auth_binding_id'', JStr (st_binding s)), (''route_class'', JStr (st_class s)),
             (''route_id'', JStr (st_route s)), (''billing_class'', JStr (st_billing s)), (''failover'', JStr ''auto'')]))
      | None \<Rightarrow> raising (MRefused ''Execution routing could not start the worker''))"

definition select_target :: "caller \<Rightarrow> worker_request \<Rightarrow> bool \<Rightarrow> json mesh_op" where
  "select_target E r outer =
     follow (from_routing (mg_settings (ca_manager E))) (\<lambda>s. follow (observe (\<lambda>w. mg_view (ca_manager E) (ms_pool w))) (\<lambda>view.
       follow (from_routing (resolve_class s view \<lparr>k_class = wr_class r, k_top_level = outer, k_children = wr_children r\<rparr>)) (\<lambda>dec.
         if \<not> v_valid (d_validation dec) then raising (MRefused ''Route class cannot start the worker'')
         else if truthy (wr_profile r) then profile_target E r (d_class dec) (the (wr_profile r))
         else if truthy (wr_executor r) then give (executor_target r (d_class dec) (the (wr_executor r)))
         else routed_target E r (select_route s view (Some (d_class dec)) (wr_model r) [] []))))"

subsection \<open>The stored specification\<close>

definition public_spec :: "caller \<Rightarrow> worker_request \<Rightarrow> val \<Rightarrow> string \<Rightarrow> string \<Rightarrow> (string \<times> json) list" where
  "public_spec E r repo repo_id path =
     [(''key'', JStr (wr_key r)), (''prompt'', JStr (wr_prompt r)),
      (''repo'', JStr (text_of (ca_pystr E) (vor (vget ''name'' repo) (VStr (ca_basename E path))))),
      (''repo_id'', JStr repo_id), (''repo_path'', JStr path), (''base'', JStr (wr_base r)), (''profile'', joption (wr_profile r)),
      (''executor'', joption (wr_executor r)), (''model'', joption (wr_model r)), (''reasoning'', joption (wr_reasoning r)),
      (''permission'', JStr (wr_permission r)), (''children'', JInt (wr_children r)), (''route_class'', joption (wr_class r))]"

definition resolved_keys :: "string set" where
  "resolved_keys = {''target'', ''setup_script'', ''detection''}"

text \<open>The fields both specifications carry agree: \<open>old_public == {k: public[k] for k in old_public}\<close>.\<close>

fun same_request :: "json \<Rightarrow> (string \<times> json) list \<Rightarrow> bool" where
  "same_request (JObj kvs) public \<longleftrightarrow> list_all (\<lambda>(k, v). k \<in> resolved_keys \<or> map_of public k = Some v) kvs"
| "same_request j public \<longleftrightarrow> False"

definition new_spec :: "caller \<Rightarrow> worker_request \<Rightarrow> bool \<Rightarrow> string \<Rightarrow> (string \<times> json) list \<Rightarrow> json mesh_op" where
  "new_spec E r outer path public =
     follow (given (setup_script_of (ca_settings E path (wr_base r)))) (\<lambda>setup.
       follow (select_target E r outer) (\<lambda>target.
         let S = mg_site (ca_manager E) in
         follow (given (case ebind (trusted_policy (si_num S) (si_environ S)) (resolve_policy (wr_progress r) (wr_approval r) (wr_budget r)) of
                          Inl e \<Rightarrow> Inl (MPolicy e) | Inr p \<Rightarrow> Inr p)) (\<lambda>p.
           give (JObj (public @ [(''setup_script'', joption setup), (''target'', target), (''detection'', json_of (policy_to_dict p))])))))"

definition repo_fields :: "caller \<Rightarrow> val \<Rightarrow> merror + string \<times> string" where
  "repo_fields E repo =
     (if \<not> is_dict repo then Inl MKey
      else case vfield ''path'' repo of
        None \<Rightarrow> Inl MKey
      | Some path \<Rightarrow>
          let full = ca_resolve E (text_of (ca_pystr E) path) in
          if ephemeral_path E full then Inl (MRefused ''Repository is an ephemeral worktree'')
          else (case vfield ''id'' repo of None \<Rightarrow> Inl MKey | Some i \<Rightarrow> Inr (full, text_of (ca_pystr E) i)))"

definition prepare_spec :: "caller \<Rightarrow> string \<Rightarrow> bool \<Rightarrow> worker_request \<Rightarrow> json mesh_op" where
  "prepare_spec E sc outer r =
     follow (refused_if (spec_problem r)) (\<lambda>_. follow (resolve_repo E (wr_repo r)) (\<lambda>repo.
       follow (given (repo_fields E repo)) (\<lambda>(path, repo_id).
         let public = public_spec E r repo repo_id path in
         follow (observe (\<lambda>w. get_task sc (wr_key r) (ms_db w))) (\<lambda>existing.
           case existing of
             Some t \<Rightarrow>
               if expired_loss t then new_spec E r outer path public
               else if \<not> same_request (t_spec t) public
               then raising (MRefused ''Task already exists with a different specification'')
               else give (t_spec t)
           | None \<Rightarrow> new_spec E r outer path public))))"

subsection \<open>Batches of starts\<close>

text \<open>The worlds of the two record types: the reconciler has no account pool.\<close>

definition reconciler_state :: "mesh \<Rightarrow> dstate" where
  "reconciler_state w = \<lparr>ds_db = ms_db w, ds_esc = ms_esc w, ds_owners = ms_owners w, ds_cursor = [], ds_bytes = (\<lambda>_. None)\<rparr>"

definition sweep_admission :: "caller \<Rightarrow> unit mesh_op" where
  "sweep_admission E =
     (let S = mg_site (ca_manager E) in
      modify (\<lambda>w.
        let v = snd (sweep_losses S (reconciler_state w));
            d1 = snd (expire_reservations (si_ctx S) (ca_replies E) (si_stop_workspace S) (si_drift S) (si_now S) (si_now S) (ds_db v));
            d2 = snd (reconcile_terminal (Some (si_stop_workspace S)) (si_now S) d1)
        in w\<lparr>ms_db := d2, ms_esc := ds_esc v, ms_owners := ds_owners v\<rparr>))"

definition reissue :: "caller \<Rightarrow> string \<Rightarrow> worker_request \<times> json \<Rightarrow> unit mesh_op" where
  "reissue E sc p =
     on_db_only (reissue_expired (si_ctx (mg_site (ca_manager E))) sc (wr_key (fst p)) (snd p) (ca_now E))"

text \<open>The errors of one start that the batch reports instead of raising.\<close>

fun batch_error :: "merror \<Rightarrow> bool" where
  "batch_error (MStore e) = (store_error e \<or> (case e of UnsupportedFinish s \<Rightarrow> True | UnsupportedLiveness s \<Rightarrow> True | _ \<Rightarrow> False))"
| "batch_error (MClient e) = (is_cdesktop_error e \<or> e = CJson \<or> (case e of CValue m \<Rightarrow> True | _ \<Rightarrow> False))"
| "batch_error (MOwner e) = False"
| "batch_error (MRoute e) = False"
| "batch_error MKey = False"
| "batch_error MProfile = False"
| "batch_error (MPolicy e) = True"
| "batch_error e = True"

type_synonym 'a batch = "(string \<times> 'a) list \<times> (string \<times> merror) list"

fun start_each :: "caller \<Rightarrow> task_record list \<Rightarrow> worker batch mesh_op" where
  "start_each E [] w = (Inr ([], []), w)"
| "start_each E (t # ts) w =
     (case follow (start_reserved (ca_manager E) t) (\<lambda>active. given (worker_of active)) w of
        (Inl e, w') \<Rightarrow>
          if batch_error e then follow (start_each E ts) (\<lambda>(ks, es). give (ks, (t_key t, e) # es)) w' else (Inl e, w')
      | (Inr k, w') \<Rightarrow> follow (start_each E ts) (\<lambda>(ks, es). give ((t_key t, k) # ks, es)) w')"

definition admit_batch :: "caller \<Rightarrow> worker_request list \<Rightarrow> (string \<times> string option \<times> json list) mesh_op" where
  "admit_batch E rs =
     follow (observe (context_of E)) (\<lambda>(sc, parent).
       follow (check (case parent of None \<Rightarrow> True | Some p \<Rightarrow> t_state p = Active) (MRefused ''Task cannot start children'')) (\<lambda>_.
         follow (each_op (prepare_spec E sc (parent = None)) rs) (\<lambda>specs.
           follow (each_op (reissue E sc) (zip rs specs)) (\<lambda>_.
             follow (require_contract (ca_manager E)) (\<lambda>_. give (sc, map_option t_id parent, specs))))))"

definition start_batch :: "caller \<Rightarrow> worker_request list \<Rightarrow> worker batch mesh_op" where
  "start_batch E rs =
     follow (admit_batch E rs) (\<lambda>(sc, parent, specs).
       follow (on_db (reserve_all (ca_uuid5 E) sc parent specs max_attempts (ca_now E))) (\<lambda>rows. start_each E (map fst rows)))"

definition start_all :: "caller \<Rightarrow> worker_request list \<Rightarrow> worker batch mesh_op" where
  "start_all E rs = follow (if ca_swept E then give () else sweep_admission E) (\<lambda>_. start_batch E rs)"


subsection \<open>Wakes and cleanup after a call\<close>

definition client_failed :: "derror + 'a \<Rightarrow> 'a mesh_op" where
  "client_failed r = given (case r of Inl DClient \<Rightarrow> Inl (MClient (CFailed [])) | Inl e \<Rightarrow> Inl MKey | Inr a \<Rightarrow> Inr a)"

text \<open>The parent's ownership record is read only when the parent is live and has a holder.\<close>

definition unreadable_holder :: "wake \<Rightarrow> mesh \<Rightarrow> oerror option" where
  "unreadable_holder k w =
     (case get_by_id (w_parent k) (ms_db w) of
        None \<Rightarrow> None
      | Some p \<Rightarrow>
          if \<not> truthy (t_holder p) \<or> t_state p \<notin> live_states then None
          else (case get_owner (the (t_holder p)) (ms_owners w) of Inl e \<Rightarrow> Some e | Inr r \<Rightarrow> None))"

definition quarantine_text :: "owners \<Rightarrow> string \<Rightarrow> string option" where
  "quarantine_text rows sid =
     (case get_owner sid rows of
        Inr (Some q) \<Rightarrow> Some (''Session '' @ o_session q @ '' is '' @ (case o_state q of Retired \<Rightarrow> ''retired'' | Superseded \<Rightarrow> ''superseded'')
          @ '' ('' @ o_reason q @ '') and can never be resumed''
          @ (if truthy (o_successor q) then ''; successor is '' @ the (o_successor q) else ''; no successor recorded''))
      | _ \<Rightarrow> None)"

definition deliver_wake :: "caller \<Rightarrow> wake \<Rightarrow> bool mesh_op" where
  "deliver_wake E k =
     follow (observe (unreadable_holder k)) (\<lambda>bad.
       case bad of
         Some e \<Rightarrow> raising (MOwner e)
       | None \<Rightarrow>
           follow (observe ms_owners) (\<lambda>rows.
             on_db (\<lambda>d. ebind (deliver (quarantine_text rows) (ca_accepts E) (ca_traffic E (w_id k) False)
                                  (ca_traffic E (w_id k) True) k (ca_now E) d)
                          (\<lambda>(left, sent, d'). Inr (left, d')))))"

definition pump_wakes :: "caller \<Rightarrow> nat mesh_op" where
  "pump_wakes E =
     follow (on_db (\<lambda>d. Inr (claim (ca_token E) (ca_lease E) (ca_now E) d))) (\<lambda>claimed.
       follow (each_op (deliver_wake E) claimed) (\<lambda>outcomes. give (length (filter (\<lambda>b. b) outcomes))))"

definition clean_up :: "caller \<Rightarrow> unit mesh_op" where
  "clean_up E = modify (\<lambda>w. w\<lparr>ms_db := snd (reconcile_cleanup_intents (mg_site (ca_manager E)) (ms_db w))\<rparr>)"

subsection \<open>Ending a task\<close>

text \<open>\<open>_finish_locked\<close>: the decision keeps what it committed when it fails half-way.\<close>

definition decide_end ::
  "caller \<Rightarrow> task_record \<Rightarrow> task_state \<Rightarrow> string option \<Rightarrow> native_command list \<Rightarrow> (task_record \<times> effect option) mesh_op" where
  "decide_end E t st res cmds w =
     (let S = mg_site (ca_manager E) in
      case finish_locked (si_wid S) (si_ctx S) t st res cmds (si_now S) (ms_db w) of
        (Inl e, d) \<Rightarrow> (Inl (MStore e), w\<lparr>ms_db := d\<rparr>)
      | (Inr p, d) \<Rightarrow> (Inr p, w\<lparr>ms_db := d\<rparr>))"

definition queue_snapshot :: "caller \<Rightarrow> task_record \<Rightarrow> task_state \<Rightarrow> native_command list mesh_op" where
  "queue_snapshot E t st =
     (let S = mg_site (ca_manager E) in
      if st \<notin> terminal_states \<or> \<not> truthy (t_holder t) then give []
      else follow (opened (ca_manager E) GQueue) (\<lambda>_.
        follow (client_failed (queue_commands S (the (t_holder t)))) (\<lambda>cs. give (map (native_of (si_pystr S)) cs))))"

definition retire_ended :: "caller \<Rightarrow> task_record \<Rightarrow> task_state \<Rightarrow> unit mesh_op" where
  "retire_ended E current st =
     (if st \<notin> terminal_states \<or> \<not> truthy (t_holder current) then give ()
      else follow (on_owners (retire (the (t_holder current)) Retired (''managed task '' @ state_name st)
                     (Some (''task:'' @ t_id current @ '':'' @ show_int (t_epoch current))) (si_stamp (mg_site (ca_manager E))) (\<lambda>r. r)))
             (\<lambda>_. give ()))"

definition stop_ended :: "caller \<Rightarrow> task_record \<Rightarrow> task_state \<Rightarrow> bool \<Rightarrow> effect option \<Rightarrow> unit mesh_op" where
  "stop_ended E current st stop eff =
     (let S = mg_site (ca_manager E);
          unowned = (st \<in> terminal_states \<and> (case eff of None \<Rightarrow> False | Some e \<Rightarrow> e_workspace_id e = None)) in
      if \<not> stop \<or> \<not> truthy (t_workspace current) \<or> unowned then give ()
      else follow (opened (ca_manager E) GStop) (\<lambda>_.
        case eff of
          Some e \<Rightarrow>
            if truthy (e_workspace_id e) then on_db_only (stop_terminal (si_stop_workspace S) e (si_now S))
            else check (si_stop_workspace S (the (t_workspace current))) (MClient (CFailed []))
        | None \<Rightarrow> check (si_stop_workspace S (the (t_workspace current))) (MClient (CFailed []))))"

text \<open>What follows the decision: the workspace is stopped, and a still current task has its wakes sent.\<close>

definition wind_down :: "caller \<Rightarrow> task_record \<Rightarrow> task_state \<Rightarrow> bool \<Rightarrow> task_record \<Rightarrow> effect option \<Rightarrow> task_record mesh_op" where
  "wind_down E current st stop updated eff =
     follow (stop_ended E current st stop eff) (\<lambda>_.
       follow (observe (\<lambda>w. get_by_id (t_id current) (ms_db w))) (\<lambda>again.
         case again of
           None \<Rightarrow> give updated
         | Some c \<Rightarrow>
             if t_version c \<noteq> t_version updated then give c
             else follow (pump_wakes E) (\<lambda>_. follow (clean_up E) (\<lambda>_. give updated))))"

definition conclude :: "caller \<Rightarrow> task_record \<Rightarrow> task_state \<Rightarrow> string option \<Rightarrow> bool \<Rightarrow> task_record mesh_op" where
  "conclude E t st res stop =
     follow (queue_snapshot E t st) (\<lambda>cmds.
       follow (observe (\<lambda>w. get_by_id (t_id t) (ms_db w))) (\<lambda>found.
         case found of
           None \<Rightarrow> raising (MGone (t_key t))
         | Some current \<Rightarrow>
             follow (decide_end E t st res cmds) (\<lambda>(updated, eff).
               follow (retire_ended E current st) (\<lambda>_. wind_down E current st stop updated eff))))"

definition complete_task :: "caller \<Rightarrow> string option \<Rightarrow> string option \<Rightarrow> worker mesh_op" where
  "complete_task E summary key =
     follow (named_or_current E key) (\<lambda>t. follow (conclude E t Completed summary True) (\<lambda>r. given (worker_of r)))"

definition block_task :: "caller \<Rightarrow> string \<Rightarrow> string option \<Rightarrow> worker mesh_op" where
  "block_task E reason key =
     (if strip reason = [] then raising (MRefused ''Blocked reason must not be empty'')
      else follow (named_or_current E key) (\<lambda>t. follow (conclude E t Blocked (Some reason) False) (\<lambda>r. given (worker_of r))))"

definition cancel_task :: "caller \<Rightarrow> string \<Rightarrow> worker mesh_op" where
  "cancel_task E key =
     follow (find_worker E key) (\<lambda>t. follow (conclude E t Cancelled None True) (\<lambda>r. given (worker_of r)))"

subsection \<open>The manual replacement\<close>

definition replacement_prompt :: "caller \<Rightarrow> task_record \<Rightarrow> string \<Rightarrow> string mesh_op" where
  "replacement_prompt E t prompt =
     follow (if prompt \<noteq> [] then give (Some prompt)
             else follow (opened (ca_manager E) GCheckpoint) (\<lambda>_. given (mg_checkpoint (ca_manager E) t))) (\<lambda>p.
       case p of
         None \<Rightarrow> raising (MRefused ''Replacement requires a prompt or saved checkpoint'')
       | Some text' \<Rightarrow>
           if strip text' = [] then raising (MRefused ''Replacement requires a prompt or saved checkpoint'') else give text')"

definition replace_task :: "caller \<Rightarrow> string \<Rightarrow> string \<Rightarrow> worker mesh_op" where
  "replace_task E key prompt =
     (let M = ca_manager E in
      follow (find_worker E key) (\<lambda>t0. follow (require_contract M) (\<lambda>_. follow (find_worker E key) (\<lambda>t.
        if \<not> truthy (t_workspace t) \<or> \<not> truthy (t_holder t) then raising (MRefused ''Task has no session to replace'')
        else follow (replacement_prompt E t prompt) (\<lambda>p.
          follow (on_db (prepare_manual_replacement (held_ctx M (t_id t0)) t (held_fence M (t_id t0)) (mg_now M))) (\<lambda>prepared.
            follow (replace_prepared M prepared p) (\<lambda>r. given (worker_of r))))))))"

subsection \<open>Batches of commands\<close>

record command =
  cm_worker :: string
  cm_prompt :: string
  cm_operation :: string

definition send_key :: "command \<Rightarrow> task_record \<Rightarrow> string" where
  "send_key c t = ''task-command:'' @ t_id t @ '':'' @ show_int (t_epoch t) @ '':'' @ cm_operation c"

definition deliverable :: "string \<Rightarrow> unit mesh_op" where
  "deliverable sid = follow (observe (\<lambda>w. assert_deliverable sid (ms_owners w))) (\<lambda>r.
     given (case r of Inl e \<Rightarrow> Inl (MOwner e) | Inr u \<Rightarrow> Inr u))"

definition send_target :: "caller \<Rightarrow> command \<Rightarrow> (command \<times> task_record) mesh_op" where
  "send_target E c =
     (if strip (cm_prompt c) = [] then raising (MRefused ''Command must not be empty'')
      else follow (find_worker E (cm_worker c)) (\<lambda>t.
        if t_state t \<noteq> Active \<or> \<not> truthy (t_holder t) then raising (MRefused ''Task does not accept mail'')
        else follow (deliverable (the (t_holder t))) (\<lambda>_. give (c, t))))"

definition same_target :: "task_record \<Rightarrow> task_record \<Rightarrow> bool" where
  "same_target t c \<longleftrightarrow> t_state c = Active \<and> t_epoch c = t_epoch t \<and> t_version c = t_version t \<and> t_holder c = t_holder t"

text \<open>The claim: the outgoing row is written before the request, while the task's gate is held.\<close>

definition claim_send :: "caller \<Rightarrow> command \<Rightarrow> task_record \<Rightarrow> task_record mesh_op" where
  "claim_send E c t =
     follow (observe (\<lambda>w. get_by_id (t_id t) (ms_db w))) (\<lambda>found.
       case found of
         None \<Rightarrow> raising (MRefused ''Task is no longer active for mail'')
       | Some current \<Rightarrow>
           if \<not> same_target t current then raising (MRefused ''Task is no longer active for mail'')
           else follow (deliverable (printed (t_holder current))) (\<lambda>_.
             follow (modify (\<lambda>w. w\<lparr>ms_db := begin_outgoing_command (t_id current) (t_epoch current) (printed (t_holder current))
                                              (send_key c t) (ca_now E) (ms_db w)\<rparr>)) (\<lambda>_. give current)))"

definition answered_id :: "caller \<Rightarrow> val \<Rightarrow> string option" where
  "answered_id E v =
     (if is_dict v \<and> vget ''id'' v \<noteq> VNone then Some (text_of (ca_pystr E) (vget ''id'' v)) else None)"

definition native_of_send :: "caller \<Rightarrow> string \<Rightarrow> string \<Rightarrow> val \<Rightarrow> string option mesh_op" where
  "native_of_send E sid key v =
     (case answered_id E v of
        Some n \<Rightarrow> give (Some n)
      | None \<Rightarrow>
          follow (client_failed (queue_commands (mg_site (ca_manager E)) sid)) (\<lambda>cs.
            give (map_option dc_id (find (\<lambda>c. dc_key c = VStr key) cs))))"

definition ended_meanwhile :: "task_record \<Rightarrow> mesh \<Rightarrow> bool" where
  "ended_meanwhile current w \<longleftrightarrow>
     (case get_by_id (t_id current) (ms_db w) of
        None \<Rightarrow> False
      | Some c \<Rightarrow> t_epoch c = t_epoch current \<and> t_holder c = t_holder current \<and> t_state c \<in> terminal_states)"

definition settle_send :: "caller \<Rightarrow> task_record \<Rightarrow> string \<Rightarrow> string option \<Rightarrow> unit mesh_op" where
  "settle_send E current key native =
     follow (observe (ended_meanwhile current)) (\<lambda>ended.
       on_db_only (settle_outgoing_command (t_id current) (t_epoch current) key native ended (ca_now E)))"

definition send_one :: "caller \<Rightarrow> command \<Rightarrow> task_record \<Rightarrow> val mesh_op" where
  "send_one E c t =
     follow (claim_send E c t) (\<lambda>current.
       follow (opened (ca_manager E) GSend) (\<lambda>_.
         follow (given_client (ca_send E (printed (t_holder current)) (cm_prompt c) (send_key c t))) (\<lambda>v.
           follow (native_of_send E (printed (t_holder current)) (send_key c t) v) (\<lambda>native.
             follow (settle_send E current (send_key c t) native) (\<lambda>_. give v)))))"

text \<open>The errors of one send that the batch reports: the executor's and the manager's own.\<close>

fun send_error :: "merror \<Rightarrow> bool" where
  "send_error (MClient e) = is_cdesktop_error e"
| "send_error (MRefused m) = True"
| "send_error e = False"

fun send_each :: "caller \<Rightarrow> (command \<times> task_record) list \<Rightarrow> val batch mesh_op" where
  "send_each E [] w = (Inr ([], []), w)"
| "send_each E ((c, t) # ts) w =
     (case send_one E c t w of
        (Inl e, w') \<Rightarrow>
          if send_error e then follow (send_each E ts) (\<lambda>(vs, es). give (vs, (cm_worker c, e) # es)) w' else (Inl e, w')
      | (Inr v, w') \<Rightarrow> follow (send_each E ts) (\<lambda>(vs, es). give ((cm_worker c, v) # vs, es)) w')"

definition send_all :: "caller \<Rightarrow> command list \<Rightarrow> val batch mesh_op" where
  "send_all E cs =
     (if \<not> distinct (map cm_worker cs) then raising (MRefused ''A command batch cannot target a worker twice'')
      else follow (each_op (send_target E) cs) (\<lambda>targets.
        follow (send_each E targets) (\<lambda>r. follow (clean_up E) (\<lambda>_. give r))))"
subsection \<open>What every call keeps\<close>

text \<open>A caller whose interference is made of steps of the mesh.\<close>

definition fair_caller :: "caller \<Rightarrow> bool" where
  "fair_caller E \<longleftrightarrow> fair (ca_manager E) \<and> (\<forall>i b d. kernel_inv d \<longrightarrow> kernel_step d (ca_traffic E i b d))
     \<and> (\<forall>i d. kernel_inv d \<longrightarrow> kernel_step d (si_drift (mg_site (ca_manager E)) i d))"

lemma fair_callerD:
  assumes "fair_caller E"
  shows "fair (ca_manager E)" "kernel_inv d \<Longrightarrow> kernel_step d (ca_traffic E i b d)"
    "kernel_inv d \<Longrightarrow> kernel_step d (si_drift (mg_site (ca_manager E)) i d)"
  using assms by (auto simp: fair_caller_def)

lemma mesh_step_db: "(kernel_inv (ms_db w) \<Longrightarrow> kernel_step (ms_db w) d) \<Longrightarrow> mesh_step w (w\<lparr>ms_db := d\<rparr>)"
  by (simp add: mesh_step_def)

lemma mesh_step_inv: "mesh_step w w' \<Longrightarrow> kernel_inv (ms_db w) \<Longrightarrow> kernel_inv (ms_db w')"
  by (auto simp: mesh_step_def dest: kernel_step_inv)

lemma settle_outgoing_kernel:
  assumes "\<And>i d. kernel_inv d \<Longrightarrow> kernel_step d (si_drift S i d)" and "kernel_inv d"
  shows "kernel_step d (settle_outgoing S o' d)"
  using assms(1) [OF assms(2)]
  by (auto simp: settle_outgoing_def Let_def split: sum.splits option.splits
      intro: kernel_step_trans [OF _ settle_outgoing_step] dest: kernel_step_inv)

lemma clean_intent_kernel:
  assumes "\<And>i d. kernel_inv d \<Longrightarrow> kernel_step d (si_drift S i d)" and "kernel_inv d"
  shows "kernel_step d (snd (clean_intent S c d))"
proof -
  note s = assms(1) [OF assms(2), of "c_task_id c"]
  obtain hit d1 where r: "retry_intent S c d = (hit, d1)" by (rule prod.exhaust)
  have "kernel_step d (snd (retry_intent S c d))"
    using s by (auto simp: retry_intent_def Let_def split: cleanup_kind.split sum.split option.split
        intro: kernel_step_trans [OF s record_cleanup_intents_step [OF kernel_step_inv [OF s]]])
  then have s1: "kernel_step d d1" by (simp add: r)
  from kernel_step_trans [OF s1 acknowledge_cleanup_step [OF kernel_step_inv [OF s1]]] s1 show ?thesis
    by (cases hit) (simp_all add: clean_intent_def r)
qed

lemma clean_each_kernel:
  assumes "\<And>i d. kernel_inv d \<Longrightarrow> kernel_step d (si_drift S i d)"
  shows "kernel_inv d \<Longrightarrow> kernel_step d (snd (clean_each S cs d))"
proof (induction cs arbitrary: d)
  case (Cons c cs)
  note s = clean_intent_kernel [OF assms Cons.prems, of c]
  from kernel_step_trans [OF s Cons.IH [OF kernel_step_inv [OF s]]] show ?case by (simp add: split_beta)
qed (simp add: kernel_step_refl)

lemma reconcile_cleanup_kernel:
  assumes "\<And>i d. kernel_inv d \<Longrightarrow> kernel_step d (si_drift S i d)" and "kernel_inv d"
  shows "kernel_step d (snd (reconcile_cleanup_intents S d))"
proof -
  let ?d1 = "foldl (\<lambda>d o'. settle_outgoing S o' d) d (unresolved_terminal_outgoing_commands d)"
  have s: "kernel_step d ?d1" by (rule kernel_step_foldl [OF assms(2) settle_outgoing_kernel [OF assms(1)]])
  from kernel_step_trans [OF s clean_each_kernel [OF assms(1) kernel_step_inv [OF s]]] show ?thesis
    by (simp add: reconcile_cleanup_intents_def Let_def)
qed

lemma keeps_clean_up [mesh_keeps]: "fair_caller E \<Longrightarrow> keeps mesh_step (clean_up E)"
  unfolding clean_up_def by (intro keeps_modify mesh_step_db reconcile_cleanup_kernel) (auto dest: fair_callerD(3))

text \<open>The pump: every claimed wake stays a row of its parent and predicate while the others write.\<close>

definition other_parts :: "mesh \<Rightarrow> mesh \<Rightarrow> bool" where
  "other_parts w w' \<longleftrightarrow> ms_owners w' = ms_owners w \<and> ms_pool w' = ms_pool w \<and> ms_calls w' = ms_calls w \<and> ms_esc w' = ms_esc w"

lemma other_parts_preorder: "preorder other_parts"
  by (simp add: preorder_def reflp_def transp_def other_parts_def)

lemma other_parts_on_db: "keeps other_parts (on_db f)"
  by (rule keepsI) (auto simp: on_db_def other_parts_def split: sum.splits)

lemmas other_parts_keeps = keeps_basic [OF other_parts_preorder] keeps_follow [OF other_parts_preorder]
  keeps_each [OF other_parts_preorder] keeps_option other_parts_on_db

lemma deliver_wake_frame: "keeps other_parts (deliver_wake E k)"
  unfolding deliver_wake_def by (intro other_parts_keeps)

lemma pump_wakes_frame: "keeps other_parts (pump_wakes E)"
  unfolding pump_wakes_def by (intro other_parts_keeps deliver_wake_frame)

lemma deliver_wake_step:
  assumes "deliver_wake E k w = (r, w')" and "fair_caller E" and "kernel_inv (ms_db w)" and "wake_current k (ms_db w)"
  shows "kernel_step (ms_db w) (ms_db w')"
proof -
  let ?run = "deliver (quarantine_text (ms_owners w)) (ca_accepts E) (ca_traffic E (w_id k) False)
      (ca_traffic E (w_id k) True) k (ca_now E) (ms_db w)"
  show ?thesis
  proof (cases "unreadable_holder k w")
    case None
    show ?thesis
    proof (cases ?run)
      case (Inl e)
      with None assms(1) kernel_step_refl [OF assms(3)] show ?thesis by (simp add: deliver_wake_def follow_def on_db_def)
    next
      case (Inr p)
      obtain left sent d where "p = (left, sent, d)" by (rule prod_cases3)
      with Inr have run: "?run = Inr (left, sent, d)" by simp
      with None assms(1) have "ms_db w' = d" by (auto simp: deliver_wake_def follow_def on_db_def)
      with deliver_step [OF run assms(3,4) fair_callerD(2,2) [OF assms(2)]] show ?thesis by simp
    qed
  next
    case (Some e)
    with assms(1) kernel_step_refl [OF assms(3)] show ?thesis by (simp add: deliver_wake_def follow_def)
  qed
qed

lemma deliver_wakes_step:
  assumes "each_op (deliver_wake E) ks w = (r, w')" and "fair_caller E" and "kernel_inv (ms_db w)"
    and "\<forall>k \<in> set ks. wake_current k (ms_db w)"
  shows "kernel_step (ms_db w) (ms_db w')"
  using assms(1,3,4)
proof (induction ks arbitrary: w r w')
  case Nil
  then show ?case by (simp add: kernel_step_refl)
next
  case (Cons k ks)
  obtain q v where q: "deliver_wake E k w = (q, v)" by (rule prod.exhaust)
  from deliver_wake_step [OF q assms(2) Cons.prems(2)] Cons.prems(3) have s: "kernel_step (ms_db w) (ms_db v)" by auto
  obtain q2 v2 where q2: "each_op (deliver_wake E) ks v = (q2, v2)" by (rule prod.exhaust)
  have "\<forall>k \<in> set ks. wake_current k (ms_db v)" using Cons.prems(3) wake_current_mono [OF _ s] by auto
  from Cons.IH [OF q2 _ this] kernel_step_inv [OF s] have "kernel_step (ms_db v) (ms_db v2)" by simp
  from kernel_step_trans [OF s this] s
  show ?case using Cons.prems(1) q q2 by (auto simp: follow_def split: sum.splits)
qed

lemma keeps_pump_wakes [mesh_keeps]:
  assumes "fair_caller E"
  shows "keeps mesh_step (pump_wakes E)"
proof (rule keepsI)
  fix w r w'
  assume run: "pump_wakes E w = (r, w')"
  obtain claimed d where c: "claim (ca_token E) (ca_lease E) (ca_now E) (ms_db w) = (claimed, d)" by (rule prod.exhaust)
  let ?w1 = "w\<lparr>ms_db := d\<rparr>"
  obtain q v where q: "each_op (deliver_wake E) claimed ?w1 = (q, v)" by (rule prod.exhaust)
  from run c q have w': "w' = v" by (auto simp: pump_wakes_def follow_def on_db_def split: sum.splits)
  have "kernel_step (ms_db w) (ms_db w')" if inv: "kernel_inv (ms_db w)"
  proof -
    note s = claim_step [OF c inv]
    have "\<forall>k \<in> set claimed. wake_current k (ms_db ?w1)" using claim_each_current [OF c [unfolded claim_def]] by simp
    with deliver_wakes_step [OF q assms] kernel_step_inv [OF s] have "kernel_step d (ms_db v)" by simp
    with kernel_step_trans [OF s] show ?thesis by (simp add: w')
  qed
  with keepsD [OF pump_wakes_frame run] show "mesh_step w w'" by (auto simp: mesh_step_def other_parts_def)
qed

text \<open>The calls that end a task.\<close>

lemma finish_locked_step:
  assumes "finish_locked wid x t st res cmds now d = (r, d')" and inv: "kernel_inv d"
  shows "kernel_step d d'"
proof (cases "get_by_id (t_id t) d")
  case None
  with assms show ?thesis by (auto simp: finish_locked_def kernel_step_refl)
next
  case (Some current)
  let ?d1 = "if st \<in> terminal_states \<and> t_holder current = t_holder t then fence_terminal current cmds now d else d"
  have s1: "kernel_step d ?d1" using fence_terminal_step [OF inv] by (simp add: kernel_step_refl [OF inv])
  let ?fin = "sdk_finish wid (lock_ctx (t_id t) x) (t_id current) st res False (lock_fence (t_id t) x) now ?d1"
  show ?thesis
  proof (cases ?fin)
    case (Inl e)
    with assms(1) Some s1 show ?thesis by (simp add: finish_locked_def Let_def)
  next
    case (Inr p)
    then obtain updated d2 where fin: "?fin = Inr (updated, d2)" by (cases p) simp
    note s2 = kernel_step_trans [OF s1 sdk_finish_step [OF fin kernel_step_inv [OF s1]]]
    from assms(1) Some fin consider "d' = d2" | eff where
      "mark_terminal (t_id current) (t_epoch current) (state_name st) None now d2 = Inr (eff, d')"
      by (auto simp: finish_locked_def Let_def split: option.splits if_splits sum.splits)
    then show ?thesis
    proof cases
      case 2
      from mark_steps(2) [OF kernel_step_inv [OF s2] 2] s2 show ?thesis by (blast intro: kernel_step_trans)
    qed (simp add: s2)
  qed
qed

lemma keeps_decide [mesh_keeps]: "keeps mesh_step (decide_end E t st res cmds)"
  by (rule keepsI) (auto simp: decide_end_def Let_def intro!: mesh_step_db finish_locked_step split: prod.splits sum.splits)

lemma keeps_client_failed [mesh_keeps]: "keeps mesh_step (client_failed r)"
  unfolding client_failed_def by (rule mesh_keeps)

lemma keeps_snapshot [mesh_keeps]: "fair_caller E \<Longrightarrow> keeps mesh_step (queue_snapshot E t st)"
  unfolding queue_snapshot_def Let_def by (intro mesh_keeps fair_callerD(1))

lemma keeps_retire_ended [mesh_keeps]: "keeps mesh_step (retire_ended E current st)"
  unfolding retire_ended_def by (intro mesh_keeps)

lemma keeps_stop_ended [mesh_keeps]: "fair_caller E \<Longrightarrow> keeps mesh_step (stop_ended E current st stop eff)"
  unfolding stop_ended_def Let_def by (intro mesh_keeps fair_callerD(1))

lemma keeps_wind_down [mesh_keeps]: "fair_caller E \<Longrightarrow> keeps mesh_step (wind_down E current st stop updated eff)"
  unfolding wind_down_def by (intro mesh_keeps)

lemma keeps_conclude [mesh_keeps]: "fair_caller E \<Longrightarrow> keeps mesh_step (conclude E t st res stop)"
  unfolding conclude_def by (intro mesh_keeps)

lemma keeps_find [mesh_keeps]:
  "keeps mesh_step (find_worker E key)" "keeps mesh_step (current_task E)" "keeps mesh_step (named_or_current E k)"
  unfolding find_worker_def current_task_def named_or_current_def by (intro mesh_keeps)+

text \<open>The manual replacement and the batches.\<close>
lemma keeps_deliverable [mesh_keeps]: "keeps mesh_step (deliverable sid)"
  unfolding deliverable_def by (intro mesh_keeps)

lemma keeps_send_target [mesh_keeps]: "keeps mesh_step (send_target E c)"
  unfolding send_target_def by (intro mesh_keeps)

lemma keeps_claim_send [mesh_keeps]: "keeps mesh_step (claim_send E c t)"
  unfolding claim_send_def by (intro mesh_keeps keeps_modify mesh_step_db begin_outgoing_step)

lemma keeps_send_one [mesh_keeps]: "fair_caller E \<Longrightarrow> keeps mesh_step (send_one E c t)"
  unfolding send_one_def native_of_send_def settle_send_def
  by (intro mesh_keeps keeps_on_db_only fair_callerD(1)) (assumption | rule settle_outgoing_step)+

text \<open>A batch: each item's errors are reported, and only the others end it.\<close>

fun batch_of :: "('i \<Rightarrow> 'a mesh_op) \<Rightarrow> ('i \<Rightarrow> string) \<Rightarrow> (merror \<Rightarrow> bool) \<Rightarrow> 'i list \<Rightarrow> 'a batch mesh_op" where
  "batch_of f key reports [] w = (Inr ([], []), w)"
| "batch_of f key reports (x # xs) w =
     (case f x w of
        (Inl e, w') \<Rightarrow>
          if reports e then follow (batch_of f key reports xs) (\<lambda>(ks, es). give (ks, (key x, e) # es)) w' else (Inl e, w')
      | (Inr k, w') \<Rightarrow> follow (batch_of f key reports xs) (\<lambda>(ks, es). give ((key x, k) # ks, es)) w')"

lemma start_each_batch:
  "start_each E ts = batch_of (\<lambda>t. follow (start_reserved (ca_manager E) t) (\<lambda>active. given (worker_of active))) t_key batch_error ts"
proof
  show "start_each E ts w = batch_of (\<lambda>t. follow (start_reserved (ca_manager E) t) (\<lambda>active. given (worker_of active))) t_key batch_error ts w" for w
    by (induction ts arbitrary: w) (simp_all add: follow_def split: prod.split sum.split)
qed

lemma send_each_batch: "send_each E ts = batch_of (\<lambda>(c, t). send_one E c t) (\<lambda>(c, t). cm_worker c) send_error ts"
proof
  show "send_each E ts w = batch_of (\<lambda>(c, t). send_one E c t) (\<lambda>(c, t). cm_worker c) send_error ts w" for w
    by (induction ts arbitrary: w) (auto simp: follow_def split: prod.split sum.split)
qed

text \<open>What one item leaves, and the rest of the batch after it.\<close>

lemma batch_ConsE:
  assumes "batch_of f key reports (x # xs) w = (r, w')"
  obtains (ends) e where "f x w = (Inl e, w')" "\<not> reports e" "r = Inl e"
    | (goes) q v r' where "f x w = (q, v)" "batch_of f key reports xs v = (r', w')" "\<And>e. q = Inl e \<Longrightarrow> reports e"
        "\<And>e. r' = Inl e \<Longrightarrow> r = Inl e"
        "\<And>ks es. r' = Inr (ks, es) \<Longrightarrow> r = Inr (case q of Inl e \<Rightarrow> (ks, (key x, e) # es) | Inr k \<Rightarrow> ((key x, k) # ks, es))"
proof -
  obtain q v where q: "f x w = (q, v)" by (rule prod.exhaust)
  obtain r' v' where rest: "batch_of f key reports xs v = (r', v')" by (rule prod.exhaust)
  show thesis
  proof (cases "\<exists>e. q = Inl e \<and> \<not> reports e")
    case True
    with q assms ends show thesis by auto
  next
    case False
    have "v' = w'" using assms q rest False by (auto simp: follow_def split: sum.splits if_splits)
    with q rest False assms goes [of q v r'] show thesis by (auto simp: follow_def split: sum.splits if_splits prod.splits)
  qed
qed

lemma keeps_batch:
  assumes "\<And>x. keeps mesh_step (f x)"
  shows "keeps mesh_step (batch_of f key reports xs)"
proof (rule keepsI)
  show "mesh_step w w'" if "batch_of f key reports xs w = (r, w')" for w r w'
    using that
  proof (induction xs arbitrary: w r)
    case (Cons x xs)
    from Cons.prems show ?case
    proof (cases rule: batch_ConsE)
      case (ends e)
      from keepsD [OF assms ends(1)] show ?thesis .
    next
      case (goes q v r')
      from mesh_step_trans [OF keepsD [OF assms goes(1)] Cons.IH [OF goes(2)]] show ?thesis .
    qed
  qed simp
qed

lemma keeps_start_each [mesh_keeps]: "fair_caller E \<Longrightarrow> keeps mesh_step (start_each E ts)"
  unfolding start_each_batch by (rule keeps_batch) (intro mesh_keeps fair_callerD(1))

lemma keeps_send_all [mesh_keeps]: "fair_caller E \<Longrightarrow> keeps mesh_step (send_all E cs)"
  unfolding send_all_def send_each_batch by (intro mesh_keeps keeps_batch)

lemma reissue_kernel:
  assumes "reissue_expired x sc ky spec now d = Inr d'" and "kernel_inv d"
  shows "kernel_step d d'"
  using assms reissue_lifecycle [OF _ kernel_inv_ok [OF assms(2)], THEN kernel_step_lifecycle, OF _ assms(2)]
  by (auto simp: reissue_expired_def Let_def kernel_step_refl expired_loss_def split: option.splits if_splits sum.splits)

lemma keeps_start_parts [mesh_keeps]:
  "keeps mesh_step (resolve_repo E name)" "keeps mesh_step (profile_target E r cls pname)"
  "keeps mesh_step (routed_target E r sel)" "keeps mesh_step (from_routing res)" "keeps mesh_step (refused_if p)"
  "keeps mesh_step (reissue E sc q)"
proof -
  show "keeps mesh_step (resolve_repo E name)"
    unfolding resolve_repo_def Let_def by (intro mesh_keeps) (simp_all split: list.split add: mesh_keeps)
  show "keeps mesh_step (profile_target E r cls pname)" unfolding profile_target_def by (intro mesh_keeps)
  show "keeps mesh_step (routed_target E r sel)" unfolding routed_target_def by (intro mesh_keeps)
  show "keeps mesh_step (from_routing res)" unfolding from_routing_def by (intro mesh_keeps)
  show "keeps mesh_step (refused_if p)" unfolding refused_if_def by (intro mesh_keeps)
  show "keeps mesh_step (reissue E sc q)" unfolding reissue_def by (intro keeps_on_db_only) (rule reissue_kernel)
qed

lemma keeps_select_target [mesh_keeps]: "keeps mesh_step (select_target E r outer)"
  unfolding select_target_def by (intro mesh_keeps)

lemma keeps_new_spec [mesh_keeps]: "keeps mesh_step (new_spec E r outer path public)"
  unfolding new_spec_def Let_def by (intro mesh_keeps)

lemma keeps_prepare_spec [mesh_keeps]: "keeps mesh_step (prepare_spec E sc outer r)"
  unfolding prepare_spec_def Let_def by (intro mesh_keeps)

lemma keeps_reserve_all [mesh_keeps]: "keeps mesh_step (on_db (reserve_all uuid5 sc parent specs m now))"
  by (rule keeps_on_db) (rule reserve_all_step)

lemma keeps_admit [mesh_keeps]: "keeps mesh_step (admit_batch E rs)"
  unfolding admit_batch_def by (intro mesh_keeps)

lemma keeps_start_batch [mesh_keeps]: "fair_caller E \<Longrightarrow> keeps mesh_step (start_batch E rs)"
  unfolding start_batch_def by (intro mesh_keeps)
subsection \<open>Batches start each worker once\<close>

lemma rings_start_reserved: "rings ({t_id t} \<times> UNIV) (start_reserved M t)"
proof -
  have launch: "rings {(t_id c, t_epoch c)} (follow (journaled_launch M c l) (\<lambda>(ws, sid). activate_launched M c ws sid))" for c l
    by (intro rings_after rings_journaled) (auto intro: quiet_keeps)
  have reload: "rings S (reloaded_or c)" for S c
    unfolding reloaded_or_def by (intro quiet_rings quiet_keeps)
  have second: "rings {(t_id c, t_epoch c)} (follow (observe (still_reserved c)) (\<lambda>same.
      if \<not> same then reloaded_or c
      else follow (journaled_launch M c l) (\<lambda>(ws, sid). activate_launched M c ws sid)))" for c l
    by (rule rings_before, rule quiet_keeps) (rule rings_if [OF reload launch])
  have first: "rings {(t_id c, t_epoch c)} (follow (observe (still_reserved c)) (\<lambda>same.
      if \<not> same then reloaded_or c
      else follow (wait_for_capacity M c) (\<lambda>_. follow (observe (still_reserved c)) (\<lambda>same.
        if \<not> same then reloaded_or c
        else follow (journaled_launch M c l) (\<lambda>(ws, sid). activate_launched M c ws sid)))))" for c l
    by (rule rings_before, rule quiet_keeps) (rule rings_if [OF reload rings_before [OF quiet_wait second]])
  have locked: "rings {(t_id c, t_epoch c)} (start_reserved_locked M c)" for c
  proof (cases "jneed ''prompt'' (t_spec c)")
    case (Inl e)
    then show ?thesis unfolding start_reserved_locked_def by (simp, intro impI conjI quiet_rings quiet_keeps)
  next
    case (Inr prompt)
    show ?thesis unfolding start_reserved_locked_def Inr sum.case
      by (rule rings_if) (rule quiet_rings, rule quiet_keeps, rule rings_before [OF quiet_workspace_request first])
  qed
  have "rings ({t_id t} \<times> UNIV) (start_reserved_locked M c)" if "get_by_id (t_id t) d = Some c" for c d
    by (rule rings_mono [OF locked]) (use get_by_id_id [OF that] in auto)
  then show ?thesis
    unfolding start_reserved_def by (intro rings_before rings_option quiet_keeps) (auto intro: quiet_rings quiet_keeps)
qed

lemma batch_calls:
  assumes "\<And>x. rings ({g x} \<times> UNIV) (f x)"
  shows "batch_of f key reports xs w = (r, w') \<Longrightarrow> distinct (map g xs)
    \<Longrightarrow> \<exists>new. ms_calls w' = ms_calls w @ new \<and> distinct (map fst new) \<and> fst ` set new \<subseteq> g ` set xs"
proof (induction xs arbitrary: w r)
  case (Cons x xs)
  obtain q v where q: "f x w = (q, v)" by (rule prod.exhaust)
  from ringsD [OF assms q] obtain one where one: "ms_calls v = ms_calls w @ one" "one = [] \<or> (\<exists>e. one = [(g x, e)])" by auto
  from Cons.prems(1) show ?case
  proof (cases rule: batch_ConsE)
    case (ends e)
    with q one show ?thesis by auto
  next
    case (goes q' v' r')
    from Cons.IH [OF goes(2)] Cons.prems(2) goes(1) q obtain new where new: "ms_calls w' = ms_calls v @ new"
      "distinct (map fst new)" "fst ` set new \<subseteq> g ` set xs" by auto
    have "g x \<notin> fst ` set new" using new(3) Cons.prems(2) by auto
    with one(2) new(2,3) have "distinct (map fst (one @ new))" "fst ` set (one @ new) \<subseteq> g ` set (x # xs)" by (auto simp: image_iff)
    with one(1) new(1) show ?thesis by auto
  qed
qed simp

lemma batch_reports:
  "batch_of f key reports xs w = (Inr (ks, es), w') \<Longrightarrow>
     mset (map fst ks) + mset (map fst es) = mset (map key xs) \<and> list_all (\<lambda>(k, e). reports e) es"
proof (induction xs arbitrary: w ks es)
  case (Cons x xs)
  from Cons.prems show ?case
  proof (cases rule: batch_ConsE)
    case (goes q v r')
    obtain ks' es' where r': "r' = Inr (ks', es')" using goes(4) by (cases r') auto
    from goes(5) [OF this] goes(3) Cons.IH [OF goes(2) [unfolded r']] show ?thesis by (cases q) auto
  qed simp
qed simp

text \<open>The keys of the specifications of one batch are those of the requests.\<close>

lemma same_request_key: "same_request j public \<Longrightarrow> jget k j = Some v \<Longrightarrow> k \<notin> resolved_keys \<Longrightarrow> map_of public k = Some v"
  by (cases j) (auto simp: list_all_iff dest: map_of_SomeD)

lemma public_key: "map_of (public_spec E r repo i path) ''key'' = Some (JStr (wr_key r))"
  by (simp add: public_spec_def)

text \<open>Preparing a specification writes nothing.\<close>

lemma same_preorder: "preorder (=)"
  by (simp add: preorder_def reflp_def transp_def)

lemmas same_keeps = keeps_basic [OF same_preorder] keeps_follow [OF same_preorder] keeps_if keeps_option keeps_sum keeps_prod

lemma select_target_reads: "keeps (=) (select_target E r outer)"
proof -
  have p: "keeps (=) (profile_target E r cls name)" for cls name
    unfolding profile_target_def given_client_def by (intro same_keeps)
  have d: "keeps (=) (default_provider_id M)" for M
    unfolding default_provider_id_def given_client_def by (intro same_keeps) (simp_all split: list.split add: same_keeps)
  have t: "keeps (=) (routed_target E r sel)" for sel
    unfolding routed_target_def by (intro same_keeps d)
  show ?thesis unfolding select_target_def from_routing_def by (intro same_keeps p t)
qed

lemma new_spec_form:
  assumes "new_spec E r outer path public w = (Inr s, w')"
  obtains extra where "s = JObj (public @ extra)" "map fst extra = [''setup_script'', ''target'', ''detection'']" "w' = w"
proof -
  from assms obtain script target w1 p where t: "select_target E r outer w = (Inr target, w1)"
    and s: "s = JObj (public @ [(''setup_script'', joption script), (''target'', target), (''detection'', json_of (policy_to_dict p))])" "w' = w1"
    unfolding new_spec_def Let_def by (auto simp: follow_eq_Inr given_def)
  from keepsD [OF select_target_reads t] s that show thesis by simp
qed

text \<open>A prepared specification names the worker the request names.\<close>

lemma prepared_cases:
  assumes "prepare_spec E sc outer r w = (Inr s, w')"
  obtains (new) repo path i w1 where "repo_fields E repo = Inr (path, i)" "resolve_repo E (wr_repo r) w = (Inr repo, w1)"
      "new_spec E r outer path (public_spec E r repo i path) w1 = (Inr s, w')"
    | (stored) repo path i t where "get_task sc (wr_key r) (ms_db w') = Some t" "same_request (t_spec t) (public_spec E r repo i path)" "s = t_spec t"
proof -
  from assms obtain repo w1 path i where r: "resolve_repo E (wr_repo r) w = (Inr repo, w1)" "repo_fields E repo = Inr (path, i)"
    and rest: "(case get_task sc (wr_key r) (ms_db w1) of
             Some t \<Rightarrow>
               if expired_loss t then new_spec E r outer path (public_spec E r repo i path)
               else if \<not> same_request (t_spec t) (public_spec E r repo i path)
               then raising (MRefused ''Task already exists with a different specification'')
               else give (t_spec t)
           | None \<Rightarrow> new_spec E r outer path (public_spec E r repo i path)) w1 = (Inr s, w')"
    unfolding prepare_spec_def Let_def
    by (auto simp: follow_eq_Inr given_def refused_if_def split: option.splits)
  show thesis
  proof (cases "get_task sc (wr_key r) (ms_db w1)")
    case None
    with rest r new show thesis by simp
  next
    case (Some t)
    with rest r new stored [of t repo i path] show thesis by (simp split: if_splits)
  qed
qed

lemma prepare_spec_key:
  assumes "prepare_spec E sc outer r w = (Inr s, w')" and "spec_key s = Inr k"
  shows "k = wr_key r"
proof -
  have text_key: "k = wr_key r" if "jget ''key'' s = Some (JStr (wr_key r))" using assms(2) that by simp
  from assms(1) show ?thesis
  proof (cases rule: prepared_cases)
    case (new repo path i w1)
    then obtain extra where "s = JObj (public_spec E r repo i path @ extra)" by (blast elim: new_spec_form)
    with public_key [of E r repo i path] text_key show ?thesis by simp
  next
    case (stored repo path i t)
    from assms(2) obtain v where v: "jget ''key'' s = Some v" by (simp split: option.splits)
    with same_request_key [OF stored(2), of "''key''" v] stored(3) public_key [of E r repo i path]
    have "v = JStr (wr_key r)" by (simp add: resolved_keys_def)
    with v text_key show ?thesis by simp
  qed
qed

lemma reserved_distinct:
  assumes "reserve_all uuid5 sc parent specs m now d = Inr (rs, d')" and "db_ok d"
  shows "distinct (map (t_id \<circ> fst) rs) \<and> (specs \<noteq> [] \<longrightarrow> spec_keys specs = Inr (map (t_key \<circ> fst) rs)) \<and> (specs = [] \<longrightarrow> rs = [])
     \<and> distinct (map (t_key \<circ> fst) rs)"
proof (cases "specs = []")
  case True
  with assms(1) show ?thesis by (simp add: reserve_all_def)
next
  case False
  from assms(1) False obtain keys where k: "spec_keys specs = Inr keys" "distinct keys"
    "reserve_rows uuid5 sc parent m now specs d = Inr (rs, d')" by (rule reserve_allE)
  from reserve_rows_appends [OF k(3) assms(2) k(1,2)] have ok: "db_ok d'" and res: "list_all2 (reservation_of sc d d') specs rs"
    by auto
  have key: "t_key (fst x) = kk \<and> (\<exists>row \<in> set (db_tasks d'). fst x = decode_task row)"
    if "reservation_of sc d d' s x" "spec_key s = Inr kk" for s x kk
    using that by (auto simp: reservation_of_def find_task_by_key_def decode_task_def task_record.defs
        simp del: spec_key.simps dest: lookup_by_SomeD)
  have keys: "spec_keys sp = Inr ks \<Longrightarrow> list_all2 (reservation_of sc d d') sp xs \<Longrightarrow> map (t_key \<circ> fst) xs = ks
      \<and> (\<forall>x \<in> set xs. \<exists>row \<in> set (db_tasks d'). fst x = decode_task row)" for sp ks xs
  proof (induction sp arbitrary: ks xs)
    case (Cons s sp)
    from Cons.prems(2) obtain x ys where xs: "xs = x # ys" "reservation_of sc d d' s x" "list_all2 (reservation_of sc d d') sp ys"
      by (auto simp: list_all2_Cons1)
    from Cons.prems(1) obtain kk kss where ks: "spec_key s = Inr kk" "spec_keys sp = Inr kss" "ks = kk # kss"
      by (auto simp del: spec_key.simps)
    from key [OF xs(2) ks(1)] Cons.IH [OF ks(2) xs(3)] xs(1) ks(3) show ?case by simp
  qed simp
  from keys [OF k(1) res] have m: "map (t_key \<circ> fst) rs = keys" and rows: "\<forall>x \<in> set rs. \<exists>row \<in> set (db_tasks d'). fst x = decode_task row"
    by auto
  have "inj_on (t_id \<circ> fst) (set rs)"
  proof (rule inj_onI)
    fix x y
    assume x: "x \<in> set rs" and y: "y \<in> set rs" and same: "(t_id \<circ> fst) x = (t_id \<circ> fst) y"
    from rows x y obtain a b where ab: "a \<in> set (db_tasks d')" "b \<in> set (db_tasks d')" "fst x = decode_task a" "fst y = decode_task b"
      by blast
    with same have "t_id a = t_id b" by (simp add: decode_task_def task_record.defs)
    with db_ok_task_ids [OF ok] ab(1,2) have "a = b" by (auto simp: distinct_map dest: inj_onD)
    with ab have "(t_key \<circ> fst) x = (t_key \<circ> fst) y" by simp
    moreover have "inj_on (t_key \<circ> fst) (set rs)" using m k(2) by (auto simp: distinct_map)
    ultimately show "x = y" using x y by (blast dest: inj_onD)
  qed
  moreover have "distinct rs" using m k(2) by (metis distinct_map)
  ultimately show ?thesis using m k(1,2) False by (simp add: distinct_map)
qed

lemma specs_keys:
  assumes "each_op (prepare_spec E sc outer) rs w = (Inr specs, w')" and "spec_keys specs = Inr keys"
  shows "keys = map wr_key rs"
  using assms
proof (induction rs arbitrary: w w' specs keys)
  case (Cons r rs)
  from Cons.prems(1) obtain s ss v v' where s: "prepare_spec E sc outer r w = (Inr s, v)" "each_op (prepare_spec E sc outer) rs v = (Inr ss, v')"
    "specs = s # ss" by (auto simp: follow_eq_Inr)
  from Cons.prems(2) s(3) obtain k ks where k: "spec_key s = Inr k" "spec_keys ss = Inr ks" "keys = k # ks"
    by (auto split: sum.splits simp del: spec_key.simps)
  from Cons.IH [OF s(2) k(2)] prepare_spec_key [OF s(1) k(1)] k(3) show ?case by simp
qed simp
lemma quiet_admit [quiet_keeps]: "keeps quiet (admit_batch E rs)"
proof -
  note target = select_target_reads
  have quiet_same: "keeps quiet m" if "keeps (=) m" for m :: "'a mesh_op"
    using that by (auto simp: keeps_def quiet_def)
  have spec: "keeps quiet (new_spec E r outer path public)" for r outer path public
    unfolding new_spec_def Let_def by (intro quiet_keeps quiet_same [OF target])
  have repo: "keeps quiet (resolve_repo E name)" for name
    unfolding resolve_repo_def Let_def by (intro quiet_keeps) (simp_all split: list.split add: quiet_keeps)
  have "keeps quiet (prepare_spec E sc outer r)" for sc outer r
    unfolding prepare_spec_def Let_def refused_if_def by (intro quiet_keeps spec repo)
  moreover have "keeps quiet (reissue E sc q)" for sc q
    unfolding reissue_def on_db_only_def by (intro quiet_keeps)
  ultimately show ?thesis
    unfolding admit_batch_def by (intro quiet_keeps keeps_each [OF quiet_preorder])
qed

lemma admitted_keys:
  assumes "admit_batch E rs w = (Inr (sc, parent, specs), v)" and "spec_keys specs = Inr keys"
  shows "keys = map wr_key rs"
proof -
  from assms(1) obtain outer w1 v1 where "each_op (prepare_spec E sc outer) rs w1 = (Inr specs, v1)"
    unfolding admit_batch_def by (auto simp: follow_eq_Inr split: prod.splits)
  from specs_keys [OF this assms(2)] show ?thesis .
qed

definition sample_request :: worker_request where
  "sample_request = \<lparr>wr_key = ''a'', wr_prompt = ''do it'', wr_repo = ''r'', wr_base = ''main'', wr_profile = None,
     wr_executor = Some ''CODEX'', wr_model = None, wr_reasoning = None, wr_permission = ''PLAN'', wr_children = 0,
     wr_class = None, wr_progress = VNone, wr_approval = VNone, wr_budget = None\<rparr>"

definition sample_repo :: val where
  "sample_repo = VDict [(''id'', VStr ''r1''), (''name'', VStr ''r''), (''path'', VStr ''/r'')]"

definition sample_caller :: caller where
  "sample_caller = \<lparr>ca_manager = sample_manager, ca_session = None, ca_swept = True, ca_is_dir = (\<lambda>_. True), ca_resolve = id,
     ca_basename = id, ca_fold = id, ca_register = (\<lambda>_. Inr sample_repo), ca_repos = Inr [sample_repo],
     ca_settings = (\<lambda>_ _. None), ca_profiles = NoRegistry, ca_uuid5 = id,
     ca_send = (\<lambda>_ _ _. Inr (VDict [(''id'', VStr ''n1'')])), ca_accepts = (\<lambda>_. True), ca_traffic = (\<lambda>_ _ d. d),
     ca_token = id, ca_lease = 60, ca_replies = (\<lambda>_ _. None)\<rparr>"


definition routed_caller :: caller where
  "routed_caller = sample_caller\<lparr>ca_manager := sample_manager\<lparr>mg_settings := Inr sample_settings\<rparr>\<rparr>"

lemma routed_class: "\<exists>dec. resolve_class sample_settings sample_view \<lparr>k_class = None, k_top_level = True, k_children = 0\<rparr> = Inr dec
   \<and> v_valid (d_validation dec)"
proof -
  have "(case resolve_class sample_settings sample_view \<lparr>k_class = None, k_top_level = True, k_children = 0\<rparr> of
     Inl e \<Rightarrow> False | Inr dec \<Rightarrow> v_valid (d_validation dec))" by code_simp
  then show ?thesis by (simp split: sum.splits)
qed
definition public_keys :: "string list" where
  "public_keys = [''key'', ''prompt'', ''repo'', ''repo_id'', ''repo_path'', ''base'', ''profile'', ''executor'', ''model'',
     ''reasoning'', ''permission'', ''children'', ''route_class'']"

lemma public_keys: "map fst (public_spec E r repo i path) = public_keys" "distinct public_keys" "set public_keys \<inter> resolved_keys = {}"
proof -
  show "map fst (public_spec E r repo i path) = public_keys" by (simp add: public_spec_def public_keys_def)
  show "distinct public_keys" "set public_keys \<inter> resolved_keys = {}" unfolding public_keys_def resolved_keys_def by code_simp+
qed

lemma public_canonical: "(k, v) \<in> set (public_spec E r repo i path) \<Longrightarrow> jcanon v = v"
proof -
  have "list_all (\<lambda>p. jcanon (snd p) = snd p) (public_spec E r repo i path)"
    by (simp add: public_spec_def joption_def split: option.split)
  then show "(k, v) \<in> set (public_spec E r repo i path) \<Longrightarrow> jcanon v = v" by (auto simp: list_all_iff)
qed

lemma same_entries:
  assumes "map fst xs = map fst ys" and "distinct (map fst ys)"
  shows "(\<forall>(k, v) \<in> set ys. map_of xs k = Some v) \<longleftrightarrow> xs = ys"
proof
  have entries: "map (\<lambda>k. (k, the (map_of zs k))) (map fst zs) = zs" if "distinct (map fst zs)" for zs :: "('a \<times> 'b) list"
    unfolding map_map by (rule map_idI) (use that in auto)
  assume same: "\<forall>(k, v) \<in> set ys. map_of xs k = Some v"
  have "map_of ys k = map_of xs k" if "k \<in> set (map fst ys)" for k
  proof -
    from that obtain v where v: "(k, v) \<in> set ys" by auto
    with same map_of_is_SomeI [OF assms(2) v] show ?thesis by auto
  qed
  then have "map (\<lambda>k. (k, the (map_of xs k))) (map fst xs) = map (\<lambda>k. (k, the (map_of ys k))) (map fst ys)"
    unfolding assms(1) by simp
  with entries [of xs] entries [of ys] assms show "xs = ys" by metis
qed (use assms in auto)

lemma same_request_public:
  assumes "map fst extra = [''setup_script'', ''target'', ''detection'']"
  shows "same_request (jcanon (JObj (public_spec E r repo i path @ extra))) (public_spec E' r' repo' i' path')
    \<longleftrightarrow> public_spec E' r' repo' i' path' = public_spec E r repo i path"
proof -
  define old new where "old = public_spec E r repo i path" and "new = public_spec E' r' repo' i' path'"
  have "set (map fst extra) \<subseteq> resolved_keys" unfolding assms resolved_keys_def by code_simp
  then have extra: "fst x \<in> resolved_keys" if "x \<in> set extra" for x using that by auto
  have kept: "fst x \<notin> resolved_keys" "jcanon (snd x) = snd x" if "x \<in> set old" for x
  proof -
    from that have "fst x \<in> set (map fst old)" by simp
    with public_keys(3) show "fst x \<notin> resolved_keys" unfolding old_def public_keys(1) by blast
    from that public_canonical [of "fst x" "snd x"] show "jcanon (snd x) = snd x" by (simp add: old_def)
  qed
  have "same_request (jcanon (JObj (old @ extra))) new
      \<longleftrightarrow> (\<forall>x \<in> set (old @ extra). fst x \<in> resolved_keys \<or> map_of new (fst x) = Some (jcanon (snd x)))"
    by (simp add: list_all_iff split_beta ball_Un)
  also have "\<dots> \<longleftrightarrow> (\<forall>(k, v) \<in> set old. map_of new k = Some v)"
    using extra kept by (auto simp: ball_Un split_beta)
  also have "\<dots> \<longleftrightarrow> new = old"
    by (rule same_entries) (simp_all only: old_def new_def public_keys)
  finally show ?thesis unfolding old_def new_def .
qed

text \<open>
  An unchanged start is idempotent, whatever changed around it.  Once a specification was
  prepared and stored for a key, preparing a request for that key again returns the stored
  specification exactly when the request says the same; no configuration, environment,
  profile, route or policy is consulted again, and nothing is written.  Any difference in what
  the request says is refused.
\<close>

theorem unchanged_start_is_idempotent:
  assumes "new_spec E r outer path (public_spec E r repo i path) w = (Inr s, w1)"
    and "get_task sc (wr_key r') (ms_db v) = Some t" and "t_spec t = jcanon s" and "\<not> expired_loss t"
    and "spec_problem r' = None" and "resolve_repo E' (wr_repo r') v = (Inr repo', v)" and "repo_fields E' repo' = Inr (path', i')"
  shows "prepare_spec E' sc outer' r' v =
    (if public_spec E' r' repo' i' path' = public_spec E r repo i path then Inr (t_spec t)
     else Inl (MRefused ''Task already exists with a different specification''), v)"
proof -
  obtain extra where s: "s = JObj (public_spec E r repo i path @ extra)" "map fst extra = [''setup_script'', ''target'', ''detection'']"
    by (rule new_spec_form [OF assms(1)])
  have "same_request (t_spec t) (public_spec E' r' repo' i' path') \<longleftrightarrow> public_spec E' r' repo' i' path' = public_spec E r repo i path"
    unfolding assms(3) s(1) by (rule same_request_public [OF s(2)])
  with assms(2,4-7) show ?thesis
    by (simp add: prepare_spec_def refused_if_def follow_def given_def observe_def give_def raising_def Let_def)
qed
lemma routed_policy: "\<exists>p. ebind (trusted_policy (\<lambda>_. None) (\<lambda>_. None)) (resolve_policy VNone VNone None) = Inr p"
proof -
  have "(case ebind (trusted_policy (\<lambda>_. None) (\<lambda>_. None)) (resolve_policy VNone VNone None) of Inl e \<Rightarrow> False | Inr p \<Rightarrow> True)" by code_simp
  then show ?thesis by (cases "ebind (trusted_policy (\<lambda>_. None) (\<lambda>_. None)) (resolve_policy VNone VNone None)") (simp_all only: sum.case, blast)
qed

lemma routed_site [simp]:
  "ca_manager routed_caller = sample_manager\<lparr>mg_settings := Inr sample_settings\<rparr>" "ca_settings routed_caller path base = None"
  "si_num sample_site = (\<lambda>_. None)" "si_environ sample_site = (\<lambda>_. None)" "mg_site sample_manager = sample_site"
  "mg_view sample_manager st = sample_view"
  by (simp_all add: routed_caller_def sample_caller_def sample_site_def sample_manager_def)

lemma routed_spec: "\<exists>s. new_spec routed_caller sample_request True path public w = (Inr s, w)"
proof -
  from routed_class obtain dec where dec: "resolve_class sample_settings sample_view \<lparr>k_class = None, k_top_level = True, k_children = 0\<rparr> = Inr dec"
    "v_valid (d_validation dec)" by blast
  from routed_policy obtain p where p: "ebind (trusted_policy (\<lambda>_. None) (\<lambda>_. None)) (resolve_policy VNone VNone None) = Inr p" by blast
  have target: "select_target routed_caller sample_request True w = (Inr (executor_target sample_request (d_class dec) ''CODEX''), w)" for w
    using dec by (simp add: select_target_def from_routing_def follow_def sample_request_def truthy_def)
  have req: "wr_progress sample_request = VNone" "wr_approval sample_request = VNone" "wr_budget sample_request = None"
    by (simp_all add: sample_request_def)
  show ?thesis
    unfolding new_spec_def Let_def setup_script_of_def
    by (simp only: routed_site option.case req p sum.case op_simps follow_give follow_def [of "select_target _ _ _"] target
        prod.case given_def follow_def [of "given _"] manager.simps) (simp add: req p target follow_def del: ebind.simps)
qed
definition stored_row :: "json \<Rightarrow> task_row" where
  "stored_row s = (sample_row ''a'' Reserved 0 2)\<lparr>t_spec := jcanon s\<rparr>"

lemma stored_table: "task_table_ok [stored_row s]"
  by (simp add: stored_row_def sample_defs)

lemma stored_task: "get_task ''scope'' ''a'' (seed [stored_row s]) = Some (decode_task (stored_row s))"
  by (simp add: get_task_def find_task_by_key_def seed_tasks [OF stored_table])
     (simp add: stored_row_def sample_row_def new_task_row_def)

lemma stored_fields: "t_spec (decode_task (stored_row s)) = jcanon s" "\<not> expired_loss (decode_task (stored_row s))"
  by (simp_all add: stored_row_def sample_row_def new_task_row_def decode_task_def task_record.defs expired_loss_def)

lemma sample_request_ok: "spec_problem sample_request = None"
  by code_simp

lemma sample_repo_fields: "repo_fields sample_caller sample_repo = Inr (''/r'', ''r1'')"
  by code_simp

theorem unchanged_start_is_idempotent_witness:
  "\<exists>s. fst (new_spec routed_caller sample_request True ''/r'' (public_spec sample_caller sample_request sample_repo ''r1'' ''/r'') (mesh_of empty_db)) = Inr s
    \<and> prepare_spec sample_caller ''scope'' True sample_request (mesh_of (seed [stored_row s]))
        = (Inr (jcanon s), mesh_of (seed [stored_row s]))
    \<and> fst (prepare_spec sample_caller ''scope'' True (sample_request\<lparr>wr_prompt := ''else''\<rparr>) (mesh_of (seed [stored_row s])))
        = Inl (MRefused ''Task already exists with a different specification'')"
proof -
  let ?w = "mesh_of empty_db"
  have same: "public_spec routed_caller sample_request sample_repo ''r1'' ''/r'' = public_spec sample_caller sample_request sample_repo ''r1'' ''/r''"
    by (simp add: public_spec_def routed_caller_def sample_caller_def)
  from routed_spec obtain s where s: "new_spec routed_caller sample_request True ''/r''
      (public_spec routed_caller sample_request sample_repo ''r1'' ''/r'') ?w = (Inr s, ?w)" by blast
  let ?v = "mesh_of (seed [stored_row s])"
  let ?other = "sample_request\<lparr>wr_prompt := ''else''\<rparr>"
  have repo: "resolve_repo sample_caller n ?v = (Inr sample_repo, ?v)" for n
    by (simp add: resolve_repo_def sample_caller_def given_client_def given_def)
  have key: "wr_key sample_request = ''a''" "wr_key ?other = ''a''" by (simp_all add: sample_request_def)
  have task: "get_task ''scope'' (wr_key sample_request) (ms_db ?v) = Some (decode_task (stored_row s))"
    "get_task ''scope'' (wr_key ?other) (ms_db ?v) = Some (decode_task (stored_row s))"
    by (simp_all only: key) (simp_all add: mesh_of_def stored_task)
  have problem: "spec_problem ?other = None" by code_simp
  have differs: "public_spec sample_caller ?other sample_repo ''r1'' ''/r'' \<noteq> public_spec sample_caller sample_request sample_repo ''r1'' ''/r''"
    by (simp add: public_spec_def sample_request_def)
  note again = unchanged_start_is_idempotent [OF s _ stored_fields(1) stored_fields(2) _ repo sample_repo_fields]
  from again [OF task(1) sample_request_ok] again [OF task(2) problem] s differs same stored_fields(1) show ?thesis by auto
qed

lemma sample_caller_fair: "fair_caller sample_caller"
  using sample_manager_fair by (simp add: fair_caller_def sample_caller_def kernel_step_refl sample_manager_def sample_site_def)


subsection \<open>Calls that end a task\<close>

lemma retire_ended_recorded:
  assumes "retire_ended E current st w = (Inr u, w')" and "st \<in> terminal_states" and "t_holder current = Some h" and "h \<noteq> []"
    and "owners_ok (ms_owners w)"
  shows "lookup_by o_session h (ms_owners w') \<noteq> None"
proof -
  from retire_ok [OF assms(5), of h Retired "''managed task '' @ state_name st"
      "Some (''task:'' @ t_id current @ '':'' @ show_int (t_epoch current))" "si_stamp (mg_site (ca_manager E))"] obtain own rows where
    "retire h Retired (''managed task '' @ state_name st) (Some (''task:'' @ t_id current @ '':'' @ show_int (t_epoch current)))
       (si_stamp (mg_site (ca_manager E))) (\<lambda>r. r) (ms_owners w) = (Inr own, rows)"
    "lookup_by o_session h rows = Some own" by blast
  with assms(1-4) show ?thesis by (auto simp: retire_ended_def on_owners_def follow_def truthy_def)
qed

lemma undeliverable: "lookup_by o_session h rows \<noteq> None \<Longrightarrow> \<exists>e. assert_deliverable h rows = Inl e"
  by (auto simp: assert_deliverable_def get_owner_def ownership_of_row_def)

lemma owners_le_keeps: "owners_le a b \<Longrightarrow> lookup_by o_session h a \<noteq> None \<Longrightarrow> lookup_by o_session h b \<noteq> None"
  by (fastforce simp: owners_le_def)

lemma mesh_step_owners: "mesh_step w w' \<Longrightarrow> owners_ok (ms_owners w) \<Longrightarrow> owners_ok (ms_owners w') \<and> owners_le (ms_owners w) (ms_owners w')"
  by (simp add: mesh_step_def)

text \<open>
  C10: a session whose task a manager ended gets no mail ever again.  Once \<open>complete\<close> or \<open>cancel\<close>
  has returned for a task held by a session, then in every later world, whatever others have
  written since, a command for that session is refused before its row is written: nothing is
  sent and nothing changes.
\<close>

theorem ended_session_gets_no_mail:
  assumes "conclude E t st res stop w = (Inr rec, w')" and "st \<in> terminal_states" and "fair_caller E"
    and "owners_ok (ms_owners w)" and "queue_snapshot E t st w = (Inr cmds, w1)"
    and "get_by_id (t_id t) (ms_db w1) = Some current" and "t_holder current = Some h" and "h \<noteq> []"
    and "mesh_step w' w2" and "t_holder s = Some h"
  shows "\<exists>e. claim_send E c s w2 = (Inl e, w2)"
proof -
  from assms(1,5,6) obtain updated eff v u v' where d: "decide_end E t st res cmds w1 = (Inr (updated, eff), v)"
    and r: "retire_ended E current st v = (Inr u, v')" and wind: "wind_down E current st stop updated eff v' = (Inr rec, w')"
    by (auto simp: conclude_def follow_eq_Inr)
  have ok1: "owners_ok (ms_owners w1)"
    using mesh_step_owners [OF keepsD [OF keeps_snapshot [OF assms(3)] assms(5)] assms(4)] by blast
  have ok: "owners_ok (ms_owners v)" using mesh_step_owners [OF keepsD [OF keeps_decide d] ok1] by blast
  note there = retire_ended_recorded [OF r assms(2,7,8) ok]
  have ok': "owners_ok (ms_owners v')" using mesh_step_owners [OF keepsD [OF keeps_retire_ended r] ok] by blast
  have "mesh_step v' w2" using mesh_step_trans [OF keepsD [OF keeps_wind_down [OF assms(3)] wind] assms(9)] .
  from mesh_step_owners [OF this ok'] have "owners_le (ms_owners v') (ms_owners w2)" by blast
  from owners_le_keeps [OF this there] have "lookup_by o_session h (ms_owners w2) \<noteq> None" .
  from undeliverable [OF this] obtain e where e: "assert_deliverable h (ms_owners w2) = Inl e" by blast
  show ?thesis
  proof (cases "get_by_id (t_id s) (ms_db w2)")
    case (Some x)
    with e assms(10) show ?thesis
      by (cases "same_target s x") (auto simp: claim_send_def follow_def deliverable_def printed_def same_target_def)
  qed (simp add: claim_send_def follow_def)
qed
definition held_row :: task_row where
  "held_row = sample_row ''a'' Active 0 2"

lemma plain_end:
  obtains rec d where "finish_locked id sample_ctx (decode_task held_row) Cancelled None [] 5 (seed [held_row]) = (Inr (rec, None), d)"
    "get_by_id ''a'' d = Some rec" "db_wakes d = []"
proof -
  let ?c = "decode_task held_row" and ?d0 = "seed [held_row]"
  let ?d1 = "fence_terminal ?c [] 5 ?d0"
  have dec: "t_id ?c = ''a''" "t_epoch ?c = 1" "t_holder ?c = Some ''a''"
    by (simp_all add: held_row_def decode_task_def task_record.defs)
  have base: "kernel_inv ?d0" "find_task ''a'' ?d0 = Some held_row" "db_effects ?d0 = []" "db_wakes ?d0 = []" "db_outgoing ?d0 = []"
    by (simp_all add: held_row_def sample_kernel_inv)
  note s1 = fence_terminal_step [OF base(1), of ?c "[]" 5]
  have t1: "find_task ''a'' ?d1 = Some held_row" "db_effects ?d1 = []" "db_wakes ?d1 = []"
    using fence_terminal_tasks [of ?c "[]" 5 ?d0] base
    by (simp_all add: find_task_def fence_terminal_def record_cleanup_intents_def terminal_outgoing_commands_def)
  note ok1 = kernel_inv_ok [OF kernel_step_inv [OF s1]]
  from plain_finish_succeeds [OF ok1 t1(1), of Cancelled id sample_ctx None 5]
  obtain rec d2 where fin: "finish_with_wake id (lock_ctx ''a'' sample_ctx) ''a'' Cancelled None None False
      (Some (lock_fence ''a'' sample_ctx)) 5 ?d1 = Inr ((rec, []), d2)" by (auto simp: held_row_def)
  from finish_with_wake_side [OF fin ok1] t1(2) have e2: "db_effects d2 = []" by simp
  have orphan: "get_by_id ''a'' d2 = Some rec \<and> db_wakes d2 = []"
    using fin
  proof (rule finish_with_wakeE)
    fix x' f d3
    assume f: "finish x' ''a'' Cancelled None None False (Some f) True 5 ?d1 = Inr (rec, d3)"
      and alone: "\<not> truthy (t_parent rec) \<Longrightarrow> d2 = d3 \<and> [] = []"
    from finish_lifecycle [OF f ok1] obtain r r' where w: "task_write ''a'' r r' ?d1 d3" "lifecycle_step r r'" "rec = decode_task r'"
      by (auto simp: lifecycle_write_def)
    from w(1) t1(1) have r: "r = held_row" by (simp add: task_write_def)
    have "t_parent r' = t_parent r" using w(2) by (simp add: lifecycle_step_def same_identity_def)
    then have "d2 = d3" using alone w(3) r by (simp add: decode_task_def task_record.defs held_row_def truthy_def)
    with task_write_find [OF w(1), of "''a''"] w(1,3) t1(3) show ?thesis
      by (simp add: get_by_id_def task_write_def same_side_tables_def)
  qed
  have "finish_locked id sample_ctx ?c Cancelled None [] 5 ?d0 = (Inr (rec, None), d2)"
    using fin e2 base(2)
    by (simp add: finish_locked_def Let_def dec get_by_id_def sdk_finish_def terminal_states_def get_effect_def find_effect_def)
  with orphan that show thesis by blast
qed
lemma held_task:
  "t_id (decode_task held_row) = ''a''" "t_epoch (decode_task held_row) = 1" "t_holder (decode_task held_row) = Some ''a''"
  "t_workspace (decode_task held_row) = None"
  by (simp_all add: held_row_def decode_task_def task_record.defs) (simp_all add: sample_row_def new_task_row_def)

lemma held_start:
  "queue_snapshot sample_caller (decode_task held_row) Cancelled (mesh_of (seed [held_row])) = (Inr [], mesh_of (seed [held_row]))"
  "get_by_id (t_id (decode_task held_row)) (ms_db (mesh_of (seed [held_row]))) = Some (decode_task held_row)"
proof -
  show "queue_snapshot sample_caller (decode_task held_row) Cancelled (mesh_of (seed [held_row])) = (Inr [], mesh_of (seed [held_row]))"
    by (simp add: queue_snapshot_def terminal_states_def held_task truthy_def follow_def opened_def client_failed_def queue_commands_def
        sample_caller_def sample_manager_def sample_site_def mesh_of_def)
  have "find_task ''a'' (seed [held_row]) = Some held_row" by (simp add: held_row_def)
  then show "get_by_id (t_id (decode_task held_row)) (ms_db (mesh_of (seed [held_row]))) = Some (decode_task held_row)"
    by (simp add: held_task get_by_id_def mesh_of_def)
qed

lemma plain_conclude:
  obtains rec w' where "conclude sample_caller (decode_task held_row) Cancelled None True (mesh_of (seed [held_row])) = (Inr rec, w')"
proof -
  let ?w = "mesh_of (seed [held_row])" and ?t = "decode_task held_row"
  obtain rec d where fin: "finish_locked id sample_ctx ?t Cancelled None [] 5 (seed [held_row]) = (Inr (rec, None), d)"
    and after: "get_by_id ''a'' d = Some rec" "db_wakes d = []" by (rule plain_end)
  note dec = held_task and q = held_start(1) and found = held_start(2)
  have ended: "decide_end sample_caller ?t Cancelled None [] ?w = (Inr (rec, None), mesh_of d)"
    using fin by (simp add: decide_end_def sample_caller_def sample_manager_def sample_site_def mesh_of_def Let_def)
  obtain u w2 where r: "retire_ended sample_caller ?t Cancelled (mesh_of d) = (Inr u, w2)" "ms_db w2 = d"
    by (simp add: retire_ended_def terminal_states_def dec truthy_def follow_def on_owners_def retire_def get_owner_def mesh_of_def
        insert_owner_def ownership_of_row_def)
  have c: "claim tok lease now d = ([], d)" for tok lease now using after(2) by (simp add: claim_def)
  have pump: "pump_wakes sample_caller w2 = (Inr 0, w2)"
    by (simp add: pump_wakes_def follow_def on_db_def r(2) c)
  have "stop_ended sample_caller ?t Cancelled True None w2 = (Inr (), w2)"
    by (simp add: stop_ended_def dec truthy_def)
  then have "\<exists>w'. wind_down sample_caller ?t Cancelled True rec None w2 = (Inr rec, w')"
    using after(1) pump by (simp add: wind_down_def follow_def dec r(2) clean_up_def)
  with q found ended r(1) that show thesis
    by (auto simp: conclude_def follow_def [of "queue_snapshot _ _ _"] follow_def [of "observe _"] follow_def [of "decide_end _ _ _ _ _"]
        follow_def [of "retire_ended _ _ _"])
qed

theorem ended_session_gets_no_mail_witness:
  "\<exists>e. claim_send sample_caller \<lparr>cm_worker = ''a'', cm_prompt = ''go on'', cm_operation = ''o''\<rparr> (decode_task held_row)
         (snd (conclude sample_caller (decode_task held_row) Cancelled None True (mesh_of (seed [held_row]))))
     = (Inl e, snd (conclude sample_caller (decode_task held_row) Cancelled None True (mesh_of (seed [held_row]))))"
proof -
  let ?w = "mesh_of (seed [held_row])" and ?t = "decode_task held_row"
  obtain rec w' where run: "conclude sample_caller ?t Cancelled None True ?w = (Inr rec, w')" by (rule plain_conclude)
  note dec = held_task(1,3) and q = held_start(1) and found = held_start(2)
  have ok: "owners_ok (ms_owners ?w)" by (simp add: mesh_of_def owners_ok_def links_def next_session_def acyclic_def)
  from ended_session_gets_no_mail [OF run _ sample_caller_fair ok q found dec(2) _ mesh_step_refl dec(2)] run
  show ?thesis by (simp add: terminal_states_def)
qed
subsection \<open>Sends\<close>

lemma begin_outgoing_found: "find_outgoing (tid, ep, key) (begin_outgoing_command tid ep session key now d) \<noteq> None"
  by (auto simp: begin_outgoing_command_def insert_outgoing_def log_outgoing_def find_outgoing_def lookup_by_None_iff
      lookup_by_append outgoing_key_def Let_def)

lemma settled_row:
  assumes "settle_outgoing_command tid ep key (Some n) terminal now d = Inr d'" and "n \<noteq> []"
  shows "(\<exists>r. find_outgoing (tid, ep, key) d' = Some r \<and> o_native_id r = Some n
      \<and> outgoing_row.o_state r = (if terminal then OCleanup else OSettled))
    \<and> (terminal \<longrightarrow> (tid, ep, CommandCancel, n) \<in> fenced_keys d')"
proof -
  from assms obtain before where "find_outgoing (tid, ep, key) d = Some before"
    by (auto simp: settle_outgoing_command_def split: option.splits)
  with assms show ?thesis
    by (cases terminal) (auto simp: settle_outgoing_command_def truthy_def Let_def find_outgoing_def change_outgoing_rows
        lookup_update_by outgoing_key_def)
qed

text \<open>
  C11: a command is claimed before it is sent, and a command sent to a task that ended meanwhile
  is taken back.  A claim succeeds only for a task that is still active in the epoch, version and
  session the batch resolved, and only if that session may still get mail; the outgoing row is
  then in the database before the executor is asked.  When the executor took the command and
  the task had ended by then, the row is left for cleanup and a cancel intent names the
  command; otherwise the row is settled with the command's id.
\<close>

theorem sends_are_claimed_and_fenced:
  assumes "claim_send E c t w = (Inr current, w1)" and "opened (ca_manager E) GSend w1 = (Inr (), w2)"
    and "ca_send E (printed (t_holder t)) (cm_prompt c) (send_key c t) = Inr v" and "answered_id E v = Some n" and "n \<noteq> []"
    and "find_outgoing (t_id t, t_epoch t, send_key c t) (ms_db w2) \<noteq> None"
  shows "get_by_id (t_id t) (ms_db w) = Some current \<and> same_target t current
    \<and> assert_deliverable (printed (t_holder t)) (ms_owners w) = Inr ()
    \<and> find_outgoing (t_id t, t_epoch t, send_key c t) (ms_db w1) \<noteq> None
    \<and> (\<exists>w' r. send_one E c t w = (Inr v, w') \<and> find_outgoing (t_id t, t_epoch t, send_key c t) (ms_db w') = Some r
        \<and> o_native_id r = Some n
        \<and> (if ended_meanwhile current w2
            then outgoing_row.o_state r = OCleanup \<and> (t_id t, t_epoch t, CommandCancel, n) \<in> fenced_keys (ms_db w')
            else outgoing_row.o_state r = OSettled))"
proof -
  from assms(1) have found: "get_by_id (t_id t) (ms_db w) = Some current" and same: "same_target t current"
    and free: "assert_deliverable (printed (t_holder current)) (ms_owners w) = Inr ()"
    and w1: "w1 = w\<lparr>ms_db := begin_outgoing_command (t_id current) (t_epoch current) (printed (t_holder current))
                                  (send_key c t) (ca_now E) (ms_db w)\<rparr>"
    by (auto simp: claim_send_def follow_eq_Inr deliverable_def given_def modify_def split: option.splits if_splits sum.splits)
  have id: "t_id current = t_id t" "t_epoch current = t_epoch t" "t_holder current = t_holder t"
    using get_by_id_id [OF found] same by (simp_all add: same_target_def)
  let ?ended = "ended_meanwhile current w2"
  from assms(6) obtain before where b: "find_outgoing (t_id t, t_epoch t, send_key c t) (ms_db w2) = Some before" by blast
  then obtain d where settled: "settle_outgoing_command (t_id t) (t_epoch t) (send_key c t) (Some n) ?ended (ca_now E) (ms_db w2) = Inr d"
    by (simp add: settle_outgoing_command_def Let_def)
  have "send_one E c t w = (Inr v, w2\<lparr>ms_db := d\<rparr>)"
    using assms(1-4) settled
    by (simp add: send_one_def follow_def id given_client_def given_def native_of_send_def settle_send_def on_db_only_def on_db_def)
  moreover have "find_outgoing (t_id t, t_epoch t, send_key c t) (ms_db w1) \<noteq> None"
    using begin_outgoing_found by (simp add: w1 id)
  ultimately show ?thesis using settled_row [OF settled assms(5)] found same free by (auto simp: id)
qed

theorem sends_are_claimed_and_fenced_witness:
  "\<exists>w' r. send_one sample_caller \<lparr>cm_worker = ''a'', cm_prompt = ''go on'', cm_operation = ''o''\<rparr> (decode_task held_row) (mesh_of (seed [held_row]))
       = (Inr (VDict [(''id'', VStr ''n1'')]), w')
     \<and> find_outgoing (''a'', 1, send_key \<lparr>cm_worker = ''a'', cm_prompt = ''go on'', cm_operation = ''o''\<rparr> (decode_task held_row)) (ms_db w') = Some r
     \<and> outgoing_row.o_state r = OSettled"
proof -
  let ?c = "\<lparr>cm_worker = ''a'', cm_prompt = ''go on'', cm_operation = ''o''\<rparr>" and ?t = "decode_task held_row"
  let ?w = "mesh_of (seed [held_row])"
  have target: "same_target ?t ?t" by (simp add: same_target_def held_row_def decode_task_def task_record.defs)
  obtain w1 where claim: "claim_send sample_caller ?c ?t ?w = (Inr ?t, w1)"
    and w1: "ms_db w1 = begin_outgoing_command ''a'' 1 ''a'' (send_key ?c ?t) 5 (seed [held_row])"
    using held_start(2) target
    by (simp add: claim_send_def follow_def held_task printed_def deliverable_def given_def modify_def mesh_of_def assert_deliverable_def
        get_owner_def sample_caller_def sample_manager_def sample_site_def)
  have gate: "opened (ca_manager sample_caller) GSend w1 = (Inr (), w1)"
    by (simp add: opened_def modify_def sample_caller_def sample_manager_def)
  have row: "find_outgoing (''a'', 1, send_key ?c ?t) (ms_db w1) \<noteq> None" using begin_outgoing_found by (simp add: w1)
  have sent: "ca_send sample_caller (printed (t_holder ?t)) (cm_prompt ?c) (send_key ?c ?t) = Inr (VDict [(''id'', VStr ''n1'')])"
    by (simp add: sample_caller_def)
  have answered: "answered_id sample_caller (VDict [(''id'', VStr ''n1'')]) = Some ''n1''"
    by (simp add: answered_id_def)
  have "find_task ''a'' (ms_db w1) = Some held_row"
    by (simp add: w1 begin_outgoing_command_def insert_outgoing_def log_outgoing_def find_task_def Let_def held_row_def)
  then have live: "\<not> ended_meanwhile ?t w1"
    by (simp add: ended_meanwhile_def held_task get_by_id_def terminal_states_def) (simp add: held_row_def decode_task_def task_record.defs)
  from sends_are_claimed_and_fenced [OF claim gate sent answered] row live show ?thesis by (auto simp: held_task)
qed



end
