(* ===== verification/ExternalRuns.thy ===== *)
theory ExternalRuns
  imports Escalation Profiles Steps Evolution
begin

text \<open>
  Subscriptions for processes the program does not own (\<open>external_runs.py\<close>): rows with a version,
  leases on their output directories, the receipts the runner writes, and the pass that turns a
  receipt or a vanished process into one message to the session that subscribed.  The tables live
  in the escalation store's file.
\<close>

subsection \<open>Rows\<close>

datatype run_state = Subscribed | Running | Terminal | Vanished | Delivering | Notified

record run_row =
  xr_id :: string
  xr_run :: string
  xr_root :: string
  xr_session :: string
  xr_workspace :: "string option"
  xr_writer :: string
  xr_key :: string
  xr_state :: run_state
  xr_version :: int
  xr_pid :: "int option"
  xr_fingerprint :: "string option"
  xr_path :: string
  xr_digest :: "string option"
  xr_outcome :: "string option"
  xr_diagnostic :: "string option"
  xr_created :: real
  xr_updated :: real
  xr_terminal_at :: "real option"
  xr_notified_at :: "real option"

record root_lease =
  xl_id :: string
  xl_root :: string
  xl_active :: bool
  xl_version :: int
  xl_created :: real
  xl_released :: "real option"

text \<open>An output directory on disk; \<open>xw_esc\<close> is the escalation store of the same file.\<close>

datatype root_state = RootAbsent | RootEmpty | RootBusy | RootLink

record xworld =
  xw_runs :: "run_row list"
  xw_leases :: "root_lease list"
  xw_roots :: "string \<Rightarrow> root_state"
  xw_esc :: esc_db

definition empty_xworld :: xworld where
  "empty_xworld = \<lparr>xw_runs = [], xw_leases = [], xw_roots = (\<lambda>_. RootAbsent), xw_esc = empty_esc\<rparr>"

datatype xerror = XRun string | XStale string run_state | XType | XIo | XEsc eerror

type_synonym 'a xop = "(xworld, xerror, 'a) op"

definition open_states :: "run_state set" where
  "open_states = {Subscribed, Running}"

definition find_run :: "string \<Rightarrow> xworld \<Rightarrow> run_row option" where
  "find_run i w = lookup_by xr_id i (xw_runs w)"

subsection \<open>The store\<close>

definition get_run :: "string \<Rightarrow> run_row xop" where
  "get_run i = follow (observe (find_run i)) (\<lambda>r.
     case r of None \<Rightarrow> raising (XRun ''unknown external run subscription'') | Some r \<Rightarrow> give r)"

definition find_by_name :: "string \<Rightarrow> run_row xop" where
  "find_by_name v = follow (observe (\<lambda>w. find (\<lambda>r. xr_id r = v \<or> xr_run r = v) (xw_runs w))) (\<lambda>r.
     case r of None \<Rightarrow> raising (XRun ''unknown external run'') | Some r \<Rightarrow> give r)"

definition pending_runs :: "xworld \<Rightarrow> run_row list" where
  "pending_runs w = sort_key xr_created (filter (\<lambda>r. xr_state r \<noteq> Notified) (xw_runs w))"

text \<open>
  \<open>subscribe\<close>: the primary keys, the two unique columns and the partial unique index on active
  roots are \<open>IntegrityError\<close>s; a directory this call created is removed again when it fails.
\<close>

definition new_run ::
  "redactor \<Rightarrow> string \<Rightarrow> string \<Rightarrow> real \<Rightarrow> string \<Rightarrow> string \<Rightarrow> string \<Rightarrow> string option \<Rightarrow> run_row" where
  "new_run R i digest now run dir session ws =
     \<lparr>xr_id = i, xr_run = redact_credentials R run, xr_root = redact_credentials R dir,
      xr_session = redact_credentials R session, xr_workspace = map_option (redact_credentials R) ws, xr_writer = digest,
      xr_key = ''external-run:'' @ i, xr_state = Subscribed, xr_version = 0, xr_pid = None, xr_fingerprint = None,
      xr_path = redact_credentials R (dir @ ''/terminal-receipt.json''), xr_digest = None, xr_outcome = None,
      xr_diagnostic = None, xr_created = now, xr_updated = now, xr_terminal_at = None, xr_notified_at = None\<rparr>"

definition lease_free :: "string \<Rightarrow> string \<Rightarrow> xworld \<Rightarrow> bool" where
  "lease_free i dir w \<longleftrightarrow> lookup_by xl_id i (xw_leases w) = None \<and> \<not> list_ex (\<lambda>l. xl_root l = dir \<and> xl_active l) (xw_leases w)"

definition run_free :: "run_row \<Rightarrow> xworld \<Rightarrow> bool" where
  "run_free r w \<longleftrightarrow> \<not> list_ex (\<lambda>q. xr_id q = xr_id r \<or> xr_run q = xr_run r \<or> xr_key q = xr_key r) (xw_runs w)"

definition subscribe ::
  "redactor \<Rightarrow> (string \<Rightarrow> string) \<Rightarrow> (string \<Rightarrow> string) \<Rightarrow> string \<Rightarrow> string \<Rightarrow> real \<Rightarrow> string \<Rightarrow> string \<Rightarrow> string \<Rightarrow> string option
   \<Rightarrow> (run_row \<times> string) xop" where
  "subscribe R sha256 resolve_path i capability now run path session ws w =
     (let dir = resolve_path path; r = new_run R i (sha256 capability) now run dir session ws in
      if run = [] \<or> session = [] then (Inl (XRun ''run_id and return_session must not be empty''), w)
      else if xw_roots w path = RootLink then (Inl (XRun ''output root must not be a symlink''), w)
      else if xw_roots w dir = RootBusy \<or> xw_roots w dir = RootLink
      then (Inl (XRun ''output root must be an empty directory''), w)
      else if \<not> lease_free i (xr_root r) w \<or> \<not> run_free r w then (Inl (XRun ''run ID or output root is already leased''), w)
      else (Inr (r, capability),
            w\<lparr>xw_roots := (xw_roots w)(dir := RootEmpty), xw_runs := xw_runs w @ [r],
              xw_leases := xw_leases w @ [\<lparr>xl_id = i, xl_root = xr_root r, xl_active = True, xl_version = 0,
                                           xl_created = now, xl_released = None\<rparr>]\<rparr>))"

text \<open>\<open>_transition\<close>: a write guarded by the state and the version; a miss names the current state.\<close>

definition run_due :: "run_state set \<Rightarrow> int \<Rightarrow> run_row \<Rightarrow> bool" where
  "run_due states version r \<longleftrightarrow> xr_state r \<in> states \<and> xr_version r = version"

definition transition_run ::
  "string \<Rightarrow> run_state set \<Rightarrow> run_state \<Rightarrow> int \<Rightarrow> (run_row \<Rightarrow> run_row) \<Rightarrow> real \<Rightarrow> run_row xop" where
  "transition_run i states target version assign now w =
     (if hits_by xr_id i (run_due states version) (xw_runs w)
      then get_run i (w\<lparr>xw_runs := update_by xr_id i (run_due states version)
             (\<lambda>r. (assign r)\<lparr>xr_state := target, xr_version := xr_version r + 1, xr_updated := now\<rparr>) (xw_runs w)\<rparr>)
      else follow (get_run i) (\<lambda>r. raising (XStale i (xr_state r))) w)"

definition bind_run ::
  "(string \<Rightarrow> string) \<Rightarrow> (int \<Rightarrow> string option) \<Rightarrow> string \<Rightarrow> string \<Rightarrow> int \<Rightarrow> string \<Rightarrow> int \<Rightarrow> real \<Rightarrow> run_row xop" where
  "bind_run sha256 observer i capability pid fingerprint version now =
     (if pid \<le> 0 \<or> fingerprint = [] \<or> observer pid \<noteq> Some fingerprint
      then raising (XRun ''process fingerprint is not live at bind'')
      else follow (get_run i) (\<lambda>run.
        if sha256 capability \<noteq> xr_writer run then raising (XRun ''writer capability mismatch'')
        else if xr_state run = Running \<and> xr_pid run = Some pid \<and> xr_fingerprint run = Some fingerprint then give run
        else transition_run i {Subscribed} Running version (\<lambda>r. r\<lparr>xr_pid := Some pid, xr_fingerprint := Some fingerprint\<rparr>) now))"

definition diagnose :: "redactor \<Rightarrow> run_row \<Rightarrow> string \<Rightarrow> real \<Rightarrow> run_row xop" where
  "diagnose R run message now =
     follow (modify (\<lambda>w. w\<lparr>xw_runs := update_by xr_id (xr_id run) (\<lambda>r. xr_version r = xr_version run)
                 (\<lambda>r. r\<lparr>xr_diagnostic := Some (redact_credentials R message), xr_updated := now\<rparr>) (xw_runs w)\<rparr>))
       (\<lambda>_. get_run (xr_id run))"

record receipt =
  rc_outcome :: string
  rc_digest :: string

definition preserve_terminal :: "redactor \<Rightarrow> run_row \<Rightarrow> receipt \<Rightarrow> real \<Rightarrow> run_row xop" where
  "preserve_terminal R run rc now =
     (if truthy (xr_digest run)
      then if xr_digest run \<noteq> Some (rc_digest rc) then diagnose R run ''duplicate terminal receipt differs'' now else give run
      else transition_run (xr_id run) open_states Terminal (xr_version run)
             (\<lambda>r. r\<lparr>xr_digest := Some (rc_digest rc), xr_outcome := Some (rc_outcome rc), xr_diagnostic := None,
                    xr_terminal_at := Some now\<rparr>) now)"

definition preserve_lost :: "run_row \<Rightarrow> string \<Rightarrow> real \<Rightarrow> run_row xop" where
  "preserve_lost run why now =
     transition_run (xr_id run) open_states Vanished (xr_version run)
       (\<lambda>r. r\<lparr>xr_outcome := Some ''lost/unknown'', xr_diagnostic := Some why, xr_terminal_at := Some now\<rparr>) now"

definition begin_delivery :: "run_row \<Rightarrow> real \<Rightarrow> run_row xop" where
  "begin_delivery run now =
     (if xr_state run = Delivering then give run
      else transition_run (xr_id run) {Terminal, Vanished} Delivering (xr_version run) (\<lambda>r. r) now)"

definition release_root :: "real \<Rightarrow> root_lease \<Rightarrow> root_lease" where
  "release_root now l = l\<lparr>xl_active := False, xl_released := Some now, xl_version := xl_version l + 1\<rparr>"

definition mark_notified :: "run_row \<Rightarrow> real \<Rightarrow> run_row xop" where
  "mark_notified run now w =
     (if hits_by xr_id (xr_id run) (run_due {Delivering} (xr_version run)) (xw_runs w)
      then get_run (xr_id run)
             (w\<lparr>xw_runs := update_by xr_id (xr_id run) (run_due {Delivering} (xr_version run))
                  (\<lambda>r. r\<lparr>xr_state := Notified, xr_notified_at := Some now, xr_version := xr_version r + 1, xr_updated := now\<rparr>) (xw_runs w),
                xw_leases := update_by xl_id (xr_id run) xl_active (release_root now) (xw_leases w)\<rparr>)
      else follow (get_run (xr_id run)) (\<lambda>r.
             if xr_state r = Notified then give r else raising (XStale (xr_id run) (xr_state r))) w)"

subsection \<open>Receipts\<close>

text \<open>
  The receipt file: absent, unreadable (an \<open>OSError\<close> the caller does not catch), or its bytes with
  what \<open>json.loads\<close> makes of them.  An unhashable \<open>terminal_state\<close> is a \<open>TypeError\<close> of the set
  test.
\<close>

datatype receipt_file = NoReceipt | Forbidden | ReceiptBytes string "val option"

record watcher =
  wa_redactor :: redactor
  wa_client :: esc_client
  wa_pystr :: "val \<Rightarrow> string"
  wa_sha :: "string \<Rightarrow> string"
  wa_wid :: "string \<Rightarrow> string"
  wa_now :: real
  wa_files :: "string \<Rightarrow> receipt_file"
  wa_rfc3339 :: "string \<Rightarrow> bool"
  wa_observer :: "int \<Rightarrow> string option"

fun hashable :: "val \<Rightarrow> bool" where
  "hashable (VList vs) = False"
| "hashable (VDict kvs) = False"
| "hashable v = True"

definition parse_receipt :: "watcher \<Rightarrow> run_row \<Rightarrow> string \<Rightarrow> val \<Rightarrow> xerror + receipt" where
  "parse_receipt W run raw v =
     (if \<not> is_dict v \<or> \<not> is_version_one (vget ''schema_version'' v) then Inl (XRun ''terminal receipt schema_version must be 1'')
      else if vget ''subscription_id'' v \<noteq> VStr (xr_id run) \<or> vget ''run_id'' v \<noteq> VStr (xr_run run)
      then Inl (XRun ''terminal receipt identifies a different run'')
      else if \<not> hashable (vget ''terminal_state'' v) then Inl XType
      else if vget ''terminal_state'' v \<notin> {VStr ''completed'', VStr ''failed''} then Inl (XRun ''terminal receipt outcome is invalid'')
      else if \<not> wa_rfc3339 W (text_of (wa_pystr W) (vget ''finished_at'' v))
      then Inl (XRun ''terminal receipt finished_at must be RFC3339'')
      else Inr \<lparr>rc_outcome = text_of (wa_pystr W) (vget ''terminal_state'' v), rc_digest = wa_sha W raw\<rparr>)"

definition read_receipt :: "watcher \<Rightarrow> run_row \<Rightarrow> xerror + receipt option" where
  "read_receipt W run =
     (case wa_files W (xr_path run) of
        NoReceipt \<Rightarrow> Inr None
      | Forbidden \<Rightarrow> Inl XIo
      | ReceiptBytes raw None \<Rightarrow> Inl (XRun ''invalid terminal receipt'')
      | ReceiptBytes raw (Some v) \<Rightarrow> ebind (parse_receipt W run raw v) (\<lambda>r. Inr (Some r)))"

subsection \<open>The pass\<close>

definition process_live :: "watcher \<Rightarrow> run_row \<Rightarrow> bool" where
  "process_live W run \<longleftrightarrow>
     (case xr_pid run of
        None \<Rightarrow> False
      | Some pid \<Rightarrow> pid \<noteq> 0 \<and> truthy (xr_fingerprint run) \<and> wa_observer W pid = xr_fingerprint run)"

text \<open>What the receipt and the process say: the run as it stands afterwards, \<open>None\<close> to leave it.\<close>

definition settle_run :: "watcher \<Rightarrow> run_row \<Rightarrow> run_row option xop" where
  "settle_run W run =
     (case read_receipt W run of
        Inl (XRun m) \<Rightarrow>
          if xr_state run = Running \<and> \<not> process_live W run
          then follow (preserve_lost run (''receipt unreadable after process disappearance: '' @ m) (wa_now W)) (\<lambda>r. give (Some r))
          else give None
      | Inl e \<Rightarrow> raising e
      | Inr (Some rc) \<Rightarrow> follow (preserve_terminal (wa_redactor W) run rc (wa_now W)) (\<lambda>r. give (Some r))
      | Inr None \<Rightarrow>
          if xr_state run = Running \<and> \<not> process_live W run
          then follow (preserve_lost run ''process fingerprint disappeared without terminal receipt'' (wa_now W)) (\<lambda>r. give (Some r))
          else give (Some run))"

definition run_message :: "run_row \<Rightarrow> string" where
  "run_message r =
     ''STATUS: external run '' @ xr_run r @ '' '' @ (case xr_outcome r of None \<Rightarrow> ''None'' | Some o' \<Rightarrow> o')
       @ ''; output_root='' @ xr_root r @ ''; receipt='' @ xr_path r"

definition report_run :: "watcher \<Rightarrow> run_row \<Rightarrow> (eerror + esc_result) xop" where
  "report_run W run w =
     (case escalate (wa_redactor W) (wa_client W) (wa_pystr W) (wa_sha W) (wa_wid W (xr_id run)) (wa_now W) (''external-run:'' @ xr_id run)
             (xr_workspace run) (Some (xr_session run)) (run_message run) (Some (xr_key run)) (xw_esc w) of
        (res, esc, sent) \<Rightarrow> (Inr res, w\<lparr>xw_esc := esc\<rparr>))"

text \<open>The errors of \<open>escalate\<close> the pass catches; the others are \<open>KeyError\<close> and \<open>ValueError\<close>.\<close>

fun report_caught :: "eerror \<Rightarrow> bool" where
  "report_caught EClient = True"
| "report_caught (EStore k) = True"
| "report_caught e = False"

definition deliver_run :: "watcher \<Rightarrow> run_row \<Rightarrow> nat xop" where
  "deliver_run W run =
     (if xr_state run \<notin> {Terminal, Vanished, Delivering} then give 0
      else follow (begin_delivery run (wa_now W)) (\<lambda>r.
        follow (report_run W r) (\<lambda>res.
          case res of
            Inl e \<Rightarrow> if report_caught e then give 0 else raising (XEsc e)
          | Inr (Delivered cls p wsp a v) \<Rightarrow> follow (mark_notified r (wa_now W)) (\<lambda>_. give 1)
          | Inr (ParkedAs reason pr) \<Rightarrow> give 0)))"

definition reconcile_run :: "watcher \<Rightarrow> string \<Rightarrow> nat xop" where
  "reconcile_run W i =
     follow (get_run i) (\<lambda>run. follow (settle_run W run) (\<lambda>r.
       case r of None \<Rightarrow> give 0 | Some r \<Rightarrow> deliver_run W r))"

definition reconcile_runs :: "watcher \<Rightarrow> nat xop" where
  "reconcile_runs W =
     follow (observe pending_runs) (\<lambda>rs. follow (each_op (\<lambda>r. reconcile_run W (xr_id r)) rs) (\<lambda>ns. give (sum_list ns)))"

subsection \<open>What every write keeps\<close>

definition same_run :: "run_row \<Rightarrow> run_row \<Rightarrow> bool" where
  "same_run r r' \<longleftrightarrow> xr_id r' = xr_id r \<and> xr_run r' = xr_run r \<and> xr_root r' = xr_root r \<and> xr_session r' = xr_session r
     \<and> xr_workspace r' = xr_workspace r \<and> xr_writer r' = xr_writer r \<and> xr_key r' = xr_key r \<and> xr_path r' = xr_path r
     \<and> xr_created r' = xr_created r"

definition run_ok :: "run_row \<Rightarrow> bool" where
  "run_ok r \<longleftrightarrow> (xr_state r \<in> open_states \<longleftrightarrow> xr_outcome r = None) \<and> (xr_state r \<in> open_states \<longleftrightarrow> xr_terminal_at r = None)
     \<and> (xr_state r \<in> open_states \<longrightarrow> xr_digest r = None)
     \<and> (xr_state r = Running \<longrightarrow> xr_pid r \<noteq> None \<and> xr_fingerprint r \<noteq> None)
     \<and> (xr_state r = Notified \<longleftrightarrow> xr_notified_at r \<noteq> None) \<and> xr_key r = ''external-run:'' @ xr_id r"

fun later_states :: "run_state \<Rightarrow> run_state set" where
  "later_states Subscribed = UNIV"
| "later_states Running = UNIV - {Subscribed}"
| "later_states Terminal = {Terminal, Delivering, Notified}"
| "later_states Vanished = {Vanished, Delivering, Notified}"
| "later_states Delivering = {Delivering, Notified}"
| "later_states Notified = {Notified}"

definition run_evolves :: "run_row \<Rightarrow> run_row \<Rightarrow> bool" where
  "run_evolves r r' \<longleftrightarrow> same_run r r' \<and> xr_version r \<le> xr_version r' \<and> xr_state r' \<in> later_states (xr_state r)
     \<and> (xr_version r' = xr_version r \<longrightarrow> xr_state r' = xr_state r)
     \<and> (xr_state r \<notin> open_states \<longrightarrow> xr_outcome r' = xr_outcome r \<and> xr_digest r' = xr_digest r \<and> xr_terminal_at r' = xr_terminal_at r)
     \<and> (run_ok r \<longrightarrow> run_ok r')"

lemma later_states_refl: "s \<in> later_states s"
  by (cases s) auto

lemma later_states_trans: "b \<in> later_states a \<Longrightarrow> c \<in> later_states b \<Longrightarrow> c \<in> later_states a"
  by (cases a; cases b; cases c) auto

lemma later_states_closed: "s \<notin> open_states \<Longrightarrow> t \<in> later_states s \<Longrightarrow> t \<notin> open_states"
  by (cases s; cases t) (auto simp: open_states_def)

interpretation runs: evolving_table xr_id run_evolves
proof
  show "run_evolves r r" for r by (simp add: run_evolves_def same_run_def later_states_refl)
  show "run_evolves a c" if "run_evolves a b" "run_evolves b c" for a b c
  proof -
    have "xr_version b = xr_version a \<and> xr_version c = xr_version b" if "xr_version c = xr_version a"
      using \<open>run_evolves a b\<close> \<open>run_evolves b c\<close> that by (simp add: run_evolves_def)
    then show ?thesis
      using that later_states_trans [of "xr_state b" "xr_state a" "xr_state c"] later_states_closed [of "xr_state a" "xr_state b"]
      by (auto simp: run_evolves_def same_run_def)
  qed
  show "run_evolves r r' \<Longrightarrow> xr_id r' = xr_id r" for r r' by (simp add: run_evolves_def same_run_def)
qed

definition unreported :: "run_row \<Rightarrow> bool" where
  "unreported r \<longleftrightarrow> xr_state r \<noteq> Notified"

definition lease_of_run :: "run_row \<Rightarrow> root_lease \<Rightarrow> bool" where
  "lease_of_run r l \<longleftrightarrow> xl_id l = xr_id r \<and> xl_root l = xr_root r \<and> (xl_active l \<longleftrightarrow> unreported r)"

definition x_ok :: "xworld \<Rightarrow> bool" where
  "x_ok w \<longleftrightarrow> distinct (map xr_id (xw_runs w)) \<and> distinct (map xr_run (xw_runs w))
     \<and> list_all2 lease_of_run (xw_runs w) (xw_leases w)
     \<and> distinct (map xr_root (filter unreported (xw_runs w))) \<and> list_all run_ok (xw_runs w)"

definition x_step :: "xworld \<Rightarrow> xworld \<Rightarrow> bool" where
  "x_step w w' \<longleftrightarrow> (x_ok w \<longrightarrow> x_ok w' \<and> grows xr_id run_evolves (xw_runs w) (xw_runs w'))"

lemma x_step_preorder: "preorder x_step"
  by (auto simp: preorder_def reflp_def transp_def x_step_def runs.grows_refl intro: runs.grows_trans)

text \<open>A rewriting of the rows that only lets them evolve, with leases to match.\<close>

lemma x_step_map:
  assumes "xw_runs w' = map g (xw_runs w)" and "\<And>r. r \<in> set (xw_runs w) \<Longrightarrow> run_evolves r (g r)"
    and "\<And>r l. r \<in> set (xw_runs w) \<Longrightarrow> lease_of_run r l \<Longrightarrow> lease_of_run (g r) (h l)" and "xw_leases w' = map h (xw_leases w)"
    and "x_ok w"
  shows "x_ok w' \<and> grows xr_id run_evolves (xw_runs w) (xw_runs w')"
proof -
  have fields: "xr_id (g r) = xr_id r" "xr_run (g r) = xr_run r" "xr_root (g r) = xr_root r" "run_ok (g r)"
    "unreported (g r) \<Longrightarrow> unreported r" if "r \<in> set (xw_runs w)" for r
    using assms(2) [OF that] assms(5) that
    by (cases "xr_state r"; auto simp: run_evolves_def same_run_def x_ok_def list_all_iff unreported_def)+
  have same: "map f (map g (xw_runs w)) = map f (xw_runs w)" if "\<And>r. r \<in> set (xw_runs w) \<Longrightarrow> f (g r) = f r" for f :: "run_row \<Rightarrow> string"
    using that by simp
  have "map xr_root (filter unreported (map g rs)) = map xr_root (filter (unreported \<circ> g) (filter unreported rs))"
    if "set rs \<subseteq> set (xw_runs w)" for rs
    using that by (induction rs) (auto simp: fields(3) dest: fields(5))
  from this [of "xw_runs w"] have roots: "distinct (map xr_root (filter unreported (map g (xw_runs w))))"
    using assms(5) by (simp only: subset_refl x_ok_def distinct_map_filter)
  have leases: "list_all2 lease_of_run (map g (xw_runs w)) (map h (xw_leases w))"
    using assms(3,5) by (auto simp: x_ok_def list_all2_conv_all_nth)
  have keys: "distinct (map xr_id (map g (xw_runs w)))" "distinct (map xr_run (map g (xw_runs w)))"
    using assms(5) by (simp_all only: same fields(1,2) x_ok_def)
  have "list_all run_ok (map g (xw_runs w))" by (simp add: list_all_iff fields(4))
  with roots leases keys have "x_ok w'" unfolding x_ok_def assms(1,4) by blast
  moreover have "grows xr_id run_evolves (xw_runs w) (xw_runs w')"
    unfolding assms(1)
    by (rule runs.grows_map) (use assms(2) in auto)
  ultimately show ?thesis by blast
qed

lemma update_by_map: "update_by key k G f rows = map (\<lambda>r. if key r = k \<and> G r then f r else r) rows"
  by (simp add: update_by_def)

lemma x_step_update:
  assumes "\<And>r. r \<in> set (xw_runs w) \<Longrightarrow> G r \<Longrightarrow> run_evolves r (f r) \<and> (unreported (f r) \<longleftrightarrow> unreported r)"
  shows "x_step w (w\<lparr>xw_runs := update_by xr_id i G f (xw_runs w)\<rparr>)"
  unfolding x_step_def
proof
  assume ok: "x_ok w"
  let ?g = "\<lambda>r. if xr_id r = i \<and> G r then f r else r"
  show "x_ok (w\<lparr>xw_runs := update_by xr_id i G f (xw_runs w)\<rparr>)
    \<and> grows xr_id run_evolves (xw_runs w) (xw_runs (w\<lparr>xw_runs := update_by xr_id i G f (xw_runs w)\<rparr>))"
  proof (rule x_step_map [where g = ?g and h = "\<lambda>l. l"])
    fix r l
    assume r: "r \<in> set (xw_runs w)"
    show "run_evolves r (?g r)" using assms [OF r] runs.R_refl by simp
    show "lease_of_run (?g r) l" if "lease_of_run r l"
      using that assms [OF r] by (auto simp: lease_of_run_def run_evolves_def same_run_def)
  qed (simp_all add: update_by_map ok)
qed

lemma keeps_get_run: "keeps x_step (get_run i)"
  unfolding get_run_def
  by (intro keeps_follow [OF x_step_preorder] keeps_basic [OF x_step_preorder] keeps_option)

lemmas x_keeps = keeps_basic [OF x_step_preorder] keeps_follow [OF x_step_preorder] keeps_each [OF x_step_preorder]
  keeps_if keeps_option keeps_get_run

lemma keeps_transition_run:
  assumes "\<And>r. run_due states version r \<Longrightarrow>
      run_evolves r ((assign r)\<lparr>xr_state := target, xr_version := xr_version r + 1, xr_updated := now\<rparr>)"
    and "target \<noteq> Notified" and "Notified \<notin> states"
  shows "keeps x_step (transition_run i states target version assign now)"
proof (rule keepsI)
  fix w :: xworld and r and w' :: xworld
  let ?f = "\<lambda>r. (assign r)\<lparr>xr_state := target, xr_version := xr_version r + 1, xr_updated := now\<rparr>"
  let ?w1 = "w\<lparr>xw_runs := update_by xr_id i (run_due states version) ?f (xw_runs w)\<rparr>"
  assume run: "transition_run i states target version assign now w = (r, w')"
  have step: "x_step w ?w1"
    by (rule x_step_update) (use assms in \<open>auto simp: run_due_def unreported_def\<close>)
  show "x_step w w'"
  proof (cases "hits_by xr_id i (run_due states version) (xw_runs w)")
    case True
    with run have "get_run i ?w1 = (r, w')" by (simp add: transition_run_def)
    from preorder_trans [OF x_step_preorder step keepsD [OF keeps_get_run this]] show ?thesis .
  next
    case False
    have "keeps x_step (follow (get_run i) (\<lambda>r. raising (XStale i (xr_state r)) :: run_row xop))" by (intro x_keeps)
    from keepsD [OF this] run False show ?thesis by (simp add: transition_run_def)
  qed
qed

lemma evolve_simps:
  "run_due S v r \<Longrightarrow> xr_state r \<in> S"
  by (simp add: run_due_def)

lemma keeps_bind: "keeps x_step (bind_run sha256 observer i capability pid fingerprint version now)"
  unfolding bind_run_def
  by (intro x_keeps keeps_transition_run)
    (auto simp: run_due_def run_evolves_def same_run_def run_ok_def open_states_def)

lemma keeps_preserve_lost: "keeps x_step (preserve_lost run why now)"
  unfolding preserve_lost_def
  by (intro keeps_transition_run)
    (auto simp: run_due_def run_evolves_def same_run_def run_ok_def open_states_def)

lemma keeps_diagnose: "keeps x_step (diagnose R run message now)"
  unfolding diagnose_def
proof (intro x_keeps)
  show "keeps x_step (modify (\<lambda>w. w\<lparr>xw_runs := update_by xr_id (xr_id run) (\<lambda>r. xr_version r = xr_version run)
      (\<lambda>r. r\<lparr>xr_diagnostic := Some (redact_credentials R message), xr_updated := now\<rparr>) (xw_runs w)\<rparr>))"
    by (rule keepsI) (auto simp: modify_def run_evolves_def same_run_def run_ok_def later_states_refl unreported_def
        intro!: x_step_update)
qed

lemma keeps_preserve_terminal: "keeps x_step (preserve_terminal R run rc now)"
  unfolding preserve_terminal_def
  by (intro x_keeps keeps_diagnose keeps_transition_run)
    (auto simp: run_due_def run_evolves_def same_run_def run_ok_def open_states_def)

lemma keeps_begin_delivery: "keeps x_step (begin_delivery run now)"
  unfolding begin_delivery_def
  by (intro x_keeps keeps_transition_run)
    (auto simp: run_due_def run_evolves_def same_run_def run_ok_def open_states_def)

lemma keeps_mark_notified: "keeps x_step (mark_notified run now)"
proof (rule keepsI)
  fix w :: xworld and r and w' :: xworld
  let ?G = "run_due {Delivering} (xr_version run)" and ?i = "xr_id run"
  let ?f = "\<lambda>r. r\<lparr>xr_state := Notified, xr_notified_at := Some now, xr_version := xr_version r + 1, xr_updated := now\<rparr>"
  let ?w1 = "w\<lparr>xw_runs := update_by xr_id ?i ?G ?f (xw_runs w), xw_leases := update_by xl_id ?i xl_active (release_root now) (xw_leases w)\<rparr>"
  assume run: "mark_notified run now w = (r, w')"
  show "x_step w w'"
  proof (cases "hits_by xr_id ?i ?G (xw_runs w)")
    case True
    have "x_step w ?w1"
      unfolding x_step_def
    proof
      assume ok: "x_ok w"
      from True obtain q where q: "q \<in> set (xw_runs w)" "xr_id q = ?i" "?G q" by (auto simp: hits_by_def list_ex_iff)
      have only: "?G r" if "r \<in> set (xw_runs w)" "xr_id r = ?i" for r
      proof -
        from ok have "inj_on xr_id (set (xw_runs w))" by (simp add: x_ok_def distinct_map)
        with that q(1,2) have "r = q" by (metis inj_onD)
        with q(3) show ?thesis by simp
      qed
      let ?g = "\<lambda>r. if xr_id r = ?i \<and> ?G r then ?f r else r"
      let ?h = "\<lambda>l. if xl_id l = ?i \<and> xl_active l then release_root now l else l"
      show "x_ok ?w1 \<and> grows xr_id run_evolves (xw_runs w) (xw_runs ?w1)"
      proof (rule x_step_map [where g = ?g and h = ?h])
        fix r l
        assume r: "r \<in> set (xw_runs w)"
        show "run_evolves r (?g r)"
          by (auto simp: run_due_def run_evolves_def same_run_def run_ok_def open_states_def later_states_refl)
        show "lease_of_run (?g r) (?h l)" if "lease_of_run r l"
          using that only [OF r] by (auto simp: lease_of_run_def release_root_def unreported_def run_due_def)
      qed (simp_all add: update_by_map ok)
    qed
    with True run keepsD [OF keeps_get_run] preorder_trans [OF x_step_preorder] show ?thesis
      by (auto simp: mark_notified_def)
  next
    case False
    have "keeps x_step (follow (get_run ?i) (\<lambda>r. if xr_state r = Notified then give r else raising (XStale ?i (xr_state r))))"
      by (intro x_keeps)
    from keepsD [OF this] run False show ?thesis by (simp add: mark_notified_def)
  qed
qed

lemma x_step_insert:
  assumes "lease_free (xr_id r) (xr_root r) w" "run_free r w" "lease_of_run r l" "unreported r" "run_ok r"
  shows "x_step w (w\<lparr>xw_roots := roots, xw_runs := xw_runs w @ [r], xw_leases := xw_leases w @ [l]\<rparr>)"
  unfolding x_step_def
proof (intro impI conjI)
  assume ok: "x_ok w"
  have "xr_root r \<noteq> xr_root q" if q: "q \<in> set (xw_runs w)" "unreported q" for q
  proof -
    from ok q(1) obtain k where "k \<in> set (xw_leases w)" "lease_of_run q k"
      unfolding x_ok_def list_all2_conv_all_nth by (metis in_set_conv_nth)
    with assms(1) q(2) show ?thesis by (auto simp: lease_free_def lease_of_run_def list_ex_iff)
  qed
  then have "xr_root r \<notin> xr_root ` set (filter unreported (xw_runs w))"
    unfolding set_filter image_iff by blast
  moreover have "xr_id r \<notin> xr_id ` set (xw_runs w)" "xr_run r \<notin> xr_run ` set (xw_runs w)"
    using assms(2) by (auto simp: run_free_def list_ex_iff)
  ultimately show "x_ok (w\<lparr>xw_roots := roots, xw_runs := xw_runs w @ [r], xw_leases := xw_leases w @ [l]\<rparr>)"
    using ok assms(3-5) by (simp add: x_ok_def list_all2_appendI)
qed (simp add: runs.grows_append)

lemma new_run_fields [simp]:
  "xr_id (new_run R i digest now run dir session ws) = i"
  "unreported (new_run R i digest now run dir session ws)"
  "run_ok (new_run R i digest now run dir session ws)"
  by (simp_all add: new_run_def unreported_def run_ok_def open_states_def)

lemma subscribe_step: "x_step w (snd (subscribe R sha256 resolve_path i capability now run path session ws w))"
proof -
  define r where "r = new_run R i (sha256 capability) now run (resolve_path path) session ws"
  define l where "l = \<lparr>xl_id = i, xl_root = xr_root r, xl_active = True, xl_version = 0, xl_created = now, xl_released = None\<rparr>"
  define roots where "roots = (xw_roots w)(resolve_path path := RootEmpty)"
  have "xr_id r = i" "unreported r" "run_ok r" by (simp_all add: r_def)
  moreover have "lease_of_run r l" using calculation by (simp add: lease_of_run_def l_def)
  ultimately have "x_step w (w\<lparr>xw_roots := roots, xw_runs := xw_runs w @ [r], xw_leases := xw_leases w @ [l]\<rparr>)"
    if "lease_free i (xr_root r) w" "run_free r w"
    using that x_step_insert [of r w l roots] by simp
  then show ?thesis
    unfolding subscribe_def Let_def r_def [symmetric] l_def [symmetric] roots_def [symmetric]
    by (auto simp: preorder_refl [OF x_step_preorder])
qed

lemma x_step_esc: "x_step w (w\<lparr>xw_esc := e\<rparr>)" "x_step w (w\<lparr>xw_roots := f\<rparr>)"
  by (simp_all add: x_step_def x_ok_def runs.grows_refl)

lemma keeps_settle_run: "keeps x_step (settle_run W run)"
proof (cases "read_receipt W run")
  case (Inl e)
  then show ?thesis
    by (cases e) (simp_all add: settle_run_def x_keeps keeps_preserve_lost cong: if_cong)
next
  case (Inr r)
  then show ?thesis
    by (cases r) (simp_all add: settle_run_def x_keeps keeps_preserve_lost keeps_preserve_terminal cong: if_cong)
qed

lemma keeps_report_run: "keeps x_step (report_run W run)"
  by (rule keepsI) (auto simp: report_run_def x_step_esc split: prod.splits)

lemma keeps_deliver_run: "keeps x_step (deliver_run W run)"
proof -
  have "keeps x_step (case res of
            Inl e \<Rightarrow> if report_caught e then give 0 else raising (XEsc e)
          | Inr (Delivered cls p wsp a v) \<Rightarrow> follow (mark_notified r (wa_now W)) (\<lambda>_. give 1)
          | Inr (ParkedAs reason pr) \<Rightarrow> give (0 :: nat))" for res r
    by (auto split: sum.splits esc_result.splits intro!: x_keeps keeps_mark_notified)
  then show ?thesis
    unfolding deliver_run_def by (intro x_keeps keeps_begin_delivery keeps_report_run)
qed

lemma keeps_reconcile_run: "keeps x_step (reconcile_run W i)"
  unfolding reconcile_run_def by (intro x_keeps keeps_settle_run keeps_deliver_run)

lemma keeps_reconcile_runs: "keeps x_step (reconcile_runs W)"
  unfolding reconcile_runs_def by (intro x_keeps keeps_reconcile_run)

subsection \<open>Every run of the store\<close>

text \<open>
  The commands of the runner, whole passes, the single writes of a pass another process
  interleaves with (each with the row that process last read), and what happens beside them: the
  escalation store of the same file moves, and the runner writes into its directory.
\<close>

inductive xstep :: "xworld \<Rightarrow> xworld \<Rightarrow> bool" where
  "xstep w (snd (subscribe R sha256 resolve_path i capability now run path session ws w))"
| "xstep w (snd (bind_run sha256 observer i capability pid fingerprint version now w))"
| "xstep w (snd (preserve_terminal R run rc now w))"
| "xstep w (snd (preserve_lost run why now w))"
| "xstep w (snd (begin_delivery run now w))"
| "xstep w (snd (report_run W run w))"
| "xstep w (snd (mark_notified run now w))"
| "xstep w (snd (reconcile_runs W w))"
| "xstep w (w\<lparr>xw_esc := e\<rparr>)"
| "xstep w (w\<lparr>xw_roots := f\<rparr>)"

lemma keeps_snd: "keeps x_step m \<Longrightarrow> x_step w (snd (m w))"
  by (simp add: keeps_def)

lemmas x_ops = subscribe_step keeps_bind keeps_preserve_terminal keeps_preserve_lost keeps_begin_delivery keeps_report_run
  keeps_mark_notified keeps_reconcile_runs x_step_esc

lemma xstep_step: "xstep w w' \<Longrightarrow> x_step w w'"
  by (induction rule: xstep.induct) (intro x_ops keeps_snd)+

lemma x_ok_empty: "x_ok empty_xworld"
  by (simp add: x_ok_def empty_xworld_def)

lemma x_step_found:
  assumes "x_ok w" "x_step w w'" "find_run i w = Some r"
  obtains r' where "find_run i w' = Some r'" "run_evolves r r'" "run_ok r"
proof -
  from assms(1,2) have "grows xr_id run_evolves (xw_runs w) (xw_runs w')" by (simp add: x_step_def)
  with assms(3) obtain r' where "find_run i w' = Some r'" "run_evolves r r'" by (auto simp: find_run_def grows_def)
  moreover from assms(1,3) have "run_ok r" by (auto simp: x_ok_def find_run_def list_all_iff dest: lookup_by_SomeD)
  ultimately show ?thesis using that by blast
qed

definition run_report :: "string \<Rightarrow> xworld \<Rightarrow> (string option \<times> string option \<times> real option) option" where
  "run_report i w = map_option (\<lambda>r. (xr_outcome r, xr_digest r, xr_terminal_at r)) (find_run i w)"

interpretation reports: settling_system xstep empty_xworld x_ok run_report "\<lambda>v. fst v \<noteq> None"
proof
  show "x_ok empty_xworld" by (rule x_ok_empty)
  show "x_ok w'" if "x_ok w" "xstep w w'" for w w' using xstep_step [OF that(2)] that(1) by (simp add: x_step_def)
  show "run_report i w' = Some v" if "x_ok w" "xstep w w'" "run_report i w = Some v" "fst v \<noteq> None" for w w' i v
  proof -
    from that(3) obtain r where r: "find_run i w = Some r" "v = (xr_outcome r, xr_digest r, xr_terminal_at r)"
      by (auto simp: run_report_def)
    from x_step_found [OF that(1) xstep_step [OF that(2)] r(1)] obtain r' where
      r': "find_run i w' = Some r'" "run_evolves r r'" "run_ok r" .
    with that(4) r(2) have "xr_state r \<notin> open_states" by (simp add: run_ok_def)
    with r r' show ?thesis by (simp add: run_report_def run_evolves_def)
  qed
qed
subsection \<open>One pass over one run\<close>

lemma find_run_id: "find_run i w = Some r \<Longrightarrow> xr_id r = i"
  by (auto simp: find_run_def dest: lookup_by_SomeD)

lemma find_run_esc [simp]: "find_run i (w\<lparr>xw_esc := e\<rparr>) = find_run i w"
  by (simp add: find_run_def)

lemma find_run_update:
  assumes "\<And>r. xr_id (f r) = xr_id r"
  shows "find_run j (w\<lparr>xw_runs := update_by xr_id i G f (xw_runs w)\<rparr>)
    = map_option (\<lambda>r. if j = i \<and> G r then f r else r) (find_run j w)"
  using assms by (simp add: find_run_def lookup_update_by)

lemma get_run_eq: "get_run i w = (case find_run i w of None \<Rightarrow> Inl (XRun ''unknown external run subscription'') | Some r \<Rightarrow> Inr r, w)"
  by (simp add: get_run_def follow_def split: option.splits)

lemma hits_found: "find_run i w = Some r \<Longrightarrow> G r \<Longrightarrow> hits_by xr_id i G (xw_runs w)"
  by (auto simp: find_run_def hits_by_def list_ex_iff dest: lookup_by_SomeD)

lemma hits_missed: "x_ok w \<Longrightarrow> find_run i w = Some r \<Longrightarrow> \<not> G r \<Longrightarrow> \<not> hits_by xr_id i G (xw_runs w)"
  by (simp add: x_ok_def find_run_def hits_by_iff)

lemma transition_hit:
  assumes "find_run i w = Some r" "run_due S v r" "\<And>r. xr_id (assign r) = xr_id r"
  shows "\<exists>w'. transition_run i S t v assign now w
              = (Inr ((assign r)\<lparr>xr_state := t, xr_version := xr_version r + 1, xr_updated := now\<rparr>), w')
           \<and> find_run i w' = Some ((assign r)\<lparr>xr_state := t, xr_version := xr_version r + 1, xr_updated := now\<rparr>)
           \<and> xw_esc w' = xw_esc w \<and> xw_leases w' = xw_leases w"
  using assms by (simp add: transition_run_def hits_found get_run_eq find_run_update)

lemma transition_miss:
  assumes "x_ok w" "find_run i w = Some r" "\<not> run_due S v r"
  shows "transition_run i S t v assign now w = (Inl (XStale i (xr_state r)), w)"
  using assms by (simp add: transition_run_def hits_missed follow_def get_run_eq)

text \<open>A terminal receipt nobody recorded yet, for a run that left the open states: the write misses.\<close>

lemma late_receipt_is_stale:
  assumes "x_ok w" "find_run i w = Some r" "xr_state r \<notin> open_states" "xr_digest r = None"
    "read_receipt W r = Inr (Some rc)"
  shows "reconcile_run W i w = (Inl (XStale i (xr_state r)), w)"
proof -
  have "preserve_terminal (wa_redactor W) r rc (wa_now W) w = (Inl (XStale i (xr_state r)), w)"
    using assms(4) transition_miss [OF assms(1,2)] assms(3) find_run_id [OF assms(2)]
    by (simp add: preserve_terminal_def truthy_def run_due_def)
  with assms(2,5) show ?thesis
    by (simp add: reconcile_run_def settle_run_def follow_def get_run_eq)
qed

text \<open>
  Such a run is the first in the queue: the pass raises there, so no later run is looked at, and
  since nothing was written the next pass does the same.
\<close>

lemma late_receipt_stops_the_pass:
  assumes "x_ok w" "pending_runs w = r # rs" "xr_state r \<notin> open_states" "xr_digest r = None"
    "read_receipt W r = Inr (Some rc)"
  shows "reconcile_runs W w = (Inl (XStale (xr_id r) (xr_state r)), w)"
proof -
  have "r \<in> set (pending_runs w)" using assms(2) by simp
  then have "r \<in> set (xw_runs w)" by (simp add: pending_runs_def)
  with assms(1) have "find_run (xr_id r) w = Some r"
    by (simp add: x_ok_def find_run_def lookup_by_eq_Some_iff)
  from late_receipt_is_stale [OF assms(1) this assms(3-5)] assms(2) show ?thesis
    by (simp add: reconcile_runs_def follow_def)
qed
subsection \<open>The report\<close>

lemma acknowledge_found:
  "acknowledge R wid now child parent kind intent message key db = (Inr a, db') \<Longrightarrow> lookup_by ak_key key (es_acks db') = Some a"
  by (auto simp: acknowledge_def Let_def split: if_splits option.splits)

lemma escalate_delivered:
  assumes "escalate R c pystr sha256 wid now child ws parent message dkey db = (Inr (Delivered cls p i a f), db', sends)"
  shows "\<exists>m. sends = [m] \<and> cl_send c m \<noteq> None \<and> sm_to m = the parent \<and> sm_body m = message
    \<and> sm_key m = escalation_key sha256 child message dkey
    \<and> lookup_by ak_key (escalation_key sha256 child message dkey) (es_acks db') = Some a"
  using assms
  by (auto simp: escalate_def Let_def split: parent_view.splits prod.splits sum.splits option.splits dest: acknowledge_found)

lemma escalate_live:
  assumes "view_parent c pystr child parent = parent_view.Live v" "\<forall>m. cl_send c m \<noteq> None" "vfield ''id'' v \<noteq> None"
    "lookup_by ak_id wid (es_acks db) = None"
  shows "\<exists>cls p i a f db' sends. escalate R c pystr sha256 wid now child ws parent message dkey db = (Inr (Delivered cls p i a f), db', sends)"
proof -
  let ?cls = "classify_escalation message" and ?key = "escalation_key sha256 child message dkey"
  let ?m = "\<lparr>sm_to = the parent, sm_body = message, sm_from = child, sm_key = ?key, sm_intent = ec_intent ?cls\<rparr>"
  from assms(2) obtain f where f: "cl_send c ?m = Some f" by blast
  from assms(3) obtain i where i: "vfield ''id'' v = Some i" by blast
  obtain a db' where "acknowledge R wid now child (the parent) (ec_kind ?cls) (ec_intent ?cls) message ?key db = (Inr a, db')"
    using acknowledge_outcome [OF refl assms(4), where message = message and key = ?key and R = R and now = now and child = child
        and parent = "the parent"] by (metis prod.collapse)
  then show ?thesis by (simp add: escalate_def Let_def assms(1) f i)
qed
definition run_parent :: "watcher \<Rightarrow> run_row \<Rightarrow> parent_view" where
  "run_parent W r = view_parent (wa_client W) (wa_pystr W) (''external-run:'' @ xr_id r) (Some (xr_session r))"

lemma run_key: "run_ok r \<Longrightarrow> escalation_key sha child message (Some (xr_key r)) = xr_key r"
  by (simp add: escalation_key_def truthy_def run_ok_def)

lemma begin_succeeds:
  assumes r: "find_run i w = Some r" and state: "xr_state r \<in> {Terminal, Vanished, Delivering}"
  shows "\<exists>r2 w2. begin_delivery r now w = (Inr r2, w2) \<and> find_run i w2 = Some r2 \<and> xr_state r2 = Delivering
    \<and> xr_outcome r2 = xr_outcome r \<and> xr_digest r2 = xr_digest r \<and> xr_key r2 = xr_key r \<and> xr_id r2 = i
    \<and> xr_session r2 = xr_session r \<and> xw_esc w2 = xw_esc w"
proof (cases "xr_state r = Delivering")
  case True
  with r find_run_id [OF r] show ?thesis by (simp add: begin_delivery_def)
next
  case False
  let ?r2 = "r\<lparr>xr_state := Delivering, xr_version := xr_version r + 1, xr_updated := now\<rparr>"
  from False state have "run_due {Terminal, Vanished} (xr_version r) r" by (simp add: run_due_def)
  from transition_hit [OF r this, where assign = "\<lambda>r. r" and t = Delivering and now = now] obtain w2 where
    "transition_run i {Terminal, Vanished} Delivering (xr_version r) (\<lambda>r. r) now w = (Inr ?r2, w2)" "find_run i w2 = Some ?r2"
    "xw_esc w2 = xw_esc w" by auto
  with False find_run_id [OF r] show ?thesis by (intro exI [of _ ?r2] exI [of _ w2]) (simp add: begin_delivery_def)
qed

lemma released_leases: "list_all (\<lambda>l. xl_id l = i \<longrightarrow> \<not> xl_active l) (update_by xl_id i xl_active (release_root now) ls)"
  by (induction ls) (simp_all add: release_root_def)

lemma mark_succeeds:
  assumes r: "find_run i w = Some r" "xr_state r = Delivering"
  shows "\<exists>w' r'. mark_notified r now w = (Inr r', w') \<and> find_run i w' = Some r' \<and> xr_state r' = Notified
    \<and> xr_outcome r' = xr_outcome r \<and> xr_digest r' = xr_digest r \<and> xw_esc w' = xw_esc w
    \<and> (\<forall>l \<in> set (xw_leases w'). xl_id l = i \<longrightarrow> \<not> xl_active l)"
proof -
  let ?r' = "r\<lparr>xr_state := Notified, xr_notified_at := Some now, xr_version := xr_version r + 1, xr_updated := now\<rparr>"
  let ?ls = "update_by xl_id i xl_active (release_root now) (xw_leases w)"
  have due: "run_due {Delivering} (xr_version r) r" using r(2) by (simp add: run_due_def)
  have released: "\<forall>l \<in> set ?ls. xl_id l = i \<longrightarrow> \<not> xl_active l"
    using released_leases by (simp only: list_all_iff)
  define w' where "w' = w\<lparr>xw_runs := update_by xr_id i (run_due {Delivering} (xr_version r))
     (\<lambda>r. r\<lparr>xr_state := Notified, xr_notified_at := Some now, xr_version := xr_version r + 1, xr_updated := now\<rparr>) (xw_runs w), xw_leases := ?ls\<rparr>"
  have found: "find_run i w' = Some ?r'"
    using r(1) due by (simp add: w'_def find_run_def lookup_update_by)
  have hit: "hits_by xr_id i (run_due {Delivering} (xr_version r)) (xw_runs w)" using hits_found [OF r(1)] due by blast
  have "mark_notified r now w = get_run i w'"
    by (simp only: mark_notified_def find_run_id [OF r(1)] hit if_True w'_def)
  also have "\<dots> = (Inr ?r', w')" by (simp add: get_run_eq found)
  finally have "mark_notified r now w = (Inr ?r', w')" .
  moreover have "xw_esc w' = xw_esc w" "xw_leases w' = ?ls" by (simp_all add: w'_def)
  ultimately show ?thesis using found released by (intro exI [of _ w'] exI [of _ ?r']) simp
qed

lemma report_succeeds:
  assumes "run_ok r" "run_parent W r = parent_view.Live v" "\<forall>m. cl_send (wa_client W) m \<noteq> None" "vfield ''id'' v \<noteq> None"
    "lookup_by ak_id (wa_wid W (xr_id r)) (es_acks (xw_esc w)) = None"
  shows "\<exists>cls p j a f e. report_run W r w = (Inr (Inr (Delivered cls p j a f)), w\<lparr>xw_esc := e\<rparr>)
           \<and> lookup_by ak_key (xr_key r) (es_acks e) = Some a"
proof -
  define child where "child = ''external-run:'' @ xr_id r"
  from assms(2) have parent: "view_parent (wa_client W) (wa_pystr W) child (Some (xr_session r)) = parent_view.Live v"
    by (simp only: run_parent_def child_def)
  from escalate_live [OF parent assms(3-5), of "wa_redactor W" "wa_sha W" "wa_now W" "xr_workspace r" "run_message r" "Some (xr_key r)"]
  obtain cls p j a f e sends where
    sent: "escalate (wa_redactor W) (wa_client W) (wa_pystr W) (wa_sha W) (wa_wid W (xr_id r)) (wa_now W) child
       (xr_workspace r) (Some (xr_session r)) (run_message r) (Some (xr_key r)) (xw_esc w) = (Inr (Delivered cls p j a f), e, sends)"
    by (elim exE)
  from escalate_delivered [OF sent] have "lookup_by ak_key (xr_key r) (es_acks e) = Some a"
    unfolding run_key [OF assms(1)] by (elim exE conjE)
  moreover have "report_run W r w = (Inr (Inr (Delivered cls p j a f)), w\<lparr>xw_esc := e\<rparr>)"
    unfolding report_run_def child_def [symmetric] sent by simp
  ultimately show ?thesis by (intro exI conjI)
qed

text \<open>A finished run whose subscriber listens is reported and its directory released.\<close>

lemma deliver_succeeds:
  assumes w: "x_ok w" and r: "find_run i w = Some r" and state: "xr_state r \<in> {Terminal, Vanished, Delivering}"
    and client: "run_parent W r = parent_view.Live v" "\<forall>m. cl_send (wa_client W) m \<noteq> None" "vfield ''id'' v \<noteq> None"
    and fresh: "lookup_by ak_id (wa_wid W i) (es_acks (xw_esc w)) = None"
  shows "\<exists>w' r'. deliver_run W r w = (Inr 1, w') \<and> find_run i w' = Some r' \<and> xr_state r' = Notified
           \<and> xr_outcome r' = xr_outcome r \<and> xr_digest r' = xr_digest r
           \<and> lookup_by ak_key (xr_key r) (es_acks (xw_esc w')) \<noteq> None
           \<and> (\<forall>l \<in> set (xw_leases w'). xl_id l = i \<longrightarrow> \<not> xl_active l)"
proof -
  have i: "xr_id r = i" by (rule find_run_id [OF r])
  from begin_succeeds [OF r state, of "wa_now W"] obtain r2 w2 where
    begun: "begin_delivery r (wa_now W) w = (Inr r2, w2)" "find_run i w2 = Some r2" "xr_state r2 = Delivering"
    and same: "xr_outcome r2 = xr_outcome r" "xr_digest r2 = xr_digest r" "xr_key r2 = xr_key r" "xr_id r2 = i" "xr_session r2 = xr_session r"
    and esc: "xw_esc w2 = xw_esc w" by (elim exE conjE) (erule (8) that)
  have "x_ok w2"
    using keepsD [OF keeps_begin_delivery begun(1)] w by (simp add: x_step_def)
  with begun(2) have ok: "run_ok r2" by (auto simp: x_ok_def find_run_def list_all_iff dest: lookup_by_SomeD)
  have parent: "run_parent W r2 = parent_view.Live v"
    using client(1) unfolding run_parent_def same(4,5) i .
  have fresh2: "lookup_by ak_id (wa_wid W (xr_id r2)) (es_acks (xw_esc w2)) = None"
    using fresh unfolding same(4) esc .
  from report_succeeds [OF ok parent client(2,3) fresh2] obtain cls p j a f e where
    report: "report_run W r2 w2 = (Inr (Inr (Delivered cls p j a f)), w2\<lparr>xw_esc := e\<rparr>)"
    and ack: "lookup_by ak_key (xr_key r2) (es_acks e) = Some a" by (elim exE conjE)
  have "find_run i (w2\<lparr>xw_esc := e\<rparr>) = Some r2" using begun(2) by simp
  from mark_succeeds [OF this begun(3), of "wa_now W"] obtain w' r' where
    mark: "mark_notified r2 (wa_now W) (w2\<lparr>xw_esc := e\<rparr>) = (Inr r', w')" "find_run i w' = Some r'" "xr_state r' = Notified"
      "xr_outcome r' = xr_outcome r2" "xr_digest r' = xr_digest r2" "xw_esc w' = e"
      "\<forall>l \<in> set (xw_leases w'). xl_id l = i \<longrightarrow> \<not> xl_active l"
    by (elim exE conjE) (simp add: that)
  have "deliver_run W r w = (Inr 1, w')"
    using state by (simp add: deliver_run_def follow_def begun(1) report mark(1))
  with mark(2-7) ack same(1-3) show ?thesis by (intro exI [of _ w'] exI [of _ r']) simp
qed
subsection \<open>What only a delivery changes\<close>

definition no_news :: "xworld \<Rightarrow> xworld \<Rightarrow> bool" where
  "no_news w w' \<longleftrightarrow> (\<forall>i r'. find_run i w' = Some r' \<and> xr_state r' = Notified
     \<longrightarrow> (\<exists>r. find_run i w = Some r \<and> xr_state r = Notified))"

lemma no_news_preorder: "preorder no_news"
  unfolding preorder_def reflp_def transp_def no_news_def by blast

lemma no_news_update:
  assumes "\<And>r. xr_id (f r) = xr_id r" "\<And>r. xr_state (f r) = Notified \<Longrightarrow> xr_state r = Notified"
  shows "no_news w (w\<lparr>xw_runs := update_by xr_id i G f (xw_runs w)\<rparr>)"
  using assms by (auto simp: no_news_def find_run_update split: if_splits)

lemma no_news_get_run: "keeps no_news (get_run i)"
  unfolding get_run_def by (intro keeps_follow [OF no_news_preorder] keeps_basic [OF no_news_preorder] keeps_option)

lemmas quiet_runs = keeps_basic [OF no_news_preorder] keeps_follow [OF no_news_preorder] keeps_if keeps_option no_news_get_run

lemma no_news_transition:
  assumes "target \<noteq> Notified" "\<And>r. xr_id (assign r) = xr_id r"
  shows "keeps no_news (transition_run i states target version assign now)"
proof (rule keepsI)
  fix w :: xworld and r and w' :: xworld
  let ?f = "\<lambda>r. (assign r)\<lparr>xr_state := target, xr_version := xr_version r + 1, xr_updated := now\<rparr>"
  assume run: "transition_run i states target version assign now w = (r, w')"
  have "no_news w (w\<lparr>xw_runs := update_by xr_id i (run_due states version) ?f (xw_runs w)\<rparr>)"
    by (rule no_news_update) (simp_all add: assms)
  moreover have "no_news w w" by (rule preorder_refl [OF no_news_preorder])
  ultimately show "no_news w w'"
    using run by (auto simp: transition_run_def follow_def get_run_eq split: if_splits option.splits)
qed

lemma no_news_diagnose: "keeps no_news (diagnose R run message now)"
  unfolding diagnose_def
  by (intro quiet_runs) (auto simp: keeps_def intro!: no_news_update)

lemma no_news_settle: "keeps no_news (settle_run W run)"
proof -
  have "keeps no_news (preserve_lost run why now)" for why now
    unfolding preserve_lost_def by (rule no_news_transition) simp_all
  moreover have "keeps no_news (preserve_terminal R run rc now)" for R rc now
    unfolding preserve_terminal_def by (intro quiet_runs no_news_diagnose no_news_transition) simp_all
  ultimately show ?thesis
    unfolding settle_run_def by (auto split: sum.splits xerror.splits option.splits intro!: quiet_runs)
qed

lemma no_news_begin: "keeps no_news (begin_delivery run now)"
  unfolding begin_delivery_def by (intro quiet_runs no_news_transition) simp_all

lemma no_news_report: "keeps no_news (report_run W run)"
  by (rule keepsI) (auto simp: report_run_def no_news_def split: prod.splits)

text \<open>The row an operation returns is the row in the table.\<close>

lemma get_run_found: "get_run i w = (Inr r, w') \<Longrightarrow> w' = w \<and> find_run i w = Some r"
  by (auto simp: get_run_eq split: option.splits)

lemma transition_found: "transition_run i S t v assign now w = (Inr r, w') \<Longrightarrow> find_run i w' = Some r"
  by (auto simp: transition_run_def follow_def get_run_eq split: if_splits option.splits)

lemma begin_found: "begin_delivery run now w = (Inr r, w') \<Longrightarrow> find_run (xr_id run) w = Some run \<Longrightarrow> find_run (xr_id run) w' = Some r"
  by (auto simp: begin_delivery_def transition_found split: if_splits)

lemma settle_found:
  assumes "settle_run W run w = (Inr (Some r), w')" "find_run (xr_id run) w = Some run"
  shows "find_run (xr_id run) w' = Some r"
proof -
  have lost: "preserve_lost run why now w = (Inr q, u) \<Longrightarrow> find_run (xr_id run) u = Some q" for why now q u
    by (simp add: preserve_lost_def transition_found)
  have "diagnose R run m now w = (Inr q, u) \<Longrightarrow> find_run (xr_id run) u = Some q" for R m now q u
    by (auto simp: diagnose_def follow_def dest: get_run_found)
  then have terminal: "preserve_terminal R run rc now w = (Inr q, u) \<Longrightarrow> find_run (xr_id run) u = Some q" for R rc now q u
    using assms(2) by (auto simp: preserve_terminal_def transition_found split: if_splits)
  from assms show ?thesis
    by (auto simp: settle_run_def follow_eq_Inr lost terminal split: sum.splits xerror.splits option.splits if_splits)
qed
lemma mark_news:
  assumes mark: "mark_notified r now w = (res, w')" and r: "find_run (xr_id r) w = Some r"
    and new: "find_run j w' = Some r'" "xr_state r' = Notified" and old: "\<not> (\<exists>q. find_run j w = Some q \<and> xr_state q = Notified)"
  shows "j = xr_id r \<and> same_run r r' \<and> xr_outcome r' = xr_outcome r \<and> xw_esc w' = xw_esc w"
proof (cases "hits_by xr_id (xr_id r) (run_due {Delivering} (xr_version r)) (xw_runs w)")
  case True
  let ?f = "\<lambda>r. r\<lparr>xr_state := Notified, xr_notified_at := Some now, xr_version := xr_version r + 1, xr_updated := now\<rparr>"
  from True mark have w': "w' = w\<lparr>xw_runs := update_by xr_id (xr_id r) (run_due {Delivering} (xr_version r)) ?f (xw_runs w),
      xw_leases := update_by xl_id (xr_id r) xl_active (release_root now) (xw_leases w)\<rparr>"
    by (simp add: mark_notified_def get_run_eq)
  have "find_run j w' = map_option (\<lambda>q. if j = xr_id r \<and> run_due {Delivering} (xr_version r) q then ?f q else q) (find_run j w)"
    by (simp add: w' find_run_def lookup_update_by)
  with new old obtain q where q: "find_run j w = Some q" "j = xr_id r" "r' = ?f q" by (auto split: if_splits)
  with r have "q = r" by simp
  with q(2,3) show ?thesis by (simp add: w' same_run_def)
next
  case False
  with mark have "w' = w" by (auto simp: mark_notified_def follow_def get_run_eq split: option.splits if_splits)
  with new old show ?thesis by blast
qed

lemma deliver_news:
  assumes run: "deliver_run W r w = (res, w')" and w: "x_ok w" and r: "find_run (xr_id r) w = Some r"
    and new: "find_run j w' = Some r'" "xr_state r' = Notified" and old: "\<not> (\<exists>q. find_run j w = Some q \<and> xr_state q = Notified)"
  shows "j = xr_id r \<and> (\<exists>m. cl_send (wa_client W) m \<noteq> None \<and> sm_to m = xr_session r' \<and> sm_key m = xr_key r'
    \<and> lookup_by ak_key (xr_key r') (es_acks (xw_esc w')) \<noteq> None)"
proof -
  have quiet: "\<not> no_news w w'" using new old by (auto simp: no_news_def)
  then have "w' \<noteq> w" using preorder_refl [OF no_news_preorder] by metis
  obtain b w2 where begun: "begin_delivery r (wa_now W) w = (b, w2)" by fastforce
  from keepsD [OF no_news_begin begun] have begin_quiet: "no_news w w2" .
  from run quiet begin_quiet \<open>w' \<noteq> w\<close> obtain r2 where r2: "b = Inr r2"
    by (auto simp: deliver_run_def follow_def begun split: if_splits sum.splits)
  from begin_found [OF begun [unfolded r2] r] have found: "find_run (xr_id r) w2 = Some r2" .
  obtain rep w3 where report: "report_run W r2 w2 = (rep, w3)" by fastforce
  from preorder_trans [OF no_news_preorder begin_quiet keepsD [OF no_news_report report]] have report_quiet: "no_news w w3" .
  have "\<exists>cls p wsp a v mres. rep = Inr (Inr (Delivered cls p wsp a v)) \<and> mark_notified r2 (wa_now W) w3 = (mres, w')"
    using run quiet report_quiet \<open>w' \<noteq> w\<close>
    by (auto simp: deliver_run_def follow_def begun r2 report split: if_splits sum.splits esc_result.splits prod.splits)
  then obtain cls p wsp a v mres where rep: "rep = Inr (Inr (Delivered cls p wsp a v))" and mark: "mark_notified r2 (wa_now W) w3 = (mres, w')"
    by blast
  define child where "child = ''external-run:'' @ xr_id r2"
  from report rep obtain e sends where sent: "escalate (wa_redactor W) (wa_client W) (wa_pystr W) (wa_sha W) (wa_wid W (xr_id r2)) (wa_now W) child
       (xr_workspace r2) (Some (xr_session r2)) (run_message r2) (Some (xr_key r2)) (xw_esc w2) = (Inr (Delivered cls p wsp a v), e, sends)"
    and w3: "w3 = w2\<lparr>xw_esc := e\<rparr>"
    unfolding report_run_def child_def [symmetric] by (auto split: prod.splits)
  have r2_id: "xr_id r2 = xr_id r" by (rule find_run_id [OF found])
  have "x_ok w2" using keepsD [OF keeps_begin_delivery begun] w by (simp add: x_step_def)
  with found have "run_ok r2" by (auto simp: x_ok_def find_run_def list_all_iff dest: lookup_by_SomeD)
  from escalate_delivered [OF sent] obtain m where m: "cl_send (wa_client W) m \<noteq> None" "sm_to m = xr_session r2" "sm_key m = xr_key r2"
    "lookup_by ak_key (xr_key r2) (es_acks e) = Some a"
    unfolding run_key [OF \<open>run_ok r2\<close>] option.sel by blast
  have "\<not> (\<exists>q. find_run j w3 = Some q \<and> xr_state q = Notified)" using old report_quiet by (auto simp: no_news_def)
  from mark_news [OF mark _ new this] found r2_id w3 have "j = xr_id r" "same_run r2 r'" "xw_esc w' = e" by simp_all
  with m show ?thesis by (auto simp: same_run_def)
qed
subsection \<open>Samples\<close>

definition sample_receipt :: "string \<Rightarrow> val" where
  "sample_receipt outcome = VDict [(''schema_version'', VNum (PInt 1)), (''subscription_id'', VStr ''s1''), (''run_id'', VStr ''run''),
     (''terminal_state'', VStr outcome), (''finished_at'', VStr ''2026-01-01T00:00:00Z'')]"

definition sample_watch :: "string option \<Rightarrow> bool \<Rightarrow> watcher" where
  "sample_watch outcome accepts =
     \<lparr>wa_redactor = plain, wa_client = Escalation.sample_client\<lparr>cl_send := (\<lambda>_. if accepts then Some VNone else None)\<rparr>,
      wa_pystr = (\<lambda>_. []), wa_sha = (\<lambda>s. s), wa_wid = (\<lambda>i. ''e-'' @ i), wa_now = 5,
      wa_files = (\<lambda>p. if p = ''/out/terminal-receipt.json'' then (case outcome of None \<Rightarrow> NoReceipt | Some v \<Rightarrow> ReceiptBytes v (Some (sample_receipt v)))
                     else NoReceipt),
      wa_rfc3339 = (\<lambda>_. True), wa_observer = (\<lambda>_. None)\<rparr>"

definition subscribed_x :: xworld where
  "subscribed_x = snd (subscribe plain (\<lambda>s. s) (\<lambda>p. p) ''s1'' ''cap'' 1 ''run'' ''/out'' ''parent'' None empty_xworld)"

definition running_x :: xworld where
  "running_x = snd (bind_run (\<lambda>s. s) (\<lambda>_. Some ''fp'') ''s1'' ''cap'' 2 ''fp'' 0 2 subscribed_x)"

definition finished_x :: xworld where
  "finished_x = snd (reconcile_runs (sample_watch (Some ''completed'') False) running_x)"

definition vanished_x :: xworld where
  "vanished_x = snd (reconcile_runs (sample_watch None False) running_x)"

lemma samples_reached: "xstep\<^sup>*\<^sup>* empty_xworld running_x" "xstep\<^sup>*\<^sup>* empty_xworld finished_x"
  "xstep\<^sup>*\<^sup>* empty_xworld vanished_x"
proof -
  have "xstep empty_xworld subscribed_x" "xstep subscribed_x running_x" "xstep running_x finished_x" "xstep running_x vanished_x"
    unfolding subscribed_x_def running_x_def finished_x_def vanished_x_def by (rule xstep.intros)+
  then show "xstep\<^sup>*\<^sup>* empty_xworld running_x" "xstep\<^sup>*\<^sup>* empty_xworld finished_x" "xstep\<^sup>*\<^sup>* empty_xworld vanished_x"
    by (meson rtranclp.rtrancl_into_rtrancl rtranclp.rtrancl_refl)+
qed

lemma sample_states:
  "map_option (\<lambda>r. (xr_state r, xr_outcome r, xr_digest r)) (find_run ''s1'' running_x) = Some (Running, None, None)"
  "map_option (\<lambda>r. (xr_state r, xr_outcome r, xr_digest r)) (find_run ''s1'' finished_x) = Some (Delivering, Some ''completed'', Some ''completed'')"
  "map_option (\<lambda>r. (xr_state r, xr_outcome r, xr_digest r)) (find_run ''s1'' vanished_x) = Some (Delivering, Some ''lost/unknown'', None)"
  by code_simp+
lemma open_iff: "run_ok r \<Longrightarrow> xr_state r \<in> open_states \<longleftrightarrow> xr_outcome r = None"
  by (simp add: run_ok_def)

lemma found_ok: "x_ok w \<Longrightarrow> find_run i w = Some r \<Longrightarrow> run_ok r"
  by (auto simp: x_ok_def find_run_def list_all_iff dest: lookup_by_SomeD)

subsection \<open>Properties\<close>

text \<open>
  C26: The first evidence stays.  Once a run has an outcome, whatever follows -- further receipts,
  passes of this or another reconciler with rows read earlier, a late bind -- leaves its outcome,
  the digest of its receipt and the time of the end as they are, and the run never runs again.
\<close>

theorem run_report_is_final:
  assumes "xstep\<^sup>*\<^sup>* empty_xworld w" "xstep\<^sup>*\<^sup>* w w'" "find_run i w = Some r" "xr_outcome r \<noteq> None"
  shows "\<exists>r'. find_run i w' = Some r' \<and> xr_outcome r' = xr_outcome r \<and> xr_digest r' = xr_digest r
           \<and> xr_terminal_at r' = xr_terminal_at r \<and> xr_state r' \<notin> open_states"
proof -
  from assms(3) have "run_report i w = Some (xr_outcome r, xr_digest r, xr_terminal_at r)" by (simp add: run_report_def)
  from reports.settled_reachable [OF assms(1,2) this] assms(4)
  have "run_report i w' = Some (xr_outcome r, xr_digest r, xr_terminal_at r)" by simp
  then obtain r' where r': "find_run i w' = Some r'" "xr_outcome r' = xr_outcome r" "xr_digest r' = xr_digest r"
    "xr_terminal_at r' = xr_terminal_at r" by (auto simp: run_report_def)
  from reports.reachable_inv [OF rtranclp_trans [OF assms(1,2)]] have "run_ok r'" by (rule found_ok) (rule r'(1))
  from open_iff [OF this] r' assms(4) show ?thesis by auto
qed

text \<open>A second, different receipt of a run that could not be reported yet.\<close>

theorem run_report_is_final_witness:
  "\<exists>r'. find_run ''s1'' (snd (reconcile_runs (sample_watch (Some ''failed'') True) finished_x)) = Some r'
      \<and> xr_outcome r' = Some ''completed'' \<and> xr_state r' \<notin> open_states"
proof -
  from sample_states(2) obtain r where r: "find_run ''s1'' finished_x = Some r" "xr_outcome r = Some ''completed''" by auto
  have "xstep\<^sup>*\<^sup>* finished_x (snd (reconcile_runs (sample_watch (Some ''failed'') True) finished_x))"
    by (rule r_into_rtranclp) (rule xstep.intros)
  from run_report_is_final [OF samples_reached(2) this r(1)] r(2) show ?thesis by auto
qed

text \<open>
  Output directories are exclusive.  In every reachable store two subscriptions for one
  directory are the same one unless one of them was reported, and a subscription holds its active
  lease exactly until it is.
\<close>

theorem output_roots_are_exclusive:
  assumes "xstep\<^sup>*\<^sup>* empty_xworld w" "find_run i w = Some r" "find_run j w = Some q"
    "xr_root r = xr_root q" "xr_state r \<noteq> Notified" "xr_state q \<noteq> Notified"
  shows "i = j \<and> (\<exists>l \<in> set (xw_leases w). xl_id l = i \<and> xl_root l = xr_root r \<and> xl_active l)"
proof -
  from reports.reachable_inv [OF assms(1)] have ok: "x_ok w" .
  have rows: "r \<in> set (xw_runs w)" "q \<in> set (xw_runs w)" "xr_id r = i" "xr_id q = j"
    using assms(2,3) by (auto simp: find_run_def dest: lookup_by_SomeD)
  have "inj_on xr_root (set (filter unreported (xw_runs w)))" using ok by (simp add: x_ok_def distinct_map)
  with rows assms(4-6) have "r = q" by (auto simp: unreported_def dest: inj_onD)
  moreover from ok rows(1) obtain l where "l \<in> set (xw_leases w)" "lease_of_run r l"
    unfolding x_ok_def list_all2_conv_all_nth by (metis in_set_conv_nth)
  ultimately show ?thesis using rows assms(5) by (auto simp: lease_of_run_def unreported_def)
qed

theorem output_roots_are_exclusive_witness:
  "\<exists>l \<in> set (xw_leases finished_x). xl_id l = ''s1'' \<and> xl_active l"
proof -
  from sample_states(2) obtain r where r: "find_run ''s1'' finished_x = Some r" "xr_state r = Delivering" by auto
  from output_roots_are_exclusive [OF samples_reached(2) r(1) r(1) refl] r(2) show ?thesis by auto
qed

text \<open>
  C27: A receipt is reported.  A pass over a run that is still open, whose directory holds a valid
  receipt and whose subscriber's session is live and accepts the message, returns; afterwards the
  run carries the receipt's outcome and digest, it is notified, the delivery is acknowledged under
  its one key, and its directory is released.
\<close>

theorem receipt_is_reported:
  assumes "xstep\<^sup>*\<^sup>* empty_xworld w" "find_run i w = Some r" "xr_state r \<in> open_states" "read_receipt W r = Inr (Some rc)"
    "run_parent W r = parent_view.Live v" "\<forall>m. cl_send (wa_client W) m \<noteq> None" "vfield ''id'' v \<noteq> None"
    "lookup_by ak_id (wa_wid W i) (es_acks (xw_esc w)) = None"
  shows "\<exists>w' r'. reconcile_run W i w = (Inr 1, w') \<and> find_run i w' = Some r' \<and> xr_state r' = Notified
           \<and> xr_outcome r' = Some (rc_outcome rc) \<and> xr_digest r' = Some (rc_digest rc)
           \<and> lookup_by ak_key (xr_key r) (es_acks (xw_esc w')) \<noteq> None
           \<and> (\<forall>l \<in> set (xw_leases w'). xl_id l = i \<longrightarrow> \<not> xl_active l)"
proof -
  from reports.reachable_inv [OF assms(1)] have ok: "x_ok w" .
  from found_ok [OF ok assms(2)] assms(3) have "xr_digest r = None" by (simp add: run_ok_def)
  then have preserve: "preserve_terminal (wa_redactor W) r rc (wa_now W) = transition_run i open_states Terminal (xr_version r)
      (\<lambda>r. r\<lparr>xr_digest := Some (rc_digest rc), xr_outcome := Some (rc_outcome rc), xr_diagnostic := None, xr_terminal_at := Some (wa_now W)\<rparr>) (wa_now W)"
    by (simp add: preserve_terminal_def truthy_def find_run_id [OF assms(2)])
  have due: "run_due open_states (xr_version r) r" using assms(3) by (simp add: run_due_def)
  obtain r1 w1 where r1: "preserve_terminal (wa_redactor W) r rc (wa_now W) w = (Inr r1, w1)" "find_run i w1 = Some r1"
    "xr_state r1 = Terminal" "xr_outcome r1 = Some (rc_outcome rc)" "xr_digest r1 = Some (rc_digest rc)" "same_run r r1"
    "xw_esc w1 = xw_esc w"
    using transition_hit [OF assms(2) due, where t = Terminal and now = "wa_now W" and assign =
        "\<lambda>r. r\<lparr>xr_digest := Some (rc_digest rc), xr_outcome := Some (rc_outcome rc), xr_diagnostic := None, xr_terminal_at := Some (wa_now W)\<rparr>"]
    unfolding preserve by (auto simp: same_run_def)
  have "x_ok w1" using keepsD [OF keeps_preserve_terminal r1(1)] ok by (simp add: x_step_def)
  moreover have "run_parent W r1 = parent_view.Live v" using assms(5) r1(6) by (simp only: run_parent_def same_run_def)
  moreover have "reconcile_run W i w = deliver_run W r1 w1"
    by (simp add: reconcile_run_def settle_run_def follow_def get_run_eq assms(2,4) r1(1))
  moreover have "xr_key r1 = xr_key r" using r1(6) by (simp add: same_run_def)
  ultimately show ?thesis
    using deliver_succeeds [of w1 i r1 W v] r1(2-5) assms(6-8) unfolding r1(7) by simp
qed

theorem receipt_is_reported_witness:
  "\<exists>w' r'. reconcile_run (sample_watch (Some ''failed'') True) ''s1'' running_x = (Inr 1, w') \<and> find_run ''s1'' w' = Some r'
     \<and> xr_state r' = Notified \<and> xr_outcome r' = Some ''failed''"
proof -
  define W where "W = sample_watch (Some ''failed'') True"
  from sample_states(1) obtain r where r: "find_run ''s1'' running_x = Some r" "xr_state r = Running" by auto
  have "map_option (read_receipt W) (find_run ''s1'' running_x) = Some (Inr (Some \<lparr>rc_outcome = ''failed'', rc_digest = ''failed''\<rparr>))"
    "map_option (run_parent W) (find_run ''s1'' running_x) = Some (parent_view.Live (VDict [(''id'', VStr ''w''), (''archived'', VBool False)]))"
    unfolding W_def by code_simp+
  then have answers: "read_receipt W r = Inr (Some \<lparr>rc_outcome = ''failed'', rc_digest = ''failed''\<rparr>)"
    "run_parent W r = parent_view.Live (VDict [(''id'', VStr ''w''), (''archived'', VBool False)])"
    by (simp_all only: r(1) option.map option.inject)
  have fresh: "lookup_by ak_id (wa_wid W ''s1'') (es_acks (xw_esc running_x)) = None" unfolding W_def by code_simp
  have sends: "\<forall>m. cl_send (wa_client W) m \<noteq> None" by (simp add: W_def sample_watch_def)
  have workspace: "vfield ''id'' (VDict [(''id'', VStr ''w''), (''archived'', VBool False)]) \<noteq> None" by code_simp
  have "xr_state r \<in> open_states" by (simp add: open_states_def r(2))
  from receipt_is_reported [OF samples_reached(1) r(1) this answers sends workspace fresh]
  obtain w' r' where "reconcile_run W ''s1'' running_x = (Inr 1, w')" "find_run ''s1'' w' = Some r'" "xr_state r' = Notified"
    "xr_outcome r' = Some ''failed''" unfolding receipt.simps by (elim exE conjE) (erule (3) that)
  then show ?thesis unfolding W_def [symmetric] by (intro exI [of _ w'] exI [of _ r']) (simp only: simp_thms)
qed

text \<open>
  C28: No notice without delivery.  If a pass leaves a run notified that was not, the executor
  accepted a message to the subscribing session under the run's key, and the acknowledgment is on
  record.
\<close>

theorem notice_follows_delivery:
  assumes "xstep\<^sup>*\<^sup>* empty_xworld w" "reconcile_run W i w = (res, w')" "find_run j w' = Some r'" "xr_state r' = Notified"
    "\<not> (\<exists>q. find_run j w = Some q \<and> xr_state q = Notified)"
  shows "j = i \<and> (\<exists>m. cl_send (wa_client W) m \<noteq> None \<and> sm_to m = xr_session r' \<and> sm_key m = xr_key r'
    \<and> lookup_by ak_key (xr_key r') (es_acks (xw_esc w')) \<noteq> None)"
proof -
  from reports.reachable_inv [OF assms(1)] have ok: "x_ok w" .
  have news: "\<not> no_news w w'" using assms(3-5) by (auto simp: no_news_def)
  obtain s w1 where settle: "follow (get_run i) (settle_run W) w = (s, w1)" by fastforce
  have quiet: "no_news w w1"
    by (rule keepsD [OF keeps_follow [OF no_news_preorder no_news_get_run no_news_settle] settle])
  have "\<exists>run r. find_run i w = Some run \<and> settle_run W run w = (Inr (Some r), w1) \<and> deliver_run W r w1 = (res, w')"
    using assms(2) news quiet settle preorder_refl [OF no_news_preorder, of w]
    by (auto simp: reconcile_run_def follow_def get_run_eq split: option.splits sum.splits prod.splits)
  then obtain run r where run: "find_run i w = Some run" "settle_run W run w = (Inr (Some r), w1)" "deliver_run W r w1 = (res, w')"
    by blast
  have id: "xr_id run = i" by (rule find_run_id [OF run(1)])
  from settle_found [OF run(2)] run(1) id have found: "find_run i w1 = Some r" by simp
  have "x_ok w1" using keepsD [OF keeps_settle_run run(2)] ok by (simp add: x_step_def)
  moreover have "\<not> (\<exists>q. find_run j w1 = Some q \<and> xr_state q = Notified)" using quiet assms(5) by (auto simp: no_news_def)
  ultimately show ?thesis
    using deliver_news [OF run(3)] found find_run_id [OF found] assms(3,4) by simp
qed

theorem notice_follows_delivery_witness:
  "\<exists>r'. find_run ''s1'' (snd (reconcile_run (sample_watch (Some ''completed'') True) ''s1'' finished_x)) = Some r'
      \<and> lookup_by ak_key (xr_key r') (es_acks (xw_esc (snd (reconcile_run (sample_watch (Some ''completed'') True) ''s1'' finished_x)))) \<noteq> None"
proof -
  let ?w' = "snd (reconcile_run (sample_watch (Some ''completed'') True) ''s1'' finished_x)"
  have "map_option xr_state (find_run ''s1'' ?w') = Some Notified" by code_simp
  then obtain r' where r': "find_run ''s1'' ?w' = Some r'" "xr_state r' = Notified" by auto
  have "\<not> (\<exists>q. find_run ''s1'' finished_x = Some q \<and> xr_state q = Notified)" using sample_states(2) by auto
  from notice_follows_delivery [OF samples_reached(2) prod.collapse [symmetric] r' this] r'(1) show ?thesis by blast
qed

text \<open>
  The pass that stops: the process vanished, the loss could not be delivered, then its receipt
  appeared.  The subscriber is live, and the pass raises without writing.
\<close>

lemma map_eq_singleton_elim:
  assumes "map f xs = [y]" obtains x where "xs = [x]" "f x = y"
  using assms by (cases xs) auto

lemma late_receipt_sample:
  "reconcile_runs (sample_watch (Some ''completed'') True) vanished_x = (Inl (XStale ''s1'' Delivering), vanished_x)"
proof -
  from sample_states(3) obtain r where r: "find_run ''s1'' vanished_x = Some r" "xr_state r = Delivering" "xr_digest r = None" by auto
  have "map_option (read_receipt (sample_watch (Some ''completed'') True)) (find_run ''s1'' vanished_x)
      = Some (Inr (Some \<lparr>rc_outcome = ''completed'', rc_digest = ''completed''\<rparr>))" by code_simp
  then have receipt: "read_receipt (sample_watch (Some ''completed'') True) r = Inr (Some \<lparr>rc_outcome = ''completed'', rc_digest = ''completed''\<rparr>)"
    by (simp only: r(1) option.map option.inject)
  have "map xr_id (xw_runs vanished_x) = [''s1'']" by code_simp
  then obtain q where q: "xw_runs vanished_x = [q]" "xr_id q = ''s1''" by (elim map_eq_singleton_elim)
  with r(1) have "q = r" by (simp add: find_run_def)
  with q(1) r(2) have queue: "pending_runs vanished_x = [r]" by (simp add: pending_runs_def)
  from r(2) have "xr_state r \<notin> open_states" by (simp add: open_states_def)
  from late_receipt_stops_the_pass [OF reports.reachable_inv [OF samples_reached(3)] queue this r(3) receipt]
  show ?thesis by (simp only: r(2) find_run_id [OF r(1)])
qed

end
