(* ===== verification/Approvals.thy ===== *)
theory Approvals
  imports Executor Escalation Machine
begin

text \<open>
  Answering what agents ask (\<open>approvals.py\<close> and \<open>cli/approvals_commands.py\<close>): the audit of
  decisions, the details of a pending approval, who may decide, one decision, and the batch that
  is checked as a whole before anything is sent.  Python's string formatting of an exception, the
  parsing of integers and the identifiers are parameters; the details of several approvals, which
  the code fetches on a thread pool, are fetched in order.
\<close>

subsection \<open>The audit store\<close>

datatype audit_status = Submitting | Responded | Unanswered

datatype reviewer_kind = Human | LeadSession

record audit_row =
  au_id :: string
  au_approval :: string
  au_process :: string
  au_session :: "string option"
  au_workspace :: "string option"
  au_tool :: string
  au_approved :: bool
  au_kind :: reviewer_kind
  au_reviewer :: string
  au_reason :: "string option"
  au_status :: audit_status
  au_error :: "string option"
  au_created :: real
  au_completed :: "real option"

text \<open>What a command works on: the executor's service, the audit and the escalation store.\<close>

record 'w desk =
  dk_service :: 'w
  dk_audit :: "audit_row list"
  dk_esc :: esc_db

datatype aerror = AClient cerror | AValue string | AAudit string

type_synonym ('w, 'a) aop = "('w desk, aerror, 'a) op"

record 'w approver =
  ap_client :: "'w client"
  ap_stream :: "val list"
  ap_int :: "string \<Rightarrow> int option"
  ap_user :: string
  ap_session :: "string option"
  ap_sha :: "string \<Rightarrow> string"
  ap_id :: "nat \<Rightarrow> string"
  ap_now :: real
  ap_message :: "aerror \<Rightarrow> string"

abbreviation ap_str :: "'w approver \<Rightarrow> val \<Rightarrow> string" where
  "ap_str A \<equiv> text_of (cl_pystr (ap_client A))"

definition ask :: "('w, cerror, 'a) op \<Rightarrow> ('w, 'a) aop" where
  "ask m s = (case m (dk_service s) of (r, w) \<Rightarrow> (map_sum AClient id r, s\<lparr>dk_service := w\<rparr>))"

definition looked :: "cerror + 'a \<Rightarrow> ('w, 'a) aop" where
  "looked r = given (map_sum AClient id r)"

definition field_text :: "'w approver \<Rightarrow> string \<Rightarrow> val \<Rightarrow> cerror + string" where
  "field_text A k v = ebind (item_at k v) (\<lambda>x. Inr (ap_str A x))"

definition optional_text :: "'w approver \<Rightarrow> val \<Rightarrow> string option" where
  "optional_text A v = (if v = VNone then None else Some (ap_str A v))"

definition decision_row ::
  "'w approver \<Rightarrow> nat \<Rightarrow> val \<Rightarrow> bool \<Rightarrow> reviewer_kind \<Rightarrow> string \<Rightarrow> string option \<Rightarrow> cerror + audit_row" where
  "decision_row A n approval approved kind reviewer reason =
     ebind (field_text A ''approval_id'' approval) (\<lambda>i.
     ebind (field_text A ''execution_process_id'' approval) (\<lambda>p.
     ebind (field_text A ''tool_name'' approval) (\<lambda>t.
       Inr \<lparr>au_id = ap_id A n, au_approval = i, au_process = p, au_session = optional_text A (vget ''session_id'' approval),
            au_workspace = optional_text A (vget ''workspace_id'' approval), au_tool = t, au_approved = approved, au_kind = kind,
            au_reviewer = reviewer, au_reason = (if truthy reason then Some (ap_sha A (the reason)) else None),
            au_status = Submitting, au_error = None, au_created = ap_now A, au_completed = None\<rparr>)))"

definition begin_decision ::
  "'w approver \<Rightarrow> val \<Rightarrow> bool \<Rightarrow> reviewer_kind \<Rightarrow> string \<Rightarrow> string option \<Rightarrow> ('w, audit_row) aop" where
  "begin_decision A approval approved kind reviewer reason =
     follow (observe dk_audit) (\<lambda>rows.
     follow (looked (decision_row A (length rows) approval approved kind reviewer reason)) (\<lambda>r.
       if lookup_by au_id (au_id r) rows \<noteq> None then raising (AAudit ''Cannot record approval attempt'')
       else follow (modify (\<lambda>s. s\<lparr>dk_audit := dk_audit s @ [r]\<rparr>)) (\<lambda>_. give r)))"

definition settle_decision :: "'w approver \<Rightarrow> bool \<Rightarrow> string option \<Rightarrow> audit_row \<Rightarrow> audit_row" where
  "settle_decision A succeeded error r =
     r\<lparr>au_status := (if succeeded then Responded else Unanswered), au_error := error, au_completed := Some (ap_now A)\<rparr>"

definition finish_decision :: "'w approver \<Rightarrow> string \<Rightarrow> bool \<Rightarrow> string option \<Rightarrow> ('w, audit_row) aop" where
  "finish_decision A i succeeded error s =
     (if \<not> hits_by au_id i (\<lambda>r. au_status r = Submitting) (dk_audit s)
      then (Inl (AAudit ''Approval audit attempt is missing or already finished''), s)
      else
        let rows = update_by au_id i (\<lambda>r. au_status r = Submitting) (settle_decision A succeeded error) (dk_audit s)
        in (case lookup_by au_id i rows of None \<Rightarrow> Inl (AAudit ''Approval audit attempt is missing'') | Some r \<Rightarrow> Inr r,
            s\<lparr>dk_audit := rows\<rparr>))"

definition decision_history :: "int \<Rightarrow> ('w, audit_row list) aop" where
  "decision_history limit =
     (if limit < 1 \<or> limit > 500 then raising (AValue ''Approval history limit must be between 1 and 500'')
      else observe (\<lambda>s. take (nat limit) (sort_key (\<lambda>r. - au_created r) (dk_audit s))))"

subsection \<open>What is asked\<close>

definition execution_process_at :: "'w client \<Rightarrow> string \<Rightarrow> ('w, cerror, val) op" where
  "execution_process_at C p = fetch C (''/execution-processes/'' @ p)"

definition session_at :: "'w client \<Rightarrow> string \<Rightarrow> ('w, cerror, val) op" where
  "session_at C s = fetch C (''/sessions/'' @ s)"

definition workspace_at :: "'w client \<Rightarrow> string \<Rightarrow> ('w, cerror, val) op" where
  "workspace_at C w = fetch C (''/workspaces/'' @ w)"

text \<open>\<open>int(v or 0)\<close>, truncating a float.\<close>

definition patch_count :: "'w approver \<Rightarrow> val \<Rightarrow> cerror + int" where
  "patch_count A v =
     (let c = vget ''patch_count'' v in
      if \<not> vtruthy c then Inr 0
      else case c of
             VBool b \<Rightarrow> Inr 1
           | VNum (PInt i) \<Rightarrow> Inr i
           | VNum (PFloat r) \<Rightarrow> Inr (if r \<ge> 0 then \<lfloor>r\<rfloor> else \<lceil>r\<rceil>)
           | VNum n \<Rightarrow> Inl (CValue ''cannot convert float to integer'')
           | VStr s \<Rightarrow> (case ap_int A s of None \<Rightarrow> Inl (CValue ''invalid literal for int()'') | Some i \<Rightarrow> Inr i)
           | _ \<Rightarrow> Inl CType)"

fun snapshot_tries :: "'w approver \<Rightarrow> string \<Rightarrow> nat \<Rightarrow> val \<Rightarrow> ('w, cerror, val) op" where
  "snapshot_tries A p 0 best = give best"
| "snapshot_tries A p (Suc n) best =
     follow (normalized_snapshot (ap_client A) p) (\<lambda>c.
       if vtruthy (vget ''complete'' c) then give c
       else follow (given (patch_count A c)) (\<lambda>i. follow (given (patch_count A best)) (\<lambda>j.
              snapshot_tries A p n (if i \<ge> j then c else best))))"

text \<open>\<open>" ".join(str(value or "").split())\<close>, cut to a length.\<close>

fun chop :: "string \<Rightarrow> string list" where
  "chop [] = [[]]"
| "chop (c # cs) = (if is_space c then [] # chop cs else case chop cs of [] \<Rightarrow> [[c]] | w # ws \<Rightarrow> (c # w) # ws)"

definition compact_text :: "(val \<Rightarrow> string) \<Rightarrow> val \<Rightarrow> nat \<Rightarrow> string" where
  "compact_text pystr v limit =
     (let t = join_with '' '' (filter (\<lambda>w. w \<noteq> []) (chop (text_or_empty pystr v)))
      in if length t \<le> limit then t else take (limit - 3) t @ ''...'')"

definition pending_entry :: "(val \<Rightarrow> string) \<Rightarrow> string \<Rightarrow> val \<Rightarrow> val option" where
  "pending_entry pystr aid wrapped =
     (let content = vget ''content'' wrapped; entry = vget ''entry_type'' content; status = vget ''status'' entry;
          action = vget ''action_type'' entry
      in if vget ''type'' entry \<noteq> VStr ''tool_use'' then None
         else if \<not> is_dict status \<or> vget ''status'' status \<noteq> VStr ''pending_approval''
                 \<or> text_of pystr (vget ''approval_id'' status) \<noteq> aid then None
         else Some (VDict [(''summary'', VStr (compact_text pystr (vget ''content'' content) 600)),
                           (''action'', if is_dict action then action else VNone)]))"

definition pending_request :: "(val \<Rightarrow> string) \<Rightarrow> val \<Rightarrow> string \<Rightarrow> val" where
  "pending_request pystr snapshot aid =
     (case vget ''entries'' snapshot of
        VList es \<Rightarrow> (case List.map_filter (pending_entry pystr aid) (rev es) of [] \<Rightarrow> VNone | r # rs \<Rightarrow> r)
      | _ \<Rightarrow> VNone)"

definition request_of :: "'w approver \<Rightarrow> val \<Rightarrow> string \<Rightarrow> ('w, cerror, val \<times> val) op" where
  "request_of A approval process =
     rescue (follow (snapshot_tries A process 3 (VDict [])) (\<lambda>snapshot.
             follow (given (field_text A ''approval_id'' approval)) (\<lambda>i.
               give (pending_request (cl_pystr (ap_client A)) snapshot i, VNone))))
       (\<lambda>e. give (VNone, VStr (error_text e)))"

definition request_kind :: "'w approver \<Rightarrow> val \<Rightarrow> string" where
  "request_kind A approval =
     (if vtruthy (vget ''is_question'' approval) then ''question''
      else if text_or_empty (cl_pystr (ap_client A)) (vget ''tool_name'' approval) = ''ExitPlanMode'' then ''plan''
      else ''tool'')"

definition detailed :: "'w approver \<Rightarrow> val \<Rightarrow> string \<Rightarrow> val \<Rightarrow> string \<Rightarrow> val \<Rightarrow> val \<times> val \<Rightarrow> val" where
  "detailed A approval sid session wid workspace req =
     vsets [(''session_id'', VStr sid), (''session_name'', vget ''name'' session), (''executor'', vget ''executor'' session),
            (''workspace_id'', VStr wid), (''workspace_name'', vget ''name'' workspace),
            (''workspace_archived'', VBool (vtruthy (vget ''archived'' workspace))),
            (''request'', fst req), (''request_error'', snd req), (''request_kind'', VStr (request_kind A approval))] approval"

definition approval_details :: "'w approver \<Rightarrow> val \<Rightarrow> ('w, cerror, val) op" where
  "approval_details A approval =
     follow (given (field_text A ''execution_process_id'' approval)) (\<lambda>p.
     follow (execution_process_at (ap_client A) p) (\<lambda>process.
     follow (given (field_text A ''session_id'' process)) (\<lambda>sid.
     follow (session_at (ap_client A) sid) (\<lambda>session.
     follow (given (field_text A ''workspace_id'' session)) (\<lambda>wid.
     follow (workspace_at (ap_client A) wid) (\<lambda>workspace.
     follow (request_of A approval p) (\<lambda>req.
       if is_dict workspace then give (detailed A approval sid session wid workspace req) else raising CType)))))))"

definition response_template :: "val \<Rightarrow> cerror + val" where
  "response_template approval =
     ebind (item_at ''approval_id'' approval) (\<lambda>i.
       if vtruthy (vget ''is_question'' approval) then
         Inr (VDict [(''approval_id'', i),
                (''answers'', VList (case vget ''questions'' (vget ''action'' (vget ''request'' approval)) of
                                       VList qs \<Rightarrow> map (\<lambda>_. VStr []) qs | _ \<Rightarrow> []))])
       else Inr (VDict ([(''approval_id'', i), (''decision'', VStr ''approve|deny'')]
                  @ (if vget ''request_kind'' approval \<noteq> VStr ''plan'' then [(''allow_non_plan'', VBool False)] else []))))"

subsection \<open>Who may decide\<close>

text \<open>The first of \<open>sorted(sessions, key=(created_at, id))\<close>.\<close>

definition lead_session :: "'w approver \<Rightarrow> val \<Rightarrow> cerror + string option" where
  "lead_session A v =
     ebind (items_of v) (\<lambda>ss.
     ebind (each (\<lambda>s. ebind (got ''created_at'' s) (\<lambda>c. ebind (field_text A ''id'' s) (\<lambda>i.
               Inr (text_or_empty (cl_pystr (ap_client A)) c, i)))) ss) (\<lambda>keys.
       Inr (case sort_key fst (sort_key snd keys) of [] \<Rightarrow> None | k # ks \<Rightarrow> Some (snd k))))"

definition reviewing_session :: "'w approver \<Rightarrow> string option \<Rightarrow> string option" where
  "reviewing_session A explicit =
     (if truthy explicit then explicit else if truthy (ap_session A) then ap_session A else None)"

definition approval_reviewer :: "'w approver \<Rightarrow> string option \<Rightarrow> string \<Rightarrow> ('w, reviewer_kind \<times> string) aop" where
  "approval_reviewer A explicit target =
     (case reviewing_session A explicit of
        None \<Rightarrow> give (Human, ap_user A @ ''@local'')
      | Some sid \<Rightarrow>
          if sid = target then raising (AValue ''A session cannot approve its own plan'')
          else follow (ask (session_at (ap_client A) sid)) (\<lambda>reviewer.
               follow (looked (field_text A ''workspace_id'' reviewer)) (\<lambda>wid.
               follow (ask (sessions_of (ap_client A) wid)) (\<lambda>ss.
               follow (looked (lead_session A ss)) (\<lambda>lead.
                 if lead \<noteq> Some sid
                 then raising (AValue ''Only the lead session in a cdesktop workspace may approve another agent's plan'')
                 else give (LeadSession, sid))))))"

subsection \<open>One decision\<close>

definition pending_approval :: "'w approver \<Rightarrow> string \<Rightarrow> ('w, val) aop" where
  "pending_approval A aid =
     follow (ask (pending_approvals (ap_client A) (ap_stream A))) (\<lambda>items.
       case find (\<lambda>i. vget ''approval_id'' i = VStr aid) items of
         None \<Rightarrow> raising (AValue (''Approval is not currently pending: '' @ aid))
       | Some i \<Rightarrow> ask (approval_details A i))"

text \<open>A call of the executor about one approval, with the two fields that name it.\<close>

definition answer_call :: "'w approver \<Rightarrow> val \<Rightarrow> (string \<Rightarrow> string \<Rightarrow> ('w, cerror, val) op) \<Rightarrow> ('w, val) aop" where
  "answer_call A approval call =
     follow (looked (field_text A ''approval_id'' approval)) (\<lambda>i.
     follow (looked (field_text A ''execution_process_id'' approval)) (\<lambda>p. ask (call i p)))"

definition post_decision :: "'w approver \<Rightarrow> val \<Rightarrow> bool \<Rightarrow> string option \<Rightarrow> ('w, val) aop" where
  "post_decision A approval approved reason =
     answer_call A approval (\<lambda>i p. respond_to_approval (ap_client A) i p approved reason)"

definition decide_recorded :: "'w approver \<Rightarrow> val \<Rightarrow> bool \<Rightarrow> string option \<Rightarrow> audit_row \<Rightarrow> ('w, audit_row \<times> val) aop" where
  "decide_recorded A approval approved reason row s =
     (case post_decision A approval approved reason s of
        (Inr v, s') \<Rightarrow> follow (finish_decision A (au_id row) True None) (\<lambda>r. give (r, v)) s'
      | (Inl e, s') \<Rightarrow> follow (finish_decision A (au_id row) False (Some (ap_message A e))) (\<lambda>_. raising e) s')"

definition refuse_decision :: "val \<Rightarrow> bool \<Rightarrow> bool \<Rightarrow> string \<Rightarrow> string option" where
  "refuse_decision approval approved allow reason =
     (if vtruthy (vget ''is_question'' approval) then Some ''This request expects structured answers, not plan approval''
      else if approved \<and> vget ''request_kind'' approval \<noteq> VStr ''plan'' \<and> \<not> allow
      then Some ''Refusing to approve a non-plan tool request''
      else if \<not> approved \<and> strip reason = [] then Some ''Rejection reason must not be empty''
      else None)"

definition decide_approval ::
  "'w approver \<Rightarrow> string \<Rightarrow> bool \<Rightarrow> bool \<Rightarrow> string \<Rightarrow> string option \<Rightarrow> ('w, audit_row \<times> val) aop" where
  "decide_approval A aid approved allow reason explicit =
     follow (pending_approval A aid) (\<lambda>approval.
       case refuse_decision approval approved allow reason of
         Some why \<Rightarrow> raising (AValue why)
       | None \<Rightarrow>
           follow (looked (field_text A ''session_id'' approval)) (\<lambda>sid.
           follow (approval_reviewer A explicit sid) (\<lambda>(kind, reviewer).
           follow (begin_decision A approval approved kind reviewer (if approved then None else Some reason)) (\<lambda>row.
             decide_recorded A approval approved (if approved then None else Some reason) row))))"

subsection \<open>The batch\<close>

definition response_items :: "val option \<Rightarrow> aerror + val list" where
  "response_items parsed =
     (case parsed of
        None \<Rightarrow> Inl (AValue ''Responses are not valid JSON'')
      | Some v \<Rightarrow>
          (case if is_dict v then vget ''responses'' v else v of
             VList (x # xs) \<Rightarrow>
               if list_all is_dict (x # xs) then Inr (x # xs) else Inl (AValue ''Every batch response must be a JSON object'')
           | _ \<Rightarrow> Inl (AValue ''Responses must be a non-empty JSON array'')))"

definition question_items :: "val \<Rightarrow> aerror + val list" where
  "question_items approval =
     (case vget ''questions'' (vget ''action'' (vget ''request'' approval)) of
        VList qs \<Rightarrow> if list_all is_dict qs then Inr qs else Inl (AValue ''Question details are unavailable'')
      | _ \<Rightarrow> Inl (AValue ''Question details are unavailable''))"

fun answer_text :: "val \<Rightarrow> string option" where
  "answer_text (VStr s) = (if strip s = [] then None else Some (strip s))"
| "answer_text v = None"

definition answer_values :: "val \<Rightarrow> string list option" where
  "answer_values v =
     (case (case v of VStr s \<Rightarrow> VList [v] | _ \<Rightarrow> v) of
        VList vs \<Rightarrow> if vs = [] \<or> list_ex (\<lambda>x. answer_text x = None) vs then None else Some (map (\<lambda>x. the (answer_text x)) vs)
      | _ \<Rightarrow> None)"

definition question_answer :: "'w approver \<Rightarrow> val \<Rightarrow> val \<Rightarrow> aerror + val" where
  "question_answer A question supplied =
     (let expected = text_or_empty (cl_pystr (ap_client A)) (vget ''question'' question);
          told = vget ''question'' supplied
      in if is_dict supplied \<and> told \<noteq> VNone \<and> ap_str A told \<noteq> expected
         then Inl (AValue ''answer does not match its question'')
         else (case answer_values (if is_dict supplied then vget ''answer'' supplied else supplied) of
                 None \<Rightarrow> Inl (AValue ''answer must contain one or more non-empty strings'')
               | Some ts \<Rightarrow>
                   if \<not> vtruthy (vget ''multiSelect'' question) \<and> length ts \<noteq> 1 then Inl (AValue ''answer is single-select'')
                   else Inr (VDict [(''question'', VStr expected), (''answer'', VList (map VStr ts))])))"

definition question_answers :: "'w approver \<Rightarrow> val \<Rightarrow> val \<Rightarrow> aerror + val list" where
  "question_answers A approval supplied =
     ebind (question_items approval) (\<lambda>qs.
       case supplied of
         VList ss \<Rightarrow> if length ss \<noteq> length qs then Inl (AValue ''wrong number of ordered answers'')
                     else each (\<lambda>(q, s). question_answer A q s) (zip qs ss)
       | _ \<Rightarrow> Inl (AValue ''wrong number of ordered answers''))"

datatype reply = Answers "val list" | Decision bool "string option"

record prepared =
  pr_approval :: val
  pr_reply :: reply
  pr_kind :: reviewer_kind
  pr_reviewer :: string

text \<open>What a batch says about one tool request: the decision with its stripped reason.\<close>

definition item_decision :: "'w approver \<Rightarrow> val \<Rightarrow> val \<Rightarrow> aerror + reply" where
  "item_decision A approval item =
     (let decision = text_or_empty (cl_pystr (ap_client A)) (vget ''decision'' item);
          reason = (case vget ''reason'' item of VStr s \<Rightarrow> Some (strip s) | _ \<Rightarrow> None)
      in if decision \<noteq> ''approve'' \<and> decision \<noteq> ''deny'' then Inl (AValue ''decision must be approve or deny'')
         else if decision = ''approve'' \<and> vget ''request_kind'' approval \<noteq> VStr ''plan'' \<and> vget ''allow_non_plan'' item \<noteq> VBool True
         then Inl (AValue ''Approval is a non-plan tool request'')
         else if decision = ''deny'' \<and> \<not> truthy reason then Inl (AValue ''denial requires a reason'')
         else Inr (Decision (decision = ''approve'') reason))"

definition item_reply :: "'w approver \<Rightarrow> val \<Rightarrow> val \<Rightarrow> aerror + reply" where
  "item_reply A approval item =
     (if vtruthy (vget ''is_question'' approval) then
        (if vfield ''decision'' item \<noteq> None then Inl (AValue ''Question expects answers, not a decision'')
         else ebind (question_answers A approval (vget ''answers'' item)) (\<lambda>as. Inr (Answers as)))
      else item_decision A approval item)"

definition prepare_one :: "'w approver \<Rightarrow> (string \<times> val) list \<Rightarrow> string option \<Rightarrow> string \<Rightarrow> val \<Rightarrow> ('w, prepared) aop" where
  "prepare_one A asked explicit aid item =
     (case map_of asked aid of
        None \<Rightarrow> raising (AValue (''Approval is not currently pending: '' @ aid))
      | Some approval \<Rightarrow>
          follow (looked (field_text A ''session_id'' approval)) (\<lambda>sid.
          follow (approval_reviewer A explicit sid) (\<lambda>(kind, reviewer).
          follow (given (item_reply A approval item)) (\<lambda>r.
            give \<lparr>pr_approval = approval, pr_reply = r, pr_kind = kind, pr_reviewer = reviewer\<rparr>))))"

fun prepare_each ::
  "'w approver \<Rightarrow> (string \<times> val) list \<Rightarrow> string option \<Rightarrow> string list \<Rightarrow> val list \<Rightarrow> ('w, prepared list) aop" where
  "prepare_each A asked explicit seen [] = give []"
| "prepare_each A asked explicit seen (item # items) =
     (let aid = text_or_empty (cl_pystr (ap_client A)) (vget ''approval_id'' item) in
      if aid = [] \<or> aid \<in> set seen then raising (AValue ''Every batch item needs a unique approval_id'')
      else follow (prepare_one A asked explicit aid item) (\<lambda>p.
           follow (prepare_each A asked explicit (aid # seen) items) (\<lambda>ps. give (p # ps))))"

definition keyed_approvals :: "'w approver \<Rightarrow> val list \<Rightarrow> cerror + (string \<times> val) list" where
  "keyed_approvals A ds = ebind (each (\<lambda>d. ebind (field_text A ''approval_id'' d) (\<lambda>i. Inr (i, d))) ds) (\<lambda>kvs. Inr (rev kvs))"

definition prepare_batch :: "'w approver \<Rightarrow> string option \<Rightarrow> val list \<Rightarrow> ('w, prepared list) aop" where
  "prepare_batch A explicit items =
     follow (ask (pending_approvals (ap_client A) (ap_stream A))) (\<lambda>ps.
     follow (ask (each_op (approval_details A) ps)) (\<lambda>ds.
     follow (looked (keyed_approvals A ds)) (\<lambda>asked. prepare_each A asked explicit [] items)))"

definition respond_to_question :: "'w client \<Rightarrow> string \<Rightarrow> string \<Rightarrow> val list \<Rightarrow> ('w, cerror, val) op" where
  "respond_to_question C approval process answers =
     post C (''/approvals/'' @ approval @ ''/respond'')
       (VDict [(''execution_process_id'', VStr process),
               (''status'', VDict [(''status'', VStr ''answered''), (''answers'', VList answers)])])"

text \<open>\<open>except (CdesktopError, ApprovalAuditError)\<close>.\<close>

fun answer_caught :: "aerror \<Rightarrow> bool" where
  "answer_caught (AClient e) = is_cdesktop_error e"
| "answer_caught (AAudit m) = True"
| "answer_caught (AValue m) = False"

datatype answered = Answered val val | Refused val string

definition refused :: "'w approver \<Rightarrow> prepared \<Rightarrow> aerror \<Rightarrow> answered" where
  "refused A p e = Refused (vget ''approval_id'' (pr_approval p)) (ap_message A e)"

definition respond_decision :: "'w approver \<Rightarrow> prepared \<Rightarrow> bool \<Rightarrow> string option \<Rightarrow> ('w, answered) aop" where
  "respond_decision A p approved reason s =
     (case begin_decision A (pr_approval p) approved (pr_kind p) (pr_reviewer p) reason s of
        (Inl e, s') \<Rightarrow> (if answer_caught e then Inr (refused A p e) else Inl e, s')
      | (Inr row, s') \<Rightarrow>
          (case follow (post_decision A (pr_approval p) approved reason) (\<lambda>v.
                  follow (finish_decision A (au_id row) True None) (\<lambda>_. give v)) s' of
             (Inr v, s'') \<Rightarrow> (Inr (Answered (vget ''approval_id'' (pr_approval p)) v), s'')
           | (Inl e, s'') \<Rightarrow>
               if answer_caught e
               then follow (finish_decision A (au_id row) False (Some (ap_message A e))) (\<lambda>_. give (refused A p e)) s''
               else (Inl e, s'')))"

definition respond_answers :: "'w approver \<Rightarrow> prepared \<Rightarrow> val list \<Rightarrow> ('w, answered) aop" where
  "respond_answers A p as s =
     (case answer_call A (pr_approval p) (\<lambda>i q. respond_to_question (ap_client A) i q as) s of
        (Inr v, s') \<Rightarrow> (Inr (Answered (vget ''approval_id'' (pr_approval p)) v), s')
      | (Inl e, s') \<Rightarrow> (if answer_caught e then Inr (refused A p e) else Inl e, s'))"

definition respond_one :: "'w approver \<Rightarrow> prepared \<Rightarrow> ('w, answered) aop" where
  "respond_one A p =
     (case pr_reply p of Answers as \<Rightarrow> respond_answers A p as | Decision approved reason \<Rightarrow> respond_decision A p approved reason)"

fun is_refused :: "answered \<Rightarrow> bool" where
  "is_refused (Refused i m) = True"
| "is_refused (Answered i v) = False"

definition settle_orders :: "'w approver \<Rightarrow> string option \<Rightarrow> answered list \<Rightarrow> ('w, unit) aop" where
  "settle_orders A explicit rs =
     modify (\<lambda>s. case reviewing_session A explicit of
                   Some reporter \<Rightarrow>
                     if list_ex is_refused rs then s
                     else s\<lparr>dk_esc := snd (satisfy_orders (ap_now A) reporter None (dk_esc s))\<rparr>
                 | None \<Rightarrow> s)"

definition respond_batch :: "'w approver \<Rightarrow> val option \<Rightarrow> string option \<Rightarrow> ('w, answered list) aop" where
  "respond_batch A parsed explicit =
     follow (given (response_items parsed)) (\<lambda>items.
     follow (prepare_batch A explicit items) (\<lambda>ps.
     follow (each_op (respond_one A) ps) (\<lambda>rs.
     follow (settle_orders A explicit rs) (\<lambda>_. give rs))))"

subsection \<open>What only reads\<close>

definition is_read :: "exchange \<Rightarrow> bool" where
  "is_read x \<longleftrightarrow> hq_method (fst x) = ''GET''"

definition reads :: "'w \<times> exchange list \<Rightarrow> 'w \<times> exchange list \<Rightarrow> bool" where
  "reads w w' \<longleftrightarrow> (\<exists>xs. snd w' = snd w @ xs \<and> list_all is_read xs)"

lemma reads_preorder: "preorder reads"
proof -
  have "reads u w" if "reads u v" "reads v w" for u v w :: "'w \<times> exchange list"
  proof -
    from that obtain xs ys where "snd v = snd u @ xs" "list_all is_read xs" "snd w = snd v @ ys" "list_all is_read ys"
      unfolding reads_def by blast
    then show ?thesis unfolding reads_def by (intro exI [of _ "xs @ ys"]) simp
  qed
  moreover have "reads w w" for w :: "'w \<times> exchange list" by (simp add: reads_def)
  ultimately show ?thesis by (auto simp: preorder_def reflp_def transp_def)
qed

lemma reads_get:
  fixes C :: "'w client"
  shows "keeps reads (request (logged C) ''GET'' p q b h)"
proof (rule keepsI)
  fix s :: "'w \<times> exchange list" and r and s' :: "'w \<times> exchange list"
  assume run: "request (logged C) ''GET'' p q b h s = (r, s')"
  obtain w tr where "s = (w, tr)" by (rule prod.exhaust)
  obtain w' tr' where "s' = (w', tr')" by (rule prod.exhaust)
  with run \<open>s = (w, tr)\<close> have "request (logged C) ''GET'' p q b h (w, tr) = (r, (w', tr'))" by simp
  then show "reads s s'"
    unfolding reads_def \<open>s = (w, tr)\<close> \<open>s' = (w', tr')\<close>
    by (rule request_logged) (simp add: is_read_def)
qed

lemma reads_rescue: "keeps reads m \<Longrightarrow> (\<And>e. keeps reads (h e)) \<Longrightarrow> keeps reads (rescue m h)"
proof (rule keepsI)
  fix s r s'
  assume m: "keeps reads m" "\<And>e. keeps reads (h e)" and run: "rescue m h s = (r, s')"
  obtain q t where q: "m s = (q, t)" by (rule prod.exhaust)
  have first: "reads s t" by (rule keepsD [OF m(1) q])
  show "reads s s'"
  proof (cases "\<exists>e. q = Inl e \<and> is_cdesktop_error e")
    case True
    then obtain e where "q = Inl e" "h e t = (r, s')" using run q by (auto simp: rescue_def)
    from preorder_trans [OF reads_preorder first keepsD [OF m(2) this(2)]] show ?thesis .
  next
    case False
    with run q have "s' = t" by (auto simp: rescue_def split: sum.splits)
    with first show ?thesis by simp
  qed
qed

lemmas read_keeps = keeps_basic [OF reads_preorder] keeps_follow [OF reads_preorder] keeps_each [OF reads_preorder]
  keeps_if keeps_option reads_get reads_rescue

lemma reads_snapshot: "keeps reads (normalized_snapshot (logged C) p)"
  unfolding normalized_snapshot_def by (intro read_keeps)

lemma reads_tries: "ap_client A = logged C \<Longrightarrow> keeps reads (snapshot_tries A p n best)"
  by (induction n arbitrary: best) (auto intro!: read_keeps reads_snapshot)

lemma reads_details: "ap_client A = logged C \<Longrightarrow> keeps reads (approval_details A v)"
  unfolding approval_details_def request_of_def execution_process_at_def session_at_def workspace_at_def
  by (simp only:) (intro read_keeps reads_tries; assumption)

lemma reads_pending:
  fixes C :: "'w client"
  shows "keeps reads (pending_approvals (logged C) stream)"
proof (rule keepsI)
  fix s :: "'w \<times> exchange list" and r and s' :: "'w \<times> exchange list"
  assume run: "pending_approvals (logged C) stream s = (r, s')"
  obtain q t where q: "fetch (logged C) ''/approvals'' s = (q, t)" by (rule prod.exhaust)
  from run q have "s' = t" by (auto simp: pending_approvals_def split: sum.splits)
  with keepsD [OF reads_get q] show "reads s s'" by simp
qed

definition quiet_desk :: "('w \<times> exchange list) desk \<Rightarrow> ('w \<times> exchange list) desk \<Rightarrow> bool" where
  "quiet_desk s s' \<longleftrightarrow> dk_audit s' = dk_audit s \<and> dk_esc s' = dk_esc s \<and> reads (dk_service s) (dk_service s')"

lemma quiet_desk_preorder: "preorder quiet_desk"
  unfolding preorder_def reflp_def transp_def quiet_desk_def
  by (auto intro: preorder_refl [OF reads_preorder] preorder_trans [OF reads_preorder])

lemma quiet_ask: "keeps reads m \<Longrightarrow> keeps quiet_desk (ask m)"
  by (rule keepsI) (auto simp: ask_def quiet_desk_def dest: keepsD split: prod.splits)

lemma quiet_looked: "keeps quiet_desk (looked r)"
  unfolding looked_def by (rule keeps_basic [OF quiet_desk_preorder])

lemmas desk_keeps = keeps_basic [OF quiet_desk_preorder] keeps_follow [OF quiet_desk_preorder] keeps_each [OF quiet_desk_preorder]
  keeps_if keeps_option keeps_prod quiet_ask quiet_looked

lemma quiet_reviewer:
  assumes "ap_client A = logged C"
  shows "keeps quiet_desk (approval_reviewer A explicit target)"
  unfolding approval_reviewer_def session_at_def sessions_of_def assms by (intro desk_keeps reads_get)

lemma quiet_pending_approval:
  assumes "ap_client A = logged C"
  shows "keeps quiet_desk (pending_approval A aid)"
  unfolding pending_approval_def
  by (intro desk_keeps reads_details [OF assms]) (simp add: assms reads_pending)

lemma quiet_prepare_one:
  assumes "ap_client A = logged C"
  shows "keeps quiet_desk (prepare_one A asked explicit aid item)"
  unfolding prepare_one_def by (intro desk_keeps quiet_reviewer [OF assms])

lemma quiet_prepare_each:
  assumes "ap_client A = logged C"
  shows "keeps quiet_desk (prepare_each A asked explicit seen items)"
  by (induction items arbitrary: seen) (auto simp: Let_def intro!: desk_keeps quiet_prepare_one [OF assms])

lemma quiet_prepare_batch:
  assumes "ap_client A = logged C"
  shows "keeps quiet_desk (prepare_batch A explicit items)"
  unfolding prepare_batch_def
  by (intro desk_keeps read_keeps quiet_prepare_each [OF assms] reads_details [OF assms])
    (simp add: assms reads_pending)

subsection \<open>One recorded answer\<close>

definition decision_request :: "string \<Rightarrow> string \<Rightarrow> bool \<Rightarrow> string option \<Rightarrow> http_request" where
  "decision_request i p approved reason =
     \<lparr>hq_method = ''POST'', hq_path = ''/approvals/'' @ i @ ''/respond'', hq_query = [],
      hq_payload = Some (VDict [(''execution_process_id'', VStr p),
        (''status'', VDict (if approved then [(''status'', VStr ''approved'')]
           else [(''status'', VStr ''denied''), (''reason'', VStr (if truthy reason then the reason else ''Reviewer denied this request.''))]))]),
      hq_headers = []\<rparr>"

definition answer_request :: "string \<Rightarrow> string \<Rightarrow> val list \<Rightarrow> http_request" where
  "answer_request i p as =
     \<lparr>hq_method = ''POST'', hq_path = ''/approvals/'' @ i @ ''/respond'', hq_query = [],
      hq_payload = Some (VDict [(''execution_process_id'', VStr p),
        (''status'', VDict [(''status'', VStr ''answered''), (''answers'', VList as)])]),
      hq_headers = []\<rparr>"

abbreviation desk_log :: "('w \<times> exchange list) desk \<Rightarrow> exchange list" where
  "desk_log s \<equiv> snd (dk_service s)"

lemma looked_simps [simp]: "looked (Inr a) = give a" "looked (Inl e) = raising (AClient e)"
  by (auto simp: looked_def)

lemma begin_cases:
  assumes "begin_decision A v approved kind reviewer reason s = (res, s')"
  obtains (failed) e where "res = Inl e" "s' = s" "\<forall>m. e \<noteq> AValue m"
    | (recorded) row where "res = Inr row" "s' = s\<lparr>dk_audit := dk_audit s @ [row]\<rparr>"
        "decision_row A (length (dk_audit s)) v approved kind reviewer reason = Inr row" "lookup_by au_id (au_id row) (dk_audit s) = None"
proof (cases "decision_row A (length (dk_audit s)) v approved kind reviewer reason")
  case (Inl e)
  with assms have "res = Inl (AClient e)" "s' = s" by (simp_all add: begin_decision_def follow_def)
  with failed show thesis by blast
next
  case (Inr row)
  show thesis
  proof (cases "lookup_by au_id (au_id row) (dk_audit s) = None")
    case True
    with assms Inr have "res = Inr row" "s' = s\<lparr>dk_audit := dk_audit s @ [row]\<rparr>" by (simp_all add: begin_decision_def follow_def)
    with recorded Inr True show thesis by blast
  next
    case False
    with assms Inr have "res = Inl (AAudit ''Cannot record approval attempt'')" "s' = s" by (simp_all add: begin_decision_def follow_def)
    with failed show thesis by blast
  qed
qed

lemma finish_fresh:
  assumes "lookup_by au_id (au_id row) rows = None" "au_status row = Submitting" "dk_audit s = rows @ [row]"
  shows "finish_decision A (au_id row) ok error s
    = (Inr (settle_decision A ok error row), s\<lparr>dk_audit := rows @ [settle_decision A ok error row]\<rparr>)"
proof -
  have old: "update_by au_id (au_id row) G f rows = rows" for G f
    by (rule update_by_absent) (metis assms(1) lookup_by_None_iff image_eqI)
  have "update_by au_id (au_id row) (\<lambda>r. au_status r = Submitting) (settle_decision A ok error) (rows @ [row])
      = rows @ [settle_decision A ok error row]"
    using old by (simp add: update_by_def assms(2))
  moreover have "lookup_by au_id (au_id row) (rows @ [settle_decision A ok error row]) = Some (settle_decision A ok error row)"
    using assms(1) by (simp add: lookup_by_append settle_decision_def)
  moreover have "hits_by au_id (au_id row) (\<lambda>r. au_status r = Submitting) (rows @ [row])"
    using assms(2) by (simp add: hits_by_def)
  ultimately show ?thesis by (simp add: finish_decision_def assms(3))
qed

lemma row_fields:
  assumes "decision_row A n v approved kind reviewer reason = Inr row"
  shows "field_text A ''approval_id'' v = Inr (au_approval row)" "field_text A ''execution_process_id'' v = Inr (au_process row)"
    "field_text A ''tool_name'' v = Inr (au_tool row)" "au_session row = optional_text A (vget ''session_id'' v)"
    "au_approved row = approved" "au_kind row = kind" "au_reviewer row = reviewer" "au_status row = Submitting"
    "au_reason row = (if truthy reason then Some (ap_sha A (the reason)) else None)"
  using assms by (auto simp: decision_row_def)

lemma ask_post:
  fixes C :: "'w client" and s :: "('w \<times> exchange list) desk"
  shows "\<exists>reply w'. ask (request (logged C) m p q b h) s
    = (map_sum AClient id (answer_of C m p reply),
       s\<lparr>dk_service := (w', desk_log s @ [(\<lparr>hq_method = m, hq_path = p, hq_query = q, hq_payload = b, hq_headers = h\<rparr>, reply)])\<rparr>)"
proof -
  obtain w tr where w: "dk_service s = (w, tr)" by (rule prod.exhaust)
  obtain res w' tr' where run: "request (logged C) m p q b h (w, tr) = (res, (w', tr'))" by (metis prod.exhaust)
  from request_logged [OF this] obtain reply where "res = answer_of C m p reply"
    "tr' = tr @ [(\<lparr>hq_method = m, hq_path = p, hq_query = q, hq_payload = b, hq_headers = h\<rparr>, reply)]" by metis
  with w run show ?thesis by (intro exI [of _ reply] exI [of _ w']) (simp add: ask_def)
qed

lemma post_decision_logged:
  fixes s :: "('w \<times> exchange list) desk"
  assumes A: "ap_client A = logged C" and row: "decision_row A n v approved kind reviewer reason' = Inr row"
  obtains reply w' where "post_decision A v approved reason s
    = (map_sum AClient id (answer_of C ''POST'' (''/approvals/'' @ au_approval row @ ''/respond'') reply),
       s\<lparr>dk_service := (w', desk_log s @ [(decision_request (au_approval row) (au_process row) approved reason, reply)])\<rparr>)"
proof -
  have "post_decision A v approved reason s = ask (respond_to_approval (logged C) (au_approval row) (au_process row) approved reason) s"
    by (simp add: post_decision_def answer_call_def row_fields [OF row] A)
  with ask_post [of C "''POST''" "''/approvals/'' @ au_approval row @ ''/respond''" "[]" _ "[]" s] that show thesis
    unfolding respond_to_approval_def decision_request_def by metis
qed

subsection \<open>Who reviewed\<close>

definition own_reviewer :: "audit_row \<Rightarrow> bool" where
  "own_reviewer r \<longleftrightarrow> (au_kind r = LeadSession \<longrightarrow> au_session r \<noteq> Some (au_reviewer r))"

lemma reviewer_cases:
  assumes "approval_reviewer A explicit target s = (Inr (kind, reviewer), s')"
  shows "kind = Human \<or> kind = LeadSession \<and> reviewer \<noteq> target"
  using assms by (auto simp: approval_reviewer_def follow_eq_Inr split: option.splits if_splits)

lemma session_text: "field_text A k v = Inr x \<Longrightarrow> optional_text A (vget k v) = None \<or> optional_text A (vget k v) = Some x"
  by (auto simp: field_text_def item_at_def optional_text_def vget_def split: if_splits option.splits)

lemma row_reviewer:
  assumes "decision_row A n v approved kind reviewer reason = Inr row" "field_text A ''session_id'' v = Inr sid"
    "kind = Human \<or> kind = LeadSession \<and> reviewer \<noteq> sid"
  shows "own_reviewer row"
  using session_text [OF assms(2)] assms(3) by (auto simp: own_reviewer_def row_fields [OF assms(1)])

subsection \<open>The details of an approval\<close>

lemma map_of_replace: "map_of (map (\<lambda>(c, x). (c, if c = k then v else x)) kvs) j
    = (if j = k \<and> map_of kvs k \<noteq> None then Some v else map_of kvs j)"
  by (induction kvs) auto

lemma vfield_vset:
  assumes "is_dict d"
  shows "vfield j (vset k v d) = (if j = k then Some v else vfield j d)"
proof -
  from assms obtain kvs where d: "d = VDict kvs" by (cases d) auto
  show ?thesis
  proof (cases "map_of kvs k")
    case None
    then have "k \<notin> fst ` set kvs" by (simp add: map_of_eq_None_iff)
    with None show ?thesis by (simp add: d map_add_def split: option.split)
  next
    case (Some u)
    then have "k \<in> fst ` set kvs" by (metis map_of_eq_None_iff option.distinct(1))
    with Some show ?thesis by (simp add: d map_of_replace)
  qed
qed

lemma vsets_dict: "is_dict d \<Longrightarrow> is_dict (vsets kvs d)"
  by (induction kvs arbitrary: d) auto

lemma vfield_vsets: "is_dict d \<Longrightarrow> k \<notin> fst ` set kvs \<Longrightarrow> vfield k (vsets kvs d) = vfield k d"
  by (induction kvs arbitrary: d) (auto simp: vfield_vset)

lemma vfield_vsets_last: "is_dict d \<Longrightarrow> vfield k (vsets (kvs @ [(k, v)]) d) = Some v"
  by (induction kvs arbitrary: d) (auto simp: vfield_vset)

lemma detailed_keeps:
  assumes "is_dict v" "k \<in> {''approval_id'', ''execution_process_id'', ''tool_name'', ''is_question''}"
  shows "vfield k (detailed A v sid session wid workspace req) = vfield k v"
  unfolding detailed_def
proof (rule vfield_vsets [OF assms(1)])
  show "k \<notin> fst ` set [(''session_id'', VStr sid), (''session_name'', vget ''name'' session), (''executor'', vget ''executor'' session),
            (''workspace_id'', VStr wid), (''workspace_name'', vget ''name'' workspace),
            (''workspace_archived'', VBool (vtruthy (vget ''archived'' workspace))),
            (''request'', fst req), (''request_error'', snd req), (''request_kind'', VStr (request_kind A v))]"
    using assms(2) by (elim insertE emptyE) simp_all
qed

lemma detailed_dict: "is_dict v \<Longrightarrow> is_dict (detailed A v sid session wid workspace req)"
  unfolding detailed_def by (rule vsets_dict)

lemma detailed_kind:
  assumes "is_dict v"
  shows "vfield ''request_kind'' (detailed A v sid session wid workspace req) = Some (VStr (request_kind A v))"
  using vfield_vsets_last [OF assms, of "''request_kind''" "[(''session_id'', VStr sid), (''session_name'', vget ''name'' session),
      (''executor'', vget ''executor'' session), (''workspace_id'', VStr wid), (''workspace_name'', vget ''name'' workspace),
      (''workspace_archived'', VBool (vtruthy (vget ''archived'' workspace))), (''request'', fst req), (''request_error'', snd req)]"]
  by (simp only: detailed_def append_Cons append_Nil)

lemma field_text_same: "vfield k v = vfield k u \<Longrightarrow> is_dict v \<Longrightarrow> is_dict u \<Longrightarrow> field_text A k v = field_text A k u"
  by (simp add: field_text_def item_at_def)

lemma details_cases:
  assumes "approval_details A v s = (Inr d, s')"
  shows "(\<exists>sid session wid workspace req. d = detailed A v sid session wid workspace req) \<and> is_dict v"
  using assms
  by (auto simp: approval_details_def follow_eq_Inr field_text_def item_at_def split: if_splits option.splits) blast

text \<open>What a decision may rely on: the identity of the request, and that only a plan is of kind \<open>plan\<close>.\<close>

definition describes :: "'w approver \<Rightarrow> val \<Rightarrow> bool" where
  "describes A d \<longleftrightarrow> is_dict d
     \<and> (vget ''request_kind'' d = VStr ''plan'' \<and> \<not> vtruthy (vget ''is_question'' d) \<longrightarrow>
          text_or_empty (cl_pystr (ap_client A)) (vget ''tool_name'' d) = ''ExitPlanMode'')"

lemma details_describe:
  assumes "approval_details A v s = (Inr d, s')"
  shows "describes A d" "field_text A ''approval_id'' d = field_text A ''approval_id'' v"
proof -
  from details_cases [OF assms] obtain sid session wid workspace req where
    d: "d = detailed A v sid session wid workspace req" and v: "is_dict v" by blast
  have dict: "is_dict d" unfolding d by (rule detailed_dict [OF v])
  have same: "vfield k d = vfield k v" if "k \<in> {''approval_id'', ''execution_process_id'', ''tool_name'', ''is_question''}" for k
    unfolding d by (rule detailed_keeps [OF v that])
  have kind: "vget ''request_kind'' d = VStr (request_kind A v)" unfolding d vget_def detailed_kind [OF v] by simp
  show "field_text A ''approval_id'' d = field_text A ''approval_id'' v"
    by (rule field_text_same) (simp_all add: same dict v)
  show "describes A d"
    unfolding describes_def kind using dict by (simp add: request_kind_def vget_def same)
qed

lemma plan_tool:
  assumes "describes A d" "vget ''request_kind'' d = VStr ''plan''" "\<not> vtruthy (vget ''is_question'' d)"
    "field_text A ''tool_name'' d = Inr t"
  shows "t = ''ExitPlanMode''"
proof -
  from assms(1-3) have "text_or_empty (cl_pystr (ap_client A)) (vget ''tool_name'' d) = ''ExitPlanMode''" by (simp add: describes_def)
  with assms(4) show ?thesis
    by (auto simp: field_text_def item_at_def vget_def text_or_empty_def text_of_def split: if_splits option.splits val.splits)
qed

subsection \<open>A decision is recorded before it is sent\<close>

lemma settle_fields [simp]:
  "au_id (settle_decision A ok error r) = au_id r" "au_approval (settle_decision A ok error r) = au_approval r"
  "au_process (settle_decision A ok error r) = au_process r" "au_session (settle_decision A ok error r) = au_session r"
  "au_tool (settle_decision A ok error r) = au_tool r" "au_approved (settle_decision A ok error r) = au_approved r"
  "au_kind (settle_decision A ok error r) = au_kind r" "au_reviewer (settle_decision A ok error r) = au_reviewer r"
  "au_reason (settle_decision A ok error r) = au_reason r"
  "au_status (settle_decision A ok error r) = (if ok then Responded else Unanswered)"
  by (simp_all add: settle_decision_def)

lemma own_reviewer_settle [simp]: "own_reviewer (settle_decision A ok error r) = own_reviewer r"
  by (simp add: own_reviewer_def)

lemma decide_recorded_logged:
  fixes s :: "('w \<times> exchange list) desk"
  assumes A: "ap_client A = logged C" and row: "decision_row A n v approved kind reviewer reason' = Inr row"
    and fresh: "lookup_by au_id (au_id row) rows = None" "dk_audit s = rows @ [row]"
    and run: "decide_recorded A v approved reason row s = (res, s')"
  shows "\<exists>x error. desk_log s' = desk_log s @ [x] \<and> fst x = decision_request (au_approval row) (au_process row) approved reason
    \<and> dk_audit s' = rows @ [settle_decision A (\<not> isl res) error row]"
proof -
  from post_decision_logged [OF A row, where reason = reason and s = s] obtain reply w' where
    post: "post_decision A v approved reason s
    = (map_sum AClient id (answer_of C ''POST'' (''/approvals/'' @ au_approval row @ ''/respond'') reply),
       s\<lparr>dk_service := (w', desk_log s @ [(decision_request (au_approval row) (au_process row) approved reason, reply)])\<rparr>)"
    (is "_ = (map_sum AClient id ?ans, ?s1)") .
  have finish: "finish_decision A (au_id row) ok error ?s1
      = (Inr (settle_decision A ok error row), ?s1\<lparr>dk_audit := rows @ [settle_decision A ok error row]\<rparr>)" for ok error
    by (rule finish_fresh [OF fresh(1)]) (simp_all add: row_fields [OF row] fresh(2))
  show ?thesis
  proof (cases ?ans)
    case (Inl e)
    then have "res = Inl (AClient e)" "s' = ?s1\<lparr>dk_audit := rows @ [settle_decision A False (Some (ap_message A (AClient e))) row]\<rparr>"
      using run by (simp_all add: decide_recorded_def post follow_def finish)
    then show ?thesis by auto
  next
    case (Inr u)
    then have "isl res = False" "s' = ?s1\<lparr>dk_audit := rows @ [settle_decision A True None row]\<rparr>"
      using run by (auto simp add: decide_recorded_def post follow_def finish)
    then show ?thesis by auto
  qed
qed

lemma ask_Inr: "ask m s = (Inr a, s') \<Longrightarrow> \<exists>u. m (dk_service s) = (Inr a, u)"
  by (cases "m (dk_service s)"; cases "fst (m (dk_service s))") (auto simp: ask_def)

lemma pending_approval_found:
  assumes "pending_approval A aid s = (Inr d, s')"
  shows "describes A d" "field_text A ''approval_id'' d = Inr aid"
proof -
  from assms obtain items t where "ask (pending_approvals (ap_client A) (ap_stream A)) s = (Inr items, t)"
    and found: "(case find (\<lambda>i. vget ''approval_id'' i = VStr aid) items of
         None \<Rightarrow> raising (AValue (''Approval is not currently pending: '' @ aid))
       | Some i \<Rightarrow> ask (approval_details A i)) t = (Inr d, s')"
    unfolding pending_approval_def by (rule followE)
  from found obtain i where i: "find (\<lambda>i. vget ''approval_id'' i = VStr aid) items = Some i"
    and run: "ask (approval_details A i) t = (Inr d, s')" by (cases "find (\<lambda>i. vget ''approval_id'' i = VStr aid) items") auto
  from i have id: "vget ''approval_id'' i = VStr aid" by (auto simp: find_Some_iff)
  from ask_Inr [OF run] obtain u where "approval_details A i (dk_service t) = (Inr d, u)" by blast
  from details_describe [OF this] details_cases [OF this] id show "describes A d" "field_text A ''approval_id'' d = Inr aid"
    by (auto simp: field_text_def item_at_def vget_def split: option.splits)
qed

text \<open>The command up to its first write: it only read, or it wrote the row of the decision.\<close>

lemma decide_cases:
  fixes s :: "('w \<times> exchange list) desk"
  assumes A: "ap_client A = logged C" and run: "decide_approval A aid approved allow reason explicit s = (res, s')"
  defines "why \<equiv> if approved then None else Some reason"
  obtains (refused) "quiet_desk s s'" "isl res"
    | (recorded) d kind reviewer row t where "describes A d" "field_text A ''approval_id'' d = Inr aid"
        "refuse_decision d approved allow reason = None" "quiet_desk s t" "own_reviewer row"
        "decision_row A (length (dk_audit t)) d approved kind reviewer why = Inr row" "lookup_by au_id (au_id row) (dk_audit t) = None"
        "decide_recorded A d approved why row (t\<lparr>dk_audit := dk_audit t @ [row]\<rparr>) = (res, s')"
proof -
  obtain a s1 where a: "pending_approval A aid s = (a, s1)" by (rule prod.exhaust)
  have q1: "quiet_desk s s1" by (rule keepsD [OF quiet_pending_approval [OF A] a])
  show thesis
  proof (cases "\<exists>d sid. a = Inr d \<and> refuse_decision d approved allow reason = None \<and> field_text A ''session_id'' d = Inr sid")
    case False
    have "s' = s1 \<and> isl res"
    proof (cases a)
      case (Inl e)
      with run a show ?thesis by (auto simp: decide_approval_def follow_def)
    next
      case (Inr d)
      with False have "refuse_decision d approved allow reason \<noteq> None \<or> (\<exists>e. field_text A ''session_id'' d = Inl e)"
        by (metis sum.exhaust)
      with run a Inr show ?thesis by (auto simp: decide_approval_def follow_def split: option.splits)
    qed
    with q1 refused show thesis by blast
  next
    case True
    then obtain d sid where d: "a = Inr d" "refuse_decision d approved allow reason = None" "field_text A ''session_id'' d = Inr sid" by blast
    obtain k s2 where k: "approval_reviewer A explicit sid s1 = (k, s2)" by (rule prod.exhaust)
    from preorder_trans [OF quiet_desk_preorder q1 keepsD [OF quiet_reviewer [OF A] k]] have q2: "quiet_desk s s2" .
    show thesis
    proof (cases k)
      case (Inl e)
      with run a d k q2 refused show thesis by (auto simp: decide_approval_def follow_def)
    next
      case (Inr kr)
      then obtain kind reviewer where kr: "k = Inr (kind, reviewer)" by (cases kr) simp
      obtain b s3 where b: "begin_decision A d approved kind reviewer why s2 = (b, s3)" by (rule prod.exhaust)
      then show thesis
      proof (cases rule: begin_cases)
        case (failed e)
        with run a d k kr b q2 refused show thesis by (auto simp: decide_approval_def follow_def why_def)
      next
        case (recorded row)
        with run a d k kr b have "decide_recorded A d approved why row s3 = (res, s')" by (simp add: decide_approval_def follow_def why_def)
        with pending_approval_found [OF a [unfolded d(1)]] d(2) q2 row_reviewer [OF recorded(3) d(3) reviewer_cases [OF k [unfolded kr]]]
          recorded that(2) show thesis by metis
      qed
    qed
  qed
qed

text \<open>
  C23: No decision without a record.  One decision of an operator or a lead session either changes
  nothing and sends nothing, or it sends exactly one answer, for the approval it names, after its
  audit row was written; the row ends as answered or as failed, exactly as the command does.  A
  session never decides about its own request, and without the explicit permission only a plan is
  approved.
\<close>

theorem decision_is_audited:
  fixes s :: "('w \<times> exchange list) desk"
  assumes A: "ap_client A = logged C" and run: "decide_approval A aid approved allow reason explicit s = (res, s')"
  shows "quiet_desk s s' \<and> isl res
    \<or> (\<exists>gets x row. desk_log s' = desk_log s @ gets @ [x] \<and> list_all is_read gets \<and> dk_audit s' = dk_audit s @ [row]
        \<and> au_approval row = aid \<and> au_approved row = approved
        \<and> fst x = decision_request aid (au_process row) approved (if approved then None else Some reason)
        \<and> au_status row = (if isl res then Unanswered else Responded)
        \<and> own_reviewer row \<and> (approved \<and> \<not> allow \<longrightarrow> au_tool row = ''ExitPlanMode''))"
  using assms
proof (cases rule: decide_cases)
  case refused
  then show ?thesis by blast
next
  case (recorded d kind reviewer row t)
  from decide_recorded_logged [OF A recorded(6,7) _ recorded(8)] obtain x error where
    x: "desk_log s' = desk_log t @ [x]"
      "fst x = decision_request (au_approval row) (au_process row) approved (if approved then None else Some reason)"
      "dk_audit s' = dk_audit t @ [settle_decision A (\<not> isl res) error row]" by auto
  have "au_approval row = aid" using recorded(2) row_fields(1) [OF recorded(6)] by simp
  moreover have "au_tool row = ''ExitPlanMode''" if "approved" "\<not> allow"
    using plan_tool [OF recorded(1) _ _ row_fields(3) [OF recorded(6)]] recorded(3) that by (auto simp: refuse_decision_def split: if_splits)
  moreover from recorded(4) obtain gets where "desk_log t = desk_log s @ gets" "list_all is_read gets" "dk_audit t = dk_audit s"
    by (auto simp: quiet_desk_def reads_def)
  ultimately show ?thesis
    using x recorded(5) row_fields(5) [OF recorded(6)]
    by (intro disjI2 exI [of _ gets] exI [of _ x] exI [of _ "settle_decision A (\<not> isl res) error row"]) auto
qed

subsection \<open>A batch is checked, then recorded and sent\<close>

definition decides :: "http_request \<Rightarrow> bool" where
  "decides q \<longleftrightarrow> hq_method q = ''POST'' \<and>
     (case hq_payload q of
        None \<Rightarrow> False
      | Some v \<Rightarrow> vget ''status'' (vget ''status'' v) = VStr ''approved'' \<or> vget ''status'' (vget ''status'' v) = VStr ''denied'')"

definition recorded_by :: "'w approver \<Rightarrow> http_request \<Rightarrow> audit_row \<Rightarrow> bool" where
  "recorded_by A q r \<longleftrightarrow> (\<exists>reason. q = decision_request (au_approval r) (au_process r) (au_approved r) reason
     \<and> au_reason r = (if truthy reason then Some (ap_sha A (the reason)) else None))"

definition audited :: "'v approver \<Rightarrow> bool \<Rightarrow> ('w \<times> exchange list) desk \<Rightarrow> ('w \<times> exchange list) desk \<Rightarrow> bool" where
  "audited A settled s s' \<longleftrightarrow> (\<exists>xs new. desk_log s' = desk_log s @ xs \<and> dk_audit s' = dk_audit s @ new
     \<and> list_all2 (recorded_by A) (filter decides (map fst xs)) new \<and> list_all own_reviewer new
     \<and> (settled \<longrightarrow> list_all (\<lambda>r. au_status r \<noteq> Submitting) new))"

lemma decides_decision [simp]: "decides (decision_request i p approved reason)"
  by (simp add: decides_def decision_request_def)

lemma decides_answer [simp]: "\<not> decides (answer_request i p as)"
  by (simp add: decides_def answer_request_def)

lemma reads_decide_nothing: "list_all is_read xs \<Longrightarrow> filter decides (map fst xs) = []"
  by (induction xs) (auto simp: is_read_def decides_def)

lemma quiet_audited: "quiet_desk s s' \<Longrightarrow> audited A settled s s'"
  by (auto simp: quiet_desk_def reads_def audited_def reads_decide_nothing)

lemma audited_trans: "audited A settled s t \<Longrightarrow> audited A settled' t u \<Longrightarrow> (final \<longrightarrow> settled \<and> settled') \<Longrightarrow> audited A final s u"
  unfolding audited_def
  by (elim exE conjE)
    (rule exI, rule exI, intro conjI impI, simp, simp, simp add: list_all2_appendI, simp, simp)

lemma audited_esc: "audited A settled s t \<Longrightarrow> audited A settled s (t\<lparr>dk_esc := e\<rparr>)"
  by (simp add: audited_def)

definition prepared_ok :: "'w approver \<Rightarrow> prepared \<Rightarrow> bool" where
  "prepared_ok A p \<longleftrightarrow> (\<exists>sid. field_text A ''session_id'' (pr_approval p) = Inr sid
     \<and> (pr_kind p = Human \<or> pr_kind p = LeadSession \<and> pr_reviewer p \<noteq> sid))"

lemma map_sum_Inr: "map_sum f id r = Inr a \<longleftrightarrow> r = Inr a"
  by (cases r) auto

lemma prepare_one_ok: "prepare_one A asked explicit aid item s = (Inr p, s') \<Longrightarrow> prepared_ok A p"
  by (auto simp: prepare_one_def looked_def follow_eq_Inr prepared_ok_def map_sum_Inr split: option.splits dest: reviewer_cases)

lemma prepare_each_ok: "prepare_each A asked explicit seen items s = (Inr ps, s') \<Longrightarrow> list_all (prepared_ok A) ps"
  by (induction items arbitrary: seen s ps)
    (auto simp: Let_def follow_eq_Inr prepare_one_ok split: if_splits)

lemma prepare_batch_ok: "prepare_batch A explicit items s = (Inr ps, s') \<Longrightarrow> list_all (prepared_ok A) ps"
  by (auto simp: prepare_batch_def follow_eq_Inr prepare_each_ok)

lemma respond_decision_audited:
  fixes s :: "('w \<times> exchange list) desk"
  assumes A: "ap_client A = logged C" and ok: "prepared_ok A p" and run: "respond_decision A p approved reason s = (res, s')"
  shows "audited A (\<not> isl res) s s' \<and> (\<forall>m. res \<noteq> Inl (AValue m))"
proof -
  have refl: "audited A True s s" by (rule quiet_audited) (rule preorder_refl [OF quiet_desk_preorder])
  obtain b s1 where b: "begin_decision A (pr_approval p) approved (pr_kind p) (pr_reviewer p) reason s = (b, s1)" by (rule prod.exhaust)
  show ?thesis
    using b
  proof (cases rule: begin_cases)
    case (failed e)
    with run b refl show ?thesis by (auto simp: respond_decision_def audited_def split: if_splits)
  next
    case (recorded row)
    note row = recorded(3)
    from post_decision_logged [OF A row, where reason = reason and s = s1] obtain reply w' where
      post: "post_decision A (pr_approval p) approved reason s1
      = (map_sum AClient id (answer_of C ''POST'' (''/approvals/'' @ au_approval row @ ''/respond'') reply),
         s1\<lparr>dk_service := (w', desk_log s1 @ [(decision_request (au_approval row) (au_process row) approved reason, reply)])\<rparr>)"
      (is "_ = (map_sum AClient id ?ans, ?s2)") .
    have finish: "finish_decision A (au_id row) ok error ?s2
        = (Inr (settle_decision A ok error row), ?s2\<lparr>dk_audit := dk_audit s @ [settle_decision A ok error row]\<rparr>)" for ok error
      by (rule finish_fresh [OF recorded(4)]) (simp_all add: row_fields [OF row] recorded(2))
    have own: "own_reviewer row" using ok row_reviewer [OF row] by (auto simp: prepared_ok_def)
    have sent: "recorded_by A (decision_request (au_approval row) (au_process row) approved reason) (settle_decision A ok error row)"
      "recorded_by A (decision_request (au_approval row) (au_process row) approved reason) row" for ok error
      by (auto simp: recorded_by_def row_fields [OF row] intro!: exI [of _ reason])
    have settled: "audited A True s (?s2\<lparr>dk_audit := dk_audit s @ [settle_decision A ok error row]\<rparr>)" for ok error
      unfolding audited_def
      by (rule exI [of _ "[(decision_request (au_approval row) (au_process row) approved reason, reply)]"],
          rule exI [of _ "[settle_decision A ok error row]"]) (simp add: recorded(2) sent own)
    have stranded: "audited A False s ?s2"
      unfolding audited_def
      by (rule exI [of _ "[(decision_request (au_approval row) (au_process row) approved reason, reply)]"],
          rule exI [of _ "[row]"]) (simp add: recorded(2) sent own)
    show ?thesis
    proof (cases ?ans)
      case (Inl e)
      then have "post_decision A (pr_approval p) approved reason s1 = (Inl (AClient e), ?s2)" by (simp add: post)
      with run b recorded(1) finish settled stranded show ?thesis
        by (cases "is_cdesktop_error e") (auto simp: respond_decision_def follow_def)
    next
      case (Inr v)
      then have "post_decision A (pr_approval p) approved reason s1 = (Inr v, ?s2)" by (simp add: post)
      with run b recorded(1) finish settled show ?thesis
        by (auto simp: respond_decision_def follow_def)
    qed
  qed
qed

lemma respond_answers_audited:
  fixes s :: "('w \<times> exchange list) desk"
  assumes A: "ap_client A = logged C" and run: "respond_answers A p as s = (res, s')"
  shows "audited A (\<not> isl res) s s' \<and> (\<forall>m. res \<noteq> Inl (AValue m))"
proof -
  have refl: "audited A b s s" for b by (rule quiet_audited) (rule preorder_refl [OF quiet_desk_preorder])
  let ?call = "answer_call A (pr_approval p) (\<lambda>i q. respond_to_question (ap_client A) i q as) s"
  have "(\<exists>e. ?call = (Inl (AClient e), s)) \<or> (\<exists>r t x. ?call = (map_sum AClient id r, t) \<and> \<not> decides (fst x)
      \<and> desk_log t = desk_log s @ [x] \<and> dk_audit t = dk_audit s)"
  proof (cases "\<exists>i q. field_text A ''approval_id'' (pr_approval p) = Inr i \<and> field_text A ''execution_process_id'' (pr_approval p) = Inr q")
    case True
    then obtain i q where f: "field_text A ''approval_id'' (pr_approval p) = Inr i" "field_text A ''execution_process_id'' (pr_approval p) = Inr q"
      by blast
    have "?call = ask (respond_to_question (logged C) i q as) s" by (simp add: answer_call_def f A)
    with ask_post [of C "''POST''" "''/approvals/'' @ i @ ''/respond''" "[]" "hq_payload (answer_request i q as)" "[]" s] obtain reply w' where
      "?call = (map_sum AClient id (answer_of C ''POST'' (''/approvals/'' @ i @ ''/respond'') reply),
         s\<lparr>dk_service := (w', desk_log s @ [(answer_request i q as, reply)])\<rparr>)"
      by (auto simp: respond_to_question_def answer_request_def)
    then show ?thesis by auto
  next
    case False
    then show ?thesis
      by (cases "field_text A ''approval_id'' (pr_approval p)"; cases "field_text A ''execution_process_id'' (pr_approval p)")
        (auto simp: answer_call_def)
  qed
  then show ?thesis
  proof (elim disjE exE conjE)
    fix e assume "?call = (Inl (AClient e), s)"
    with run refl show ?thesis by (auto simp: respond_answers_def split: if_splits)
  next
    fix r t x assume c: "?call = (map_sum AClient id r, t)" "\<not> decides (fst x)" "desk_log t = desk_log s @ [x]" "dk_audit t = dk_audit s"
    then have "audited A b s t" for b unfolding audited_def by (intro exI [of _ "[x]"] exI [of _ "[]"]) simp
    with run c(1) show ?thesis by (cases r) (auto simp: respond_answers_def split: if_splits)
  qed
qed

lemma respond_one_audited:
  fixes s :: "('w \<times> exchange list) desk"
  assumes "ap_client A = logged C" "prepared_ok A p" "respond_one A p s = (res, s')"
  shows "audited A (\<not> isl res) s s' \<and> (\<forall>m. res \<noteq> Inl (AValue m))"
  using assms respond_answers_audited [OF assms(1)] respond_decision_audited [OF assms(1,2)]
  by (auto simp: respond_one_def split: reply.splits)

lemma respond_each_audited:
  fixes s :: "('w \<times> exchange list) desk"
  assumes A: "ap_client A = logged C"
  shows "list_all (prepared_ok A) ps \<Longrightarrow> each_op (respond_one A) ps s = (res, s')
    \<Longrightarrow> audited A (\<not> isl res) s s' \<and> (\<forall>m. res \<noteq> Inl (AValue m))"
proof (induction ps arbitrary: s res s')
  case Nil
  then show ?case by (auto intro: quiet_audited preorder_refl [OF quiet_desk_preorder])
next
  case (Cons p ps)
  obtain a t where a: "respond_one A p s = (a, t)" by (rule prod.exhaust)
  from respond_one_audited [OF A _ a] Cons.prems(1) have one: "audited A (\<not> isl a) s t" "\<forall>m. a \<noteq> Inl (AValue m)" by simp_all
  obtain b u where b: "each_op (respond_one A) ps t = (b, u)" by (rule prod.exhaust)
  from Cons.IH [OF _ b] Cons.prems(1) have rest: "audited A (\<not> isl b) t u" "\<forall>m. b \<noteq> Inl (AValue m)" by simp_all
  show ?case
  proof (cases a)
    case (Inl e)
    with Cons.prems(2) a one show ?thesis by (auto simp: follow_def)
  next
    case (Inr v)
    with Cons.prems(2) a b have "s' = u" "isl res = isl b" "\<forall>m. res \<noteq> Inl (AValue m)"
      using rest(2) by (auto simp: follow_def split: sum.splits)
    with audited_trans [OF one(1) rest(1)] Inr show ?thesis by simp
  qed
qed

lemma batch_cases:
  fixes s :: "('w \<times> exchange list) desk"
  assumes A: "ap_client A = logged C" and run: "respond_batch A parsed explicit s = (res, s')"
  obtains (invalid) "quiet_desk s s'" "isl res"
    | (answered) t u e where "quiet_desk s t" "audited A (\<not> isl res) t u" "s' = u\<lparr>dk_esc := e\<rparr>" "\<forall>m. res \<noteq> Inl (AValue m)"
proof -
  have same: "quiet_desk s s" by (rule preorder_refl [OF quiet_desk_preorder])
  show thesis
  proof (cases "response_items parsed")
    case (Inl e)
    with run same invalid show thesis by (auto simp: respond_batch_def follow_def)
  next
    case (Inr items)
    obtain b t where b: "prepare_batch A explicit items s = (b, t)" by (rule prod.exhaust)
    from keepsD [OF quiet_prepare_batch [OF A] b] have quiet: "quiet_desk s t" .
    show thesis
    proof (cases b)
      case Inl
      with run \<open>response_items parsed = Inr items\<close> b quiet invalid show thesis by (auto simp: respond_batch_def follow_def)
    next
      case (Inr ps)
      obtain c u where c: "each_op (respond_one A) ps t = (c, u)" by (rule prod.exhaust)
      from respond_each_audited [OF A prepare_batch_ok c] b Inr have each: "audited A (\<not> isl c) t u" "\<forall>m. c \<noteq> Inl (AValue m)" by auto
      have id: "v\<lparr>dk_esc := dk_esc v\<rparr> = v" for v :: "('w \<times> exchange list) desk" by (cases v) simp
      have "\<exists>e. s' = u\<lparr>dk_esc := e\<rparr> \<and> isl res = isl c \<and> (\<forall>m. res \<noteq> Inl (AValue m))"
      proof (cases c)
        case (Inl e)
        with run \<open>response_items parsed = Inr items\<close> b Inr c each(2) show ?thesis
          by (intro exI [of _ "dk_esc u"]) (auto simp: respond_batch_def follow_def id)
      next
        case rs: (Inr rs)
        with run \<open>response_items parsed = Inr items\<close> b Inr c show ?thesis
          by (intro exI [of _ "dk_esc s'"]) (auto simp: respond_batch_def follow_def settle_orders_def id split: option.splits)
      qed
      then obtain e where e: "s' = u\<lparr>dk_esc := e\<rparr>" "isl res = isl c" "\<forall>m. res \<noteq> Inl (AValue m)" by blast
      from answered [OF quiet _ e(1,3)] each(1) e(2) show thesis by simp
    qed
  qed
qed

text \<open>
  C24: A batch leaves a complete record.  Whatever a batch ends in, the approvals and denials it
  sent are, in order, exactly the rows it added to the audit, each with the approval, the process,
  the decision and the digest of the reason; no session decided about its own request; and when
  the command returns, every row says how it ended.
\<close>

theorem batch_is_audited:
  fixes s :: "('w \<times> exchange list) desk"
  assumes "ap_client A = logged C" "respond_batch A parsed explicit s = (res, s')"
  shows "\<exists>xs new. desk_log s' = desk_log s @ xs \<and> dk_audit s' = dk_audit s @ new
           \<and> list_all2 (recorded_by A) (filter decides (map fst xs)) new \<and> list_all own_reviewer new
           \<and> (\<not> isl res \<longrightarrow> list_all (\<lambda>r. au_status r \<noteq> Submitting) new)"
proof -
  have "audited A (\<not> isl res) s s'"
    using assms
  proof (cases rule: batch_cases)
    case invalid
    then show ?thesis by (blast intro: quiet_audited)
  next
    case (answered t u e)
    from audited_trans [OF quiet_audited [OF answered(1), of A True] answered(2), of "\<not> isl res"] have "audited A (\<not> isl res) s u" by simp
    with answered(3) show ?thesis by (simp add: audited_esc)
  qed
  then show ?thesis by (simp add: audited_def)
qed


text \<open>
  An answer of the executor that is not JSON is no \<open>CdesktopError\<close>: the batch stops there, the rows
  of what it answered are reported to nobody, and the attempt stays open for ever.
\<close>

lemma unreadable_answer_strands_attempt:
  fixes s :: "('w \<times> exchange list) desk"
  assumes "ap_client A = logged C"
    and "begin_decision A (pr_approval p) approved (pr_kind p) (pr_reviewer p) reason s = (Inr row, s1)"
    and "post_decision A (pr_approval p) approved reason s1 = (Inl (AClient CJson), s2)"
  shows "respond_decision A p approved reason s = (Inl (AClient CJson), s2) \<and> row \<in> set (dk_audit s2) \<and> au_status row = Submitting"
  using assms(2)
proof (cases rule: begin_cases)
  case (recorded r)
  from post_decision_logged [OF assms(1) recorded(3), where reason = reason and s = s1] obtain e w' where
    "post_decision A (pr_approval p) approved reason s1 = (e, s1\<lparr>dk_service := w'\<rparr>)" by metis
  with assms(3) have "dk_audit s2 = dk_audit s1" by auto
  with assms recorded row_fields(8) [OF recorded(3)] show ?thesis by (simp add: respond_decision_def follow_def)
qed simp

subsection \<open>Samples\<close>

definition sample_approval :: val where
  "sample_approval = VDict [(''approval_id'', VStr ''a1''), (''execution_process_id'', VStr ''p1''), (''tool_name'', VStr ''ExitPlanMode'')]"

text \<open>An executor with one pending plan, which accepts every answer.\<close>

definition desk_net :: "http_request \<Rightarrow> nat \<Rightarrow> http_reply \<times> nat" where
  "desk_net q w =
     (HttpBody (Some
       (if hq_path q = ''/approvals'' then VList [sample_approval]
        else if hq_path q = ''/execution-processes/p1'' then VDict [(''session_id'', VStr ''s1'')]
        else if hq_path q = ''/sessions/s1'' then VDict [(''workspace_id'', VStr ''w1'')]
        else if hq_path q = ''/execution-processes/p1/normalized-snapshot'' then VDict [(''complete'', VBool True)]
        else VDict [])), w)"

definition desk_approver :: "(nat \<times> exchange list) approver" where
  "desk_approver = \<lparr>ap_client = logged (Executor.sample_client desk_net), ap_stream = [], ap_int = (\<lambda>_. None), ap_user = ''op'',
     ap_session = None, ap_sha = (\<lambda>s. s), ap_id = (\<lambda>n. replicate n (CHR ''i'')), ap_now = 3, ap_message = (\<lambda>_. [])\<rparr>"

definition empty_desk :: "(nat \<times> exchange list) desk" where
  "empty_desk = \<lparr>dk_service = (0, []), dk_audit = [], dk_esc = empty_esc\<rparr>"

definition approved_plan :: "(aerror + audit_row \<times> val) \<times> (nat \<times> exchange list) desk" where
  "approved_plan = decide_approval desk_approver ''a1'' True False [] None empty_desk"

definition denied_batch :: "(aerror + answered list) \<times> (nat \<times> exchange list) desk" where
  "denied_batch = respond_batch desk_approver
     (Some (VList [VDict [(''approval_id'', VStr ''a1''), (''decision'', VStr ''deny''), (''reason'', VStr ''no'')]])) None empty_desk"

definition half_valid_batch :: "(aerror + answered list) \<times> (nat \<times> exchange list) desk" where
  "half_valid_batch = respond_batch desk_approver
     (Some (VList [VDict [(''approval_id'', VStr ''a1''), (''decision'', VStr ''approve'')], VDict []])) None empty_desk"

lemma desk_client: "ap_client desk_approver = logged (Executor.sample_client desk_net)"
  by (simp add: desk_approver_def)

lemma sample_runs:
  "\<not> isl (fst approved_plan)" "\<not> isl (fst denied_batch)" "length (dk_audit (snd denied_batch)) = 1"
  "(case fst half_valid_batch of Inl (AValue m) \<Rightarrow> m | _ \<Rightarrow> []) = ''Every batch item needs a unique approval_id''"
  by code_simp+
theorem decision_is_audited_witness:
  "\<exists>row. dk_audit (snd approved_plan) = [row] \<and> au_approval row = ''a1'' \<and> au_status row = Responded \<and> au_tool row = ''ExitPlanMode''"
proof -
  have empty: "dk_audit empty_desk = []" by (simp add: empty_desk_def)
  have "decide_approval desk_approver ''a1'' True False [] None empty_desk = (fst approved_plan, snd approved_plan)"
    by (simp add: approved_plan_def)
  from decision_is_audited [OF desk_client this] sample_runs(1) show ?thesis unfolding empty by auto
qed

theorem batch_is_audited_witness:
  "\<exists>row. dk_audit (snd denied_batch) = [row] \<and> au_status row \<noteq> Submitting \<and> own_reviewer row"
proof -
  have empty: "dk_audit empty_desk = []" by (simp add: empty_desk_def)
  have "\<exists>xs new. desk_log (snd denied_batch) = desk_log empty_desk @ xs \<and> dk_audit (snd denied_batch) = dk_audit empty_desk @ new
           \<and> list_all2 (recorded_by desk_approver) (filter decides (map fst xs)) new \<and> list_all own_reviewer new
           \<and> (\<not> isl (fst denied_batch) \<longrightarrow> list_all (\<lambda>r. au_status r \<noteq> Submitting) new)"
    unfolding denied_batch_def by (rule batch_is_audited [OF desk_client prod.collapse [symmetric]])
  then show ?thesis
    using sample_runs(2,3) unfolding empty by (auto simp: length_Suc_conv)
qed


subsection \<open>A finished record stays\<close>

inductive audit_step :: "audit_row list \<Rightarrow> audit_row list \<Rightarrow> bool" where
  "audit_step (dk_audit s) (dk_audit (snd (begin_decision A v approved kind reviewer reason (s :: unit desk))))"
| "audit_step (dk_audit s) (dk_audit (snd (finish_decision A i ok error (s :: unit desk))))"

lemma audit_step_cases:
  assumes "audit_step rows rows'"
  obtains (same) "rows' = rows"
    | (added) row where "rows' = rows @ [row]" "lookup_by au_id (au_id row) rows = None"
    | (settled) A :: "unit approver" and ok error i where "rows' = update_by au_id i (\<lambda>r. au_status r = Submitting) (settle_decision A ok error) rows"
  using assms
proof cases
  case (1 s A v approved kind reviewer reason)
  obtain res s' where run: "begin_decision A v approved kind reviewer reason s = (res, s')" by (rule prod.exhaust)
  then show thesis
    by (cases rule: begin_cases) (use 1 run same added in auto)
next
  case (2 s A i ok error)
  show thesis
  proof (cases "hits_by au_id i (\<lambda>r. au_status r = Submitting) (dk_audit s)")
    case True
    with 2 settled [of i A ok error] show thesis by (simp add: finish_decision_def Let_def)
  next
    case False
    with 2 same show thesis by (simp add: finish_decision_def)
  qed
qed

interpretation audit: settling_system audit_step "[]" "\<lambda>rows. distinct (map au_id rows)" "lookup_by au_id" "\<lambda>r. au_status r \<noteq> Submitting"
proof
  show "distinct (map au_id rows')" if "distinct (map au_id rows)" "audit_step rows rows'" for rows rows'
    using that(2)
    by (cases rule: audit_step_cases)
      (use that(1) in \<open>auto simp: lookup_by_None_iff key_update_by\<close>)
  show "lookup_by au_id i rows' = Some r"
    if "distinct (map au_id rows)" "audit_step rows rows'" "lookup_by au_id i rows = Some r" "au_status r \<noteq> Submitting" for rows rows' i r
    using that(2)
    by (cases rule: audit_step_cases) (use that(3,4) in \<open>auto simp: lookup_by_append lookup_update_by\<close>)
qed simp

lemma finished_decision_stays:
  "audit_step\<^sup>*\<^sup>* [] rows \<Longrightarrow> audit_step\<^sup>*\<^sup>* rows rows' \<Longrightarrow> lookup_by au_id i rows = Some r \<Longrightarrow> au_status r \<noteq> Submitting
   \<Longrightarrow> lookup_by au_id i rows' = Some r"
  by (rule audit.settled_reachable)

end
