(* ===== verification/Leases.thy ===== *)
theory Leases
  imports Machine
begin

text \<open>
  Workspace leases (\<open>leases.py\<close>): one file per lease in a private directory, named by the
  hash of the repository and worktree it is for; the workspace mapping files; and the capability
  files that hold a lease's bearer token.  Every operation runs under the directory's file lock
  (its timeout is not modelled) and visits the files in the order of their names; an operation
  that fails part of the way keeps what it did, so it returns the store with its error.  The
  hash, the canonical form of paths and the clock are parameters.
\<close>

subsection \<open>Leases\<close>

record lease =
  le_token :: string
  le_owner :: string
  le_repo :: string
  le_worktree :: "string option"
  le_created :: real
  le_expires :: real
  le_host :: string
  le_workspace :: "string option"
  le_session :: "string option"

definition expired :: "real \<Rightarrow> lease \<Rightarrow> bool" where
  "expired now l \<longleftrightarrow> le_expires l \<le> now"

definition conflicts :: "lease \<Rightarrow> string \<Rightarrow> string option \<Rightarrow> bool" where
  "conflicts l repo worktree =
     (if le_repo l \<noteq> repo then truthy (le_worktree l) \<and> truthy worktree \<and> le_worktree l = worktree
      else if le_worktree l = None \<or> worktree = None then True
      else le_worktree l = worktree)"

text \<open>A lease file that \<open>Lease.from_dict\<close> cannot read stops the operation that meets it.\<close>

datatype lease_file = Readable lease | Unreadable

datatype space_file = SpaceToken string | SpaceEmpty | SpaceBad

record lease_store =
  ls_files :: "(string \<times> lease_file) list"
  ls_spaces :: "string \<Rightarrow> space_file option"
  ls_caps :: "string \<Rightarrow> string option"

datatype lease_error = BadTtl | LeaseHeld string real | BadLeaseFile | NoLease | OwnerMismatch | WorkspaceMismatch
  | BadMapping | NoWorkspaceLease | MappingWithoutLease | NoRepository | NoContainer

definition lease_key :: "(string \<Rightarrow> string) \<Rightarrow> string \<Rightarrow> string option \<Rightarrow> string" where
  "lease_key sha256 repo worktree =
     take 32 (sha256 (repo @ [char_of (0::nat)] @ (case worktree of None \<Rightarrow> [] | Some w \<Rightarrow> w)))"

definition lease_name :: "(string \<Rightarrow> string) \<Rightarrow> lease \<Rightarrow> string" where
  "lease_name sha256 l = lease_key sha256 (le_repo l) (le_worktree l)"

subsection \<open>Files\<close>

definition in_order :: "lease_store \<Rightarrow> (string \<times> lease_file) list" where
  "in_order s = sort_key fst (ls_files s)"

definition write_lease :: "string \<Rightarrow> lease \<Rightarrow> lease_store \<Rightarrow> lease_store" where
  "write_lease k l s = s\<lparr>ls_files := filter (\<lambda>p. fst p \<noteq> k) (ls_files s) @ [(k, Readable l)]\<rparr>"

definition write_workspace :: "string \<Rightarrow> string \<Rightarrow> lease_store \<Rightarrow> lease_store" where
  "write_workspace ws token s = s\<lparr>ls_spaces := (ls_spaces s)(ws \<mapsto> SpaceToken token)\<rparr>"

definition read_workspace :: "string \<Rightarrow> lease_store \<Rightarrow> lease_error + string option" where
  "read_workspace ws s =
     (case ls_spaces s ws of
        None \<Rightarrow> Inr None
      | Some SpaceBad \<Rightarrow> Inl BadMapping
      | Some SpaceEmpty \<Rightarrow> Inr None
      | Some (SpaceToken t) \<Rightarrow> Inr (if t = [] then None else Some t))"

text \<open>\<open>_remove_locked\<close>: the lease file, its capability file and its workspace mapping.\<close>

definition remove_locked :: "(string \<Rightarrow> string) \<Rightarrow> string \<Rightarrow> lease \<Rightarrow> lease_store \<Rightarrow> lease_store" where
  "remove_locked sha256 k l s =
     s\<lparr>ls_files := filter (\<lambda>p. fst p \<noteq> k) (ls_files s),
       ls_caps := (ls_caps s)(lease_name sha256 l := None),
       ls_spaces := (if truthy (le_workspace l) then (ls_spaces s)(the (le_workspace l) := None) else ls_spaces s)\<rparr>"

definition check_owner :: "lease \<Rightarrow> string option \<Rightarrow> string option \<Rightarrow> lease_error + unit" where
  "check_owner l owner ws =
     (if truthy owner \<and> Some (le_owner l) \<noteq> owner then Inl OwnerMismatch
      else if truthy ws \<and> le_workspace l \<noteq> ws then Inl WorkspaceMismatch
      else Inr ())"

text \<open>The loops of the store: the first file that carries a token, and the readable leases.\<close>

fun find_token :: "string \<Rightarrow> (string \<times> lease_file) list \<Rightarrow> lease_error + (string \<times> lease) option" where
  "find_token token [] = Inr None"
| "find_token token ((k, Unreadable) # fs) = Inl BadLeaseFile"
| "find_token token ((k, Readable l) # fs) = (if le_token l = token then Inr (Some (k, l)) else find_token token fs)"

fun list_leases :: "real \<Rightarrow> bool \<Rightarrow> (string \<times> lease_file) list \<Rightarrow> lease_error + lease list" where
  "list_leases now stale [] = Inr []"
| "list_leases now stale ((k, Unreadable) # fs) = Inl BadLeaseFile"
| "list_leases now stale ((k, Readable l) # fs) =
     ebind (list_leases now stale fs) (\<lambda>ls. Inr (if stale \<or> \<not> expired now l then l # ls else ls))"

definition lease_list :: "real \<Rightarrow> bool \<Rightarrow> lease_store \<Rightarrow> lease_error + lease list" where
  "lease_list now stale s = list_leases now stale (in_order s)"

subsection \<open>Operations\<close>

fun recover_each :: "(string \<Rightarrow> string) \<Rightarrow> real \<Rightarrow> (string \<times> lease_file) list \<Rightarrow> lease_store
  \<Rightarrow> (lease_error + lease list) \<times> lease_store" where
  "recover_each sha256 now [] s = (Inr [], s)"
| "recover_each sha256 now ((k, Unreadable) # fs) s = (Inl BadLeaseFile, s)"
| "recover_each sha256 now ((k, Readable l) # fs) s =
     (if expired now l
      then (case recover_each sha256 now fs (remove_locked sha256 k l s) of
              (Inl e, s') \<Rightarrow> (Inl e, s')
            | (Inr ls, s') \<Rightarrow> (Inr (l # ls), s'))
      else recover_each sha256 now fs s)"

definition recover_stale :: "(string \<Rightarrow> string) \<Rightarrow> real \<Rightarrow> lease_store \<Rightarrow> (lease_error + lease list) \<times> lease_store" where
  "recover_stale sha256 now s = recover_each sha256 now (in_order s) s"

text \<open>The scan of \<open>acquire\<close> and of \<open>assert_spawn_allowed\<close>: expired leases are removed on the way.\<close>

fun scan_leases :: "(string \<Rightarrow> string) \<Rightarrow> (lease \<Rightarrow> bool) \<Rightarrow> real \<Rightarrow> (string \<times> lease_file) list \<Rightarrow> lease_store
  \<Rightarrow> (lease_error + unit) \<times> lease_store" where
  "scan_leases sha256 blocks now [] s = (Inr (), s)"
| "scan_leases sha256 blocks now ((k, Unreadable) # fs) s = (Inl BadLeaseFile, s)"
| "scan_leases sha256 blocks now ((k, Readable l) # fs) s =
     (if expired now l then scan_leases sha256 blocks now fs (remove_locked sha256 k l s)
      else if blocks l then (Inl (LeaseHeld (le_owner l) (le_expires l)), s)
      else scan_leases sha256 blocks now fs s)"

text \<open>
  \<open>acquire\<close>: \<open>now\<close> is the clock before the lock is waited for, \<open>clock\<close> the one the scan reads.
\<close>

definition new_lease ::
  "string \<Rightarrow> string \<Rightarrow> string \<Rightarrow> string option \<Rightarrow> real \<Rightarrow> real \<Rightarrow> string \<Rightarrow> string option \<Rightarrow> string option \<Rightarrow> lease" where
  "new_lease token owner repo worktree ttl now host ws session =
     \<lparr>le_token = token, le_owner = owner, le_repo = repo, le_worktree = worktree, le_created = now,
      le_expires = now + ttl, le_host = host, le_workspace = ws, le_session = session\<rparr>"

definition acquire ::
  "(string \<Rightarrow> string) \<Rightarrow> (string \<Rightarrow> string) \<Rightarrow> string \<Rightarrow> string \<Rightarrow> string \<Rightarrow> string \<Rightarrow> string option \<Rightarrow> real
   \<Rightarrow> string option \<Rightarrow> string option \<Rightarrow> real \<Rightarrow> real \<Rightarrow> lease_store \<Rightarrow> (lease_error + lease) \<times> lease_store" where
  "acquire sha256 canon token host owner repo_path worktree_path ttl ws session now clock s =
     (if ttl \<le> 0 then (Inl BadTtl, s)
      else
        let repo = canon repo_path;
            worktree = (if truthy worktree_path then map_option canon worktree_path else None);
            l = new_lease token owner repo worktree ttl now host ws session
        in case scan_leases sha256 (\<lambda>e. conflicts e repo worktree) clock (in_order s) s of
             (Inl e, s') \<Rightarrow> (Inl e, s')
           | (Inr _, s') \<Rightarrow>
               let s'' = write_lease (lease_key sha256 repo worktree) l s'
               in (Inr l, if truthy ws then write_workspace (the ws) token s'' else s''))"

definition renew_found ::
  "string \<times> lease \<Rightarrow> string option \<Rightarrow> string option \<Rightarrow> real \<Rightarrow> real \<Rightarrow> lease_store \<Rightarrow> (lease_error + lease) \<times> lease_store" where
  "renew_found hit owner ws ttl now s =
     (case hit of (k, l) \<Rightarrow>
        (case check_owner l owner ws of
           Inl e \<Rightarrow> (Inl e, s)
         | Inr _ \<Rightarrow> let l' = l\<lparr>le_expires := now + ttl\<rparr> in (Inr l', write_lease k l' s)))"

definition renew ::
  "string \<Rightarrow> real \<Rightarrow> string option \<Rightarrow> string option \<Rightarrow> real \<Rightarrow> lease_store \<Rightarrow> (lease_error + lease) \<times> lease_store" where
  "renew token ttl owner ws now s =
     (if ttl \<le> 0 then (Inl BadTtl, s)
      else case find_token token (in_order s) of
             Inl e \<Rightarrow> (Inl e, s)
           | Inr None \<Rightarrow> (Inl NoLease, s)
           | Inr (Some hit) \<Rightarrow> renew_found hit owner ws ttl now s)"

definition attach_workspace ::
  "string \<Rightarrow> string \<Rightarrow> string option \<Rightarrow> lease_store \<Rightarrow> (lease_error + lease) \<times> lease_store" where
  "attach_workspace token ws session s =
     (case find_token token (in_order s) of
        Inl e \<Rightarrow> (Inl e, s)
      | Inr None \<Rightarrow> (Inl NoLease, s)
      | Inr (Some (k, l)) \<Rightarrow>
          let l' = l\<lparr>le_workspace := Some ws, le_session := (if truthy session then session else le_session l)\<rparr>
          in (Inr l', write_workspace ws token (write_lease k l' s)))"

definition release_locked ::
  "(string \<Rightarrow> string) \<Rightarrow> string \<Rightarrow> string option \<Rightarrow> string option \<Rightarrow> lease_store \<Rightarrow> (lease_error + lease) \<times> lease_store" where
  "release_locked sha256 token owner ws s =
     (case find_token token (in_order s) of
        Inl e \<Rightarrow> (Inl e, s)
      | Inr None \<Rightarrow> (Inl NoLease, s)
      | Inr (Some (k, l)) \<Rightarrow>
          (case check_owner l owner ws of Inl e \<Rightarrow> (Inl e, s) | Inr _ \<Rightarrow> (Inr l, remove_locked sha256 k l s)))"

definition release_lease ::
  "(string \<Rightarrow> string) \<Rightarrow> string \<Rightarrow> string option \<Rightarrow> string option \<Rightarrow> lease_store \<Rightarrow> (lease_error + lease) \<times> lease_store" where
  "release_lease = release_locked"

definition release_workspace_if_present ::
  "(string \<Rightarrow> string) \<Rightarrow> string \<Rightarrow> lease_store \<Rightarrow> (lease_error + lease option) \<times> lease_store" where
  "release_workspace_if_present sha256 ws s =
     (case read_workspace ws s of
        Inl e \<Rightarrow> (Inl e, s)
      | Inr None \<Rightarrow> (Inr None, s)
      | Inr (Some token) \<Rightarrow>
          (case release_locked sha256 token None (Some ws) s of (Inl e, s') \<Rightarrow> (Inl e, s') | (Inr l, s') \<Rightarrow> (Inr (Some l), s')))"

definition release_workspace ::
  "(string \<Rightarrow> string) \<Rightarrow> string \<Rightarrow> lease_store \<Rightarrow> (lease_error + lease) \<times> lease_store" where
  "release_workspace sha256 ws s =
     (case read_workspace ws s of
        Inl e \<Rightarrow> (Inl e, s)
      | Inr None \<Rightarrow> (Inl NoWorkspaceLease, s)
      | Inr (Some token) \<Rightarrow> release_locked sha256 token None (Some ws) s)"

definition renew_workspace :: "string \<Rightarrow> real \<Rightarrow> real \<Rightarrow> lease_store \<Rightarrow> (lease_error + lease option) \<times> lease_store" where
  "renew_workspace ws ttl now s =
     (if ttl \<le> 0 then (Inl BadTtl, s)
      else case read_workspace ws s of
        Inl e \<Rightarrow> (Inl e, s)
      | Inr None \<Rightarrow> (Inr None, s)
      | Inr (Some token) \<Rightarrow>
          (case find_token token (in_order s) of
             Inl e \<Rightarrow> (Inl e, s)
           | Inr None \<Rightarrow> (Inl MappingWithoutLease, s)
           | Inr (Some hit) \<Rightarrow>
               (case renew_found hit None (Some ws) ttl now s of (Inl e, s') \<Rightarrow> (Inl e, s') | (Inr l, s') \<Rightarrow> (Inr (Some l), s'))))"

definition assert_spawn_allowed ::
  "(string \<Rightarrow> string) \<Rightarrow> (string \<Rightarrow> string) \<Rightarrow> string \<Rightarrow> bool \<Rightarrow> real \<Rightarrow> lease_store \<Rightarrow> (lease_error + unit) \<times> lease_store" where
  "assert_spawn_allowed sha256 canon repo_path use_worktree now s =
     scan_leases sha256 (\<lambda>e. le_repo e = canon repo_path \<and> (\<not> use_worktree \<or> le_worktree e = None)) now (in_order s) s"

text \<open>\<open>lease acquire\<close> writes the token of the lease it got to the capability file, after the lock is released.\<close>

definition emit_capability :: "(string \<Rightarrow> string) \<Rightarrow> lease \<Rightarrow> lease_store \<Rightarrow> lease_store" where
  "emit_capability sha256 l s = s\<lparr>ls_caps := (ls_caps s)(lease_name sha256 l \<mapsto> le_token l)\<rparr>"

subsection \<open>Exclusive leases\<close>

text \<open>Names are unique, every readable lease is under its own name, and no two leases conflict.\<close>

definition leases_in :: "lease_store \<Rightarrow> (string \<times> lease) set" where
  "leases_in s = {(k, l). (k, Readable l) \<in> set (ls_files s)}"

definition exclusive :: "lease_store \<Rightarrow> bool" where
  "exclusive s \<longleftrightarrow>
     (\<forall>(k, l) \<in> leases_in s. \<forall>(k', l') \<in> leases_in s. k \<noteq> k' \<longrightarrow> \<not> conflicts l (le_repo l') (le_worktree l'))"

definition named :: "(string \<Rightarrow> string) \<Rightarrow> lease_store \<Rightarrow> bool" where
  "named sha256 s \<longleftrightarrow> distinct (map fst (ls_files s)) \<and> (\<forall>(k, l) \<in> leases_in s. k = lease_name sha256 l)"

definition lease_inv :: "(string \<Rightarrow> string) \<Rightarrow> lease_store \<Rightarrow> bool" where
  "lease_inv sha256 s \<longleftrightarrow> named sha256 s \<and> exclusive s"

definition covered :: "lease_store \<Rightarrow> bool" where
  "covered s \<longleftrightarrow> dom (ls_caps s) \<subseteq> fst ` set (ls_files s)"

lemma conflicts_sym:
  "conflicts l (le_repo l') (le_worktree l') \<longleftrightarrow> conflicts l' (le_repo l) (le_worktree l)"
  by (auto simp: conflicts_def truthy_def split: option.splits)

lemma leases_in_write:
  "leases_in (write_lease k l s) = {p \<in> leases_in s. fst p \<noteq> k} \<union> {(k, l)}"
  by (auto simp: leases_in_def write_lease_def)

lemma leases_in_remove: "leases_in (remove_locked sha256 k l s) = {p \<in> leases_in s. fst p \<noteq> k}"
  by (auto simp: leases_in_def remove_locked_def)

lemma leases_in_spaces [simp]:
  "leases_in (write_workspace ws t s) = leases_in s" "leases_in (emit_capability sha256 l s) = leases_in s"
  "ls_files (write_workspace ws t s) = ls_files s" "ls_files (emit_capability sha256 l s) = ls_files s"
  "ls_caps (write_workspace ws t s) = ls_caps s"
  by (simp_all add: leases_in_def write_workspace_def emit_capability_def)

lemma lease_inv_spaces [simp]:
  "lease_inv sha256 (write_workspace ws t s) = lease_inv sha256 s"
  "lease_inv sha256 (emit_capability sha256 l s) = lease_inv sha256 s"
  by (simp_all add: lease_inv_def named_def exclusive_def)

lemma distinct_filter_names: "distinct (map fst xs) \<Longrightarrow> distinct (map fst (filter P xs))"
  by (rule distinct_map_filter)

lemma lease_inv_remove: "lease_inv sha256 s \<Longrightarrow> lease_inv sha256 (remove_locked sha256 k l s)"
  by (auto simp: lease_inv_def named_def exclusive_def leases_in_remove)
    (simp add: remove_locked_def distinct_map_filter)

lemma lease_inv_write:
  assumes inv: "lease_inv sha256 s" and name: "k = lease_name sha256 l"
    and free: "\<And>k' l'. (k', l') \<in> leases_in s \<Longrightarrow> k' \<noteq> k \<Longrightarrow> \<not> conflicts l' (le_repo l) (le_worktree l)"
  shows "lease_inv sha256 (write_lease k l s)"
proof -
  have "distinct (map fst (ls_files (write_lease k l s)))"
    using inv by (auto simp: lease_inv_def named_def write_lease_def distinct_map_filter)
  moreover have "\<not> conflicts l (le_repo l') (le_worktree l')" if "(k', l') \<in> leases_in s" "k' \<noteq> k" for k' l'
    using free [OF that] by (simp add: conflicts_sym [of l l'])
  ultimately show ?thesis
    using inv name free by (auto simp: lease_inv_def named_def exclusive_def leases_in_write)
qed

text \<open>A lease that keeps its repository and worktree may be rewritten in place.\<close>

lemma lease_inv_rewrite:
  assumes "lease_inv sha256 s" and "(k, l) \<in> leases_in s"
    and "le_repo l' = le_repo l" "le_worktree l' = le_worktree l"
  shows "lease_inv sha256 (write_lease k l' s)"
  using assms by (intro lease_inv_write) (auto simp: lease_inv_def named_def exclusive_def lease_name_def)

lemma set_in_order [simp]: "set (in_order s) = set (ls_files s)"
  by (simp add: in_order_def)

lemma find_token_SomeD: "find_token t fs = Inr (Some (k, l)) \<Longrightarrow> (k, Readable l) \<in> set fs \<and> le_token l = t"
  by (induction t fs rule: find_token.induct) (auto split: if_splits)

lemma found_lease: "find_token t (in_order s) = Inr (Some (k, l)) \<Longrightarrow> (k, l) \<in> leases_in s \<and> le_token l = t"
  by (auto simp: leases_in_def dest: find_token_SomeD)

lemma recover_each_inv: "lease_inv sha256 s \<Longrightarrow> lease_inv sha256 (snd (recover_each sha256 now fs s))"
  by (induction sha256 now fs s rule: recover_each.induct) (auto split: sum.splits prod.splits simp: lease_inv_remove)

lemma scan_leases_inv: "lease_inv sha256 s \<Longrightarrow> lease_inv sha256 (snd (scan_leases sha256 P now fs s))"
  by (induction sha256 P now fs s rule: scan_leases.induct) (auto intro: lease_inv_remove)

text \<open>A scan that goes through leaves exactly the leases that have not expired, none of which blocks.\<close>

lemma scan_leases_leases:
  assumes "scan_leases sha256 P now fs s = (Inr (), s')" and "set fs \<subseteq> set (ls_files s)" and "distinct (map fst (ls_files s))"
    and "distinct (map fst fs)"
  shows "leases_in s' = {(k, l) \<in> leases_in s. \<not> (expired now l \<and> (k, Readable l) \<in> set fs)}
    \<and> (\<forall>k l. (k, Readable l) \<in> set fs \<longrightarrow> \<not> expired now l \<longrightarrow> \<not> P l)
    \<and> (\<forall>k. (k, Unreadable) \<notin> set fs)"
  using assms
proof (induction sha256 P now fs s rule: scan_leases.induct)
  case (3 sha256 P now k l fs s)
  show ?case
  proof (cases "expired now l")
    case True
    let ?s = "remove_locked sha256 k l s"
    have "set fs \<subseteq> set (ls_files ?s)" "distinct (map fst (ls_files ?s))"
      using 3(4-6) by (force simp: remove_locked_def distinct_map_filter)+
    moreover have "scan_leases sha256 P now fs ?s = (Inr (), s')" using 3(3) True by simp
    ultimately have IH: "leases_in s' = {(k, l) \<in> leases_in ?s. \<not> (expired now l \<and> (k, Readable l) \<in> set fs)}
       \<and> (\<forall>k l. (k, Readable l) \<in> set fs \<longrightarrow> \<not> expired now l \<longrightarrow> \<not> P l) \<and> (\<forall>k. (k, Unreadable) \<notin> set fs)"
      using 3(1) [OF True] 3(6) by simp
    have only: "l' = l" if "(k, l') \<in> leases_in s" for l'
      using that 3(4,5) by (auto simp: leases_in_def dest: eq_key_imp_eq_value)
    show ?thesis using IH True only by (auto simp: leases_in_remove)
  next
    case False
    with 3 show ?thesis by (auto split: if_splits)
  qed
qed (auto split: if_splits)

lemma covered_remove: "covered s \<Longrightarrow> covered (remove_locked sha256 (lease_name sha256 l) l s)"
  by (auto simp: covered_def remove_locked_def image_iff split: if_splits)

lemma covered_write [simp]: "covered s \<Longrightarrow> covered (write_lease k l s)"
  by (auto simp: covered_def write_lease_def image_iff)

lemma covered_spaces [simp]: "covered (write_workspace ws t s) = covered s"
  by (simp add: covered_def)

definition all_named :: "(string \<Rightarrow> string) \<Rightarrow> (string \<times> lease_file) list \<Rightarrow> bool" where
  "all_named sha256 fs \<longleftrightarrow> (\<forall>(k, f) \<in> set fs. \<forall>l. f = Readable l \<longrightarrow> k = lease_name sha256 l)"

lemma all_named_Cons [simp]: "all_named sha256 ((k, Readable l) # fs) \<longleftrightarrow> k = lease_name sha256 l \<and> all_named sha256 fs"
  by (auto simp: all_named_def)

lemma all_named_order: "lease_inv sha256 s \<Longrightarrow> all_named sha256 (in_order s)"
  by (auto simp: lease_inv_def named_def leases_in_def all_named_def)

lemma scan_leases_covered: "all_named sha256 fs \<Longrightarrow> covered s \<Longrightarrow> covered (snd (scan_leases sha256 P now fs s))"
  by (induction sha256 P now fs s rule: scan_leases.induct) (auto intro: covered_remove)

lemma recover_each_covered: "all_named sha256 fs \<Longrightarrow> covered s \<Longrightarrow> covered (snd (recover_each sha256 now fs s))"
  by (induction sha256 now fs s rule: recover_each.induct) (auto split: sum.splits prod.splits simp: covered_remove)

definition lease_ok :: "(string \<Rightarrow> string) \<Rightarrow> lease_store \<Rightarrow> bool" where
  "lease_ok sha256 s \<longleftrightarrow> lease_inv sha256 s \<and> covered s"

lemma lease_ok_scan:
  assumes "lease_ok sha256 s"
  shows "lease_ok sha256 (snd (scan_leases sha256 P now (in_order s) s))"
    "lease_ok sha256 (snd (recover_each sha256 now (in_order s) s))"
  using assms all_named_order [of sha256 s]
  by (auto simp: lease_ok_def scan_leases_inv scan_leases_covered recover_each_inv recover_each_covered)

lemma found_named:
  "lease_ok sha256 s \<Longrightarrow> find_token t (in_order s) = Inr (Some (k, l)) \<Longrightarrow> k = lease_name sha256 l \<and> (k, l) \<in> leases_in s"
  using found_lease [of t s k l] by (auto simp: lease_ok_def lease_inv_def named_def)

lemma release_ok: "lease_ok sha256 s \<Longrightarrow> lease_ok sha256 (snd (release_locked sha256 t owner ws s))"
  using found_named [of sha256 s t]
  by (auto simp: release_locked_def lease_ok_def lease_inv_remove covered_remove split: sum.splits option.splits)

lemma renew_found_ok:
  assumes "lease_ok sha256 s" "(k, l) \<in> leases_in s"
  shows "lease_ok sha256 (snd (renew_found (k, l) owner ws ttl now s))"
  using assms by (auto simp: renew_found_def Let_def lease_ok_def split: sum.splits intro: lease_inv_rewrite)

lemma renew_ok: "lease_ok sha256 s \<Longrightarrow> lease_ok sha256 (snd (renew t ttl owner ws now s))"
  using found_named [of sha256 s t] by (auto simp: renew_def split: sum.splits option.splits intro: renew_found_ok)

lemma attach_ok: "lease_ok sha256 s \<Longrightarrow> lease_ok sha256 (snd (attach_workspace t ws session s))"
  using found_named [of sha256 s t]
  by (auto simp: attach_workspace_def Let_def lease_ok_def split: sum.splits option.splits intro: lease_inv_rewrite)

lemma renew_workspace_ok: "lease_ok sha256 s \<Longrightarrow> lease_ok sha256 (snd (renew_workspace ws ttl now s))"
proof -
  assume ok: "lease_ok sha256 s"
  have "lease_ok sha256 (snd (case renew_found (k, l) None (Some ws) ttl now s of (Inl e, s') \<Rightarrow> (Inl e, s') | (Inr l, s') \<Rightarrow> (Inr (Some l), s')))"
    if "find_token t (in_order s) = Inr (Some (k, l))" for t k l
    using renew_found_ok [OF ok, of k l None "Some ws" ttl now] found_named [OF ok that] by (auto split: sum.splits prod.splits)
  then show ?thesis using ok by (auto simp: renew_workspace_def split: sum.splits option.splits)
qed

lemma release_workspace_ok:
  "lease_ok sha256 s \<Longrightarrow> lease_ok sha256 (snd (release_workspace sha256 ws s))"
  "lease_ok sha256 s \<Longrightarrow> lease_ok sha256 (snd (release_workspace_if_present sha256 ws s))"
  using release_ok [of sha256 s _ None "Some ws"]
  by (auto simp: release_workspace_def release_workspace_if_present_def split: sum.splits option.splits prod.splits)
    (metis snd_conv)+

lemma acquire_success:
  assumes run: "acquire sha256 canon token host owner repo wt ttl ws session now clock s = (Inr l, s')" and inv: "lease_inv sha256 s"
  obtains s1 where "scan_leases sha256 (\<lambda>e. conflicts e (canon repo) (if truthy wt then map_option canon wt else None)) clock (in_order s) s = (Inr (), s1)"
    "l = new_lease token owner (canon repo) (if truthy wt then map_option canon wt else None) ttl now host ws session"
    "leases_in s' = leases_in (write_lease (lease_name sha256 l) l s1)" "ls_caps s' = ls_caps s1"
    "lease_inv sha256 s1" "s' = write_lease (lease_name sha256 l) l s1 \<or> s' = write_workspace (the ws) token (write_lease (lease_name sha256 l) l s1)"
    "leases_in s1 = {(k, e) \<in> leases_in s. \<not> expired clock e}"
    "\<forall>(k, e) \<in> leases_in s. \<not> expired clock e \<longrightarrow> \<not> conflicts e (le_repo l) (le_worktree l)"
    "\<forall>k. (k, Unreadable) \<notin> set (ls_files s)"
proof -
  let ?wt = "if truthy wt then map_option canon wt else None"
  obtain r s1 where c: "scan_leases sha256 (\<lambda>e. conflicts e (canon repo) ?wt) clock (in_order s) s = (r, s1)" by fastforce
  have r: "r = Inr ()" using run c by (cases r) (auto simp: acquire_def Let_def split: if_splits)
  have l: "l = new_lease token owner (canon repo) ?wt ttl now host ws session"
    using run c r by (auto simp: acquire_def Let_def split: if_splits)
  have fields: "le_repo l = canon repo" "le_worktree l = ?wt" by (simp_all add: l new_lease_def)
  have s': "s' = (if truthy ws then write_workspace (the ws) token (write_lease (lease_name sha256 l) l s1) else write_lease (lease_name sha256 l) l s1)"
    using run c r l fields by (auto simp: acquire_def Let_def lease_name_def split: if_splits)
  have dist: "distinct (map fst (ls_files s))" using inv by (simp add: lease_inv_def named_def)
  then have "distinct (map fst (in_order s))" by (simp add: in_order_def distinct_map inj_on_def)
  from scan_leases_leases [OF c [unfolded r] _ dist this]
  have scan: "leases_in s1 = {(k, e) \<in> leases_in s. \<not> (expired clock e \<and> (k, Readable e) \<in> set (ls_files s))}"
    "\<forall>k e. (k, Readable e) \<in> set (ls_files s) \<longrightarrow> \<not> expired clock e \<longrightarrow> \<not> conflicts e (canon repo) ?wt"
    "\<forall>k. (k, Unreadable) \<notin> set (ls_files s)" by auto
  have "lease_inv sha256 s1" using scan_leases_inv [OF inv, of "\<lambda>e. conflicts e (canon repo) ?wt" clock "in_order s"] by (simp add: c)
  then show thesis
  proof (rule that [OF c [unfolded r] l, rotated 2])
    show "leases_in s' = leases_in (write_lease (lease_name sha256 l) l s1)" "ls_caps s' = ls_caps s1"
      "s' = write_lease (lease_name sha256 l) l s1 \<or> s' = write_workspace (the ws) token (write_lease (lease_name sha256 l) l s1)"
      by (simp_all add: s' write_lease_def [of _ _ s1])
    show "leases_in s1 = {(k, e) \<in> leases_in s. \<not> expired clock e}"
      unfolding scan(1) by (auto simp: leases_in_def)
    show "\<forall>(k, e) \<in> leases_in s. \<not> expired clock e \<longrightarrow> \<not> conflicts e (le_repo l) (le_worktree l)"
      unfolding fields using scan(2) by (auto simp: leases_in_def)
  qed (rule scan(3))
qed

lemma acquire_ok: "lease_ok sha256 s \<Longrightarrow> lease_ok sha256 (snd (acquire sha256 canon token host owner repo wt ttl ws session now clock s))"
proof -
  assume ok: "lease_ok sha256 s"
  obtain r s' where run: "acquire sha256 canon token host owner repo wt ttl ws session now clock s = (r, s')" by fastforce
  let ?wt = "if truthy wt then map_option canon wt else None"
  obtain c s1 where c: "scan_leases sha256 (\<lambda>e. conflicts e (canon repo) ?wt) clock (in_order s) s = (c, s1)" by fastforce
  have ok1: "lease_ok sha256 s1" using lease_ok_scan(1) [OF ok, of "\<lambda>e. conflicts e (canon repo) ?wt" clock] by (simp add: c)
  show ?thesis
  proof (cases r)
    case (Inl e)
    then show ?thesis using run c ok ok1 by (auto simp: acquire_def Let_def split: if_splits sum.splits)
  next
    case (Inr l)
    have inv: "lease_inv sha256 s" using ok by (simp add: lease_ok_def)
    obtain s2 where s2: "scan_leases sha256 (\<lambda>e. conflicts e (canon repo) ?wt) clock (in_order s) s = (Inr (), s2)" "lease_inv sha256 s2"
        "s' = write_lease (lease_name sha256 l) l s2 \<or> s' = write_workspace (the ws) token (write_lease (lease_name sha256 l) l s2)"
        "leases_in s2 = {(k, e) \<in> leases_in s. \<not> expired clock e}"
        "\<forall>(k, e) \<in> leases_in s. \<not> expired clock e \<longrightarrow> \<not> conflicts e (le_repo l) (le_worktree l)"
      by (rule acquire_success [OF run [unfolded Inr] inv])
    have "lease_inv sha256 (write_lease (lease_name sha256 l) l s2)"
      by (rule lease_inv_write [OF s2(2) refl]) (use s2(4,5) in auto)
    moreover have "covered s2" using ok1 c s2(1) by (simp add: lease_ok_def)
    ultimately show ?thesis using s2(3) run by (auto simp: lease_ok_def)
  qed
qed

subsection \<open>Every run of the store\<close>

definition empty_leases :: lease_store where
  "empty_leases = \<lparr>ls_files = [], ls_spaces = (\<lambda>_. None), ls_caps = (\<lambda>_. None)\<rparr>"

text \<open>
  One constructor per operation, with any arguments and whether it succeeds or fails.  The
  command that acquires a lease delivers its capability before anybody else uses the store.
\<close>

inductive lease_step :: "(string \<Rightarrow> string) \<Rightarrow> (string \<Rightarrow> string) \<Rightarrow> lease_store \<Rightarrow> lease_store \<Rightarrow> bool"
  for sha256 canon where
  acquired: "acquire sha256 canon token host owner repo wt ttl ws session now clock s = (r, s') \<Longrightarrow> lease_step sha256 canon s s'"
| delivered: "acquire sha256 canon token host owner repo wt ttl ws session now clock s = (Inr l, s')
    \<Longrightarrow> lease_step sha256 canon s (emit_capability sha256 l s')"
| renewed: "renew token ttl owner' ws now s = (r, s') \<Longrightarrow> lease_step sha256 canon s s'"
| attached: "attach_workspace token w session s = (r, s') \<Longrightarrow> lease_step sha256 canon s s'"
| released: "release_lease sha256 token owner' ws s = (r, s') \<Longrightarrow> lease_step sha256 canon s s'"
| released_workspace: "release_workspace sha256 w s = (r, s') \<Longrightarrow> lease_step sha256 canon s s'"
| released_if_present: "release_workspace_if_present sha256 w s = (r', s') \<Longrightarrow> lease_step sha256 canon s s'"
| renewed_workspace: "renew_workspace w ttl now s = (r', s') \<Longrightarrow> lease_step sha256 canon s s'"
| spawned: "assert_spawn_allowed sha256 canon repo use now s = (u, s') \<Longrightarrow> lease_step sha256 canon s s'"
| recovered: "recover_stale sha256 now s = (ls, s') \<Longrightarrow> lease_step sha256 canon s s'"

lemma deliver_ok:
  assumes run: "acquire sha256 canon token host owner repo wt ttl ws session now clock s = (Inr l, s')" and ok: "lease_ok sha256 s"
  shows "lease_ok sha256 (emit_capability sha256 l s')"
proof -
  have inv: "lease_inv sha256 s" using ok by (simp add: lease_ok_def)
  obtain s1 where "s' = write_lease (lease_name sha256 l) l s1 \<or> s' = write_workspace (the ws) token (write_lease (lease_name sha256 l) l s1)"
    by (rule acquire_success [OF run inv])
  then have "lease_name sha256 l \<in> fst ` set (ls_files s')" by (auto simp: write_lease_def)
  moreover have "lease_ok sha256 s'" using acquire_ok [OF ok] run by (metis snd_conv)
  ultimately show ?thesis
    unfolding lease_ok_def lease_inv_spaces by (auto simp: covered_def emit_capability_def dom_def split: if_splits)
qed

interpretation leasing: invariant_system "lease_step sha256 canon" empty_leases "lease_ok sha256" for sha256 canon
proof unfold_locales
  show "lease_ok sha256 empty_leases"
    by (simp add: lease_ok_def lease_inv_def named_def exclusive_def covered_def empty_leases_def leases_in_def)
next
  fix s t assume ok: "lease_ok sha256 s" and step: "lease_step sha256 canon s t"
  from step show "lease_ok sha256 t"
  proof cases
    case (delivered token host owner repo wt ttl ws session now clock l s')
    then show ?thesis using deliver_ok ok by simp
  qed (use ok acquire_ok renew_ok attach_ok release_ok release_workspace_ok renew_workspace_ok lease_ok_scan in
      \<open>simp add: release_lease_def assert_spawn_allowed_def recover_stale_def prod_eq_iff; metis\<close>)+
qed

text \<open>
  C18: Leases are exclusive.  In every state any sequence of operations leads to, failed ones
  included and whatever the clock shows when each reads it, no two leases are for the same
  worktree, and none shares its repository with a lease for the whole repository; each lease
  is in the file of its own identity.  An expired lease may be renewed without breaking this.
\<close>

theorem leases_exclusive:
  assumes "(lease_step sha256 canon)\<^sup>*\<^sup>* empty_leases s"
    and "(k, l) \<in> leases_in s" and "(k', l') \<in> leases_in s" and "k \<noteq> k'"
  shows "\<not> conflicts l (le_repo l') (le_worktree l') \<and> k = lease_name sha256 l"
  using leasing.reachable_inv [OF assms(1)] assms(2-) by (fastforce simp: lease_ok_def lease_inv_def exclusive_def named_def)

text \<open>
  A capability dies with its lease.  In every reachable state a file that holds a bearer
  token belongs to a lease that is still in the store: releasing a lease, recovering a stale
  one and sweeping an expired one out of the way each remove its token file.
\<close>

theorem capability_needs_lease:
  assumes "(lease_step sha256 canon)\<^sup>*\<^sup>* empty_leases s" and "ls_caps s k = Some token"
  shows "k \<in> fst ` set (ls_files s)"
  using leasing.reachable_inv [OF assms(1)] assms(2) by (auto simp: lease_ok_def covered_def)

text \<open>
  A lease is granted exactly when the place is free.  With every file readable, acquiring
  succeeds if and only if no lease that has not expired conflicts; then the leases are those
  that had not expired, unchanged, and the new one (provided the hash of its identity is not
  that of another one's).
\<close>

theorem acquire_iff_free:
  assumes worktree: "worktree = (if truthy wt then map_option canon wt else None)"
    and "lease_inv sha256 s" and "0 < ttl" and "\<forall>(k, f) \<in> set (ls_files s). f \<noteq> Unreadable"
    and "\<forall>(k, e) \<in> leases_in s. k = lease_key sha256 (canon repo) worktree \<longrightarrow> conflicts e (canon repo) worktree"
  shows "case acquire sha256 canon token host owner repo wt ttl ws session now clock s of
      (Inr l, s') \<Rightarrow> (\<forall>(k, e) \<in> leases_in s. \<not> expired clock e \<longrightarrow> \<not> conflicts e (canon repo) worktree)
          \<and> leases_in s' = {(k, e) \<in> leases_in s. \<not> expired clock e} \<union> {(lease_key sha256 (canon repo) worktree, l)}
    | (Inl e, s') \<Rightarrow> \<exists>(k, h) \<in> leases_in s. \<not> expired clock h \<and> conflicts h (canon repo) worktree
          \<and> e = LeaseHeld (le_owner h) (le_expires h)"
proof -
  have blocked: "\<exists>k l. (k, Readable l) \<in> set fs \<and> \<not> expired clock l \<and> P l \<and> e = LeaseHeld (le_owner l) (le_expires l)"
    if "scan_leases sha256 P clock fs u = (Inl e, u')" "\<forall>(k, f) \<in> set fs. f \<noteq> Unreadable" for P fs u u' e
    using that
    by (induction sha256 P clock fs u rule: scan_leases.induct) (auto split: if_splits)
  obtain r s' where run: "acquire sha256 canon token host owner repo wt ttl ws session now clock s = (r, s')" by fastforce
  show ?thesis
  proof (cases r)
    case (Inl e)
    then obtain s1 where "scan_leases sha256 (\<lambda>e. conflicts e (canon repo) worktree) clock (in_order s) s = (Inl e, s1)"
      using run assms(3) by (auto simp: acquire_def Let_def worktree split: sum.splits prod.splits)
    from blocked [OF this] assms(4) show ?thesis by (auto simp: run Inl leases_in_def)
  next
    case (Inr l)
    obtain s1 where a: "l = new_lease token owner (canon repo) worktree ttl now host ws session"
      "leases_in s' = leases_in (write_lease (lease_name sha256 l) l s1)" "leases_in s1 = {(k, e) \<in> leases_in s. \<not> expired clock e}"
      "\<forall>(k, e) \<in> leases_in s. \<not> expired clock e \<longrightarrow> \<not> conflicts e (le_repo l) (le_worktree l)"
      unfolding worktree by (rule acquire_success [OF run [unfolded Inr] assms(2)])
    have n: "lease_name sha256 l = lease_key sha256 (canon repo) worktree" "le_repo l = canon repo" "le_worktree l = worktree"
      by (simp_all add: a(1) new_lease_def lease_name_def)
    have "fst p \<noteq> lease_name sha256 l" if "p \<in> leases_in s1" for p
      using that assms(5) a(3,4) unfolding n by (cases p) auto
    then have "leases_in s' = leases_in s1 \<union> {(lease_name sha256 l, l)}" unfolding a(2) leases_in_write by blast
    with a(3,4) show ?thesis unfolding run Inr n by simp
  qed
qed

subsection \<open>Concrete stores, and what the workspace mappings do not promise\<close>

definition one_lease :: lease_store where
  "one_lease = snd (acquire id id ''t1'' ''h'' ''alice'' ''repo'' None 60 (Some ''w1'') None 0 0 empty_leases)"

lemma one_lease_step: "lease_step id id empty_leases one_lease"
  unfolding one_lease_def by (rule lease_step.acquired [OF prod.collapse [symmetric]])

lemma one_lease_eq:
  "one_lease = \<lparr>ls_files = [(lease_key id ''repo'' None, Readable (new_lease ''t1'' ''alice'' ''repo'' None 60 0 ''h'' (Some ''w1'') None))],
     ls_spaces = [''w1'' \<mapsto> SpaceToken ''t1''], ls_caps = (\<lambda>_. None)\<rparr>"
  by (simp add: one_lease_def acquire_def empty_leases_def in_order_def write_lease_def write_workspace_def truthy_def Let_def)

theorem acquire_iff_free_witness:
  "fst (acquire id id ''t2'' ''h'' ''bob'' ''repo'' (Some ''tree'') 60 None None 30 30 one_lease) = Inl (LeaseHeld ''alice'' 60)
   \<and> (\<exists>l. fst (acquire id id ''t2'' ''h'' ''bob'' ''repo'' (Some ''tree'') 60 None None 61 61 one_lease) = Inr l)"
proof -
  have inv: "lease_inv id one_lease"
    using leasing.reachable_inv [OF r_into_rtranclp [of "lease_step id id", OF one_lease_step]] by (simp add: lease_ok_def)
  have leases: "leases_in one_lease = {(lease_key id ''repo'' None, new_lease ''t1'' ''alice'' ''repo'' None 60 0 ''h'' (Some ''w1'') None)}"
    by (auto simp: leases_in_def one_lease_eq)
  have read: "\<forall>(k, f) \<in> set (ls_files one_lease). f \<noteq> Unreadable" by (simp add: one_lease_eq)
  have meet: "\<forall>(k, e) \<in> leases_in one_lease. k = lease_key id (id ''repo'') (Some ''tree'') \<longrightarrow> conflicts e (id ''repo'') (Some ''tree'')"
    by (simp add: leases conflicts_def new_lease_def)
  have wt: "Some ''tree'' = (if truthy (Some ''tree'') then map_option id (Some ''tree'') else None)" by (simp add: truthy_def)
  note use = acquire_iff_free [OF wt inv _ read meet, where token = "''t2''" and host = "''h''" and owner = "''bob''" and ttl = 60
      and ws = None and session = None]
  have held: "conflicts (new_lease ''t1'' ''alice'' ''repo'' None 60 0 ''h'' (Some ''w1'') None) ''repo'' (Some ''tree'')"
    by (simp add: conflicts_def new_lease_def)
  obtain r s where r: "acquire id id ''t2'' ''h'' ''bob'' ''repo'' (Some ''tree'') 60 None None 30 30 one_lease = (r, s)" by fastforce
  obtain q u where q: "acquire id id ''t2'' ''h'' ''bob'' ''repo'' (Some ''tree'') 60 None None 61 61 one_lease = (q, u)" by fastforce
  have "r = Inl (LeaseHeld ''alice'' 60)"
    using use [of 30 30] held unfolding r leases by (cases r) (auto simp: expired_def new_lease_def)
  moreover have "\<exists>l. q = Inr l"
    using use [of 61 61] unfolding q leases by (cases q) (auto simp: expired_def new_lease_def)
  ultimately show ?thesis by (simp only: r q fst_conv)
qed

theorem leases_exclusive_witness:
  "\<not> conflicts (new_lease ''t1'' ''alice'' ''r1'' None 60 0 ''h'' None None) ''r2'' None
   \<and> lease_name id (new_lease ''t1'' ''alice'' ''r1'' None 60 0 ''h'' None None) = [CHR ''r'', CHR ''1'', char_of (0::nat)]"
proof -
  let ?a = "new_lease ''t1'' ''alice'' ''r1'' None 60 0 ''h'' None None"
  let ?b = "new_lease ''t2'' ''bob'' ''r2'' None 60 0 ''h'' None None"
  let ?s = "\<lparr>ls_files = [(lease_key id ''r1'' None, Readable ?a)], ls_spaces = (\<lambda>_. None), ls_caps = (\<lambda>_. None)\<rparr>"
  let ?u = "\<lparr>ls_files = [(lease_key id ''r1'' None, Readable ?a), (lease_key id ''r2'' None, Readable ?b)],
             ls_spaces = (\<lambda>_. None), ls_caps = (\<lambda>_. None)\<rparr>"
  have k: "lease_key id ''r1'' None = [CHR ''r'', CHR ''1'', char_of (0::nat)]"
    "lease_key id ''r2'' None = [CHR ''r'', CHR ''2'', char_of (0::nat)]" by (simp_all add: lease_key_def)
  have "acquire id id ''t1'' ''h'' ''alice'' ''r1'' None 60 None None 0 0 empty_leases = (Inr ?a, ?s)"
    by (simp add: acquire_def empty_leases_def in_order_def write_lease_def truthy_def Let_def)
  then have "lease_step id id empty_leases ?s" by (rule lease_step.acquired)
  moreover have "acquire id id ''t2'' ''h'' ''bob'' ''r2'' None 60 None None 0 1 ?s = (Inr ?b, ?u)"
    by (simp add: acquire_def in_order_def write_lease_def truthy_def Let_def k expired_def conflicts_def new_lease_def)
  then have "lease_step id id ?s ?u" by (rule lease_step.acquired)
  ultimately have "(lease_step id id)\<^sup>*\<^sup>* empty_leases ?u" by (meson converse_rtranclp_into_rtranclp r_into_rtranclp)
  from leases_exclusive [OF this, of "lease_key id ''r1'' None" ?a "lease_key id ''r2'' None" ?b]
  show ?thesis by (simp add: leases_in_def k new_lease_def)
qed

theorem capability_needs_lease_witness:
  "lease_key id ''repo'' None \<in> fst ` set (ls_files (emit_capability id (new_lease ''t1'' ''alice'' ''repo'' None 60 0 ''h'' (Some ''w1'') None) one_lease))"
proof -
  let ?l = "new_lease ''t1'' ''alice'' ''repo'' None 60 0 ''h'' (Some ''w1'') None"
  have "acquire id id ''t1'' ''h'' ''alice'' ''repo'' None 60 (Some ''w1'') None 0 0 empty_leases = (Inr ?l, one_lease)"
    by (simp add: one_lease_def acquire_def empty_leases_def in_order_def write_lease_def write_workspace_def truthy_def Let_def)
  then have "lease_step id id empty_leases (emit_capability id ?l one_lease)" by (rule lease_step.delivered)
  from capability_needs_lease [OF r_into_rtranclp [of "lease_step id id", OF this], of "lease_key id ''repo'' None" "''t1''"]
  show ?thesis by (simp add: emit_capability_def lease_name_def new_lease_def)
qed

text \<open>
  A lease attached to a second workspace leaves the mapping of the first behind: renewing or
  releasing by the first workspace then fails on every attempt instead of finding no lease.
\<close>

lemma attached_twice_strands_mapping:
  "let s = snd (attach_workspace ''t1'' ''w2'' None one_lease)
   in fst (renew_workspace ''w1'' 60 10 s) = Inl WorkspaceMismatch \<and> fst (release_workspace_if_present id ''w1'' s) = Inl WorkspaceMismatch
      \<and> (\<exists>l. fst (renew_workspace ''w2'' 60 10 s) = Inr (Some l))"
  by (simp add: one_lease_eq attach_workspace_def in_order_def Let_def write_lease_def write_workspace_def truthy_def
      renew_workspace_def release_workspace_if_present_def read_workspace_def renew_found_def release_locked_def check_owner_def new_lease_def)

text \<open>
  A workspace with two leases: its mapping names the second, and releasing the first removes it,
  so the second can no longer be renewed or released by its workspace.
\<close>

lemma second_lease_loses_mapping:
  "let s = snd (acquire id id ''t2'' ''h'' ''alice'' ''other'' None 60 (Some ''w1'') None 1 1 one_lease);
       s' = snd (release_lease id ''t1'' None None s)
   in fst (renew_workspace ''w1'' 60 10 s) \<noteq> Inr None \<and> fst (renew_workspace ''w1'' 60 10 s') = Inr None \<and> leases_in s' \<noteq> {}"
proof -
  have k: "lease_key id ''repo'' None \<noteq> lease_key id ''other'' None" "lease_key id ''other'' None \<noteq> lease_key id ''repo'' None"
    "sort_key fst [(lease_key id ''repo'' None, a), (lease_key id ''other'' None, b)]
       = [(lease_key id ''other'' None, b), (lease_key id ''repo'' None, a)]" for a b
    by (simp_all add: lease_key_def less_list_code less_eq_list_code)
  show ?thesis
    by (simp add: one_lease_eq acquire_def in_order_def Let_def write_lease_def write_workspace_def truthy_def k expired_def
        conflicts_def new_lease_def renew_workspace_def read_workspace_def renew_found_def release_lease_def release_locked_def
        check_owner_def remove_locked_def leases_in_def)
qed

text \<open>The delivery happens outside the lock: a capability written after its lease is gone stays.\<close>

lemma late_capability_outlives_lease:
  "let l = new_lease ''t1'' ''alice'' ''repo'' None 60 0 ''h'' (Some ''w1'') None;
       s = emit_capability id l (snd (release_lease id ''t1'' None None one_lease))
   in leases_in s = {} \<and> ls_caps s (lease_name id l) = Some ''t1''"
  by (simp add: one_lease_eq release_lease_def release_locked_def in_order_def check_owner_def truthy_def remove_locked_def
      emit_capability_def leases_in_def Let_def new_lease_def)

end
